(* ===== verification/Zcp_Prelude.thy ===== *)
theory Zcp_Prelude
  imports Main "HOL-Library.Word" "HOL-Library.Monad_Syntax"
begin

unbundle bit_operations_syntax

text \<open>
  Shared vocabulary of the development: the machine integer types of the C++ sources, the
  result codes of \<^verbatim>\<open>common/include/zarafa/ZarafaCode.h\<close> and of the MAPI layer that the
  modelled functions return, C integer conversions, and generic lemmas on lists and options
  that several components use.

  Conventions. \<open>unsigned int\<close> and \<open>ULONG\<close> are \<open>32 word\<close> where the code's behaviour depends on
  the width, and \<open>nat\<close> where they only count objects that are in memory. A null or dangling
  dereference, like a loop that does not end, is the value \<^term>\<open>None\<close> of a pointer program.
\<close>

type_synonym u8 = "8 word"
type_synonym u16 = "16 word"
type_synonym u32 = "32 word"
type_synonym u64 = "64 word"
type_synonym i64 = "64 word"

text \<open>The \<open>ECRESULT\<close> and \<open>HRESULT\<close> codes that modelled functions return.\<close>

datatype ecresult =
    erSuccess
  | ZARAFA_E_NOT_FOUND
  | ZARAFA_E_NO_ACCESS
  | ZARAFA_E_INVALID_PARAMETER
  | ZARAFA_E_INVALID_BOOKMARK
  | ZARAFA_E_UNABLE_TO_COMPLETE
  | ZARAFA_E_NETWORK_ERROR
  | ZARAFA_E_TIMEOUT
  | ZARAFA_E_DATABASE_ERROR
  | ZARAFA_W_POSITION_CHANGED
  | ZARAFA_W_PARTIAL_COMPLETION

datatype hresult =
    hrSuccess
  | MAPI_E_NOT_FOUND
  | MAPI_E_INVALID_PARAMETER
  | MAPI_E_CORRUPT_DATA
  | MAPI_E_NO_ACCESS
  | MAPI_E_CALL_FAILED
  | MAPI_W_ERRORS_RETURNED
  | E_INVALIDARG
  | S_FALSE
  | MAPI_E_BAD_VALUE
  | MAPI_E_INVALID_OBJECT
  | MAPI_E_INVALID_TYPE
  | MAPI_E_NO_SUPPORT
  | MAPI_E_TOO_COMPLEX
  | MAPI_E_UNKNOWN_FLAGS
  | MAPI_E_NETWORK_ERROR
  | MAPI_E_DISK_ERROR
  | MAPI_E_TIMEOUT
  | MAPI_E_INVALID_BOOKMARK
  | MAPI_E_UNABLE_TO_COMPLETE
  | MAPI_W_PARTIAL_COMPLETION
  | MAPI_W_POSITION_CHANGED

subsection \<open>C integer conversions\<close>

text \<open>Conversion of a mathematical integer to \<open>unsigned int\<close> and to \<open>int\<close>.\<close>

definition to_uint32 :: "int \<Rightarrow> int" where
  "to_uint32 x = x mod 2 ^ 32"

definition to_int32 :: "int \<Rightarrow> int" where
  "to_int32 x = (x + 2 ^ 31) mod 2 ^ 32 - 2 ^ 31"

lemma to_uint32_small [simp]: "0 \<le> x \<Longrightarrow> x < 2 ^ 32 \<Longrightarrow> to_uint32 x = x"
  by (simp add: to_uint32_def)

lemma to_int32_small [simp]: "- (2 ^ 31) \<le> x \<Longrightarrow> x < 2 ^ 31 \<Longrightarrow> to_int32 x = x"
  by (simp add: to_int32_def)

lemma to_int32_uint [simp]: "to_int32 (to_uint32 x) = to_int32 x"
  by (simp add: to_int32_def to_uint32_def mod_simps)

subsection \<open>Runs of operations and their specification\<close>

text \<open>
  A sequence of operations on a state, each with an answer; an operation that does not end or
  fails is \<^term>\<open>None\<close>. The specification is the same on an abstract state, where nothing fails.
\<close>

fun run_steps :: "('i \<Rightarrow> 's \<Rightarrow> ('o \<times> 's) option) \<Rightarrow> 'i list \<Rightarrow> 's \<Rightarrow> ('o list \<times> 's) option" where
  "run_steps f [] s = Some ([], s)"
| "run_steps f (i # is) s = do {
     (x, s) \<leftarrow> f i s;
     (xs, s) \<leftarrow> run_steps f is s;
     Some (x # xs, s)
   }"

fun run_spec :: "('i \<Rightarrow> 'a \<Rightarrow> 'o \<times> 'a) \<Rightarrow> 'i list \<Rightarrow> 'a \<Rightarrow> 'o list \<times> 'a" where
  "run_spec g [] a = ([], a)"
| "run_spec g (i # is) a =
     (let (x, a) = g i a; (xs, a) = run_spec g is a in (x # xs, a))"

text \<open>
  A component implements a specification when every valid operation ends, answers what the
  specification answers, and leaves related states; then whole runs do.
\<close>

locale implements =
  fixes valid :: "'i \<Rightarrow> bool" and step :: "'i \<Rightarrow> 's \<Rightarrow> ('o \<times> 's) option"
    and spec :: "'i \<Rightarrow> 'a \<Rightarrow> 'o \<times> 'a" and shows_as :: "'s \<Rightarrow> 'a \<Rightarrow> bool"
  assumes simulates: "shows_as s a \<Longrightarrow> valid i \<Longrightarrow>
    \<exists>s'. step i s = Some (fst (spec i a), s') \<and> shows_as s' (snd (spec i a))"
begin

lemma run_simulates:
  assumes "shows_as s a" "list_all valid is"
  shows "\<exists>s'. run_steps step is s = Some (fst (run_spec spec is a), s') \<and> shows_as s' (snd (run_spec spec is a))"
  using assms
proof (induction "is" arbitrary: s a)
  case (Cons i "is")
  from simulates[OF Cons.prems(1), of i] Cons.prems(2) obtain s1 where
    s1: "step i s = Some (fst (spec i a), s1)" "shows_as s1 (snd (spec i a))" by auto
  from Cons.IH[OF s1(2)] Cons.prems(2) obtain s2 where
    "run_steps step is s1 = Some (fst (run_spec spec is (snd (spec i a))), s2)"
    "shows_as s2 (snd (run_spec spec is (snd (spec i a))))" by auto
  then show ?case using s1(1) by (auto simp: Let_def split: prod.splits)
qed simp

end

end
