(* ===== verification/Key_Order.thy ===== *)
theory Key_Order
  imports Zcp_Prelude "HOL-Library.List_Lexorder" "HOL-Library.Product_Lexorder"
begin

text \<open>
  The row order of \<^verbatim>\<open>common/ECKeyTable.cpp\<close>: the sort columns that a table row carries
  and \<open>ECTableRow::rowcompare\<close> with its prefix variant, together with the proof that it is a
  strict weak order on rows that agree on their column flags.
\<close>

subsection \<open>Row identifiers and sort columns\<close>

text \<open>\<open>struct sObjectTableKey\<close> of \<^verbatim>\<open>common/include/zarafa/ECKeyTable.h\<close>.\<close>

record okey =
  ulObjId :: u32
  ulOrderId :: u32

definition zero_key :: okey where
  "zero_key = \<lparr>ulObjId = 0, ulOrderId = 0\<rparr>"

definition okey_less :: "okey \<Rightarrow> okey \<Rightarrow> bool" where
  "okey_less a b \<longleftrightarrow>
     ulObjId a < ulObjId b \<or> (ulObjId a = ulObjId b \<and> ulOrderId a < ulOrderId b)"

text \<open>
  One sort column of a row: its entry of \<open>lpFlags\<close> and its entry of \<open>lppSortKeys\<close>. The entry of
  \<open>lpSortLen\<close> is the length of the key, which is how the constructor of a row copies it (lengths
  of \<open>2 ^ 31\<close> and more do not occur). A null \<open>lpFlags\<close> compares like flags that are all 0.
\<close>

record sortcol =
  sc_flags :: u8
  sc_key :: "u8 list"

definition TABLEROW_FLAG_DESC :: u8 where "TABLEROW_FLAG_DESC = 1"
definition TABLEROW_FLAG_FLOAT :: u8 where "TABLEROW_FLAG_FLOAT = 2"
definition TABLEROW_FLAG_STRING :: u8 where "TABLEROW_FLAG_STRING = 4"

definition has_flag :: "sortcol \<Rightarrow> u8 \<Rightarrow> bool" where
  "has_flag c f \<longleftrightarrow> sc_flags c AND f \<noteq> 0"

lemmas flag_defs = TABLEROW_FLAG_DESC_def TABLEROW_FLAG_FLOAT_def TABLEROW_FLAG_STRING_def
  has_flag_def

subsection \<open>Comparing one column\<close>

text \<open>
  The C library's \<open>memcmp\<close> on the common prefix of two buffers: the sign is that of the first
  pair of bytes that differ, read as unsigned.
\<close>

fun memcmp :: "u8 list \<Rightarrow> u8 list \<Rightarrow> int" where
  "memcmp (a # as) (b # bs) = (if a < b then -1 else if b < a then 1 else memcmp as bs)"
| "memcmp _ _ = 0"

text \<open>
  A \<open>double\<close> behind an \<open>unsigned char *\<close> on the little-endian targets: eight bytes with the least
  significant first, and the order of IEEE 754 values, in which a NaN is neither equal to nor
  less than anything and the two zeros are equal.
\<close>

fun le_nat :: "u8 list \<Rightarrow> nat" where
  "le_nat [] = 0"
| "le_nat (b # bs) = unat b + 256 * le_nat bs"

definition dbl_magnitude :: "u8 list \<Rightarrow> nat" where
  "dbl_magnitude bs = le_nat bs mod 2 ^ 63"

definition dbl_nan :: "u8 list \<Rightarrow> bool" where
  "dbl_nan bs \<longleftrightarrow> dbl_magnitude bs > 2047 * 2 ^ 52"

definition dbl_key :: "u8 list \<Rightarrow> int" where
  "dbl_key bs = (if le_nat bs div 2 ^ 63 mod 2 = 1
     then - int (dbl_magnitude bs) else int (dbl_magnitude bs))"

definition dbl_cmp :: "u8 list \<Rightarrow> u8 list \<Rightarrow> int" where
  "dbl_cmp a b =
     (if \<not> dbl_nan a \<and> \<not> dbl_nan b \<and> dbl_key a = dbl_key b then 0
      else if \<not> dbl_nan a \<and> \<not> dbl_nan b \<and> dbl_key a < dbl_key b then -1
      else 1)"

text \<open>
  \<open>compareSortKeys\<close> of \<^verbatim>\<open>common/ustringutil.cpp\<close> in the build without ICU: the keys are
  zero-terminated \<open>wchar_t\<close> strings of four bytes per character, compared by \<open>wcscmp\<close>.
\<close>

fun wchars :: "u8 list \<Rightarrow> nat list" where
  "wchars (a # b # c # d # bs) =
     (let w = le_nat [a, b, c, d] in if w = 0 then [] else w # wchars bs)"
| "wchars _ = []"

fun wcscmp :: "nat list \<Rightarrow> nat list \<Rightarrow> int" where
  "wcscmp [] [] = 0"
| "wcscmp [] (b # bs) = -1"
| "wcscmp (a # as) [] = 1"
| "wcscmp (a # as) (b # bs) = (if a < b then -1 else if b < a then 1 else wcscmp as bs)"

definition compareSortKeys :: "u8 list \<Rightarrow> u8 list \<Rightarrow> int" where
  "compareSortKeys k1 k2 =
     (if k1 = [] then (if k2 = [] then 0 else -1)
      else if k2 = [] then 1
      else wcscmp (wchars k1) (wchars k2))"

text \<open>The \<open>cmp\<close> that the loop of \<open>rowcompare\<close> computes for one column; the flags are those of a.\<close>

definition col_cmp :: "sortcol \<Rightarrow> sortcol \<Rightarrow> int" where
  "col_cmp a b =
     (if has_flag a TABLEROW_FLAG_FLOAT then
        (if length (sc_key a) \<noteq> 8 \<or> length (sc_key b) \<noteq> 8 then 0
         else dbl_cmp (sc_key a) (sc_key b))
      else if has_flag a TABLEROW_FLAG_STRING then compareSortKeys (sc_key a) (sc_key b)
      else memcmp (sc_key a) (sc_key b))"

subsection \<open>Comparing rows\<close>

text \<open>
  The static \<open>ECTableRow::rowcompare\<close>. The loop over the common columns is a recursion on both
  column lists; when it runs out, the row with fewer columns is first. At the first column that
  differs, a descending flag flips the answer unless \<open>fIgnoreOrder\<close> is set.
\<close>

fun rowcompare_gen :: "bool \<Rightarrow> sortcol list \<Rightarrow> sortcol list \<Rightarrow> bool" where
  "rowcompare_gen ign (a # as) (b # bs) =
     (let cmp = col_cmp a b;
          flip = (\<lambda>ret. if \<not> ign \<and> has_flag a TABLEROW_FLAG_DESC then \<not> ret else ret)
      in if cmp < 0 then flip True
         else if cmp = 0 then
           (if length (sc_key a) = length (sc_key b) then rowcompare_gen ign as bs
            else flip (length (sc_key a) < length (sc_key b)))
         else flip False)"
| "rowcompare_gen ign as bs = (length as < length bs)"

abbreviation rowcompare :: "sortcol list \<Rightarrow> sortcol list \<Rightarrow> bool" where
  "rowcompare \<equiv> rowcompare_gen False"

definition rowcompareprefix :: "nat \<Rightarrow> sortcol list \<Rightarrow> sortcol list \<Rightarrow> bool" where
  "rowcompareprefix n as bs =
     rowcompare (take n as) (take n bs)"

subsection \<open>The order of rows\<close>

text \<open>The sign of a column, with the lengths where the contents agree.\<close>

definition col_less :: "sortcol \<Rightarrow> sortcol \<Rightarrow> bool" where
  "col_less a b \<longleftrightarrow> col_cmp a b < 0 \<or> (col_cmp a b = 0 \<and> length (sc_key a) < length (sc_key b))"

definition sane :: "sortcol \<Rightarrow> bool" where
  "sane c \<longleftrightarrow> (has_flag c TABLEROW_FLAG_FLOAT \<longrightarrow> length (sc_key c) = 8 \<and> \<not> dbl_nan (sc_key c))"

lemma Nil_less [simp]: "[] < ys \<longleftrightarrow> ys \<noteq> []"
  by (cases ys) auto

lemma memcmp_lex:
  "memcmp as bs < 0 \<or> (memcmp as bs = 0 \<and> length as < length bs) \<longleftrightarrow> as < bs"
  by (induction as bs rule: memcmp.induct) (auto simp: not_less_iff_gr_or_eq)

lemma memcmp_zero: "memcmp as bs = 0 \<and> length as = length bs \<longleftrightarrow> as = bs"
  by (induction as bs rule: memcmp.induct) auto

lemma wcscmp_lex: "wcscmp as bs < 0 \<longleftrightarrow> as < bs" "wcscmp as bs = 0 \<longleftrightarrow> as = bs"
  by (induction as bs rule: wcscmp.induct) auto

lemma compareSortKeys_lex:
  "compareSortKeys a b < 0 \<or> (compareSortKeys a b = 0 \<and> length a < length b) \<longleftrightarrow>
   (wchars a, length a) < (wchars b, length b)"
  "compareSortKeys a b = 0 \<and> length a = length b \<longleftrightarrow> (wchars a, length a) = (wchars b, length b)"
  by (auto simp: compareSortKeys_def wcscmp_lex)

text \<open>The rank of a column: its three kinds of contents in one linear order.\<close>

definition col_rank :: "sortcol \<Rightarrow> int \<times> nat list \<times> u8 list \<times> nat" where
  "col_rank c =
     (if has_flag c TABLEROW_FLAG_FLOAT then (dbl_key (sc_key c), [], [], 0)
      else if has_flag c TABLEROW_FLAG_STRING then (0, wchars (sc_key c), [], length (sc_key c))
      else (0, [], sc_key c, 0))"

lemma has_flag_eq: "sc_flags a = sc_flags b \<Longrightarrow> has_flag a f = has_flag b f"
  by (simp add: has_flag_def)

lemma col_less_rank:
  assumes "sc_flags a = sc_flags b" "sane a" "sane b"
  shows "col_less a b \<longleftrightarrow> col_rank a < col_rank b"
    "col_cmp a b = 0 \<and> length (sc_key a) = length (sc_key b) \<longleftrightarrow> col_rank a = col_rank b"
proof -
  note f = has_flag_eq[OF assms(1)]
  have fl: "has_flag a TABLEROW_FLAG_FLOAT \<Longrightarrow> length (sc_key a) = 8 \<and> length (sc_key b) = 8 \<and>
      \<not> dbl_nan (sc_key a) \<and> \<not> dbl_nan (sc_key b)"
    using assms f by (auto simp: sane_def)
  show "col_less a b \<longleftrightarrow> col_rank a < col_rank b"
    using fl f memcmp_lex[of "sc_key a" "sc_key b"] compareSortKeys_lex(1)[of "sc_key a" "sc_key b"]
    by (auto simp: col_less_def col_rank_def col_cmp_def dbl_cmp_def)
  show "col_cmp a b = 0 \<and> length (sc_key a) = length (sc_key b) \<longleftrightarrow> col_rank a = col_rank b"
    using fl f memcmp_zero[of "sc_key a" "sc_key b"] compareSortKeys_lex(2)[of "sc_key a" "sc_key b"]
    by (auto simp: col_rank_def col_cmp_def dbl_cmp_def)
qed

text \<open>
  The row order as a lexicographic order, with descending columns turned round. The rows of a table
  use a common list of column flags; the headers of groups have its first columns only.
\<close>

definition col_before :: "sortcol \<Rightarrow> sortcol \<Rightarrow> bool" where
  "col_before a b \<longleftrightarrow> (if has_flag a TABLEROW_FLAG_DESC then col_rank b < col_rank a
                     else col_rank a < col_rank b)"

definition fits :: "u8 list \<Rightarrow> sortcol list \<Rightarrow> bool" where
  "fits fl cs \<longleftrightarrow> length cs \<le> length fl \<and> map sc_flags cs = take (length cs) fl \<and> list_all sane cs"

lemma fits_Nil [simp]: "fits [] cs \<longleftrightarrow> cs = []"
  by (auto simp: fits_def)

lemma fits_Cons:
  "fits (f # fl) cs \<longleftrightarrow> cs = [] \<or> (\<exists>c cs'. cs = c # cs' \<and> sc_flags c = f \<and> sane c \<and> fits fl cs')"
  by (cases cs) (auto simp: fits_def)

lemma rowcompare_Nil_left [simp]: "rowcompare [] bs \<longleftrightarrow> bs \<noteq> []"
  by (cases bs) simp_all

lemma rowcompare_Nil_right [simp]: "\<not> rowcompare as []"
  by (cases as) simp_all

lemma rowcompare_Cons:
  assumes "sc_flags a = sc_flags b" "sane a" "sane b"
  shows "rowcompare (a # as) (b # bs) \<longleftrightarrow>
    col_before a b \<or> (col_rank a = col_rank b \<and> rowcompare as bs)"
proof -
  let ?eq = "col_cmp a b = 0 \<and> length (sc_key a) = length (sc_key b)"
  have "rowcompare (a # as) (b # bs) \<longleftrightarrow>
      (if has_flag a TABLEROW_FLAG_DESC then \<not> col_less a b \<and> \<not> ?eq else col_less a b) \<or>
      (?eq \<and> rowcompare as bs)"
    by (cases "col_cmp a b" "0 :: int" rule: linorder_cases)
      (simp_all add: Let_def col_less_def)
  also have "\<dots> \<longleftrightarrow> col_before a b \<or> (col_rank a = col_rank b \<and> rowcompare as bs)"
    unfolding col_less_rank[OF assms] col_before_def
    by (cases "col_rank a" "col_rank b" rule: linorder_cases) (auto dest: less_not_sym)
  finally show ?thesis .
qed

text \<open>
  On rows with the same column flags and sane keys the row order is a strict weak order, and
  every descending column is turned round.
\<close>

lemma rowcompare_asym: "fits fl as \<Longrightarrow> fits fl bs \<Longrightarrow> rowcompare as bs \<Longrightarrow> \<not> rowcompare bs as"
proof (induction fl arbitrary: as bs)
  case (Cons f fl)
  show ?case
  proof (cases "as = [] \<or> bs = []")
    case False
    with Cons.prems(1,2) obtain a as' b bs' where c: "as = a # as'" "bs = b # bs'" "sc_flags a = sc_flags b"
    "sane a" "sane b" "fits fl as'" "fits fl bs'" by (auto simp: fits_Cons)
    note r = rowcompare_Cons[OF c(3-5)] rowcompare_Cons[OF c(3)[symmetric] c(5,4)]
    show ?thesis using Cons.prems(3) Cons.IH[OF c(6,7)] has_flag_eq[OF c(3)] unfolding c(1,2) r col_before_def
      by (auto split: if_splits)
  next
    case True
    then show ?thesis using Cons.prems(3) by auto
  qed
qed simp

lemma rowcompare_negtrans:
  "fits fl as \<Longrightarrow> fits fl bs \<Longrightarrow> fits fl cs \<Longrightarrow> rowcompare as cs \<Longrightarrow>
    rowcompare as bs \<or> rowcompare bs cs"
proof (induction fl arbitrary: as bs cs)
  case (Cons f fl)
  show ?case
  proof (cases "as = [] \<or> bs = [] \<or> cs = []")
    case True
    then show ?thesis using Cons.prems(4) by (cases as; cases bs; cases cs) auto
  next
    case False
    with Cons.prems(1-3) obtain a as' b bs' c cs' where
    c: "as = a # as'" "bs = b # bs'" "cs = c # cs'" "sc_flags a = sc_flags b" "sc_flags b = sc_flags c"
    "sc_flags a = sc_flags c" "sane a" "sane b" "sane c" "fits fl as'" "fits fl bs'" "fits fl cs'"
    by (auto simp: fits_Cons)
    note r = rowcompare_Cons[OF c(4,7,8)] rowcompare_Cons[OF c(5,8,9)] rowcompare_Cons[OF c(6,7,9)]
    show ?thesis using Cons.prems(4) Cons.IH[OF c(10-12)] has_flag_eq[OF c(4)] has_flag_eq[OF c(5)]
    unfolding c(1-3) r col_before_def
    by (cases "col_rank a" "col_rank b" rule: linorder_cases; cases "col_rank b" "col_rank c" rule: linorder_cases)
      (auto split: if_splits)
  qed
qed simp

subsection \<open>Lists in a row order\<close>

text \<open>
  What the key table needs of its row order: the rows \<open>S\<close> that may meet in one table, and a strict
  weak order on them. Rows that neither is before the other keep the order of their insertion.
\<close>

locale row_order =
  fixes S :: "'a \<Rightarrow> bool" and before :: "'a \<Rightarrow> 'a \<Rightarrow> bool"
  assumes asym: "S x \<Longrightarrow> S y \<Longrightarrow> before x y \<Longrightarrow> \<not> before y x"
    and negtrans: "S x \<Longrightarrow> S y \<Longrightarrow> S z \<Longrightarrow> before x z \<Longrightarrow> before x y \<or> before y z"
begin

definition in_order :: "'a list \<Rightarrow> bool" where
  "in_order xs \<longleftrightarrow> list_all S xs \<and> sorted_wrt (\<lambda>x y. \<not> before y x) xs"

lemma irrefl: "S x \<Longrightarrow> \<not> before x x"
  using asym by blast

lemma trans: "S x \<Longrightarrow> S y \<Longrightarrow> S z \<Longrightarrow> before x y \<Longrightarrow> before y z \<Longrightarrow> before x z"
  using asym negtrans by blast

lemma in_order_simps [simp]:
  "in_order []"
  "in_order (x # xs) \<longleftrightarrow> S x \<and> (\<forall>y \<in> set xs. \<not> before y x) \<and> in_order xs"
  by (auto simp: in_order_def)

lemma in_order_append:
  "in_order (xs @ ys) \<longleftrightarrow> in_order xs \<and> in_order ys \<and> (\<forall>x \<in> set xs. \<forall>y \<in> set ys. \<not> before y x)"
  by (induction xs) auto

text \<open>The rows that a new row is before are the tail of a list in order.\<close>

lemma tail_before:
  "in_order xs \<Longrightarrow> S z \<Longrightarrow> sorted_wrt (\<lambda>x y. before z x \<longrightarrow> before z y) xs"
proof (induction xs)
  case (Cons x xs)
  then have "S y \<and> \<not> before y x" if "y \<in> set xs" for y
    using that by (auto simp: in_order_def list_all_iff)
  then show ?case using Cons negtrans[of z _ x] by auto
qed simp

lemma place_in_order:
  assumes "in_order xs" "S z" "xs = ys @ zs" "\<forall>y \<in> set ys. \<not> before z y" "\<forall>x \<in> set zs. before z x"
  shows "in_order (ys @ z # zs)"
proof -
  have a: "in_order ys" "in_order zs" "\<forall>x \<in> set ys. \<forall>y \<in> set zs. \<not> before y x"
    using assms(1) unfolding assms(3) in_order_append by auto
  have "\<forall>x \<in> set zs. \<not> before x z"
    using a(2) assms(2,5) asym by (auto simp: in_order_def list_all_iff)
  then show ?thesis using a assms(2,4) by (simp add: in_order_append)
qed

lemma filter_in_order: "in_order xs \<Longrightarrow> in_order (filter P xs)"
  by (induction xs) auto

end

interpretation rows: row_order "fits fl" rowcompare for fl :: "u8 list"
  by unfold_locales (fact rowcompare_asym, fact rowcompare_negtrans)

end
