(* ===== verification/Key_Table.thy ===== *)
theory Key_Table
  imports Key_Order
begin

text \<open>
  \<^verbatim>\<open>ECKeyTable\<close> of \<^verbatim>\<open>common/ECKeyTable.cpp\<close>, operation by operation, on an explicit store of
  row objects: the code mutates parent, left and right pointers in place, keeps a cursor, a map
  from row ids to rows and bookmarks that all alias the same objects, and goes on reading a row
  that it has already unlinked, so the aliasing is part of the behaviour. A pointer is an address
  (a natural number) or null; reading a null or freed address makes the operation \<^term>\<open>None\<close>,
  and so does a loop that does not end.
\<close>

subsection \<open>Row objects, the store and the table\<close>

record trow =
  tr_key :: okey
  tr_cols :: "sortcol list"
  tr_parent :: "nat option"
  tr_left :: "nat option"
  tr_right :: "nat option"
  tr_count :: nat
  tr_height :: nat
  tr_fLeft :: bool
  tr_fRoot :: bool
  tr_fHidden :: bool

type_synonym heap = "nat \<Rightarrow> trow option"

text \<open>The constructor \<open>ECTableRow::ECTableRow\<close>: an unlinked row.\<close>

definition new_row :: "okey \<Rightarrow> sortcol list \<Rightarrow> bool \<Rightarrow> trow" where
  "new_row k cols hidden =
     \<lparr>tr_key = k, tr_cols = cols, tr_parent = None, tr_left = None, tr_right = None,
      tr_count = 0, tr_height = 0, tr_fLeft = False, tr_fRoot = False, tr_fHidden = hidden\<rparr>"

record bookmark =
  bm_first :: nat
  bm_pos :: "nat option"

record keytable =
  kt_heap :: heap
  kt_root :: nat
  kt_cur :: "nat option"
  kt_map :: "okey \<Rightarrow> nat option"
  kt_bms :: "(nat \<times> bookmark) list"
  kt_bmpos :: nat
  kt_next :: nat

text \<open>The constructor of the table: a root row that is before every other row.\<close>

definition ECKeyTable :: keytable where
  "ECKeyTable =
     \<lparr>kt_heap = [0 \<mapsto> (new_row zero_key [] False)\<lparr>tr_fRoot := True\<rparr>], kt_root = 0,
      kt_cur = Some 0, kt_map = Map.empty, kt_bms = [], kt_bmpos = 3, kt_next = 1\<rparr>"

text \<open>Assignment to a field of the row at an address.\<close>

definition upd :: "heap \<Rightarrow> nat \<Rightarrow> (trow \<Rightarrow> trow) \<Rightarrow> heap option" where
  "upd h p f = (case h p of None \<Rightarrow> None | Some n \<Rightarrow> Some (h(p \<mapsto> f n)))"

text \<open>The static \<open>rowcompare\<close> on two row objects: the root row is before every other row.\<close>

definition rowcompare_rows :: "trow \<Rightarrow> trow \<Rightarrow> bool" where
  "rowcompare_rows a b =
     (if tr_fRoot a \<and> \<not> tr_fRoot b then True
      else if tr_fRoot b then False
      else rowcompare (tr_cols a) (tr_cols b))"

subsection \<open>Counts, heights and rotations\<close>

text \<open>The cached fields of a child, 0 where the pointer is null.\<close>

definition child_count :: "heap \<Rightarrow> nat option \<Rightarrow> nat option" where
  "child_count h p = (case p of None \<Rightarrow> Some 0 | Some a \<Rightarrow> map_option tr_count (h a))"

definition child_height :: "heap \<Rightarrow> nat option \<Rightarrow> nat option" where
  "child_height h p = (case p of None \<Rightarrow> Some 0 | Some a \<Rightarrow> map_option tr_height (h a))"

text \<open>\<open>UpdateCounts\<close>: recompute the cached fields of a row and of every row above it.\<close>

partial_function (option) UpdateCounts :: "nat \<Rightarrow> heap \<Rightarrow> nat option \<Rightarrow> heap option" where
  "UpdateCounts root h p =
     (case p of None \<Rightarrow> Some h
      | Some a \<Rightarrow> do {
          n \<leftarrow> h a;
          lc \<leftarrow> child_count h (tr_left n);
          rc \<leftarrow> child_count h (tr_right n);
          lh \<leftarrow> child_height h (tr_left n);
          rh \<leftarrow> child_height h (tr_right n);
          let own = (if a = root \<or> tr_fHidden n then 0 else 1);
          let base = (if a = root then 0 else 1);
          UpdateCounts root
            (h(a \<mapsto> n\<lparr>tr_count := own + lc + rc, tr_height := base + max lh rh\<rparr>))
            (tr_parent n)
        })"

text \<open>Make \<open>c\<close> the child of \<open>q\<close> on the side that the flag names.\<close>

definition set_child :: "heap \<Rightarrow> nat \<Rightarrow> bool \<Rightarrow> nat option \<Rightarrow> heap option" where
  "set_child h q left c =
     upd h q (\<lambda>n. if left then n\<lparr>tr_left := c\<rparr> else n\<lparr>tr_right := c\<rparr>)"

text \<open>If the pointer is not null, assign the parent and the side of the row it points to.\<close>

definition set_up :: "heap \<Rightarrow> nat option \<Rightarrow> nat option \<Rightarrow> bool \<Rightarrow> heap option" where
  "set_up h p par left =
     (case p of None \<Rightarrow> Some h
      | Some a \<Rightarrow> upd h a (\<lambda>n. n\<lparr>tr_parent := par, tr_fLeft := left\<rparr>))"

definition RotateL :: "nat \<Rightarrow> heap \<Rightarrow> nat \<Rightarrow> heap option" where
  "RotateL root h pivot = do {
     P \<leftarrow> h pivot;
     l \<leftarrow> tr_left P;
     h \<leftarrow> upd h l (\<lambda>n. n\<lparr>tr_parent := tr_parent P, tr_fLeft := tr_fLeft P\<rparr>);
     pp \<leftarrow> tr_parent P;
     h \<leftarrow> set_child h pp (tr_fLeft P) (Some l);
     L \<leftarrow> h l;
     h \<leftarrow> upd h pivot (\<lambda>n. n\<lparr>tr_left := tr_right L\<rparr>);
     h \<leftarrow> set_up h (tr_right L) (Some pivot) True;
     h \<leftarrow> upd h l (\<lambda>n. n\<lparr>tr_right := Some pivot\<rparr>);
     h \<leftarrow> upd h pivot (\<lambda>n. n\<lparr>tr_parent := Some l, tr_fLeft := False\<rparr>);
     h \<leftarrow> UpdateCounts root h (Some pivot);
     UpdateCounts root h (Some l)
   }"

definition RotateR :: "nat \<Rightarrow> heap \<Rightarrow> nat \<Rightarrow> heap option" where
  "RotateR root h pivot = do {
     P \<leftarrow> h pivot;
     r \<leftarrow> tr_right P;
     h \<leftarrow> upd h r (\<lambda>n. n\<lparr>tr_parent := tr_parent P, tr_fLeft := tr_fLeft P\<rparr>);
     pp \<leftarrow> tr_parent P;
     h \<leftarrow> set_child h pp (tr_fLeft P) (Some r);
     R \<leftarrow> h r;
     h \<leftarrow> upd h pivot (\<lambda>n. n\<lparr>tr_right := tr_left R\<rparr>);
     h \<leftarrow> set_up h (tr_left R) (Some pivot) False;
     h \<leftarrow> upd h r (\<lambda>n. n\<lparr>tr_left := Some pivot\<rparr>);
     h \<leftarrow> upd h pivot (\<lambda>n. n\<lparr>tr_parent := Some r, tr_fLeft := True\<rparr>);
     h \<leftarrow> UpdateCounts root h (Some pivot);
     UpdateCounts root h (Some r)
   }"

definition RotateLR :: "nat \<Rightarrow> heap \<Rightarrow> nat \<Rightarrow> heap option" where
  "RotateLR root h pivot = do {
     P \<leftarrow> h pivot;
     par \<leftarrow> tr_parent P;
     h \<leftarrow> RotateR root h pivot;
     RotateL root h par
   }"

definition RotateRL :: "nat \<Rightarrow> heap \<Rightarrow> nat \<Rightarrow> heap option" where
  "RotateRL root h pivot = do {
     P \<leftarrow> h pivot;
     par \<leftarrow> tr_parent P;
     h \<leftarrow> RotateL root h pivot;
     RotateR root h par
   }"

text \<open>\<open>GetBalance\<close>: height of the left leg minus height of the right leg, 0 for null.\<close>

definition GetBalance :: "heap \<Rightarrow> nat option \<Rightarrow> int option" where
  "GetBalance h p =
     (case p of None \<Rightarrow> Some 0
      | Some a \<Rightarrow> do {
          n \<leftarrow> h a;
          lh \<leftarrow> child_height h (tr_left n);
          rh \<leftarrow> child_height h (tr_right n);
          Some (int lh - int rh)
        })"

definition Restructure :: "nat \<Rightarrow> heap \<Rightarrow> nat \<Rightarrow> heap option" where
  "Restructure root h pivot = do {
     balance \<leftarrow> GetBalance h (Some pivot);
     n \<leftarrow> h pivot;
     if balance > 1 then do {
       b \<leftarrow> GetBalance h (tr_left n);
       if b \<ge> 0 then RotateL root h pivot
       else do { l \<leftarrow> tr_left n; RotateLR root h l }
     }
     else if balance < -1 then do {
       b \<leftarrow> GetBalance h (tr_right n);
       if b \<le> 0 then RotateR root h pivot
       else do { r \<leftarrow> tr_right n; RotateRL root h r }
     }
     else Some h
   }"

partial_function (option) RestructureRecursive :: "nat \<Rightarrow> heap \<Rightarrow> nat option \<Rightarrow> heap option" where
  "RestructureRecursive root h p =
     (case p of None \<Rightarrow> Some h
      | Some a \<Rightarrow>
          if a = root then Some h
          else do {
            h \<leftarrow> Restructure root h a;
            n \<leftarrow> h a;
            RestructureRecursive root h (tr_parent n)
          })"

subsection \<open>Walking the tree\<close>

text \<open>The inner loops \<open>while(p->lpLeft) p = p->lpLeft\<close> and \<open>while(p->lpRight) p = p->lpRight\<close>.\<close>

partial_function (option) leftmost :: "heap \<Rightarrow> nat \<Rightarrow> nat option" where
  "leftmost h p = do {
     n \<leftarrow> h p;
     case tr_left n of None \<Rightarrow> Some p | Some l \<Rightarrow> leftmost h l
   }"

partial_function (option) rightmost :: "heap \<Rightarrow> nat \<Rightarrow> nat option" where
  "rightmost h p = do {
     n \<leftarrow> h p;
     case tr_right n of None \<Rightarrow> Some p | Some r \<Rightarrow> rightmost h r
   }"

text \<open>
  The loops \<open>while(p && !p->fLeft) p = p->lpParent\<close> and \<open>while(p && p->fLeft) p = p->lpParent\<close>;
  the outer option is the run, the inner one the pointer.
\<close>

partial_function (option) up_while :: "bool \<Rightarrow> heap \<Rightarrow> nat option \<Rightarrow> nat option option" where
  "up_while side h p =
     (case p of None \<Rightarrow> Some None
      | Some a \<Rightarrow> do {
          n \<leftarrow> h a;
          if tr_fLeft n = side then up_while side h (tr_parent n) else Some (Some a)
        })"

text \<open>\<open>Next\<close>, as the new value of \<open>lpCurrent\<close>.\<close>

definition Next :: "heap \<Rightarrow> nat option \<Rightarrow> nat option option" where
  "Next h cur =
     (case cur of None \<Rightarrow> Some None
      | Some a \<Rightarrow> do {
          n \<leftarrow> h a;
          case tr_right n of
            Some r \<Rightarrow> map_option Some (leftmost h r)
          | None \<Rightarrow> do {
              q \<leftarrow> up_while False h cur;
              case q of None \<Rightarrow> Some None | Some b \<Rightarrow> map_option tr_parent (h b)
            }
        })"

text \<open>The branch of \<open>Prev\<close> for a cursor that is not null.\<close>

definition Prev_row :: "heap \<Rightarrow> nat \<Rightarrow> nat option option" where
  "Prev_row h a = do {
     n \<leftarrow> h a;
     case tr_left n of
       Some l \<Rightarrow> map_option Some (rightmost h l)
     | None \<Rightarrow> do {
         q \<leftarrow> up_while True h (Some a);
         case q of None \<Rightarrow> Some None | Some b \<Rightarrow> map_option tr_parent (h b)
       }
   }"

subsection \<open>Row numbers and seeking\<close>

text \<open>
  \<open>CurrentRow\<close>: the number of rows before a row. The sum is of \<open>unsigned int\<close>s, so it is taken
  modulo \<open>2 ^ 32\<close>, which matters when the row is no longer linked and the counts disagree.
\<close>

partial_function (option) CurrentRow_loop :: "nat \<Rightarrow> heap \<Rightarrow> nat \<Rightarrow> int \<Rightarrow> int option" where
  "CurrentRow_loop root h a acc = do {
     n \<leftarrow> h a;
     case tr_parent n of
       None \<Rightarrow> Some acc
     | Some p \<Rightarrow>
         if p = root then Some acc
         else do {
           P \<leftarrow> h p;
           CurrentRow_loop root h p
             (if \<not> tr_fLeft n then acc + (int (tr_count P) - int (tr_count n)) else acc)
         }
   }"

definition CurrentRow :: "keytable \<Rightarrow> nat option \<Rightarrow> int option" where
  "CurrentRow t p =
     (case p of None \<Rightarrow> map_option (\<lambda>r. int (tr_count r)) (kt_heap t (kt_root t))
      | Some a \<Rightarrow>
          if a = kt_root t then Some 0
          else do {
            n \<leftarrow> kt_heap t a;
            lc \<leftarrow> child_count (kt_heap t) (tr_left n);
            map_option to_uint32 (CurrentRow_loop (kt_root t) (kt_heap t) a (int lc))
          })"

text \<open>\<open>GetRowCount\<close>: the number of rows and the number of the current row.\<close>

definition GetRowCount :: "keytable \<Rightarrow> (nat \<times> int) option" where
  "GetRowCount t = do {
     cur \<leftarrow> CurrentRow t (kt_cur t);
     R \<leftarrow> kt_heap t (kt_root t);
     Some (tr_count R, cur)
   }"

text \<open>\<open>GetBookmark\<close>: the code, and the position of the bookmark's row where there is one.\<close>

definition GetBookmark :: "keytable \<Rightarrow> nat \<Rightarrow> (ecresult \<times> int option) option" where
  "GetBookmark t bk =
     (case map_of (kt_bms t) bk of
        None \<Rightarrow> Some (ZARAFA_E_INVALID_BOOKMARK, None)
      | Some b \<Rightarrow> do {
          cur \<leftarrow> CurrentRow t (bm_pos b);
          Some (if int (bm_first b) \<noteq> cur then ZARAFA_W_POSITION_CHANGED else erSuccess,
                Some (to_int32 cur))
        })"

definition BOOKMARK_LIMIT :: nat where "BOOKMARK_LIMIT = 100"

definition CreateBookmark :: "keytable \<Rightarrow> (ecresult \<times> nat option \<times> keytable) option" where
  "CreateBookmark t =
     (if length (kt_bms t) \<ge> BOOKMARK_LIMIT then Some (ZARAFA_E_UNABLE_TO_COMPLETE, None, t)
      else do {
        (rows, cur) \<leftarrow> GetRowCount t;
        let b = \<lparr>bm_first = nat cur, bm_pos = kt_cur t\<rparr>;
        let bk = kt_bmpos t;
        Some (erSuccess, Some bk,
              t\<lparr>kt_bmpos := Suc bk, kt_bms := (bk, b) # kt_bms t\<rparr>)
      })"

definition FreeBookmark :: "keytable \<Rightarrow> nat \<Rightarrow> ecresult \<times> keytable" where
  "FreeBookmark t bk =
     (case map_of (kt_bms t) bk of
        None \<Rightarrow> (ZARAFA_E_INVALID_BOOKMARK, t)
      | Some b \<Rightarrow> (erSuccess, t\<lparr>kt_bms := filter (\<lambda>(k, _). k \<noteq> bk) (kt_bms t)\<rparr>))"

text \<open>\<open>InvalidateBookmark\<close>: drop every bookmark on a row.\<close>

definition InvalidateBookmark :: "keytable \<Rightarrow> nat \<Rightarrow> keytable" where
  "InvalidateBookmark t p = t\<lparr>kt_bms := filter (\<lambda>(_, b). bm_pos b \<noteq> Some p) (kt_bms t)\<rparr>"

datatype seek_origin = EC_SEEK_SET | EC_SEEK_CUR | EC_SEEK_END | SeekBookmark nat

text \<open>The search loop of \<open>SeekRow\<close>; null is the position after the last row.\<close>

partial_function (option) SeekRow_loop :: "heap \<Rightarrow> nat \<Rightarrow> nat \<Rightarrow> nat option option" where
  "SeekRow_loop h p dest = do {
     n \<leftarrow> h p;
     lc \<leftarrow> child_count h (tr_left n);
     if (tr_left n = None \<and> dest = 0) \<or> (tr_left n \<noteq> None \<and> lc = dest) then Some (Some p)
     else (case tr_left n of
        None \<Rightarrow>
          (case tr_right n of
             None \<Rightarrow> Some None
           | Some r \<Rightarrow> SeekRow_loop h r (dest - (if tr_fHidden n then 0 else 1)))
      | Some l \<Rightarrow>
          (case tr_right n of
             None \<Rightarrow> SeekRow_loop h l dest
           | Some r \<Rightarrow>
               if lc < dest then SeekRow_loop h r (dest - (lc + (if tr_fHidden n then 0 else 1)))
               else SeekRow_loop h l dest))
   }"

text \<open>
  \<open>SeekRow\<close>: the code, the distance that \<open>*lplRowsSought\<close> receives (if any), and the table with its
  new cursor.
\<close>

definition SeekRow :: "keytable \<Rightarrow> seek_origin \<Rightarrow> int \<Rightarrow> (ecresult \<times> int option \<times> keytable) option" where
  "SeekRow t orig seekTo = do {
     (rows, cur) \<leftarrow> GetRowCount t;
     (er, start) \<leftarrow> (case orig of
         EC_SEEK_SET \<Rightarrow> Some (erSuccess, Some (to_int32 seekTo))
       | EC_SEEK_CUR \<Rightarrow> Some (erSuccess, Some (to_int32 (cur + seekTo)))
       | EC_SEEK_END \<Rightarrow> Some (erSuccess, Some (to_int32 (int rows + seekTo)))
       | SeekBookmark bk \<Rightarrow> do {
           (er, pos) \<leftarrow> GetBookmark t bk;
           Some (er, map_option (\<lambda>d. to_int32 (d + seekTo)) pos)
         });
     case start of
       None \<Rightarrow> Some (er, None, t)
     | Some d \<Rightarrow> do {
         let d = (if d < 0 then 0 else d);
         let d = (if d \<ge> int rows then int rows else d);
         let sought = (case orig of
               EC_SEEK_SET \<Rightarrow> d
             | EC_SEEK_END \<Rightarrow> to_int32 (d - int rows)
             | _ \<Rightarrow> to_int32 (d - cur));
         if rows = 0 then Some (er, Some sought, t\<lparr>kt_cur := Some (kt_root t)\<rparr>)
         else do {
           R \<leftarrow> kt_heap t (kt_root t);
           top \<leftarrow> tr_right R;
           p \<leftarrow> SeekRow_loop (kt_heap t) top (nat d);
           Some (er, Some sought, t\<lparr>kt_cur := p\<rparr>)
         }
       }
   }"

definition seek_to :: "keytable \<Rightarrow> seek_origin \<Rightarrow> int \<Rightarrow> keytable option" where
  "seek_to t orig d = map_option (\<lambda>(er, sought, t'). t') (SeekRow t orig d)"

definition Prev :: "keytable \<Rightarrow> keytable option" where
  "Prev t =
     (case kt_cur t of
        None \<Rightarrow> seek_to t EC_SEEK_END (-1)
      | Some a \<Rightarrow> map_option (\<lambda>p. t\<lparr>kt_cur := p\<rparr>) (Prev_row (kt_heap t) a))"

definition NextRow :: "keytable \<Rightarrow> keytable option" where
  "NextRow t = map_option (\<lambda>p. t\<lparr>kt_cur := p\<rparr>) (Next (kt_heap t) (kt_cur t))"

subsection \<open>Adding, changing and deleting rows\<close>

text \<open>
  The unlinking part of \<open>TABLE_ROW_DELETE\<close> for a row with at most one child \<open>c\<close>: the child
  takes the row's place, then counts and balance are restored from the parent upwards.
\<close>

definition unlink_simple :: "nat \<Rightarrow> heap \<Rightarrow> trow \<Rightarrow> nat option \<Rightarrow> heap option" where
  "unlink_simple root h n c = do {
     par \<leftarrow> tr_parent n;
     h \<leftarrow> set_child h par (tr_fLeft n) c;
     h \<leftarrow> set_up h c (tr_parent n) (tr_fLeft n);
     h \<leftarrow> UpdateCounts root h (tr_parent n);
     RestructureRecursive root h (tr_parent n)
   }"

text \<open>
  The part for a row with two children: its predecessor, the rightmost row of its left leg, is
  taken out of its place and put in the place of the row.
\<close>

definition unlink_double :: "nat \<Rightarrow> heap \<Rightarrow> nat \<Rightarrow> nat \<Rightarrow> heap option" where
  "unlink_double root h a l = do {
     pred \<leftarrow> rightmost h l;
     Q \<leftarrow> h pred;
     predParent \<leftarrow> tr_parent Q;
     h \<leftarrow> set_child h predParent (tr_fLeft Q) (tr_left Q);
     h \<leftarrow> set_up h (tr_left Q) (tr_parent Q) (tr_fLeft Q);
     n \<leftarrow> h a;
     par \<leftarrow> tr_parent n;
     h \<leftarrow> set_child h par (tr_fLeft n) (Some pred);
     h \<leftarrow> upd h pred (\<lambda>q. q\<lparr>tr_parent := tr_parent n, tr_fLeft := tr_fLeft n,
                               tr_left := tr_left n, tr_right := tr_right n\<rparr>);
     h \<leftarrow> (case tr_left n of None \<Rightarrow> Some h
           | Some b \<Rightarrow> upd h b (\<lambda>q. q\<lparr>tr_parent := Some pred\<rparr>));
     h \<leftarrow> (case tr_right n of None \<Rightarrow> Some h
           | Some b \<Rightarrow> upd h b (\<lambda>q. q\<lparr>tr_parent := Some pred\<rparr>));
     h \<leftarrow> UpdateCounts root h (Some predParent);
     h \<leftarrow> UpdateCounts root h (Some pred);
     h \<leftarrow> RestructureRecursive root h (Some pred);
     PP \<leftarrow> h predParent;
     if tr_key PP \<noteq> tr_key n then RestructureRecursive root h (Some predParent)
     else Some h
   }"

definition unlink_row :: "nat \<Rightarrow> heap \<Rightarrow> nat \<Rightarrow> heap option" where
  "unlink_row root h a = do {
     n \<leftarrow> h a;
     case (tr_left n, tr_right n) of
       (None, None) \<Rightarrow> unlink_simple root h n None
     | (Some l, None) \<Rightarrow> unlink_simple root h n (Some l)
     | (None, Some r) \<Rightarrow> unlink_simple root h n (Some r)
     | (Some l, Some r) \<Rightarrow> unlink_double root h a l
   }"

text \<open>
  \<open>UpdateRow(TABLE_ROW_DELETE, ...)\<close>. The cursor is moved while the row is unlinked but not yet
  freed, so \<open>SeekRow\<close> still reads it; then bookmarks on the row go, the row is freed and its id
  leaves the map.
\<close>

definition delete_row :: "keytable \<Rightarrow> okey \<Rightarrow> (ecresult \<times> keytable) option" where
  "delete_row t k =
     (case kt_map t k of
        None \<Rightarrow> Some (ZARAFA_E_NOT_FOUND, t)
      | Some a \<Rightarrow> do {
          h \<leftarrow> unlink_row (kt_root t) (kt_heap t) a;
          let t = t\<lparr>kt_heap := h\<rparr>;
          t \<leftarrow> (if kt_cur t = Some a
                then do { t \<leftarrow> seek_to t EC_SEEK_CUR (-1); seek_to t EC_SEEK_CUR 1 }
                else Some t);
          let t = InvalidateBookmark t a;
          Some (erSuccess,
                t\<lparr>kt_heap := (kt_heap t)(a := None), kt_map := (kt_map t)(k := None)\<rparr>)
        })"

text \<open>The binary search for the parent of a new row: the parent and the side.\<close>

partial_function (option) find_parent :: "heap \<Rightarrow> trow \<Rightarrow> nat \<Rightarrow> (nat \<times> bool) option" where
  "find_parent h new p = do {
     n \<leftarrow> h p;
     if rowcompare_rows new n
     then (case tr_left n of None \<Rightarrow> Some (p, True) | Some l \<Rightarrow> find_parent h new l)
     else (case tr_right n of None \<Rightarrow> Some (p, False) | Some r \<Rightarrow> find_parent h new r)
   }"

text \<open>The id of the row before a new left child of \<open>p\<close>, \<open>(0, 0)\<close> where there is none.\<close>

definition prev_of_left :: "heap \<Rightarrow> nat \<Rightarrow> okey option" where
  "prev_of_left h p = do {
     q \<leftarrow> up_while True h (Some p);
     case q of None \<Rightarrow> Some zero_key
     | Some b \<Rightarrow> do {
         B \<leftarrow> h b;
         case tr_parent B of None \<Rightarrow> Some zero_key | Some c \<Rightarrow> map_option tr_key (h c)
       }
   }"

text \<open>The id of the row before an existing row.\<close>

definition prev_of_row :: "heap \<Rightarrow> nat \<Rightarrow> okey option" where
  "prev_of_row h a = do {
     n \<leftarrow> h a;
     case tr_left n of
       Some l \<Rightarrow> do { q \<leftarrow> rightmost h l; map_option tr_key (h q) }
     | None \<Rightarrow> prev_of_left h a
   }"

text \<open>Linking a new row below \<open>p\<close>: the end of \<open>TABLE_ROW_ADD\<close>, with the id of the row before it.\<close>

definition insert_row :: "keytable \<Rightarrow> trow \<Rightarrow> (okey \<times> nat \<times> keytable) option" where
  "insert_row t new = do {
     let h = kt_heap t;
     (p, left) \<leftarrow> find_parent h new (kt_root t);
     P \<leftarrow> h p;
     prev \<leftarrow> (if left then prev_of_left h p else Some (tr_key P));
     let a = kt_next t;
     h \<leftarrow> set_child h p left (Some a);
     let h = h(a \<mapsto> new\<lparr>tr_parent := Some p, tr_fLeft := left\<rparr>);
     h \<leftarrow> UpdateCounts (kt_root t) h (Some a);
     h \<leftarrow> RestructureRecursive (kt_root t) h (Some a);
     Some (prev, a,
       t\<lparr>kt_heap := h, kt_map := (kt_map t)(tr_key new \<mapsto> a), kt_next := Suc a\<rparr>)
   }"

datatype update_type = TABLE_ROW_ADD | TABLE_ROW_DELETE | TABLE_ROW_MODIFY | TABLE_OTHER

text \<open>What \<open>UpdateRow\<close> hands back: its code, \<open>*lpsPrevRow\<close>, \<open>*lpulAction\<close> and the table.\<close>

record upd_result =
  ur_er :: ecresult
  ur_prev :: "okey option"
  ur_action :: "update_type option"
  ur_table :: keytable

definition UpdateRow ::
  "keytable \<Rightarrow> update_type \<Rightarrow> okey \<Rightarrow> sortcol list \<Rightarrow> bool \<Rightarrow> upd_result option" where
  "UpdateRow t ty k cols hidden =
     (case ty of
        TABLE_OTHER \<Rightarrow>
          Some \<lparr>ur_er = erSuccess, ur_prev = None, ur_action = None, ur_table = t\<rparr>
      | TABLE_ROW_DELETE \<Rightarrow> do {
          (er, t') \<leftarrow> delete_row t k;
          Some \<lparr>ur_er = er, ur_prev = None,
                ur_action = (if er = erSuccess then Some TABLE_ROW_DELETE else None),
                ur_table = t'\<rparr>
        }
      | _ \<Rightarrow> do {
          let new = new_row k cols hidden;
          case kt_map t k of
            None \<Rightarrow> do {
              (prev, a, t') \<leftarrow> insert_row t new;
              Some \<lparr>ur_er = erSuccess, ur_prev = Some prev, ur_action = Some TABLE_ROW_ADD,
                    ur_table = t'\<rparr>
            }
          | Some old \<Rightarrow> do {
              n \<leftarrow> kt_heap t old;
              if \<not> rowcompare_rows n new \<and> \<not> rowcompare_rows new n then do {
                prev \<leftarrow> prev_of_row (kt_heap t) old;
                Some \<lparr>ur_er = erSuccess, ur_prev = Some prev,
                      ur_action = Some TABLE_ROW_MODIFY, ur_table = t\<rparr>
              }
              else do {
                let relocate = (kt_cur t = Some old);
                (er, t') \<leftarrow> delete_row t k;
                if er \<noteq> erSuccess then
                  Some \<lparr>ur_er = er, ur_prev = None, ur_action = Some TABLE_ROW_MODIFY,
                        ur_table = t'\<rparr>
                else do {
                  (prev, a, t'') \<leftarrow> insert_row t' new;
                  Some \<lparr>ur_er = erSuccess, ur_prev = Some prev,
                        ur_action = Some TABLE_ROW_MODIFY,
                        ur_table = (if relocate then t''\<lparr>kt_cur := Some a\<rparr> else t'')\<rparr>
                }
              }
            }
        })"

text \<open>The depth-first delete loop of \<open>Clear\<close>.\<close>

partial_function (option) Clear_loop :: "nat \<Rightarrow> heap \<Rightarrow> nat \<Rightarrow> heap option" where
  "Clear_loop root h p = do {
     n \<leftarrow> h p;
     case tr_left n of Some l \<Rightarrow> Clear_loop root h l
     | None \<Rightarrow>
         (case tr_right n of Some r \<Rightarrow> Clear_loop root h r
          | None \<Rightarrow>
              if p = root then Some h
              else do {
                par \<leftarrow> tr_parent n;
                h \<leftarrow> set_child h par (tr_fLeft n) None;
                Clear_loop root (h(p := None)) par
              })
   }"

definition Clear :: "keytable \<Rightarrow> keytable option" where
  "Clear t = do {
     h \<leftarrow> Clear_loop (kt_root t) (kt_heap t) (kt_root t);
     h \<leftarrow> upd h (kt_root t) (\<lambda>n. n\<lparr>tr_count := 0\<rparr>);
     Some (t\<lparr>kt_heap := h, kt_cur := Some (kt_root t), kt_map := Map.empty, kt_bms := []\<rparr>)
   }"

subsection \<open>Reading rows\<close>

definition SeekId :: "keytable \<Rightarrow> okey \<Rightarrow> ecresult \<times> keytable" where
  "SeekId t k =
     (case kt_map t k of
        None \<Rightarrow> (ZARAFA_E_NOT_FOUND, t)
      | Some a \<Rightarrow> (erSuccess, t\<lparr>kt_cur := Some a\<rparr>))"

text \<open>The read loop of \<open>QueryRows\<close>.\<close>

partial_function (option) QueryRows_loop ::
  "bool \<Rightarrow> bool \<Rightarrow> keytable \<Rightarrow> nat \<Rightarrow> okey list \<Rightarrow> (okey list \<times> keytable) option" where
  "QueryRows_loop backward hidden t n acc =
     (if n = 0 then Some (acc, t)
      else (case kt_cur t of
        None \<Rightarrow> Some (acc, t)
      | Some a \<Rightarrow> do {
          row \<leftarrow> kt_heap t a;
          R \<leftarrow> kt_heap t (kt_root t);
          let take_it = (\<not> tr_fHidden row \<or> hidden);
          let acc = (if take_it then acc @ [tr_key row] else acc);
          let n = (if take_it then n - 1 else n);
          if backward \<and> Some a = tr_right R then Some (acc, t)
          else do {
            t \<leftarrow> (if backward then Prev t else NextRow t);
            QueryRows_loop backward hidden t n acc
          }
        }))"

definition QueryRows ::
  "keytable \<Rightarrow> nat \<Rightarrow> bool \<Rightarrow> bool \<Rightarrow> bool \<Rightarrow> (okey list \<times> keytable) option" where
  "QueryRows t n backward noadvance hidden = do {
     R \<leftarrow> kt_heap t (kt_root t);
     let orig = kt_cur t;
     t \<leftarrow> (if backward \<and> kt_cur t = None then seek_to t EC_SEEK_CUR (-1)
           else if kt_cur t = Some (kt_root t) \<and> tr_count R \<noteq> 0 then seek_to t EC_SEEK_SET 0
           else Some t);
     let n = (if n > tr_count R then tr_count R else n);
     (rows, t) \<leftarrow> QueryRows_loop backward hidden t n [];
     Some (rows, if noadvance then t\<lparr>kt_cur := orig\<rparr> else t)
   }"

text \<open>The loop \<open>while(lpCurrent && lpCurrent->fHidden) Prev()\<close>, and its forward twin.\<close>

partial_function (option) skip_hidden :: "bool \<Rightarrow> keytable \<Rightarrow> keytable option" where
  "skip_hidden backward t =
     (case kt_cur t of None \<Rightarrow> Some t
      | Some a \<Rightarrow> do {
          n \<leftarrow> kt_heap t a;
          if tr_fHidden n
          then do { t \<leftarrow> (if backward then Prev t else NextRow t); skip_hidden backward t }
          else Some t
        })"

definition GetPreviousRow :: "keytable \<Rightarrow> okey \<Rightarrow> (ecresult \<times> okey option \<times> keytable) option" where
  "GetPreviousRow t k =
     (case SeekId t k of (er, t') \<Rightarrow>
        if er \<noteq> erSuccess then Some (er, None, t')
        else do {
          t'' \<leftarrow> Prev t';
          t'' \<leftarrow> skip_hidden True t'';
          case kt_cur t'' of
            None \<Rightarrow> Some (ZARAFA_E_NOT_FOUND, None, t''\<lparr>kt_cur := kt_cur t\<rparr>)
          | Some a \<Rightarrow> do {
              n \<leftarrow> kt_heap t'' a;
              Some (erSuccess, Some (tr_key n), t''\<lparr>kt_cur := kt_cur t\<rparr>)
            }
        })"

text \<open>The rows from the cursor on that have a given sort prefix.\<close>

partial_function (option) prefix_loop ::
  "sortcol list \<Rightarrow> keytable \<Rightarrow> okey list \<Rightarrow> (okey list \<times> keytable) option" where
  "prefix_loop pre t acc =
     (case kt_cur t of None \<Rightarrow> Some (acc, t)
      | Some a \<Rightarrow> do {
          n \<leftarrow> kt_heap t a;
          if rowcompareprefix (length pre) pre (tr_cols n) then Some (acc, t)
          else do { t \<leftarrow> NextRow t; prefix_loop pre t (acc @ [tr_key n]) }
        })"

definition GetRowsBySortPrefix :: "keytable \<Rightarrow> okey \<Rightarrow> (ecresult \<times> okey list \<times> keytable) option" where
  "GetRowsBySortPrefix t k =
     (case kt_map t k of
        None \<Rightarrow> Some (ZARAFA_E_NOT_FOUND, [], t)
      | Some a \<Rightarrow> do {
          n \<leftarrow> kt_heap t a;
          (rows, t') \<leftarrow> prefix_loop (tr_cols n) (t\<lparr>kt_cur := Some a\<rparr>) [];
          Some (erSuccess, rows, t'\<lparr>kt_cur := kt_cur t\<rparr>)
        })"

text \<open>The loop of \<open>HideRows\<close>; the flag says whether the row under the old cursor was hidden.\<close>

partial_function (option) hide_loop ::
  "sortcol list \<Rightarrow> nat option \<Rightarrow> keytable \<Rightarrow> okey list \<Rightarrow> bool
     \<Rightarrow> (okey list \<times> bool \<times> keytable) option" where
  "hide_loop pre orig t acc hid =
     (case kt_cur t of None \<Rightarrow> Some (acc, hid, t)
      | Some a \<Rightarrow> do {
          n \<leftarrow> kt_heap t a;
          if rowcompareprefix (length pre) pre (tr_cols n) then Some (acc, hid, t)
          else do {
            h \<leftarrow> upd (kt_heap t) a (\<lambda>n. n\<lparr>tr_fHidden := True\<rparr>);
            h \<leftarrow> UpdateCounts (kt_root t) h (Some a);
            t \<leftarrow> NextRow (t\<lparr>kt_heap := h\<rparr>);
            hide_loop pre orig t (acc @ [tr_key n]) (hid \<or> orig = Some a)
          }
        })"

definition HideRows :: "keytable \<Rightarrow> okey \<Rightarrow> (ecresult \<times> okey list \<times> keytable) option" where
  "HideRows t k =
     (case kt_map t k of
        None \<Rightarrow> Some (ZARAFA_E_NOT_FOUND, [], t)
      | Some a \<Rightarrow> do {
          n \<leftarrow> kt_heap t a;
          t' \<leftarrow> NextRow (t\<lparr>kt_cur := Some a\<rparr>);
          (rows, hid, t') \<leftarrow> hide_loop (tr_cols n) (kt_cur t) t' [] False;
          if \<not> hid then Some (erSuccess, rows, t'\<lparr>kt_cur := kt_cur t\<rparr>)
          else do { t' \<leftarrow> skip_hidden False t'; Some (erSuccess, rows, t') }
        })"

partial_function (option) unhide_loop ::
  "sortcol list \<Rightarrow> nat \<Rightarrow> keytable \<Rightarrow> okey list \<Rightarrow> (okey list \<times> keytable) option" where
  "unhide_loop pre cols t acc =
     (case kt_cur t of None \<Rightarrow> Some (acc, t)
      | Some a \<Rightarrow> do {
          n \<leftarrow> kt_heap t a;
          if rowcompareprefix (length pre) pre (tr_cols n) then Some (acc, t)
          else do {
            h \<leftarrow> (if length (tr_cols n) = cols
                  then do {
                    h \<leftarrow> upd (kt_heap t) a (\<lambda>n. n\<lparr>tr_fHidden := False\<rparr>);
                    UpdateCounts (kt_root t) h (Some a)
                  }
                  else Some (kt_heap t));
            t \<leftarrow> NextRow (t\<lparr>kt_heap := h\<rparr>);
            unhide_loop pre cols t
              (if length (tr_cols n) = cols then acc @ [tr_key n] else acc)
          }
        })"

definition UnhideRows :: "keytable \<Rightarrow> okey \<Rightarrow> (ecresult \<times> okey list \<times> keytable) option" where
  "UnhideRows t k =
     (case kt_map t k of
        None \<Rightarrow> Some (ZARAFA_E_NOT_FOUND, [], t)
      | Some a \<Rightarrow> do {
          n \<leftarrow> kt_heap t a;
          let t = t\<lparr>kt_cur := Some a\<rparr>;
          if tr_fHidden n then Some (ZARAFA_E_NOT_FOUND, [], t)
          else do {
            t \<leftarrow> NextRow t;
            case kt_cur t of None \<Rightarrow> Some (erSuccess, [], t)
            | Some b \<Rightarrow> do {
                m \<leftarrow> kt_heap t b;
                (rows, t) \<leftarrow> unhide_loop (tr_cols n) (length (tr_cols m)) t [];
                Some (erSuccess, rows, t)
              }
          }
        })"

text \<open>
  \<open>LowerBound\<close>: the first row that is not before the given sort key, as the new cursor. The loop
  runs with a cursor that is not null.
\<close>

partial_function (option) LowerBound_loop ::
  "heap \<Rightarrow> sortcol list \<Rightarrow> nat \<Rightarrow> nat option option" where
  "LowerBound_loop h cols a = do {
     n \<leftarrow> h a;
     if rowcompare (tr_cols n) cols
     then (case tr_right n of None \<Rightarrow> Next h (Some a) | Some r \<Rightarrow> LowerBound_loop h cols r)
     else (case tr_left n of None \<Rightarrow> Some (Some a) | Some l \<Rightarrow> LowerBound_loop h cols l)
   }"

definition LowerBound :: "keytable \<Rightarrow> sortcol list \<Rightarrow> keytable option" where
  "LowerBound t cols = do {
     R \<leftarrow> kt_heap t (kt_root t);
     p \<leftarrow> (case tr_right R of None \<Rightarrow> Some None | Some a \<Rightarrow> LowerBound_loop (kt_heap t) cols a);
     Some (t\<lparr>kt_cur := p\<rparr>)
   }"

definition Find :: "keytable \<Rightarrow> sortcol list \<Rightarrow> (ecresult \<times> okey option \<times> keytable) option" where
  "Find t cols = do {
     t' \<leftarrow> LowerBound t cols;
     (er, k) \<leftarrow> (case kt_cur t' of
         None \<Rightarrow> Some (ZARAFA_E_NOT_FOUND, None)
       | Some a \<Rightarrow> do {
           n \<leftarrow> kt_heap t' a;
           Some (if rowcompare cols (tr_cols n) then (ZARAFA_E_NOT_FOUND, None)
                 else (erSuccess, Some (tr_key n)))
         });
     Some (er, k, t'\<lparr>kt_cur := kt_cur t\<rparr>)
   }"

definition GetRow :: "keytable \<Rightarrow> okey \<Rightarrow> ecresult \<times> nat option" where
  "GetRow t k =
     (case kt_map t k of None \<Rightarrow> (ZARAFA_E_NOT_FOUND, None) | Some a \<Rightarrow> (erSuccess, Some a))"

text \<open>\<open>UpdatePartialSortKey\<close>: \<open>UpdateRow\<close> with one sort column replaced, and the hidden flag.\<close>

definition UpdatePartialSortKey ::
  "keytable \<Rightarrow> okey \<Rightarrow> nat \<Rightarrow> sortcol \<Rightarrow> (upd_result \<times> bool option) option" where
  "UpdatePartialSortKey t k column col =
     (case GetRow t k of
        (_, None) \<Rightarrow>
          Some (\<lparr>ur_er = ZARAFA_E_NOT_FOUND, ur_prev = None, ur_action = None, ur_table = t\<rparr>, None)
      | (_, Some a) \<Rightarrow> do {
          n \<leftarrow> kt_heap t a;
          if column \<ge> length (tr_cols n) then
            Some (\<lparr>ur_er = ZARAFA_E_INVALID_PARAMETER, ur_prev = None, ur_action = None,
                   ur_table = t\<rparr>, None)
          else do {
            r \<leftarrow> UpdateRow t TABLE_ROW_MODIFY k ((tr_cols n)[column := col]) (tr_fHidden n);
            Some (r, Some (tr_fHidden n))
          }
        })"

text \<open>The loops as code equations, so that concrete tables can be evaluated.\<close>

lemmas kt_loops [code] =
  UpdateCounts.simps RestructureRecursive.simps leftmost.simps rightmost.simps up_while.simps
  CurrentRow_loop.simps SeekRow_loop.simps find_parent.simps Clear_loop.simps
  QueryRows_loop.simps skip_hidden.simps prefix_loop.simps hide_loop.simps unhide_loop.simps
  LowerBound_loop.simps

end
