(* ===== verification/Key_Tree.thy ===== *)
theory Key_Tree
  imports Zcp_Prelude "HOL-Library.Tree"
begin

text \<open>
  The abstract tree behind the row objects of a key table: binary trees of row addresses, the
  position of a row as a path of steps from its place up to the top, and the rebalancing of
  \<^verbatim>\<open>ECKeyTable::Restructure\<close> as a function on such trees. The lemmas say that rebalancing
  keeps the in-order sequence and that walking up from a changed place restores the AVL
  property, after an insertion as well as after the two passes of a deletion.
\<close>

subsection \<open>Paths\<close>

text \<open>
  A step to a parent: \<open>StepL a r\<close> from a left child to the parent \<open>a\<close> whose right leg is \<open>r\<close>,
  \<open>StepR l a\<close> from a right child to the parent \<open>a\<close> whose left leg is \<open>l\<close>. A path lists the
  innermost step first.
\<close>

datatype step = StepL nat "nat tree" | StepR "nat tree" nat

type_synonym path = "step list"

fun fill :: "step \<Rightarrow> nat tree \<Rightarrow> nat tree" where
  "fill (StepL a r) t = Node t a r"
| "fill (StepR l a) t = Node l a t"

fun plug :: "nat tree \<Rightarrow> path \<Rightarrow> nat tree" where
  "plug t [] = t"
| "plug t (s # c) = plug (fill s t) c"

fun step_before :: "step \<Rightarrow> nat list" where
  "step_before (StepL a r) = []"
| "step_before (StepR l a) = inorder l @ [a]"

fun step_after :: "step \<Rightarrow> nat list" where
  "step_after (StepL a r) = a # inorder r"
| "step_after (StepR l a) = []"

text \<open>The rows before and after the place that a path leads to.\<close>

fun rows_before :: "path \<Rightarrow> nat list" where
  "rows_before [] = []"
| "rows_before (s # c) = rows_before c @ step_before s"

fun rows_after :: "path \<Rightarrow> nat list" where
  "rows_after [] = []"
| "rows_after (s # c) = step_after s @ rows_after c"

lemma inorder_fill [simp]: "inorder (fill s t) = step_before s @ inorder t @ step_after s"
  by (cases s) simp_all

lemma inorder_plug: "inorder (plug t c) = rows_before c @ inorder t @ rows_after c"
  by (induction t c rule: plug.induct) simp_all

lemma plug_append: "plug t (c @ d) = plug (plug t c) d"
  by (induction t c rule: plug.induct) simp_all

lemma fill_not_Leaf [simp]: "fill s t \<noteq> Leaf" "Leaf \<noteq> fill s t"
  by (cases s; simp)+

text \<open>Every row of a tree is at the end of some path.\<close>

lemma plug_decompose:
  assumes "a \<in> set (inorder t)"
  obtains l r c where "t = plug (Node l a r) c"
proof -
  have "\<exists>l r c. t = plug (Node l a r) c"
    using assms
  proof (induction t)
    case Leaf
    then show ?case by simp
  next
    case (Node tl b tr)
    consider "a = b" | "a \<in> set (inorder tl)" | "a \<in> set (inorder tr)"
      using Node.prems by auto
    then show ?case
    proof cases
      case 1
      then show ?thesis by (metis plug.simps(1))
    next
      case 2
      then obtain l r c where "tl = plug (Node l a r) c" using Node.IH(1) by blast
      then have "Node tl b tr = plug (Node l a r) (c @ [StepL b tr])"
        by (simp add: plug_append)
      then show ?thesis by blast
    next
      case 3
      then obtain l r c where "tr = plug (Node l a r) c" using Node.IH(2) by blast
      then have "Node tl b tr = plug (Node l a r) (c @ [StepR tl b])"
        by (simp add: plug_append)
      then show ?thesis by blast
    qed
  qed
  then show ?thesis using that by blast
qed

subsection \<open>Rebalancing\<close>

text \<open>\<open>RotateL\<close> lifts the left leg of its pivot, \<open>RotateR\<close> the right leg.\<close>

fun lift_left :: "nat tree \<Rightarrow> nat tree" where
  "lift_left (Node (Node a l b) p c) = Node a l (Node b p c)"
| "lift_left t = t"

fun lift_right :: "nat tree \<Rightarrow> nat tree" where
  "lift_right (Node a p (Node b r c)) = Node (Node a p b) r c"
| "lift_right t = t"

fun balance :: "nat tree \<Rightarrow> int" where
  "balance Leaf = 0"
| "balance (Node l a r) = int (height l) - int (height r)"

fun restr :: "nat tree \<Rightarrow> nat tree" where
  "restr Leaf = Leaf"
| "restr (Node l a r) =
     (if int (height l) - int (height r) > 1 then
        (if balance l \<ge> 0 then lift_left (Node l a r) else lift_left (Node (lift_right l) a r))
      else if int (height l) - int (height r) < -1 then
        (if balance r \<le> 0 then lift_right (Node l a r) else lift_right (Node l a (lift_left r)))
      else Node l a r)"

text \<open>Restructure the focus, then every row above it.\<close>

fun up :: "nat tree \<Rightarrow> path \<Rightarrow> nat tree" where
  "up t [] = restr t"
| "up t (s # c) = up (fill s (restr t)) c"

lemma inorder_lift_left [simp]: "inorder (lift_left t) = inorder t"
  by (cases t rule: lift_left.cases) simp_all

lemma inorder_lift_right [simp]: "inorder (lift_right t) = inorder t"
  by (cases t rule: lift_right.cases) simp_all

lemma inorder_lift_node [simp]:
  "inorder (lift_left (Node l a r)) = inorder l @ a # inorder r"
  "inorder (lift_right (Node l a r)) = inorder l @ a # inorder r"
  by (simp_all only: inorder_lift_left inorder_lift_right inorder.simps append_Cons append_Nil)

lemma inorder_restr [simp]: "inorder (restr t) = inorder t"
  by (cases t) auto

theorem inorder_up: "inorder (up t c) = rows_before c @ inorder t @ rows_after c"
  by (induction t c rule: up.induct) simp_all

subsection \<open>The AVL property\<close>

fun avl :: "nat tree \<Rightarrow> bool" where
  "avl Leaf = True"
| "avl (Node l a r) =
     (avl l \<and> avl r \<and> height l \<le> Suc (height r) \<and> height r \<le> Suc (height l))"

lemma restr_balanced [simp]:
  "height l \<le> Suc (height r) \<Longrightarrow> height r \<le> Suc (height l) \<Longrightarrow> restr (Node l a r) = Node l a r"
  by simp

lemma restr_avl [simp]: "avl t \<Longrightarrow> restr t = t"
  by (cases t) auto

text \<open>
  One step: legs that are AVL trees and differ by two levels at most become an AVL tree, whose
  height is that of the unbalanced tree or one less.
\<close>

lemma restr_left_heavy:
  assumes "avl l" "avl r" "height l = height r + 2"
  shows "avl (restr (Node l a r)) \<and>
    (height (restr (Node l a r)) = height l \<or> height (restr (Node l a r)) = Suc (height l))"
proof -
  obtain ll x lr where l: "l = Node ll x lr" using assms(3) by (cases l) auto
  show ?thesis
  proof (cases "balance l \<ge> 0")
    case True
    then show ?thesis using assms l by (auto simp: max_def split: if_splits)
  next
    case False
    then obtain m y n where "lr = Node m y n" using l by (cases lr) auto
    then show ?thesis using assms l False by (auto simp: max_def split: if_splits)
  qed
qed

lemma restr_right_heavy:
  assumes "avl l" "avl r" "height r = height l + 2"
  shows "avl (restr (Node l a r)) \<and>
    (height (restr (Node l a r)) = height r \<or> height (restr (Node l a r)) = Suc (height r))"
proof -
  obtain rl x rr where r: "r = Node rl x rr" using assms(3) by (cases r) auto
  show ?thesis
  proof (cases "balance r \<le> 0")
    case True
    then show ?thesis using assms r by (auto simp: max_def split: if_splits)
  next
    case False
    then obtain m y n where "rl = Node m y n" using r by (cases rl) auto
    then show ?thesis using assms r False by (auto simp: max_def split: if_splits)
  qed
qed

definition near :: "nat \<Rightarrow> nat \<Rightarrow> bool" where
  "near m n \<longleftrightarrow> m \<le> Suc n \<and> n \<le> Suc m"

lemma avl_fill:
  assumes "avl (fill s t0)" "avl t" "near (height t) (height t0)"
  shows "avl (restr (fill s t)) \<and> near (height (restr (fill s t))) (height (fill s t0))"
proof (cases s)
  case (StepL a r)
  show ?thesis
  proof (cases "height t = height r + 2")
    case True
    with restr_left_heavy[of t r a] assms StepL show ?thesis
      by (auto simp: near_def)
  next
    case F1: False
    show ?thesis
    proof (cases "height r = height t + 2")
      case True
      with restr_right_heavy[of t r a] assms StepL show ?thesis
        by (auto simp: near_def)
    next
      case False
      with F1 assms StepL show ?thesis by (auto simp: near_def)
    qed
  qed
next
  case (StepR l a)
  show ?thesis
  proof (cases "height l = height t + 2")
    case True
    with restr_left_heavy[of l t a] assms StepR show ?thesis
      by (auto simp: near_def)
  next
    case F1: False
    show ?thesis
    proof (cases "height t = height l + 2")
      case True
      with restr_right_heavy[of l t a] assms StepR show ?thesis
        by (auto simp: near_def)
    next
      case False
      with F1 assms StepR show ?thesis by (auto simp: near_def)
    qed
  qed
qed

lemma avl_plug_focus: "avl (plug t c) \<Longrightarrow> avl t"
proof (induction t c rule: plug.induct)
  case (2 t s c)
  then have "avl (fill s t)" by simp
  then show ?case by (cases s) auto
qed simp

text \<open>
  Replacing an AVL focus by an AVL tree whose height differs by at most one, and walking up,
  restores the AVL property of the whole tree.
\<close>

theorem avl_up:
  assumes "avl (plug t0 c)" "avl t" "near (height t) (height t0)"
  shows "avl (up t c)"
  using assms
proof (induction c arbitrary: t t0)
  case Nil
  then show ?case by simp
next
  case (Cons s c)
  have "avl (fill s t0)" using Cons.prems(1) avl_plug_focus by fastforce
  then have *: "avl (restr (fill s t)) \<and> near (height (restr (fill s t))) (height (fill s t0))"
    using Cons.prems avl_fill by blast
  have "up t (s # c) = up (restr (fill s t)) c"
    using Cons.prems(2) * by (cases c) simp_all
  then show ?case using Cons.IH[of "fill s t0"] Cons.prems(1) * by simp
qed

lemma up_avl_id: "avl (plug t c) \<Longrightarrow> up t c = plug t c"
proof (induction c arbitrary: t)
  case (Cons s c)
  then show ?case using avl_plug_focus[of "fill s t" c] avl_plug_focus[of t "s # c"] by simp
qed simp

text \<open>
  Walking up changes nothing when the focus is balanced at its top and has the height that an
  AVL tree had in its place.
\<close>

lemma up_same_height:
  assumes "avl (plug t0 c)" "restr t = t" "height t = height t0"
  shows "up t c = plug t c"
  using assms
proof (induction c arbitrary: t t0)
  case (Cons s c)
  have "avl (fill s t0)" using Cons.prems(1) avl_plug_focus by fastforce
  then have "restr (fill s t) = fill s t" using Cons.prems(3) by (cases s) auto
  moreover have "height (fill s t) = height (fill s t0)" using Cons.prems(3) by (cases s) simp_all
  ultimately show ?case using Cons.IH[of "fill s t0" "fill s t"] Cons.prems by simp
qed simp

text \<open>Along a spine, a focus that lost a level either leaves an AVL tree or the whole height.\<close>

lemma shrink_along:
  assumes "avl (plug t0 c)" "(avl t \<and> (height t = height t0 \<or> Suc (height t) = height t0)) \<or> height t = height t0"
  shows "(avl (plug t c) \<and> (height (plug t c) = height (plug t0 c) \<or>
           Suc (height (plug t c)) = height (plug t0 c))) \<or> height (plug t c) = height (plug t0 c)"
  using assms
proof (induction c arbitrary: t t0)
  case Nil
  then show ?case by simp
next
  case (Cons s c)
  have "avl (fill s t0)" using Cons.prems(1) avl_plug_focus by fastforce
  then have "(avl (fill s t) \<and> (height (fill s t) = height (fill s t0) \<or>
      Suc (height (fill s t)) = height (fill s t0))) \<or> height (fill s t) = height (fill s t0)"
    using Cons.prems(2) by (cases s) (auto simp: max_def split: if_splits)
  then show ?case using Cons.IH[of "fill s t0" "fill s t"] Cons.prems(1) by simp
qed

end
