(* ===== verification/Key_Rep.thy ===== *)
theory Key_Rep
  imports Key_Table Key_Tree
begin

text \<open>
  When a store of row objects represents a tree: the pointers of every row say where it is
  (\<open>rep\<close>, \<open>repc\<close>), and the cached counts and heights are right (\<open>cached\<close>). The lemmas of this
  theory are the frame rules of the representation and the correctness of \<open>UpdateCounts\<close>, the
  rotations, \<open>Restructure\<close> and \<open>RestructureRecursive\<close> with respect to the functions of \<open>Key_Tree\<close>.
\<close>

subsection \<open>Representation\<close>

fun ptr :: "nat tree \<Rightarrow> nat option" where
  "ptr Leaf = None"
| "ptr (Node l a r) = Some a"

fun addr :: "step \<Rightarrow> nat" where
  "addr (StepL a r) = a"
| "addr (StepR l a) = a"

fun side :: "step \<Rightarrow> bool" where
  "side (StepL a r) = True"
| "side (StepR l a) = False"

fun sibling :: "step \<Rightarrow> nat tree" where
  "sibling (StepL a r) = r"
| "sibling (StepR l a) = l"

text \<open>The parent of the place that a path leads to, and the side it is on.\<close>

fun par_of :: "nat \<Rightarrow> path \<Rightarrow> nat" where
  "par_of R [] = R"
| "par_of R (s # c) = addr s"

fun side_of :: "path \<Rightarrow> bool" where
  "side_of [] = False"
| "side_of (s # c) = side s"

fun rep :: "heap \<Rightarrow> nat \<Rightarrow> bool \<Rightarrow> nat tree \<Rightarrow> bool" where
  "rep h par fl Leaf \<longleftrightarrow> True"
| "rep h par fl (Node l a r) \<longleftrightarrow>
     (\<exists>n. h a = Some n \<and> tr_parent n = Some par \<and> tr_fLeft n = fl \<and> \<not> tr_fRoot n \<and>
          tr_left n = ptr l \<and> tr_right n = ptr r) \<and>
     rep h a True l \<and> rep h a False r"

text \<open>The rows on a path to a place that holds the pointer \<open>p\<close>, up to the root row.\<close>

fun repc :: "nat \<Rightarrow> heap \<Rightarrow> nat option \<Rightarrow> path \<Rightarrow> bool" where
  "repc R h p [] \<longleftrightarrow>
     (\<exists>n. h R = Some n \<and> tr_fRoot n \<and> tr_parent n = None \<and> \<not> tr_fLeft n \<and>
          tr_left n = None \<and> tr_right n = p)"
| "repc R h p (s # c) \<longleftrightarrow>
     (\<exists>n. h (addr s) = Some n \<and> \<not> tr_fRoot n \<and> tr_parent n = Some (par_of R c) \<and>
          tr_fLeft n = side_of c \<and>
          tr_left n = (if side s then p else ptr (sibling s)) \<and>
          tr_right n = (if side s then ptr (sibling s) else p)) \<and>
     rep h (addr s) (\<not> side s) (sibling s) \<and>
     repc R h (Some (addr s)) c"

lemma ptr_fill [simp]: "ptr (fill s t) = Some (addr s)"
  by (cases s) simp_all

lemma fill_cases: "fill s t = (if side s then Node t (addr s) (sibling s)
                               else Node (sibling s) (addr s) t)"
  by (cases s) simp_all

text \<open>Moving the focus one step.\<close>

lemma rep_focus_up:
  "repc R h (ptr t) (s # c) \<and> rep h (addr s) (side s) t \<longleftrightarrow>
   repc R h (ptr (fill s t)) c \<and> rep h (par_of R c) (side_of c) (fill s t)"
  by (cases s) auto

lemma rep_plug:
  "repc R h (ptr t) c \<and> rep h (par_of R c) (side_of c) t \<longleftrightarrow>
   repc R h (ptr (plug t c)) [] \<and> rep h R False (plug t c)"
proof (induction c arbitrary: t)
  case Nil
  show ?case by (simp del: repc.simps)
next
  case (Cons s c)
  show ?case using rep_focus_up[of R h t s c] Cons.IH[of "fill s t"] by simp
qed

subsection \<open>Cached counts and heights\<close>

definition visible :: "heap \<Rightarrow> nat \<Rightarrow> bool" where
  "visible h a \<longleftrightarrow> (case h a of None \<Rightarrow> False | Some n \<Rightarrow> \<not> tr_fHidden n)"

definition vis :: "heap \<Rightarrow> nat list \<Rightarrow> nat" where
  "vis h as = length (filter (visible h) as)"

lemma vis_simps [simp]:
  "vis h [] = 0"
  "vis h (a # as) = (if visible h a then 1 else 0) + vis h as"
  "vis h (as @ bs) = vis h as + vis h bs"
  by (simp_all add: vis_def)

fun cached :: "heap \<Rightarrow> nat tree \<Rightarrow> bool" where
  "cached h Leaf \<longleftrightarrow> True"
| "cached h (Node l a r) \<longleftrightarrow>
     (\<exists>n. h a = Some n \<and> tr_count n = vis h (inorder (Node l a r)) \<and>
          tr_height n = height (Node l a r)) \<and> cached h l \<and> cached h r"

fun cachedc :: "heap \<Rightarrow> path \<Rightarrow> bool" where
  "cachedc h [] \<longleftrightarrow> True"
| "cachedc h (s # c) \<longleftrightarrow> cached h (sibling s) \<and> cachedc h c"

lemma cached_focus:
  "cached h (plug t c) \<Longrightarrow> cached h t \<and> cachedc h c"
proof (induction c arbitrary: t)
  case (Cons s c)
  then have "cached h (fill s t) \<and> cachedc h c" by simp
  then show ?case by (cases s) auto
qed simp

lemma child_count_cached [simp]: "cached h t \<Longrightarrow> child_count h (ptr t) = Some (vis h (inorder t))"
  by (cases t) (auto simp: child_count_def)

lemma child_height_cached [simp]: "cached h t \<Longrightarrow> child_height h (ptr t) = Some (height t)"
  by (cases t) (auto simp: child_height_def)

subsection \<open>Frame rules\<close>

text \<open>The rows that a path runs over, with the rows of the sibling legs.\<close>

fun path_rows :: "path \<Rightarrow> nat list" where
  "path_rows [] = []"
| "path_rows (s # c) = addr s # inorder (sibling s) @ path_rows c"

lemma set_path_rows: "set (path_rows c) = set (rows_before c) \<union> set (rows_after c)"
proof (induction c)
  case (Cons s c)
  then show ?case by (cases s) auto
qed simp

lemma set_plug: "set (inorder (plug t c)) = set (inorder t) \<union> set (path_rows c)"
  by (auto simp: inorder_plug set_path_rows)

lemma distinct_plug:
  "distinct (inorder (plug t c)) \<longleftrightarrow>
   distinct (inorder t) \<and> distinct (path_rows c) \<and> set (inorder t) \<inter> set (path_rows c) = {}"
proof (induction c arbitrary: t)
  case (Cons s c)
  then show ?case by (cases s) auto
qed simp

lemma rep_frame:
  "(\<And>b. b \<in> set (inorder t) \<Longrightarrow> h' b = h b) \<Longrightarrow> rep h' par fl t = rep h par fl t"
  by (induction t arbitrary: par fl) auto

lemma repc_frame:
  "(\<And>b. b = R \<or> b \<in> set (path_rows c) \<Longrightarrow> h' b = h b) \<Longrightarrow> repc R h' p c = repc R h p c"
proof (induction c arbitrary: p)
  case (Cons s c)
  have "rep h' (addr s) (\<not> side s) (sibling s) = rep h (addr s) (\<not> side s) (sibling s)"
    using Cons.prems by (intro rep_frame) simp
  moreover have "repc R h' (Some (addr s)) c = repc R h (Some (addr s)) c"
    using Cons.prems by (intro Cons.IH) auto
  moreover have "h' (addr s) = h (addr s)" using Cons.prems by simp
  ultimately show ?case by simp
qed simp

lemma vis_frame: "(\<And>b. b \<in> set as \<Longrightarrow> visible h' b = visible h b) \<Longrightarrow> vis h' as = vis h as"
  by (simp add: vis_def cong: filter_cong)

lemma cached_frame:
  "(\<And>b. b \<in> set (inorder t) \<Longrightarrow> h' b = h b) \<Longrightarrow> cached h' t = cached h t"
proof (induction t)
  case (Node l a r)
  have "vis h' (inorder (Node l a r)) = vis h (inorder (Node l a r))"
    using Node.prems by (intro vis_frame) (simp add: visible_def)
  then show ?case using Node by simp
qed simp

lemma cachedc_frame:
  "(\<And>b. b \<in> set (path_rows c) \<Longrightarrow> h' b = h b) \<Longrightarrow> cachedc h' c = cachedc h c"
proof (induction c)
  case (Cons s c)
  have "cached h' (sibling s) = cached h (sibling s)"
    using Cons.prems by (intro cached_frame) simp
  then show ?case using Cons by simp
qed simp

lemma rep_upd [simp]: "b \<notin> set_tree t \<Longrightarrow> rep (h(b := v)) par fl t = rep h par fl t"
  by (rule rep_frame) auto

lemma repc_upd [simp]:
  "b \<noteq> R \<Longrightarrow> b \<notin> set (path_rows c) \<Longrightarrow> repc R (h(b := v)) p c = repc R h p c"
  by (rule repc_frame) auto

lemma cached_upd [simp]: "b \<notin> set_tree t \<Longrightarrow> cached (h(b := v)) t = cached h t"
  by (rule cached_frame) auto

lemma cachedc_upd [simp]: "b \<notin> set (path_rows c) \<Longrightarrow> cachedc (h(b := v)) c = cachedc h c"
  by (rule cachedc_frame) auto

text \<open>Stores that differ in cached fields only, and stores that differ in links and caches only.\<close>

definition shape :: "trow \<Rightarrow> trow" where
  "shape n = n\<lparr>tr_count := 0, tr_height := 0\<rparr>"

definition same_shape :: "heap \<Rightarrow> heap \<Rightarrow> bool" where
  "same_shape h h' \<longleftrightarrow> (\<forall>b. map_option shape (h' b) = map_option shape (h b))"

definition payload :: "trow \<Rightarrow> okey \<times> sortcol list \<times> bool \<times> bool" where
  "payload n = (tr_key n, tr_cols n, tr_fRoot n, tr_fHidden n)"

definition same_data :: "heap \<Rightarrow> heap \<Rightarrow> bool" where
  "same_data h h' \<longleftrightarrow> (\<forall>b. map_option payload (h' b) = map_option payload (h b))"

lemma shape_eqD:
  assumes "shape n' = shape n"
  shows "tr_key n' = tr_key n" "tr_cols n' = tr_cols n" "tr_parent n' = tr_parent n"
    "tr_left n' = tr_left n" "tr_right n' = tr_right n" "tr_fLeft n' = tr_fLeft n"
    "tr_fRoot n' = tr_fRoot n" "tr_fHidden n' = tr_fHidden n"
  using assms by (cases n; cases n'; simp add: shape_def)+

lemma same_shape_refl [simp]: "same_shape h h"
  by (simp add: same_shape_def)

lemma same_shape_trans: "same_shape h h' \<Longrightarrow> same_shape h' h'' \<Longrightarrow> same_shape h h''"
  by (simp add: same_shape_def)

lemma same_data_refl [simp]: "same_data h h"
  by (simp add: same_data_def)

lemma same_data_trans: "same_data h h' \<Longrightarrow> same_data h' h'' \<Longrightarrow> same_data h h''"
  by (simp add: same_data_def)

lemma same_shapeD:
  assumes "same_shape h h'" "h b = Some n"
  obtains n' where "h' b = Some n'" "shape n' = shape n"
proof -
  have "map_option shape (h' b) = Some (shape n)" using assms by (simp add: same_shape_def)
  then show ?thesis using that by auto
qed

lemma same_shape_sym: "same_shape h h' \<Longrightarrow> same_shape h' h"
  by (simp add: same_shape_def)

lemma same_shape_data: "same_shape h h' \<Longrightarrow> same_data h h'"
  unfolding same_shape_def same_data_def
proof
  fix b assume *: "\<forall>b. map_option shape (h' b) = map_option shape (h b)"
  then have "map_option shape (h' b) = map_option shape (h b)" ..
  then show "map_option payload (h' b) = map_option payload (h b)"
    by (cases "h b"; cases "h' b") (auto simp: payload_def dest: shape_eqD)
qed

lemma visible_data: "same_data h h' \<Longrightarrow> visible h' b = visible h b"
proof -
  assume "same_data h h'"
  then have "map_option payload (h' b) = map_option payload (h b)" by (simp add: same_data_def)
  then show ?thesis
    by (cases "h b"; cases "h' b") (auto simp: payload_def visible_def)
qed

lemma vis_data: "same_data h h' \<Longrightarrow> vis h' as = vis h as"
  by (intro vis_frame) (simp add: visible_data)

lemma rep_shape_imp: "same_shape h h' \<Longrightarrow> rep h par fl t \<Longrightarrow> rep h' par fl t"
proof (induction t arbitrary: par fl)
  case (Node l a r)
  then obtain n where n: "h a = Some n" by auto
  from same_shapeD[OF Node.prems(1) this] obtain n' where "h' a = Some n'" "shape n' = shape n" .
  with Node n show ?case by (auto dest: shape_eqD)
qed simp

lemma rep_shape: "same_shape h h' \<Longrightarrow> rep h' par fl t = rep h par fl t"
  using rep_shape_imp same_shape_sym by blast

lemma repc_shape_imp: "same_shape h h' \<Longrightarrow> repc R h p c \<Longrightarrow> repc R h' p c"
proof (induction c arbitrary: p)
  case Nil
  then obtain n where n: "h R = Some n" by auto
  from same_shapeD[OF Nil.prems(1) this] obtain n' where "h' R = Some n'" "shape n' = shape n" .
  with Nil n show ?case by (auto dest: shape_eqD)
next
  case (Cons s c)
  then obtain n where n: "h (addr s) = Some n" by auto
  from same_shapeD[OF Cons.prems(1) this] obtain n'
    where "h' (addr s) = Some n'" "shape n' = shape n" .
  with Cons n show ?case by (auto simp: rep_shape dest: shape_eqD)
qed

lemma repc_shape: "same_shape h h' \<Longrightarrow> repc R h' p c = repc R h p c"
  using repc_shape_imp same_shape_sym by blast

end
