(* ===== verification/Key_Balance.thy ===== *)
theory Key_Balance
  imports Key_Rep
begin

text \<open>
  \<open>UpdateCounts\<close>, the rotations, \<open>Restructure\<close> and \<open>RestructureRecursive\<close> of
  \<^verbatim>\<open>common/ECKeyTable.cpp\<close> on a store that represents a tree: each of them ends, reads no null
  or freed row, keeps what the rows hold, and leaves a store that represents the tree that the
  function of \<open>Key_Tree\<close> computes, with every cached count and height right again.
\<close>

subsection \<open>Stores with a focus\<close>

text \<open>
  The store represents \<open>plug t c\<close>; the caches of the rows at the focus and on the path above it
  may be out of date, those of the sibling legs are right.
\<close>

definition focus :: "nat \<Rightarrow> heap \<Rightarrow> nat tree \<Rightarrow> path \<Rightarrow> bool" where
  "focus R h t c \<longleftrightarrow> distinct (R # inorder (plug t c)) \<and> repc R h (ptr t) c \<and>
     rep h (par_of R c) (side_of c) t \<and> cachedc h c"

text \<open>The store represents \<open>t\<close> with every cache right.\<close>

definition wf_tab :: "nat \<Rightarrow> heap \<Rightarrow> nat tree \<Rightarrow> bool" where
  "wf_tab R h t \<longleftrightarrow> distinct (R # inorder t) \<and> repc R h (ptr t) [] \<and> rep h R False t \<and>
     cached h t \<and> (\<exists>n. h R = Some n \<and> tr_count n = vis h (inorder t))"

lemma wf_focus: "wf_tab R h (plug t c) \<Longrightarrow> focus R h t c \<and> cached h t"
  unfolding wf_tab_def focus_def
  using rep_plug[of R h t c] cached_focus[of h t c] by blast

lemma focus_fill:
  assumes "focus R h t (s # c)" "cached h t"
  shows "focus R h (fill s t) c"
  using assms rep_focus_up[of R h t s c] by (simp add: focus_def)

lemma focus_frame:
  assumes "focus R h t c" "\<And>b. b \<in> set (inorder t) \<Longrightarrow> h' b = h b"
    "\<And>b. b = R \<or> b \<in> set (path_rows c) \<Longrightarrow> h' b = h b"
  shows "focus R h' t c"
proof -
  have "rep h' (par_of R c) (side_of c) t" using assms(1,2) rep_frame[of t h' h] by (simp add: focus_def)
  moreover have "repc R h' (ptr t) c" using assms(1,3) repc_frame[of R c h' h] by (simp add: focus_def)
  moreover have "cachedc h' c" using assms(1,3) cachedc_frame[of c h' h] by (simp add: focus_def)
  ultimately show ?thesis using assms(1) by (simp add: focus_def)
qed

lemma focus_distinct:
  "focus R h t c \<Longrightarrow> R \<notin> set (inorder t) \<and> R \<notin> set (path_rows c) \<and> distinct (inorder t) \<and>
     distinct (path_rows c) \<and> set (inorder t) \<inter> set (path_rows c) = {}"
  using distinct_plug[of t c] set_plug[of t c] by (auto simp: focus_def)

lemma UpdateCounts_None [simp]: "UpdateCounts R h None = Some h"
  by (simp add: UpdateCounts.simps)

text \<open>One iteration of the loop, on a row below the root row and on the root row.\<close>

lemma UpdateCounts_step:
  assumes "focus R h (Node l a r) c" "cached h l" "cached h r"
  obtains h1 where "UpdateCounts R h (Some a) = UpdateCounts R h1 (Some (par_of R c))"
    "focus R h1 (Node l a r) c" "cached h1 (Node l a r)" "same_shape h h1"
proof -
  from assms(1) obtain n where n: "h a = Some n" "tr_left n = ptr l" "tr_right n = ptr r"
      "tr_parent n = Some (par_of R c)"
    by (auto simp: focus_def)
  define n' where "n' = n\<lparr>tr_count := (if tr_fHidden n then 0 else 1) +
      vis h (inorder l) + vis h (inorder r), tr_height := 1 + max (height l) (height r)\<rparr>"
  define h1 where "h1 = h(a \<mapsto> n')"
  have d: "a \<noteq> R" "a \<notin> set_tree l" "a \<notin> set_tree r" "a \<notin> set (path_rows c)"
    using focus_distinct[OF assms(1)] by auto
  have sh: "same_shape h h1" using n(1) by (simp add: same_shape_def h1_def n'_def shape_def)
  have v: "vis h1 as = vis h as" for as using sh by (simp add: vis_data same_shape_data)
  have va: "visible h a \<longleftrightarrow> \<not> tr_fHidden n" using n(1) by (simp add: visible_def)
  have "UpdateCounts R h (Some a) = UpdateCounts R h1 (Some (par_of R c))"
    using n d assms(2,3) by (subst UpdateCounts.simps) (simp add: h1_def n'_def)
  moreover have "cachedc h1 c" using assms(1) d by (simp add: focus_def h1_def)
  then have "focus R h1 (Node l a r) c"
    using assms(1) by (simp only: focus_def rep_shape[OF sh] repc_shape[OF sh] simp_thms)
  moreover have "cached h1 l" "cached h1 r" "h1 a = Some n'"
    using assms(2,3) d by (simp_all add: h1_def)
  then have "cached h1 (Node l a r)"
    using visible_data[OF same_shape_data[OF sh], of a] by (simp add: v va n'_def)
  ultimately show ?thesis using sh that by blast
qed

lemma UpdateCounts_root:
  assumes "focus R h t []" "cached h t"
  obtains h' where "UpdateCounts R h (Some R) = Some h'" "wf_tab R h' t" "same_shape h h'"
proof -
  from assms(1) obtain m where m: "h R = Some m" "tr_parent m = None" "tr_left m = None"
      "tr_right m = ptr t"
    by (auto simp: focus_def)
  define m' where "m' = m\<lparr>tr_count := vis h (inorder t), tr_height := height t\<rparr>"
  define h' where "h' = h(R \<mapsto> m')"
  have R: "R \<notin> set_tree t" using focus_distinct[OF assms(1)] by simp
  have sh: "same_shape h h'" using m(1) by (simp add: same_shape_def h'_def m'_def shape_def)
  have v: "vis h' as = vis h as" for as using sh by (simp add: vis_data same_shape_data)
  have "UpdateCounts R h (Some R) = Some h'"
    using m child_count_cached[OF assms(2)] child_height_cached[OF assms(2)]
    by (subst UpdateCounts.simps) (simp add: h'_def m'_def child_count_def child_height_def)
  moreover have "cached h' t" "h' R = Some m'" using assms(2) R by (simp_all add: h'_def)
  then have "wf_tab R h' t"
    using assms(1) unfolding wf_tab_def focus_def
    by (simp only: rep_shape[OF sh] repc_shape[OF sh] v plug.simps par_of.simps side_of.simps)
      (simp add: m'_def)
  ultimately show ?thesis using sh that by blast
qed

theorem UpdateCounts_focus:
  assumes "focus R h (Node l a r) c" "cached h l" "cached h r"
  shows "\<exists>h'. UpdateCounts R h (Some a) = Some h' \<and> same_shape h h' \<and>
     wf_tab R h' (plug (Node l a r) c)"
  using assms
proof (induction c arbitrary: h l a r)
  case Nil
  from UpdateCounts_step[OF Nil.prems] obtain h1 where
    1: "UpdateCounts R h (Some a) = UpdateCounts R h1 (Some (par_of R []))"
    "focus R h1 (Node l a r) []" "cached h1 (Node l a r)" "same_shape h h1" .
  from UpdateCounts_root[OF 1(2,3)] show ?case
    using 1(1,4) same_shape_trans by (metis par_of.simps(1) plug.simps(1))
next
  case (Cons s c)
  from UpdateCounts_step[OF Cons.prems] obtain h1 where
    1: "UpdateCounts R h (Some a) = UpdateCounts R h1 (Some (par_of R (s # c)))"
    "focus R h1 (Node l a r) (s # c)" "cached h1 (Node l a r)" "same_shape h h1" .
  have fc: "focus R h1 (fill s (Node l a r)) c" using 1(2,3) by (rule focus_fill)
  have sib: "cached h1 (sibling s)" using 1(2) by (simp add: focus_def)
  have "\<exists>h'. UpdateCounts R h1 (Some (addr s)) = Some h' \<and> same_shape h1 h' \<and>
      wf_tab R h' (plug (fill s (Node l a r)) c)"
  proof (cases s)
    case (StepL b t)
    then show ?thesis using Cons.IH[of h1 "Node l a r" b t] fc 1(3) sib by simp
  next
    case (StepR t b)
    then show ?thesis using Cons.IH[of h1 t b "Node l a r"] fc 1(3) sib by simp
  qed
  then show ?case using 1(1,4) same_shape_trans by (metis par_of.simps(2) plug.simps(2))
qed

subsection \<open>Relinking\<close>

text \<open>Stores that differ in links only: what the rows hold and cache is the same.\<close>

definition info :: "trow \<Rightarrow> (okey \<times> sortcol list \<times> bool \<times> bool) \<times> nat \<times> nat" where
  "info n = (payload n, tr_count n, tr_height n)"

definition same_info :: "heap \<Rightarrow> heap \<Rightarrow> bool" where
  "same_info h h' \<longleftrightarrow> (\<forall>b. map_option info (h' b) = map_option info (h b))"

lemma same_info_refl [simp]: "same_info h h"
  by (simp add: same_info_def)

lemma same_info_trans: "same_info h h' \<Longrightarrow> same_info h' h'' \<Longrightarrow> same_info h h''"
  by (simp add: same_info_def)

lemma same_info_upd: "h a = Some n \<Longrightarrow> info n' = info n \<Longrightarrow> same_info h (h(a \<mapsto> n'))"
  by (simp add: same_info_def)

lemma same_info_data: "same_info h h' \<Longrightarrow> same_data h h'"
  unfolding same_info_def same_data_def
proof
  fix b assume "\<forall>b. map_option info (h' b) = map_option info (h b)"
  then have "map_option info (h' b) = map_option info (h b)" ..
  then show "map_option payload (h' b) = map_option payload (h b)"
    by (cases "h b"; cases "h' b") (auto simp: info_def)
qed

lemma same_info_cached_imp: "same_info h h' \<Longrightarrow> cached h t \<Longrightarrow> cached h' t"
proof (induction t)
  case (Node l a r)
  then obtain n where n: "h a = Some n" by auto
  have "map_option info (h' a) = map_option info (h a)" using Node.prems(1) by (simp add: same_info_def)
  then obtain n' where "h' a = Some n'" "info n' = info n" using n by auto
  moreover have "vis h' as = vis h as" for as
    using Node.prems(1) by (simp add: vis_data same_info_data)
  moreover have "visible h' a = visible h a"
    using Node.prems(1) by (simp add: visible_data same_info_data)
  ultimately show ?case using Node n by (auto simp: info_def)
qed simp

lemma same_info_sym: "same_info h h' \<Longrightarrow> same_info h' h"
  by (simp add: same_info_def)

lemma same_info_cached: "same_info h h' \<Longrightarrow> cached h' t = cached h t"
  using same_info_cached_imp same_info_sym by blast

lemma same_info_cachedc: "same_info h h' \<Longrightarrow> cachedc h' c = cachedc h c"
  by (induction c) (auto simp: same_info_cached)

lemmas info_defs = info_def payload_def

text \<open>Hanging another subtree at the end of a path.\<close>

definition relink :: "path \<Rightarrow> nat option \<Rightarrow> trow \<Rightarrow> trow" where
  "relink c p n = (if side_of c then n\<lparr>tr_left := p\<rparr> else n\<lparr>tr_right := p\<rparr>)"

lemma relink_simps [simp]:
  "tr_key (relink c p n) = tr_key n" "tr_cols (relink c p n) = tr_cols n"
  "tr_fRoot (relink c p n) = tr_fRoot n" "tr_fHidden (relink c p n) = tr_fHidden n"
  "tr_count (relink c p n) = tr_count n" "tr_height (relink c p n) = tr_height n"
  "tr_parent (relink c p n) = tr_parent n" "tr_fLeft (relink c p n) = tr_fLeft n"
  by (simp_all add: relink_def)

lemma info_relink [simp]: "info (relink c p n) = info n"
  by (simp add: info_defs)

lemma set_child_relink:
  "h q = Some n \<Longrightarrow> set_child h q (side_of c) p = Some (h(q \<mapsto> relink c p n))"
  by (simp add: set_child_def upd_def relink_def)

lemma par_of_in: "par_of R c = R \<or> par_of R c \<in> set (path_rows c)"
  by (cases c) auto

lemma repc_par:
  assumes "repc R h p c"
  obtains Q where "h (par_of R c) = Some Q"
  using assms by (cases c) auto

lemma repc_relink:
  assumes "repc R h p c" "distinct (path_rows c)" "R \<notin> set (path_rows c)" "h (par_of R c) = Some Q"
  shows "repc R (h(par_of R c \<mapsto> relink c p' Q)) p' c"
proof (cases c)
  case Nil
  then show ?thesis using assms by (auto simp: relink_def)
next
  case (Cons s c')
  then show ?thesis using assms by (cases s) (auto simp: relink_def)
qed

text \<open>Hanging a subtree under another parent.\<close>

lemma set_up_rep:
  assumes "rep h par fl t" "distinct (inorder t)"
  obtains h' where "set_up h (ptr t) (Some par') fl' = Some h'" "rep h' par' fl' t"
    "same_info h h'" "\<And>b. ptr t \<noteq> Some b \<Longrightarrow> h' b = h b"
proof (cases t)
  case Leaf
  then show ?thesis using that[of h] by (auto simp: set_up_def)
next
  case (Node l a r)
  then obtain n where n: "h a = Some n" "\<not> tr_fRoot n" "tr_left n = ptr l" "tr_right n = ptr r"
    "rep h a True l" "rep h a False r"
    using assms(1) by auto
  let ?h = "h(a \<mapsto> n\<lparr>tr_parent := Some par', tr_fLeft := fl'\<rparr>)"
  have "rep ?h par' fl' t" using Node n assms(2) by auto
  moreover have "set_up h (ptr t) (Some par') fl' = Some ?h"
    using Node n by (simp add: set_up_def upd_def)
  moreover have "same_info h ?h" using n(1) by (rule same_info_upd) (simp add: info_defs)
  ultimately show ?thesis using Node n that[of ?h] by (auto split: if_splits)
qed

subsection \<open>Rotations\<close>

text \<open>
  Both rotations relink the rows and then recompute the caches, first of the pivot and then of
  the lifted row.
\<close>

lemma rotation_recount:
  assumes "focus R h (fill s (Node l a r)) c" "cached h l" "cached h r" "cached h (sibling s)"
  shows "\<exists>h' h''. UpdateCounts R h (Some a) = Some h' \<and> UpdateCounts R h' (Some (addr s)) = Some h'' \<and>
     same_data h h'' \<and> wf_tab R h'' (plug (fill s (Node l a r)) c)"
proof -
  have "focus R h (Node l a r) (s # c)"
    using assms(1,4) rep_focus_up[of R h "Node l a r" s c] by (simp add: focus_def)
  from UpdateCounts_focus[OF this assms(2,3)] obtain h' where
    1: "UpdateCounts R h (Some a) = Some h'" "same_shape h h'"
    "wf_tab R h' (plug (fill s (Node l a r)) c)" by auto
  have f: "focus R h' (fill s (Node l a r)) c" "cached h' (fill s (Node l a r))"
    using wf_focus[OF 1(3)] by auto
  have "\<exists>h''. UpdateCounts R h' (Some (addr s)) = Some h'' \<and> same_shape h' h'' \<and>
     wf_tab R h'' (plug (fill s (Node l a r)) c)"
  proof (cases s)
    case (StepL b t)
    then show ?thesis using UpdateCounts_focus[of R h' "Node l a r" b t c] f by simp
  next
    case (StepR t b)
    then show ?thesis using UpdateCounts_focus[of R h' t b "Node l a r" c] f by simp
  qed
  then show ?thesis using 1 same_shape_data same_shape_trans by blast
qed

lemma RotateL_focus:
  assumes f: "focus R h (Node (Node A l B) p C) c"
    and ca: "cached h A" "cached h B" "cached h C"
  shows "\<exists>h'. RotateL R h p = Some h' \<and> same_data h h' \<and>
     wf_tab R h' (plug (Node A l (Node B p C)) c)"
proof -
  define q where "q = par_of R c"
  from f obtain P L where P: "h p = Some P" "tr_left P = Some l" "tr_right P = ptr C"
      "tr_parent P = Some q" "tr_fLeft P = side_of c" "\<not> tr_fRoot P"
    and L: "h l = Some L" "tr_left L = ptr A" "tr_right L = ptr B" "\<not> tr_fRoot L"
    and reps: "rep h l True A" "rep h l False B" "rep h p False C" and rc: "repc R h (Some p) c"
    by (auto simp: focus_def q_def)
  from repc_par[OF rc] obtain Q where Q: "h q = Some Q" unfolding q_def .
  note d = focus_distinct[OF f]
  have qc: "q = R \<or> q \<in> set (path_rows c)" unfolding q_def by (rule par_of_in)
  have ne: "p \<noteq> l" "p \<noteq> q" "l \<noteq> q" "R \<noteq> p" "R \<noteq> l"
    "q \<notin> set_tree A" "q \<notin> set_tree B" "q \<notin> set_tree C"
    using d qc by auto
  define L1 where "L1 = L\<lparr>tr_parent := Some q, tr_fLeft := side_of c\<rparr>"
  define h3 where "h3 = h(l \<mapsto> L1, q \<mapsto> relink c (Some l) Q, p \<mapsto> P\<lparr>tr_left := ptr B\<rparr>)"
  have B3: "rep h3 l False B" using reps(2) d ne by (simp add: h3_def)
  have dB: "distinct (inorder B)" using d by simp
  from set_up_rep[OF B3 dB, of p True] obtain h4 where
    h4: "set_up h3 (ptr B) (Some p) True = Some h4" "rep h4 p True B" "same_info h3 h4"
      "\<And>b. ptr B \<noteq> Some b \<Longrightarrow> h4 b = h3 b" by metis
  have out4: "h4 b = h3 b" if "b \<notin> set_tree B" for b
    using that h4(4)[of b] by (cases B) auto
  have v4: "h4 l = Some L1" "h4 p = Some (P\<lparr>tr_left := ptr B\<rparr>)"
    using out4 ne d by (auto simp: h3_def)
  define h6 where "h6 = h4(l \<mapsto> L1\<lparr>tr_right := Some p\<rparr>,
      p \<mapsto> P\<lparr>tr_left := ptr B, tr_parent := Some l, tr_fLeft := False\<rparr>)"
  have R1: "tr_right L1 = ptr B" using L by (simp add: L1_def)
  have run: "RotateL R h p = do { h' \<leftarrow> UpdateCounts R h6 (Some p); UpdateCounts R h' (Some l) }"
    using P L Q ne h4(1)[unfolded h3_def] v4 R1
    by (simp add: RotateL_def upd_def L1_def[symmetric] set_child_relink h6_def)
  have si: "same_info h h6"
  proof -
    have "same_info h h3" using P(1) L(1) Q ne by (simp add: h3_def same_info_def L1_def info_defs)
    moreover have "same_info h4 h6" using v4 ne by (simp add: h6_def same_info_def info_defs)
    ultimately show ?thesis using h4(3) same_info_trans by blast
  qed
  have "focus R h6 (Node A l (Node B p C)) c"
  proof -
    have "repc R (h(q \<mapsto> relink c (Some l) Q)) (Some l) c"
      unfolding q_def using rc d Q by (intro repc_relink) (auto simp: q_def)
    moreover have "h6 b = (h(q \<mapsto> relink c (Some l) Q)) b" if "b = R \<or> b \<in> set (path_rows c)" for b
    proof -
      have "b \<notin> set_tree B" "b \<noteq> l" "b \<noteq> p" using that d by auto
      then show ?thesis using out4[of b] by (simp add: h6_def h3_def)
    qed
    ultimately have "repc R h6 (Some l) c" using repc_frame by metis
    moreover have "h6 b = h b" if "b \<in> set (inorder A)" for b
    proof -
      have "b \<notin> set_tree B" "b \<noteq> l" "b \<noteq> p" "b \<noteq> q" using that d ne by auto
      then show ?thesis using out4[of b] by (simp add: h6_def h3_def)
    qed
    then have "rep h6 l True A" using reps(1) rep_frame[of A h6 h] by blast
    moreover have "rep h6 p True B" using h4(2) d by (simp add: h6_def)
    moreover have "h6 b = h b" if "b \<in> set (inorder C)" for b
    proof -
      have "b \<notin> set_tree B" "b \<noteq> l" "b \<noteq> p" "b \<noteq> q" using that d ne by auto
      then show ?thesis using out4[of b] by (simp add: h6_def h3_def)
    qed
    then have "rep h6 p False C" using reps(3) rep_frame[of C h6 h] by blast
    moreover have "cachedc h6 c" using f same_info_cachedc[OF si] by (simp add: focus_def)
    moreover have "distinct (R # inorder (plug (Node A l (Node B p C)) c))"
      using f by (simp add: focus_def inorder_plug)
    ultimately show ?thesis
      using ne P L by (simp add: focus_def h6_def L1_def q_def)
  qed
  then show ?thesis
    using rotation_recount[of R h6 "StepR A l" B p C c] ca run si
      same_data_trans[OF same_info_data[OF si]]
    by (auto simp: same_info_cached[OF si])
qed

lemma RotateR_focus:
  assumes f: "focus R h (Node C p (Node B l A)) c"
    and ca: "cached h A" "cached h B" "cached h C"
  shows "\<exists>h'. RotateR R h p = Some h' \<and> same_data h h' \<and>
     wf_tab R h' (plug (Node (Node C p B) l A) c)"
proof -
  define q where "q = par_of R c"
  from f obtain P L where P: "h p = Some P" "tr_right P = Some l" "tr_left P = ptr C"
      "tr_parent P = Some q" "tr_fLeft P = side_of c" "\<not> tr_fRoot P"
    and L: "h l = Some L" "tr_right L = ptr A" "tr_left L = ptr B" "\<not> tr_fRoot L"
    and reps: "rep h l False A" "rep h l True B" "rep h p True C" and rc: "repc R h (Some p) c"
    by (auto simp: focus_def q_def)
  from repc_par[OF rc] obtain Q where Q: "h q = Some Q" unfolding q_def .
  note d = focus_distinct[OF f]
  have qc: "q = R \<or> q \<in> set (path_rows c)" unfolding q_def by (rule par_of_in)
  have ne: "p \<noteq> l" "p \<noteq> q" "l \<noteq> q" "R \<noteq> p" "R \<noteq> l"
    "q \<notin> set_tree A" "q \<notin> set_tree B" "q \<notin> set_tree C"
    using d qc by auto
  define L1 where "L1 = L\<lparr>tr_parent := Some q, tr_fLeft := side_of c\<rparr>"
  define h3 where "h3 = h(l \<mapsto> L1, q \<mapsto> relink c (Some l) Q, p \<mapsto> P\<lparr>tr_right := ptr B\<rparr>)"
  have B3: "rep h3 l True B" using reps(2) d ne by (simp add: h3_def)
  have dB: "distinct (inorder B)" using d by simp
  from set_up_rep[OF B3 dB, of p False] obtain h4 where
    h4: "set_up h3 (ptr B) (Some p) False = Some h4" "rep h4 p False B" "same_info h3 h4"
      "\<And>b. ptr B \<noteq> Some b \<Longrightarrow> h4 b = h3 b" by metis
  have out4: "h4 b = h3 b" if "b \<notin> set_tree B" for b
    using that h4(4)[of b] by (cases B) auto
  have v4: "h4 l = Some L1" "h4 p = Some (P\<lparr>tr_right := ptr B\<rparr>)"
    using out4 ne d by (auto simp: h3_def)
  define h6 where "h6 = h4(l \<mapsto> L1\<lparr>tr_left := Some p\<rparr>,
      p \<mapsto> P\<lparr>tr_right := ptr B, tr_parent := Some l, tr_fLeft := True\<rparr>)"
  have R1: "tr_left L1 = ptr B" using L by (simp add: L1_def)
  have run: "RotateR R h p = do { h' \<leftarrow> UpdateCounts R h6 (Some p); UpdateCounts R h' (Some l) }"
    using P L Q ne h4(1)[unfolded h3_def] v4 R1
    by (simp add: RotateR_def upd_def L1_def[symmetric] set_child_relink h6_def)
  have si: "same_info h h6"
  proof -
    have "same_info h h3" using P(1) L(1) Q ne by (simp add: h3_def same_info_def L1_def info_defs)
    moreover have "same_info h4 h6" using v4 ne by (simp add: h6_def same_info_def info_defs)
    ultimately show ?thesis using h4(3) same_info_trans by blast
  qed
  have "focus R h6 (Node (Node C p B) l A) c"
  proof -
    have "repc R (h(q \<mapsto> relink c (Some l) Q)) (Some l) c"
      unfolding q_def using rc d Q by (intro repc_relink) (auto simp: q_def)
    moreover have "h6 b = (h(q \<mapsto> relink c (Some l) Q)) b" if "b = R \<or> b \<in> set (path_rows c)" for b
    proof -
      have "b \<notin> set_tree B" "b \<noteq> l" "b \<noteq> p" using that d by auto
      then show ?thesis using out4[of b] by (simp add: h6_def h3_def)
    qed
    ultimately have "repc R h6 (Some l) c" using repc_frame by metis
    moreover have "h6 b = h b" if "b \<in> set (inorder A)" for b
    proof -
      have "b \<notin> set_tree B" "b \<noteq> l" "b \<noteq> p" "b \<noteq> q" using that d ne by auto
      then show ?thesis using out4[of b] by (simp add: h6_def h3_def)
    qed
    then have "rep h6 l False A" using reps(1) rep_frame[of A h6 h] by blast
    moreover have "rep h6 p False B" using h4(2) d by (simp add: h6_def)
    moreover have "h6 b = h b" if "b \<in> set (inorder C)" for b
    proof -
      have "b \<notin> set_tree B" "b \<noteq> l" "b \<noteq> p" "b \<noteq> q" using that d ne by auto
      then show ?thesis using out4[of b] by (simp add: h6_def h3_def)
    qed
    then have "rep h6 p True C" using reps(3) rep_frame[of C h6 h] by blast
    moreover have "cachedc h6 c" using f same_info_cachedc[OF si] by (simp add: focus_def)
    moreover have "distinct (R # inorder (plug (Node (Node C p B) l A) c))"
      using f by (simp add: focus_def inorder_plug)
    ultimately show ?thesis
      using ne P L by (simp add: focus_def h6_def L1_def q_def)
  qed
  then show ?thesis
    using rotation_recount[of R h6 "StepL l A" C p B c] ca run si
      same_data_trans[OF same_info_data[OF si]]
    by (auto simp: same_info_cached[OF si])
qed

subsection \<open>Restructuring\<close>

lemma GetBalance_ptr:
  assumes "rep h par fl t" "cached h t"
  shows "GetBalance h (ptr t) = Some (balance t)"
  using assms child_height_cached by (cases t) (auto simp: GetBalance_def)

lemma focus_cached_legs:
  "focus R h (Node l a r) c \<Longrightarrow> cached h (Node l a r) \<Longrightarrow>
    cached h l \<and> cached h r \<and> rep h a True l \<and> rep h a False r \<and>
    (\<exists>n. h a = Some n \<and> tr_left n = ptr l \<and> tr_right n = ptr r \<and> tr_parent n = Some (par_of R c))"
  by (auto simp: focus_def)

theorem Restructure_wf:
  assumes w: "wf_tab R h (plug (Node l a r) c)"
  shows "\<exists>h'. Restructure R h a = Some h' \<and> same_data h h' \<and> wf_tab R h' (plug (restr (Node l a r)) c)"
proof -
  have f: "focus R h (Node l a r) c" and ch: "cached h (Node l a r)" using wf_focus[OF w] by auto
  from focus_cached_legs[OF f ch] obtain n where
    n: "h a = Some n" "tr_left n = ptr l" "tr_right n = ptr r"
    and cl: "cached h l" "cached h r" and rl: "rep h a True l" "rep h a False r" by auto
  have bal: "GetBalance h (Some a) = Some (int (height l) - int (height r))"
    using GetBalance_ptr[of h "par_of R c" "side_of c" "Node l a r"] f ch by (simp add: focus_def)
  have bl: "GetBalance h (ptr l) = Some (balance l)" using GetBalance_ptr[OF rl(1) cl(1)] .
  have br: "GetBalance h (ptr r) = Some (balance r)" using GetBalance_ptr[OF rl(2) cl(2)] .
  consider (LL) "int (height l) - int (height r) > 1" "balance l \<ge> 0"
    | (LR) "int (height l) - int (height r) > 1" "balance l < 0"
    | (RR) "int (height l) - int (height r) < -1" "balance r \<le> 0"
    | (RL) "int (height l) - int (height r) < -1" "balance r > 0"
    | (none) "\<not> int (height l) - int (height r) > 1" "\<not> int (height l) - int (height r) < -1"
    by linarith
  then show ?thesis
  proof cases
    case LL
    then obtain A x B where l: "l = Node A x B" by (cases l) auto
    have "Restructure R h a = RotateL R h a"
      using LL n bal bl by (simp add: Restructure_def)
    then show ?thesis using RotateL_focus[of R h A x B a r c] f cl LL l by simp
  next
    case LR
    then obtain A x B where l: "l = Node A x B" by (cases l) auto
    with LR obtain M y N where B: "B = Node M y N" by (cases B) auto
    have fl: "focus R h l (StepL a r # c)"
      using f cl rep_focus_up[of R h l "StepL a r" c] by (simp add: focus_def)
    from RotateR_focus[of R h A x M y N "StepL a r # c"] fl cl l B obtain h1 where
      h1: "RotateR R h x = Some h1" "same_data h h1"
      "wf_tab R h1 (plug (Node (Node (Node A x M) y N) a r) c)" by auto
    from wf_focus[OF h1(3)] RotateL_focus[of R h1 "Node A x M" y N a r c] obtain h2 where
      h2: "RotateL R h1 a = Some h2" "same_data h1 h2"
      "wf_tab R h2 (plug (Node (Node A x M) y (Node N a r)) c)" by auto
    obtain X where X: "h x = Some X" "tr_parent X = Some a" using rl(1) l by auto
    have "Restructure R h a = Some h2"
      using LR n bal bl l X h1(1) h2(1) by (simp add: Restructure_def RotateLR_def)
    then show ?thesis using h2 same_data_trans[OF h1(2)] LR l B by auto
  next
    case RR
    then obtain B x A where r: "r = Node B x A" by (cases r) auto
    have "Restructure R h a = RotateR R h a"
      using RR n bal br by (simp add: Restructure_def)
    then show ?thesis using RotateR_focus[of R h l a B x A c] f cl RR r by simp
  next
    case RL
    then obtain B x A where r: "r = Node B x A" by (cases r) auto
    with RL obtain M y N where B: "B = Node M y N" by (cases B) auto
    have fr: "focus R h r (StepR l a # c)"
      using f cl rep_focus_up[of R h r "StepR l a" c] by (simp add: focus_def)
    from RotateL_focus[of R h M y N x A "StepR l a # c"] fr cl r B obtain h1 where
      h1: "RotateL R h x = Some h1" "same_data h h1"
      "wf_tab R h1 (plug (Node l a (Node M y (Node N x A))) c)" by auto
    from wf_focus[OF h1(3)] RotateR_focus[of R h1 l a M y "Node N x A" c] obtain h2 where
      h2: "RotateR R h1 a = Some h2" "same_data h1 h2"
      "wf_tab R h2 (plug (Node (Node l a M) y (Node N x A)) c)" by auto
    obtain X where X: "h x = Some X" "tr_parent X = Some a" using rl(2) r by auto
    have "Restructure R h a = Some h2"
      using RL n bal br r X h1(1) h2(1) by (simp add: Restructure_def RotateRL_def)
    then show ?thesis using h2 same_data_trans[OF h1(2)] RL r B by auto
  next
    case none
    then have "Restructure R h a = Some h" using n bal by (simp add: Restructure_def)
    then show ?thesis using w none by auto
  qed
qed


text \<open>
  \<open>RestructureRecursive\<close> follows the parent pointer of the row it has restructured. After a
  rotation that is the row that took its place, so the new top of the subtree is looked at
  again: the walk is that of \<open>up\<close> when rebalancing the rebalanced subtree changes nothing.
\<close>

fun settles :: "nat tree \<Rightarrow> path \<Rightarrow> bool" where
  "settles t [] = (restr (restr t) = restr t)"
| "settles t (s # c) = (restr (restr t) = restr t \<and> settles (fill s (restr t)) c)"

lemma settles_top: "settles t c \<Longrightarrow> restr (restr t) = restr t"
  by (cases c) simp_all

lemma settles_avl:
  assumes "avl (plug t0 c)" "avl t" "near (height t) (height t0)"
  shows "settles t c"
  using assms
proof (induction c arbitrary: t t0)
  case (Cons s c)
  have "avl (fill s t0)" using Cons.prems(1) avl_plug_focus by fastforce
  then have *: "avl (restr (fill s t)) \<and> near (height (restr (fill s t))) (height (fill s t0))"
    using Cons.prems avl_fill by blast
  have "settles (restr (fill s t)) c" using Cons.IH[of "fill s t0"] Cons.prems(1) * by simp
  then have "settles (fill s t) c" using * by (cases c) simp_all
  then show ?case using Cons.prems(2) by simp
qed simp

lemma settles_same_height:
  assumes "avl (plug t0 c)" "restr t = t" "height t = height t0"
  shows "settles t c"
  using assms
proof (induction c arbitrary: t t0)
  case (Cons s c)
  have "avl (fill s t0)" using Cons.prems(1) avl_plug_focus by fastforce
  then have "restr (fill s t) = fill s t" using Cons.prems(3) by (cases s) auto
  moreover have "height (fill s t) = height (fill s t0)" using Cons.prems(3) by (cases s) simp_all
  ultimately show ?case using Cons.IH[of "fill s t0" "fill s t"] Cons.prems by simp
qed simp

lemma restr_lifts:
  obtains "restr (Node l a r) = Node l a r"
  | x where "restr (Node l a r) = lift_left (Node x a r)"
  | x where "restr (Node l a r) = lift_right (Node l a x)"
  by (cases "int (height l) - int (height r) > 1"; cases "int (height l) - int (height r) < -1";
      cases "balance l \<ge> 0"; cases "balance r \<le> 0") (simp_all only: restr.simps if_True if_False; fast)+

lemma restr_shape:
  obtains x y where "restr (Node l a r) = Node x a y"
  | x b y z where "restr (Node l a r) = Node (Node x a y) b z"
  | x b y z where "restr (Node l a r) = Node z b (Node x a y)"
proof (rule restr_lifts[of l a r])
  assume "restr (Node l a r) = Node l a r"
  then show ?thesis using that(1) by blast
next
  fix x assume "restr (Node l a r) = lift_left (Node x a r)"
  then show ?thesis using that(1)[of x r] that(3) by (cases x) simp_all
next
  fix x assume "restr (Node l a r) = lift_right (Node l a x)"
  then show ?thesis using that(1)[of l x] that(2) by (cases x) simp_all
qed

lemma wf_parent:
  assumes "wf_tab R h (plug (Node l a r) c)"
  shows "a \<noteq> R" "\<exists>n. h a = Some n \<and> tr_parent n = Some (par_of R c)"
  using wf_focus[OF assms] focus_distinct[of R h "Node l a r" c] by (auto simp: focus_def)

lemma RestructureRecursive_step:
  assumes w: "wf_tab R h (plug (Node l a r) c)"
    and i: "restr (restr (Node l a r)) = restr (Node l a r)"
  shows "\<exists>h'. RestructureRecursive R h (Some a) = RestructureRecursive R h' (Some (par_of R c)) \<and>
    same_data h h' \<and> wf_tab R h' (plug (restr (Node l a r)) c)"
proof -
  from Restructure_wf[OF w] obtain h1 where
    h1: "Restructure R h a = Some h1" "same_data h h1" "wf_tab R h1 (plug (restr (Node l a r)) c)" by blast
  have aR: "a \<noteq> R" using wf_parent[OF w] by blast
  have again: ?thesis if t: "restr (Node l a r) = Node x b y"
    and pa: "\<exists>n. h1 a = Some n \<and> tr_parent n = Some b" for x b y
  proof -
    note w1 = h1(3)[unfolded t]
    from Restructure_wf[OF w1] i t obtain h2 where
      h2: "Restructure R h1 b = Some h2" "same_data h1 h2" "wf_tab R h2 (plug (Node x b y) c)" by auto
    from wf_parent[OF w1] wf_parent[OF h2(3)] pa obtain n n' where
      "b \<noteq> R" "h1 a = Some n" "tr_parent n = Some b" "h2 b = Some n'" "tr_parent n' = Some (par_of R c)"
      by blast
    then have "RestructureRecursive R h (Some a) = RestructureRecursive R h2 (Some (par_of R c))"
      using aR h1(1) h2(1)
      by (subst RestructureRecursive.simps, simp, subst RestructureRecursive.simps, simp)
    then show ?thesis using h2 t same_data_trans[OF h1(2)] by auto
  qed
  show ?thesis
  proof (rule restr_shape[of l a r])
    fix x y assume t: "restr (Node l a r) = Node x a y"
    from wf_parent[OF h1(3)[unfolded t]] obtain n where
      "h1 a = Some n" "tr_parent n = Some (par_of R c)" by blast
    then have "RestructureRecursive R h (Some a) = RestructureRecursive R h1 (Some (par_of R c))"
      using aR h1(1) by (subst RestructureRecursive.simps) simp
    then show ?thesis using h1 by auto
  next
    fix x b y z assume t: "restr (Node l a r) = Node (Node x a y) b z"
    have "wf_tab R h1 (plug (Node x a y) (StepL b z # c))" using h1(3) t by simp
    from wf_parent[OF this] show ?thesis using again[OF t] by simp
  next
    fix x b y z assume t: "restr (Node l a r) = Node z b (Node x a y)"
    have "wf_tab R h1 (plug (Node x a y) (StepR z b # c))" using h1(3) t by simp
    from wf_parent[OF this] show ?thesis using again[OF t] by simp
  qed
qed

lemma RestructureRecursive_root [simp]: "RestructureRecursive R h (Some R) = Some h"
  by (simp add: RestructureRecursive.simps)

theorem RestructureRecursive_up:
  assumes "wf_tab R h (plug (Node l a r) c)" "settles (Node l a r) c"
  shows "\<exists>h'. RestructureRecursive R h (Some a) = Some h' \<and> same_data h h' \<and>
    wf_tab R h' (up (Node l a r) c)"
  using assms
proof (induction c arbitrary: h l a r)
  case Nil
  then show ?case
    using RestructureRecursive_step[of R h l a r "[]"] by auto
next
  case (Cons s c)
  from RestructureRecursive_step[OF Cons.prems(1) settles_top[OF Cons.prems(2)]] obtain h1 where
    h1: "RestructureRecursive R h (Some a) = RestructureRecursive R h1 (Some (addr s))"
    "same_data h h1" "wf_tab R h1 (plug (fill s (restr (Node l a r))) c)"
    by auto
  obtain l' r' where t: "fill s (restr (Node l a r)) = Node l' (addr s) r'" by (cases s) auto
  have "settles (Node l' (addr s) r') c" using Cons.prems(2) unfolding t[symmetric] by simp
  from Cons.IH[OF h1(3)[unfolded t] this] h1(1) show ?case
    using same_data_trans[OF h1(2)] by (simp only: up.simps t) auto
qed

text \<open>Started at the root row, as after removing the only row, there is nothing to restructure.\<close>

lemma RestructureRecursive_par:
  assumes "wf_tab R h (plug t c)" "restr t = t" "settles t c"
  shows "\<exists>h'. RestructureRecursive R h (Some (par_of R c)) = Some h' \<and> same_data h h' \<and>
    wf_tab R h' (up t c)"
proof (cases c)
  case Nil
  then show ?thesis using assms by auto
next
  case (Cons s c')
  obtain l' r' where t: "fill s t = Node l' (addr s) r'" by (cases s) auto
  show ?thesis
    using RestructureRecursive_up[of R h l' "addr s" r' c'] assms Cons t by simp
qed

end
