(* ===== verification/Key_Insert.thy ===== *)
theory Key_Insert
  imports Key_Balance
begin

text \<open>
  Adding a row to the key table of \<^verbatim>\<open>common/ECKeyTable.cpp\<close>: the search for its parent, linking
  it in, and the recount and rebalancing that follow, on a store that represents a tree.
\<close>

subsection \<open>The search\<close>

definition cols_of :: "heap \<Rightarrow> nat \<Rightarrow> sortcol list" where
  "cols_of h a = (case h a of None \<Rightarrow> [] | Some n \<Rightarrow> tr_cols n)"

definition key_of :: "heap \<Rightarrow> nat \<Rightarrow> okey" where
  "key_of h a = (case h a of None \<Rightarrow> zero_key | Some n \<Rightarrow> tr_key n)"

text \<open>The path from the place that \<open>c\<close> leads to down to a free place, going left where \<open>P\<close> holds.\<close>

fun descend :: "(nat \<Rightarrow> bool) \<Rightarrow> nat tree \<Rightarrow> path \<Rightarrow> path" where
  "descend P Leaf c = c"
| "descend P (Node l a r) c =
     (if P a then descend P l (StepL a r # c) else descend P r (StepR l a # c))"

lemma plug_descend [simp]: "plug Leaf (descend P t c) = plug t c"
  by (induction P t c rule: descend.induct) simp_all

lemma stop_at:
  "P a \<Longrightarrow> takeWhile (\<lambda>x. \<not> P x) (xs @ a # ys) = takeWhile (\<lambda>x. \<not> P x) xs"
  "P a \<Longrightarrow> dropWhile (\<lambda>x. \<not> P x) (xs @ a # ys) = dropWhile (\<lambda>x. \<not> P x) xs @ a # ys"
  by (induction xs) (auto split: if_splits)

lemma descend_rows:
  "sorted_wrt (\<lambda>x y. P x \<longrightarrow> P y) (inorder t) \<Longrightarrow>
    rows_before (descend P t c) = rows_before c @ takeWhile (\<lambda>x. \<not> P x) (inorder t) \<and>
    rows_after (descend P t c) = dropWhile (\<lambda>x. \<not> P x) (inorder t) @ rows_after c"
proof (induction P t c rule: descend.induct)
  case (2 P l a r c)
  note A = 2(3)[unfolded inorder.simps sorted_wrt_append sorted_wrt.simps append_Cons append_Nil]
  have s: "sorted_wrt (\<lambda>x y. P x \<longrightarrow> P y) (inorder l)" "sorted_wrt (\<lambda>x y. P x \<longrightarrow> P y) (inorder r)"
    by (rule A[THEN conjunct1], rule A[THEN conjunct2, THEN conjunct1, THEN conjunct2])
  have lr: "\<forall>x \<in> set (inorder l). P x \<longrightarrow> P a"
    using A[THEN conjunct2, THEN conjunct2] by (meson list.set_intros(1))
  show ?case
  proof (cases "P a")
    case True
    then show ?thesis using 2(1)[OF True s(1)] by (simp add: stop_at)
  next
    case False
    then have "\<And>x. x \<in> set (inorder l) \<Longrightarrow> \<not> P x" using lr by blast
    then have "takeWhile (\<lambda>x. \<not> P x) (inorder l @ zs) = inorder l @ takeWhile (\<lambda>x. \<not> P x) zs"
      "dropWhile (\<lambda>x. \<not> P x) (inorder l @ zs) = dropWhile (\<lambda>x. \<not> P x) zs" for zs
      by (auto intro!: takeWhile_append2 dropWhile_append2)
    then show ?thesis using 2(2)[OF False s(2)] False by simp
  qed
qed simp

text \<open>\<open>find_parent\<close> from the top of a subtree that is not empty, and from the root row.\<close>

lemma find_parent_rep:
  assumes "rep h (par_of R c) (side_of c) t" "ptr t = Some p" "\<not> tr_fRoot new"
    and "\<And>x. x \<in> set (inorder t) \<Longrightarrow> P x = rowcompare (tr_cols new) (cols_of h x)"
  shows "find_parent h new p = Some (par_of R (descend P t c), side_of (descend P t c))"
  using assms
proof (induction P t c arbitrary: p rule: descend.induct)
  case (2 P l a r c)
  from 2(3) obtain n where
    n: "h a = Some n" "\<not> tr_fRoot n" "tr_left n = ptr l" "tr_right n = ptr r"
    "rep h a True l" "rep h a False r" by auto
  have p: "p = a" using 2(4) by simp
  have P: "rowcompare_rows new n = P a"
    using 2(5) n(1,2) 2(6)[of a] by (simp add: rowcompare_rows_def cols_of_def)
  have run: "find_parent h new p =
    (if P a then (case ptr l of None \<Rightarrow> Some (a, True) | Some x \<Rightarrow> find_parent h new x)
     else (case ptr r of None \<Rightarrow> Some (a, False) | Some x \<Rightarrow> find_parent h new x))"
    unfolding p using n P by (subst find_parent.simps) simp
  show ?case
  proof (cases "P a")
    case True
    show ?thesis
    proof (cases l)
      case (Node ll x lr)
      have "find_parent h new x = Some (par_of R (descend P l (StepL a r # c)), side_of (descend P l (StepL a r # c)))"
        by (rule 2(1)[OF True _ _ 2(5) 2(6)]) (use n(5) Node in auto)
      then show ?thesis using run True Node by simp
    qed (use run True in simp)
  next
    case False
    show ?thesis
    proof (cases r)
      case (Node rl x rr)
      have "find_parent h new x = Some (par_of R (descend P r (StepR l a # c)), side_of (descend P r (StepR l a # c)))"
        by (rule 2(2)[OF False _ _ 2(5) 2(6)]) (use n(6) Node in auto)
      then show ?thesis using run False Node by simp
    qed (use run False in simp)
  qed
qed simp

lemma find_parent_root:
  assumes "repc R h (ptr t) []" "rep h R False t" "\<not> tr_fRoot new"
    and "\<And>x. x \<in> set (inorder t) \<Longrightarrow> P x = rowcompare (tr_cols new) (cols_of h x)"
  shows "find_parent h new R = Some (par_of R (descend P t []), side_of (descend P t []))"
proof (cases t)
  case Leaf
  then show ?thesis using assms by (subst find_parent.simps) (auto simp: rowcompare_rows_def)
next
  case (Node l a r)
  from find_parent_rep[of h R "[]" t a new P] assms Node
  have "find_parent h new a = Some (par_of R (descend P t []), side_of (descend P t []))" by simp
  then show ?thesis using assms Node by (subst find_parent.simps) (auto simp: rowcompare_rows_def)
qed

subsection \<open>The neighbours of a place\<close>

text \<open>Going up from a row at the end of a path, to the left and to the right.\<close>

lemma up_while_True:
  assumes "repc R h (Some a) c" "h a = Some n" "tr_parent n = Some (par_of R c)" "tr_fLeft n = side_of c"
  shows "\<exists>b m. up_while True h (Some a) = Some (Some b) \<and> h b = Some m \<and>
    tr_parent m = Some (last (R # rows_before c))"
  using assms
proof (induction c arbitrary: a n)
  case Nil
  then show ?case by (subst up_while.simps) simp
next
  case (Cons s c)
  show ?case
  proof (cases s)
    case (StepL x r)
    then obtain m where "h x = Some m" "tr_parent m = Some (par_of R c)" "tr_fLeft m = side_of c"
      "repc R h (Some x) c" using Cons.prems(1) by auto
    from Cons.IH[OF this(4,1-3)] have "\<exists>b m. up_while True h (Some x) = Some (Some b) \<and> h b = Some m \<and>
      tr_parent m = Some (last (R # rows_before (s # c)))" using StepL by simp
    then show ?thesis using Cons.prems StepL by (subst up_while.simps) simp
  next
    case (StepR l x)
    then show ?thesis using Cons.prems by (subst up_while.simps) simp
  qed
qed

lemma up_while_False:
  assumes "repc R h (Some a) c" "h a = Some n" "tr_parent n = Some (par_of R c)" "tr_fLeft n = side_of c"
  shows "if rows_after c = [] then up_while False h (Some a) = Some None
    else \<exists>b m. up_while False h (Some a) = Some (Some b) \<and> h b = Some m \<and>
      tr_parent m = Some (hd (rows_after c))"
  using assms
proof (induction c arbitrary: a n)
  case Nil
  then show ?case by (subst up_while.simps, simp, subst up_while.simps, simp, subst up_while.simps, auto)
next
  case (Cons s c)
  show ?case
  proof (cases s)
    case (StepR l x)
    then obtain m where "h x = Some m" "tr_parent m = Some (par_of R c)" "tr_fLeft m = side_of c"
      "repc R h (Some x) c" using Cons.prems(1) by auto
    note IH = Cons.IH[OF this(4,1-3)]
    have "up_while False h (Some a) = up_while False h (Some x)"
      using Cons.prems StepR by (subst up_while.simps) simp
    then show ?thesis using IH StepR by (auto split: if_splits)
  next
    case (StepL x r)
    then show ?thesis using Cons.prems by (subst up_while.simps) simp
  qed
qed

lemma key_of_Some [simp]: "h a = Some n \<Longrightarrow> key_of h a = tr_key n"
  by (simp add: key_of_def)

lemma repc_last:
  "repc R h p c \<Longrightarrow> \<exists>n. h (last (R # rows_before c)) = Some n"
proof (induction c arbitrary: p)
  case (Cons s c)
  then show ?case by (cases s) auto
qed auto

lemma prev_of_left_rep:
  assumes "repc R h (Some a) c" "h a = Some n" "tr_parent n = Some (par_of R c)" "tr_fLeft n = side_of c"
  shows "prev_of_left h a = Some (key_of h (last (R # rows_before c)))"
proof -
  from up_while_True[OF assms] obtain b m where
    "up_while True h (Some a) = Some (Some b)" "h b = Some m" "tr_parent m = Some (last (R # rows_before c))"
    by blast
  then show ?thesis using repc_last[OF assms(1)] by (auto simp: prev_of_left_def)
qed

text \<open>The id that \<open>UpdateRow\<close> reports as the row before a new row at a free place.\<close>

lemma prev_of_place:
  assumes "repc R h None c" "h (par_of R c) = Some P"
  shows "(if side_of c then prev_of_left h (par_of R c) else Some (tr_key P)) =
    Some (key_of h (last (R # rows_before c)))"
proof (cases c)
  case Nil
  then show ?thesis using assms by simp
next
  case (Cons s c')
  show ?thesis
  proof (cases s)
    case (StepL x r)
    then show ?thesis using assms Cons prev_of_left_rep[of R h x c'] by auto
  next
    case (StepR l x)
    then show ?thesis using assms Cons by simp
  qed
qed

text \<open>The rows at the ends of a leg.\<close>

lemma rightmost_rep:
  "rep h par fl (Node l a r) \<Longrightarrow> rightmost h a = Some (last (inorder (Node l a r)))"
proof (induction r arbitrary: par fl l a)
  case Leaf
  then show ?case by (subst rightmost.simps) auto
next
  case (Node rl b rr)
  then have "rep h a False (Node rl b rr)" by simp
  then have "rightmost h b = Some (last (inorder (Node rl b rr)))" by (rule Node.IH(2))
  then show ?case using Node.prems by (subst rightmost.simps) auto
qed

lemma leftmost_rep:
  "rep h par fl (Node l a r) \<Longrightarrow> leftmost h a = Some (hd (inorder (Node l a r)))"
proof (induction l arbitrary: par fl a r)
  case Leaf
  then show ?case by (subst leftmost.simps) auto
next
  case (Node ll b lr)
  then have "rep h a True (Node ll b lr)" by simp
  then have "leftmost h b = Some (hd (inorder (Node ll b lr)))" by (rule Node.IH(1))
  then show ?case using Node.prems by (subst leftmost.simps) (auto simp: hd_append)
qed

text \<open>\<open>prev_of_row\<close>, \<open>Next\<close> and \<open>Prev\<close> on a row of the tree.\<close>

lemma focus_row:
  assumes "focus R h (Node l a r) c"
  obtains n where "h a = Some n" "tr_left n = ptr l" "tr_right n = ptr r" "\<not> tr_fRoot n"
    "tr_parent n = Some (par_of R c)" "tr_fLeft n = side_of c" "repc R h (Some a) c"
    "rep h a True l" "rep h a False r"
  using assms by (auto simp: focus_def)

lemma rep_in: "rep h par fl t \<Longrightarrow> x \<in> set_tree t \<Longrightarrow> \<exists>n. h x = Some n \<and> \<not> tr_fRoot n"
  by (induction t arbitrary: par fl) auto

lemma inorder_ends:
  "t \<noteq> Leaf \<Longrightarrow> last (inorder t) \<in> set_tree t" "t \<noteq> Leaf \<Longrightarrow> hd (inorder t) \<in> set_tree t"
  by (metis eq_inorder_Nil last_in_set set_inorder, metis eq_inorder_Nil hd_in_set set_inorder)

lemma prev_of_row_focus:
  assumes "focus R h (Node l a r) c"
  shows "prev_of_row h a = Some (key_of h (last (R # rows_before c @ inorder l)))"
proof (cases l)
  case Leaf
  from focus_row[OF assms] obtain n where n: "h a = Some n" "tr_left n = None"
    "tr_parent n = Some (par_of R c)" "tr_fLeft n = side_of c" "repc R h (Some a) c" using Leaf by simp metis
  from prev_of_left_rep[OF n(5,1,3,4)] show ?thesis using n(1,2) Leaf by (simp add: prev_of_row_def)
next
  case (Node ll b lr)
  from focus_row[OF assms] obtain n where n: "h a = Some n" "tr_left n = Some b" "rep h a True l"
    using Node by simp metis
  obtain m where "h (last (inorder l)) = Some m"
    using rep_in[OF n(3) inorder_ends(1)] Node by auto
  moreover have "rightmost h b = Some (last (inorder l))"
    using rightmost_rep[of h a True ll b lr] n(3) Node by simp
  moreover have "last (R # rows_before c @ inorder l) = last (inorder l)" using Node by simp
  ultimately show ?thesis using n(1,2) by (simp add: prev_of_row_def)
qed


lemma Next_focus:
  assumes "focus R h (Node l a r) c"
  shows "Next h (Some a) = Some (case inorder r @ rows_after c of [] \<Rightarrow> None | b # _ \<Rightarrow> Some b)"
proof (cases r)
  case Leaf
  from focus_row[OF assms] obtain n where n: "h a = Some n" "tr_right n = None"
    "tr_parent n = Some (par_of R c)" "tr_fLeft n = side_of c" "repc R h (Some a) c" using Leaf by simp metis
  from up_while_False[OF n(5,1,3,4)] show ?thesis using n(1,2) Leaf
    by (cases "rows_after c") (auto simp: Next_def)
next
  case (Node rl b rr)
  from focus_row[OF assms] obtain n where n: "h a = Some n" "tr_right n = Some b" "rep h a False r"
    using Node by simp metis
  moreover have "leftmost h b = Some (hd (inorder r))"
    using leftmost_rep[of h a False rl b rr] n(3) Node by simp
  moreover have "(case inorder r @ rows_after c of [] \<Rightarrow> None | x # _ \<Rightarrow> Some x) = Some (hd (inorder r))"
    using Node by (cases "inorder r") simp_all
  ultimately show ?thesis by (simp add: Next_def)
qed

lemma Prev_row_focus:
  assumes "focus R h (Node l a r) c"
  shows "Prev_row h a = Some (Some (last (R # rows_before c @ inorder l)))"
proof (cases l)
  case Leaf
  from focus_row[OF assms] obtain n where n: "h a = Some n" "tr_left n = None"
    "tr_parent n = Some (par_of R c)" "tr_fLeft n = side_of c" "repc R h (Some a) c" using Leaf by simp metis
  from up_while_True[OF n(5,1,3,4)] show ?thesis using n(1,2) Leaf by (auto simp: Prev_row_def)
next
  case (Node ll b lr)
  from focus_row[OF assms] obtain n where n: "h a = Some n" "tr_left n = Some b" "rep h a True l"
    using Node by simp metis
  moreover have "rightmost h b = Some (last (inorder l))"
    using rightmost_rep[of h a True ll b lr] n(3) Node by simp
  moreover have "last (R # rows_before c @ inorder l) = last (inorder l)" using Node by simp
  ultimately show ?thesis by (simp add: Prev_row_def)
qed

subsection \<open>Linking in\<close>

definition unlinked :: "trow \<Rightarrow> bool" where
  "unlinked n \<longleftrightarrow> \<not> tr_fRoot n \<and> tr_left n = None \<and> tr_right n = None"

lemma link_focus:
  assumes w: "wf_tab R h (plug Leaf d)" and a: "h a = None" and n: "unlinked n"
    and P: "h (par_of R d) = Some P"
  defines "h1 \<equiv> h(par_of R d \<mapsto> relink d (Some a) P,
             a \<mapsto> n\<lparr>tr_parent := Some (par_of R d), tr_fLeft := side_of d\<rparr>)"
  shows "focus R h1 (Node Leaf a Leaf) d" "same_data (h(a \<mapsto> n)) h1"
proof -
  from wf_focus[OF w] have f: "focus R h Leaf d" by simp
  note dist = focus_distinct[OF f]
  have aR: "a \<noteq> R" using w a by (auto simp: wf_tab_def)
  have ad: "a \<notin> set (path_rows d)"
  proof
    assume "a \<in> set (path_rows d)"
    then have "a \<in> set_tree (plug Leaf d)" using set_plug[of Leaf d] by simp
    then show False using rep_in[of h R False "plug Leaf d" a] w a by (auto simp: wf_tab_def)
  qed
  have ap: "a \<noteq> par_of R d" using aR ad par_of_in[of R d] by metis
  have r: "repc R (h(par_of R d \<mapsto> relink d (Some a) P)) (Some a) d"
    using f dist P by (intro repc_relink[where p = None]) (auto simp: focus_def)
  have si: "same_info h (h(par_of R d \<mapsto> relink d (Some a) P))"
    using P by (rule same_info_upd) simp
  have "cachedc h1 d"
    unfolding h1_def using f ad by (simp add: same_info_cachedc[OF si] focus_def)
  moreover have "repc R h1 (Some a) d" unfolding h1_def using r aR ad by simp
  moreover have "distinct (R # inorder (plug (Node Leaf a Leaf) d))"
    using f dist aR ad by (auto simp: focus_def distinct_plug set_plug simp flip: set_inorder)
  ultimately show "focus R h1 (Node Leaf a Leaf) d"
    using n ap by (simp add: focus_def unlinked_def h1_def)
  show "same_data (h(a \<mapsto> n)) h1" using P ap by (simp add: same_data_def h1_def payload_def)
qed

theorem insert_at_place:
  assumes w: "wf_tab R h (plug Leaf d)" and av: "avl (plug Leaf d)" and a: "h a = None"
    and n: "unlinked n" and P: "h (par_of R d) = Some P"
  shows "\<exists>h'. do { h \<leftarrow> set_child h (par_of R d) (side_of d) (Some a);
      let h = h(a \<mapsto> n\<lparr>tr_parent := Some (par_of R d), tr_fLeft := side_of d\<rparr>);
      h \<leftarrow> UpdateCounts R h (Some a);
      RestructureRecursive R h (Some a) } = Some h' \<and>
    same_data (h(a \<mapsto> n)) h' \<and> wf_tab R h' (up (Node Leaf a Leaf) d) \<and> avl (up (Node Leaf a Leaf) d)"
proof -
  note l = link_focus[OF w a n P]
  define h1 where "h1 = h(par_of R d \<mapsto> relink d (Some a) P,
             a \<mapsto> n\<lparr>tr_parent := Some (par_of R d), tr_fLeft := side_of d\<rparr>)"
  have near: "near (height (Node Leaf a Leaf)) (height (Leaf :: nat tree))" by (simp add: near_def)
  have av1: "avl (Node Leaf a Leaf)" by simp
  from UpdateCounts_focus[OF l(1)] obtain h2 where
    h2: "UpdateCounts R h1 (Some a) = Some h2" "same_shape h1 h2" "wf_tab R h2 (plug (Node Leaf a Leaf) d)"
    unfolding h1_def by auto
  from RestructureRecursive_up[OF h2(3) settles_avl[OF av av1 near]] obtain h3 where
    h3: "RestructureRecursive R h2 (Some a) = Some h3" "same_data h2 h3" "wf_tab R h3 (up (Node Leaf a Leaf) d)"
    by blast
  have "same_data (h(a \<mapsto> n)) h3"
    using l(2) same_shape_data[OF h2(2)] h3(2) same_data_trans unfolding h1_def by blast
  then show ?thesis using h2(1) h3 avl_up[OF av av1 near] P
    by (simp add: set_child_relink h1_def)
qed

end
