(* ===== verification/Key_Walk.thy ===== *)
theory Key_Walk
  imports Key_Insert
begin

text \<open>
  Row numbers of the key table of \<^verbatim>\<open>common/ECKeyTable.cpp\<close>: \<open>CurrentRow\<close> counts the visible rows
  before a row, \<open>SeekRow\<close> finds a row with a given number of visible rows before it.
\<close>

subsection \<open>From a row to its number\<close>

lemma ptr_None [simp]: "ptr t = None \<longleftrightarrow> t = Leaf"
  by (cases t) simp_all

lemma rep_row:
  assumes "rep h par fl (Node l a r)" "cached h (Node l a r)"
  obtains n where "h a = Some n" "tr_parent n = Some par" "tr_fLeft n = fl" "tr_left n = ptr l"
    "tr_right n = ptr r" "tr_count n = vis h (inorder l @ a # inorder r)" "cached h l" "cached h r"
    "rep h a True l" "rep h a False r"
  using assms by auto

lemma CurrentRow_loop_rep:
  assumes "focus R h (Node l a r) c" "cached h (plug (Node l a r) c)"
  shows "CurrentRow_loop R h a x = Some (x + int (vis h (rows_before c)))"
  using assms
proof (induction c arbitrary: l a r x)
  case Nil
  then obtain n where "h a = Some n" "tr_parent n = Some R" by (auto simp: focus_def)
  then show ?case by (subst CurrentRow_loop.simps) simp
next
  case (Cons s c)
  have R: "addr s \<noteq> R" using focus_distinct[OF Cons.prems(1)] by auto
  have ca: "cached h (fill s (Node l a r))" "cached h (Node l a r)"
    using cached_focus[of h "fill s (Node l a r)" c] cached_focus[OF Cons.prems(2)] Cons.prems(2)
    by (simp_all only: plug.simps)
  have f: "focus R h (fill s (Node l a r)) c" using focus_fill[OF Cons.prems(1) ca(2)] .
  obtain n where n: "h a = Some n" "tr_parent n = Some (addr s)" "tr_fLeft n = side s"
    "tr_count n = vis h (inorder l @ a # inorder r)"
    using Cons.prems(1) ca(2) by (auto simp: focus_def)
  obtain l' r' where lr: "fill s (Node l a r) = Node l' (addr s) r'" by (cases s) auto
  obtain P where P: "h (addr s) = Some P" "tr_count P = vis h (inorder (fill s (Node l a r)))"
    using ca(1) unfolding lr by auto
  note IH = Cons.IH[OF f[unfolded lr]]
  have "CurrentRow_loop R h a x = CurrentRow_loop R h (addr s)
      (if \<not> side s then x + (int (tr_count P) - int (tr_count n)) else x)"
    using n P(1) R by (subst CurrentRow_loop.simps) simp
  also have "\<dots> = Some ((if \<not> side s then x + (int (tr_count P) - int (tr_count n)) else x)
      + int (vis h (rows_before c)))"
    by (rule IH) (use Cons.prems(2) lr in simp)
  also have "\<dots> = Some (x + int (vis h (rows_before (s # c))))"
    using n(4) P(2) by (cases s) simp_all
  finally show ?case .
qed

lemma CurrentRow_focus:
  assumes w: "wf_tab R h (plug (Node l a r) c)" "kt_root t = R" "kt_heap t = h"
  shows "CurrentRow t (Some a) = Some (to_uint32 (int (vis h (rows_before c @ inorder l))))"
proof -
  from wf_focus[OF w(1)] have f: "focus R h (Node l a r) c" and ch: "cached h (Node l a r)" by auto
  have "a \<noteq> R" using focus_distinct[OF f] by auto
  moreover obtain n where "h a = Some n" "tr_left n = ptr l" "cached h l"
    using f ch by (auto simp: focus_def)
  moreover have "CurrentRow_loop R h a (int (vis h (inorder l))) =
      Some (int (vis h (inorder l)) + int (vis h (rows_before c)))"
    by (rule CurrentRow_loop_rep[OF f]) (use w(1) in \<open>simp add: wf_tab_def\<close>)
  ultimately show ?thesis using w(2,3) by (simp add: CurrentRow_def add.commute)
qed

text \<open>The same for any row of the tree, given by its place in the sequence of rows.\<close>

lemma split_unique:
  "a \<notin> set xs \<Longrightarrow> a \<notin> set xs' \<Longrightarrow> xs @ a # ys = xs' @ a # ys' \<Longrightarrow> xs = xs' \<and> ys = ys'"
proof (induction xs arbitrary: xs')
  case Nil
  then show ?case by (cases xs') auto
next
  case (Cons x xs)
  then show ?case by (cases xs') auto
qed

lemma plug_split:
  assumes "inorder t = xs @ a # ys" "distinct (inorder t)"
  obtains l r c where "t = plug (Node l a r) c" "xs = rows_before c @ inorder l" "ys = inorder r @ rows_after c"
proof -
  have "a \<in> set (inorder t)" using assms(1) by simp
  then obtain l r c where t: "t = plug (Node l a r) c" by (rule plug_decompose)
  then have "(rows_before c @ inorder l) @ a # inorder r @ rows_after c = xs @ a # ys"
    using assms(1) by (simp add: inorder_plug)
  moreover have "a \<notin> set (rows_before c @ inorder l)"
    using assms(2)[unfolded t inorder_plug] by simp
  moreover have "a \<notin> set xs" using assms(2)[unfolded assms(1)] by simp
  ultimately have "rows_before c @ inorder l = xs \<and> inorder r @ rows_after c = ys"
    by (metis split_unique)
  then show ?thesis using that t by metis
qed

lemma CurrentRow_row:
  assumes "wf_tab R h T" "kt_root t = R" "kt_heap t = h" "inorder T = xs @ a # ys"
  shows "CurrentRow t (Some a) = Some (to_uint32 (int (vis h xs)))"
proof -
  have "distinct (inorder T)" using assms(1) by (simp add: wf_tab_def)
  from plug_split[OF assms(4) this] obtain l r c where
    "T = plug (Node l a r) c" "xs = rows_before c @ inorder l" by metis
  then show ?thesis using CurrentRow_focus assms(1-3) by metis
qed

subsection \<open>From a number to a row\<close>

text \<open>
  The search never goes wrong: it ends at a row with the wanted number of visible rows before it,
  or past the end where there are not more visible rows than that.
\<close>

lemma SeekRow_loop_rep:
  assumes "rep h par fl t" "cached h t" "ptr t = Some p"
  shows "\<exists>res. SeekRow_loop h p d = Some res \<and>
    (case res of Some x \<Rightarrow> \<exists>xs ys. inorder t = xs @ x # ys \<and> vis h xs = d
     | None \<Rightarrow> vis h (inorder t) \<le> d)"
  using assms
proof (induction t arbitrary: par fl p d)
  case (Node l a r)
  from rep_row[OF Node.prems(1,2)] obtain n where
    n: "h a = Some n" "tr_left n = ptr l" "tr_right n = ptr r"
    and ch: "cached h l" "cached h r" and rp: "rep h a True l" "rep h a False r" by metis
  have v: "visible h a \<longleftrightarrow> \<not> tr_fHidden n" using n(1) by (simp add: visible_def)
  let ?own = "if tr_fHidden n then 0 else 1 :: nat"
  have run: "SeekRow_loop h p d =
    (if (l = Leaf \<and> d = 0) \<or> (l \<noteq> Leaf \<and> vis h (inorder l) = d) then Some (Some a)
     else (case ptr l of
        None \<Rightarrow> (case ptr r of None \<Rightarrow> Some None | Some q \<Rightarrow> SeekRow_loop h q (d - ?own))
      | Some q' \<Rightarrow> (case ptr r of None \<Rightarrow> SeekRow_loop h q' d
          | Some q \<Rightarrow> if vis h (inorder l) < d then SeekRow_loop h q (d - (vis h (inorder l) + ?own))
                     else SeekRow_loop h q' d)))"
    using Node.prems(3) n child_count_cached[OF ch(1)] by (subst SeekRow_loop.simps) (cases "ptr l"; cases "ptr r"; auto)
  have right: ?case if "SeekRow_loop h p d = SeekRow_loop h q (d - (vis h (inorder l) + ?own))"
    "ptr r = Some q" "vis h (inorder l) < d" for q
  proof -
    from Node.IH(2)[OF rp(2) ch(2) that(2)] obtain res where
      res: "SeekRow_loop h q (d - (vis h (inorder l) + ?own)) = Some res"
      "case res of Some x \<Rightarrow> \<exists>xs ys. inorder r = xs @ x # ys \<and> vis h xs = d - (vis h (inorder l) + ?own)
       | None \<Rightarrow> vis h (inorder r) \<le> d - (vis h (inorder l) + ?own)" by blast
    show ?thesis
    proof (cases res)
      case None
      then show ?thesis using res that(1,3) v by auto
    next
      case (Some x)
      then obtain xs ys where x: "inorder r = xs @ x # ys" "vis h xs = d - (vis h (inorder l) + ?own)"
        using res(2) by auto
      then have "inorder (Node l a r) = (inorder l @ a # xs) @ x # ys"
        "vis h (inorder l @ a # xs) = d" using that(3) v by auto
      then have "\<exists>xs ys. inorder (Node l a r) = xs @ x # ys \<and> vis h xs = d" by blast
      then show ?thesis using Some res(1) that(1) by (simp del: inorder.simps)
    qed
  qed
  have left: ?case if "SeekRow_loop h p d = SeekRow_loop h q d" "ptr l = Some q"
    "d < vis h (inorder l) \<or> (r = Leaf \<and> vis h (inorder l) \<noteq> d)" for q
  proof -
    from Node.IH(1)[OF rp(1) ch(1) that(2)] obtain res where
      res: "SeekRow_loop h q d = Some res"
      "case res of Some x \<Rightarrow> \<exists>xs ys. inorder l = xs @ x # ys \<and> vis h xs = d
       | None \<Rightarrow> vis h (inorder l) \<le> d" by blast
    show ?thesis
    proof (cases res)
      case None
      then show ?thesis using res that v by auto
    next
      case (Some x)
      then obtain xs ys where "inorder l = xs @ x # ys" "vis h xs = d" using res(2) by auto
      then have "inorder (Node l a r) = xs @ x # (ys @ a # inorder r)" by simp
      then have "\<exists>xs ys. inorder (Node l a r) = xs @ x # ys \<and> vis h xs = d"
        using \<open>vis h xs = d\<close> by blast
      then show ?thesis using Some res(1) that(1) by (simp del: inorder.simps)
    qed
  qed
  have here: ?case if "SeekRow_loop h p d = Some (Some a)" "vis h (inorder l) = d"
    using that by (intro exI[of _ "Some a"]) auto
  have past: ?case if "SeekRow_loop h p d = Some None" "l = Leaf" "r = Leaf" "0 < d"
    using that by (intro exI[of _ None]) auto
  show ?case
  proof (cases "(l = Leaf \<and> d = 0) \<or> (l \<noteq> Leaf \<and> vis h (inorder l) = d)")
    case True
    then show ?thesis using run here by auto
  next
    case no: False
    show ?thesis
    proof (cases l)
      case Leaf
      then have d: "0 < d" using no by auto
      show ?thesis
      proof (cases r)
        case Leaf
        then show ?thesis using \<open>l = Leaf\<close> run d past by simp
      next
        case (Node rl q rr)
        then show ?thesis using \<open>l = Leaf\<close> run d right[of q] by simp
      qed
    next
      case (Node ll q' lr)
      then have d: "vis h (inorder l) \<noteq> d" and l': "ptr l = Some q'" "l \<noteq> Leaf" using no by auto
      show ?thesis
      proof (cases r)
        case Leaf
        then show ?thesis using run d l' left[of q'] by simp
      next
        case (Node rl q rr)
        then show ?thesis using run d l' left[of q'] right[of q] by (cases "vis h (inorder l) < d") simp_all
      qed
    qed
  qed
qed simp

end
