(* ===== verification/Key_Frame.thy ===== *)
theory Key_Frame
  imports Key_Walk
begin

text \<open>
  What the tree operations of \<^verbatim>\<open>common/ECKeyTable.cpp\<close> leave alone: every operation that starts in a
  set of rows that link to each other only changes no other row, so a row that has been
  unlinked keeps its links.
\<close>

subsection \<open>What the operations leave alone\<close>

text \<open>
  A set of rows is closed when its rows link to each other only. Every operation that is started
  on a row of a closed set changes no other row and keeps the set closed.
\<close>

definition inside :: "nat set \<Rightarrow> nat option \<Rightarrow> bool" where
  "inside V p \<longleftrightarrow> (\<forall>a. p = Some a \<longrightarrow> a \<in> V)"

definition closed :: "nat set \<Rightarrow> heap \<Rightarrow> bool" where
  "closed V h \<longleftrightarrow> (\<forall>a \<in> V. \<forall>n. h a = Some n \<longrightarrow>
     inside V (tr_parent n) \<and> inside V (tr_left n) \<and> inside V (tr_right n))"

definition only :: "nat set \<Rightarrow> heap \<Rightarrow> heap \<Rightarrow> bool" where
  "only V h h' \<longleftrightarrow> closed V h' \<and> (\<forall>b. b \<notin> V \<longrightarrow> h' b = h b)"

lemma inside_simps [simp]: "inside V None" "inside V (Some a) \<longleftrightarrow> a \<in> V"
  by (auto simp: inside_def)

lemma only_refl: "closed V h \<Longrightarrow> only V h h"
  by (simp add: only_def)

lemma only_trans: "only V h h' \<Longrightarrow> only V h' h'' \<Longrightarrow> only V h h''"
  by (simp add: only_def)

lemma only_closed: "only V h h' \<Longrightarrow> closed V h'"
  by (simp add: only_def)

lemma closedD:
  "closed V h \<Longrightarrow> a \<in> V \<Longrightarrow> h a = Some n \<Longrightarrow>
     inside V (tr_parent n) \<and> inside V (tr_left n) \<and> inside V (tr_right n)"
  by (auto simp: closed_def)

lemma only_upd:
  assumes "closed V h" "a \<in> V" "inside V (tr_parent n)" "inside V (tr_left n)" "inside V (tr_right n)"
  shows "only V h (h(a \<mapsto> n))"
  using assms by (auto simp: only_def closed_def)

lemma UpdateCounts_only:
  assumes "UpdateCounts R h p = Some h'" "closed V h" "inside V p"
  shows "only V h h'"
proof -
  let ?P = "\<lambda>(R :: nat) h p h'. closed V h \<longrightarrow> inside V p \<longrightarrow> only V h h'"
  have "?P R h p h'"
    using assms(1)
  proof (rule UpdateCounts.raw_induct[where P = ?P, rotated], intro impI)
    fix UC root h p h'
    assume IH: "\<And>root h p h'. UC root h p = Some h' \<Longrightarrow> ?P root h p h'" and c: "closed V h" "inside V p"
      and run: "(case p of None \<Rightarrow> Some h
      | Some a \<Rightarrow> do {
          n \<leftarrow> h a;
          lc \<leftarrow> child_count h (tr_left n);
          rc \<leftarrow> child_count h (tr_right n);
          lh \<leftarrow> child_height h (tr_left n);
          rh \<leftarrow> child_height h (tr_right n);
          let own = (if a = root \<or> tr_fHidden n then 0 else 1);
          let base = (if a = root then 0 else 1);
          UC root
            (h(a \<mapsto> n\<lparr>tr_count := own + lc + rc, tr_height := base + max lh rh\<rparr>))
            (tr_parent n)
        }) = Some h'"
    show "only V h h'"
    proof (cases p)
      case None
      then show ?thesis using run c by (simp add: only_refl)
    next
      case (Some a)
      then obtain n k1 k2 where n: "h a = Some n"
        and rec: "UC root (h(a \<mapsto> n\<lparr>tr_count := k1, tr_height := k2\<rparr>)) (tr_parent n) = Some h'"
        using run by (auto simp: Let_def bind_eq_Some_conv)
      have a: "a \<in> V" using c(2) Some by simp
      note i = closedD[OF c(1) a n]
      have o: "only V h (h(a \<mapsto> n\<lparr>tr_count := k1, tr_height := k2\<rparr>))"
        using c(1) a i by (intro only_upd) simp_all
      show ?thesis using IH[OF rec] only_closed[OF o] i only_trans[OF o] by blast
    qed
  qed
  then show ?thesis using assms by blast
qed

lemma upd_only:
  assumes "upd h a f = Some h'" "closed V h" "a \<in> V"
    and "\<And>n. h a = Some n \<Longrightarrow> inside V (tr_parent (f n)) \<and> inside V (tr_left (f n)) \<and> inside V (tr_right (f n))"
  shows "only V h h'"
proof -
  from assms(1) obtain n where "h a = Some n" "h' = h(a \<mapsto> f n)"
    by (auto simp: upd_def split: option.splits)
  then show ?thesis using assms(2-4) only_upd by blast
qed

lemma set_child_only:
  assumes "set_child h a fl c = Some h'" "closed V h" "a \<in> V" "inside V c"
  shows "only V h h'"
  using assms(1) unfolding set_child_def
  by (rule upd_only[OF _ assms(2,3)]) (use closedD[OF assms(2,3)] assms(4) in auto)

lemma set_up_only:
  assumes "set_up h p par fl = Some h'" "closed V h" "inside V p" "inside V par"
  shows "only V h h'"
proof (cases p)
  case None
  then show ?thesis using assms by (simp add: set_up_def only_refl)
next
  case (Some a)
  then have "upd h a (\<lambda>n. n\<lparr>tr_parent := par, tr_fLeft := fl\<rparr>) = Some h'" "a \<in> V"
    using assms(1,3) by (simp_all add: set_up_def)
  then show ?thesis
    by (rule upd_only[OF _ assms(2)]) (use closedD[OF assms(2)] assms(4) \<open>a \<in> V\<close> in auto)
qed

lemma RotateL_only:
  assumes "RotateL R h p = Some h'" "closed V h" "p \<in> V"
  shows "only V h h'"
proof -
  from assms(1)[unfolded RotateL_def bind_eq_Some_conv] obtain P l h1 q h2 L h3 h4 h5 h6 h7 where
    P: "h p = Some P" "tr_left P = Some l" "tr_parent P = Some q"
    and L: "h2 l = Some L"
    and s: "upd h l (\<lambda>n. n\<lparr>tr_parent := tr_parent P, tr_fLeft := tr_fLeft P\<rparr>) = Some h1"
      "set_child h1 q (tr_fLeft P) (Some l) = Some h2"
      "upd h2 p (\<lambda>n. n\<lparr>tr_left := tr_right L\<rparr>) = Some h3"
      "set_up h3 (tr_right L) (Some p) True = Some h4"
      "upd h4 l (\<lambda>n. n\<lparr>tr_right := Some p\<rparr>) = Some h5"
      "upd h5 p (\<lambda>n. n\<lparr>tr_parent := Some l, tr_fLeft := False\<rparr>) = Some h6"
      "UpdateCounts R h6 (Some p) = Some h7" "UpdateCounts R h7 (Some l) = Some h'"
    by (elim exE conjE) (rule that; assumption)
  note p = closedD[OF assms(2,3) P(1)]
  then have l: "l \<in> V" "q \<in> V" using P by simp_all
  have 1: "only V h h1" by (rule upd_only[OF s(1) assms(2) l(1)]) (use closedD[OF assms(2) l(1)] p in auto)
  note c1 = only_closed[OF 1]
  have 2: "only V h1 h2" by (rule set_child_only[OF s(2) c1 l(2)]) (simp add: l)
  note c2 = only_closed[OF 2]
  have r: "inside V (tr_right L)" using closedD[OF c2 l(1) L] by simp
  have 3: "only V h2 h3" by (rule upd_only[OF s(3) c2 assms(3)]) (use closedD[OF c2 assms(3)] r in auto)
  note c3 = only_closed[OF 3]
  have 4: "only V h3 h4" by (rule set_up_only[OF s(4) c3 r]) (simp add: assms(3))
  note c4 = only_closed[OF 4]
  have 5: "only V h4 h5" by (rule upd_only[OF s(5) c4 l(1)]) (use closedD[OF c4 l(1)] assms(3) in auto)
  note c5 = only_closed[OF 5]
  have 6: "only V h5 h6" by (rule upd_only[OF s(6) c5 assms(3)]) (use closedD[OF c5 assms(3)] l in auto)
  note c6 = only_closed[OF 6]
  have 7: "only V h6 h7" by (rule UpdateCounts_only[OF s(7) c6]) (simp add: assms(3))
  have "only V h7 h'" by (rule UpdateCounts_only[OF s(8) only_closed[OF 7]]) (simp add: l)
  then show ?thesis using 1 2 3 4 5 6 7 by (simp add: only_def)
qed

lemma RotateR_only:
  assumes "RotateR R h p = Some h'" "closed V h" "p \<in> V"
  shows "only V h h'"
proof -
  from assms(1)[unfolded RotateR_def bind_eq_Some_conv] obtain P l h1 q h2 L h3 h4 h5 h6 h7 where
    P: "h p = Some P" "tr_right P = Some l" "tr_parent P = Some q"
    and L: "h2 l = Some L"
    and s: "upd h l (\<lambda>n. n\<lparr>tr_parent := tr_parent P, tr_fLeft := tr_fLeft P\<rparr>) = Some h1"
      "set_child h1 q (tr_fLeft P) (Some l) = Some h2"
      "upd h2 p (\<lambda>n. n\<lparr>tr_right := tr_left L\<rparr>) = Some h3"
      "set_up h3 (tr_left L) (Some p) False = Some h4"
      "upd h4 l (\<lambda>n. n\<lparr>tr_left := Some p\<rparr>) = Some h5"
      "upd h5 p (\<lambda>n. n\<lparr>tr_parent := Some l, tr_fLeft := True\<rparr>) = Some h6"
      "UpdateCounts R h6 (Some p) = Some h7" "UpdateCounts R h7 (Some l) = Some h'"
    by (elim exE conjE) (rule that; assumption)
  note p = closedD[OF assms(2,3) P(1)]
  then have l: "l \<in> V" "q \<in> V" using P by simp_all
  have 1: "only V h h1" by (rule upd_only[OF s(1) assms(2) l(1)]) (use closedD[OF assms(2) l(1)] p in auto)
  note c1 = only_closed[OF 1]
  have 2: "only V h1 h2" by (rule set_child_only[OF s(2) c1 l(2)]) (simp add: l)
  note c2 = only_closed[OF 2]
  have r: "inside V (tr_left L)" using closedD[OF c2 l(1) L] by simp
  have 3: "only V h2 h3" by (rule upd_only[OF s(3) c2 assms(3)]) (use closedD[OF c2 assms(3)] r in auto)
  note c3 = only_closed[OF 3]
  have 4: "only V h3 h4" by (rule set_up_only[OF s(4) c3 r]) (simp add: assms(3))
  note c4 = only_closed[OF 4]
  have 5: "only V h4 h5" by (rule upd_only[OF s(5) c4 l(1)]) (use closedD[OF c4 l(1)] assms(3) in auto)
  note c5 = only_closed[OF 5]
  have 6: "only V h5 h6" by (rule upd_only[OF s(6) c5 assms(3)]) (use closedD[OF c5 assms(3)] l in auto)
  note c6 = only_closed[OF 6]
  have 7: "only V h6 h7" by (rule UpdateCounts_only[OF s(7) c6]) (simp add: assms(3))
  have "only V h7 h'" by (rule UpdateCounts_only[OF s(8) only_closed[OF 7]]) (simp add: l)
  then show ?thesis using 1 2 3 4 5 6 7 by (simp add: only_def)
qed

lemma RotateLR_only:
  assumes "RotateLR R h p = Some h'" "closed V h" "p \<in> V"
  shows "only V h h'"
proof -
  from assms(1) obtain P par h1 where P: "h p = Some P" "tr_parent P = Some par"
    and s: "RotateR R h p = Some h1" "RotateL R h1 par = Some h'"
    by (auto simp: RotateLR_def bind_eq_Some_conv)
  have "par \<in> V" using closedD[OF assms(2,3) P(1)] P(2) by simp
  note 1 = RotateR_only[OF s(1) assms(2,3)]
  show ?thesis using only_trans[OF 1 RotateL_only[OF s(2) only_closed[OF 1] \<open>par \<in> V\<close>]] .
qed

lemma RotateRL_only:
  assumes "RotateRL R h p = Some h'" "closed V h" "p \<in> V"
  shows "only V h h'"
proof -
  from assms(1) obtain P par h1 where P: "h p = Some P" "tr_parent P = Some par"
    and s: "RotateL R h p = Some h1" "RotateR R h1 par = Some h'"
    by (auto simp: RotateRL_def bind_eq_Some_conv)
  have "par \<in> V" using closedD[OF assms(2,3) P(1)] P(2) by simp
  note 1 = RotateL_only[OF s(1) assms(2,3)]
  show ?thesis using only_trans[OF 1 RotateR_only[OF s(2) only_closed[OF 1] \<open>par \<in> V\<close>]] .
qed

lemma Restructure_only:
  assumes "Restructure R h p = Some h'" "closed V h" "p \<in> V"
  shows "only V h h'"
proof -
  from assms(1) obtain n where n: "h p = Some n"
    by (auto simp: Restructure_def bind_eq_Some_conv)
  note i = closedD[OF assms(2,3) n]
  consider "RotateL R h p = Some h'" | l where "RotateLR R h l = Some h'" "tr_left n = Some l"
    | "RotateR R h p = Some h'" | r where "RotateRL R h r = Some h'" "tr_right n = Some r" | "h' = h"
    using assms(1) n by (auto simp: Restructure_def bind_eq_Some_conv split: if_splits)
  then show ?thesis
  proof cases
    case 1 then show ?thesis using RotateL_only assms by blast
  next
    case (2 l) then show ?thesis using RotateLR_only[OF 2(1) assms(2)] i by simp
  next
    case 3 then show ?thesis using RotateR_only assms by blast
  next
    case (4 r) then show ?thesis using RotateRL_only[OF 4(1) assms(2)] i by simp
  next
    case 5 then show ?thesis using only_refl assms by blast
  qed
qed

lemma RestructureRecursive_only:
  assumes "RestructureRecursive R h p = Some h'" "closed V h" "inside V p"
  shows "only V h h'"
proof -
  let ?P = "\<lambda>(R :: nat) h p h'. closed V h \<longrightarrow> inside V p \<longrightarrow> only V h h'"
  have "?P R h p h'"
    using assms(1)
  proof (rule RestructureRecursive.raw_induct[where P = ?P, rotated], intro impI)
    fix RR root h p h'
    assume IH: "\<And>root h p h'. RR root h p = Some h' \<Longrightarrow> ?P root h p h'" and c: "closed V h" "inside V p"
      and run: "(case p of None \<Rightarrow> Some h
        | Some a \<Rightarrow> if a = root then Some h
          else do { h \<leftarrow> Restructure root h a; n \<leftarrow> h a; RR root h (tr_parent n) }) = Some h'"
    show "only V h h'"
    proof (cases p)
      case None
      then show ?thesis using run c by (simp add: only_refl)
    next
      case (Some a)
      show ?thesis
      proof (cases "a = root")
        case True
        then show ?thesis using run c Some by (simp add: only_refl)
      next
        case False
        then obtain h1 n where h1: "Restructure root h a = Some h1" "h1 a = Some n" "RR root h1 (tr_parent n) = Some h'"
          using run Some by (auto simp: bind_eq_Some_conv)
        have a: "a \<in> V" using c(2) Some by simp
        note o = Restructure_only[OF h1(1) c(1) a]
        show ?thesis using IH[OF h1(3)] only_closed[OF o] closedD[OF only_closed[OF o] a h1(2)] only_trans[OF o] by blast
      qed
    qed
  qed
  then show ?thesis using assms by blast
qed

text \<open>The rows of a tree, with the root row, are closed.\<close>

lemma rep_closed:
  assumes "rep h par fl t" "par \<in> V" "set_tree t \<subseteq> V" "a \<in> set_tree t" "h a = Some n"
  shows "inside V (tr_parent n) \<and> inside V (tr_left n) \<and> inside V (tr_right n)"
  using assms
proof (induction t arbitrary: par fl)
  case (Node l b r)
  show ?case
  proof (cases "a = b")
    case True
    have "inside V (ptr l)" "inside V (ptr r)" using Node.prems(3) by (cases l; cases r; auto)+
    then show ?thesis using Node.prems True by auto
  next
    case False
    then show ?thesis using Node.prems Node.IH(1)[of b True] Node.IH(2)[of b False] by auto
  qed
qed simp

lemma wf_closed: "wf_tab R h t \<Longrightarrow> closed (insert R (set_tree t)) h"
proof -
  assume w: "wf_tab R h t"
  have "inside (insert R (set_tree t)) (ptr t)" by (cases t) auto
  then show ?thesis
    unfolding closed_def using w rep_closed[of h R False t "insert R (set_tree t)"]
    by (auto simp: wf_tab_def)
qed

end
