(* ===== verification/Key_Delete.thy ===== *)
theory Key_Delete
  imports Key_Frame
begin

text \<open>
  Deleting a row from the key table of \<^verbatim>\<open>common/ECKeyTable.cpp\<close>: unlinking it from the tree, with
  the recount and the rebalancing, and the row that stays behind unlinked until the cursor has
  been moved.
\<close>

subsection \<open>Places\<close>

lemma focus_fill': "focus R h t (s # c) \<Longrightarrow> focus R h (fill s t) c"
  using rep_focus_up[of R h t s c] by (auto simp: focus_def simp del: repc.simps)

lemma focus_app: "focus R h t (sp @ d) \<Longrightarrow> focus R h (plug t sp) d"
  by (induction sp arbitrary: t) (auto dest: focus_fill')

lemma focus_closed: "focus R h t c \<Longrightarrow> closed (insert R (set_tree (plug t c))) h"
proof -
  assume f: "focus R h t c"
  then have "repc R h (ptr (plug t c)) []" and r: "rep h R False (plug t c)"
    using rep_plug[of R h t c] by (auto simp: focus_def simp del: repc.simps)
  moreover have "inside (insert R (set_tree (plug t c))) (ptr (plug t c))" by (cases "plug t c") auto
  ultimately show ?thesis
    unfolding closed_def using rep_closed[OF r, of "insert R (set_tree (plug t c))"] by auto
qed

lemma rightmost_decomp:
  assumes "l \<noteq> Leaf"
  obtains ll p sp where "l = plug (Node ll p Leaf) sp" "rows_after sp = []"
proof -
  have "\<exists>ll p sp. l = plug (Node ll p Leaf) sp \<and> rows_after sp = []"
    using assms
  proof (induction l)
    case (Node l1 a l2)
    show ?case
    proof (cases l2)
      case Leaf
      then show ?thesis by (intro exI[of _ l1] exI[of _ a] exI[of _ "[]"]) simp
    next
      case (Node x y z)
      then obtain ll p sp where "l2 = plug (Node ll p Leaf) sp" "rows_after sp = []" using Node.IH(2) by auto
      moreover have "rows_after (sp @ [StepR l1 a]) = rows_after sp"
        by (induction sp) simp_all
      ultimately show ?thesis
        by (intro exI[of _ ll] exI[of _ p] exI[of _ "sp @ [StepR l1 a]"]) (simp add: plug_append)
    qed
  qed simp
  then show ?thesis using that by blast
qed

text \<open>Recounting from the parent of a place.\<close>

lemma UpdateCounts_par:
  assumes "focus R h t c" "cached h t"
  shows "\<exists>h'. UpdateCounts R h (Some (par_of R c)) = Some h' \<and> same_shape h h' \<and> wf_tab R h' (plug t c)"
proof (cases c)
  case Nil
  from UpdateCounts_root[of R h t] assms Nil obtain h' where
    "UpdateCounts R h (Some R) = Some h'" "wf_tab R h' t" "same_shape h h'" by metis
  then show ?thesis using Nil by auto
next
  case (Cons s c')
  have f: "focus R h (fill s t) c'" using focus_fill' assms(1) Cons by blast
  have sib: "cached h (sibling s)" using assms(1) Cons by (simp add: focus_def)
  show ?thesis
  proof (cases s)
    case (StepL b u)
    then show ?thesis using UpdateCounts_focus[of R h t b u c'] f assms(2) sib Cons by simp
  next
    case (StepR u b)
    then show ?thesis using UpdateCounts_focus[of R h u b t c'] f assms(2) sib Cons by simp
  qed
qed

text \<open>Recounting with a cache that is out of date below: the run ends and changes caches on the path only.\<close>

lemma UpdateCounts_unfold:
  assumes "h a = Some n" "child_count h (tr_left n) = Some lc" "child_count h (tr_right n) = Some rc"
    "child_height h (tr_left n) = Some lh" "child_height h (tr_right n) = Some rh"
  shows "UpdateCounts R h (Some a) = UpdateCounts R (h(a \<mapsto>
     n\<lparr>tr_count := (if a = R \<or> tr_fHidden n then 0 else 1) + lc + rc,
       tr_height := (if a = R then 0 else 1) + max lh rh\<rparr>)) (tr_parent n)"
  using assms by (subst UpdateCounts.simps) (simp add: Let_def)

lemma UpdateCounts_path:
  assumes "repc R h p c" "\<forall>x. p = Some x \<longrightarrow> h x \<noteq> None"
  shows "\<exists>h'. UpdateCounts R h (Some (par_of R c)) = Some h' \<and> same_shape h h' \<and>
    (\<forall>b. b \<notin> insert R (addr ` set c) \<longrightarrow> h' b = h b)"
  using assms
proof (induction c arbitrary: h p)
  case Nil
  then obtain n where n: "h R = Some n" "tr_parent n = None" "tr_left n = None" "tr_right n = p" by auto
  obtain k1 k2 where "child_count h p = Some k1" "child_height h p = Some k2"
    using Nil.prems(2) by (cases p) (auto simp: child_count_def child_height_def)
  then show ?case using n
    by (subst (1) par_of.simps, subst UpdateCounts.simps)
      (auto simp: child_count_def child_height_def same_shape_def shape_def)
next
  case (Cons s c)
  then obtain n where n: "h (addr s) = Some n" "tr_parent n = Some (par_of R c)"
    "tr_left n = (if side s then p else ptr (sibling s))" "tr_right n = (if side s then ptr (sibling s) else p)"
    and sib: "rep h (addr s) (\<not> side s) (sibling s)" and rc: "repc R h (Some (addr s)) c" by auto
  obtain k1 k2 where k: "child_count h p = Some k1" "child_height h p = Some k2"
    using Cons.prems(2) by (cases p) (auto simp: child_count_def child_height_def)
  obtain m1 m2 where m: "child_count h (ptr (sibling s)) = Some m1" "child_height h (ptr (sibling s)) = Some m2"
    using sib by (cases "sibling s") (auto simp: child_count_def child_height_def)
  have "\<exists>x y. UpdateCounts R h (Some (addr s)) =
      UpdateCounts R (h(addr s \<mapsto> n\<lparr>tr_count := x, tr_height := y\<rparr>)) (Some (par_of R c))"
  proof (cases "side s")
    case True
    then show ?thesis using UpdateCounts_unfold[of h "addr s" n k1 m1 k2 m2 R] n k m
      by (intro exI) (simp only: True if_True)
  next
    case False
    then show ?thesis using UpdateCounts_unfold[of h "addr s" n m1 k1 m2 k2 R] n k m
      by (intro exI) (simp only: False if_False)
  qed
  then obtain x y where run: "UpdateCounts R h (Some (addr s)) =
      UpdateCounts R (h(addr s \<mapsto> n\<lparr>tr_count := x, tr_height := y\<rparr>)) (Some (par_of R c))" by blast
  let ?h = "h(addr s \<mapsto> n\<lparr>tr_count := x, tr_height := y\<rparr>)"
  have sh: "same_shape h ?h" using n(1) by (simp add: same_shape_def shape_def)
  have "repc R ?h (Some (addr s)) c" using rc repc_shape[OF sh] by simp
  moreover have "\<forall>x. Some (addr s) = Some x \<longrightarrow> ?h x \<noteq> None" by simp
  ultimately obtain h' where h': "UpdateCounts R ?h (Some (par_of R c)) = Some h'" "same_shape ?h h'"
    "\<forall>b. b \<notin> insert R (addr ` set c) \<longrightarrow> h' b = ?h b" using Cons.IH[of ?h "Some (addr s)"] by blast
  have "UpdateCounts R h (Some (par_of R (s # c))) = Some h'" using run h'(1) by simp
  moreover have "\<forall>b. b \<notin> insert R (addr ` set (s # c)) \<longrightarrow> h' b = h b" using h'(3) by simp
  ultimately show ?case using same_shape_trans[OF sh h'(2)] by blast
qed

subsection \<open>A row with at most one child\<close>

text \<open>Hanging a leg at the end of a path, in the place of what is there.\<close>

lemma hang:
  assumes f: "repc R h p c" "distinct (path_rows c)" "R \<notin> set (path_rows c)" "cachedc h c"
    and t: "rep h q fl t" "distinct (inorder t)" "set_tree t \<inter> set (path_rows c) = {}" "R \<notin> set_tree t"
  obtains h1 h2 where "set_child h (par_of R c) (side_of c) (ptr t) = Some h1"
    "set_up h1 (ptr t) (Some (par_of R c)) (side_of c) = Some h2"
    "same_info h h2" "focus R h2 t c"
    "\<And>b. b \<noteq> par_of R c \<Longrightarrow> b \<notin> set_tree t \<Longrightarrow> h2 b = h b"
proof -
  from repc_par[OF f(1)] obtain Q where Q: "h (par_of R c) = Some Q" .
  define h1 where "h1 = h(par_of R c \<mapsto> relink c (ptr t) Q)"
  have s1: "set_child h (par_of R c) (side_of c) (ptr t) = Some h1"
    using Q by (simp add: h1_def set_child_relink)
  have par: "par_of R c \<notin> set_tree t" using par_of_in[of R c] t(3,4) by auto
  have t1: "rep h1 q fl t" using t(1) par by (simp add: h1_def)
  from set_up_rep[OF t1 t(2), of "par_of R c" "side_of c"] obtain h2 where
    h2: "set_up h1 (ptr t) (Some (par_of R c)) (side_of c) = Some h2" "rep h2 (par_of R c) (side_of c) t"
      "same_info h1 h2" "\<And>b. ptr t \<noteq> Some b \<Longrightarrow> h2 b = h1 b" by metis
  have out: "h2 b = h1 b" if "b \<notin> set_tree t" for b
    using h2(4)[of b] that by (cases t) auto
  have si: "same_info h h2"
    using h2(3) by (rule same_info_trans[rotated])
      (unfold h1_def, rule same_info_upd[where n = Q], simp_all add: Q)
  have "repc R h1 (ptr t) c" unfolding h1_def by (rule repc_relink[OF f(1-3) Q])
  moreover have "h2 b = h1 b" if "b = R \<or> b \<in> set (path_rows c)" for b
    using that t(3,4) by (intro out) auto
  ultimately have "repc R h2 (ptr t) c" using repc_frame[of R c h2 h1] by blast
  moreover have "cachedc h2 c" using f(4) same_info_cachedc[OF si] by simp
  moreover have "distinct (R # inorder (plug t c))"
    using f(2,3) t(2-4) by (auto simp: distinct_plug set_plug simp flip: set_inorder)
  ultimately have "focus R h2 t c" using h2(2) by (simp add: focus_def)
  then show ?thesis using that[OF s1 h2(1) si] out by (simp add: h1_def)
qed

end
