(* ===== verification/Key_Unlink.thy ===== *)
theory Key_Unlink
  imports Key_Delete
begin

text \<open>
  Unlinking a row of the key table of \<^verbatim>\<open>common/ECKeyTable.cpp\<close>: in every case the row leaves
  the in-order sequence, the other rows keep their order, and the tree is an AVL tree again.
\<close>

subsection \<open>A row with at most one child\<close>

text \<open>What is left of the run once the leg has been hung in the place of the row.\<close>

lemma recount_rebalance:
  assumes f: "focus R h t c" "cached h t" and av: "avl (plug t0 c)" "avl t" "near (height t) (height t0)"
  shows "\<exists>h1 h2. UpdateCounts R h (Some (par_of R c)) = Some h1 \<and>
    RestructureRecursive R h1 (Some (par_of R c)) = Some h2 \<and> same_data h h2 \<and>
    wf_tab R h2 (up t c) \<and> only (insert R (set_tree (plug t c))) h h2"
proof -
  let ?V = "insert R (set_tree (plug t c))"
  from UpdateCounts_par[OF f] obtain h1 where
    h1: "UpdateCounts R h (Some (par_of R c)) = Some h1" "same_shape h h1" "wf_tab R h1 (plug t c)" by blast
  from RestructureRecursive_par[OF h1(3) restr_avl[OF av(2)] settles_avl[OF av]] obtain h2 where
    h2: "RestructureRecursive R h1 (Some (par_of R c)) = Some h2" "same_data h1 h2" "wf_tab R h2 (up t c)" by blast
  have "par_of R c \<in> ?V" using par_of_in[of R c] set_plug[of t c] by auto
  then have i: "inside ?V (Some (par_of R c))" by simp
  note o1 = UpdateCounts_only[OF h1(1) focus_closed[OF f(1)] i]
  note o2 = only_trans[OF o1 RestructureRecursive_only[OF h2(1) only_closed[OF o1] i]]
  show ?thesis
    using h1 h2 o2 same_data_trans[OF same_shape_data[OF h1(2)] h2(2)] by blast
qed

text \<open>The links of a row lead into a set of rows.\<close>

definition links_in :: "nat set \<Rightarrow> heap \<Rightarrow> nat \<Rightarrow> bool" where
  "links_in V h a \<longleftrightarrow> (\<exists>n. h a = Some n \<and> inside V (tr_parent n) \<and> inside V (tr_left n) \<and> inside V (tr_right n))"

lemma inside_mono: "inside V p \<Longrightarrow> V \<subseteq> W \<Longrightarrow> inside W p"
  by (auto simp: inside_def)

lemma links_in_mono: "links_in V h a \<Longrightarrow> V \<subseteq> W \<Longrightarrow> links_in W h a"
  unfolding links_in_def using inside_mono by blast

lemma set_up_list: "set_tree (up t c) = set_tree (plug t c)"
proof -
  have "set (inorder (up t c)) = set (inorder (plug t c))"
    by (simp only: inorder_up inorder_plug)
  then show ?thesis by simp
qed

lemma unlink_simple_run:
  assumes w: "wf_tab R h (plug (Node l a r) c)" and av: "avl (plug (Node l a r) c)"
    and t: "(r = Leaf \<and> t = l) \<or> (l = Leaf \<and> t = r)" and n: "h a = Some n"
  shows "\<exists>h'. unlink_simple R h n (ptr t) = Some h' \<and> same_data h h' \<and> wf_tab R h' (up t c) \<and>
    avl (up t c) \<and> links_in (insert R (set_tree (up t c))) h' a"
proof -
  from wf_focus[OF w] have f: "focus R h (Node l a r) c" and ca: "cached h (Node l a r)" by auto
  note d = focus_distinct[OF f]
  have na: "tr_parent n = Some (par_of R c)" "tr_fLeft n = side_of c" "tr_left n = ptr l" "tr_right n = ptr r"
    using f n by (auto simp: focus_def)
  obtain q where rt: "rep h a q t" using f t by (auto simp: focus_def)
  have at: "a \<notin> set_tree t" "distinct (inorder t)" "set_tree t \<inter> set (path_rows c) = {}" "R \<notin> set_tree t"
    using d t by auto
  have fc: "repc R h (Some a) c" "cachedc h c" using f by (auto simp: focus_def)
  from hang[OF fc(1) _ _ fc(2) rt at(2-4)] d obtain h1 h2 where
    h2: "set_child h (par_of R c) (side_of c) (ptr t) = Some h1"
      "set_up h1 (ptr t) (Some (par_of R c)) (side_of c) = Some h2"
      "same_info h h2" "focus R h2 t c" "\<And>b. b \<noteq> par_of R c \<Longrightarrow> b \<notin> set_tree t \<Longrightarrow> h2 b = h b" by blast
  have ct: "cached h2 t" using ca t same_info_cached[OF h2(3)] by auto
  have "avl (Node l a r)" using av avl_plug_focus by blast
  then have avt: "avl t" "near (height t) (height (Node l a r))" using t by (auto simp: near_def)
  from recount_rebalance[OF h2(4) ct av avt] obtain h3 h4 where
    h4: "UpdateCounts R h2 (Some (par_of R c)) = Some h3" "RestructureRecursive R h3 (Some (par_of R c)) = Some h4"
      "same_data h2 h4" "wf_tab R h4 (up t c)" "only (insert R (set_tree (plug t c))) h2 h4" by blast
  have run: "unlink_simple R h n (ptr t) = Some h4"
    using na h2(1,2) h4(1,2) by (simp add: unlink_simple_def)
  have "a \<notin> set (path_rows c)" "a \<noteq> R" "a \<noteq> par_of R c" using d par_of_in[of R c] by auto
  then have "h4 a = Some n" using h4(5) h2(5)[of a] at(1) n set_plug[of t c] by (simp add: only_def)
  moreover have "par_of R c \<in> insert R (set_tree (plug t c))" using par_of_in[of R c] set_plug[of t c] by auto
  moreover have "inside (insert R (set_tree (plug t c))) (ptr l)" "inside (insert R (set_tree (plug t c))) (ptr r)"
    using t set_plug[of t c] by (cases l; cases r; auto)+
  ultimately have "links_in (insert R (set_tree (up t c))) h4 a"
    using na by (simp add: links_in_def set_up_list)
  then show ?thesis
    using run h4(4) avl_up[OF av avt] same_data_trans[OF same_info_data[OF h2(3)] h4(3)] by blast
qed


subsection \<open>A row with two children: the relinking\<close>

lemma par_of_append: "par_of R (sp @ s # c) = par_of (addr s) sp"
  by (cases sp) simp_all

lemma side_of_append: "side_of (sp @ s # c) = (if sp = [] then side s else side_of sp)"
  by (cases sp) simp_all

lemma reparent_set_up:
  assumes "rep h q fl t"
  shows "(case ptr t of None \<Rightarrow> Some h | Some b \<Rightarrow> upd h b (\<lambda>n. n\<lparr>tr_parent := p\<rparr>)) = set_up h (ptr t) p fl"
proof (cases t)
  case (Node x b y)
  then obtain n where "h b = Some n" "tr_fLeft n = fl" using assms by auto
  then show ?thesis using Node by (cases n) (simp add: upd_def set_up_def)
qed (simp add: set_up_def)

definition after_swap :: "nat \<Rightarrow> heap \<Rightarrow> trow \<Rightarrow> nat \<Rightarrow> nat \<Rightarrow> heap option" where
  "after_swap R h n pp p = do {
     h \<leftarrow> UpdateCounts R h (Some pp);
     h \<leftarrow> UpdateCounts R h (Some p);
     h \<leftarrow> RestructureRecursive R h (Some p);
     PP \<leftarrow> h pp;
     if tr_key PP \<noteq> tr_key n then RestructureRecursive R h (Some pp) else Some h
   }"

lemma same_data_key:
  "same_data h h' \<Longrightarrow> h a = Some n \<Longrightarrow> h' a = Some n' \<Longrightarrow> tr_key n' = tr_key n"
proof -
  assume "same_data h h'" "h a = Some n" "h' a = Some n'"
  then have "payload n' = payload n" unfolding same_data_def by (metis option.map(2) option.inject)
  then show ?thesis by (simp add: payload_def)
qed

lemma same_data_dom: "same_data h h' \<Longrightarrow> dom h' = dom h"
  unfolding same_data_def dom_def by (metis option.map_disc_iff)

lemma swap_place:
  assumes w: "wf_tab R h (plug (Node l a r) c)" and l: "l = plug (Node ll p Leaf) sp"
  obtains h6 n where "\<And>x. ptr l = Some x \<Longrightarrow> rightmost h x = Some p \<Longrightarrow> unlink_double R h a x = after_swap R h6 n (par_of a sp) p"
    "same_info h h6" "focus R h6 (Node (plug ll sp) p r) c" "h6 a = Some n"
    "tr_parent n = Some (par_of R c)" "tr_left n = ptr (plug ll sp)" "tr_right n = ptr r"
proof -
  let ?c = "sp @ StepL a r # c" and ?l = "plug ll sp"
  have eq: "plug (Node l a r) c = plug (Node ll p Leaf) ?c" using l by (simp add: plug_append)
  from wf_focus[OF w[unfolded eq]] have f: "focus R h (Node ll p Leaf) ?c" by auto
  note d = focus_distinct[OF f]
  from f obtain Q where Q: "h p = Some Q" "tr_parent Q = Some (par_of R ?c)" "tr_fLeft Q = side_of ?c"
    "tr_left Q = ptr ll" "\<not> tr_fRoot Q" and rl: "rep h p True ll" by (auto simp: focus_def)
  have fc: "repc R h (Some p) ?c" "cachedc h ?c" using f by (auto simp: focus_def)
  from hang[OF fc(1) _ _ fc(2) rl] d obtain h1 h2 where
    h2: "set_child h (par_of R ?c) (side_of ?c) (ptr ll) = Some h1"
      "set_up h1 (ptr ll) (Some (par_of R ?c)) (side_of ?c) = Some h2"
      "same_info h h2" "focus R h2 ll ?c" "\<And>b. b \<noteq> par_of R ?c \<Longrightarrow> b \<notin> set_tree ll \<Longrightarrow> h2 b = h b"
    by (auto simp del: par_of.simps side_of.simps)
  have "focus R h2 ?l (StepL a r # c)" using h2(4) by (rule focus_app)
  note f2 = this focus_fill'[OF this]
  note d2 = focus_distinct[OF f2(2)]
  from f2 obtain n where n: "h2 a = Some n" "tr_parent n = Some (par_of R c)" "tr_fLeft n = side_of c"
      "tr_left n = ptr ?l" "tr_right n = ptr r" and r2: "rep h2 a True ?l" "rep h2 a False r" "repc R h2 (Some a) c"
    by (auto simp: focus_def)
  have pout: "p \<noteq> R" "p \<notin> set_tree ll" "p \<notin> set (path_rows ?c)" "p \<noteq> par_of R ?c" using d par_of_in[of R ?c] by auto
  then have Q2: "h2 p = Some Q" using h2(5) Q(1) by simp
  have "plug (fill (StepL a r) ?l) c = plug ll ?c" by (simp add: plug_append)
  then have "set_tree (plug (Node ?l a r) c) = set_tree (plug ll ?c)" by simp
  then have "p \<notin> set_tree (plug (Node ?l a r) c)" using pout set_plug[of ll ?c] by simp
  then have pn: "p \<noteq> a" "p \<notin> set_tree ?l" "p \<notin> set_tree r" "p \<notin> set (path_rows c)"
    using set_plug[of "Node ?l a r" c] by auto
  from repc_par[OF r2(3)] obtain P where P: "h2 (par_of R c) = Some P" .
  let ?h3 = "h2(par_of R c \<mapsto> relink c (Some p) P)"
  have s3: "set_child h2 (par_of R c) (side_of c) (Some p) = Some ?h3" using P by (simp add: set_child_relink)
  have pc: "par_of R c \<noteq> p" "par_of R c \<noteq> a" "par_of R c \<notin> set_tree ?l" "par_of R c \<notin> set_tree r"
    using par_of_in[of R c] pn pout(1) d2 by auto
  let ?Q = "Q\<lparr>tr_parent := Some (par_of R c), tr_fLeft := side_of c, tr_left := ptr ?l, tr_right := ptr r\<rparr>"
  let ?h4 = "?h3(p \<mapsto> ?Q)"
  have s4: "upd ?h3 p (\<lambda>q. q\<lparr>tr_parent := Some (par_of R c), tr_fLeft := side_of c,
      tr_left := ptr ?l, tr_right := ptr r\<rparr>) = Some ?h4" using Q2 pc by (simp add: upd_def)
  have "same_info h2 ?h3" by (rule same_info_upd[where n = P]) (simp_all add: P)
  moreover have "same_info ?h3 ?h4" by (rule same_info_upd[where n = Q]) (use Q2 pc in \<open>simp_all add: info_defs\<close>)
  ultimately have i4: "same_info h2 ?h4" by (rule same_info_trans)
  have r4: "rep ?h4 a True ?l" "rep ?h4 a False r" using r2 pc pn by simp_all
  from set_up_rep[OF r4(1), of p True] d2 obtain h5 where
    h5: "set_up ?h4 (ptr ?l) (Some p) True = Some h5" "rep h5 p True ?l" "same_info ?h4 h5"
      "\<And>b. ptr ?l \<noteq> Some b \<Longrightarrow> h5 b = ?h4 b" by auto
  have out5: "h5 b = ?h4 b" if "b \<notin> set_tree ?l" for b using h5(4)[of b] that by (cases ?l) auto
  have lr: "set_tree ?l \<inter> set_tree r = {}" using d2 by auto
  then have "rep h5 a False r = rep ?h4 a False r" by (intro rep_frame out5) auto
  then have r5: "rep h5 a False r" using r4(2) by blast
  from set_up_rep[OF r5, of p False] d2 obtain h6 where
    h6: "set_up h5 (ptr r) (Some p) False = Some h6" "rep h6 p False r" "same_info h5 h6"
      "\<And>b. ptr r \<noteq> Some b \<Longrightarrow> h6 b = h5 b" by auto
  have out6: "h6 b = h5 b" if "b \<notin> set_tree r" for b using h6(4)[of b] that by (cases r) auto
  have si: "same_info h h6" using h2(3) i4 h5(3) h6(3) same_info_trans by blast
  have run: "unlink_double R h a x = after_swap R h6 n (par_of a sp) p"
    if "ptr l = Some x" "rightmost h x = Some p" for x
    using that Q n h2(1,2) s3 s4 reparent_set_up[OF r4(1), of "Some p"] reparent_set_up[OF r5, of "Some p"] h5(1) h6(1)
    by (simp add: unlink_double_def after_swap_def par_of_append)
  have "h6 a = Some n" using out5[of a] out6[of a] d2 n(1) pc pn by simp
  moreover have "focus R h6 (Node ?l p r) c"
  proof -
    have "rep h6 p True ?l = rep h5 p True ?l" using lr by (intro rep_frame out6) auto
    moreover have "h6 p = Some ?Q" using out5[of p] out6[of p] pn by simp
    ultimately have "rep h6 (par_of R c) (side_of c) (Node ?l p r)" using h5(2) h6(2) Q(5) by simp
    moreover have "repc R ?h3 (Some p) c" using repc_relink[OF r2(3) _ _ P] d2 by blast
    then have "repc R ?h4 (Some p) c" using pn pout by simp
    moreover have "h6 b = ?h4 b" if "b = R \<or> b \<in> set (path_rows c)" for b
    proof -
      have "b \<notin> set_tree ?l" "b \<notin> set_tree r" using that d2 by auto
      then show ?thesis by (rule trans[OF out6 out5, rotated])
    qed
    ultimately have "rep h6 (par_of R c) (side_of c) (Node ?l p r)" "repc R h6 (Some p) c"
      using repc_frame[of R c h6 ?h4] by blast+
    moreover have "cachedc h6 c" using wf_focus[OF w] same_info_cachedc[OF si] by (simp add: focus_def)
    moreover have "distinct (R # inorder (plug (Node ?l p r) c))"
      using d2 pn pout(1) by (auto simp: distinct_plug set_plug simp flip: set_inorder)
    ultimately show ?thesis by (simp add: focus_def)
  qed
  ultimately show ?thesis using that run si n by blast
qed


subsection \<open>A row with two children: recount and rebalance\<close>

lemma cachedc_siblings:
  "(\<And>s b. s \<in> set c \<Longrightarrow> b \<in> set_tree (sibling s) \<Longrightarrow> h' b = h b) \<Longrightarrow> cachedc h' c = cachedc h c"
proof (induction c)
  case (Cons s c)
  have "cached h' (sibling s) = cached h (sibling s)" using Cons.prems[of s] by (intro cached_frame) simp
  moreover have "cachedc h' c = cachedc h c" using Cons.prems by (intro Cons.IH) auto
  ultimately show ?case by simp
qed simp

lemma cachedc_append: "cachedc h (c @ d) \<longleftrightarrow> cachedc h c \<and> cachedc h d"
  by (induction c) simp_all

lemma siblings_off_path:
  "distinct (path_rows c) \<Longrightarrow> s \<in> set c \<Longrightarrow> b \<in> set_tree (sibling s) \<Longrightarrow> b \<notin> addr ` set c \<and> b \<in> set (path_rows c)"
proof (induction c)
  case (Cons s' c)
  have sub: "addr ` set c \<subseteq> set (path_rows c)" for c by (induction c) auto
  show ?case
  proof (cases "s = s'")
    case True
    then have "b \<in> set_tree (sibling s')" using Cons.prems by simp
    then show ?thesis using Cons.prems(1) sub[of c] by auto
  next
    case False
    then show ?thesis using Cons.prems Cons.IH by auto
  qed
qed simp

text \<open>Counting from a row that is no longer linked, whose parent pointer still leads to the path.\<close>

lemma recount_stale:
  assumes f: "focus R h (Node l p r) c" "cached h l" "cached h r" and n: "h a = Some n"
    "tr_parent n = Some (par_of R c)" "tr_left n = ptr l" "tr_right n = ptr r"
    and a: "a \<notin> insert R (set_tree (plug (Node l p r) c))"
  obtains h' n' where "UpdateCounts R h (Some a) = Some h'" "same_shape h h'" "focus R h' (Node l p r) c"
    "cached h' l" "cached h' r" "closed (insert R (set_tree (plug (Node l p r) c))) h'"
    "h' a = Some n'" "tr_parent n' = tr_parent n" "tr_left n' = tr_left n" "tr_right n' = tr_right n"
proof -
  let ?V = "insert R (set_tree (plug (Node l p r) c))"
  note d = focus_distinct[OF f(1)]
  have out: "a \<noteq> R" "a \<noteq> p" "a \<notin> set_tree l" "a \<notin> set_tree r" "a \<notin> set (path_rows c)"
    using a set_plug[of "Node l p r" c] by auto
  define n' where "n' = n\<lparr>tr_count := (if a = R \<or> tr_fHidden n then 0 else 1) + vis h (inorder l) + vis h (inorder r),
       tr_height := (if a = R then 0 else 1) + max (height l) (height r)\<rparr>"
  define h1 where "h1 = h(a \<mapsto> n')"
  have run: "UpdateCounts R h (Some a) = UpdateCounts R h1 (Some (par_of R c))"
    unfolding h1_def n'_def using UpdateCounts_unfold[of h a n] n f(2,3) by simp
  have sh: "same_shape h h1" using n(1) out(1) by (simp add: same_shape_def shape_def h1_def n'_def)
  have rc: "repc R h1 (Some p) c" using f(1) repc_shape[OF sh] by (simp add: focus_def)
  have hp: "\<forall>x. Some p = Some x \<longrightarrow> h1 x \<noteq> None" using f(1) out by (auto simp: focus_def h1_def)
  from UpdateCounts_path[OF rc hp] obtain h' where h': "UpdateCounts R h1 (Some (par_of R c)) = Some h'"
    "same_shape h1 h'" "\<forall>b. b \<notin> insert R (addr ` set c) \<longrightarrow> h' b = h1 b" by blast
  note sh' = same_shape_trans[OF sh h'(2)]
  have sub: "addr ` set c \<subseteq> set (path_rows c)" by (induction c) auto
  have eq: "h' b = h b" if "b \<noteq> a" "b \<notin> insert R (addr ` set c)" for b using that h'(3) by (simp add: h1_def)
  have "cached h' l = cached h l" using out d sub by (intro cached_frame eq) auto
  moreover have "cached h' r = cached h r" using out d sub by (intro cached_frame eq) auto
  moreover have "cachedc h' c = cachedc h c"
    using out d siblings_off_path[of c] by (intro cachedc_siblings eq) auto
  moreover have "rep h' (par_of R c) (side_of c) (Node l p r)" "repc R h' (Some p) c"
    using f(1) unfolding rep_shape[OF sh'] repc_shape[OF sh'] focus_def ptr.simps by blast+
  ultimately have *: "focus R h' (Node l p r) c" "cached h' l" "cached h' r" using f by (simp_all add: focus_def)
  have "a \<notin> insert R (addr ` set c)" using out sub by blast
  then have "h' a = Some n'" using h'(3) by (simp add: h1_def)
  then show ?thesis using that[of h'] run h'(1) sh' * focus_closed[OF *(1)] by (simp add: n'_def)
qed

text \<open>Whether a tree is balanced does not depend on the rows in it.\<close>

lemma avl_plug_cong: "avl t = avl t' \<Longrightarrow> height t = height t' \<Longrightarrow> avl (plug t c) = avl (plug t' c)"
proof (induction c arbitrary: t t')
  case (Cons s c)
  then show ?case using Cons.IH[of "fill s t" "fill s t'"] by (cases s) simp_all
qed simp

lemma up_restr: "restr (restr t) = restr t \<Longrightarrow> up t c = up (restr t) c"
  by (cases c) simp_all

lemma settles_restr: "restr (restr t) = restr t \<Longrightarrow> settles (restr t) c = settles t c"
  by (cases c) simp_all

lemma near_refl: "near m m"
  by (simp add: near_def)

text \<open>A balanced tree stays as it is when it is rebalanced again from one of its rows.\<close>

lemma RestructureRecursive_id:
  assumes w: "wf_tab R h t" and av: "avl t" and b: "b \<in> set_tree t"
  shows "\<exists>h'. RestructureRecursive R h (Some b) = Some h' \<and> same_data h h' \<and> wf_tab R h' t"
proof -
  obtain x y d where t: "t = plug (Node x b y) d" using plug_decompose[of b t] b by auto
  have "avl (Node x b y)" using av avl_plug_focus unfolding t by blast
  moreover have "near (height (Node x b y)) (height (Node x b y))" by (rule near_refl)
  ultimately have "settles (Node x b y) d" by (rule settles_avl[OF av[unfolded t]])
  from RestructureRecursive_up[OF w[unfolded t] this] show ?thesis
    using up_avl_id av unfolding t by metis
qed


text \<open>
  The end of the run: both recounts leave a store with every cache right, with the row that is
  no longer linked still pointing to linked rows.
\<close>

lemma recount_swap:
  assumes f: "focus R h (Node (plug ll sp) p r) c" and ch: "cached h ll" "cached h r" "cachedc h sp"
    and n: "h a = Some n" "tr_parent n = Some (par_of R c)" "tr_left n = ptr (plug ll sp)" "tr_right n = ptr r"
    and a: "a \<notin> insert R (set_tree (plug (Node (plug ll sp) p r) c))"
  shows "\<exists>h1 h2. UpdateCounts R h (Some (par_of a sp)) = Some h1 \<and> UpdateCounts R h1 (Some p) = Some h2 \<and>
    same_data h h2 \<and> wf_tab R h2 (plug (Node (plug ll sp) p r) c) \<and>
    links_in (insert R (set_tree (plug (Node (plug ll sp) p r) c))) h2 a"
proof -
  let ?l = "plug ll sp" and ?T = "plug (Node (plug ll sp) p r) c"
  let ?V = "insert R (set_tree ?T)"
  have top: "inside ?V (ptr ?l)" "inside ?V (ptr r)" "par_of R c \<in> ?V" "p \<in> ?V"
    using set_plug[of "Node ?l p r" c] par_of_in[of R c] by (cases ?l; cases r; auto)+
  have "\<exists>h1 n'. UpdateCounts R h (Some (par_of a sp)) = Some h1 \<and> same_shape h h1 \<and> focus R h1 (Node ?l p r) c \<and>
    cached h1 ?l \<and> cached h1 r \<and> closed ?V h1 \<and>
    h1 a = Some n' \<and> tr_parent n' = tr_parent n \<and> tr_left n' = tr_left n \<and> tr_right n' = tr_right n"
  proof (cases sp)
    case Nil
    from recount_stale[of R h ?l p r c a n] f ch n a Nil show ?thesis by auto
  next
    case (Cons s sp')
    have "focus R h ll (sp @ StepL p r # c)"
    proof -
      have eq: "plug ll (sp @ StepL p r # c) = ?T" by (simp add: plug_append)
      from f have "repc R h (ptr (plug ll (sp @ StepL p r # c))) []" "rep h R False (plug ll (sp @ StepL p r # c))"
        using rep_plug[of R h "Node ?l p r" c] unfolding eq focus_def by blast+
      then have "repc R h (ptr ll) (sp @ StepL p r # c)"
          "rep h (par_of R (sp @ StepL p r # c)) (side_of (sp @ StepL p r # c)) ll"
        using rep_plug[of R h ll "sp @ StepL p r # c"] by blast+
      moreover have "cachedc h (sp @ StepL p r # c)"
        using ch f by (simp add: focus_def cachedc_append)
      moreover have "distinct (R # inorder (plug ll (sp @ StepL p r # c)))" using f unfolding eq focus_def by blast
      ultimately show ?thesis by (simp only: focus_def)
    qed
    from UpdateCounts_par[OF this ch(1)] obtain h1 where h1:
      "UpdateCounts R h (Some (par_of R (sp @ StepL p r # c))) = Some h1" "same_shape h h1"
      "wf_tab R h1 (plug ll (sp @ StepL p r # c))" by blast
    have eq: "plug ll (sp @ StepL p r # c) = plug (Node ?l p r) c" by (simp add: plug_append)
    have pp: "par_of R (sp @ StepL p r # c) = par_of a sp" using Cons by simp
    have "inside ?V (Some (par_of a sp))"
      using par_of_in[of R "sp @ StepL p r # c"] set_plug[of ll "sp @ StepL p r # c"] pp eq by auto
    from UpdateCounts_only[OF h1(1)[unfolded pp] focus_closed[OF f] this] have "only ?V h h1" .
    then have "h1 a = Some n" "closed ?V h1" using a n(1) by (simp_all add: only_def)
    moreover note wf_focus[OF h1(3)[unfolded eq]]
    ultimately show ?thesis using h1(1,2) pp by auto
  qed
  then obtain h1 n' where h1: "UpdateCounts R h (Some (par_of a sp)) = Some h1" "same_shape h h1" "focus R h1 (Node ?l p r) c"
    "cached h1 ?l" "cached h1 r" "closed ?V h1"
    "h1 a = Some n'" "tr_parent n' = tr_parent n" "tr_left n' = tr_left n" "tr_right n' = tr_right n" by blast
  from UpdateCounts_focus[OF h1(3-5)] obtain h2 where
    h2: "UpdateCounts R h1 (Some p) = Some h2" "same_shape h1 h2" "wf_tab R h2 ?T" by blast
  have "inside ?V (Some p)" using top(4) by simp
  from UpdateCounts_only[OF h2(1) h1(6) this] have "h2 a = Some n'" using a h1(7) by (simp add: only_def)
  then have "links_in ?V h2 a" using h1(8-) n top by (simp add: links_in_def)
  moreover have "same_data h h2" using same_shape_trans[OF h1(2) h2(2)] by (rule same_shape_data)
  ultimately show ?thesis using h1(1) h2 by blast
qed


subsection \<open>Deleting any row\<close>

lemma links_kept: "links_in V h a \<Longrightarrow> only V h h' \<Longrightarrow> a \<notin> V \<Longrightarrow> links_in V h' a"
  by (simp add: links_in_def only_def)

lemma Restructure_again:
  assumes w: "wf_tab R h U" "avl U" and pp: "pp = a \<or> pp \<in> set_tree U" and n: "h a = Some m" "tr_key m = k"
  shows "\<exists>h'. (case h pp of None \<Rightarrow> None | Some PP \<Rightarrow>
      if tr_key PP \<noteq> k then RestructureRecursive R h (Some pp) else Some h) = Some h' \<and>
    same_data h h' \<and> wf_tab R h' U \<and> (a \<notin> insert R (set_tree U) \<longrightarrow> only (insert R (set_tree U)) h h')"
proof (cases "pp = a")
  case True
  then show ?thesis using n w only_refl[OF wf_closed[OF w(1)]] by auto
next
  case False
  then have i: "pp \<in> set_tree U" using pp by simp
  then obtain PP where PP: "h pp = Some PP" using rep_in[of h R False U pp] w(1) by (auto simp: wf_tab_def)
  from RestructureRecursive_id[OF w i] obtain h' where h': "RestructureRecursive R h (Some pp) = Some h'"
    "same_data h h'" "wf_tab R h' U" by blast
  have "inside (insert R (set_tree U)) (Some pp)" using i by simp
  from RestructureRecursive_only[OF h'(1) wf_closed[OF w(1)] this] show ?thesis
    using h' PP w(1) only_refl[OF wf_closed[OF w(1)]] by auto
qed

lemma unlink_double_run:
  assumes w: "wf_tab R h (plug (Node l a r) c)" and av: "avl (plug (Node l a r) c)"
    and l: "l = plug (Node ll p Leaf) sp" "rows_after sp = []" "ptr l = Some x"
    and keys: "\<And>b n m. h a = Some n \<Longrightarrow> h b = Some m \<Longrightarrow> b \<in> set_tree l \<Longrightarrow> tr_key m \<noteq> tr_key n"
  shows "\<exists>h' T. unlink_double R h a x = Some h' \<and> same_data h h' \<and> wf_tab R h' T \<and> avl T \<and>
    inorder T = rows_before c @ inorder l @ inorder r @ rows_after c \<and>
    links_in (insert R (set_tree T)) h' a"
proof -
  let ?l = "plug ll sp"
  let ?T = "plug (Node ?l p r) c"
  have il: "inorder l = inorder ?l @ [p]" using l(1,2) by (simp add: inorder_plug)
  have rows: "inorder ?T = rows_before c @ inorder l @ inorder r @ rows_after c" by (simp add: inorder_plug il)
  from wf_focus[OF w] have f: "focus R h (Node l a r) c" and ca: "cached h (Node l a r)" by auto
  note d = focus_distinct[OF f]
  obtain l1 l2 where lx: "l = Node l1 x l2" using l(3) by (cases l) auto
  have "rep h a True l" using f by (auto simp: focus_def)
  then have "rightmost h x = Some (last (inorder l))" unfolding lx by (rule rightmost_rep)
  then have "rightmost h x = Some p" unfolding il by simp
  from swap_place[OF w l(1)] l(3) this obtain h6 n where
    h6: "unlink_double R h a x = after_swap R h6 n (par_of a sp) p" "same_info h h6" "focus R h6 (Node ?l p r) c"
      "h6 a = Some n" "tr_parent n = Some (par_of R c)" "tr_left n = ptr ?l" "tr_right n = ptr r" by metis
  have "cached h ll \<and> cachedc h sp" using ca l(1) cached_focus[of h "Node ll p Leaf" sp] by simp
  then have ch: "cached h6 ll" "cached h6 r" "cachedc h6 sp"
    using ca same_info_cached[OF h6(2)] same_info_cachedc[OF h6(2)] by simp_all
  have "set_tree ?T \<union> {a} = set_tree (plug (Node l a r) c)"
    using rows by (simp only: set_inorder[symmetric]) (simp add: inorder_plug)
  moreover have "a \<notin> set (inorder ?T)" unfolding rows using d by (auto simp: set_path_rows)
  ultimately have out: "a \<notin> insert R (set_tree ?T)" using d by auto
  from recount_swap[OF h6(3) ch h6(4-7) out] obtain h7 h8 where
    h8: "UpdateCounts R h6 (Some (par_of a sp)) = Some h7" "UpdateCounts R h7 (Some p) = Some h8"
      "same_data h6 h8" "wf_tab R h8 ?T" "links_in (insert R (set_tree ?T)) h8 a" by blast
  have avl: "avl (Node l a r)" using av avl_plug_focus by blast
  have avs: "avl (plug (Node ll p Leaf) sp)" using avl l(1) by simp
  then have avll: "avl ll" using avl_plug_focus by fastforce
  from shrink_along[OF avs, of ll] avll avs have shrink:
    "(avl ?l \<and> (height ?l = height l \<or> Suc (height ?l) = height l)) \<or> height ?l = height l"
    unfolding l(1)[symmetric] using avl_plug_focus[OF avs] by auto
  let ?V = "insert R (set_tree ?T)"
  have V: "set_tree (up (Node ?l p r) c) = set_tree ?T" by (rule set_up_list)
  have pV: "inside ?V (Some p)" using set_plug[of "Node ?l p r" c] by simp
  note o8 = RestructureRecursive_only[OF _ wf_closed[OF h8(4)] pV]
  have ppl: "par_of a sp = a \<or> par_of a sp \<in> set_tree ?l" using par_of_in[of a sp] set_plug[of ll sp] by auto
  then have ppT: "par_of a sp = a \<or> par_of a sp \<in> set_tree ?T" using set_plug[of "Node ?l p r" c] by auto
  show ?thesis
  proof (cases "avl ?l")
    case True
    let ?U = "up (Node ?l p r) c" and ?S = "restr (Node ?l p r)"
    have near: "near (height ?l) (height l)" using True shrink by (auto simp: near_def)
    from avl_fill[of "StepL p r" l ?l] avl True near have S: "avl ?S" "near (height ?S) (height (Node l a r))" by simp_all
    then have SS: "restr ?S = ?S" by simp
    have "settles (Node ?l p r) c" using settles_avl[OF av S] settles_restr[OF SS] by blast
    from RestructureRecursive_up[OF h8(4) this] obtain h9 where
      h9: "RestructureRecursive R h8 (Some p) = Some h9" "same_data h8 h9" "wf_tab R h9 ?U" by blast
    have U: "avl ?U" using avl_up[OF av S] up_restr[OF SS] by simp
    have L: "links_in ?V h9 a" using links_kept[OF h8(5) o8[OF h9(1)] out] .
    then obtain m where m: "h9 a = Some m" by (auto simp: links_in_def)
    have "same_data h6 h9" using same_data_trans[OF h8(3) h9(2)] .
    then have "tr_key m = tr_key n" using m h6(4) same_data_key by blast
    from Restructure_again[OF h9(3) U _ m this, of "par_of a sp"] ppT V out obtain h' where
      h': "(case h9 (par_of a sp) of None \<Rightarrow> None | Some PP \<Rightarrow>
        if tr_key PP \<noteq> tr_key n then RestructureRecursive R h9 (Some (par_of a sp)) else Some h9) = Some h'"
      "same_data h9 h'" "wf_tab R h' ?U" "only ?V h9 h'" by auto
    have "unlink_double R h a x = Some h'"
      using h6(1) h8(1,2) h9(1) h'(1) by (simp add: after_swap_def bind_split split: option.splits)
    moreover have "same_data h h'"
      using same_info_data[OF h6(2)] \<open>same_data h6 h9\<close> h'(2) same_data_trans by blast
    moreover have "links_in (insert R (set_tree ?U)) h' a" using links_kept[OF L h'(4) out] unfolding V .
    moreover have "inorder ?U = inorder ?T" by (simp only: inorder_up inorder_plug)
    ultimately show ?thesis using h'(3) U rows by metis
  next
    case False
    then have ne: "sp \<noteq> []" using avll by auto
    have hl: "height ?l = height l" using False shrink by simp
    have R1: "restr (Node ?l p r) = Node ?l p r" using avl hl by (intro restr_balanced) simp_all
    have R2: "height (Node ?l p r) = height (Node l a r)" using hl by simp
    from RestructureRecursive_up[OF h8(4) settles_same_height[OF av R1 R2]] up_same_height[OF av R1 R2]
    obtain h9 where h9: "RestructureRecursive R h8 (Some p) = Some h9" "same_data h8 h9" "wf_tab R h9 ?T" by auto
    let ?c = "sp @ StepL p r # c"
    have eq: "plug ll ?c = ?T" by (simp add: plug_append)
    have pp: "par_of a sp = par_of R ?c" using ne by (cases sp) simp_all
    have av': "avl (plug (Node ll p Leaf) ?c)"
      using avl_plug_cong[of "Node l p r" "Node l a r" c] av by (simp add: plug_append l(1))
    have nr: "near (height ll) (height (Node ll p Leaf))" by (simp add: near_def)
    from RestructureRecursive_par[OF h9(3)[folded eq] restr_avl[OF avll] settles_avl[OF av' avll nr]] obtain h' where
      h': "RestructureRecursive R h9 (Some (par_of a sp)) = Some h'" "same_data h9 h'" "wf_tab R h' (up ll ?c)"
      unfolding pp by blast
    have sd: "same_data h h9"
      using same_info_data[OF h6(2)] h8(3) h9(2) same_data_trans by blast
    have L: "links_in ?V h9 a" using links_kept[OF h8(5) o8[OF h9(1)] out] .
    have "par_of a sp \<in> set_tree l"
      using ppl ne par_of_in[of a sp] set_plug[of "Node ll p Leaf" sp] l(1) by (cases sp) auto
    moreover from f obtain n0 where n0: "h a = Some n0" and rl: "rep h a True l" by (auto simp: focus_def)
    ultimately obtain m where m0: "h (par_of a sp) = Some m" using rep_in[OF rl] by blast
    then obtain PP where "h9 (par_of a sp) = Some PP" using same_data_dom[OF sd] by blast
    note m = m0 n0 this and \<open>par_of a sp \<in> set_tree l\<close>
    then have "tr_key PP \<noteq> tr_key n"
      using m keys[of n0 "par_of a sp" m] \<open>par_of a sp \<in> set_tree l\<close> same_data_key[OF sd m(1,3)]
        same_data_key[OF same_info_data[OF h6(2)] m(2) h6(4)] by simp
    then have "unlink_double R h a x = Some h'"
      using h6(1) h8(1,2) h9(1) m(3) h'(1) by (simp add: after_swap_def)
    moreover have "same_data h h'" using same_data_trans[OF sd h'(2)] .
    moreover have "avl (up ll ?c)" using avl_up[OF av' avll nr] .
    moreover have V': "set_tree (up ll ?c) = set_tree ?T" using set_up_list[of ll ?c] eq by simp
    have "inside ?V (Some (par_of a sp))"
      using par_of_in[of R ?c] set_plug[of ll ?c] pp eq by auto
    from links_kept[OF L RestructureRecursive_only[OF h'(1) wf_closed[OF h9(3)] this] out]
    have "links_in (insert R (set_tree (up ll ?c))) h' a" unfolding V' .
    moreover have "inorder (up ll ?c) = inorder ?T" unfolding eq[symmetric] by (simp only: inorder_up inorder_plug)
    ultimately show ?thesis using h'(3) rows by metis
  qed
qed


text \<open>
  Every way through the unlinking part of \<open>TABLE_ROW_DELETE\<close>. The row itself keeps its store cell
  and still links to rows that are in the tree.
\<close>

theorem unlink_row_run:
  assumes w: "wf_tab R h (plug (Node l a r) c)" and av: "avl (plug (Node l a r) c)"
    and keys: "inj_on (key_of h) (set_tree (plug (Node l a r) c))"
  shows "\<exists>h' T. unlink_row R h a = Some h' \<and> same_data h h' \<and> wf_tab R h' T \<and> avl T \<and>
    inorder T = rows_before c @ inorder l @ inorder r @ rows_after c \<and>
    links_in (insert R (set_tree T)) h' a"
proof -
  from wf_focus[OF w] have f: "focus R h (Node l a r) c" by auto
  then obtain n where n: "h a = Some n" "tr_left n = ptr l" "tr_right n = ptr r" by (auto simp: focus_def)
  have simple: ?thesis if "(r = Leaf \<and> t = l) \<or> (l = Leaf \<and> t = r)" for t
  proof -
    have "unlink_row R h a = unlink_simple R h n (ptr t)"
      using n that by (cases l; cases r) (auto simp: unlink_row_def)
    moreover have "inorder (up t c) = rows_before c @ inorder l @ inorder r @ rows_after c"
      using that by (auto simp: inorder_up)
    ultimately show ?thesis using unlink_simple_run[OF w av that n(1)] by metis
  qed
  show ?thesis
  proof (cases "l = Leaf \<or> r = Leaf")
    case True
    then show ?thesis using simple by blast
  next
    case False
    then obtain x y where xy: "ptr l = Some x" "ptr r = Some y" by (cases l; cases r) auto
    obtain ll p sp where l: "l = plug (Node ll p Leaf) sp" "rows_after sp = []"
      using False rightmost_decomp by blast
    have "tr_key m \<noteq> tr_key n'" if "h a = Some n'" "h b = Some m" "b \<in> set_tree l" for b n' m
    proof -
      have "b \<noteq> a" "b \<in> set_tree (plug (Node l a r) c)" "a \<in> set_tree (plug (Node l a r) c)"
        using that(3) focus_distinct[OF f] set_plug[of "Node l a r" c] by auto
      then show ?thesis using keys that(1,2) unfolding inj_on_def key_of_def by force
    qed
    from unlink_double_run[OF w av l xy(1) this] show ?thesis
      using n xy by (simp add: unlink_row_def)
  qed
qed

end
