(* ===== verification/Key_Facts.thy ===== *)
theory Key_Facts
  imports Key_Unlink
begin

text \<open>
  The key table of \<^verbatim>\<open>common/ECKeyTable.cpp\<close> as a whole: what holds of every table that the operations
  build, and the lists of rows that tables stand for. Adding, changing and deleting rows,
  seeking and reading are described by functions on such lists.
\<close>

subsection \<open>Tables in good order\<close>

type_synonym row = "okey \<times> sortcol list \<times> bool"

definition row_of :: "heap \<Rightarrow> nat \<Rightarrow> row" where
  "row_of h a = (case h a of None \<Rightarrow> (zero_key, [], True) | Some n \<Rightarrow> (tr_key n, tr_cols n, tr_fHidden n))"

abbreviation row_key :: "row \<Rightarrow> okey" where "row_key r \<equiv> fst r"
abbreviation row_cols :: "row \<Rightarrow> sortcol list" where "row_cols r \<equiv> fst (snd r)"
abbreviation row_hidden :: "row \<Rightarrow> bool" where "row_hidden r \<equiv> snd (snd r)"

definition live :: "keytable \<Rightarrow> nat tree \<Rightarrow> nat set" where
  "live t T = insert (kt_root t) (set_tree T)"

text \<open>
  The store is a balanced tree \<open>T\<close> of row objects below the root row and holds no other object,
  addresses that are handed out later are free, the map finds every row by its id, and the
  cursor and the bookmarks are on live rows.
\<close>

definition kt_store :: "keytable \<Rightarrow> nat tree \<Rightarrow> bool" where
  "kt_store t T \<longleftrightarrow> wf_tab (kt_root t) (kt_heap t) T \<and> avl T \<and>
     (\<exists>R. kt_heap t (kt_root t) = Some R \<and> tr_key R = zero_key)"

definition kt_ok :: "keytable \<Rightarrow> nat tree \<Rightarrow> bool" where
  "kt_ok t T \<longleftrightarrow> kt_store t T \<and> dom (kt_heap t) = live t T \<and> (\<forall>a \<in> live t T. a < kt_next t) \<and>
     (\<forall>k a. kt_map t k = Some a \<longleftrightarrow> a \<in> set_tree T \<and> key_of (kt_heap t) a = k) \<and>
     inside (live t T) (kt_cur t) \<and> (\<forall>(bk, b) \<in> set (kt_bms t). inside (live t T) (bm_pos b))"

text \<open>The rows that a table shows, in the order of the tree, hidden rows included.\<close>

definition rows_of :: "keytable \<Rightarrow> nat tree \<Rightarrow> row list" where
  "rows_of t T = map (row_of (kt_heap t)) (inorder T)"

definition shows_rows :: "u8 list \<Rightarrow> keytable \<Rightarrow> row list \<Rightarrow> bool" where
  "shows_rows fl t xs \<longleftrightarrow> (\<exists>T. kt_ok t T \<and> xs = rows_of t T) \<and> rows.in_order fl (map row_cols xs)"

lemma row_of_simps [simp]:
  "row_key (row_of h a) = key_of h a" "row_cols (row_of h a) = cols_of h a" "row_hidden (row_of h a) \<longleftrightarrow> \<not> visible h a"
  by (auto simp: row_of_def key_of_def cols_of_def visible_def split: option.splits)

lemma row_of_data: "same_data h h' \<Longrightarrow> row_of h' a = row_of h a"
proof -
  assume "same_data h h'"
  then have "map_option payload (h' a) = map_option payload (h a)" by (simp add: same_data_def)
  then show ?thesis by (cases "h a"; cases "h' a") (simp_all add: row_of_def payload_def)
qed

lemma key_of_data: "same_data h h' \<Longrightarrow> key_of h' a = key_of h a"
  using row_of_data[of h h' a] by (metis row_of_simps(1))

lemma kt_wf: "kt_store t T \<Longrightarrow> wf_tab (kt_root t) (kt_heap t) T"
  by (simp add: kt_store_def)

lemma wf_distinct: "wf_tab R h T \<Longrightarrow> R \<notin> set_tree T \<and> distinct (inorder T)"
  by (simp add: wf_tab_def)

lemma kt_inj: "kt_ok t T \<Longrightarrow> inj_on (key_of (kt_heap t)) (set_tree T)"
  by (rule inj_onI) (metis kt_ok_def option.inject)

lemma wf_upd:
  assumes "wf_tab R h T" "b \<notin> insert R (set_tree T)"
  shows "wf_tab R (h(b := v)) T"
proof -
  have "vis (h(b := v)) (inorder T) = vis h (inorder T)"
    using assms(2) by (intro vis_frame) (auto simp: visible_def)
  moreover have "repc R (h(b := v)) (ptr T) []" using assms by (simp add: wf_tab_def)
  ultimately show ?thesis using assms by (auto simp: wf_tab_def simp del: repc.simps)
qed

subsection \<open>Adding a row\<close>

definition before_row :: "row \<Rightarrow> row \<Rightarrow> bool" where
  "before_row x y \<longleftrightarrow> rowcompare (row_cols x) (row_cols y)"

text \<open>The place of a new row: behind every row that it is not before.\<close>

definition place_row :: "row \<Rightarrow> row list \<Rightarrow> row list" where
  "place_row x xs = takeWhile (\<lambda>y. \<not> before_row x y) xs @ x # dropWhile (\<lambda>y. \<not> before_row x y) xs"

definition row_before :: "row \<Rightarrow> row list \<Rightarrow> okey" where
  "row_before x xs = last (zero_key # map row_key (takeWhile (\<lambda>y. \<not> before_row x y) xs))"

lemma take_drop_set: "set (takeWhile P xs) \<union> set (dropWhile P xs) = set xs"
  by (metis set_append takeWhile_dropWhile_id)

lemma sorted_dropWhile:
  "sorted_wrt (\<lambda>y z. P y \<longrightarrow> P z) xs \<Longrightarrow> \<forall>z \<in> set (dropWhile (\<lambda>y. \<not> P y) xs). P z"
proof (induction xs)
  case (Cons y xs)
  have p: "sorted_wrt (\<lambda>y z. P y \<longrightarrow> P z) xs" "\<forall>z \<in> set xs. P y \<longrightarrow> P z"
    using Cons.prems unfolding sorted_wrt.simps by blast+
  show ?case
  proof (cases "P y")
    case True
    then have "\<forall>z \<in> set xs. P z" using p(2) by blast
    then show ?thesis using True by simp
  next
    case False
    then show ?thesis using Cons.IH[OF p(1)] by (simp only: dropWhile.simps not_False_eq_True if_True)
  qed
qed simp

lemma place_among_rows:
  assumes "rows.in_order fl (map row_cols xs)" "fits fl (row_cols x)"
  shows "rows.in_order fl (map row_cols (place_row x xs))"
proof -
  let ?Q = "\<lambda>y. \<not> before_row x y"
  let ?ys = "takeWhile ?Q xs" and ?zs = "dropWhile ?Q xs"
  have "sorted_wrt (\<lambda>y z. before_row x y \<longrightarrow> before_row x z) xs"
    using rows.tail_before[OF assms] by (simp add: sorted_wrt_map before_row_def)
  then have "\<forall>z \<in> set ?zs. before_row x z" by (rule sorted_dropWhile)
  moreover have "\<forall>y \<in> set ?ys. \<not> before_row x y" using set_takeWhileD by (metis (no_types, lifting))
  ultimately have c: "\<forall>c \<in> set (map row_cols ?ys). \<not> rowcompare (row_cols x) c"
      "\<forall>c \<in> set (map row_cols ?zs). rowcompare (row_cols x) c"
    unfolding before_row_def set_map ball_simps by blast+
  have "map row_cols xs = map row_cols ?ys @ map row_cols ?zs" by (simp flip: map_append)
  from rows.place_in_order[OF assms this c]
  have "rows.in_order fl (map row_cols ?ys @ row_cols x # map row_cols ?zs)" .
  then show ?thesis by (simp only: place_row_def map_append list.map)
qed

theorem insert_row_ok:
  assumes ok: "kt_ok t T" and ord: "rows.in_order fl (map row_cols (rows_of t T))"
    and new: "fits fl cols" "kt_map t k = None"
  shows "\<exists>a t' T'. insert_row t (new_row k cols hid) =
      Some (row_before (k, cols, hid) (rows_of t T), a, t') \<and> kt_ok t' T' \<and> a \<in> set_tree T' \<and>
      rows_of t' T' = place_row (k, cols, hid) (rows_of t T) \<and> kt_cur t' = kt_cur t \<and> kt_bms t' = kt_bms t \<and>
      kt_root t' = kt_root t \<and> kt_bmpos t' = kt_bmpos t"
proof -
  let ?R = "kt_root t" and ?h = "kt_heap t" and ?a = "kt_next t" and ?n = "new_row k cols hid"
  define P where "P = (\<lambda>x. rowcompare cols (cols_of ?h x))"
  let ?d = "descend P T []"
  have w: "wf_tab ?R ?h T" and av: "avl T" using ok by (auto simp: kt_ok_def kt_store_def)
  have fp: "find_parent ?h ?n ?R = Some (par_of ?R ?d, side_of ?d)"
    using w by (intro find_parent_root) (auto simp: wf_tab_def new_row_def P_def)
  have srt: "sorted_wrt (\<lambda>x y. P x \<longrightarrow> P y) (inorder T)"
    using rows.tail_before[OF ord new(1)] by (simp add: sorted_wrt_map rows_of_def P_def)
  note pl = descend_rows[OF srt, of "[]"]
  let ?P = "\<lambda>y. \<not> before_row (k, cols, hid) y"
  have PQ: "?P (row_of ?h x) \<longleftrightarrow> \<not> P x" for x by (simp add: before_row_def P_def)
  have wh: "takeWhile ?P (rows_of t T) = map (row_of ?h) (takeWhile (\<lambda>x. \<not> P x) (inorder T))"
    "dropWhile ?P (rows_of t T) = map (row_of ?h) (dropWhile (\<lambda>x. \<not> P x) (inorder T))"
    by (simp_all add: rows_of_def takeWhile_map dropWhile_map comp_def before_row_def P_def)
  have free: "?h ?a = None" "?a \<notin> live t T" using ok by (auto simp: kt_ok_def dom_def)
  have "\<exists>P. ?h (par_of ?R ?d) = Some P" using w repc_par[of ?R ?h _ ?d] rep_plug[of ?R ?h Leaf ?d]
    by (metis plug_descend plug.simps(1) wf_tab_def)
  then obtain Q where Q: "?h (par_of ?R ?d) = Some Q" by blast
  have un: "unlinked ?n" by (simp add: unlinked_def new_row_def)
  have pd: "plug Leaf ?d = T" by simp
  from insert_at_place[OF _ _ free(1) un Q] w av obtain h' where
    h': "do { h \<leftarrow> set_child ?h (par_of ?R ?d) (side_of ?d) (Some ?a);
      let h = h(?a \<mapsto> ?n\<lparr>tr_parent := Some (par_of ?R ?d), tr_fLeft := side_of ?d\<rparr>);
      h \<leftarrow> UpdateCounts ?R h (Some ?a);
      RestructureRecursive ?R h (Some ?a) } = Some h'"
    "same_data (?h(?a \<mapsto> ?n)) h'" "wf_tab ?R h' (up (Node Leaf ?a Leaf) ?d)" "avl (up (Node Leaf ?a Leaf) ?d)"
    unfolding pd by blast
  let ?T = "up (Node Leaf ?a Leaf) ?d"
  let ?t = "t\<lparr>kt_heap := h', kt_map := (kt_map t)(k \<mapsto> ?a), kt_next := Suc ?a\<rparr>"
  have inT: "inorder ?T = takeWhile (\<lambda>x. \<not> P x) (inorder T) @ ?a # dropWhile (\<lambda>x. \<not> P x) (inorder T)"
    using pl by (simp add: inorder_up)
  have "set (inorder ?T) = insert ?a (set (inorder T))"
    unfolding inT using take_drop_set[of "\<lambda>x. \<not> P x" "inorder T"] by simp
  then have sT: "set_tree ?T = insert ?a (set_tree T)" by simp
  have row: "row_of h' x = (if x = ?a then (k, cols, hid) else row_of ?h x)" for x
    using row_of_data[OF h'(2), of x] by (simp add: row_of_def new_row_def)
  then have key: "key_of h' x = (if x = ?a then k else key_of ?h x)" for x
    by (metis fst_conv row_of_simps(1))
  have aT: "?a \<notin> set (inorder T)" using free(2) by (simp add: live_def)
  have rows: "rows_of ?t ?T = place_row (k, cols, hid) (rows_of t T)"
  proof -
    have "map (row_of h') xs = map (row_of ?h) xs" if "set xs \<subseteq> set (inorder T)" for xs
      using that aT row by (intro map_cong) auto
    moreover have "set (takeWhile (\<lambda>x. \<not> P x) (inorder T)) \<subseteq> set (inorder T)"
      "set (dropWhile (\<lambda>x. \<not> P x) (inorder T)) \<subseteq> set (inorder T)"
      using set_takeWhileD[of _ _ "inorder T"] set_dropWhileD[of _ _ "inorder T"] by blast+
    ultimately have "map (row_of h') (inorder ?T) = map (row_of ?h) (takeWhile (\<lambda>x. \<not> P x) (inorder T)) @
        (k, cols, hid) # map (row_of ?h) (dropWhile (\<lambda>x. \<not> P x) (inorder T))"
      unfolding inT using row[of ?a] by simp
    then show ?thesis unfolding place_row_def wh by (simp add: rows_of_def)
  qed
  have prev: "(if side_of ?d then prev_of_left ?h (par_of ?R ?d) else Some (tr_key Q)) =
      Some (row_before (k, cols, hid) (rows_of t T))"
  proof -
    have "repc ?R ?h None ?d" using w rep_plug[of ?R ?h Leaf ?d] by (simp add: wf_tab_def del: repc.simps)
    from prev_of_place[OF this Q] pl have
      "(if side_of ?d then prev_of_left ?h (par_of ?R ?d) else Some (tr_key Q)) =
        Some (key_of ?h (last (?R # takeWhile (\<lambda>x. \<not> P x) (inorder T))))" by simp
    also have "key_of ?h (last (?R # takeWhile (\<lambda>x. \<not> P x) (inorder T))) =
      last (map (key_of ?h) (?R # takeWhile (\<lambda>x. \<not> P x) (inorder T)))" by (subst last_map) simp_all
    also have "key_of ?h ?R = zero_key" using ok by (auto simp: kt_ok_def kt_store_def)
    then have "last (map (key_of ?h) (?R # takeWhile (\<lambda>x. \<not> P x) (inorder T))) = row_before (k, cols, hid) (rows_of t T)"
      unfolding row_before_def wh by (simp add: comp_def)
    finally show ?thesis .
  qed
  have "insert_row t ?n = Some (row_before (k, cols, hid) (rows_of t T), ?a, ?t)"
    using h'(1) fp Q prev by (auto simp: insert_row_def Let_def bind_eq_Some_conv new_row_def)
  moreover have "kt_ok ?t ?T"
  proof -
    have R: "?R \<noteq> ?a" using free(2) by (auto simp: live_def)
    have dm: "dom h' = insert ?a (dom ?h)" using same_data_dom[OF h'(2)] by simp
    then have lv: "dom h' = live ?t ?T" using ok sT by (auto simp: kt_ok_def live_def)
    obtain Q' where "h' ?R = Some Q'" using lv by (auto simp: live_def)
    moreover have "key_of h' ?R = zero_key" using key[of ?R] R ok by (auto simp: kt_ok_def kt_store_def)
    ultimately have st: "kt_store ?t ?T" using h'(3,4) by (simp add: kt_store_def)
    have mono: "inside (live t T) p \<Longrightarrow> inside (live ?t ?T) p" for p
      using sT by (auto simp: inside_def live_def)
    have "\<forall>x \<in> live ?t ?T. x < Suc ?a" using ok sT by (auto simp: kt_ok_def live_def)
    moreover have "kt_map ?t k' = Some x \<longleftrightarrow> x \<in> set_tree ?T \<and> key_of h' x = k'" for k' x
    proof -
      have m: "kt_map t k' = Some x \<longleftrightarrow> x \<in> set_tree T \<and> key_of ?h x = k'" for k' x
        using ok by (simp add: kt_ok_def)
      have "x \<in> set_tree T \<Longrightarrow> key_of ?h x \<noteq> k" using m[of k x] new(2) by simp
      then show ?thesis using m[of k' x] sT key[of x] aT by auto
    qed
    ultimately show ?thesis using st lv ok mono unfolding kt_ok_def by auto
  qed
  ultimately show ?thesis using rows sT by (intro exI[of _ ?a] exI[of _ ?t] exI[of _ ?T]) simp
qed

subsection \<open>Seeking\<close>

lemma row_split:
  assumes "a \<in> set_tree T"
  obtains xs ys where "inorder T = xs @ a # ys"
  using split_list[of a "inorder T"] assms by auto

text \<open>The number of the current row exists, also for a row that is no longer linked.\<close>

lemma CurrentRow_live:
  assumes w: "wf_tab (kt_root t) (kt_heap t) T" and p: "inside (live t T) p"
  shows "\<exists>c. CurrentRow t p = Some c"
proof (cases p)
  case None
  then show ?thesis using w by (auto simp: CurrentRow_def wf_tab_def)
next
  case (Some a)
  then consider "a = kt_root t" | "a \<in> set_tree T" using p by (auto simp: live_def)
  then show ?thesis
  proof cases
    case 1
    then show ?thesis using Some by (simp add: CurrentRow_def)
  next
    case 2
    then obtain xs ys where "inorder T = xs @ a # ys" by (rule row_split)
    from CurrentRow_row[OF w refl refl this] show ?thesis using Some by simp
  qed
qed

lemma wf_Some: "wf_tab R h T \<Longrightarrow> a \<in> insert R (set_tree T) \<Longrightarrow> \<exists>n. h a = Some n"
  using rep_in[of h R False T a] by (auto simp: wf_tab_def)

lemma CurrentRow_stale:
  assumes w: "wf_tab (kt_root t) (kt_heap t) T" and l: "links_in (live t T) (kt_heap t) a" and a: "a \<notin> live t T"
  shows "\<exists>c. CurrentRow t (Some a) = Some c"
proof -
  let ?h = "kt_heap t" and ?R = "kt_root t"
  from l obtain n where n: "?h a = Some n" "inside (live t T) (tr_parent n)" "inside (live t T) (tr_left n)"
    by (auto simp: links_in_def)
  have lc: "\<exists>lc. child_count ?h (tr_left n) = Some lc"
    using n(3) wf_Some[OF w] by (cases "tr_left n") (fastforce simp: child_count_def live_def)+
  have "\<exists>c. CurrentRow_loop ?R ?h a x = Some c" for x
  proof (cases "tr_parent n")
    case None
    then show ?thesis using n(1) by (subst CurrentRow_loop.simps) simp
  next
    case (Some p)
    show ?thesis
    proof (cases "p = ?R")
      case True
      then show ?thesis using n(1) Some by (subst CurrentRow_loop.simps) simp
    next
      case False
      then have p: "p \<in> set_tree T" using n(2) Some by (simp add: live_def)
      then obtain P where P: "?h p = Some P" using wf_Some[OF w] by blast
      from p obtain l r c where T: "T = plug (Node l p r) c" using plug_decompose[of p T] by auto
      from wf_focus[OF w[unfolded T]] w have "\<exists>c. CurrentRow_loop ?R ?h p y = Some c" for y
        unfolding T using CurrentRow_loop_rep[of ?R ?h l p r c] by (auto simp: wf_tab_def)
      then show ?thesis using n(1) Some False P by (subst CurrentRow_loop.simps) simp
    qed
  qed
  then show ?thesis using n(1) lc a by (auto simp: CurrentRow_def live_def)
qed

text \<open>A seek ends, with the cursor on a live row or past the end.\<close>

lemma SeekRow_total:
  assumes w: "wf_tab (kt_root t) (kt_heap t) T" and cur: "CurrentRow t (kt_cur t) = Some c"
    and bk: "\<And>b. orig = SeekBookmark b \<Longrightarrow> GetBookmark t b \<noteq> None"
  shows "\<exists>er s p. SeekRow t orig d = Some (er, s, t\<lparr>kt_cur := p\<rparr>) \<and>
    (inside (live t T) p \<or> (p = kt_cur t \<and> (\<exists>b. orig = SeekBookmark b)))"
proof -
  obtain R where R: "kt_heap t (kt_root t) = Some R" "tr_right R = ptr T" "tr_count R = vis (kt_heap t) (inorder T)"
    using w by (auto simp: wf_tab_def)
  have rc: "GetRowCount t = Some (tr_count R, c)" using cur R(1) by (simp add: GetRowCount_def)
  have loop: "\<exists>p. SeekRow_loop (kt_heap t) x k = Some p \<and> inside (live t T) p" if "ptr T = Some x" for x k
  proof -
    from SeekRow_loop_rep[OF _ _ that, of "kt_heap t" "kt_root t" False k] w obtain res where
      "SeekRow_loop (kt_heap t) x k = Some res"
      "case res of Some x \<Rightarrow> \<exists>xs ys. inorder T = xs @ x # ys \<and> vis (kt_heap t) xs = k | None \<Rightarrow> vis (kt_heap t) (inorder T) \<le> k"
      unfolding wf_tab_def by blast
    moreover have "x \<in> set_tree T" if "inorder T = xs @ x # ys" for x xs ys
      using that by (metis in_set_conv_decomp set_inorder)
    ultimately show ?thesis by (cases res) (auto simp: live_def)
  qed
  define G where "G = (\<lambda>(er :: ecresult) (s0 :: int) k. if tr_count R = 0 then Some (er, Some s0, t\<lparr>kt_cur := Some (kt_root t)\<rparr>)
      else do { R \<leftarrow> kt_heap t (kt_root t); top \<leftarrow> tr_right R; p \<leftarrow> SeekRow_loop (kt_heap t) top k;
                Some (er, Some s0, t\<lparr>kt_cur := p\<rparr>) })"
  have goal: "\<exists>s p. G er s0 k = Some (er, s, t\<lparr>kt_cur := p\<rparr>) \<and> inside (live t T) p" for er s0 k
  proof (cases "tr_count R = 0")
    case True
    then show ?thesis by (intro exI[of _ "Some s0"] exI[of _ "Some (kt_root t)"]) (simp add: live_def G_def)
  next
    case False
    then obtain x where x: "ptr T = Some x" using R(3) by (cases T) auto
    from loop[OF x, of k] show ?thesis using False R x by (auto simp: G_def)
  qed
  have "((\<exists>er. SeekRow t orig d = Some (er, None, t)) \<and> (\<exists>b. orig = SeekBookmark b)) \<or> (\<exists>er s0 k. SeekRow t orig d = G er s0 k)"
  proof (cases orig)
    case (SeekBookmark b)
    then obtain er pos where g: "GetBookmark t b = Some (er, pos)" using bk[of b] by auto
    show ?thesis
    proof (cases pos)
      case None
      then show ?thesis using SeekBookmark g rc by (simp add: SeekRow_def)
    next
      case (Some k)
      show ?thesis
        by (rule disjI2, simp only: SeekRow_def rc SeekBookmark g Some bind.bind_lunit prod.case seek_origin.case
            option.case option.map Let_def G_def) (intro exI, rule refl)
    qed
  qed (rule disjI2, simp only: SeekRow_def rc bind.bind_lunit prod.case seek_origin.case
            option.case option.map Let_def G_def, intro exI, rule refl)+
  then show ?thesis
  proof (elim disjE exE conjE)
    fix er b assume "SeekRow t orig d = Some (er, None, t)" "orig = SeekBookmark b"
    then have "SeekRow t orig d = Some (er, None, t\<lparr>kt_cur := kt_cur t\<rparr>)" by simp
    then show ?thesis using \<open>orig = SeekBookmark b\<close> by (intro exI) auto
  next
    fix er s0 k assume "SeekRow t orig d = G er s0 k"
    then show ?thesis using goal[of er s0 k] by auto
  qed
qed

subsection \<open>Deleting a row\<close>

lemma seek_cur_total:
  assumes "wf_tab (kt_root t) (kt_heap t) T" "CurrentRow t (kt_cur t) = Some c"
  shows "\<exists>p. seek_to t EC_SEEK_CUR d = Some (t\<lparr>kt_cur := p\<rparr>) \<and> inside (live t T) p"
  using SeekRow_total[OF assms, of EC_SEEK_CUR d] by (auto simp: seek_to_def)

text \<open>The cursor after the row under it has been unlinked: two seeks that start at the unlinked row.\<close>

lemma move_cursor:
  assumes w: "wf_tab (kt_root t) (kt_heap t) T" and l: "links_in (live t T) (kt_heap t) a" "a \<notin> live t T"
    and cur: "kt_cur t = Some a \<or> inside (live t T) (kt_cur t)"
  shows "\<exists>p. (if kt_cur t = Some a then do { t \<leftarrow> seek_to t EC_SEEK_CUR (-1); seek_to t EC_SEEK_CUR 1 } else Some t) =
      Some (t\<lparr>kt_cur := p\<rparr>) \<and> inside (live t T) p \<and> (kt_cur t \<noteq> Some a \<longrightarrow> p = kt_cur t)"
proof (cases "kt_cur t = Some a")
  case True
  obtain c where "CurrentRow t (kt_cur t) = Some c" using CurrentRow_stale[OF w l] True by auto
  from seek_cur_total[OF w this] obtain p where
    p: "seek_to t EC_SEEK_CUR (-1) = Some (t\<lparr>kt_cur := p\<rparr>)" "inside (live t T) p" by blast
  let ?t = "t\<lparr>kt_cur := p\<rparr>"
  have w': "wf_tab (kt_root ?t) (kt_heap ?t) T" "inside (live ?t T) (kt_cur ?t)" using w p(2) by (simp_all add: live_def)
  from CurrentRow_live[OF w'] obtain c' where "CurrentRow ?t (kt_cur ?t) = Some c'" by blast
  from seek_cur_total[OF w'(1) this, of 1] show ?thesis using True p by (auto simp: live_def)
next
  case False
  then show ?thesis using cur by (intro exI[of _ "kt_cur t"]) auto
qed

lemma map_without:
  assumes "inorder T = xs @ a # ys" "inorder T' = xs @ ys" "distinct (inorder T)"
    "inj_on (key_of h) (set_tree T)" "key_of h a = k" "\<And>x. x \<noteq> a \<Longrightarrow> row_of h' x = row_of h x"
  shows "map (row_of h') (inorder T') = filter (\<lambda>r. row_key r \<noteq> k) (map (row_of h) (inorder T))"
proof -
  have "a \<in> set (inorder T)" using assms(1) by simp
  then have aT: "a \<in> set_tree T" by simp
  have other: "key_of h x \<noteq> k" if "x \<in> set (xs @ ys)" for x
  proof -
    have "x \<noteq> a" "x \<in> set (inorder T)" using that assms(1,3) by auto
    then show ?thesis using inj_onD[OF assms(4), of x a] aT assms(5) by auto
  qed
  have "map (row_of h') (xs @ ys) = map (row_of h) (xs @ ys)"
    using assms(1,3) by (intro map_cong refl assms(6)) auto
  moreover have "filter (\<lambda>r. row_key r \<noteq> k) (map (row_of h) (xs @ ys)) = map (row_of h) (xs @ ys)"
  proof (rule filter_True, rule ballI)
    fix r assume "r \<in> set (map (row_of h) (xs @ ys))"
    then obtain x where "x \<in> set (xs @ ys)" "r = row_of h x" unfolding set_map by blast
    then show "row_key r \<noteq> k" using other[of x] by simp
  qed
  ultimately show ?thesis using assms(1,2,5) by simp
qed

theorem delete_row_ok:
  assumes ok: "kt_ok t T" and k: "kt_map t k = Some a"
  shows "\<exists>t' T'. delete_row t k = Some (erSuccess, t') \<and> kt_ok t' T' \<and>
    rows_of t' T' = filter (\<lambda>r. row_key r \<noteq> k) (rows_of t T) \<and> kt_map t' = (kt_map t)(k := None) \<and>
    kt_root t' = kt_root t \<and> (kt_cur t \<noteq> Some a \<longrightarrow> kt_cur t' = kt_cur t)"
proof -
  let ?R = "kt_root t" and ?h = "kt_heap t"
  have w: "wf_tab ?R ?h T" and av: "avl T" using ok by (auto simp: kt_ok_def kt_store_def)
  have aT: "a \<in> set_tree T" and ka: "key_of ?h a = k" using ok k by (auto simp: kt_ok_def)
  from aT obtain l r c where T: "T = plug (Node l a r) c" using plug_decompose[of a T] by auto
  from unlink_row_run[of ?R ?h l a r c] w av kt_inj[OF ok] obtain h' T' where
    h': "unlink_row ?R ?h a = Some h'" "same_data ?h h'" "wf_tab ?R h' T'" "avl T'"
      "inorder T' = (rows_before c @ inorder l) @ inorder r @ rows_after c" "links_in (insert ?R (set_tree T')) h' a"
    unfolding T by auto
  let ?xs = "rows_before c @ inorder l" and ?ys = "inorder r @ rows_after c"
  have inT: "inorder T = ?xs @ a # ?ys" unfolding T by (simp add: inorder_plug)
  have dist: "distinct (?xs @ a # ?ys)" "?R \<notin> set_tree T" using wf_distinct[OF w] inT by simp_all
  have sT: "set_tree T' = set_tree T - {a}"
    using dist(1) inT h'(5) by (simp only: set_inorder[symmetric]) auto
  have lv: "live t T' = live t T - {a}" using sT dist(2) aT by (auto simp: live_def)
  define t1 where "t1 = t\<lparr>kt_heap := h'\<rparr>"
  have "wf_tab (kt_root t1) (kt_heap t1) T'" "links_in (live t1 T') (kt_heap t1) a" "a \<notin> live t1 T'"
      "kt_cur t1 = Some a \<or> inside (live t1 T') (kt_cur t1)"
    using h' lv ok by (auto simp: t1_def live_def kt_ok_def inside_def)
  from move_cursor[OF this] obtain p where p:
    "(if kt_cur t1 = Some a then do { t \<leftarrow> seek_to t1 EC_SEEK_CUR (-1); seek_to t EC_SEEK_CUR 1 } else Some t1) =
      Some (t1\<lparr>kt_cur := p\<rparr>)" "inside (live t T') p" "kt_cur t \<noteq> Some a \<longrightarrow> p = kt_cur t"
    by (auto simp: t1_def live_def)
  let ?t = "t\<lparr>kt_heap := h'(a := None), kt_cur := p, kt_map := (kt_map t)(k := None),
      kt_bms := filter (\<lambda>(_, b). bm_pos b \<noteq> Some a) (kt_bms t)\<rparr>"
  have run: "delete_row t k = Some (erSuccess, ?t)"
  proof -
    have "delete_row t k = do {
        t \<leftarrow> (if kt_cur t1 = Some a then do { t \<leftarrow> seek_to t1 EC_SEEK_CUR (-1); seek_to t EC_SEEK_CUR 1 } else Some t1);
        let t = InvalidateBookmark t a;
        Some (erSuccess, t\<lparr>kt_heap := (kt_heap t)(a := None), kt_map := (kt_map t)(k := None)\<rparr>) }"
      by (simp add: delete_row_def k h'(1) t1_def Let_def)
    then show ?thesis unfolding p(1) by (simp add: InvalidateBookmark_def t1_def)
  qed
  have row: "row_of (h'(a := None)) x = row_of ?h x" if "x \<noteq> a" for x
    using row_of_data[OF h'(2), of x] that by (simp add: row_of_def)
  then have key: "key_of (h'(a := None)) x = key_of ?h x" if "x \<noteq> a" for x
    using that by (metis row_of_simps(1))
  have rows: "rows_of ?t T' = filter (\<lambda>r. row_key r \<noteq> k) (rows_of t T)"
    using map_without[OF inT h'(5) _ kt_inj[OF ok] ka row] wf_distinct[OF w] by (simp add: rows_of_def)
  have "kt_ok ?t T'"
  proof -
    have R: "?R \<noteq> a" using dist(2) aT by auto
    have "a \<notin> insert ?R (set_tree T')" using R sT by auto
    note w' = wf_upd[OF h'(3) this, of None]
    obtain Q where "(h'(a := None)) ?R = Some Q" using wf_Some[OF w', of ?R] by auto
    moreover have "key_of (h'(a := None)) ?R = zero_key" using key[of ?R] R ok by (auto simp: kt_ok_def kt_store_def)
    ultimately have st: "kt_store ?t T'" using w' h'(4) by (simp add: kt_store_def)
    have 1: "dom (kt_heap ?t) = live ?t T'"
      using same_data_dom[OF h'(2)] ok lv by (auto simp: kt_ok_def live_def)
    have 2: "\<forall>x \<in> live ?t T'. x < kt_next ?t" using ok sT by (auto simp: kt_ok_def live_def)
    have 3: "kt_map ?t k' = Some x \<longleftrightarrow> x \<in> set_tree T' \<and> key_of (h'(a := None)) x = k'" for k' x
    proof -
      have m: "kt_map t k' = Some x \<longleftrightarrow> x \<in> set_tree T \<and> key_of ?h x = k'" for k' x
        using ok by (simp add: kt_ok_def)
      show ?thesis
      proof (cases "k' = k")
        case True
        have "\<not> (x \<in> set_tree T' \<and> key_of (h'(a := None)) x = k)"
        proof
          assume x: "x \<in> set_tree T' \<and> key_of (h'(a := None)) x = k"
          then have "x \<in> set_tree T" "x \<noteq> a" unfolding sT by blast+
          moreover from this have "key_of ?h x = k" using x key by metis
          ultimately show False using m k by (metis option.inject)
        qed
        then show ?thesis unfolding True by simp
      next
        case False
        have "kt_map t k' \<noteq> Some a" using m[of k' a] ka False by metis
        then have "kt_map t k' = Some x \<longleftrightarrow> x \<in> set_tree T' \<and> key_of (h'(a := None)) x = k'"
          unfolding sT m Diff_iff singleton_iff using key[of x] by metis
        then show ?thesis using False by simp
      qed
    qed
    have 4: "inside (live ?t T') (kt_cur ?t)" using p(2) by (simp add: live_def)
    have 5: "\<forall>(bk, b) \<in> set (kt_bms ?t). inside (live ?t T') (bm_pos b)"
    proof -
      have "inside (live t T') p" if "inside (live t T) p" "p \<noteq> Some a" for p
        using that lv by (auto simp: inside_def)
      moreover have "live ?t T' = live t T'" by (simp add: live_def)
      moreover have "\<forall>(bk, b) \<in> set (kt_bms t). inside (live t T) (bm_pos b)" using ok by (simp add: kt_ok_def)
      ultimately show ?thesis by fastforce
    qed
    show ?thesis unfolding kt_ok_def
      by (rule conjI[OF st conjI[OF 1 conjI[OF 2 conjI[OF _ conjI[OF 4 5]]]]]) (intro allI, subst 3, simp)
  qed
  then show ?thesis using run rows p(3) by (intro exI[of _ ?t] exI[of _ T']) simp
qed

subsection \<open>\<open>UpdateRow\<close> on lists of rows\<close>

definition find_row :: "okey \<Rightarrow> row list \<Rightarrow> row option" where
  "find_row k xs = find (\<lambda>r. row_key r = k) xs"

definition remove_row :: "okey \<Rightarrow> row list \<Rightarrow> row list" where
  "remove_row k xs = filter (\<lambda>r. row_key r \<noteq> k) xs"

definition same_place :: "row \<Rightarrow> row \<Rightarrow> bool" where
  "same_place x y \<longleftrightarrow> \<not> before_row x y \<and> \<not> before_row y x"

text \<open>
  The rows after an update. A row that is already there and does not move is left alone, also
  where its hidden flag or a part of its sort key that does not matter for the order is new.
\<close>

definition updated_rows :: "update_type \<Rightarrow> row \<Rightarrow> row list \<Rightarrow> row list" where
  "updated_rows ty x xs =
     (case ty of TABLE_OTHER \<Rightarrow> xs
      | TABLE_ROW_DELETE \<Rightarrow> remove_row (row_key x) xs
      | _ \<Rightarrow> (case find_row (row_key x) xs of None \<Rightarrow> place_row x xs
              | Some y \<Rightarrow> if same_place y x then xs else place_row x (remove_row (row_key x) xs)))"

text \<open>What the caller is told: the code, the row before and the action.\<close>

definition update_report :: "update_type \<Rightarrow> row \<Rightarrow> row list \<Rightarrow> ecresult \<times> okey option \<times> update_type option" where
  "update_report ty x xs =
     (case ty of TABLE_OTHER \<Rightarrow> (erSuccess, None, None)
      | TABLE_ROW_DELETE \<Rightarrow>
          (case find_row (row_key x) xs of None \<Rightarrow> (ZARAFA_E_NOT_FOUND, None, None)
           | Some y \<Rightarrow> (erSuccess, None, Some TABLE_ROW_DELETE))
      | _ \<Rightarrow>
          (case find_row (row_key x) xs of
             None \<Rightarrow> (erSuccess, Some (row_before x xs), Some TABLE_ROW_ADD)
           | Some y \<Rightarrow>
               (erSuccess,
                Some (if same_place y x
                      then last (zero_key # map row_key (takeWhile (\<lambda>r. row_key r \<noteq> row_key x) xs))
                      else row_before x (remove_row (row_key x) xs)),
                Some TABLE_ROW_MODIFY)))"

lemma find_row_map:
  assumes "kt_ok t T"
  shows "find_row k (rows_of t T) = map_option (row_of (kt_heap t)) (kt_map t k)"
proof (cases "kt_map t k")
  case None
  have "row_key r \<noteq> k" if "r \<in> set (rows_of t T)" for r
  proof -
    from that obtain a where "a \<in> set_tree T" "r = row_of (kt_heap t) a" by (auto simp: rows_of_def)
    moreover have "kt_map t k = Some a \<longleftrightarrow> a \<in> set_tree T \<and> key_of (kt_heap t) a = k" for a
      using assms by (simp add: kt_ok_def)
    ultimately show ?thesis using None by (metis option.distinct(1) row_of_simps(1))
  qed
  then have "find_row k (rows_of t T) = None" unfolding find_row_def find_None_iff by blast
  then show ?thesis using None by simp
next
  case (Some a)
  have m: "kt_map t k = Some b \<longleftrightarrow> b \<in> set_tree T \<and> key_of (kt_heap t) b = k" for b
    using assms by (simp add: kt_ok_def)
  then have a: "a \<in> set_tree T" "key_of (kt_heap t) a = k" using Some by blast+
  have "find (\<lambda>r. row_key r = k) (map (row_of (kt_heap t)) bs) = Some (row_of (kt_heap t) a)"
    if "a \<in> set bs" "set bs \<subseteq> set_tree T" for bs
    using that
  proof (induction bs)
    case (Cons b bs)
    show ?case
    proof (cases "key_of (kt_heap t) b = k")
      case True
      then have "b = a" using m[of b] Some Cons.prems(2) by simp
      then show ?thesis using True by simp
    next
      case False
      then show ?thesis using Cons a(2) by auto
    qed
  qed simp
  from this[of "inorder T"] show ?thesis using a(1) Some by (simp add: find_row_def rows_of_def)
qed

lemma prev_of_row_ok:
  assumes ok: "kt_ok t T" and k: "kt_map t k = Some a"
  shows "prev_of_row (kt_heap t) a =
    Some (last (zero_key # map row_key (takeWhile (\<lambda>r. row_key r \<noteq> k) (rows_of t T))))"
proof -
  let ?R = "kt_root t" and ?h = "kt_heap t"
  have w: "wf_tab ?R ?h T" using ok by (auto simp: kt_ok_def kt_store_def)
  have aT: "a \<in> set_tree T" and ka: "key_of ?h a = k" using ok k by (auto simp: kt_ok_def)
  from aT obtain l r c where T: "T = plug (Node l a r) c" using plug_decompose[of a T] by auto
  let ?xs = "rows_before c @ inorder l"
  have inT: "inorder T = ?xs @ a # inorder r @ rows_after c" unfolding T by (simp add: inorder_plug)
  have "key_of ?h x \<noteq> k" if "x \<in> set ?xs" for x
  proof -
    have "x \<noteq> a" "x \<in> set (inorder T)" using that wf_distinct[OF w] inT by auto
    then show ?thesis using inj_onD[OF kt_inj[OF ok], of x a] aT ka by auto
  qed
  then have "takeWhile (\<lambda>x. key_of ?h x \<noteq> k) (inorder T) = ?xs"
    unfolding inT using ka by (subst takeWhile_append2) auto
  then have tw: "map row_key (takeWhile (\<lambda>r. row_key r \<noteq> k) (rows_of t T)) = map (key_of ?h) ?xs"
    by (simp add: rows_of_def takeWhile_map comp_def)
  have "key_of ?h ?R = zero_key" using ok by (auto simp: kt_ok_def kt_store_def)
  then have "key_of ?h (last (?R # ?xs)) = last (zero_key # map (key_of ?h) ?xs)"
    by (metis last_map list.distinct(1) list.simps(9))
  moreover have "focus ?R ?h (Node l a r) c" using wf_focus w unfolding T by blast
  ultimately show ?thesis using prev_of_row_focus[of ?R ?h l a r c] unfolding tw by simp
qed

lemma kt_ok_cur: "kt_ok t T \<Longrightarrow> inside (live t T) p \<Longrightarrow> kt_ok (t\<lparr>kt_cur := p\<rparr>) T"
  by (simp add: kt_ok_def kt_store_def live_def)

lemma rows_of_cur [simp]: "rows_of (t\<lparr>kt_cur := p\<rparr>) T = rows_of t T"
  by (simp add: rows_of_def)

lemma remove_in_order: "rows.in_order fl (map row_cols xs) \<Longrightarrow> rows.in_order fl (map row_cols (remove_row k xs))"
  unfolding rows.in_order_def remove_row_def by (induction xs) auto

lemma UpdateRow_add:
  assumes ok: "kt_ok t T" and ord: "rows.in_order fl (map row_cols (rows_of t T))" and new: "fits fl cols"
    and k: "kt_map t k = None" and ty: "ty = TABLE_ROW_ADD \<or> ty = TABLE_ROW_MODIFY"
  shows "\<exists>res. UpdateRow t ty k cols hid = Some res \<and>
    (ur_er res, ur_prev res, ur_action res) = update_report ty (k, cols, hid) (rows_of t T) \<and>
    shows_rows fl (ur_table res) (updated_rows ty (k, cols, hid) (rows_of t T))"
proof -
  from insert_row_ok[OF ok ord new k] obtain a t' T' where
    i: "insert_row t (new_row k cols hid) = Some (row_before (k, cols, hid) (rows_of t T), a, t')" "kt_ok t' T'"
      "rows_of t' T' = place_row (k, cols, hid) (rows_of t T)" by blast
  have f: "find_row k (rows_of t T) = None" using find_row_map[OF ok] k by simp
  have "shows_rows fl t' (place_row (k, cols, hid) (rows_of t T))"
    unfolding shows_rows_def using i(2,3) place_among_rows[OF ord, of "(k, cols, hid)"] new by auto
  then show ?thesis
    using ty i(1) k f by (auto simp: UpdateRow_def update_report_def updated_rows_def Let_def)
qed

lemma UpdateRow_modify:
  assumes ok: "kt_ok t T" and ord: "rows.in_order fl (map row_cols (rows_of t T))" and new: "fits fl cols"
    and k: "kt_map t k = Some old" and ty: "ty = TABLE_ROW_ADD \<or> ty = TABLE_ROW_MODIFY"
  shows "\<exists>res. UpdateRow t ty k cols hid = Some res \<and>
    (ur_er res, ur_prev res, ur_action res) = update_report ty (k, cols, hid) (rows_of t T) \<and>
    shows_rows fl (ur_table res) (updated_rows ty (k, cols, hid) (rows_of t T))"
proof -
  let ?x = "(k, cols, hid)" and ?n = "new_row k cols hid"
  from ok k have old: "old \<in> set_tree T" "key_of (kt_heap t) old = k" by (auto simp: kt_ok_def)
  have w: "wf_tab (kt_root t) (kt_heap t) T" using ok by (auto simp: kt_ok_def kt_store_def)
  then obtain n where n: "kt_heap t old = Some n" "\<not> tr_fRoot n"
    using rep_in[of "kt_heap t" "kt_root t" False T old] old(1) by (auto simp: wf_tab_def)
  have f: "find_row k (rows_of t T) = Some (row_of (kt_heap t) old)" using find_row_map[OF ok] k by simp
  have cmp: "rowcompare_rows n ?n = before_row (row_of (kt_heap t) old) ?x"
    "rowcompare_rows ?n n = before_row ?x (row_of (kt_heap t) old)"
    using n by (simp_all add: rowcompare_rows_def new_row_def before_row_def cols_of_def)
  show ?thesis
  proof (cases "same_place (row_of (kt_heap t) old) ?x")
    case True
    then have "UpdateRow t ty k cols hid = Some \<lparr>ur_er = erSuccess,
        ur_prev = Some (last (zero_key # map row_key (takeWhile (\<lambda>r. row_key r \<noteq> k) (rows_of t T)))),
        ur_action = Some TABLE_ROW_MODIFY, ur_table = t\<rparr>"
      using ty k n(1) cmp prev_of_row_ok[OF ok k]
      by (auto simp: UpdateRow_def Let_def same_place_def)
    then show ?thesis
      using ty f True ok ord by (auto simp: update_report_def updated_rows_def shows_rows_def)
  next
    case False
    from delete_row_ok[OF ok k] obtain t1 T1 where
      d: "delete_row t k = Some (erSuccess, t1)" "kt_ok t1 T1" "rows_of t1 T1 = remove_row k (rows_of t T)"
        "kt_map t1 = (kt_map t)(k := None)" by (auto simp: remove_row_def)
    have ord1: "rows.in_order fl (map row_cols (rows_of t1 T1))" using remove_in_order[OF ord] d(3) by simp
    have "kt_map t1 k = None" using d(4) by simp
    from insert_row_ok[OF d(2) ord1 new this] obtain a t2 T2 where
      i: "insert_row t1 ?n = Some (row_before ?x (rows_of t1 T1), a, t2)" "kt_ok t2 T2"
        "rows_of t2 T2 = place_row ?x (rows_of t1 T1)" "a \<in> set_tree T2" by blast
    let ?t = "if kt_cur t = Some old then t2\<lparr>kt_cur := Some a\<rparr> else t2"
    have run: "UpdateRow t ty k cols hid = Some \<lparr>ur_er = erSuccess, ur_prev = Some (row_before ?x (rows_of t1 T1)),
        ur_action = Some TABLE_ROW_MODIFY, ur_table = ?t\<rparr>"
      using ty k n(1) cmp False d(1) i(1) by (auto simp: UpdateRow_def Let_def same_place_def)
    have "inside (live t2 T2) (Some a)" using i(4) by (simp add: live_def)
    then have "kt_ok ?t T2" "rows_of ?t T2 = rows_of t2 T2" using i(2) kt_ok_cur by auto
    moreover have "rows.in_order fl (map row_cols (place_row ?x (rows_of t1 T1)))"
      using place_among_rows[OF ord1] new by simp
    ultimately have "shows_rows fl ?t (place_row ?x (remove_row k (rows_of t T)))"
      unfolding shows_rows_def using i(3) d(3) by metis
    then show ?thesis using run ty f False d(3) by (auto simp: update_report_def updated_rows_def)
  qed
qed

lemma UpdateRow_step:
  assumes "shows_rows fl t xs" "fits fl cols"
  shows "\<exists>res. UpdateRow t ty k cols hid = Some res \<and>
    (ur_er res, ur_prev res, ur_action res) = update_report ty (k, cols, hid) xs \<and>
    shows_rows fl (ur_table res) (updated_rows ty (k, cols, hid) xs)"
proof -
  from assms(1) obtain T where T: "kt_ok t T" "xs = rows_of t T" and ord: "rows.in_order fl (map row_cols xs)"
    by (auto simp: shows_rows_def)
  note f = find_row_map[OF T(1), of k]
  show ?thesis
  proof (cases "ty = TABLE_ROW_ADD \<or> ty = TABLE_ROW_MODIFY")
    case True
    then show ?thesis
      using UpdateRow_add[OF T(1) _ assms(2) _ True] UpdateRow_modify[OF T(1) _ assms(2) _ True] ord
      unfolding T(2) by (cases "kt_map t k") blast+
  next
    case False
    then consider "ty = TABLE_OTHER" | "ty = TABLE_ROW_DELETE" by (cases ty) auto
    then show ?thesis
    proof cases
      case 1
      then show ?thesis using assms(1) by (auto simp: UpdateRow_def update_report_def updated_rows_def)
    next
      case 2
      show ?thesis
      proof (cases "kt_map t k")
        case None
        then have "remove_row k xs = xs" using f unfolding T(2)
          by (auto simp: remove_row_def find_row_def find_None_iff intro!: filter_True)
        then show ?thesis using 2 None f assms(1) unfolding T(2)
          by (auto simp: UpdateRow_def update_report_def updated_rows_def delete_row_def)
      next
        case (Some a)
        from delete_row_ok[OF T(1) Some] obtain t' T' where
          d: "delete_row t k = Some (erSuccess, t')" "kt_ok t' T'" "rows_of t' T' = remove_row k xs"
          by (auto simp: remove_row_def T(2))
        then have "shows_rows fl t' (remove_row k xs)"
          unfolding shows_rows_def using remove_in_order[OF ord] by metis
        then show ?thesis using 2 Some f d(1) unfolding T(2)
          by (auto simp: UpdateRow_def update_report_def updated_rows_def)
      qed
    qed
  qed
qed

text \<open>
  C11: on a table that shows the rows \<open>xs\<close> in the row order, every call of \<open>UpdateRow\<close> with a fitting
  sort key ends without touching a freed row, answers and reports the row before as the list
  functions say, and leaves a table that shows the updated list, in order again, as a balanced tree
  with right row counts, a complete map of ids and a valid cursor and valid bookmarks.
\<close>

theorem UpdateRow_lists:
  assumes "shows_rows fl t xs" "fits fl cols"
  shows "\<exists>res. UpdateRow t ty k cols hid = Some res \<and>
    (ur_er res, ur_prev res, ur_action res) = update_report ty (k, cols, hid) xs \<and>
    shows_rows fl (ur_table res) (updated_rows ty (k, cols, hid) xs)"
  using UpdateRow_step assms by blast

subsection \<open>Any sequence of updates\<close>

definition key_step :: "update_type \<times> row \<Rightarrow> keytable \<Rightarrow> ((ecresult \<times> okey option \<times> update_type option) \<times> keytable) option" where
  "key_step = (\<lambda>(ty, k, cols, hid) t.
     map_option (\<lambda>res. ((ur_er res, ur_prev res, ur_action res), ur_table res)) (UpdateRow t ty k cols hid))"

definition key_spec :: "update_type \<times> row \<Rightarrow> row list \<Rightarrow> (ecresult \<times> okey option \<times> update_type option) \<times> row list" where
  "key_spec = (\<lambda>(ty, x) xs. (update_report ty x xs, updated_rows ty x xs))"

interpretation kts: implements "\<lambda>(ty, x). fits fl (row_cols x)" key_step key_spec "shows_rows fl" for fl :: "u8 list"
proof (unfold_locales, clarify)
  fix t xs ty k cols hid
  assume "shows_rows fl t xs" "fits fl (row_cols (k, cols, hid))"
  then show "\<exists>t'. key_step (ty, k, cols, hid) t = Some (fst (key_spec (ty, k, cols, hid) xs), t') \<and>
      shows_rows fl t' (snd (key_spec (ty, k, cols, hid) xs))"
    using UpdateRow_step[of fl t xs cols ty k hid] by (auto simp: key_step_def key_spec_def)
qed

lemma new_table_shows: "shows_rows fl ECKeyTable []"
proof -
  have "kt_ok ECKeyTable Leaf"
    by (auto simp: kt_ok_def kt_store_def wf_tab_def ECKeyTable_def new_row_def live_def inside_def vis_def split: if_splits)
  then show ?thesis by (auto simp: shows_rows_def rows_of_def intro!: exI[of _ Leaf])
qed

text \<open>
  C10: a table that is built from nothing by any sequence of \<open>UpdateRow\<close> calls whose sort keys have
  the same column flags and no NaN answers every call, and holds in the end exactly the rows, that
  the list functions say.
\<close>

theorem run_updates_lists:
  assumes "list_all (\<lambda>(ty, x). fits fl (row_cols x)) us"
  shows "\<exists>t. run_steps key_step us ECKeyTable = Some (fst (run_spec key_spec us []), t) \<and>
    shows_rows fl t (snd (run_spec key_spec us []))"
  by (rule kts.run_simulates[OF new_table_shows assms])

subsection \<open>Reading rows\<close>

fun first :: "'a list \<Rightarrow> 'a option" where
  "first [] = None"
| "first (x # xs) = Some x"

text \<open>Up to \<open>n\<close> elements with \<open>P\<close>, and the rest of the list behind the last of them.\<close>

fun read_rows :: "('a \<Rightarrow> bool) \<Rightarrow> nat \<Rightarrow> 'a list \<Rightarrow> 'a list \<times> 'a list" where
  "read_rows P n [] = ([], [])"
| "read_rows P n (x # xs) =
     (if n = 0 then ([], x # xs)
      else if P x then (case read_rows P (n - 1) xs of (ys, zs) \<Rightarrow> (x # ys, zs))
      else read_rows P n xs)"

lemma read_rows_take: "fst (read_rows P n xs) = take n (filter P xs)"
  by (induction P n xs rule: read_rows.induct) (auto simp: take_Cons' split: prod.splits)

lemma read_rows_suffix: "\<exists>ys. xs = ys @ snd (read_rows P n xs)"
proof (induction P n xs rule: read_rows.induct)
  case (2 P n x xs)
  consider "n = 0" | "n \<noteq> 0" "P x" | "n \<noteq> 0" "\<not> P x" by blast
  then show ?case
  proof cases
    case 2
    then obtain ys where "xs = ys @ snd (read_rows P (n - 1) xs)" using 2(1) "2.IH"(1) by blast
    then have "x # xs = (x # ys) @ snd (read_rows P n (x # xs))" using 2 by (auto split: prod.splits)
    then show ?thesis by blast
  next
    case 3
    then obtain ys where "xs = ys @ snd (read_rows P n xs)" using "2.IH"(2) by blast
    then have "x # xs = (x # ys) @ snd (read_rows P n (x # xs))" using 3 by simp
    then show ?thesis by blast
  qed simp
qed simp

lemma Next_row:
  assumes "wf_tab R h T" "inorder T = xs @ a # ys"
  shows "Next h (Some a) = Some (first ys)"
proof -
  have "distinct (inorder T)" using assms(1) by (simp add: wf_tab_def)
  from plug_split[OF assms(2) this] obtain l r c where
    T: "T = plug (Node l a r) c" "ys = inorder r @ rows_after c" by metis
  from assms(1) have "focus R h (Node l a r) c" unfolding T(1) using wf_focus by blast
  from Next_focus[OF this] show ?thesis unfolding T(2) by (auto split: list.splits)
qed

lemma QueryRows_loop_forward:
  assumes "wf_tab (kt_root t) (kt_heap t) T" "inorder T = xs @ ys" "kt_cur t = first ys"
  shows "QueryRows_loop False hid t n acc =
    Some (acc @ map (key_of (kt_heap t)) (fst (read_rows (\<lambda>a. visible (kt_heap t) a \<or> hid) n ys)),
          t\<lparr>kt_cur := first (snd (read_rows (\<lambda>a. visible (kt_heap t) a \<or> hid) n ys))\<rparr>)"
  using assms
proof (induction ys arbitrary: xs n acc t)
  case Nil
  then show ?case by (subst QueryRows_loop.simps) simp
next
  case (Cons a ys)
  let ?h = "kt_heap t"
  have "a \<in> set (inorder T)" using Cons.prems(2) by simp
  then obtain m where m: "?h a = Some m" using wf_Some[OF Cons.prems(1)] by auto
  obtain R where R: "?h (kt_root t) = Some R" using wf_Some[OF Cons.prems(1)] by auto
  have v: "visible ?h a \<longleftrightarrow> \<not> tr_fHidden m" using m by (simp add: visible_def)
  let ?t = "t\<lparr>kt_cur := first ys\<rparr>"
  have nx: "NextRow t = Some ?t" using Next_row[OF Cons.prems(1,2)] Cons.prems(3) by (simp add: NextRow_def)
  have IH: "QueryRows_loop False hid ?t k acc' =
    Some (acc' @ map (key_of ?h) (fst (read_rows (\<lambda>a. visible ?h a \<or> hid) k ys)),
          t\<lparr>kt_cur := first (snd (read_rows (\<lambda>a. visible ?h a \<or> hid) k ys))\<rparr>)" for k acc'
    using Cons.IH[of ?t "xs @ [a]" k acc'] Cons.prems by simp
  show ?case
  proof (cases "n = 0")
    case True
    then show ?thesis using Cons.prems(3) by (subst QueryRows_loop.simps) simp
  next
    case False
    then have "QueryRows_loop False hid t n acc =
      QueryRows_loop False hid ?t (if visible ?h a \<or> hid then n - 1 else n)
        (if visible ?h a \<or> hid then acc @ [tr_key m] else acc)"
      using Cons.prems(3) m R nx v by (subst QueryRows_loop.simps) (simp add: Let_def)
    then show ?thesis using False m by (simp add: IH split: prod.splits)
  qed
qed

text \<open>\<open>QueryRows\<close> towards the end of the table, with the cursor on a row or past the end.\<close>

abbreviation shown :: "bool \<Rightarrow> row \<Rightarrow> bool" where
  "shown hid r \<equiv> \<not> row_hidden r \<or> hid"

lemma root_count:
  assumes "kt_ok t T"
  obtains R where "kt_heap t (kt_root t) = Some R" "tr_count R = length (filter (shown False) (rows_of t T))"
    "tr_right R = ptr T"
proof -
  from assms obtain R where "kt_heap t (kt_root t) = Some R" "tr_count R = vis (kt_heap t) (inorder T)" "tr_right R = ptr T"
    by (auto simp: kt_ok_def kt_store_def wf_tab_def)
  then show ?thesis using that by (simp add: rows_of_def vis_def filter_map comp_def)
qed

lemma QueryRows_from:
  assumes ok: "kt_ok t T" and cur: "inorder T = xs @ ys" "kt_cur t = first ys"
  shows "\<exists>p. QueryRows t n False noadv hid =
    Some (map row_key (take (min n (length (filter (shown False) (rows_of t T))))
            (filter (shown hid) (map (row_of (kt_heap t)) ys))), t\<lparr>kt_cur := p\<rparr>) \<and> inside (live t T) p"
proof -
  let ?h = "kt_heap t"
  have w: "wf_tab (kt_root t) ?h T" using ok by (auto simp: kt_ok_def kt_store_def)
  obtain R where R: "?h (kt_root t) = Some R" "tr_count R = length (filter (shown False) (rows_of t T))"
    by (rule root_count[OF ok])
  have "kt_root t \<notin> set (inorder T)" using wf_distinct[OF w] by simp
  then have "kt_cur t \<noteq> Some (kt_root t)" unfolding cur by (cases ys) auto
  let ?P = "\<lambda>a. visible ?h a \<or> hid" and ?k = "min n (tr_count R)"
  let ?p = "if noadv then kt_cur t else first (snd (read_rows ?P ?k ys))"
  have k: "(if tr_count R < n then tr_count R else n) = ?k" by simp
  have "QueryRows t n False noadv hid = Some (map (key_of ?h) (fst (read_rows ?P ?k ys)), t\<lparr>kt_cur := ?p\<rparr>)"
    using R(1) \<open>kt_cur t \<noteq> Some (kt_root t)\<close> QueryRows_loop_forward[OF w cur, of hid ?k "[]"]
    by (simp add: QueryRows_def Let_def k)
  moreover have "shown hid \<circ> row_of ?h = ?P" by (rule ext) auto
  then have "map (key_of ?h) (fst (read_rows ?P ?k ys)) =
      map row_key (take ?k (filter (shown hid) (map (row_of ?h) ys)))"
    by (simp only: read_rows_take filter_map take_map map_map) simp
  moreover have "inside (live t T) (first (snd (read_rows ?P ?k ys)))"
  proof -
    obtain zs where "ys = zs @ snd (read_rows ?P ?k ys)" using read_rows_suffix by blast
    then have "set (snd (read_rows ?P ?k ys)) \<subseteq> set (inorder T)" using cur(1) by (metis Un_iff set_append subsetI)
    then show ?thesis by (cases "snd (read_rows ?P ?k ys)") (auto simp: live_def)
  qed
  moreover have "inside (live t T) (kt_cur t)" using ok by (simp add: kt_ok_def)
  ultimately show ?thesis unfolding R(2) by (intro exI[of _ ?p]) (simp add: R(2))
qed

lemma shows_cur: "shows_rows fl t xs \<Longrightarrow> kt_ok t T \<Longrightarrow> xs = rows_of t T \<Longrightarrow> inside (live t T) p \<Longrightarrow>
    shows_rows fl (t\<lparr>kt_cur := p\<rparr>) xs"
  unfolding shows_rows_def by (auto intro!: exI[of _ T] kt_ok_cur)

text \<open>
  \<open>SeekId\<close> on the id of a row and then \<open>QueryRows\<close> read that row and the rows behind it in the
  order of the table, hidden rows only when they are asked for, and never more rows than the table
  has visible ones.
\<close>

theorem SeekId_QueryRows:
  assumes "shows_rows fl t xs" "find_row k xs \<noteq> None"
  shows "\<exists>t1 t2. SeekId t k = (erSuccess, t1) \<and>
    QueryRows t1 n False noadv hid =
      Some (map row_key (take (min n (length (filter (shown False) xs)))
              (filter (shown hid) (dropWhile (\<lambda>r. row_key r \<noteq> k) xs))), t2) \<and>
    shows_rows fl t1 xs \<and> shows_rows fl t2 xs"
proof -
  from assms(1) obtain T where T: "kt_ok t T" "xs = rows_of t T" by (auto simp: shows_rows_def)
  from find_row_map[OF T(1), of k] assms(2) T(2) obtain a where a: "kt_map t k = Some a" by auto
  then have aT: "a \<in> set_tree T" "key_of (kt_heap t) a = k" using T(1) by (auto simp: kt_ok_def)
  from row_split[OF aT(1)] obtain as bs where sp: "inorder T = as @ a # bs" .
  let ?t = "t\<lparr>kt_cur := Some a\<rparr>"
  have in1: "inside (live t T) (Some a)" using aT(1) by (simp add: live_def)
  have ok: "kt_ok ?t T" using kt_ok_cur[OF T(1) in1] .
  have w: "wf_tab (kt_root t) (kt_heap t) T" using T(1) by (auto simp: kt_ok_def kt_store_def)
  have "key_of (kt_heap t) b \<noteq> k" if "b \<in> set as" for b
  proof -
    have "b \<noteq> a" "b \<in> set (inorder T)" using that wf_distinct[OF w] sp by auto
    then show ?thesis using inj_onD[OF kt_inj[OF T(1)], of b a] aT by auto
  qed
  then have "dropWhile (\<lambda>b. key_of (kt_heap t) b \<noteq> k) (inorder T) = a # bs"
    unfolding sp using aT(2) by (subst dropWhile_append2) auto
  then have dw: "dropWhile (\<lambda>r. row_key r \<noteq> k) xs = map (row_of (kt_heap t)) (a # bs)"
    by (simp add: T(2) rows_of_def dropWhile_map comp_def)
  from QueryRows_from[OF ok sp, of n noadv hid] obtain p where
    "QueryRows ?t n False noadv hid = Some (map row_key (take (min n (length (filter (shown False) xs)))
        (filter (shown hid) (map (row_of (kt_heap t)) (a # bs)))), ?t\<lparr>kt_cur := p\<rparr>)" "inside (live ?t T) p"
    by (auto simp: T(2))
  moreover have "shows_rows fl ?t xs" using shows_cur[OF assms(1) T in1] .
  moreover have "shows_rows fl (t\<lparr>kt_cur := p\<rparr>) xs"
    using shows_cur[OF assms(1) T] calculation(2) by (simp add: live_def)
  ultimately show ?thesis using a unfolding dw by (auto simp: SeekId_def)
qed

subsection \<open>Row numbers\<close>

text \<open>\<open>SeekRow\<close> from the start of the table: the row it finds has the wanted number of visible rows before it.\<close>

lemma SeekRow_set:
  assumes ok: "kt_ok t T" and d: "0 \<le> d" "d < 2 ^ 31" and n: "tr_count R = m" "kt_heap t (kt_root t) = Some R" "int m < 2 ^ 31"
  shows "\<exists>p. SeekRow t EC_SEEK_SET d = Some (erSuccess, Some (min d (int m)), t\<lparr>kt_cur := p\<rparr>) \<and>
    inside (live t T) p \<and>
    (if m = 0 then p = Some (kt_root t)
     else case p of None \<Rightarrow> int m \<le> d
      | Some a \<Rightarrow> \<exists>xs ys. inorder T = xs @ a # ys \<and> int (vis (kt_heap t) xs) = min d (int m))"
proof -
  have w: "wf_tab (kt_root t) (kt_heap t) T" using ok by (auto simp: kt_ok_def kt_store_def)
  have R: "tr_right R = ptr T" "m = vis (kt_heap t) (inorder T)" using w n by (auto simp: wf_tab_def)
  obtain c where "CurrentRow t (kt_cur t) = Some c" using CurrentRow_live[OF w, of "kt_cur t"] ok unfolding kt_ok_def by blast
  then have rc: "GetRowCount t = Some (m, c)" using n by (simp add: GetRowCount_def)
  have k: "(if int m \<le> d then int m else d) = min d (int m)" by simp
  show ?thesis
  proof (cases "m = 0")
    case True
    then show ?thesis using rc d by (auto simp: SeekRow_def Let_def live_def)
  next
    case False
    then obtain l x r where T: "T = Node l x r" using R(2) by (cases T) auto
    from SeekRow_loop_rep[of "kt_heap t" "kt_root t" False T x "nat (min d (int m))"] w T obtain p where
      p: "SeekRow_loop (kt_heap t) x (nat (min d (int m))) = Some p"
        "case p of Some y \<Rightarrow> \<exists>xs ys. inorder T = xs @ y # ys \<and> vis (kt_heap t) xs = nat (min d (int m))
          | None \<Rightarrow> vis (kt_heap t) (inorder T) \<le> nat (min d (int m))" unfolding wf_tab_def by auto
    have "SeekRow t EC_SEEK_SET d = Some (erSuccess, Some (min d (int m)), t\<lparr>kt_cur := p\<rparr>)"
    proof (cases "int m \<le> d")
      case True
      then have "SeekRow_loop (kt_heap t) x m = Some p" using p(1) by simp
      then show ?thesis using rc d n R(1) T False True by (simp add: SeekRow_def Let_def)
    next
      case F: False
      then have "SeekRow_loop (kt_heap t) x (nat d) = Some p" using p(1) by simp
      then show ?thesis using rc d n R(1) T False F by (simp add: SeekRow_def Let_def)
    qed
    moreover have "y \<in> set_tree T" if "inorder T = xs @ y # ys" for y xs ys
      using that by (metis in_set_conv_decomp set_inorder)
    moreover have "inside (live t T) p"
      using p(2) calculation(2) by (cases p) (auto simp: live_def)
    moreover have "case p of None \<Rightarrow> int m \<le> d
      | Some a \<Rightarrow> \<exists>xs ys. inorder T = xs @ a # ys \<and> int (vis (kt_heap t) xs) = min d (int m)"
    proof (cases p)
      case None
      then show ?thesis using p(2) d(1) R(2) by simp
    next
      case (Some a)
      then obtain xs ys where "inorder T = xs @ a # ys" "vis (kt_heap t) xs = nat (min d (int m))" using p(2) by auto
      moreover from this have "int (vis (kt_heap t) xs) = min d (int m)" using d(1) by simp
      ultimately show ?thesis using Some by auto
    qed
    ultimately show ?thesis using False by auto
  qed
qed

text \<open>
  Seeking to row \<open>d\<close> and asking for the current row gives \<open>d\<close> back, or the number of visible
  rows where \<open>d\<close> is larger, in every table with less than \<open>2 ^ 31\<close> visible rows.
\<close>

theorem SeekRow_GetRowCount:
  assumes "shows_rows fl t xs" "length (filter (shown False) xs) = m" "int m < 2 ^ 31" "0 \<le> d" "d < 2 ^ 31"
  shows "\<exists>t'. SeekRow t EC_SEEK_SET d = Some (erSuccess, Some (min d (int m)), t') \<and>
    GetRowCount t' = Some (m, min d (int m)) \<and> shows_rows fl t' xs"
proof -
  from assms(1) obtain T where T: "kt_ok t T" "xs = rows_of t T" by (auto simp: shows_rows_def)
  obtain R where R: "kt_heap t (kt_root t) = Some R" "tr_count R = m"
    using root_count[OF T(1)] assms(2) T(2) by metis
  have w: "wf_tab (kt_root t) (kt_heap t) T" using T(1) by (auto simp: kt_ok_def kt_store_def)
  from SeekRow_set[OF T(1) assms(4,5) R(2,1) assms(3)] obtain p where
    p: "SeekRow t EC_SEEK_SET d = Some (erSuccess, Some (min d (int m)), t\<lparr>kt_cur := p\<rparr>)" "inside (live t T) p"
      "if m = 0 then p = Some (kt_root t) else case p of None \<Rightarrow> int m \<le> d
        | Some a \<Rightarrow> \<exists>xs ys. inorder T = xs @ a # ys \<and> int (vis (kt_heap t) xs) = min d (int m)" by blast
  let ?t = "t\<lparr>kt_cur := p\<rparr>"
  have "CurrentRow ?t p = Some (min d (int m))"
  proof (cases "m = 0")
    case True
    then show ?thesis using p(3) assms(4) by (simp add: CurrentRow_def)
  next
    case False
    show ?thesis
    proof (cases p)
      case None
      then show ?thesis using p(3) False R by (simp add: CurrentRow_def)
    next
      case (Some a)
      then obtain xs ys where a: "inorder T = xs @ a # ys" "int (vis (kt_heap t) xs) = min d (int m)"
        using p(3) False by auto
      have "CurrentRow ?t (Some a) = Some (to_uint32 (int (vis (kt_heap t) xs)))"
        by (rule CurrentRow_row[OF w _ _ a(1)]) simp_all
      then show ?thesis using a(2) Some assms(4,5) by simp
    qed
  qed
  then have "GetRowCount ?t = Some (m, min d (int m))" using R by (simp add: GetRowCount_def)
  then show ?thesis using p(1) shows_cur[OF assms(1) T p(2)] by blast
qed

text \<open>
  A client that seeks to the start and reads gets the visible rows of the table from the first
  on, as many as it asks for.
\<close>

theorem SeekRow_QueryRows:
  assumes "shows_rows fl t xs" "int (length (filter (shown False) xs)) < 2 ^ 31"
  shows "\<exists>t1 t2. seek_to t EC_SEEK_SET 0 = Some t1 \<and>
    QueryRows t1 n False noadv False = Some (map row_key (take n (filter (shown False) xs)), t2)"
proof -
  let ?m = "length (filter (shown False) xs)"
  from assms(1) obtain T where T: "kt_ok t T" "xs = rows_of t T" by (auto simp: shows_rows_def)
  obtain R where R: "kt_heap t (kt_root t) = Some R" "tr_count R = ?m"
    using root_count[OF T(1)] T(2) by metis
  from SeekRow_set[OF T(1) _ _ R(2,1) assms(2), of 0] obtain p where
    p: "SeekRow t EC_SEEK_SET 0 = Some (erSuccess, Some 0, t\<lparr>kt_cur := p\<rparr>)" "inside (live t T) p"
      "if ?m = 0 then p = Some (kt_root t) else case p of None \<Rightarrow> int ?m \<le> 0
        | Some a \<Rightarrow> \<exists>xs ys. inorder T = xs @ a # ys \<and> int (vis (kt_heap t) xs) = min 0 (int ?m)" by auto
  have sk: "seek_to t EC_SEEK_SET 0 = Some (t\<lparr>kt_cur := p\<rparr>)" using p(1) by (simp add: seek_to_def)
  show ?thesis
  proof (cases "?m = 0")
    case True
    have e: "filter (shown False) xs = []" using True by simp
    have "QueryRows (t\<lparr>kt_cur := p\<rparr>) n False noadv False = Some ([], t\<lparr>kt_cur := p\<rparr>)"
      using R True by (simp add: QueryRows_def Let_def QueryRows_loop.simps[of _ _ _ 0])
    then show ?thesis using sk e by simp
  next
    case False
    then obtain a where a: "p = Some a" using p(3) by (cases p) auto
    then obtain as bs where sp: "inorder T = as @ a # bs" "vis (kt_heap t) as = 0" using p(3) False by auto
    have "filter (shown False) (map (row_of (kt_heap t)) as) = []"
      using sp(2) by (simp add: vis_def filter_map comp_def)
    then have e: "filter (shown False) xs = filter (shown False) (map (row_of (kt_heap t)) (a # bs))"
      unfolding T(2) rows_of_def sp(1) by simp
    have "kt_cur (t\<lparr>kt_cur := p\<rparr>) = first (a # bs)" using a by simp
    from QueryRows_from[OF kt_ok_cur[OF T(1) p(2)] sp(1) this, of n noadv False] obtain q where
      q: "QueryRows (t\<lparr>kt_cur := p\<rparr>) n False noadv False = Some (map row_key (take (min n (length (filter (shown False) (rows_of t T))))
        (filter (shown False) (map (row_of (kt_heap t)) (a # bs)))), q)" by auto
    have "QueryRows (t\<lparr>kt_cur := p\<rparr>) n False noadv False = Some (map row_key (take (min n ?m) (filter (shown False) xs)), q)"
      unfolding q e[symmetric] T(2)[symmetric] ..
    moreover have "take (min n ?m) (filter (shown False) xs) = take n (filter (shown False) xs)" by (simp add: min_def)
    ultimately show ?thesis using sk by auto
  qed
qed

subsection \<open>A table with three rows\<close>

definition demo_row :: "u32 \<Rightarrow> u8 \<Rightarrow> bool \<Rightarrow> row" where
  "demo_row k b hid = (\<lparr>ulObjId = k, ulOrderId = 0\<rparr>, [\<lparr>sc_flags = 0, sc_key = [b]\<rparr>], hid)"

definition demo_rows :: "row list" where
  "demo_rows = [demo_row 2 3 True, demo_row 1 5 False, demo_row 3 7 False]"

lemma demo_fits: "fits [0] (row_cols (demo_row k b hid))"
  by (simp add: demo_row_def fits_def sane_def flag_defs)

lemma demo_before: "before_row (demo_row k b hid) (demo_row k' b' hid') \<longleftrightarrow> b < b'"
  using rowcompare_Cons[of "\<lparr>sc_flags = 0, sc_key = [b]\<rparr>" "\<lparr>sc_flags = 0, sc_key = [b']\<rparr>" "[]" "[]"]
  by (simp add: before_row_def demo_row_def sane_def flag_defs col_before_def col_rank_def)

lemma demo_key [simp]: "row_key (demo_row k b hid) = \<lparr>ulObjId = k, ulOrderId = 0\<rparr>"
  by (simp add: demo_row_def)

lemma demo_hidden [simp]: "row_hidden (demo_row k b hid) = hid"
  by (simp add: demo_row_def)

lemma demo_table: "\<exists>t. shows_rows [0] t demo_rows"
proof -
  let ?us = "[(TABLE_ROW_ADD, demo_row 1 5 False), (TABLE_ROW_ADD, demo_row 2 3 True), (TABLE_ROW_ADD, demo_row 3 7 False)]"
  have "snd (run_spec key_spec ?us []) = demo_rows"
    by (simp add: key_spec_def updated_rows_def find_row_def place_row_def demo_before demo_rows_def)
  moreover have "list_all (\<lambda>(ty, x). fits [0] (row_cols x)) ?us" by (simp add: demo_fits)
  ultimately show ?thesis using kts.run_simulates[OF new_table_shows, of "[0]" ?us] by metis
qed

theorem UpdateRow_lists_witness:
  "\<exists>t res. shows_rows [0] t demo_rows \<and>
    UpdateRow t TABLE_ROW_ADD \<lparr>ulObjId = 4, ulOrderId = 0\<rparr> [\<lparr>sc_flags = 0, sc_key = [6]\<rparr>] False = Some res \<and>
    ur_prev res = Some \<lparr>ulObjId = 1, ulOrderId = 0\<rparr> \<and>
    shows_rows [0] (ur_table res) [demo_row 2 3 True, demo_row 1 5 False, demo_row 4 6 False, demo_row 3 7 False]"
proof -
  let ?x = "(\<lparr>ulObjId = 4, ulOrderId = 0\<rparr>, [\<lparr>sc_flags = 0, sc_key = [6]\<rparr>], False) :: row"
  have x: "?x = demo_row 4 6 False" by (simp add: demo_row_def)
  obtain t where t: "shows_rows [0] t demo_rows" using demo_table by blast
  have f: "fits [0] [\<lparr>sc_flags = 0, sc_key = [6 :: u8]\<rparr>]" by (simp add: fits_def sane_def flag_defs)
  have "update_report TABLE_ROW_ADD ?x demo_rows = (erSuccess, Some \<lparr>ulObjId = 1, ulOrderId = 0\<rparr>, Some TABLE_ROW_ADD)"
    "updated_rows TABLE_ROW_ADD ?x demo_rows = [demo_row 2 3 True, demo_row 1 5 False, demo_row 4 6 False, demo_row 3 7 False]"
    unfolding x by (simp_all add: update_report_def updated_rows_def find_row_def place_row_def row_before_def demo_before demo_rows_def)
  then show ?thesis using UpdateRow_lists[OF t f] t by fastforce
qed

theorem run_updates_lists_witness:
  "\<exists>t. run_steps key_step [(TABLE_ROW_ADD, demo_row 1 5 False), (TABLE_ROW_ADD, demo_row 2 3 True),
      (TABLE_ROW_DELETE, demo_row 1 5 False), (TABLE_ROW_DELETE, demo_row 1 5 False)] ECKeyTable =
    Some ([(erSuccess, Some zero_key, Some TABLE_ROW_ADD), (erSuccess, Some zero_key, Some TABLE_ROW_ADD),
           (erSuccess, None, Some TABLE_ROW_DELETE), (ZARAFA_E_NOT_FOUND, None, None)], t) \<and>
    shows_rows [0] t [demo_row 2 3 True]"
proof -
  let ?us = "[(TABLE_ROW_ADD, demo_row 1 5 False), (TABLE_ROW_ADD, demo_row 2 3 True),
      (TABLE_ROW_DELETE, demo_row 1 5 False), (TABLE_ROW_DELETE, demo_row 1 5 False)]"
  have "list_all (\<lambda>(ty, x). fits [0] (row_cols x)) ?us" by (simp add: demo_fits)
  from run_updates_lists[OF this] show ?thesis
    by (simp add: key_spec_def update_report_def updated_rows_def find_row_def place_row_def row_before_def
        remove_row_def demo_before)
qed

theorem SeekId_QueryRows_witness:
  "\<exists>t t1 t2. shows_rows [0] t demo_rows \<and> SeekId t \<lparr>ulObjId = 1, ulOrderId = 0\<rparr> = (erSuccess, t1) \<and>
    QueryRows t1 5 False True False = Some ([\<lparr>ulObjId = 1, ulOrderId = 0\<rparr>, \<lparr>ulObjId = 3, ulOrderId = 0\<rparr>], t2)"
proof -
  obtain t where t: "shows_rows [0] t demo_rows" using demo_table by blast
  have "find_row \<lparr>ulObjId = 1, ulOrderId = 0\<rparr> demo_rows \<noteq> None" by (simp add: find_row_def demo_rows_def)
  from SeekId_QueryRows[OF t this, of 5 True False] t show ?thesis by (auto simp: demo_rows_def)
qed

theorem SeekRow_GetRowCount_witness:
  "\<exists>t t'. shows_rows [0] t demo_rows \<and> SeekRow t EC_SEEK_SET 1 = Some (erSuccess, Some 1, t') \<and>
    GetRowCount t' = Some (2, 1)"
proof -
  obtain t where t: "shows_rows [0] t demo_rows" using demo_table by blast
  have "length (filter (shown False) demo_rows) = 2" by (simp add: demo_rows_def)
  from SeekRow_GetRowCount[OF t this, of 1] t show ?thesis by auto
qed

theorem SeekRow_QueryRows_witness:
  "\<exists>t t1 t2. shows_rows [0] t demo_rows \<and> seek_to t EC_SEEK_SET 0 = Some t1 \<and>
    QueryRows t1 1 False False False = Some ([\<lparr>ulObjId = 1, ulOrderId = 0\<rparr>], t2)"
proof -
  obtain t where t: "shows_rows [0] t demo_rows" using demo_table by blast
  have "int (length (filter (shown False) demo_rows)) < 2 ^ 31" by (simp add: demo_rows_def)
  from SeekRow_QueryRows[OF t this, of 1 False] t show ?thesis by (auto simp: demo_rows_def)
qed

end
