(* ===== verification/Key_Hide.thy ===== *)
theory Key_Hide
  imports Key_Facts
begin

text \<open>
  Groups of rows in the key table of \<^verbatim>\<open>common/ECKeyTable.cpp\<close>: hiding and showing the rows below a
  group header, emptying the table, seeking from any origin, and the depth of the tree.
\<close>

subsection \<open>Changing the hidden flag of one row\<close>

lemma set_hidden:
  assumes w: "wf_tab R h T" and a: "a \<in> set_tree T"
  shows "\<exists>h'. do { h \<leftarrow> upd h a (\<lambda>n. n\<lparr>tr_fHidden := b\<rparr>); UpdateCounts R h (Some a) } = Some h' \<and>
    wf_tab R h' T \<and> (\<forall>x. row_of h' x = (if x = a then (key_of h a, cols_of h a, b) else row_of h x)) \<and>
    dom h' = dom h"
proof -
  from a obtain l r c where T: "T = plug (Node l a r) c" using plug_decompose[of a T] by auto
  from wf_focus[OF w[unfolded T]] have f: "focus R h (Node l a r) c" and ch: "cached h (Node l a r)" by auto
  from focus_row[OF f] obtain n where n: "h a = Some n" by metis
  let ?h = "h(a \<mapsto> n\<lparr>tr_fHidden := b\<rparr>)"
  note d = focus_distinct[OF f]
  have al: "a \<notin> set_tree l" "a \<notin> set_tree r" "a \<notin> set (path_rows c)" "a \<noteq> R" using d by auto
  have "focus R ?h (Node l a r) c"
    using f n al by (auto simp: focus_def)
  moreover have "cached ?h l" "cached ?h r" using ch al by simp_all
  ultimately obtain h' where h': "UpdateCounts R ?h (Some a) = Some h'" "same_shape ?h h'" "wf_tab R h' T"
    using UpdateCounts_focus[of R ?h l a r c] unfolding T by blast
  have "row_of h' x = row_of ?h x" for x using row_of_data[OF same_shape_data[OF h'(2)]] .
  then have "row_of h' x = (if x = a then (key_of h a, cols_of h a, b) else row_of h x)" for x
    using n by (auto simp: row_of_def cols_of_def)
  moreover have "dom h' = dom h" using same_data_dom[OF same_shape_data[OF h'(2)]] n by auto
  ultimately show ?thesis using h'(1,3) n by (auto simp: upd_def)
qed

definition set_row_hidden :: "bool \<Rightarrow> row \<Rightarrow> row" where
  "set_row_hidden b r = (row_key r, row_cols r, b)"

text \<open>Changing the flag of a row of a table in good order.\<close>

lemma kt_ok_rows:
  assumes ok: "kt_ok t T" and w: "wf_tab (kt_root t) h T" and k: "\<And>x. key_of h x = key_of (kt_heap t) x"
    and d: "dom h = dom (kt_heap t)"
  shows "kt_ok (t\<lparr>kt_heap := h\<rparr>) T"
proof -
  have R: "kt_root t \<in> dom h" unfolding d using ok by (simp add: kt_ok_def live_def)
  then obtain Q where Q: "h (kt_root t) = Some Q" by auto
  have "key_of (kt_heap t) (kt_root t) = zero_key" using ok by (auto simp: kt_ok_def kt_store_def)
  then have "tr_key Q = zero_key" using k[of "kt_root t"] Q by simp
  then show ?thesis using ok w Q k d by (simp add: kt_ok_def kt_store_def live_def)
qed

lemma hide_row:
  assumes ok: "kt_ok t T" and sp: "inorder T = xs @ a # ys"
  shows "\<exists>h'. do { h \<leftarrow> upd (kt_heap t) a (\<lambda>n. n\<lparr>tr_fHidden := b\<rparr>); UpdateCounts (kt_root t) h (Some a) } = Some h' \<and>
    kt_ok (t\<lparr>kt_heap := h'\<rparr>) T \<and>
    map (row_of h') xs = map (row_of (kt_heap t)) xs \<and> row_of h' a = set_row_hidden b (row_of (kt_heap t) a) \<and>
    map (row_of h') ys = map (row_of (kt_heap t)) ys"
proof -
  let ?h = "kt_heap t" and ?R = "kt_root t"
  have w: "wf_tab ?R ?h T" using ok by (auto simp: kt_ok_def kt_store_def)
  have "a \<in> set (inorder T)" using sp by simp
  then have a: "a \<in> set_tree T" by simp
  from set_hidden[OF w a, of b] obtain h' where
    h': "do { h \<leftarrow> upd ?h a (\<lambda>n. n\<lparr>tr_fHidden := b\<rparr>); UpdateCounts ?R h (Some a) } = Some h'"
      "wf_tab ?R h' T" "dom h' = dom ?h"
    and row: "\<And>x. row_of h' x = (if x = a then (key_of ?h a, cols_of ?h a, b) else row_of ?h x)" by blast
  have "key_of h' x = key_of ?h x" for x using row[of x] by (metis fst_conv row_of_simps(1))
  from kt_ok_rows[OF ok h'(2) this h'(3)] have "kt_ok (t\<lparr>kt_heap := h'\<rparr>) T" .
  moreover have "a \<notin> set xs" "a \<notin> set ys" using wf_distinct[OF w] sp by auto
  then have "map (row_of h') xs = map (row_of ?h) xs" "map (row_of h') ys = map (row_of ?h) ys"
    unfolding row by (auto intro!: map_cong)
  moreover have "row_of h' a = set_row_hidden b (row_of ?h a)" by (simp add: row set_row_hidden_def)
  ultimately show ?thesis using h'(1) by blast
qed

subsection \<open>The rows of a group\<close>

definition in_group :: "sortcol list \<Rightarrow> row \<Rightarrow> bool" where
  "in_group pre r \<longleftrightarrow> \<not> rowcompareprefix (length pre) pre (row_cols r)"

text \<open>The group that a list of rows starts with, after a change to its rows, and the rows behind it.\<close>

definition map_group :: "(row \<Rightarrow> row) \<Rightarrow> sortcol list \<Rightarrow> row list \<Rightarrow> row list" where
  "map_group f pre xs = map f (takeWhile (in_group pre) xs) @ dropWhile (in_group pre) xs"

lemma map_group_Cons:
  "map_group f pre (r # xs) = (if in_group pre r then f r # map_group f pre xs else r # xs)"
  by (simp add: map_group_def)

lemma first_Cons [simp]: "first (x # xs) = Some x"
  by simp

lemma row_at_cursor:
  assumes "kt_ok t T" "inorder T = xs @ a # ys"
  obtains n where "kt_heap t a = Some n" "row_of (kt_heap t) a = (tr_key n, tr_cols n, tr_fHidden n)"
    "Next (kt_heap t) (Some a) = Some (first ys)"
proof -
  have w: "wf_tab (kt_root t) (kt_heap t) T" using assms(1) by (auto simp: kt_ok_def kt_store_def)
  have "a \<in> set (inorder T)" using assms(2) by simp
  then obtain n where "kt_heap t a = Some n" using wf_Some[OF w] by auto
  then show ?thesis using that Next_row[OF w assms(2)] by (simp add: row_of_def)
qed

lemma first_inside:
  assumes "inorder T = xs @ ys"
  shows "inside (live t T) (first ys)"
proof (cases ys)
  case (Cons a zs)
  then have "a \<in> set (inorder T)" using assms by simp
  then show ?thesis using Cons by (simp add: live_def)
qed simp

lemma kt_ok_heap_cur: "kt_ok (t\<lparr>kt_heap := h\<rparr>) T \<Longrightarrow> inside (live t T) p \<Longrightarrow> kt_ok (t\<lparr>kt_heap := h, kt_cur := p\<rparr>) T"
  by (simp add: kt_ok_def kt_store_def live_def)

text \<open>The loops of \<open>HideRows\<close> and \<open>UnhideRows\<close> run over one group.\<close>

lemma hide_loop_rows:
  assumes "kt_ok t T" "inorder T = xs @ ys" "kt_cur t = first ys"
  shows "\<exists>h. hide_loop pre orig t acc hid =
      Some (acc @ map row_key (takeWhile (in_group pre) (map (row_of (kt_heap t)) ys)),
            hid \<or> orig \<in> Some ` set (take (length (takeWhile (in_group pre) (map (row_of (kt_heap t)) ys))) ys), t\<lparr>kt_heap := h, kt_cur := first (drop (length (takeWhile (in_group pre) (map (row_of (kt_heap t)) ys))) ys)\<rparr>) \<and>
    kt_ok (t\<lparr>kt_heap := h, kt_cur := first (drop (length (takeWhile (in_group pre) (map (row_of (kt_heap t)) ys))) ys)\<rparr>) T \<and>
    map (row_of h) xs = map (row_of (kt_heap t)) xs \<and>
    map (row_of h) ys = map_group (set_row_hidden True) pre (map (row_of (kt_heap t)) ys)"
  using assms
proof (induction ys arbitrary: xs t acc hid)
  case Nil
  have "kt_ok (t\<lparr>kt_cur := None\<rparr>) T" by (rule kt_ok_cur[OF Nil(1)]) simp
  then show ?case using Nil by (subst hide_loop.simps) (auto simp: map_group_def intro!: exI[of _ "kt_heap t"])
next
  case (Cons a ys)
  let ?h = "kt_heap t"
  obtain n where n: "?h a = Some n" "row_of ?h a = (tr_key n, tr_cols n, tr_fHidden n)"
    by (rule row_at_cursor[OF Cons.prems(1,2)])
  have g: "in_group pre (row_of ?h a) \<longleftrightarrow> \<not> rowcompareprefix (length pre) pre (tr_cols n)"
    using n(2) by (simp add: in_group_def)
  show ?case
  proof (cases "in_group pre (row_of ?h a)")
    case False
    then show ?thesis using Cons.prems n g kt_ok_cur[OF Cons.prems(1) first_inside[OF Cons.prems(2)]]
      by (subst hide_loop.simps) (auto simp: map_group_Cons intro!: exI[of _ ?h])
  next
    case True
    from hide_row[OF Cons.prems(1,2), of True] obtain h1 where
      h1: "do { h \<leftarrow> upd ?h a (\<lambda>n. n\<lparr>tr_fHidden := True\<rparr>); UpdateCounts (kt_root t) h (Some a) } = Some h1"
        "kt_ok (t\<lparr>kt_heap := h1\<rparr>) T" "map (row_of h1) xs = map (row_of ?h) xs"
        "row_of h1 a = set_row_hidden True (row_of ?h a)" "map (row_of h1) ys = map (row_of ?h) ys" by blast
    obtain h0 where h0: "upd ?h a (\<lambda>n. n\<lparr>tr_fHidden := True\<rparr>) = Some h0" "UpdateCounts (kt_root t) h0 (Some a) = Some h1"
      using h1(1) by (auto simp: bind_eq_Some_conv)
    let ?t = "t\<lparr>kt_heap := h1, kt_cur := first ys\<rparr>"
    have inT: "inorder T = (xs @ [a]) @ ys" using Cons.prems(2) by simp
    have ok: "kt_ok ?t T" using kt_ok_heap_cur[OF h1(2) first_inside[OF inT]] .
    have nx: "NextRow (t\<lparr>kt_heap := h1\<rparr>) = Some ?t"
      using row_at_cursor[OF h1(2) Cons.prems(2)] Cons.prems(3) by (auto simp: NextRow_def)
    have run: "hide_loop pre orig t acc hid = hide_loop pre orig ?t (acc @ [tr_key n]) (hid \<or> orig = Some a)"
      using Cons.prems(3) n(1) True g h0 nx by (subst hide_loop.simps) simp
    let ?tw = "takeWhile (in_group pre) (map (row_of ?h) ys)"
    from Cons.IH[OF ok inT, of "acc @ [tr_key n]" "hid \<or> orig = Some a"] obtain h where
      h: "hide_loop pre orig ?t (acc @ [tr_key n]) (hid \<or> orig = Some a) =
        Some ((acc @ [tr_key n]) @ map row_key ?tw, (hid \<or> orig = Some a) \<or> orig \<in> Some ` set (take (length ?tw) ys),
          t\<lparr>kt_heap := h, kt_cur := first (drop (length ?tw) ys)\<rparr>)"
        "kt_ok (t\<lparr>kt_heap := h, kt_cur := first (drop (length ?tw) ys)\<rparr>) T"
        "map (row_of h) (xs @ [a]) = map (row_of h1) (xs @ [a])"
        "map (row_of h) ys = map_group (set_row_hidden True) pre (map (row_of ?h) ys)"
      by (auto simp: h1(5))
    have "map (row_of h) (a # ys) = map_group (set_row_hidden True) pre (map (row_of ?h) (a # ys))"
      using h(3,4) h1(4) True by (simp add: map_group_Cons)
    moreover have "map (row_of h) xs = map (row_of ?h) xs" using h(3) h1(3) by simp
    ultimately show ?thesis using h(1,2) True n(2) unfolding run by (intro exI[of _ h]) auto
  qed
qed

text \<open>Moving on to the next visible row.\<close>

lemma skip_hidden_forward:
  assumes "kt_ok t T" "inorder T = xs @ ys" "kt_cur t = first ys"
  shows "\<exists>zs. skip_hidden False t = Some (t\<lparr>kt_cur := first zs\<rparr>) \<and> zs = dropWhile (\<lambda>a. \<not> visible (kt_heap t) a) ys \<and>
    inside (live t T) (first zs)"
  using assms
proof (induction ys arbitrary: xs t)
  case Nil
  then show ?case by (subst skip_hidden.simps) simp
next
  case (Cons a ys)
  obtain n where n: "kt_heap t a = Some n" "Next (kt_heap t) (Some a) = Some (first ys)"
    by (rule row_at_cursor[OF Cons.prems(1,2)])
  have v: "visible (kt_heap t) a \<longleftrightarrow> \<not> tr_fHidden n" using n(1) by (simp add: visible_def)
  have inT: "inorder T = (xs @ [a]) @ ys" using Cons.prems(2) by simp
  show ?case
  proof (cases "tr_fHidden n")
    case True
    let ?t = "t\<lparr>kt_cur := first ys\<rparr>"
    have "NextRow t = Some ?t" using n(2) Cons.prems(3) by (simp add: NextRow_def)
    then have "skip_hidden False t = skip_hidden False ?t"
      using Cons.prems(3) n(1) True by (subst skip_hidden.simps) simp
    moreover have "kt_ok ?t T" using kt_ok_cur[OF Cons.prems(1) first_inside[OF inT]] .
    ultimately show ?thesis using Cons.IH[OF _ inT, of ?t] True v by (simp add: live_def)
  next
    case False
    have "skip_hidden False t = Some (t\<lparr>kt_cur := first (a # ys)\<rparr>)"
      using False Cons.prems(3) n(1) by (subst skip_hidden.simps) simp
    then show ?thesis using v False first_inside[OF Cons.prems(2)] by simp
  qed
qed

definition show_if :: "nat \<Rightarrow> row \<Rightarrow> row" where
  "show_if c r = (if length (row_cols r) = c then set_row_hidden False r else r)"

lemma unhide_loop_rows:
  assumes "kt_ok t T" "inorder T = xs @ ys" "kt_cur t = first ys"
  shows "\<exists>h p. unhide_loop pre c t acc =
      Some (acc @ map row_key (filter (\<lambda>r. length (row_cols r) = c) (takeWhile (in_group pre) (map (row_of (kt_heap t)) ys))),
            t\<lparr>kt_heap := h, kt_cur := p\<rparr>) \<and>
    kt_ok (t\<lparr>kt_heap := h, kt_cur := p\<rparr>) T \<and>
    map (row_of h) xs = map (row_of (kt_heap t)) xs \<and>
    map (row_of h) ys = map_group (show_if c) pre (map (row_of (kt_heap t)) ys)"
  using assms
proof (induction ys arbitrary: xs t acc)
  case Nil
  have "kt_ok (t\<lparr>kt_cur := None\<rparr>) T" by (rule kt_ok_cur[OF Nil(1)]) simp
  then show ?case using Nil
    by (subst unhide_loop.simps) (auto simp: map_group_def intro!: exI[of _ "kt_heap t"] exI[of _ None])
next
  case (Cons a ys)
  let ?h = "kt_heap t"
  obtain n where n: "?h a = Some n" "row_of ?h a = (tr_key n, tr_cols n, tr_fHidden n)"
    by (rule row_at_cursor[OF Cons.prems(1,2)])
  have g: "in_group pre (row_of ?h a) \<longleftrightarrow> \<not> rowcompareprefix (length pre) pre (tr_cols n)"
    using n(2) by (simp add: in_group_def)
  show ?case
  proof (cases "in_group pre (row_of ?h a)")
    case False
    then show ?thesis using Cons.prems n g kt_ok_cur[OF Cons.prems(1) first_inside[OF Cons.prems(2)]]
      by (subst unhide_loop.simps) (auto simp: map_group_Cons intro!: exI[of _ ?h] exI[of _ "Some a"])
  next
    case True
    have "\<exists>h1. (if length (tr_cols n) = c
        then do { h \<leftarrow> upd ?h a (\<lambda>n. n\<lparr>tr_fHidden := False\<rparr>); UpdateCounts (kt_root t) h (Some a) }
        else Some ?h) = Some h1 \<and> kt_ok (t\<lparr>kt_heap := h1\<rparr>) T \<and> map (row_of h1) xs = map (row_of ?h) xs \<and>
        row_of h1 a = show_if c (row_of ?h a) \<and> map (row_of h1) ys = map (row_of ?h) ys"
      using hide_row[OF Cons.prems(1,2), of False] Cons.prems(1) n(2) by (simp add: show_if_def)
    then obtain h1 where h1: "(if length (tr_cols n) = c
        then do { h \<leftarrow> upd ?h a (\<lambda>n. n\<lparr>tr_fHidden := False\<rparr>); UpdateCounts (kt_root t) h (Some a) }
        else Some ?h) = Some h1" "kt_ok (t\<lparr>kt_heap := h1\<rparr>) T" "map (row_of h1) xs = map (row_of ?h) xs"
        "row_of h1 a = show_if c (row_of ?h a)" "map (row_of h1) ys = map (row_of ?h) ys" by blast
    let ?t = "t\<lparr>kt_heap := h1, kt_cur := first ys\<rparr>"
    have inT: "inorder T = (xs @ [a]) @ ys" using Cons.prems(2) by simp
    have ok: "kt_ok ?t T" using kt_ok_heap_cur[OF h1(2) first_inside[OF inT]] .
    have nx: "NextRow (t\<lparr>kt_heap := h1\<rparr>) = Some ?t"
      using row_at_cursor[OF h1(2) Cons.prems(2)] Cons.prems(3) by (auto simp: NextRow_def)
    let ?acc = "if length (tr_cols n) = c then acc @ [tr_key n] else acc"
    have run: "unhide_loop pre c t acc = unhide_loop pre c ?t ?acc"
    proof (cases "length (tr_cols n) = c")
      case L: True
      obtain h0 where "upd ?h a (\<lambda>n. n\<lparr>tr_fHidden := False\<rparr>) = Some h0" "UpdateCounts (kt_root t) h0 (Some a) = Some h1"
        using h1(1) L by (auto simp: bind_eq_Some_conv)
      then show ?thesis using Cons.prems(3) n(1) True g nx L by (subst unhide_loop.simps) simp
    next
      case False
      then show ?thesis using Cons.prems(3) n(1) True g nx h1(1) by (subst unhide_loop.simps) simp
    qed
    let ?tw = "takeWhile (in_group pre) (map (row_of ?h) ys)"
    from Cons.IH[OF ok inT, of ?acc] obtain h p where
      h: "unhide_loop pre c ?t ?acc =
        Some (?acc @ map row_key (filter (\<lambda>r. length (row_cols r) = c) ?tw), t\<lparr>kt_heap := h, kt_cur := p\<rparr>)"
        "kt_ok (t\<lparr>kt_heap := h, kt_cur := p\<rparr>) T"
        "map (row_of h) (xs @ [a]) = map (row_of h1) (xs @ [a])"
        "map (row_of h) ys = map_group (show_if c) pre (map (row_of ?h) ys)"
      by (auto simp: h1(5))
    have "map (row_of h) (a # ys) = map_group (show_if c) pre (map (row_of ?h) (a # ys))"
      using h(3,4) h1(4) True by (simp add: map_group_Cons)
    moreover have "map (row_of h) xs = map (row_of ?h) xs" using h(3) h1(3) by simp
    ultimately show ?thesis using h(1,2) True n(2) unfolding run by (intro exI[of _ h] exI[of _ p]) auto
  qed
qed

subsection \<open>\<open>HideRows\<close> and \<open>UnhideRows\<close> on lists of rows\<close>

lemma shows_split:
  assumes "shows_rows fl t (as @ r # bs)"
  obtains T xs a ys where "kt_ok t T" "inorder T = xs @ a # ys" "as = map (row_of (kt_heap t)) xs"
    "r = row_of (kt_heap t) a" "bs = map (row_of (kt_heap t)) ys" "kt_map t (row_key r) = Some a"
    "rows.in_order fl (map row_cols (as @ r # bs))"
proof -
  from assms obtain T where T: "kt_ok t T" "as @ r # bs = rows_of t T" "rows.in_order fl (map row_cols (as @ r # bs))"
    unfolding shows_rows_def by blast
  from T(2)[unfolded rows_of_def, symmetric] obtain xs zs where
    "inorder T = xs @ zs" "map (row_of (kt_heap t)) xs = as" "map (row_of (kt_heap t)) zs = r # bs"
    by (auto simp: map_eq_append_conv)
  then obtain a ys where sp: "inorder T = xs @ a # ys" "as = map (row_of (kt_heap t)) xs"
    "r = row_of (kt_heap t) a" "bs = map (row_of (kt_heap t)) ys"
    by (cases zs) auto
  have "a \<in> set (inorder T)" using sp(1) by simp
  then have "kt_map t (row_key r) = Some a" using T(1) sp(3) by (simp add: kt_ok_def)
  then show ?thesis using that T sp by blast
qed

lemma shows_from_rows:
  assumes "kt_ok t T" "rows.in_order fl (map row_cols xs)" "rows_of t T = ys" "map row_cols ys = map row_cols xs"
  shows "shows_rows fl t ys"
  using assms unfolding shows_rows_def by metis

lemma map_group_cols:
  assumes "\<And>r. row_cols (f r) = row_cols r"
  shows "map row_cols (map_group f pre xs) = map row_cols xs"
proof -
  have "map row_cols (map_group f pre xs) = map row_cols (takeWhile (in_group pre) xs) @ map row_cols (dropWhile (in_group pre) xs)"
    by (simp add: map_group_def assms)
  also have "\<dots> = map row_cols (takeWhile (in_group pre) xs @ dropWhile (in_group pre) xs)" by (simp only: map_append)
  finally show ?thesis by simp
qed

lemma HideRows_run:
  assumes "shows_rows fl t (as @ r # bs)"
  shows "\<exists>t'. HideRows t (row_key r) = Some (erSuccess, map row_key (takeWhile (in_group (row_cols r)) bs), t') \<and>
    shows_rows fl t' (as @ r # map_group (set_row_hidden True) (row_cols r) bs)"
proof -
  from shows_split[OF assms] obtain T xs a ys where
    T: "kt_ok t T" "inorder T = xs @ a # ys" "as = map (row_of (kt_heap t)) xs" "r = row_of (kt_heap t) a"
      "bs = map (row_of (kt_heap t)) ys" "kt_map t (row_key r) = Some a"
    and ord: "rows.in_order fl (map row_cols (as @ r # bs))" by blast
  let ?h = "kt_heap t"
  obtain n where n: "?h a = Some n" "row_of ?h a = (tr_key n, tr_cols n, tr_fHidden n)" "Next ?h (Some a) = Some (first ys)"
    by (rule row_at_cursor[OF T(1,2)])
  let ?t = "t\<lparr>kt_cur := first ys\<rparr>"
  have inT: "inorder T = (xs @ [a]) @ ys" using T(2) by simp
  have ok: "kt_ok ?t T" using kt_ok_cur[OF T(1) first_inside[OF inT]] .
  let ?k = "length (takeWhile (in_group (tr_cols n)) bs)"
  from hide_loop_rows[OF ok inT, of "tr_cols n" "kt_cur t" "[]" False] obtain h where
    h: "hide_loop (tr_cols n) (kt_cur t) ?t [] False =
      Some (map row_key (takeWhile (in_group (tr_cols n)) bs), kt_cur t \<in> Some ` set (take ?k ys),
        t\<lparr>kt_heap := h, kt_cur := first (drop ?k ys)\<rparr>)"
      "kt_ok (t\<lparr>kt_heap := h, kt_cur := first (drop ?k ys)\<rparr>) T"
      "map (row_of h) (xs @ [a]) = map (row_of ?h) (xs @ [a])"
      "map (row_of h) ys = map_group (set_row_hidden True) (tr_cols n) bs"
    by (auto simp: T(5))
  let ?t1 = "t\<lparr>kt_heap := h, kt_cur := first (drop ?k ys)\<rparr>"
  have sh: "shows_rows fl (t\<lparr>kt_heap := h, kt_cur := p\<rparr>) (as @ r # map_group (set_row_hidden True) (row_cols r) bs)"
    if "inside (live t T) p" for p
  proof (rule shows_from_rows[OF _ ord])
    have "kt_ok (?t1\<lparr>kt_cur := p\<rparr>) T" by (rule kt_ok_cur[OF h(2)]) (use that in \<open>simp add: live_def\<close>)
    then show "kt_ok (t\<lparr>kt_heap := h, kt_cur := p\<rparr>) T" by simp
    show "rows_of (t\<lparr>kt_heap := h, kt_cur := p\<rparr>) T = as @ r # map_group (set_row_hidden True) (row_cols r) bs"
      using h(3,4) T(2-4) n(2) by (simp add: rows_of_def)
    show "map row_cols (as @ r # map_group (set_row_hidden True) (row_cols r) bs) = map row_cols (as @ r # bs)"
      using map_group_cols[of "set_row_hidden True"] by (simp add: set_row_hidden_def)
  qed
  have run: "HideRows t (row_key r) = (if kt_cur t \<notin> Some ` set (take ?k ys)
      then Some (erSuccess, map row_key (takeWhile (in_group (row_cols r)) bs), ?t1\<lparr>kt_cur := kt_cur t\<rparr>)
      else do { t' \<leftarrow> skip_hidden False ?t1; Some (erSuccess, map row_key (takeWhile (in_group (row_cols r)) bs), t') })"
    using T(6) n h(1) T(4) by (simp add: HideRows_def NextRow_def)
  have cur: "inside (live t T) (kt_cur t)" using T(1) by (simp add: kt_ok_def)
  have inT': "inorder T = (xs @ a # take ?k ys) @ drop ?k ys" using T(2) by simp
  from skip_hidden_forward[OF h(2) inT'] obtain p where
    "skip_hidden False ?t1 = Some (t\<lparr>kt_heap := h, kt_cur := p\<rparr>)" "inside (live t T) p" by (auto simp: live_def)
  then show ?thesis using sh[of p] sh[OF cur] run by (cases "kt_cur t \<in> Some ` set (take ?k ys)") simp_all
qed

lemma UnhideRows_run:
  assumes "shows_rows fl t (as @ r # bs)" "\<not> row_hidden r"
  defines "c \<equiv> length (row_cols (hd bs))"
  shows "\<exists>t'. UnhideRows t (row_key r) = Some (erSuccess,
      map row_key (filter (\<lambda>x. length (row_cols x) = c) (takeWhile (in_group (row_cols r)) bs)), t') \<and>
    shows_rows fl t' (as @ r # map_group (show_if c) (row_cols r) bs)"
proof -
  from shows_split[OF assms(1)] obtain T xs a ys where
    T: "kt_ok t T" "inorder T = xs @ a # ys" "as = map (row_of (kt_heap t)) xs" "r = row_of (kt_heap t) a"
      "bs = map (row_of (kt_heap t)) ys" "kt_map t (row_key r) = Some a"
    and ord: "rows.in_order fl (map row_cols (as @ r # bs))" by blast
  let ?h = "kt_heap t"
  obtain n where n: "?h a = Some n" "row_of ?h a = (tr_key n, tr_cols n, tr_fHidden n)" "Next ?h (Some a) = Some (first ys)"
    by (rule row_at_cursor[OF T(1,2)])
  have vis: "\<not> tr_fHidden n" using assms(2) T(4) n(2) by simp
  let ?t = "t\<lparr>kt_cur := first ys\<rparr>"
  have inT: "inorder T = (xs @ [a]) @ ys" using T(2) by simp
  have ok: "kt_ok ?t T" using kt_ok_cur[OF T(1) first_inside[OF inT]] .
  show ?thesis
  proof (cases ys)
    case Nil
    then have "UnhideRows t (row_key r) = Some (erSuccess, [], ?t)"
      using T(6) n vis by (simp add: UnhideRows_def Let_def NextRow_def)
    moreover have "rows_of ?t T = as @ r # bs" using T(2-5) by (simp add: rows_of_def)
    then have "shows_rows fl ?t (as @ r # bs)" using shows_from_rows[OF ok ord] by simp
    ultimately show ?thesis using Nil T(5) by (simp add: map_group_def)
  next
    case (Cons b ys')
    have "inorder T = (xs @ [a]) @ b # ys'" using T(2) Cons by simp
    from row_at_cursor[OF T(1) this] obtain m where m: "?h b = Some m" "row_of ?h b = (tr_key m, tr_cols m, tr_fHidden m)" by blast
    have c: "c = length (tr_cols m)" using m(2) T(5) Cons by (simp add: c_def)
    from unhide_loop_rows[OF ok inT, of "tr_cols n" c "[]"] obtain h p where
      h: "unhide_loop (tr_cols n) c ?t [] =
        Some (map row_key (filter (\<lambda>x. length (row_cols x) = c) (takeWhile (in_group (tr_cols n)) bs)), t\<lparr>kt_heap := h, kt_cur := p\<rparr>)"
        "kt_ok (t\<lparr>kt_heap := h, kt_cur := p\<rparr>) T"
        "map (row_of h) (xs @ [a]) = map (row_of ?h) (xs @ [a])"
        "map (row_of h) ys = map_group (show_if c) (tr_cols n) bs"
      by (auto simp: T(5))
    have "UnhideRows t (row_key r) = Some (erSuccess,
        map row_key (filter (\<lambda>x. length (row_cols x) = c) (takeWhile (in_group (row_cols r)) bs)), t\<lparr>kt_heap := h, kt_cur := p\<rparr>)"
      using T(4,6) n m(1) vis h(1) Cons c by (simp add: UnhideRows_def Let_def NextRow_def)
    moreover have "shows_rows fl (t\<lparr>kt_heap := h, kt_cur := p\<rparr>) (as @ r # map_group (show_if c) (row_cols r) bs)"
    proof (rule shows_from_rows[OF h(2) ord])
      show "rows_of (t\<lparr>kt_heap := h, kt_cur := p\<rparr>) T = as @ r # map_group (show_if c) (row_cols r) bs"
        using h(3,4) T(2-4) n(2) by (simp add: rows_of_def)
      show "map row_cols (as @ r # map_group (show_if c) (row_cols r) bs) = map row_cols (as @ r # bs)"
        using map_group_cols[of "show_if c"] by (simp add: show_if_def set_row_hidden_def)
    qed
    ultimately show ?thesis by blast
  qed
qed

text \<open>
  \<open>HideRows\<close> on the header of a group hides the rows behind it that agree with it in the columns
  of the header, and no others; it reports these rows in order and keeps a table in good order.
\<close>

theorem HideRows_group:
  assumes "shows_rows fl t (as @ r # bs)"
  shows "\<exists>t'. HideRows t (row_key r) = Some (erSuccess, map row_key (takeWhile (in_group (row_cols r)) bs), t') \<and>
    shows_rows fl t' (as @ r # map_group (set_row_hidden True) (row_cols r) bs)"
  using HideRows_run[OF assms] .

lemma map_group_twice:
  assumes "\<And>r. row_cols (f r) = row_cols r" "\<And>r. r \<in> set (takeWhile (in_group pre) xs) \<Longrightarrow> g (f r) = r"
  shows "map_group g pre (map_group f pre xs) = xs"
    "takeWhile (in_group pre) (map_group f pre xs) = map f (takeWhile (in_group pre) xs)"
  using assms(2)
proof (induction xs)
  case (Cons r xs)
  have "in_group pre (f r) = in_group pre r" by (simp add: in_group_def assms(1))
  note e = this
  { case 1
    then show ?case using Cons.IH(1) e by (auto simp: map_group_Cons split: if_splits)
  next
    case 2
    then show ?case using Cons.IH(2) e by (auto simp: map_group_Cons split: if_splits) }
qed (simp_all add: map_group_def)

text \<open>
  When the rows of a group are visible and have equally many columns, \<open>UnhideRows\<close> after
  \<open>HideRows\<close> reports the same rows and brings the table back to the rows that it had.
\<close>

theorem HideRows_UnhideRows:
  assumes "shows_rows fl t (as @ r # bs)" "\<not> row_hidden r"
    and "\<forall>x \<in> set (takeWhile (in_group (row_cols r)) bs). \<not> row_hidden x \<and> length (row_cols x) = length (row_cols (hd bs))"
  shows "\<exists>ks t1 t2. HideRows t (row_key r) = Some (erSuccess, ks, t1) \<and>
    UnhideRows t1 (row_key r) = Some (erSuccess, ks, t2) \<and> shows_rows fl t2 (as @ r # bs)"
proof -
  let ?pre = "row_cols r" and ?f = "set_row_hidden True" and ?c = "length (row_cols (hd bs))"
  let ?tw = "takeWhile (in_group ?pre) bs" and ?bs = "map_group (set_row_hidden True) (row_cols r) bs"
  have f: "row_cols (?f x) = row_cols x" "row_key (?f x) = row_key x" for x by (simp_all add: set_row_hidden_def)
  have c: "length (row_cols (hd ?bs)) = ?c"
    by (cases bs) (simp_all add: map_group_def set_row_hidden_def)
  have g: "show_if ?c (?f x) = x" if "x \<in> set ?tw" for x
    using assms(3) that by (cases x) (auto simp: show_if_def set_row_hidden_def)
  have tw: "map_group (show_if ?c) ?pre ?bs = bs" "takeWhile (in_group ?pre) ?bs = map ?f ?tw"
    by (rule map_group_twice(1)[OF f(1) g], assumption, rule map_group_twice(2)[OF f(1) g])
  from HideRows_run[OF assms(1)] obtain t1 where
    t1: "HideRows t (row_key r) = Some (erSuccess, map row_key ?tw, t1)" "shows_rows fl t1 (as @ r # ?bs)" by blast
  from UnhideRows_run[OF t1(2) assms(2)] obtain t2 where
    t2: "UnhideRows t1 (row_key r) = Some (erSuccess,
        map row_key (filter (\<lambda>x. length (row_cols x) = ?c) (takeWhile (in_group ?pre) ?bs)), t2)"
      "shows_rows fl t2 (as @ r # map_group (show_if ?c) ?pre ?bs)" unfolding c by blast
  have "filter (\<lambda>x. length (row_cols x) = ?c) (map ?f ?tw) = map ?f ?tw"
    using assms(3) by (intro filter_True) (auto simp: f)
  then have "map row_key (filter (\<lambda>x. length (row_cols x) = ?c) (takeWhile (in_group ?pre) ?bs)) = map row_key ?tw"
    unfolding tw(2) by (simp add: set_row_hidden_def)
  then show ?thesis using t1(1) t2 unfolding tw(1) by auto
qed

subsection \<open>A table with two groups\<close>

definition byte_cols :: "u8 list \<Rightarrow> sortcol list" where
  "byte_cols bs = map (\<lambda>b. \<lparr>sc_flags = 0, sc_key = [b]\<rparr>) bs"

definition group_row :: "u32 \<Rightarrow> u8 list \<Rightarrow> bool \<Rightarrow> row" where
  "group_row k bs hid = (\<lparr>ulObjId = k, ulOrderId = 0\<rparr>, byte_cols bs, hid)"

lemma group_fits: "length bs \<le> n \<Longrightarrow> fits (replicate n 0) (byte_cols bs)"
  by (simp add: byte_cols_def fits_def sane_def flag_defs list_all_iff comp_def map_replicate_const)

lemma byte_cols_before: "rowcompare (byte_cols as) (byte_cols bs) \<longleftrightarrow> as < bs"
proof (induction as arbitrary: bs)
  case Nil
  then show ?case by (simp add: byte_cols_def)
next
  case (Cons a as)
  show ?case
  proof (cases bs)
    case (Cons b bs')
    have "rowcompare (byte_cols (a # as)) (byte_cols (b # bs')) \<longleftrightarrow> a < b \<or> a = b \<and> rowcompare (byte_cols as) (byte_cols bs')"
      unfolding byte_cols_def list.map
      by (subst rowcompare_Cons) (simp_all add: sane_def flag_defs col_before_def col_rank_def)
    then show ?thesis using Cons.IH[of bs'] Cons by simp
  qed (simp add: byte_cols_def)
qed

lemma group_before: "before_row (group_row k as hid) (group_row k' bs hid') \<longleftrightarrow> as < bs"
  by (simp add: before_row_def group_row_def byte_cols_before)

lemma group_in_group: "in_group (byte_cols as) (group_row k bs hid) \<longleftrightarrow> \<not> as < take (length as) bs"
proof -
  have "take n (byte_cols cs) = byte_cols (take n cs)" for n cs by (simp add: byte_cols_def take_map)
  moreover have "length (byte_cols as) = length as" by (simp add: byte_cols_def)
  ultimately show ?thesis by (simp add: in_group_def rowcompareprefix_def group_row_def byte_cols_before)
qed

lemma group_row_simps [simp]:
  "row_key (group_row k bs hid) = \<lparr>ulObjId = k, ulOrderId = 0\<rparr>" "row_cols (group_row k bs hid) = byte_cols bs"
  "row_hidden (group_row k bs hid) = hid" "length (byte_cols bs) = length bs"
  "set_row_hidden b (group_row k bs hid) = group_row k bs b"
  by (simp_all add: group_row_def byte_cols_def set_row_hidden_def)

lemma group_table:
  "\<exists>t. shows_rows [0, 0] t [group_row 1 [5] False, group_row 2 [5, 1] False, group_row 3 [5, 2] False, group_row 4 [6] False]"
proof -
  let ?us = "[(TABLE_ROW_ADD, group_row 3 [5, 2] False), (TABLE_ROW_ADD, group_row 4 [6] False),
    (TABLE_ROW_ADD, group_row 1 [5] False), (TABLE_ROW_ADD, group_row 2 [5, 1] False)]"
  have "snd (run_spec key_spec ?us []) =
      [group_row 1 [5] False, group_row 2 [5, 1] False, group_row 3 [5, 2] False, group_row 4 [6] False]"
    by (simp add: key_spec_def updated_rows_def find_row_def place_row_def group_before)
  moreover have "list_all (\<lambda>(ty, x). fits [0, 0] (row_cols x)) ?us"
    using group_fits[of _ 2] by (simp add: numeral_2_eq_2)
  ultimately show ?thesis using kts.run_simulates[OF new_table_shows, of "[0, 0]" ?us] by metis
qed

theorem HideRows_group_witness:
  "\<exists>t t'. HideRows t \<lparr>ulObjId = 1, ulOrderId = 0\<rparr> =
      Some (erSuccess, [\<lparr>ulObjId = 2, ulOrderId = 0\<rparr>, \<lparr>ulObjId = 3, ulOrderId = 0\<rparr>], t') \<and>
    shows_rows [0, 0] t' [group_row 1 [5] False, group_row 2 [5, 1] True, group_row 3 [5, 2] True, group_row 4 [6] False]"
proof -
  obtain t where t: "shows_rows [0, 0] t ([] @ group_row 1 [5] False #
      [group_row 2 [5, 1] False, group_row 3 [5, 2] False, group_row 4 [6] False])"
    using group_table by auto
  show ?thesis using HideRows_group[OF t] by (auto simp: map_group_def group_in_group)
qed

theorem HideRows_UnhideRows_witness:
  "\<exists>t ks t1 t2. HideRows t \<lparr>ulObjId = 1, ulOrderId = 0\<rparr> = Some (erSuccess, ks, t1) \<and>
    UnhideRows t1 \<lparr>ulObjId = 1, ulOrderId = 0\<rparr> = Some (erSuccess, ks, t2) \<and>
    shows_rows [0, 0] t2 [group_row 1 [5] False, group_row 2 [5, 1] False, group_row 3 [5, 2] False, group_row 4 [6] False]"
proof -
  obtain t where t: "shows_rows [0, 0] t ([] @ group_row 1 [5] False #
      [group_row 2 [5, 1] False, group_row 3 [5, 2] False, group_row 4 [6] False])"
    using group_table by auto
  show ?thesis using HideRows_UnhideRows[OF t] by (auto simp: group_in_group)
qed

end
