(* ===== verification/Key_Limits.thy ===== *)
theory Key_Limits
  imports Key_Hide
begin

text \<open>
  The rest of the key table of \<^verbatim>\<open>common/ECKeyTable.cpp\<close>: emptying it, seeking from any origin, the
  depth of its tree, and runs that show where the code does less than it says.
\<close>

subsection \<open>Emptying the table\<close>

text \<open>The store after the rows of a leg have been freed, with the pointer to the leg set to null.\<close>

definition freed :: "nat \<Rightarrow> path \<Rightarrow> nat tree \<Rightarrow> heap \<Rightarrow> heap" where
  "freed R c t h = (\<lambda>b. if b \<in> set_tree t then None
     else if b = par_of R c then map_option (relink c None) (h b) else h b)"

lemma relink_same: "h (par_of R c) = Some P \<Longrightarrow> repc R h p c \<Longrightarrow> relink c p P = P"
  by (cases c; cases P) (auto simp: relink_def)

lemma freed_Leaf: "repc R h None c \<Longrightarrow> freed R c Leaf h = h"
proof
  fix b
  assume rc: "repc R h None c"
  obtain P where P: "h (par_of R c) = Some P" by (rule repc_par[OF rc])
  show "freed R c Leaf h b = h b" using relink_same[OF P rc] P by (simp add: freed_def)
qed

lemma Clear_leg:
  assumes "repc R h (ptr t) c" "rep h (par_of R c) (side_of c) t" "distinct (R # inorder t @ path_rows c)" "ptr t = Some a"
  shows "Clear_loop R h a = Clear_loop R (freed R c t h) (par_of R c)"
  using assms
proof (induction t arbitrary: h c a)
  case (Node l x r)
  have ax: "a = x" using Node.prems(4) by simp
  have d: "x \<noteq> R" "x \<notin> set_tree l" "x \<notin> set_tree r" "x \<notin> set (path_rows c)" "R \<notin> set_tree l" "R \<notin> set_tree r"
      "R \<notin> set (path_rows c)" "set_tree l \<inter> set_tree r = {}" "set_tree l \<inter> set (path_rows c) = {}"
      "set_tree r \<inter> set (path_rows c) = {}" "distinct (inorder l)" "distinct (inorder r)" "distinct (path_rows c)"
    using Node.prems(3) by auto
  have px: "par_of R c \<noteq> x" "par_of R c \<notin> set_tree l" "par_of R c \<notin> set_tree r"
    using d par_of_in[of R c] by auto
  obtain n where n: "h x = Some n" "tr_parent n = Some (par_of R c)" "tr_fLeft n = side_of c" "tr_left n = ptr l" "tr_right n = ptr r"
    and rl: "rep h x True l" and rr: "rep h x False r" using Node.prems(2) by auto
  have rcl: "repc R h (ptr l) (StepL x r # c)"
    using rep_focus_up[of R h l "StepL x r" c] Node.prems(1,2) by simp
  let ?h1 = "freed R (StepL x r # c) l h"
  have run1: "Clear_loop R h x = Clear_loop R ?h1 x"
  proof (cases l)
    case Leaf
    then have "?h1 = h" using freed_Leaf[of R h "StepL x r # c"] rcl by simp
    then show ?thesis by simp
  next
    case (Node ll y lr)
    have "Clear_loop R h x = Clear_loop R h y"
      using n Node by (subst Clear_loop.simps) simp
    moreover have "Clear_loop R h y = Clear_loop R ?h1 x"
      using Node.IH(1)[OF rcl _ _, of y] rl d Node by auto
    ultimately show ?thesis by simp
  qed
  have out1: "?h1 b = h b" if "b \<notin> set_tree l" "b \<noteq> x" for b using that by (simp add: freed_def)
  have n1: "?h1 x = Some (n\<lparr>tr_left := None\<rparr>)" using n(1) d by (simp add: freed_def relink_def)
  have rr1: "rep ?h1 x False r" using rr d by (subst rep_frame[of r ?h1 h]) (auto intro!: out1)
  have rc1: "repc R ?h1 (Some x) c"
  proof -
    have "repc R ?h1 (Some x) c = repc R h (Some x) c"
      by (rule repc_frame) (use d in \<open>auto intro!: out1\<close>)
    then show ?thesis using Node.prems(1) by simp
  qed
  have rcr: "repc R ?h1 (ptr r) (StepR Leaf x # c)"
    using n1 n rc1 Node.prems(2) d by (auto simp: px)
  let ?h2 = "freed R (StepR Leaf x # c) r ?h1"
  have run2: "Clear_loop R ?h1 x = Clear_loop R ?h2 x"
  proof (cases r)
    case Leaf
    then have "?h2 = ?h1" using freed_Leaf[of R ?h1 "StepR Leaf x # c"] rcr by simp
    then show ?thesis by simp
  next
    case (Node rl y rr)
    have "Clear_loop R ?h1 x = Clear_loop R ?h1 y"
      using n1 n Node by (subst Clear_loop.simps) simp
    moreover have "Clear_loop R ?h1 y = Clear_loop R ?h2 x"
      using Node.IH(2)[OF rcr _ _, of y] rr1 d Node by auto
    ultimately show ?thesis by simp
  qed
  have n2: "?h2 x = Some (n\<lparr>tr_left := None, tr_right := None\<rparr>)" using n(1) d by (simp add: freed_def relink_def)
  obtain P where P: "h (par_of R c) = Some P" by (rule repc_par[OF Node.prems(1)])
  have P2: "?h2 (par_of R c) = Some P" using P px by (simp add: freed_def)
  have "Clear_loop R ?h2 x = Clear_loop R (?h2(par_of R c \<mapsto> relink c None P, x := None)) (par_of R c)"
    using n2 n(2,3) d(1) P2 by (subst Clear_loop.simps) (simp add: set_child_relink)
  moreover have "?h2(par_of R c \<mapsto> relink c None P, x := None) = freed R c (Node l x r) h"
    using P px d by (auto simp: freed_def fun_eq_iff)
  ultimately show ?case using run1 run2 ax by simp
qed simp

lemma Clear_run:
  assumes "shows_rows fl t xs"
  shows "\<exists>t'. Clear t = Some t' \<and> shows_rows fl t' [] \<and> kt_cur t' = Some (kt_root t') \<and> kt_bms t' = []"
proof -
  from assms obtain T where ok: "kt_ok t T" by (auto simp: shows_rows_def)
  let ?R = "kt_root t" and ?h = "kt_heap t"
  have w: "wf_tab ?R ?h T" using ok by (auto simp: kt_ok_def kt_store_def)
  obtain Q where Q: "?h ?R = Some Q" "tr_fRoot Q" "tr_parent Q = None" "\<not> tr_fLeft Q" "tr_left Q = None" "tr_right Q = ptr T"
    "tr_key Q = zero_key" using ok by (auto simp: kt_ok_def kt_store_def wf_tab_def)
  let ?h1 = "freed ?R [] T ?h"
  have rc: "repc ?R ?h (ptr T) []" "rep ?h ?R False T" using w by (simp_all add: wf_tab_def del: repc.simps)
  have RT: "?R \<notin> set_tree T" using wf_distinct[OF w] by blast
  have h1R: "?h1 ?R = Some (Q\<lparr>tr_right := None\<rparr>)" using Q(1) RT by (simp add: freed_def relink_def)
  then have "Clear_loop ?R ?h1 ?R = Some ?h1" using Q(5) by (subst Clear_loop.simps) simp
  moreover have "Clear_loop ?R ?h ?R = Clear_loop ?R ?h1 ?R"
  proof (cases T)
    case Leaf
    then show ?thesis using freed_Leaf[of ?R ?h "[]"] rc(1) by simp
  next
    case (Node l a r)
    have "Clear_loop ?R ?h ?R = Clear_loop ?R ?h a" using Q Node by (subst Clear_loop.simps) simp
    moreover have "Clear_loop ?R ?h a = Clear_loop ?R ?h1 (par_of ?R [])"
      by (rule Clear_leg[OF rc(1)]) (use rc(2) w Node in \<open>auto simp: wf_tab_def\<close>)
    ultimately show ?thesis by simp
  qed
  ultimately have run: "Clear t = Some (t\<lparr>kt_heap := ?h1(?R \<mapsto> Q\<lparr>tr_right := None, tr_count := 0\<rparr>), kt_cur := Some ?R,
      kt_map := Map.empty, kt_bms := []\<rparr>)" (is "_ = Some ?t")
    using h1R by (simp add: Clear_def upd_def)
  have dom: "dom ?h = insert ?R (set_tree T)" using ok by (simp add: kt_ok_def live_def)
  have "dom (kt_heap ?t) = {?R}"
  proof (rule set_eqI)
    fix b
    show "b \<in> dom (kt_heap ?t) \<longleftrightarrow> b \<in> {?R}"
      using dom by (cases "b = ?R"; cases "b \<in> set_tree T") (auto simp: freed_def dom_def)
  qed
  then have "kt_ok ?t Leaf"
    using ok Q by (auto simp: kt_ok_def kt_store_def wf_tab_def live_def vis_def)
  then have "shows_rows fl ?t []" by (auto simp: shows_rows_def rows_of_def intro!: exI[of _ Leaf])
  then show ?thesis using run by auto
qed

text \<open>
  \<open>Clear\<close> frees every row of a table in good order, ends, and leaves an empty table with the
  cursor at the start and no bookmark.
\<close>

theorem Clear_empties:
  assumes "shows_rows fl t xs"
  shows "\<exists>t'. Clear t = Some t' \<and> shows_rows fl t' [] \<and> kt_cur t' = Some (kt_root t') \<and> kt_bms t' = []"
  using Clear_run[OF assms] .

theorem Clear_empties_witness:
  "\<exists>t t'. shows_rows [0] t demo_rows \<and> Clear t = Some t' \<and> shows_rows [0] t' []"
proof -
  obtain t where t: "shows_rows [0] t demo_rows" using demo_table by blast
  from Clear_empties[OF t] t show ?thesis by blast
qed

subsection \<open>The depth of the tree\<close>

lemma avl_size: "avl T \<Longrightarrow> 2 ^ (height T div 2) \<le> size T + 1"
proof (induction T)
  case (Node l a r)
  have pow: "(2 :: nat) ^ (k div 2) \<le> 2 ^ (m div 2)" if "k \<le> m" for k m
    using that by (intro power_increasing div_le_mono) auto
  show ?case
  proof (cases "height l \<le> height r")
    case True
    then have h: "height r = height l \<or> height r = Suc (height l)" using Node.prems by auto
    have "2 ^ (height (Node l a r) div 2) \<le> 2 ^ (height l div 2) + (2 :: nat) ^ (height r div 2)"
    proof -
      have "height (Node l a r) div 2 \<le> Suc (height l div 2)" using h True by auto
      then have "(2 :: nat) ^ (height (Node l a r) div 2) \<le> 2 ^ Suc (height l div 2)" by (intro power_increasing) auto
      then show ?thesis using pow[OF True] unfolding power_Suc by linarith
    qed
    then show ?thesis using Node by simp
  next
    case False
    then have h: "height l = Suc (height r)" using Node.prems by auto
    have "2 ^ (height (Node l a r) div 2) \<le> 2 ^ (height l div 2) + (2 :: nat) ^ (height r div 2)"
    proof -
      have "height (Node l a r) div 2 \<le> Suc (height r div 2)" using h by auto
      then have "(2 :: nat) ^ (height (Node l a r) div 2) \<le> 2 ^ Suc (height r div 2)" by (intro power_increasing) auto
      moreover have "(2 :: nat) ^ (height r div 2) \<le> 2 ^ (height l div 2)" using h by (intro pow) simp
      ultimately show ?thesis unfolding power_Suc by linarith
    qed
    then show ?thesis using Node by simp
  qed
qed simp

text \<open>A chain of links to children, from the row at \<open>a\<close> down.\<close>

fun child_path :: "heap \<Rightarrow> nat \<Rightarrow> nat list \<Rightarrow> bool" where
  "child_path h a [] \<longleftrightarrow> True"
| "child_path h a (b # bs) \<longleftrightarrow>
     (case h a of None \<Rightarrow> False | Some n \<Rightarrow> (tr_left n = Some b \<or> tr_right n = Some b) \<and> child_path h b bs)"

lemma rep_path: "rep h p fl T \<Longrightarrow> ptr T = Some a \<Longrightarrow> child_path h a bs \<Longrightarrow> length bs < height T"
proof (induction T arbitrary: p fl a bs)
  case (Node l x r)
  show ?case
  proof (cases bs)
    case (Cons b cs)
    have "child_path h b cs" "ptr l = Some b \<or> ptr r = Some b" using Node.prems Cons by auto
    moreover have "rep h x True l" "rep h x False r" using Node.prems(1) by auto
    ultimately have "length cs < height l \<or> length cs < height r" using Node.IH by blast
    then show ?thesis using Cons by auto
  qed simp
qed simp

lemma wf_tab_path:
  assumes "wf_tab R h T" "child_path h R bs"
  shows "length bs \<le> height T"
proof (cases bs)
  case (Cons b cs)
  have "ptr T = Some b" "child_path h b cs" using assms Cons by (auto simp: wf_tab_def)
  moreover have "rep h R False T" using assms(1) by (simp add: wf_tab_def)
  ultimately show ?thesis using rep_path Cons by fastforce
qed simp

text \<open>
  C17: in a table built from nothing by any sequence of \<open>UpdateRow\<close> calls, insertions, changes and deletions, no
  chain of child links from the root row is longer than \<open>2 * log 2 (m + 1) + 1\<close>, where \<open>m\<close> is the number of rows
  that are left, whatever their order of arrival; this bounds the walks of \<open>SeekRow\<close>, \<open>UpdateRow\<close> and
  \<open>LowerBound\<close>.
\<close>

theorem depth_bound:
  assumes "list_all (\<lambda>(ty, x). fits fl (row_cols x)) us" "run_steps key_step us ECKeyTable = Some (rs, t)"
    "child_path (kt_heap t) (kt_root t) as"
  shows "2 ^ (length as div 2) \<le> length (snd (run_spec key_spec us [])) + 1"
proof -
  have "shows_rows fl t (snd (run_spec key_spec us []))"
    using kts.run_simulates[OF new_table_shows assms(1)] assms(2) by auto
  then obtain T where T: "kt_ok t T" "snd (run_spec key_spec us []) = rows_of t T" by (auto simp: shows_rows_def)
  have w: "wf_tab (kt_root t) (kt_heap t) T" "avl T" using T(1) by (auto simp: kt_ok_def kt_store_def)
  have "(2 :: nat) ^ (length as div 2) \<le> 2 ^ (height T div 2)"
    using wf_tab_path[OF w(1) assms(3)] by (intro power_increasing div_le_mono) simp_all
  also have "\<dots> \<le> length (snd (run_spec key_spec us [])) + 1"
    using avl_size[OF w(2)] T(2) by (simp add: rows_of_def)
  finally show ?thesis .
qed

text \<open>Eight rows that arrive in their order: a path to the last one has four rows.\<close>

definition demo_updates :: "u8 list \<Rightarrow> (update_type \<times> row) list" where
  "demo_updates bs = map (\<lambda>b. (TABLE_ROW_ADD, demo_row (ucast b) b False)) bs"

lemma depth_bound_witness:
  "\<exists>rs t. run_steps key_step (demo_updates [1, 2, 3, 4, 5, 6, 7, 8]) ECKeyTable = Some (rs, t) \<and>
    child_path (kt_heap t) (kt_root t) [4, 6, 7, 8] \<and>
    2 ^ (length [4, 6, 7, 8 :: nat] div 2) \<le> length (snd (run_spec key_spec (demo_updates [1, 2, 3, 4, 5, 6, 7, 8]) [])) + 1"
proof -
  let ?us = "demo_updates [1, 2, 3, 4, 5, 6, 7, 8]"
  have f: "list_all (\<lambda>(ty, x). fits [0] (row_cols x)) ?us" by (simp add: demo_updates_def demo_fits)
  have "(case run_steps key_step ?us ECKeyTable of None \<Rightarrow> False
      | Some (rs, t) \<Rightarrow> child_path (kt_heap t) (kt_root t) [4, 6, 7, 8])" by code_simp
  then obtain rs t where "run_steps key_step ?us ECKeyTable = Some (rs, t)" "child_path (kt_heap t) (kt_root t) [4, 6, 7, 8]"
    by (auto split: option.splits)
  then show ?thesis using depth_bound[OF f] by blast
qed

subsection \<open>Seeking from any origin\<close>

lemma GetBookmark_total:
  assumes ok: "kt_ok t T"
  shows "GetBookmark t bk \<noteq> None"
proof (cases "map_of (kt_bms t) bk")
  case None
  then show ?thesis by (simp add: GetBookmark_def)
next
  case (Some b)
  then have "(bk, b) \<in> set (kt_bms t)" by (rule map_of_SomeD)
  then have "inside (live t T) (bm_pos b)" using ok by (auto simp: kt_ok_def)
  then obtain c where "CurrentRow t (bm_pos b) = Some c"
    using CurrentRow_live[of t T "bm_pos b"] ok by (auto simp: kt_ok_def kt_store_def)
  then show ?thesis using Some by (simp add: GetBookmark_def)
qed

text \<open>
  C16: from any origin and by any distance, also from a bookmark that is gone and by distances that
  leave the table or overflow an \<open>int\<close>, \<open>SeekRow\<close> ends without reading a freed row, and leaves the rows,
  the bookmarks and the map as they were and the cursor on a row of the table, before it or past its end.
\<close>

theorem SeekRow_safe:
  assumes "shows_rows fl t xs"
  shows "\<exists>er s p. SeekRow t orig d = Some (er, s, t\<lparr>kt_cur := p\<rparr>) \<and> shows_rows fl (t\<lparr>kt_cur := p\<rparr>) xs"
proof -
  from assms obtain T where T: "kt_ok t T" "xs = rows_of t T" by (auto simp: shows_rows_def)
  have w: "wf_tab (kt_root t) (kt_heap t) T" using T(1) by (auto simp: kt_ok_def kt_store_def)
  have cur: "inside (live t T) (kt_cur t)" using T(1) by (simp add: kt_ok_def)
  obtain c where "CurrentRow t (kt_cur t) = Some c" using CurrentRow_live[OF w cur] by blast
  from SeekRow_total[OF w this GetBookmark_total[OF T(1)], of orig d] obtain er s p where
    "SeekRow t orig d = Some (er, s, t\<lparr>kt_cur := p\<rparr>)" "inside (live t T) p \<or> p = kt_cur t" by blast
  moreover from this cur have "inside (live t T) p" by auto
  ultimately show ?thesis using shows_cur[OF assms T] by blast
qed

theorem SeekRow_safe_witness:
  "\<exists>t er s p. shows_rows [0] t demo_rows \<and> SeekRow t EC_SEEK_CUR (- 5) = Some (er, s, t\<lparr>kt_cur := p\<rparr>)"
proof -
  obtain t where t: "shows_rows [0] t demo_rows" using demo_table by blast
  from SeekRow_safe[OF t, of EC_SEEK_CUR "- 5"] t show ?thesis by blast
qed

subsection \<open>Runs that show what the code does not do\<close>

text \<open>Tables of visible rows with one byte as sort key, which is also the id.\<close>

definition demo_built :: "u8 list \<Rightarrow> keytable option" where
  "demo_built bs = map_option snd (run_steps key_step (demo_updates bs) ECKeyTable)"

text \<open>
  Deleting the row under the cursor does not move the cursor to the next row: with the cursor on
  row 3 of the rows 1, 2, 3, 4, 6 it ends on row 2. The two seeks start from a row that is no longer
  linked and whose cached count is that from before.
\<close>

theorem delete_moves_cursor_back:
  "do { t \<leftarrow> demo_built [4, 2, 6, 1, 3];
        let (er, t) = SeekId t \<lparr>ulObjId = 3, ulOrderId = 0\<rparr>;
        (x, t) \<leftarrow> key_step (TABLE_ROW_DELETE, demo_row 3 3 False) t;
        (ks, t) \<leftarrow> QueryRows t 1 False True True;
        Some (er, ks) } = Some (erSuccess, [\<lparr>ulObjId = 2, ulOrderId = 0\<rparr>])"
  by code_simp

text \<open>
  Reading backwards stops at the row that is at the top of the tree, not at the first row: of
  the rows 1, 2, 3, 4, 6 a client that reads five rows backwards from the end gets 6 and 4.
\<close>

theorem backward_stops_at_top:
  "do { t \<leftarrow> demo_built [4, 2, 6, 1, 3];
        t \<leftarrow> seek_to t EC_SEEK_END 0;
        (ks, t) \<leftarrow> QueryRows t 5 True False True;
        Some ks } = Some [\<lparr>ulObjId = 6, ulOrderId = 0\<rparr>, \<lparr>ulObjId = 4, ulOrderId = 0\<rparr>]"
  by code_simp

text \<open>
  with a descending column of floating point numbers a row with a NaN is before itself, so the row
  order is no order then.
\<close>

theorem nan_before_itself:
  "rowcompare [\<lparr>sc_flags = 3, sc_key = [0, 0, 0, 0, 0, 0, 248, 127]\<rparr>]
     [\<lparr>sc_flags = 3, sc_key = [0, 0, 0, 0, 0, 0, 248, 127]\<rparr>]"
  by (simp add: flag_defs col_cmp_def dbl_cmp_def dbl_nan_def dbl_magnitude_def)

text \<open>
  On rows whose columns follow a common list of flags and that hold no NaN, the row order is a
  strict weak order: no two rows are before each other, and a row that is before another one is
  before every third row or behind which the third row is not.
\<close>

theorem rowcompare_weak_order:
  assumes "fits fl as" "fits fl bs" "fits fl cs"
  shows "\<not> (rowcompare as bs \<and> rowcompare bs as) \<and> (rowcompare as cs \<longrightarrow> rowcompare as bs \<or> rowcompare bs cs)"
  using rowcompare_asym[OF assms(1,2)] rowcompare_negtrans[OF assms] by blast

theorem rowcompare_weak_order_witness:
  "fits [1] [\<lparr>sc_flags = 1, sc_key = [7]\<rparr>] \<and>
    \<not> (rowcompare [\<lparr>sc_flags = 1, sc_key = [7 :: u8]\<rparr>] [] \<and> rowcompare [] [\<lparr>sc_flags = 1, sc_key = [7]\<rparr>])"
proof -
  have f: "fits [1] [\<lparr>sc_flags = 1, sc_key = [7 :: u8]\<rparr>]" "fits [1 :: u8] []"
    by (simp_all add: fits_def sane_def flag_defs)
  show ?thesis using rowcompare_weak_order[OF f(1) f(2) f(2)] f(1) by blast
qed

end
