(* ===== verification/Cache.thy ===== *)
theory Cache
  imports Zcp_Prelude "HOL-Library.AList"
begin

text \<open>
  The template \<open>ECCache\<close> of \<^verbatim>\<open>common/ECCache.h\<close>: a keyed store with a byte budget and an age limit
  that drops its oldest five per cent when it is over budget. The container is an association
  list in the order in which the container iterates; where a hash map or a tree puts a new key
  is a parameter, and so are the sizes of the entries. The lemmas say what a cache may forget
  and what it never makes up, keep the byte count, and state as a locale what a reader relies on.
\<close>

subsection \<open>State\<close>

record ('k, 'v) cache_cfg =
  cf_MaxSize :: u64
  cf_MaxAge :: int
  cf_slot :: u64                        \<comment> \<open>\<open>sizeof(value_type) + sizeof(_MapType)\<close>\<close>
  cf_ksize :: "'k \<Rightarrow> u32"               \<comment> \<open>\<open>GetCacheAdditionalSize(key)\<close>\<close>
  cf_vsize :: "'v \<Rightarrow> u32"               \<comment> \<open>\<open>GetCacheAdditionalSize(value)\<close>\<close>
  cf_place :: "'k \<Rightarrow> 'k list \<Rightarrow> nat"     \<comment> \<open>where the container puts a new key\<close>

record ('k, 'v) eccache =
  cc_map :: "('k \<times> 'v \<times> int) list"      \<comment> \<open>key, value, \<open>ulLastAccess\<close>\<close>
  cc_size :: u64
  cc_hit :: u64
  cc_valid :: u64

definition new_cache :: "('k, 'v) eccache" where
  "new_cache = \<lparr>cc_map = [], cc_size = 0, cc_hit = 0, cc_valid = 0\<rparr>"

definition ClearCache :: "('k, 'v) eccache \<Rightarrow> ('k, 'v) eccache" where
  "ClearCache c = c\<lparr>cc_map := [], cc_size := 0, cc_hit := 0, cc_valid := 0\<rparr>"

definition ItemCount :: "('k, 'v) eccache \<Rightarrow> nat" where
  "ItemCount c = length (cc_map c)"

definition Cache_Size :: "('k, 'v) cache_cfg \<Rightarrow> ('k, 'v) eccache \<Rightarrow> u64" where
  "Cache_Size cf c = word_of_nat (length (cc_map c)) * cf_slot cf + cc_size c"

subsection \<open>Operations\<close>

definition RemoveCacheItem ::
  "('k, 'v) cache_cfg \<Rightarrow> ('k, 'v) eccache \<Rightarrow> 'k \<Rightarrow> ecresult \<times> ('k, 'v) eccache" where
  "RemoveCacheItem cf c k =
     (case map_of (cc_map c) k of
        None \<Rightarrow> (ZARAFA_E_NOT_FOUND, c)
      | Some (v, t) \<Rightarrow>
          (erSuccess,
           c\<lparr>cc_size := cc_size c - ucast (cf_vsize cf v) - ucast (cf_ksize cf k),
             cc_map := AList.delete k (cc_map c)\<rparr>))"

text \<open>
  \<open>GetCacheItem\<close>. One expired hit sweeps every expired item out; the byte count is left as it was.
\<close>

definition GetCacheItem ::
  "('k, 'v) cache_cfg \<Rightarrow> int \<Rightarrow> ('k, 'v) eccache \<Rightarrow> 'k \<Rightarrow> (ecresult + 'v) \<times> ('k, 'v) eccache" where
  "GetCacheItem cf now c k =
     (let (r, m) =
        (case map_of (cc_map c) k of
           None \<Rightarrow> (Inl ZARAFA_E_NOT_FOUND, cc_map c)
         | Some (v, t) \<Rightarrow>
             if cf_MaxAge cf \<noteq> 0 \<and> now - t \<ge> cf_MaxAge cf
             then (Inl ZARAFA_E_NOT_FOUND,
                   filter (\<lambda>(k', v', t'). \<not> now - t' \<ge> cf_MaxAge cf) (cc_map c))
             else (Inr v,
                   if cf_MaxAge cf = 0 then AList.update k (v, now) (cc_map c) else cc_map c))
      in (r, c\<lparr>cc_map := m, cc_hit := cc_hit c + 1,
               cc_valid := (case r of Inl _ \<Rightarrow> cc_valid c | Inr _ \<Rightarrow> cc_valid c + 1)\<rparr>))"

text \<open>On an ordered container; \<open>lower_bound\<close> and \<open>upper_bound\<close> are its iterators.\<close>

definition GetCacheRange ::
  "('k::linorder, 'v) eccache \<Rightarrow> 'k \<Rightarrow> 'k \<Rightarrow> ('k \<times> 'v) list" where
  "GetCacheRange c lower upper =
     map (\<lambda>(k, v, t). (k, v))
       (takeWhile (\<lambda>(k, v, t). \<not> upper < k) (dropWhile (\<lambda>(k, v, t). k < lower) (cc_map c)))"

text \<open>
  \<open>(unsigned int)(m_map.size() * 0.05F)\<close>: both factors and the product are rounded to the 24
  significant bits of a \<open>float\<close>, ties to even, and \<open>0.05F\<close> is \<open>13421773 / 2 ^ 28\<close>.
\<close>

fun bits :: "nat \<Rightarrow> nat" where
  "bits n = (if n = 0 then 0 else Suc (bits (n div 2)))"

declare bits.simps [simp del]

definition round24 :: "nat \<Rightarrow> nat" where
  "round24 m =
     (if m < 2 ^ 24 then m
      else (let e = bits m - 24; q = m div 2 ^ e; r = m mod 2 ^ e; half = 2 ^ (e - 1)
            in (if r > half \<or> (r = half \<and> odd q) then Suc q else q) * 2 ^ e))"

definition purge_count :: "nat \<Rightarrow> nat" where
  "purge_count n = round24 (round24 n * 13421773) div 2 ^ 28"

text \<open>\<open>PurgeCache(0.05F)\<close>: the entries by age, oldest first, and the first of them dropped.\<close>

definition drop_entry ::
  "('k, 'v) cache_cfg \<Rightarrow> 'k \<times> 'v \<times> int \<Rightarrow> ('k, 'v) eccache \<Rightarrow> ('k, 'v) eccache" where
  "drop_entry cf e c =
     (case e of (k, v, t) \<Rightarrow>
        c\<lparr>cc_size := cc_size c - ucast (cf_vsize cf v) - ucast (cf_ksize cf k),
          cc_map := AList.delete k (cc_map c)\<rparr>)"

definition PurgeCache :: "('k, 'v) cache_cfg \<Rightarrow> ('k, 'v) eccache \<Rightarrow> ('k, 'v) eccache" where
  "PurgeCache cf c =
     fold (drop_entry cf)
       (take (purge_count (length (cc_map c))) (sort_key (\<lambda>(k, v, t). t) (cc_map c))) c"

definition UpdateCache :: "('k, 'v) cache_cfg \<Rightarrow> ('k, 'v) eccache \<Rightarrow> ('k, 'v) eccache" where
  "UpdateCache cf c = (if Cache_Size cf c > cf_MaxSize cf then PurgeCache cf c else c)"

definition insert_at :: "nat \<Rightarrow> 'a \<Rightarrow> 'a list \<Rightarrow> 'a list" where
  "insert_at p e m = take p m @ e # drop p m"

definition AddCacheItem ::
  "('k, 'v) cache_cfg \<Rightarrow> int \<Rightarrow> ('k, 'v) eccache \<Rightarrow> 'k \<Rightarrow> 'v \<Rightarrow> ('k, 'v) eccache" where
  "AddCacheItem cf now c k v =
     (if cf_MaxSize cf = 0 then c
      else (case map_of (cc_map c) k of
        Some (v', t) \<Rightarrow>
          c\<lparr>cc_size := cc_size c + scast (cf_vsize cf v - cf_vsize cf v'),
            cc_map := AList.update k (v, now) (cc_map c)\<rparr>
      | None \<Rightarrow>
          (let p = cf_place cf k (map fst (cc_map c)) in
           UpdateCache cf
             (c\<lparr>cc_size := cc_size c + ucast (cf_vsize cf v) + ucast (cf_ksize cf k),
                cc_map := insert_at p (k, v, now) (cc_map c)\<rparr>))))"

definition AddToSize :: "('k, 'v) eccache \<Rightarrow> i64 \<Rightarrow> ('k, 'v) eccache" where
  "AddToSize c n = c\<lparr>cc_size := cc_size c + n\<rparr>"

subsection \<open>What a cache may forget\<close>

definition entries :: "('k, 'v) eccache \<Rightarrow> ('k \<times> 'v) set" where
  "entries c = {(k, v). \<exists>t. map_of (cc_map c) k = Some (v, t)}"

lemma entries_drop: "entries (drop_entry cf e c) = entries c - {fst e} \<times> UNIV"
  by (cases e) (auto simp: entries_def drop_entry_def delete_conv' split: if_splits)

lemma entries_fold_drop:
  "entries (fold (drop_entry cf) es c) = entries c - fst ` set es \<times> UNIV"
  by (induction es arbitrary: c) (auto simp: entries_drop)

lemma entries_Purge: "entries (PurgeCache cf c) \<subseteq> entries c"
  by (auto simp: PurgeCache_def entries_fold_drop)

lemma entries_Update: "entries (UpdateCache cf c) \<subseteq> entries c"
  using entries_Purge by (auto simp: UpdateCache_def)

lemma entries_Remove: "entries (snd (RemoveCacheItem cf c k)) = entries c - {k} \<times> UNIV"
  by (auto simp: entries_def RemoveCacheItem_def delete_conv' split: option.splits if_splits)

text \<open>The invariant of a cache: a key occurs once, and the byte count is that of the entries.\<close>

definition entry_bytes :: "('k, 'v) cache_cfg \<Rightarrow> 'k \<times> 'v \<times> int \<Rightarrow> u64" where
  "entry_bytes cf e = (case e of (k, v, t) \<Rightarrow> ucast (cf_vsize cf v) + ucast (cf_ksize cf k))"

definition distinct_keys :: "('k, 'v) eccache \<Rightarrow> bool" where
  "distinct_keys c \<longleftrightarrow> distinct (map fst (cc_map c))"

definition counted :: "('k, 'v) cache_cfg \<Rightarrow> ('k, 'v) eccache \<Rightarrow> bool" where
  "counted cf c \<longleftrightarrow> distinct_keys c \<and> cc_size c = sum_list (map (entry_bytes cf) (cc_map c))"

lemma map_of_filter_Some:
  "distinct (map fst m) \<Longrightarrow> map_of (filter P m) k = Some y \<Longrightarrow> map_of m k = Some y"
  by (metis (no_types, lifting) filter_is_subset map_of_SomeD map_of_eq_Some_iff subsetD)

lemma distinct_filter_keys: "distinct (map fst m) \<Longrightarrow> distinct (map fst (filter P m))"
  by (induction m) auto

lemma entries_Get:
  assumes "distinct_keys c"
  shows "entries (snd (GetCacheItem cf now c k)) \<subseteq> entries c"
proof
  fix e assume *: "e \<in> entries (snd (GetCacheItem cf now c k))"
  obtain a b where e: "e = (a, b)" by (cases e)
  let ?f = "filter (\<lambda>(k', v', t'). \<not> now - t' \<ge> cf_MaxAge cf) (cc_map c)"
  have "map_of ?f a = Some y \<Longrightarrow> map_of (cc_map c) a = Some y" for y
    using map_of_filter_Some assms unfolding distinct_keys_def by metis
  then show "e \<in> entries c" using *
    by (auto simp: e entries_def GetCacheItem_def update_conv' split: option.splits if_splits)
qed

lemma Get_entry: "fst (GetCacheItem cf now c k) = Inr v \<Longrightarrow> (k, v) \<in> entries c"
  by (auto simp: entries_def GetCacheItem_def split: option.splits if_splits)

lemma map_of_insert_at:
  assumes "map_of m k = None"
  shows "map_of (insert_at p (k, y) m) = (map_of m)(k \<mapsto> y)"
proof -
  have "map_of m = map_of (drop p m) ++ map_of (take p m)"
    by (metis append_take_drop_id map_of_append)
  moreover from this have "map_of (take p m) k = None" using assms by (simp add: map_add_None)
  ultimately show ?thesis
    by (auto simp: insert_at_def map_add_def fun_eq_iff split: option.splits)
qed

lemma entries_Add:
  "entries (AddCacheItem cf now c k v) \<subseteq> insert (k, v) (entries c - {k} \<times> UNIV) \<or>
   cf_MaxSize cf = 0 \<and> AddCacheItem cf now c k v = c"
proof (cases "cf_MaxSize cf = 0")
  case False
  let ?p = "cf_place cf k (map fst (cc_map c))"
  let ?c = "c\<lparr>cc_size := cc_size c + ucast (cf_vsize cf v) + ucast (cf_ksize cf k),
                cc_map := insert_at ?p (k, v, now) (cc_map c)\<rparr>"
  show ?thesis
  proof (cases "map_of (cc_map c) k")
    case None
    then have "AddCacheItem cf now c k v = UpdateCache cf ?c"
      using False by (simp add: AddCacheItem_def Let_def)
    moreover have "entries ?c \<subseteq> insert (k, v) (entries c - {k} \<times> UNIV)"
      using None by (auto simp: entries_def map_of_insert_at split: if_splits)
    ultimately show ?thesis using entries_Update[of cf ?c] by auto
  next
    case (Some e)
    then show ?thesis using False
      by (cases e) (auto simp: AddCacheItem_def entries_def update_conv' split: if_splits)
  qed
qed (simp add: AddCacheItem_def)

lemma distinct_drop_entry: "distinct_keys c \<Longrightarrow> distinct_keys (drop_entry cf e c)"
  by (cases e) (simp add: distinct_keys_def drop_entry_def distinct_delete)

lemma sum_delete:
  fixes f :: "'k \<times> 'v \<Rightarrow> 'a::ab_group_add"
  assumes "distinct (map fst m)" "(k, v) \<in> set m"
  shows "sum_list (map f (AList.delete k m)) = sum_list (map f m) - f (k, v)"
  using assms
proof (induction m)
  case (Cons e m)
  obtain a b where e: "e = (a, b)" by (cases e)
  have "a \<notin> fst ` set m" using Cons.prems(1) e by simp
  then show ?case using Cons e by (cases "a = k") (auto simp: rev_image_eqI)
qed simp

lemma counted_drop:
  assumes "counted cf c" "e \<in> set (cc_map c)"
  shows "counted cf (drop_entry cf e c)"
proof -
  obtain k v t where e: "e = (k, v, t)" by (cases e)
  show ?thesis
    using assms distinct_drop_entry[of c cf e]
    by (simp add: counted_def e drop_entry_def distinct_keys_def sum_delete[where v = "(v, t)"]
        entry_bytes_def)
qed

lemma counted_fold_drop:
  assumes "counted cf c" "set es \<subseteq> set (cc_map c)" "distinct (map fst es)"
  shows "counted cf (fold (drop_entry cf) es c)"
  using assms
proof (induction es arbitrary: c)
  case (Cons e es)
  obtain k v t where e: "e = (k, v, t)" by (cases e)
  have "set es \<subseteq> set (cc_map (drop_entry cf e c))"
    using Cons.prems by (force simp: e drop_entry_def AList.delete_eq)
  then show ?case using Cons counted_drop[of cf c e] by simp
qed simp

lemma counted_Purge:
  assumes "counted cf c"
  shows "counted cf (PurgeCache cf c)"
proof -
  let ?s = "sort_key (\<lambda>(k, v, t). t) (cc_map c)" and ?n = "purge_count (length (cc_map c))"
  have "distinct (map fst (cc_map c))" using assms by (simp add: counted_def distinct_keys_def)
  then have "distinct (map fst ?s)"
    by (simp add: distinct_map)
  then have "distinct (map fst (take ?n ?s))" by (simp add: take_map[symmetric])
  moreover have "set (take ?n ?s) \<subseteq> set (cc_map c)" by (metis set_sort set_take_subset)
  ultimately show ?thesis unfolding PurgeCache_def using assms counted_fold_drop by blast
qed


lemma counted_Update: "counted cf c \<Longrightarrow> counted cf (UpdateCache cf c)"
  by (simp add: UpdateCache_def counted_Purge)

lemma counted_Remove: "counted cf c \<Longrightarrow> counted cf (snd (RemoveCacheItem cf c k))"
proof (cases "map_of (cc_map c) k")
  case (Some e)
  obtain v t where e: "e = (v, t)" by (cases e)
  assume "counted cf c"
  then show ?thesis
    using Some e counted_drop[of cf c "(k, v, t)"]
    by (auto simp: RemoveCacheItem_def drop_entry_def dest: map_of_SomeD)
qed (simp add: RemoveCacheItem_def)

lemma AList_update_split:
  assumes "distinct (map fst m)" "map_of m k = Some x"
  obtains xs ys where "m = xs @ (k, x) # ys" "AList.update k y m = xs @ (k, y) # ys"
proof -
  from assms(2) obtain xs ys where m: "m = xs @ (k, x) # ys"
    by (meson map_of_SomeD split_list)
  moreover have "AList.update k y (xs @ (k, x) # ys) = xs @ (k, y) # ys"
    using assms(1) m by (induction xs arbitrary: m) auto
  ultimately show ?thesis using that by blast
qed

lemma scast_diff:
  fixes a b :: u32
  assumes "a < 2 ^ 31" "b < 2 ^ 31"
  shows "scast (a - b) = (ucast a - ucast b :: u64)"
proof -
  have s: "- (2 ^ 31) \<le> x \<Longrightarrow> x < 2 ^ 31 \<Longrightarrow> sint (word_of_int x :: u32) = x" for x
    by (simp add: sint_sbintrunc' signed_take_bit_int_eq_self)
  have "uint a < 2 ^ 31" "uint b < 2 ^ 31" using assms by (simp_all add: word_less_def)
  moreover have "0 \<le> uint a" "0 \<le> uint b" by simp_all
  ultimately have "sint (word_of_int (uint a - uint b) :: u32) = uint a - uint b"
    by (intro s) linarith+
  moreover have "a - b = word_of_int (uint a - uint b)" by simp
  ultimately have "sint (a - b) = uint a - uint b" by metis
  then show ?thesis by (simp add: scast_eq unsigned_ucast_eq)
qed

lemma update_keys_same: "map_of m k = Some x \<Longrightarrow> map fst (AList.update k y m) = map fst m"
  by (induction m) auto

lemma distinct_insert_at:
  "distinct (map fst m) \<Longrightarrow> map_of m k = None \<Longrightarrow> distinct (map fst (insert_at p (k, y) m))"
proof -
  assume "distinct (map fst m)" "map_of m k = None"
  moreover have "set (map fst (take p m)) \<inter> set (map fst (drop p m)) = {}"
    using calculation(1) by (metis append_take_drop_id distinct_append map_append)
  ultimately show ?thesis
    by (auto simp: insert_at_def map_of_eq_None_iff take_map[symmetric] drop_map[symmetric]
        dest: in_set_takeD in_set_dropD)
qed

text \<open>Sizes are below half the range of \<open>unsigned int\<close>, so that their difference is exact as \<open>int\<close>.\<close>

definition small_sizes :: "('k, 'v) cache_cfg \<Rightarrow> bool" where
  "small_sizes cf \<longleftrightarrow> (\<forall>v. cf_vsize cf v < 2 ^ 31)"

lemma counted_Add:
  assumes "counted cf c" "small_sizes cf"
  shows "counted cf (AddCacheItem cf now c k v)"
proof (cases "map_of (cc_map c) k")
  case None
  let ?p = "cf_place cf k (map fst (cc_map c))"
  let ?c = "c\<lparr>cc_size := cc_size c + ucast (cf_vsize cf v) + ucast (cf_ksize cf k),
                cc_map := insert_at ?p (k, v, now) (cc_map c)\<rparr>"
  have "sum_list (map (entry_bytes cf) (cc_map c)) =
      sum_list (map (entry_bytes cf) (take ?p (cc_map c))) + sum_list (map (entry_bytes cf) (drop ?p (cc_map c)))"
    by (metis append_take_drop_id map_append sum_list_append)
  then have "counted cf ?c"
    using assms(1) None distinct_insert_at[of "cc_map c" k ?p "(v, now)"]
    by (simp add: counted_def distinct_keys_def) (simp add: insert_at_def entry_bytes_def)
  then show ?thesis using assms(1) None counted_Update[of cf ?c] by (simp add: AddCacheItem_def Let_def)
next
  case (Some e)
  obtain v' t where e: "e = (v', t)" by (cases e)
  have d: "distinct (map fst (cc_map c))" using assms(1) by (simp add: counted_def distinct_keys_def)
  from AList_update_split[OF d Some, of "(v, now)"] obtain xs ys where
    *: "cc_map c = xs @ (k, e) # ys" "AList.update k (v, now) (cc_map c) = xs @ (k, v, now) # ys" .
  have "scast (cf_vsize cf v - cf_vsize cf v') = (ucast (cf_vsize cf v) - ucast (cf_vsize cf v') :: u64)"
    using assms(2) by (intro scast_diff) (auto simp: small_sizes_def)
  then show ?thesis
    using assms(1) Some e *(2) update_keys_same[OF Some]
    by (simp add: AddCacheItem_def counted_def distinct_keys_def *(1) entry_bytes_def)
qed

lemma distinct_Get:
  "distinct_keys c \<Longrightarrow> distinct_keys (snd (GetCacheItem cf now c k))"
  by (auto simp: distinct_keys_def GetCacheItem_def distinct_filter_keys distinct_update
      split: option.splits)

lemma counted_Get:
  assumes "counted cf c" "cf_MaxAge cf = 0"
  shows "counted cf (snd (GetCacheItem cf now c k))"
proof (cases "map_of (cc_map c) k")
  case None
  then show ?thesis using assms by (simp add: GetCacheItem_def counted_def distinct_keys_def)
next
  case (Some e)
  obtain v' t where e: "e = (v', t)" by (cases e)
  have d: "distinct (map fst (cc_map c))" using assms(1) by (simp add: counted_def distinct_keys_def)
  from AList_update_split[OF d Some, of "(v', now)"] obtain xs ys where
    *: "cc_map c = xs @ (k, e) # ys" "AList.update k (v', now) (cc_map c) = xs @ (k, v', now) # ys" .
  then show ?thesis using assms Some e update_keys_same[OF Some]
    by (simp add: GetCacheItem_def counted_def distinct_keys_def entry_bytes_def)
qed

subsection \<open>How much a purge drops\<close>

lemma bits_le: "m > 0 \<Longrightarrow> 2 ^ (bits m - 1) \<le> m"
proof (induction m rule: bits.induct)
  case (1 n)
  show ?case
  proof (cases "bits (n div 2)")
    case 0
    then show ?thesis using 1(2) by (simp add: bits.simps[of n])
  next
    case (Suc j)
    then have "n div 2 \<noteq> 0" by (metis bits.simps nat.distinct(1))
    then have "2 ^ j \<le> n div 2" using 1 Suc by simp
    then have "2 * 2 ^ j \<le> n" by linarith
    then show ?thesis using 1(2) Suc by (simp add: bits.simps[of n])
  qed
qed

lemma round24_le: "round24 m \<le> 2 * m"
proof (cases "m < 2 ^ 24")
  case False
  define e where "e = bits m - 24"
  define q where "q = m div 2 ^ e"
  have "m > 0" using False by (cases m) auto
  then have "2 ^ (bits m - 1) \<le> m" by (rule bits_le)
  moreover have "(2::nat) ^ e \<le> 2 ^ (bits m - 1)" by (intro power_increasing) (auto simp: e_def)
  ultimately have "2 ^ e \<le> m" by linarith
  moreover have "q * 2 ^ e \<le> m" by (simp add: q_def)
  ultimately have "Suc q * 2 ^ e \<le> 2 * m" "q * 2 ^ e \<le> 2 * m" by simp_all
  then show ?thesis using False by (simp add: round24_def Let_def e_def q_def)
qed (simp add: round24_def)

lemma purge_count_less: "n > 0 \<Longrightarrow> purge_count n < n"
proof -
  assume n: "n > 0"
  have "round24 (round24 n * 13421773) \<le> 2 * (round24 n * 13421773)" by (rule round24_le)
  also have "\<dots> \<le> 2 * (2 * n * 13421773)" using round24_le[of n] by simp
  also have "\<dots> < n * 2 ^ 28" using n by simp
  finally show ?thesis by (simp add: purge_count_def less_mult_imp_div_less)
qed

lemma newest_last:
  assumes "sorted (map f es)" "distinct es" "j < length es" "e \<in> set (take j es)"
  shows "\<exists>x \<in> set es. x \<noteq> e \<and> f e \<le> f x"
proof -
  from assms(4) obtain i where i: "i < j" "i < length es" "e = es ! i"
    by (auto simp: in_set_conv_nth)
  have "es ! j \<in> set es" "es ! j \<noteq> e" using assms i by (auto simp: nth_eq_iff_index_eq)
  moreover have "f e \<le> f (es ! j)"
    using assms(1,3) i sorted_nth_mono[of "map f es" i j] by simp
  ultimately show ?thesis by blast
qed

lemma distinct_of_keys: "distinct (map fst m) \<Longrightarrow> distinct m"
  by (simp add: distinct_map)

lemma Purge_keeps_newest:
  assumes "distinct (map fst (cc_map c))" "(k, v, now) \<in> set (cc_map c)"
    and old: "\<And>k' v' t'. (k', v', t') \<in> set (cc_map c) \<Longrightarrow> k' \<noteq> k \<Longrightarrow> t' < now"
  shows "(k, v) \<in> entries (PurgeCache cf c)"
proof -
  let ?f = "\<lambda>(k, v, t). t" and ?n = "purge_count (length (cc_map c))"
  let ?s = "sort_key ?f (cc_map c)"
  have "length (cc_map c) > 0" using assms(2) by (cases "cc_map c") auto
  then have n: "?n < length ?s" using purge_count_less by simp
  have "k \<notin> fst ` set (take ?n ?s)"
  proof
    assume "k \<in> fst ` set (take ?n ?s)"
    then obtain e where e: "e \<in> set (take ?n ?s)" "fst e = k" by auto
    then have "e \<in> set (cc_map c)" by (metis in_set_takeD set_sort)
    then have ek: "e = (k, v, now)" using e(2) assms(1,2) by (metis eq_key_imp_eq_value prod.collapse)
    have "\<exists>x \<in> set ?s. x \<noteq> e \<and> ?f e \<le> ?f x"
      using newest_last[of ?f ?s ?n e] n e(1) assms(1) by (simp add: distinct_of_keys)
    then obtain k' v' t' where x: "(k', v', t') \<in> set (cc_map c)" "(k', v', t') \<noteq> e" "now \<le> t'"
      using ek by auto
    then have "k' \<noteq> k" using assms(1,2) ek by (metis eq_key_imp_eq_value)
    then show False using old x by force
  qed
  moreover have "(k, v) \<in> entries c" using assms(1,2) by (auto simp: entries_def)
  ultimately show ?thesis by (auto simp: PurgeCache_def entries_fold_drop)
qed

lemma in_insert_at: "x \<in> set (insert_at p e m) \<longleftrightarrow> x = e \<or> x \<in> set m"
proof -
  have "x \<in> set m \<longleftrightarrow> x \<in> set (take p m) \<or> x \<in> set (drop p m)"
    by (metis Un_iff append_take_drop_id set_append)
  then show ?thesis by (auto simp: insert_at_def)
qed

lemma entry_time_Add:
  assumes "distinct_keys c" "cf_MaxSize cf \<noteq> 0"
    and old: "\<And>k' v' t'. (k', v', t') \<in> set (cc_map c) \<Longrightarrow> t' < now"
  shows "map_of (cc_map (AddCacheItem cf now c k v)) k = Some (v, now)"
proof (cases "map_of (cc_map c) k")
  case None
  let ?p = "cf_place cf k (map fst (cc_map c))"
  let ?c = "c\<lparr>cc_size := cc_size c + ucast (cf_vsize cf v) + ucast (cf_ksize cf k),
                cc_map := insert_at ?p (k, v, now) (cc_map c)\<rparr>"
  have m: "map_of (cc_map ?c) k = Some (v, now)" using None by (simp add: map_of_insert_at)
  have d: "distinct (map fst (cc_map ?c))"
    using assms(1) None by (simp add: distinct_keys_def distinct_insert_at)
  have "(k, v) \<in> entries (PurgeCache cf ?c)"
    using d old by (intro Purge_keeps_newest[where now = now]) (auto simp: in_insert_at)
  then obtain t where t: "map_of (cc_map (PurgeCache cf ?c)) k = Some (v, t)" by (auto simp: entries_def)
  have sub: "set (cc_map (fold (drop_entry cf) es c')) \<subseteq> set (cc_map c')" for es c'
  proof (induction es arbitrary: c')
    case (Cons e es)
    then show ?case by (cases e) (fastforce simp: drop_entry_def AList.delete_eq)
  qed simp
  have "(k, v, t) \<in> set (cc_map ?c)" using map_of_SomeD[OF t] sub unfolding PurgeCache_def by blast
  then have "t = now" using m d by (metis map_of_is_SomeI option.inject prod.inject)
  then show ?thesis using None assms(2) m t by (simp add: AddCacheItem_def Let_def UpdateCache_def)
next
  case (Some e)
  then show ?thesis using assms(2) by (cases e) (simp add: AddCacheItem_def update_conv')
qed

subsection \<open>What a reader of a cache relies on\<close>

text \<open>
  The contract of a cache of a function that a database stands for: a hit is something that was
  stored and not removed since, a store forgets the older value of its key, and no operation
  makes up an entry. A cache is coherent when all that it holds is what the function gives.
\<close>

locale keyed_cache =
  fixes get :: "'c \<Rightarrow> 'k \<Rightarrow> (ecresult + 'v) \<times> 'c"
    and put :: "'c \<Rightarrow> 'k \<Rightarrow> 'v \<Rightarrow> 'c"
    and del :: "'c \<Rightarrow> 'k \<Rightarrow> 'c"
    and held :: "'c \<Rightarrow> ('k \<times> 'v) set"
    and ok :: "'c \<Rightarrow> bool"
  assumes get_held: "fst (get c k) = Inr v \<Longrightarrow> (k, v) \<in> held c"
    and get_forgets: "ok c \<Longrightarrow> held (snd (get c k)) \<subseteq> held c"
    and put_forgets: "ok c \<Longrightarrow> put c k v = c \<or> held (put c k v) \<subseteq> insert (k, v) (held c - {k} \<times> UNIV)"
    and del_forgets: "ok c \<Longrightarrow> held (del c k) \<subseteq> held c - {k} \<times> UNIV"
    and ok_get: "ok c \<Longrightarrow> ok (snd (get c k))"
    and ok_put: "ok c \<Longrightarrow> ok (put c k v)"
    and ok_del: "ok c \<Longrightarrow> ok (del c k)"
begin

text \<open>Everything held satisfies a relation between key and value.\<close>

definition coherent :: "('k \<Rightarrow> 'v \<Rightarrow> bool) \<Rightarrow> 'c \<Rightarrow> bool" where
  "coherent P c \<longleftrightarrow> ok c \<and> (\<forall>(k, v) \<in> held c. P k v)"

lemma coherent_hit: "coherent P c \<Longrightarrow> fst (get c k) = Inr v \<Longrightarrow> P k v"
  using get_held[of c k v] by (auto simp: coherent_def)

lemma coherent_get: "coherent P c \<Longrightarrow> coherent P (snd (get c k))"
  using get_forgets ok_get by (fastforce simp: coherent_def)

lemma coherent_put: "coherent P c \<Longrightarrow> P k v \<Longrightarrow> coherent P (put c k v)"
  using put_forgets[of c k v] ok_put by (fastforce simp: coherent_def)

lemma coherent_del: "coherent P c \<Longrightarrow> coherent P (del c k)"
  using del_forgets[of c k] ok_del by (fastforce simp: coherent_def)

text \<open>Removing a key makes the cache coherent with any change of what the key stands for.\<close>

lemma coherent_del_change:
  assumes "coherent P c" "\<And>k' v. k' \<noteq> k \<Longrightarrow> P k' v \<Longrightarrow> Q k' v"
  shows "coherent Q (del c k)"
  using assms del_forgets[of c k] ok_del by (fastforce simp: coherent_def)

end

lemma distinct_Purge: "distinct_keys c \<Longrightarrow> distinct_keys (PurgeCache cf c)"
proof -
  have "distinct_keys c \<Longrightarrow> distinct_keys (fold (drop_entry cf) es c)" for es
    by (induction es arbitrary: c) (auto simp: distinct_drop_entry)
  then show "distinct_keys c \<Longrightarrow> distinct_keys (PurgeCache cf c)" by (simp add: PurgeCache_def)
qed

lemma distinct_Add: "distinct_keys c \<Longrightarrow> distinct_keys (AddCacheItem cf now c k v)"
  by (auto simp: AddCacheItem_def distinct_keys_def[of "c\<lparr>cc_size := x, cc_map := y\<rparr>" for x y]
      UpdateCache_def Let_def distinct_update distinct_insert_at distinct_keys_def[of c]
      split: option.splits intro!: distinct_Purge)

lemma distinct_Remove: "distinct_keys c \<Longrightarrow> distinct_keys (snd (RemoveCacheItem cf c k))"
  by (auto simp: RemoveCacheItem_def distinct_keys_def distinct_delete split: option.splits)

interpretation ecc: keyed_cache
  "GetCacheItem cf now" "AddCacheItem cf now" "\<lambda>c k. snd (RemoveCacheItem cf c k)" entries distinct_keys
  for cf :: "('k, 'v) cache_cfg" and now
proof (unfold_locales, goal_cases)
  case (3 c k v)
  show ?case using entries_Add[of cf now c k v] by blast
qed (auto simp: Get_entry entries_Remove distinct_Get distinct_Add distinct_Remove
     dest: subsetD[OF entries_Get])

subsection \<open>Histories\<close>

text \<open>Operations with their times, run one after the other on a cache.\<close>

datatype ('k, 'v) cache_op = OpAdd 'k 'v | OpRemove 'k | OpGet 'k | OpClear

fun run_cache_op ::
  "('k, 'v) cache_cfg \<Rightarrow> int \<times> ('k, 'v) cache_op \<Rightarrow> ('k, 'v) eccache \<Rightarrow> ('k, 'v) eccache" where
  "run_cache_op cf (now, OpAdd k v) c = AddCacheItem cf now c k v"
| "run_cache_op cf (now, OpRemove k) c = snd (RemoveCacheItem cf c k)"
| "run_cache_op cf (now, OpGet k) c = snd (GetCacheItem cf now c k)"
| "run_cache_op cf (now, OpClear) c = ClearCache c"

fun last_added :: "int \<times> ('k, 'v) cache_op \<Rightarrow> ('k \<Rightarrow> 'v option) \<Rightarrow> 'k \<Rightarrow> 'v option" where
  "last_added (now, OpAdd k v) m = m(k \<mapsto> v)"
| "last_added (now, OpRemove k) m = m(k := None)"
| "last_added (now, OpGet k) m = m"
| "last_added (now, OpClear) m = Map.empty"

lemma run_cache_op_held:
  assumes "distinct_keys c" "cf_MaxSize cf \<noteq> 0" "\<forall>(k, v) \<in> entries c. m k = Some v"
  shows "distinct_keys (run_cache_op cf op c) \<and>
    (\<forall>(k, v) \<in> entries (run_cache_op cf op c). last_added op m k = Some v)"
proof -
  obtain now o1 where op: "op = (now, o1)" by (cases op)
  show ?thesis
  proof (cases o1)
    case (OpAdd k v)
    then show ?thesis using assms entries_Add[of cf now c k v] by (fastforce simp: op distinct_Add)
  next
    case (OpRemove k)
    then show ?thesis using assms by (fastforce simp: op distinct_Remove entries_Remove)
  next
    case (OpGet k)
    then show ?thesis using assms entries_Get[of c cf now k] by (fastforce simp: op distinct_Get)
  next
    case OpClear
    then show ?thesis by (simp add: op ClearCache_def distinct_keys_def entries_def)
  qed
qed

lemma run_cache_held:
  assumes "distinct_keys c" "cf_MaxSize cf \<noteq> 0" "\<forall>(k, v) \<in> entries c. m k = Some v"
  shows "\<forall>(k, v) \<in> entries (fold (run_cache_op cf) ops c). fold last_added ops m k = Some v"
  using assms
proof (induction ops arbitrary: c m)
  case (Cons op ops)
  have "distinct_keys (run_cache_op cf op c)"
    "\<forall>(k, v) \<in> entries (run_cache_op cf op c). last_added op m k = Some v"
    using run_cache_op_held[OF Cons.prems, of op] by blast+
  from Cons.IH[OF this(1) Cons.prems(2) this(2)] show ?case by simp
qed simp

lemma new_cache_simps [simp]: "distinct_keys new_cache" "entries new_cache = {}" "counted cf new_cache"
  by (simp_all add: new_cache_def distinct_keys_def entries_def counted_def)

subsection \<open>Properties\<close>

definition demo_cfg :: "(nat, nat) cache_cfg" where
  "demo_cfg = \<lparr>cf_MaxSize = 1000, cf_MaxAge = 0, cf_slot = 16, cf_ksize = (\<lambda>_. 0),
     cf_vsize = (\<lambda>_. 8), cf_place = (\<lambda>_ ks. length ks)\<rparr>"

text \<open>
  A hit is never stale: after any sequence of additions, removals, look-ups and clears, what
  a look-up returns for a key is the value that was added for it last, with no removal since.
\<close>

theorem cache_hit_is_last_added:
  assumes "cf_MaxSize cf \<noteq> 0"
    and "fst (GetCacheItem cf now (fold (run_cache_op cf) ops new_cache) k) = Inr v"
  shows "fold last_added ops Map.empty k = Some v"
  using run_cache_held[of new_cache cf Map.empty ops] Get_entry[OF assms(2)] assms(1) by auto

lemma cache_hit_is_last_added_witness:
  "fold last_added [(1, OpAdd 5 6), (2, OpAdd 5 7), (3, OpRemove 9)] Map.empty (5::nat) = Some (7::nat)"
  by (rule cache_hit_is_last_added[of demo_cfg 4 "[(1, OpAdd 5 6), (2, OpAdd 5 7), (3, OpRemove 9)]" 5 7])
    (simp_all add: demo_cfg_def new_cache_def AddCacheItem_def RemoveCacheItem_def GetCacheItem_def
      UpdateCache_def Cache_Size_def insert_at_def Let_def)

text \<open>
  What was just added is found: when every older entry has an earlier time, the purge that
  an addition may start drops other entries only, so the next look-up within the age limit
  returns the value added.
\<close>

theorem cache_add_then_get:
  assumes "distinct_keys c" "cf_MaxSize cf \<noteq> 0"
    and "\<forall>(k', v', t') \<in> set (cc_map c). t' < now"
    and "cf_MaxAge cf = 0 \<or> now' - now < cf_MaxAge cf"
  shows "fst (GetCacheItem cf now' (AddCacheItem cf now c k v) k) = Inr v"
proof -
  have "map_of (cc_map (AddCacheItem cf now c k v)) k = Some (v, now)"
    using assms(3) by (intro entry_time_Add[OF assms(1,2)]) auto
  then show ?thesis using assms(4) by (auto simp: GetCacheItem_def)
qed

lemma cache_add_then_get_witness:
  "fst (GetCacheItem demo_cfg 9 (AddCacheItem demo_cfg 3
     (AddCacheItem demo_cfg 2 new_cache 1 4) 2 8) 2) = Inr 8"
proof (rule cache_add_then_get)
  have c: "AddCacheItem demo_cfg 2 new_cache 1 4 =
      \<lparr>cc_map = [(1, 4, 2)], cc_size = 8, cc_hit = 0, cc_valid = 0\<rparr>"
    by (simp add: demo_cfg_def new_cache_def AddCacheItem_def UpdateCache_def Cache_Size_def
        insert_at_def Let_def)
  show "distinct_keys (AddCacheItem demo_cfg 2 new_cache 1 4)"
    "\<forall>(k', v', t') \<in> set (cc_map (AddCacheItem demo_cfg 2 new_cache 1 4)). t' < 3"
    unfolding c by (simp_all add: distinct_keys_def)
qed (simp_all add: demo_cfg_def)

text \<open>
  The byte count of a cache stays the sum of the sizes of its entries under additions,
  removals and purges, and under look-ups of a cache without an age limit.
\<close>

theorem cache_bytes_accounted:
  assumes "counted cf c" "small_sizes cf"
  shows "counted cf (AddCacheItem cf now c k v) \<and> counted cf (snd (RemoveCacheItem cf c k)) \<and>
    counted cf (PurgeCache cf c) \<and>
    (cf_MaxAge cf = 0 \<longrightarrow> counted cf (snd (GetCacheItem cf now c k)))"
  by (intro conjI impI counted_Add counted_Remove counted_Purge counted_Get assms)

lemma cache_bytes_accounted_witness:
  "counted demo_cfg (AddCacheItem demo_cfg 3 new_cache 1 4)"
  using cache_bytes_accounted[of demo_cfg new_cache 3 1 4]
  by (simp add: small_sizes_def demo_cfg_def)

text \<open>
  With an age limit the count is wrong after a look-up: the sweep that an expired hit starts
  erases entries without taking their sizes off, so here a cache that holds nothing still counts
  the eight bytes of the entry it dropped.
\<close>

definition aging_cfg :: "(nat, nat) cache_cfg" where
  "aging_cfg = demo_cfg\<lparr>cf_MaxAge := 10\<rparr>"

theorem expired_sweep_leaks:
  "let c = snd (GetCacheItem aging_cfg 20 (AddCacheItem aging_cfg 0 new_cache 1 7) 1)
   in cc_map c = [] \<and> cc_size c = 8 \<and> \<not> counted aging_cfg c"
  by (simp add: aging_cfg_def demo_cfg_def new_cache_def AddCacheItem_def GetCacheItem_def
      UpdateCache_def Cache_Size_def insert_at_def counted_def Let_def)

end
