(* ===== verification/Cache_Manager.thy ===== *)
theory Cache_Manager
  imports Cache
begin

text \<open>
  The part of \<^verbatim>\<open>provider/libserver/ECCacheManager.cpp\<close> that answers questions about the object
  hierarchy: rows, owners, parents, stores and access lists, each read from a cache or from the
  database. The database is a parameter: what its queries return. The lemmas show that the
  caches are transparent, that is, a coherent manager answers as the database does, and that
  the invalidation calls restore coherence after a change.
\<close>

subsection \<open>The database and the caches\<close>

text \<open>A row of \<open>hierarchy\<close>; a column that is \<open>NULL\<close> is \<^const>\<open>None\<close>, the others are converted.\<close>

record hrow =
  hr_parent :: "u32 option"
  hr_owner :: "u32 option"
  hr_flags :: "u32 option"
  hr_type :: "u32 option"

record ecobject =
  ob_ulParent :: u32
  ob_ulOwner :: u32
  ob_ulFlags :: u32
  ob_ulType :: u32

record ecstore =
  st_ulStore :: u32
  st_guid :: nat
  st_ulType :: u32

record ecright =
  ri_ulUserid :: u32
  ri_ulType :: u32
  ri_ulRights :: u32

record quotadetails =
  qd_bUseDefaultQuota :: bool
  qd_bIsUserDefaultQuota :: bool
  qd_llWarnSize :: i64
  qd_llSoftSize :: i64
  qd_llHardSize :: i64

text \<open>
  \<open>GetThreadLocalDatabase\<close> and the three queries. A query fails with a code or gives its rows.
\<close>

record cm_env =
  db_connect :: ecresult
  db_hierarchy :: "u32 \<Rightarrow> ecresult + hrow option"
  db_stores :: "u32 \<Rightarrow> ecresult + (u32 option \<times> nat option \<times> u32 option) list"
  db_acl :: "u32 \<Rightarrow> ecresult + (u32 option \<times> u32 option \<times> u32 option) list"
  cm_objcfg :: "(u32, ecobject) cache_cfg"
  cm_storecfg :: "(u32, ecstore) cache_cfg"
  cm_aclcfg :: "(u32, ecright list) cache_cfg"
  cm_quotacfg :: "(u32, quotadetails) cache_cfg"
  cm_now :: int                           \<comment> \<open>\<open>GetProcessTime()\<close>\<close>

record cacheman =
  m_ObjectsCache :: "(u32, ecobject) eccache"
  m_StoresCache :: "(u32, ecstore) eccache"
  m_AclCache :: "(u32, ecright list) eccache"
  m_QuotaCache :: "(u32, quotadetails) eccache"
  m_QuotaUserDefaultCache :: "(u32, quotadetails) eccache"

definition CACHE_NO_PARENT :: u32 where
  "CACHE_NO_PARENT = 0xFFFFFFFF"

subsection \<open>Objects\<close>

definition cm_GetObject_cached ::
  "cm_env \<Rightarrow> cacheman \<Rightarrow> u32 \<Rightarrow> (ecresult + ecobject) \<times> cacheman" where
  "cm_GetObject_cached e s i =
     (let (r, c) = GetCacheItem (cm_objcfg e) (cm_now e) (m_ObjectsCache s) i
      in (r, s\<lparr>m_ObjectsCache := c\<rparr>))"

text \<open>\<open>SetObject\<close> stores nothing for an id, a parent or an owner that is zero.\<close>

definition SetObject :: "cm_env \<Rightarrow> cacheman \<Rightarrow> u32 \<Rightarrow> ecobject \<Rightarrow> cacheman" where
  "SetObject e s i ob =
     (if ob_ulParent ob = 0 \<or> i = 0 \<or> ob_ulOwner ob = 0 then s
      else s\<lparr>m_ObjectsCache := AddCacheItem (cm_objcfg e) (cm_now e) (m_ObjectsCache s) i ob\<rparr>)"

definition DelObject :: "cm_env \<Rightarrow> cacheman \<Rightarrow> u32 \<Rightarrow> ecresult \<times> cacheman" where
  "DelObject e s i =
     (let (er, c) = RemoveCacheItem (cm_objcfg e) (m_ObjectsCache s) i
      in (er, s\<lparr>m_ObjectsCache := c\<rparr>))"

text \<open>The query of \<open>GetObject\<close>.\<close>

definition read_object :: "cm_env \<Rightarrow> u32 \<Rightarrow> ecresult + ecobject" where
  "read_object e i =
     (case db_hierarchy e i of
        Inl er \<Rightarrow> Inl er
      | Inr None \<Rightarrow> Inl ZARAFA_E_NOT_FOUND
      | Inr (Some r) \<Rightarrow>
          (case (hr_owner r, hr_flags r, hr_type r) of
             (Some ow, Some fl, Some ty) \<Rightarrow>
               Inr \<lparr>ob_ulParent = (case hr_parent r of None \<Rightarrow> CACHE_NO_PARENT | Some p \<Rightarrow> p),
                    ob_ulOwner = ow, ob_ulFlags = fl, ob_ulType = ty\<rparr>
           | _ \<Rightarrow> Inl ZARAFA_E_DATABASE_ERROR))"

definition cm_GetObject :: "cm_env \<Rightarrow> cacheman \<Rightarrow> u32 \<Rightarrow> (ecresult + ecobject) \<times> cacheman" where
  "cm_GetObject e s i =
     (if db_connect e \<noteq> erSuccess then (Inl (db_connect e), s)
      else (case cm_GetObject_cached e s i of
        (Inr ob, s) \<Rightarrow> (Inr ob, s)
      | (Inl _, s) \<Rightarrow>
          (case read_object e i of
             Inl er \<Rightarrow> (Inl er, s)
           | Inr ob \<Rightarrow> (Inr ob, SetObject e s i ob))))"

definition cm_GetOwner :: "cm_env \<Rightarrow> cacheman \<Rightarrow> u32 \<Rightarrow> (ecresult + u32) \<times> cacheman" where
  "cm_GetOwner e s i =
     (case cm_GetObject_cached e s i of
        (Inr ob, s) \<Rightarrow> (Inr (ob_ulOwner ob), s)
      | (Inl _, s) \<Rightarrow>
          (case cm_GetObject e s i of
             (Inl er, s) \<Rightarrow> (Inl er, s)
           | (Inr ob, s) \<Rightarrow> (Inr (ob_ulOwner ob), s)))"

definition cm_GetParent :: "cm_env \<Rightarrow> cacheman \<Rightarrow> u32 \<Rightarrow> (ecresult + u32) \<times> cacheman" where
  "cm_GetParent e s i =
     (case cm_GetObject e s i of
        (Inl er, s) \<Rightarrow> (Inl er, s)
      | (Inr ob, s) \<Rightarrow>
          if ob_ulParent ob = CACHE_NO_PARENT then (Inl ZARAFA_E_NOT_FOUND, s)
          else (Inr (ob_ulParent ob), s))"

definition QueryParent :: "cm_env \<Rightarrow> cacheman \<Rightarrow> u32 \<Rightarrow> (ecresult + u32) \<times> cacheman" where
  "QueryParent e s i =
     (case cm_GetObject_cached e s i of
        (Inl er, s) \<Rightarrow> (Inl er, s)
      | (Inr ob, s) \<Rightarrow> (Inr (ob_ulParent ob), s))"

subsection \<open>Stores\<close>

definition cm_GetStore_cached ::
  "cm_env \<Rightarrow> cacheman \<Rightarrow> u32 \<Rightarrow> (ecresult + ecstore) \<times> cacheman" where
  "cm_GetStore_cached e s i =
     (let (r, c) = GetCacheItem (cm_storecfg e) (cm_now e) (m_StoresCache s) i
      in (r, s\<lparr>m_StoresCache := c\<rparr>))"

definition SetStore :: "cm_env \<Rightarrow> cacheman \<Rightarrow> u32 \<Rightarrow> ecstore \<Rightarrow> cacheman" where
  "SetStore e s i st =
     s\<lparr>m_StoresCache := AddCacheItem (cm_storecfg e) (cm_now e) (m_StoresCache s) i st\<rparr>"

definition DelStore :: "cm_env \<Rightarrow> cacheman \<Rightarrow> u32 \<Rightarrow> ecresult \<times> cacheman" where
  "DelStore e s i =
     (let (er, c) = RemoveCacheItem (cm_storecfg e) (m_StoresCache s) i
      in (er, s\<lparr>m_StoresCache := c\<rparr>))"

text \<open>The query of \<open>GetStoreAndType\<close>, for an object without a parent.\<close>

definition read_store :: "cm_env \<Rightarrow> u32 \<Rightarrow> ecresult + ecstore" where
  "read_store e i =
     (case db_stores e i of
        Inl er \<Rightarrow> Inl er
      | Inr [] \<Rightarrow> Inl ZARAFA_E_NOT_FOUND
      | Inr (r # _) \<Rightarrow>
          (case r of
             (Some st, Some g, Some ty) \<Rightarrow> Inr \<lparr>st_ulStore = st, st_guid = g, st_ulType = ty\<rparr>
           | _ \<Rightarrow> Inl ZARAFA_E_DATABASE_ERROR))"

fun GetStoreAndType ::
  "cm_env \<Rightarrow> nat \<Rightarrow> cacheman \<Rightarrow> u32 \<Rightarrow> (ecresult + ecstore) \<times> cacheman" where
  "GetStoreAndType e 0 s i = (Inl ZARAFA_E_NOT_FOUND, s)"
| "GetStoreAndType e (Suc d) s i =
     (if db_connect e \<noteq> erSuccess then (Inl (db_connect e), s)
      else (case cm_GetStore_cached e s i of
        (Inr st, s) \<Rightarrow> (Inr st, s)
      | (Inl _, s) \<Rightarrow>
          (let (r, s) =
             (case cm_GetParent e s i of
                (Inl _, s) \<Rightarrow> (read_store e i, s)
              | (Inr p, s) \<Rightarrow> GetStoreAndType e d s p)
           in (case r of
                 Inl er \<Rightarrow> (Inl er, s)
               | Inr st \<Rightarrow> (Inr st, SetStore e s i st)))))"

text \<open>\<open>GetStore\<close>, and the depth that callers leave to its default.\<close>

definition default_maxdepth :: nat where
  "default_maxdepth = 100"

definition cm_GetStore :: "cm_env \<Rightarrow> cacheman \<Rightarrow> u32 \<Rightarrow> (ecresult + u32) \<times> cacheman" where
  "cm_GetStore e s i =
     (case GetStoreAndType e default_maxdepth s i of
        (Inl er, s) \<Rightarrow> (Inl er, s)
      | (Inr st, s) \<Rightarrow> (Inr (st_ulStore st), s))"

subsection \<open>Access lists\<close>

definition cm_GetACLs_cached ::
  "cm_env \<Rightarrow> cacheman \<Rightarrow> u32 \<Rightarrow> (ecresult + ecright list) \<times> cacheman" where
  "cm_GetACLs_cached e s i =
     (let (r, c) = GetCacheItem (cm_aclcfg e) (cm_now e) (m_AclCache s) i
      in (r, s\<lparr>m_AclCache := c\<rparr>))"

definition SetACLs :: "cm_env \<Rightarrow> cacheman \<Rightarrow> u32 \<Rightarrow> ecright list \<Rightarrow> cacheman" where
  "SetACLs e s i rs =
     s\<lparr>m_AclCache := AddCacheItem (cm_aclcfg e) (cm_now e) (m_AclCache s) i rs\<rparr>"

definition DelACLs :: "cm_env \<Rightarrow> cacheman \<Rightarrow> u32 \<Rightarrow> ecresult \<times> cacheman" where
  "DelACLs e s i =
     (let (er, c) = RemoveCacheItem (cm_aclcfg e) (m_AclCache s) i
      in (er, s\<lparr>m_AclCache := c\<rparr>))"

text \<open>The rows of the query, or nothing as soon as a column is \<open>NULL\<close>.\<close>

fun read_rights :: "(u32 option \<times> u32 option \<times> u32 option) list \<Rightarrow> ecright list option" where
  "read_rights [] = Some []"
| "read_rights (r # rs) =
     (case r of
        (Some u, Some t, Some m) \<Rightarrow>
          map_option (Cons \<lparr>ri_ulUserid = u, ri_ulType = t, ri_ulRights = m\<rparr>) (read_rights rs)
      | _ \<Rightarrow> None)"

definition read_acl :: "cm_env \<Rightarrow> u32 \<Rightarrow> ecresult + ecright list" where
  "read_acl e i =
     (case db_acl e i of
        Inl er \<Rightarrow> Inl er
      | Inr rows \<Rightarrow>
          (case read_rights rows of None \<Rightarrow> Inl ZARAFA_E_DATABASE_ERROR | Some rs \<Rightarrow> Inr rs))"

definition cm_GetACLs ::
  "cm_env \<Rightarrow> cacheman \<Rightarrow> u32 \<Rightarrow> (ecresult + ecright list) \<times> cacheman" where
  "cm_GetACLs e s i =
     (case cm_GetACLs_cached e s i of
        (Inr rs, s) \<Rightarrow> (Inr rs, s)
      | (Inl _, s) \<Rightarrow>
          if db_connect e \<noteq> erSuccess then (Inl (db_connect e), s)
          else (case read_acl e i of
            Inl er \<Rightarrow> (Inl er, s)
          | Inr rs \<Rightarrow> (Inr rs, SetACLs e s i rs)))"

subsection \<open>Quota\<close>

text \<open>The flag chooses the cache; a miss is left to the caller, which fills the cache.\<close>

definition cm_GetQuota ::
  "cm_env \<Rightarrow> cacheman \<Rightarrow> u32 \<Rightarrow> bool \<Rightarrow> (ecresult + quotadetails) \<times> cacheman" where
  "cm_GetQuota e s u dflt =
     (if dflt
      then (let (r, c) = GetCacheItem (cm_quotacfg e) (cm_now e) (m_QuotaUserDefaultCache s) u
            in (r, s\<lparr>m_QuotaUserDefaultCache := c\<rparr>))
      else (let (r, c) = GetCacheItem (cm_quotacfg e) (cm_now e) (m_QuotaCache s) u
            in (r, s\<lparr>m_QuotaCache := c\<rparr>)))"

definition SetQuota :: "cm_env \<Rightarrow> cacheman \<Rightarrow> u32 \<Rightarrow> bool \<Rightarrow> quotadetails \<Rightarrow> cacheman" where
  "SetQuota e s u dflt q =
     (if dflt
      then s\<lparr>m_QuotaUserDefaultCache :=
               AddCacheItem (cm_quotacfg e) (cm_now e) (m_QuotaUserDefaultCache s) u q\<rparr>
      else s\<lparr>m_QuotaCache := AddCacheItem (cm_quotacfg e) (cm_now e) (m_QuotaCache s) u q\<rparr>)"

definition DelQuota :: "cm_env \<Rightarrow> cacheman \<Rightarrow> u32 \<Rightarrow> bool \<Rightarrow> cacheman" where
  "DelQuota e s u dflt =
     (if dflt
      then s\<lparr>m_QuotaUserDefaultCache :=
               snd (RemoveCacheItem (cm_quotacfg e) (m_QuotaUserDefaultCache s) u)\<rparr>
      else s\<lparr>m_QuotaCache := snd (RemoveCacheItem (cm_quotacfg e) (m_QuotaCache s) u)\<rparr>)"

subsection \<open>Invalidation\<close>

datatype fnev = fnevObjectModified | fnevObjectDeleted | fnevObjectMoved | fnevOther

text \<open>\<open>Update\<close>, on the three caches of this theory.\<close>

definition cm_Update :: "cm_env \<Rightarrow> cacheman \<Rightarrow> fnev \<Rightarrow> u32 \<Rightarrow> cacheman" where
  "cm_Update e s ev i =
     (case ev of
        fnevObjectModified \<Rightarrow> snd (DelObject e (snd (DelACLs e s i)) i)
      | fnevObjectDeleted \<Rightarrow>
          snd (DelACLs e (snd (DelStore e (snd (DelObject e s i)) i)) i)
      | fnevObjectMoved \<Rightarrow> snd (DelObject e (snd (DelStore e s i)) i)
      | fnevOther \<Rightarrow> s)"

definition PURGE_CACHE_QUOTA :: u32 where "PURGE_CACHE_QUOTA = 0x0001"
definition PURGE_CACHE_QUOTADEFAULT :: u32 where "PURGE_CACHE_QUOTADEFAULT = 0x0002"
definition PURGE_CACHE_OBJECTS :: u32 where "PURGE_CACHE_OBJECTS = 0x0004"
definition PURGE_CACHE_STORES :: u32 where "PURGE_CACHE_STORES = 0x0008"
definition PURGE_CACHE_ACL :: u32 where "PURGE_CACHE_ACL = 0x0010"

definition cm_PurgeCache :: "cacheman \<Rightarrow> u32 \<Rightarrow> cacheman" where
  "cm_PurgeCache s fl =
     s\<lparr>m_QuotaCache := (if fl AND PURGE_CACHE_QUOTA \<noteq> 0 then ClearCache (m_QuotaCache s)
                           else m_QuotaCache s),
        m_QuotaUserDefaultCache :=
          (if fl AND PURGE_CACHE_QUOTADEFAULT \<noteq> 0 then ClearCache (m_QuotaUserDefaultCache s)
           else m_QuotaUserDefaultCache s),
        m_ObjectsCache := (if fl AND PURGE_CACHE_OBJECTS \<noteq> 0 then ClearCache (m_ObjectsCache s)
                           else m_ObjectsCache s),
        m_StoresCache := (if fl AND PURGE_CACHE_STORES \<noteq> 0 then ClearCache (m_StoresCache s)
                          else m_StoresCache s),
        m_AclCache := (if fl AND PURGE_CACHE_ACL \<noteq> 0 then ClearCache (m_AclCache s)
                       else m_AclCache s)\<rparr>"

subsection \<open>The database without caches\<close>

definition parent_of :: "cm_env \<Rightarrow> u32 \<Rightarrow> ecresult + u32" where
  "parent_of e i =
     (case read_object e i of
        Inl er \<Rightarrow> Inl er
      | Inr ob \<Rightarrow> if ob_ulParent ob = CACHE_NO_PARENT then Inl ZARAFA_E_NOT_FOUND
                  else Inr (ob_ulParent ob))"

text \<open>The store at the top of the chain of parents, within a number of levels.\<close>

fun store_of :: "cm_env \<Rightarrow> nat \<Rightarrow> u32 \<Rightarrow> ecresult + ecstore" where
  "store_of e 0 i = Inl ZARAFA_E_NOT_FOUND"
| "store_of e (Suc d) i =
     (case parent_of e i of Inl _ \<Rightarrow> read_store e i | Inr p \<Rightarrow> store_of e d p)"

lemma store_of_mono: "store_of e d i = Inr st \<Longrightarrow> d \<le> d' \<Longrightarrow> store_of e d' i = Inr st"
proof (induction e d i arbitrary: d' rule: store_of.induct)
  case (2 e d i)
  then obtain d'' where "d' = Suc d''" "d \<le> d''" by (cases d') auto
  with 2 show ?case by (auto split: sum.splits)
qed simp

text \<open>A manager is coherent with a database when each of its caches is.\<close>

definition cm_ok :: "cm_env \<Rightarrow> cacheman \<Rightarrow> bool" where
  "cm_ok e s \<longleftrightarrow>
     ecc.coherent (\<lambda>i ob. read_object e i = Inr ob) (m_ObjectsCache s) \<and>
     ecc.coherent (\<lambda>i st. \<exists>d. store_of e d i = Inr st) (m_StoresCache s) \<and>
     ecc.coherent (\<lambda>i rs. read_acl e i = Inr rs) (m_AclCache s)"


text \<open>The lemmas on a hit, a miss and a store, one cache at a time.\<close>

lemma cm_ok_object:
  assumes "cm_ok e s" "cm_GetObject_cached e s i = (r, s')"
  shows "cm_ok e s'" "r = Inr ob \<Longrightarrow> read_object e i = Inr ob"
  using assms ecc.coherent_get[of _ "m_ObjectsCache s" "cm_objcfg e" "cm_now e" i]
    ecc.coherent_hit[of _ "m_ObjectsCache s" "cm_objcfg e" "cm_now e" i]
  by (auto simp: cm_ok_def cm_GetObject_cached_def split: prod.splits)

lemma cm_ok_SetObject:
  "cm_ok e s \<Longrightarrow> read_object e i = Inr ob \<Longrightarrow> cm_ok e (SetObject e s i ob)"
  using ecc.coherent_put[of _ "m_ObjectsCache s" i ob "cm_objcfg e" "cm_now e"]
  by (auto simp: cm_ok_def SetObject_def)

lemma cm_ok_store:
  assumes "cm_ok e s" "cm_GetStore_cached e s i = (r, s')"
  shows "cm_ok e s'" "r = Inr st \<Longrightarrow> \<exists>d. store_of e d i = Inr st"
  using assms ecc.coherent_get[of _ "m_StoresCache s" "cm_storecfg e" "cm_now e" i]
    ecc.coherent_hit[of _ "m_StoresCache s" "cm_storecfg e" "cm_now e" i]
  by (auto simp: cm_ok_def cm_GetStore_cached_def split: prod.splits)

lemma cm_ok_SetStore:
  "cm_ok e s \<Longrightarrow> store_of e d i = Inr st \<Longrightarrow> cm_ok e (SetStore e s i st)"
  using ecc.coherent_put[of _ "m_StoresCache s" i st "cm_storecfg e" "cm_now e"]
  by (auto simp: cm_ok_def SetStore_def)

lemma cm_ok_acl:
  assumes "cm_ok e s" "cm_GetACLs_cached e s i = (r, s')"
  shows "cm_ok e s'" "r = Inr rs \<Longrightarrow> read_acl e i = Inr rs"
  using assms ecc.coherent_get[of _ "m_AclCache s" "cm_aclcfg e" "cm_now e" i]
    ecc.coherent_hit[of _ "m_AclCache s" "cm_aclcfg e" "cm_now e" i]
  by (auto simp: cm_ok_def cm_GetACLs_cached_def split: prod.splits)

lemma cm_ok_SetACLs:
  "cm_ok e s \<Longrightarrow> read_acl e i = Inr rs \<Longrightarrow> cm_ok e (SetACLs e s i rs)"
  using ecc.coherent_put[of _ "m_AclCache s" i rs "cm_aclcfg e" "cm_now e"]
  by (auto simp: cm_ok_def SetACLs_def)

text \<open>Transparency of the object cache.\<close>

lemma GetObject_transparent:
  assumes "cm_ok e s" "db_connect e = erSuccess" "cm_GetObject e s i = (r, s')"
  shows "r = read_object e i" "cm_ok e s'"
proof -
  obtain r0 s0 where 0: "cm_GetObject_cached e s i = (r0, s0)" by fastforce
  note k = cm_ok_object[OF assms(1) 0]
  show "r = read_object e i" "cm_ok e s'"
    using assms(2,3) 0 k cm_ok_SetObject[OF k(1)]
    by (auto simp: cm_GetObject_def split: sum.splits)
qed

lemma GetParent_transparent:
  assumes "cm_ok e s" "db_connect e = erSuccess" "cm_GetParent e s i = (r, s')"
  shows "r = parent_of e i" "cm_ok e s'"
  using assms GetObject_transparent[of e s i]
  by (auto simp: cm_GetParent_def parent_of_def split: sum.splits prod.splits if_splits)

text \<open>Transparency of the store cache: what it adds is only reach, never another answer.\<close>

lemma GetStoreAndType_transparent:
  assumes "cm_ok e s" "db_connect e = erSuccess" "GetStoreAndType e d s i = (r, s')"
  shows "cm_ok e s' \<and> (\<forall>st. r = Inr st \<longrightarrow> (\<exists>d'. store_of e d' i = Inr st)) \<and>
    (\<forall>st. store_of e d i = Inr st \<longrightarrow> r = Inr st)"
  using assms
proof (induction d arbitrary: s i r s')
  case (Suc d)
  obtain r0 s0 where 0: "cm_GetStore_cached e s i = (r0, s0)" by fastforce
  note ok0 = cm_ok_store[OF Suc.prems(1) 0]
  show ?case
  proof (cases r0)
    case (Inr st)
    then have r: "r = Inr st" "s' = s0" using Suc.prems 0 by auto
    obtain d' where d': "store_of e d' i = Inr st" using ok0(2)[OF Inr] by blast
    have "st' = st" if "store_of e (Suc d) i = Inr st'" for st'
      using store_of_mono[OF that, of "max (Suc d) d'"] store_of_mono[OF d', of "max (Suc d) d'"]
      by simp
    then show ?thesis using r ok0(1) d' by blast
  next
    case (Inl er)
    obtain rp sp where p: "cm_GetParent e s0 i = (rp, sp)" by fastforce
    note okp = GetParent_transparent[OF ok0(1) Suc.prems(2) p]
    obtain r1 s1 where 1: "(case rp of Inl _ \<Rightarrow> (read_store e i, sp)
         | Inr q \<Rightarrow> GetStoreAndType e d sp q) = (r1, s1)" by fastforce
    have run: "(r, s') = (case r1 of Inl er \<Rightarrow> (Inl er, s1) | Inr st \<Rightarrow> (Inr st, SetStore e s1 i st))"
      using Suc.prems(2,3) 0 Inl p 1 by simp
    have *: "cm_ok e s1 \<and> (\<forall>st. r1 = Inr st \<longrightarrow> (\<exists>d'. store_of e d' i = Inr st)) \<and>
        (\<forall>st. store_of e (Suc d) i = Inr st \<longrightarrow> r1 = Inr st)"
    proof (cases rp)
      case (Inl er')
      then have "r1 = read_store e i" "s1 = sp" "parent_of e i = Inl er'" using 1 okp(1) by auto
      then show ?thesis using okp(2) by (auto intro: exI[of _ "Suc 0"])
    next
      case (Inr q)
      then have "parent_of e i = Inr q" "GetStoreAndType e d sp q = (r1, s1)" using 1 okp(1) by auto
      moreover have "store_of e d' q = Inr st \<Longrightarrow> store_of e (Suc d') i = Inr st" for d' st
        using calculation(1) by simp
      ultimately show ?thesis using Suc.IH[OF okp(2) Suc.prems(2), of q r1 s1]
        by (metis store_of.simps(2) sum.simps(6))
    qed
    show ?thesis
    proof (cases r1)
      case (Inl er')
      then show ?thesis using run * by auto
    next
      case (Inr st)
      then obtain d' where "store_of e d' i = Inr st" using * by blast
      then show ?thesis using run * Inr cm_ok_SetStore[of e s1 d' i st] by auto
    qed
  qed
qed auto

lemma GetOwner_transparent:
  assumes "cm_ok e s" "db_connect e = erSuccess" "cm_GetOwner e s i = (r, s')"
  shows "r = map_sum id ob_ulOwner (read_object e i)" "cm_ok e s'"
proof -
  obtain r0 s0 where 0: "cm_GetObject_cached e s i = (r0, s0)" by fastforce
  note k = cm_ok_object[OF assms(1) 0]
  obtain r1 s1 where 1: "cm_GetObject e s0 i = (r1, s1)" by fastforce
  show "r = map_sum id ob_ulOwner (read_object e i)" "cm_ok e s'"
    using assms(2,3) 0 1 k GetObject_transparent[OF k(1) assms(2) 1]
    by (auto simp: cm_GetOwner_def split: sum.splits)
qed

lemma GetACLs_transparent:
  assumes "cm_ok e s" "db_connect e = erSuccess" "cm_GetACLs e s i = (r, s')"
  shows "r = read_acl e i" "cm_ok e s'"
proof -
  obtain r0 s0 where 0: "cm_GetACLs_cached e s i = (r0, s0)" by fastforce
  note k = cm_ok_acl[OF assms(1) 0]
  show "r = read_acl e i" "cm_ok e s'"
    using assms(2,3) 0 k cm_ok_SetACLs[OF k(1)]
    by (auto simp: cm_GetACLs_def split: sum.splits)
qed

lemma store_of_cong:
  assumes "\<And>j. parent_of e' j = parent_of e j" "db_stores e' = db_stores e"
  shows "store_of e' d i = store_of e d i"
proof (induction d arbitrary: i)
  case (Suc d)
  then show ?case using assms by (simp add: read_store_def split: sum.splits)
qed simp

text \<open>A change of one object that leaves the tree alone, reported as \<open>fnevObjectModified\<close>.\<close>

lemma Update_modified_ok:
  assumes "cm_ok e s"
    and "\<And>j. j \<noteq> i \<Longrightarrow> db_hierarchy e' j = db_hierarchy e j"
    and "\<And>j. j \<noteq> i \<Longrightarrow> db_acl e' j = db_acl e j"
    and "\<And>j. parent_of e' j = parent_of e j" "db_stores e' = db_stores e"
  shows "cm_ok e' (cm_Update e'' s fnevObjectModified i)"
proof -
  have "ecc.coherent (\<lambda>i ob. read_object e' i = Inr ob) (snd (RemoveCacheItem (cm_objcfg e'') (m_ObjectsCache s) i))"
    using assms(1,2)
    by (intro ecc.coherent_del_change[where P = "\<lambda>i ob. read_object e i = Inr ob"])
      (auto simp: cm_ok_def read_object_def)
  moreover have "ecc.coherent (\<lambda>i rs. read_acl e' i = Inr rs) (snd (RemoveCacheItem (cm_aclcfg e'') (m_AclCache s) i))"
    using assms(1,3)
    by (intro ecc.coherent_del_change[where P = "\<lambda>i rs. read_acl e i = Inr rs"])
      (auto simp: cm_ok_def read_acl_def)
  moreover have "ecc.coherent (\<lambda>i st. \<exists>d. store_of e' d i = Inr st) (m_StoresCache s)"
    using assms(1,4,5) store_of_cong[of e' e] by (simp add: cm_ok_def)
  moreover have "cm_Update e'' s fnevObjectModified i =
      s\<lparr>m_AclCache := snd (RemoveCacheItem (cm_aclcfg e'') (m_AclCache s) i),
        m_ObjectsCache := snd (RemoveCacheItem (cm_objcfg e'') (m_ObjectsCache s) i)\<rparr>"
    by (simp add: cm_Update_def DelACLs_def DelObject_def case_prod_beta)
  ultimately show ?thesis by (simp add: cm_ok_def)
qed

definition new_cacheman :: cacheman where
  "new_cacheman = \<lparr>m_ObjectsCache = new_cache, m_StoresCache = new_cache, m_AclCache = new_cache,
     m_QuotaCache = new_cache, m_QuotaUserDefaultCache = new_cache\<rparr>"

lemma coherent_new [simp]: "ecc.coherent P new_cache"
  by (simp add: ecc.coherent_def new_cache_def distinct_keys_def entries_def)

lemma coherent_Clear [simp]: "ecc.coherent P (ClearCache c)"
  by (simp add: ecc.coherent_def ClearCache_def distinct_keys_def entries_def)

lemma cm_ok_new [simp]: "cm_ok e new_cacheman"
  by (simp add: cm_ok_def new_cacheman_def)

lemma cm_ok_Purge: "cm_ok e s \<Longrightarrow> cm_ok e (cm_PurgeCache s fl)"
  by (simp add: cm_ok_def cm_PurgeCache_def)

subsection \<open>Properties\<close>

text \<open>A database of one store with a root folder, and a folder in it.\<close>

definition demo_rows :: "u32 \<Rightarrow> hrow option" where
  "demo_rows i =
     (if i = 1 then Some \<lparr>hr_parent = None, hr_owner = Some 5, hr_flags = Some 0, hr_type = Some 1\<rparr>
      else if i = 2 then Some \<lparr>hr_parent = Some 1, hr_owner = Some 5, hr_flags = Some 0, hr_type = Some 3\<rparr>
      else if i = 3 then Some \<lparr>hr_parent = Some 2, hr_owner = Some 6, hr_flags = Some 0, hr_type = Some 3\<rparr>
      else None)"

definition demo_vcfg :: "(u32, 'v) cache_cfg" where
  "demo_vcfg = \<lparr>cf_MaxSize = 1000, cf_MaxAge = 0, cf_slot = 16, cf_ksize = (\<lambda>_. 0),
     cf_vsize = (\<lambda>_. 8), cf_place = (\<lambda>_ ks. length ks)\<rparr>"

definition demo_db :: cm_env where
  "demo_db = \<lparr>db_connect = erSuccess, db_hierarchy = (\<lambda>i. Inr (demo_rows i)),
     db_stores = (\<lambda>i. Inr (if i = 1 then [(Some 1, Some 7, Some 0)] else [])),
     db_acl = (\<lambda>i. Inr (if i = 2 then [(Some 6, Some 2, Some 1)] else [])),
     cm_objcfg = demo_vcfg, cm_storecfg = demo_vcfg, cm_aclcfg = demo_vcfg,
     cm_quotacfg = demo_vcfg, cm_now = 0\<rparr>"

text \<open>
  C22: The object and access list caches are transparent: a coherent manager answers a question
  about an object, its owner, its parent or its access list exactly as a read of the database
  does, errors included, and stays coherent.
\<close>

theorem cache_manager_transparent:
  assumes "cm_ok e s" "db_connect e = erSuccess"
  shows "fst (cm_GetObject e s i) = read_object e i \<and> cm_ok e (snd (cm_GetObject e s i)) \<and>
    fst (cm_GetOwner e s i) = map_sum id ob_ulOwner (read_object e i) \<and> cm_ok e (snd (cm_GetOwner e s i)) \<and>
    fst (cm_GetParent e s i) = parent_of e i \<and> cm_ok e (snd (cm_GetParent e s i)) \<and>
    fst (cm_GetACLs e s i) = read_acl e i \<and> cm_ok e (snd (cm_GetACLs e s i))"
  using GetObject_transparent[OF assms, of i] GetOwner_transparent[OF assms, of i]
    GetParent_transparent[OF assms, of i] GetACLs_transparent[OF assms, of i]
  by (metis prod.collapse)

lemma cache_manager_transparent_witness:
  "fst (cm_GetOwner demo_db (snd (cm_GetObject demo_db new_cacheman 3)) 3) = Inr 6"
proof -
  have c: "db_connect demo_db = erSuccess" by (simp add: demo_db_def)
  have "cm_ok demo_db (snd (cm_GetObject demo_db new_cacheman 3))"
    using cache_manager_transparent[OF cm_ok_new c] by blast
  from cache_manager_transparent[OF this c, of 3] show ?thesis
    by (simp add: read_object_def demo_db_def demo_rows_def)
qed

text \<open>
  The store cache is transparent: what a coherent manager answers about the store of an
  object is what the climb along the parents in the database finds, and it answers whenever that
  climb succeeds within the depth it was given. It may answer for deeper objects, never otherwise.
\<close>

theorem store_cache_transparent:
  assumes "cm_ok e s" "db_connect e = erSuccess"
  shows "cm_ok e (snd (GetStoreAndType e d s i)) \<and>
    (\<forall>st. fst (GetStoreAndType e d s i) = Inr st \<longrightarrow> (\<exists>d'. store_of e d' i = Inr st)) \<and>
    (\<forall>st. store_of e d i = Inr st \<longrightarrow> fst (GetStoreAndType e d s i) = Inr st)"
  using GetStoreAndType_transparent[OF assms, of d i "fst (GetStoreAndType e d s i)"
      "snd (GetStoreAndType e d s i)"] by simp

lemma store_cache_transparent_witness:
  "fst (GetStoreAndType demo_db 100 new_cacheman 3) =
     Inr \<lparr>st_ulStore = 1, st_guid = 7, st_ulType = 0\<rparr>"
proof -
  have c: "db_connect demo_db = erSuccess" by (simp add: demo_db_def)
  have "parent_of demo_db 3 = Inr 2" "parent_of demo_db 2 = Inr 1"
    "parent_of demo_db 1 = Inl ZARAFA_E_NOT_FOUND"
    "read_store demo_db 1 = Inr \<lparr>st_ulStore = 1, st_guid = 7, st_ulType = 0\<rparr>"
    by (simp_all add: parent_of_def read_object_def read_store_def demo_db_def demo_rows_def CACHE_NO_PARENT_def)
  then have "store_of demo_db (Suc (Suc (Suc 0))) 3 = Inr \<lparr>st_ulStore = 1, st_guid = 7, st_ulType = 0\<rparr>"
    by simp
  from store_of_mono[OF this, of 100] show ?thesis
    using store_cache_transparent[OF cm_ok_new c, of 100 3] by simp
qed

text \<open>
  C23: Invalidation is enough: after the row or the access list of one object has changed, and no
  parent has, \<open>Update(fnevObjectModified, id)\<close> makes the manager coherent with the new database.
\<close>

theorem modified_update_restores:
  assumes "cm_ok e s"
    and "\<And>j. j \<noteq> i \<Longrightarrow> db_hierarchy e' j = db_hierarchy e j"
    and "\<And>j. j \<noteq> i \<Longrightarrow> db_acl e' j = db_acl e j"
    and "\<And>j. parent_of e' j = parent_of e j" "db_stores e' = db_stores e"
  shows "cm_ok e' (cm_Update e' s fnevObjectModified i)"
  using assms by (rule Update_modified_ok)

lemma modified_update_restores_witness:
  "cm_ok (demo_db\<lparr>db_acl := (\<lambda>_. Inr [])\<rparr>)
     (cm_Update (demo_db\<lparr>db_acl := (\<lambda>_. Inr [])\<rparr>)
       (snd (cm_GetACLs demo_db new_cacheman 2)) fnevObjectModified 2)"
proof (rule modified_update_restores[of demo_db])
  show "cm_ok demo_db (snd (cm_GetACLs demo_db new_cacheman 2))"
    by (rule GetACLs_transparent(2)[OF cm_ok_new _ prod.collapse[symmetric]]) (simp add: demo_db_def)
qed (simp_all add: demo_db_def parent_of_def read_object_def)

end
