(* ===== verification/Security.thy ===== *)
theory Security
  imports Cache_Manager "HOL-Library.Multiset"
begin

text \<open>
  The access decisions of \<^verbatim>\<open>provider/libserver/ECSecurity.cpp\<close>: who a session is, which groups
  and companies it sees, which rights an object's access lists give it, whether an operation on
  an object is allowed, what a change of access lists writes, and the quota state of a store.
  The answers of the cache manager and of the user management are parameters, functions of
  their arguments during one session; those of the cache manager are instantiated with the
  reads of \<open>Cache_Manager\<close>.
\<close>

subsection \<open>Users, groups and companies\<close>

record objectdetails =
  ud_class :: u32
  ud_admin :: u32                        \<comment> \<open>\<open>OB_PROP_I_ADMINLEVEL\<close>\<close>
  ud_company :: u32                      \<comment> \<open>\<open>OB_PROP_I_COMPANYID\<close>\<close>
  ud_login :: string                     \<comment> \<open>\<open>OB_PROP_S_LOGIN\<close>\<close>
  ud_hidden :: bool                      \<comment> \<open>\<open>OB_PROP_B_AB_HIDDEN\<close>\<close>

record localobject =
  lo_ulId :: u32
  lo_details :: objectdetails

definition ACTIVE_USER :: u32 where "ACTIVE_USER = 0x10001"
definition NONACTIVE_CONTACT :: u32 where "NONACTIVE_CONTACT = 0x10005"
definition DISTLIST_GROUP :: u32 where "DISTLIST_GROUP = 0x30001"
definition DISTLIST_SECURITY :: u32 where "DISTLIST_SECURITY = 0x30002"
definition DISTLIST_DYNAMIC :: u32 where "DISTLIST_DYNAMIC = 0x30003"
definition CONTAINER_COMPANY :: u32 where "CONTAINER_COMPANY = 0x40001"
definition CONTAINER_ADDRESSLIST :: u32 where "CONTAINER_ADDRESSLIST = 0x40002"

definition OBJECTTYPE_MAILUSER :: u32 where "OBJECTTYPE_MAILUSER = 1"
definition OBJECTTYPE_DISTLIST :: u32 where "OBJECTTYPE_DISTLIST = 3"

definition OBJECTCLASS_TYPE :: "u32 \<Rightarrow> u32" where
  "OBJECTCLASS_TYPE c = drop_bit 16 c AND 0xFFFF"

definition ZARAFA_UID_EVERYONE :: u32 where "ZARAFA_UID_EVERYONE = 1"
definition ZARAFA_UID_SYSTEM :: u32 where "ZARAFA_UID_SYSTEM = 2"
definition EC_NO_IMPERSONATOR :: u32 where "EC_NO_IMPERSONATOR = 0xFFFFFFFF"
definition ADMIN_LEVEL_SYSADMIN :: u32 where "ADMIN_LEVEL_SYSADMIN = 2"

definition USERMANAGEMENT_IDS_ONLY :: u32 where "USERMANAGEMENT_IDS_ONLY = 1"
definition USERMANAGEMENT_ADDRESSBOOK :: u32 where "USERMANAGEMENT_ADDRESSBOOK = 2"

datatype relation = OBJECTRELATION_GROUP_MEMBER | OBJECTRELATION_COMPANY_VIEW | OBJECTRELATION_COMPANY_ADMIN

text \<open>What the session asks of the cache manager, the user management and the configuration.\<close>

record sec_env =
  se_hosted :: bool
  se_object :: "u32 \<Rightarrow> ecresult + ecobject"
  se_owner :: "u32 \<Rightarrow> ecresult + u32"
  se_parent :: "u32 \<Rightarrow> ecresult + u32"
  se_store :: "u32 \<Rightarrow> ecresult + ecstore"
  se_acls :: "u32 \<Rightarrow> ecresult + ecright list"
  se_details :: "u32 \<Rightarrow> ecresult + objectdetails"
  se_extern :: "u32 \<Rightarrow> ecresult + u32 \<times> u32"       \<comment> \<open>class and company\<close>
  se_parents :: "relation \<Rightarrow> u32 \<Rightarrow> u32 \<Rightarrow> ecresult + localobject list"
  se_companies :: "u32 \<Rightarrow> ecresult + localobject list"
  se_quota :: "u32 \<Rightarrow> bool \<Rightarrow> ecresult + quotadetails"
  se_setting :: "string \<Rightarrow> i64 option"             \<comment> \<open>a number of the configuration file\<close>

text \<open>The part of the environment that the cache manager provides, read from a database.\<close>

definition with_database :: "cm_env \<Rightarrow> sec_env \<Rightarrow> sec_env" where
  "with_database d e =
     e\<lparr>se_object := read_object d,
       se_owner := (\<lambda>i. map_sum id ob_ulOwner (read_object d i)),
       se_parent := parent_of d,
       se_store := store_of d default_maxdepth,
       se_acls := read_acl d\<rparr>"

record security =
  m_ulUserID :: u32
  m_ulImpersonatorID :: u32
  m_ulCompanyID :: u32
  m_details :: objectdetails
  m_impersonatorDetails :: objectdetails
  m_bRestrictedAdmin :: bool
  m_bOwnerAutoFullAccess :: bool
  m_lpGroups :: "localobject list option"
  m_lpViewCompanies :: "localobject list option"
  m_lpAdminCompanies :: "localobject list option"

definition no_details :: objectdetails where
  "no_details = \<lparr>ud_class = 0, ud_admin = 0, ud_company = 0, ud_login = [], ud_hidden = False\<rparr>"

text \<open>The constructor; \<open>m_ulImpersonatorID\<close> is not set there.\<close>

definition new_security :: "bool \<Rightarrow> bool \<Rightarrow> u32 \<Rightarrow> security" where
  "new_security restricted ownerfull imp =
     \<lparr>m_ulUserID = 0, m_ulImpersonatorID = imp, m_ulCompanyID = 0, m_details = no_details,
      m_impersonatorDetails = no_details, m_bRestrictedAdmin = restricted,
      m_bOwnerAutoFullAccess = ownerfull, m_lpGroups = None, m_lpViewCompanies = None,
      m_lpAdminCompanies = None\<rparr>"

definition SetUserContext :: "sec_env \<Rightarrow> security \<Rightarrow> u32 \<Rightarrow> u32 \<Rightarrow> ecresult \<times> security" where
  "SetUserContext e s user imp =
     (let s = s\<lparr>m_ulUserID := user, m_ulImpersonatorID := imp\<rparr> in
      case se_details e user of
        Inl er \<Rightarrow> (er, s)
      | Inr d \<Rightarrow>
          (let s = s\<lparr>m_details := d, m_ulCompanyID := (if se_hosted e then ud_company d else 0)\<rparr> in
           if imp = EC_NO_IMPERSONATOR then (erSuccess, s)
           else (case se_details e imp of
             Inl er \<Rightarrow> (er, s)
           | Inr di \<Rightarrow>
               (let s = s\<lparr>m_impersonatorDetails := di\<rparr> in
                if ud_admin di = 0 then (ZARAFA_E_NO_ACCESS, s)
                else if se_hosted e \<and> ud_admin di < ADMIN_LEVEL_SYSADMIN \<and>
                        ud_company di \<noteq> m_ulCompanyID s
                then (ZARAFA_E_NO_ACCESS, s)
                else (erSuccess, s)))))"

text \<open>\<open>list::sort\<close> and \<open>list::unique\<close> on ids.\<close>

fun unique_ids :: "localobject list \<Rightarrow> localobject list" where
  "unique_ids [] = []"
| "unique_ids [x] = [x]"
| "unique_ids (x # y # xs) =
     (if lo_ulId x = lo_ulId y then unique_ids (x # xs) else x # unique_ids (y # xs))"

definition GetViewableCompanies :: "sec_env \<Rightarrow> security \<Rightarrow> u32 \<Rightarrow> ecresult + localobject list" where
  "GetViewableCompanies e s fl =
     (let r = (if ud_admin (m_details s) = ADMIN_LEVEL_SYSADMIN then se_companies e fl
               else se_parents e OBJECTRELATION_COMPANY_VIEW (m_ulCompanyID s) fl);
          l = (case r of Inl _ \<Rightarrow> [] | Inr l \<Rightarrow> l)
      in if m_ulCompanyID s = 0 then Inr (unique_ids (sort_key lo_ulId l))
         else if fl AND USERMANAGEMENT_IDS_ONLY = 0 then
           (case se_details e (m_ulCompanyID s) of
              Inl er \<Rightarrow> Inl er
            | Inr d \<Rightarrow> Inr (unique_ids (sort_key lo_ulId
                (l @ [\<lparr>lo_ulId = m_ulCompanyID s, lo_details = d\<rparr>]))))
         else Inr (unique_ids (sort_key lo_ulId
                (l @ [\<lparr>lo_ulId = m_ulCompanyID s,
                       lo_details = no_details\<lparr>ud_class := CONTAINER_COMPANY\<rparr>\<rparr>]))))"

text \<open>The list of viewable companies is read once and kept.\<close>

definition view_companies :: "sec_env \<Rightarrow> security \<Rightarrow> (ecresult + localobject list) \<times> security" where
  "view_companies e s =
     (case m_lpViewCompanies s of
        Some l \<Rightarrow> (Inr l, s)
      | None \<Rightarrow>
          (case GetViewableCompanies e s 0 of
             Inl er \<Rightarrow> (Inl er, s)
           | Inr l \<Rightarrow> (Inr l, s\<lparr>m_lpViewCompanies := Some l\<rparr>)))"

definition GetViewableCompanyIds ::
  "sec_env \<Rightarrow> security \<Rightarrow> u32 \<Rightarrow> (ecresult + localobject list) \<times> security" where
  "GetViewableCompanyIds e s fl =
     (case view_companies e s of
        (Inl er, s) \<Rightarrow> (Inl er, s)
      | (Inr l, s) \<Rightarrow>
          (Inr (map (\<lambda>c. if fl AND USERMANAGEMENT_IDS_ONLY \<noteq> 0
                         then c\<lparr>lo_details := no_details\<lparr>ud_class := ud_class (lo_details c)\<rparr>\<rparr>
                         else c)
                 (filter (\<lambda>c. \<not> (m_ulUserID s \<noteq> 0 \<and> fl AND USERMANAGEMENT_ADDRESSBOOK \<noteq> 0 \<and>
                                 ud_hidden (lo_details c))) l)), s))"

definition IsUserObjectVisible :: "sec_env \<Rightarrow> security \<Rightarrow> u32 \<Rightarrow> ecresult \<times> security" where
  "IsUserObjectVisible e s u =
     (if u = 0 \<or> u = m_ulUserID s \<or> u = m_ulCompanyID s \<or> u = ZARAFA_UID_SYSTEM \<or>
         u = ZARAFA_UID_EVERYONE \<or> ud_admin (m_details s) = ADMIN_LEVEL_SYSADMIN \<or> \<not> se_hosted e
      then (erSuccess, s)
      else (case se_extern e u of
        Inl er \<Rightarrow> (er, s)
      | Inr (cls, co) \<Rightarrow>
          (let co = (if cls = CONTAINER_COMPANY then u else co) in
           case view_companies e s of
             (Inl er, s) \<Rightarrow> (er, s)
           | (Inr l, s) \<Rightarrow>
               (if co \<in> set (map lo_ulId l) then erSuccess else ZARAFA_E_NOT_FOUND, s))))"

text \<open>
  The loop of \<open>GetGroupsForUser\<close>: the list grows while it is read. \<open>seen\<close> is \<open>cSeenGroups\<close>,
  \<open>acc\<close> the groups kept so far and \<open>todo\<close> the rest of the list.
\<close>

partial_function (option) groups_loop ::
  "sec_env \<Rightarrow> security \<Rightarrow> u32 list \<Rightarrow> localobject list \<Rightarrow> localobject list
     \<Rightarrow> (localobject list \<times> security) option" where
  "groups_loop e s seen acc todo =
     (case todo of
        [] \<Rightarrow> Some (acc, s)
      | g # todo \<Rightarrow>
          (case IsUserObjectVisible e s (lo_ulId g) of
             (er, s) \<Rightarrow>
               if er \<noteq> erSuccess \<or> ud_class (lo_details g) = DISTLIST_DYNAMIC
               then groups_loop e s seen acc todo
               else (let seen = lo_ulId g # seen;
                         more = (case se_parents e OBJECTRELATION_GROUP_MEMBER (lo_ulId g)
                                        USERMANAGEMENT_IDS_ONLY of
                                   Inl _ \<Rightarrow> []
                                 | Inr gs \<Rightarrow> filter (\<lambda>x. lo_ulId x \<notin> set seen) gs)
                     in groups_loop e s seen (acc @ [g]) (todo @ more))))"

lemmas [code] = groups_loop.simps

definition GetGroupsForUser ::
  "sec_env \<Rightarrow> security \<Rightarrow> u32 \<Rightarrow> ((ecresult + localobject list) \<times> security) option" where
  "GetGroupsForUser e s u =
     (case se_parents e OBJECTRELATION_GROUP_MEMBER u USERMANAGEMENT_IDS_ONLY of
        Inl er \<Rightarrow> Some (Inl er, s)
      | Inr gs \<Rightarrow> map_option (\<lambda>(l, s). (Inr l, s)) (groups_loop e s [] [] gs))"

subsection \<open>Rights of access lists\<close>

definition ACCESS_TYPE_DENIED :: u32 where "ACCESS_TYPE_DENIED = 1"
definition ACCESS_TYPE_GRANT :: u32 where "ACCESS_TYPE_GRANT = 2"

definition MAX_PARENT_LIMIT :: nat where "MAX_PARENT_LIMIT = 64"

text \<open>The grants for an id: their union, and whether there is one.\<close>

definition granted :: "ecright list \<Rightarrow> u32 \<Rightarrow> u32 \<times> bool" where
  "granted acl u =
     fold (\<lambda>r (m, f). if ri_ulType r = ACCESS_TYPE_GRANT \<and> ri_ulUserid r = u
                      then (m OR ri_ulRights r, True) else (m, f)) acl (0, False)"

text \<open>The user's groups, read on first use and kept; a failure means none and is tried again.\<close>

definition my_groups :: "sec_env \<Rightarrow> security \<Rightarrow> (localobject list \<times> security) option" where
  "my_groups e s =
     (case m_lpGroups s of
        Some l \<Rightarrow> Some (l, s)
      | None \<Rightarrow> do {
          (r, s) \<leftarrow> GetGroupsForUser e s (m_ulUserID s);
          case r of
            Inl _ \<Rightarrow> Some ([], s)
          | Inr l \<Rightarrow> Some (l, s\<lparr>m_lpGroups := Some l\<rparr>)
        })"

definition acl_ids :: "security \<Rightarrow> localobject list \<Rightarrow> u32 list" where
  "acl_ids s gs = m_ulUserID s # m_ulCompanyID s # map lo_ulId gs"

definition acl_rights :: "ecright list \<Rightarrow> u32 list \<Rightarrow> u32 \<times> bool" where
  "acl_rights acl ids =
     fold (\<lambda>u (m, f). case granted acl u of (m', f') \<Rightarrow> (m OR m', f \<or> f')) ids (0, False)"

text \<open>The climb of \<open>GetObjectPermission\<close>; \<open>depth\<close> counts the parents it has gone to.\<close>

function permission_loop ::
  "sec_env \<Rightarrow> security \<Rightarrow> nat \<Rightarrow> u32 \<Rightarrow> (u32 \<times> security) option" where
  "permission_loop e s depth i =
     (case (case se_acls e i of
              Inl _ \<Rightarrow> Some ((0, False), s)
            | Inr acl \<Rightarrow> do {
                (gs, s) \<leftarrow> my_groups e s;
                Some (acl_rights acl (acl_ids s gs), s)
              }) of
        None \<Rightarrow> None
      | Some ((m, found), s) \<Rightarrow>
          if found then Some (m, s)
          else (case se_parent e i of
            Inl _ \<Rightarrow> Some (0, s)
          | Inr p \<Rightarrow>
              if Suc depth > MAX_PARENT_LIMIT then Some (0, s)
              else permission_loop e s (Suc depth) p))"
  by pat_completeness auto
termination
  by (relation "measure (\<lambda>(e, s, depth, i). MAX_PARENT_LIMIT - depth)") auto

definition GetObjectPermission :: "sec_env \<Rightarrow> security \<Rightarrow> u32 \<Rightarrow> (u32 \<times> security) option" where
  "GetObjectPermission e s i = permission_loop e s 0 i"

definition HaveObjectPermission :: "sec_env \<Rightarrow> security \<Rightarrow> u32 \<Rightarrow> u32 \<Rightarrow> (ecresult \<times> security) option" where
  "HaveObjectPermission e s i msk = do {
     (m, s) \<leftarrow> GetObjectPermission e s i;
     Some (if m AND msk \<noteq> 0 then erSuccess else ZARAFA_E_NO_ACCESS, s)
   }"

subsection \<open>Owners and administrators\<close>

definition GetOwner :: "sec_env \<Rightarrow> u32 \<Rightarrow> ecresult + u32" where
  "GetOwner e i = (case se_owner e i of Inl _ \<Rightarrow> Inl ZARAFA_E_NOT_FOUND | Inr o' \<Rightarrow> Inr o')"

definition IsOwner :: "sec_env \<Rightarrow> security \<Rightarrow> u32 \<Rightarrow> ecresult" where
  "IsOwner e s i =
     (case GetOwner e i of
        Inl _ \<Rightarrow> ZARAFA_E_NO_ACCESS
      | Inr ow \<Rightarrow> if ow \<noteq> m_ulUserID s then ZARAFA_E_NO_ACCESS else erSuccess)"

text \<open>The code, and what the two output variables hold when they held zero before.\<close>

definition GetStoreOwnerAndType :: "sec_env \<Rightarrow> u32 \<Rightarrow> ecresult \<times> u32 \<times> u32" where
  "GetStoreOwnerAndType e i =
     (case se_store e i of
        Inl er \<Rightarrow> (er, 0, 0)
      | Inr st \<Rightarrow>
          (case GetOwner e (st_ulStore st) of
             Inl er \<Rightarrow> (er, 0, st_ulType st)
           | Inr ow \<Rightarrow> (erSuccess, ow, st_ulType st)))"

definition GetStoreOwner :: "sec_env \<Rightarrow> u32 \<Rightarrow> ecresult + u32" where
  "GetStoreOwner e i =
     (case GetStoreOwnerAndType e i of
        (er, ow, ty) \<Rightarrow> if er = erSuccess then Inr ow else Inl er)"

definition IsStoreOwner :: "sec_env \<Rightarrow> security \<Rightarrow> u32 \<Rightarrow> ecresult" where
  "IsStoreOwner e s i =
     (case se_store e i of Inl er \<Rightarrow> er | Inr st \<Rightarrow> IsOwner e s (st_ulStore st))"

definition GetAdminLevel :: "security \<Rightarrow> u32" where
  "GetAdminLevel s = ud_admin (m_details s)"

definition GetUserCompany :: "security \<Rightarrow> u32" where
  "GetUserCompany s = m_ulCompanyID s"

text \<open>The loop that drops the companies the user cannot see.\<close>

fun visible_only :: "sec_env \<Rightarrow> security \<Rightarrow> localobject list \<Rightarrow> localobject list \<times> security" where
  "visible_only e s [] = ([], s)"
| "visible_only e s (c # cs) =
     (let (er, s) = IsUserObjectVisible e s (lo_ulId c);
          (l, s) = visible_only e s cs
      in (if er \<noteq> erSuccess then l else c # l, s))"

definition GetAdminCompanies ::
  "sec_env \<Rightarrow> security \<Rightarrow> u32 \<Rightarrow> (ecresult + localobject list) \<times> security" where
  "GetAdminCompanies e s fl =
     (case (if ud_admin (m_details s) = ADMIN_LEVEL_SYSADMIN then se_companies e fl
            else se_parents e OBJECTRELATION_COMPANY_ADMIN (m_ulUserID s) fl) of
        Inl er \<Rightarrow> (Inl er, s)
      | Inr cs \<Rightarrow> (let (l, s) = visible_only e s cs in (Inr l, s)))"

definition admin_companies :: "sec_env \<Rightarrow> security \<Rightarrow> (ecresult + localobject list) \<times> security" where
  "admin_companies e s =
     (case m_lpAdminCompanies s of
        Some l \<Rightarrow> (Inr l, s)
      | None \<Rightarrow>
          (case GetAdminCompanies e s USERMANAGEMENT_IDS_ONLY of
             (Inl er, s) \<Rightarrow> (Inl er, s)
           | (Inr l, s) \<Rightarrow> (Inr l, s\<lparr>m_lpAdminCompanies := Some l\<rparr>)))"

definition IsAdminOverUserObject :: "sec_env \<Rightarrow> security \<Rightarrow> u32 \<Rightarrow> ecresult \<times> security" where
  "IsAdminOverUserObject e s u =
     (if \<not> se_hosted e then
        (if ud_admin (m_details s) \<noteq> 0 then erSuccess else ZARAFA_E_NO_ACCESS, s)
      else if ud_admin (m_details s) = ADMIN_LEVEL_SYSADMIN then (erSuccess, s)
      else (case se_extern e u of
        Inl er \<Rightarrow> (er, s)
      | Inr (cls, co) \<Rightarrow>
          (let co = (if cls = CONTAINER_COMPANY then u else co) in
           if m_ulCompanyID s = co then
             (if ud_admin (m_details s) \<noteq> 0 then erSuccess else ZARAFA_E_NO_ACCESS, s)
           else (case admin_companies e s of
             (Inl er, s) \<Rightarrow> (er, s)
           | (Inr l, s) \<Rightarrow>
               (if co \<in> set (map lo_ulId l) then erSuccess else ZARAFA_E_NO_ACCESS, s)))))"

definition IsAdminOverOwnerOfObject :: "sec_env \<Rightarrow> security \<Rightarrow> u32 \<Rightarrow> ecresult \<times> security" where
  "IsAdminOverOwnerOfObject e s i =
     (case GetStoreOwner e i of Inl er \<Rightarrow> (er, s) | Inr ow \<Rightarrow> IsAdminOverUserObject e s ow)"

definition GetUserId :: "sec_env \<Rightarrow> security \<Rightarrow> u32 \<Rightarrow> u32 \<times> security" where
  "GetUserId e s i =
     (if i = 0 then (m_ulUserID s, s)
      else (case IsAdminOverOwnerOfObject e s i of
        (er, s) \<Rightarrow>
          if er = erSuccess then
            (case GetOwner e i of Inl _ \<Rightarrow> (m_ulUserID s, s) | Inr ow \<Rightarrow> (ow, s))
          else (m_ulUserID s, s)))"

definition GetUsername :: "security \<Rightarrow> string" where
  "GetUsername s = (if m_ulUserID s \<noteq> 0 then ud_login (m_details s) else ''SYSTEM'')"

definition GetImpersonator :: "security \<Rightarrow> ecresult + string" where
  "GetImpersonator s =
     (if m_ulImpersonatorID s = EC_NO_IMPERSONATOR then Inl ZARAFA_E_NOT_FOUND
      else if m_ulImpersonatorID s \<noteq> 0 then Inr (ud_login (m_impersonatorDetails s))
      else Inr ''SYSTEM'')"

subsection \<open>Checking an operation\<close>

definition MSGFLAG_DELETED :: u32 where "MSGFLAG_DELETED = 0x400"
definition MAPI_STORE :: u32 where "MAPI_STORE = 1"
definition MAPI_FOLDER :: u32 where "MAPI_FOLDER = 3"
definition ECSTORE_TYPE_PRIVATE :: u32 where "ECSTORE_TYPE_PRIVATE = 0"
definition ECSTORE_TYPE_ARCHIVE :: u32 where "ECSTORE_TYPE_ARCHIVE = 2"

definition ecSecurityRead :: u32 where "ecSecurityRead = 1"
definition ecSecurityCreate :: u32 where "ecSecurityCreate = 2"
definition ecSecurityEdit :: u32 where "ecSecurityEdit = 3"
definition ecSecurityDelete :: u32 where "ecSecurityDelete = 4"
definition ecSecurityCreateFolder :: u32 where "ecSecurityCreateFolder = 5"
definition ecSecurityFolderVisible :: u32 where "ecSecurityFolderVisible = 6"
definition ecSecurityFolderAccess :: u32 where "ecSecurityFolderAccess = 7"
definition ecSecurityOwner :: u32 where "ecSecurityOwner = 8"
definition ecSecurityAdmin :: u32 where "ecSecurityAdmin = 9"

lemmas ecSecurity_defs =
  ecSecurityRead_def ecSecurityCreate_def ecSecurityEdit_def ecSecurityDelete_def
  ecSecurityCreateFolder_def ecSecurityFolderVisible_def ecSecurityFolderAccess_def
  ecSecurityOwner_def ecSecurityAdmin_def

definition ecRightsReadAny :: u32 where "ecRightsReadAny = 0x1"
definition ecRightsCreate :: u32 where "ecRightsCreate = 0x2"
definition ecRightsEditOwned :: u32 where "ecRightsEditOwned = 0x8"
definition ecRightsDeleteOwned :: u32 where "ecRightsDeleteOwned = 0x10"
definition ecRightsEditAny :: u32 where "ecRightsEditAny = 0x20"
definition ecRightsDeleteAny :: u32 where "ecRightsDeleteAny = 0x40"
definition ecRightsCreateSubfolder :: u32 where "ecRightsCreateSubfolder = 0x80"
definition ecRightsFolderAccess :: u32 where "ecRightsFolderAccess = 0x100"
definition ecRightsFolderVisible :: u32 where "ecRightsFolderVisible = 0x400"
definition ecRightsAllMask :: u32 where "ecRightsAllMask = 0x15FB"

lemmas ecRights_defs =
  ecRightsReadAny_def ecRightsCreate_def ecRightsEditOwned_def ecRightsDeleteOwned_def
  ecRightsEditAny_def ecRightsDeleteAny_def ecRightsCreateSubfolder_def
  ecRightsFolderAccess_def ecRightsFolderVisible_def ecRightsAllMask_def

text \<open>
  The loop of \<open>CheckDeletedParent\<close>, with its check of the final depth; \<open>d\<close> is \<open>ulDepth\<close> before
  the body.
\<close>

function deleted_loop :: "sec_env \<Rightarrow> u32 \<Rightarrow> nat \<Rightarrow> ecresult" where
  "deleted_loop e i d =
     (case se_object e i of
        Inl er \<Rightarrow> er
      | Inr ob \<Rightarrow>
          if ob_ulFlags ob AND MSGFLAG_DELETED \<noteq> 0 then ZARAFA_E_NOT_FOUND
          else if ob_ulType ob \<noteq> MAPI_STORE \<and> ob_ulParent ob \<noteq> CACHE_NO_PARENT \<and>
                  Suc d \<le> MAX_PARENT_LIMIT
          then deleted_loop e (ob_ulParent ob) (Suc d)
          else if Suc d = MAX_PARENT_LIMIT then ZARAFA_E_NOT_FOUND
          else erSuccess)"
  by pat_completeness auto
termination
  by (relation "measure (\<lambda>(e, i, d). MAX_PARENT_LIMIT - d)") auto

definition CheckDeletedParent :: "sec_env \<Rightarrow> u32 \<Rightarrow> ecresult" where
  "CheckDeletedParent e i = deleted_loop e i 0"

text \<open>The shortcut for stores and the folders right below them; \<^const>\<open>None\<close> where it does not apply.\<close>

definition open_shortcut :: "sec_env \<Rightarrow> u32 \<Rightarrow> u32 \<Rightarrow> ecresult option" where
  "open_shortcut e i right =
     (if right = ecSecurityFolderVisible \<or> right = ecSecurityRead then
        (case se_object e i of
           Inl er \<Rightarrow> Some er
         | Inr ob \<Rightarrow>
             if ob_ulType ob = MAPI_STORE then Some erSuccess
             else (case se_object e (ob_ulParent ob) of
               Inl er \<Rightarrow> Some er
             | Inr par \<Rightarrow>
                 if ob_ulType ob = MAPI_FOLDER \<and> ob_ulType par = MAPI_STORE then Some erSuccess
                 else None))
      else None)"

text \<open>The two owner rules; the flag is \<open>bOwnerFound\<close>.\<close>

definition store_owner_allows :: "security \<Rightarrow> ecresult \<times> u32 \<times> u32 \<Rightarrow> u32 \<Rightarrow> bool" where
  "store_owner_allows s st right =
     (case st of (er, ow, ty) \<Rightarrow>
        er = erSuccess \<and> ow = m_ulUserID s \<and>
        (if ty = ECSTORE_TYPE_ARCHIVE
         then right = ecSecurityFolderVisible \<or> right = ecSecurityRead
         else True))"

definition owner_found :: "sec_env \<Rightarrow> security \<Rightarrow> u32 \<Rightarrow> bool" where
  "owner_found e s i \<longleftrightarrow> GetOwner e i = Inr (m_ulUserID s) \<and> m_bOwnerAutoFullAccess s"

definition object_owner_allows :: "u32 \<Rightarrow> u32 \<Rightarrow> bool" where
  "object_owner_allows ty right =
     (if ty = ECSTORE_TYPE_ARCHIVE then right = ecSecurityFolderVisible \<or> right = ecSecurityRead
      else right = ecSecurityFolderVisible \<or> right = ecSecurityRead \<or> right = ecSecurityCreate)"

definition admin_allows :: "security \<Rightarrow> u32 \<Rightarrow> bool" where
  "admin_allows s right \<longleftrightarrow>
     \<not> m_bRestrictedAdmin s \<or> right = ecSecurityFolderVisible \<or>
     right = ecSecurityFolderAccess \<or> right = ecSecurityCreateFolder"

text \<open>The switch: which kind of check is left, and the mask that the first kind asks for.\<close>

datatype check_type = NoCheck | CheckACL u32 | CheckOwner | CheckAdmin

definition check_type_of :: "u32 \<Rightarrow> bool \<Rightarrow> u32 \<Rightarrow> check_type" where
  "check_type_of right ownerfound ty =
     (if right = ecSecurityRead then CheckACL ecRightsReadAny
      else if right = ecSecurityCreate then CheckACL ecRightsCreate
      else if right = ecSecurityEdit then
        CheckACL (if ownerfound then ecRightsEditAny OR ecRightsEditOwned else ecRightsEditAny)
      else if right = ecSecurityDelete then
        CheckACL (if ownerfound then ecRightsDeleteAny OR ecRightsDeleteOwned else ecRightsDeleteAny)
      else if right = ecSecurityCreateFolder then CheckACL ecRightsCreateSubfolder
      else if right = ecSecurityFolderVisible then CheckACL ecRightsFolderVisible
      else if right = ecSecurityFolderAccess then
        CheckACL (if \<not> ownerfound \<or> ty = ECSTORE_TYPE_ARCHIVE then ecRightsFolderAccess else 0)
      else if right = ecSecurityOwner then CheckOwner
      else if right = ecSecurityAdmin then CheckAdmin
      else NoCheck)"

text \<open>The checks after the switch; \<open>er0\<close> is the code that the function has so far.\<close>

definition check_rest ::
  "sec_env \<Rightarrow> security \<Rightarrow> u32 \<Rightarrow> u32 \<Rightarrow> bool \<Rightarrow> u32 \<Rightarrow> ecresult \<Rightarrow> (ecresult \<times> security) option" where
  "check_rest e s i right own ty er0 =
     (case check_type_of right own ty of
        CheckACL acl \<Rightarrow> if acl = 0 then Some (erSuccess, s) else HaveObjectPermission e s i acl
      | CheckOwner \<Rightarrow> Some (if own then erSuccess else er0, s)
      | CheckAdmin \<Rightarrow> Some (erSuccess, s)
      | NoCheck \<Rightarrow> Some (er0, s))"

text \<open>
  \<open>CheckPermission\<close> up to its label \<open>exit\<close>. Its code starts as \<open>ZARAFA_E_NO_ACCESS\<close>; the
  shortcut, when it reads objects and does not apply, has left it \<open>erSuccess\<close>.
\<close>

definition decide_permission ::
  "sec_env \<Rightarrow> security \<Rightarrow> u32 \<Rightarrow> u32 \<Rightarrow> (ecresult \<times> security) option" where
  "decide_permission e s i right =
     (if m_ulUserID s = ZARAFA_UID_SYSTEM then Some (erSuccess, s)
      else (case open_shortcut e i right of
        Some er \<Rightarrow> Some (er, s)
      | None \<Rightarrow>
          (let er0 = (if right = ecSecurityFolderVisible \<or> right = ecSecurityRead
                      then erSuccess else ZARAFA_E_NO_ACCESS);
               st = GetStoreOwnerAndType e i;
               ty = snd (snd st);
               own = owner_found e s i
           in if store_owner_allows s st right then Some (erSuccess, s)
              else if own \<and> object_owner_allows ty right then Some (erSuccess, s)
              else (case IsAdminOverOwnerOfObject e s i of
                (era, s) \<Rightarrow>
                  if era = erSuccess \<and> admin_allows s right then Some (erSuccess, s)
                  else check_rest e s i right own ty er0))))"

definition CheckPermission ::
  "sec_env \<Rightarrow> security \<Rightarrow> u32 \<Rightarrow> u32 \<Rightarrow> (ecresult \<times> security) option" where
  "CheckPermission e s i right = do {
     (er, s) \<leftarrow> decide_permission e s i right;
     if er = erSuccess \<and>
        (right = ecSecurityCreate \<or> right = ecSecurityEdit \<or> right = ecSecurityCreateFolder)
     then Some (CheckDeletedParent e i, s)
     else Some (er, s)
   }"

subsection \<open>Reading and writing access lists\<close>

definition RIGHT_NORMAL :: u32 where "RIGHT_NORMAL = 0"
definition RIGHT_NEW :: u32 where "RIGHT_NEW = 1"
definition RIGHT_MODIFY :: u32 where "RIGHT_MODIFY = 2"
definition RIGHT_DELETED :: u32 where "RIGHT_DELETED = 4"
definition RIGHT_AUTOUPDATE_DENIED :: u32 where "RIGHT_AUTOUPDATE_DENIED = 8"

text \<open>An entry of the client's \<open>rightsArray\<close>; the entry id is a byte string, empty when absent.\<close>

record rights_entry =
  rr_sUserId :: "u8 list"
  rr_ulUserid :: u32
  rr_ulType :: u32
  rr_ulRights :: u32
  rr_ulState :: u32

text \<open>The table \<open>acl\<close>, keyed by object, user and type, and the statements that \<open>SetRights\<close> runs.\<close>

type_synonym acl_table = "u32 \<times> u32 \<times> u32 \<Rightarrow> u32 option"

datatype acl_stmt = ReplaceAcl u32 u32 u32 u32 | DeleteAcl u32 u32 u32

text \<open>
  The connection, ids of entry ids, ids of external ids, and what a statement returns: parameters. A statement
  that fails leaves the table.
\<close>

record acl_env =
  ae_connect :: ecresult
  ae_entryid :: "u8 list \<Rightarrow> ecresult + u32 \<times> string"
  ae_localid :: "string \<Rightarrow> ecresult + u32"
  ae_exec :: "acl_stmt \<Rightarrow> ecresult"

fun apply_stmt :: "acl_stmt \<Rightarrow> acl_table \<Rightarrow> acl_table" where
  "apply_stmt (ReplaceAcl u i t r) tab = tab((i, u, t) \<mapsto> r)"
| "apply_stmt (DeleteAcl u i t) tab = tab((i, u, t) := None)"

definition run_stmt :: "acl_env \<Rightarrow> acl_stmt \<Rightarrow> acl_table \<Rightarrow> ecresult \<times> acl_table" where
  "run_stmt a st tab =
     (if ae_exec a st = erSuccess then (erSuccess, apply_stmt st tab) else (ae_exec a st, tab))"

text \<open>A statement and, when it succeeds and the entry asks for it, the one for the denied rights.\<close>

definition run_pair :: "acl_env \<Rightarrow> acl_stmt \<Rightarrow> bool \<Rightarrow> acl_stmt \<Rightarrow> acl_table \<Rightarrow> ecresult \<times> acl_table" where
  "run_pair a st1 both st2 tab =
     (case run_stmt a st1 tab of
        (er, tab) \<Rightarrow> if er = erSuccess \<and> both then run_stmt a st2 tab else (er, tab))"

definition denied_rights :: "u32 \<Rightarrow> u32" where
  "denied_rights r =
     (let d = r XOR ecRightsAllMask;
          d = (if r AND ecRightsEditAny \<noteq> 0 then d AND NOT ecRightsEditOwned
               else if r AND ecRightsEditOwned \<noteq> 0
               then (d AND NOT ecRightsEditOwned) OR ecRightsEditAny else d)
      in (if r AND ecRightsDeleteAny \<noteq> 0 then d AND NOT ecRightsDeleteOwned
          else if r AND ecRightsDeleteOwned \<noteq> 0
          then (d AND NOT ecRightsDeleteOwned) OR ecRightsDeleteAny else d))"

definition entry_user :: "acl_env \<Rightarrow> rights_entry \<Rightarrow> ecresult + u32" where
  "entry_user a x =
     (if rr_sUserId x = [] then Inr (rr_ulUserid x)
      else (case ae_entryid a (rr_sUserId x) of
        Inl er \<Rightarrow> Inl er
      | Inr (u, ext) \<Rightarrow> if ext = [] then Inr u else ae_localid a ext))"

definition right_settable :: "u32 \<Rightarrow> u32 \<Rightarrow> bool" where
  "right_settable state cls \<longleftrightarrow>
     state AND NOT (RIGHT_DELETED OR RIGHT_AUTOUPDATE_DENIED) = 0 \<or>
     cls = ACTIVE_USER \<or> cls = DISTLIST_SECURITY \<or> cls = CONTAINER_COMPANY"

definition store_right ::
  "acl_env \<Rightarrow> u32 \<Rightarrow> u32 \<Rightarrow> rights_entry \<Rightarrow> acl_table \<Rightarrow> ecresult \<times> acl_table" where
  "store_right a i u x tab =
     (let st = rr_ulState x; both = (st AND RIGHT_AUTOUPDATE_DENIED \<noteq> 0) in
      if st = RIGHT_NORMAL then (erSuccess, tab)
      else if st AND RIGHT_NEW \<noteq> 0 \<or> st AND RIGHT_MODIFY \<noteq> 0 then
        run_pair a (ReplaceAcl u i (rr_ulType x) (rr_ulRights x)) both
          (ReplaceAcl u i ACCESS_TYPE_DENIED (denied_rights (rr_ulRights x))) tab
      else if st AND RIGHT_DELETED \<noteq> 0 then
        run_pair a (DeleteAcl u i (rr_ulType x)) both (DeleteAcl u i ACCESS_TYPE_DENIED) tab
      else (erSuccess, tab))"

text \<open>The loop over the entries; it counts the entries it refuses and stops at an error.\<close>

fun rights_loop ::
  "sec_env \<Rightarrow> acl_env \<Rightarrow> u32 \<Rightarrow> rights_entry list \<Rightarrow> nat \<Rightarrow> acl_table
     \<Rightarrow> (ecresult + nat) \<times> acl_table" where
  "rights_loop e a i [] errs tab = (Inr errs, tab)"
| "rights_loop e a i (x # xs) errs tab =
     (case entry_user a x of
        Inl er \<Rightarrow> (Inl er, tab)
      | Inr u \<Rightarrow>
          (case se_details e u of
             Inl er \<Rightarrow> (Inl er, tab)
           | Inr d \<Rightarrow>
               if \<not> right_settable (rr_ulState x) (ud_class d)
               then rights_loop e a i xs (Suc errs) tab
               else (case store_right a i u x tab of
                 (er, tab) \<Rightarrow>
                   if er \<noteq> erSuccess then (Inl er, tab) else rights_loop e a i xs errs tab)))"

text \<open>
  The cache manager forgets the object before the loop, so also when the loop then fails. The
  result is the code, the table and the cache manager.
\<close>

definition SetRights ::
  "sec_env \<Rightarrow> acl_env \<Rightarrow> cm_env \<Rightarrow> u32 \<Rightarrow> rights_entry list option \<Rightarrow> acl_table \<Rightarrow> cacheman
     \<Rightarrow> ecresult \<times> acl_table \<times> cacheman" where
  "SetRights e a d i arr tab cm =
     (if ae_connect a \<noteq> erSuccess then (ae_connect a, tab, cm)
      else case arr of
        None \<Rightarrow> (ZARAFA_E_INVALID_PARAMETER, tab, cm)
      | Some xs \<Rightarrow>
          (let cm = cm_Update d cm fnevObjectModified i in
           case rights_loop e a i xs 0 tab of
             (Inl er, tab) \<Rightarrow> (er, tab, cm)
           | (Inr errs, tab) \<Rightarrow>
               (if errs = length xs then ZARAFA_E_INVALID_PARAMETER
                else if errs \<noteq> 0 then ZARAFA_W_PARTIAL_COMPLETION else erSuccess, tab, cm)))"

text \<open>
  \<open>GetRights\<close>: the rows of the object, of one type or of both, in the order of the query, each
  with the entry id that \<open>abid\<close> makes of its user and external id.
\<close>

definition rights_row ::
  "(u32 \<Rightarrow> ecresult + string \<times> u32) \<Rightarrow> (u32 \<Rightarrow> string \<times> u32 \<Rightarrow> ecresult + u8 list)
     \<Rightarrow> u32 \<times> u32 \<times> u32 \<Rightarrow> ecresult + rights_entry" where
  "rights_row ext abid row =
     (case row of (u, t, r) \<Rightarrow>
        (case (if u = ZARAFA_UID_SYSTEM then Inr ([], ACTIVE_USER)
               else if u = ZARAFA_UID_EVERYONE then Inr ([], DISTLIST_GROUP) else ext u) of
           Inl er \<Rightarrow> Inl er
         | Inr x \<Rightarrow>
             (case abid u x of
                Inl er \<Rightarrow> Inl er
              | Inr b \<Rightarrow> Inr \<lparr>rr_sUserId = b, rr_ulUserid = u, rr_ulType = t, rr_ulRights = r,
                              rr_ulState = RIGHT_NORMAL\<rparr>)))"

fun rights_rows :: "('a \<Rightarrow> ecresult + 'b) \<Rightarrow> 'a list \<Rightarrow> ecresult + 'b list" where
  "rights_rows f [] = Inr []"
| "rights_rows f (x # xs) =
     (case f x of
        Inl er \<Rightarrow> Inl er
      | Inr y \<Rightarrow> (case rights_rows f xs of Inl er \<Rightarrow> Inl er | Inr ys \<Rightarrow> Inr (y # ys)))"

definition GetRights ::
  "(u32 \<Rightarrow> ecresult + string \<times> u32) \<Rightarrow> (u32 \<Rightarrow> string \<times> u32 \<Rightarrow> ecresult + u8 list)
     \<Rightarrow> (ecresult + (u32 \<times> u32 \<times> u32) list) \<Rightarrow> u32 \<Rightarrow> ecresult + rights_entry list" where
  "GetRights ext abid rows ty =
     (case rows of
        Inl er \<Rightarrow> Inl er
      | Inr rs \<Rightarrow>
          rights_rows (rights_row ext abid)
            (if ty = ACCESS_TYPE_DENIED then filter (\<lambda>(u, t, r). t = ACCESS_TYPE_DENIED) rs
             else if ty = ACCESS_TYPE_GRANT then filter (\<lambda>(u, t, r). t = ACCESS_TYPE_GRANT) rs
             else rs))"

subsection \<open>Sizes and quota\<close>

text \<open>The size of a store from the rows of its query; no row or several rows count as zero.\<close>

definition GetStoreSize :: "sec_env \<Rightarrow> (u32 \<Rightarrow> ecresult + i64 option list) \<Rightarrow> u32 \<Rightarrow> ecresult + i64" where
  "GetStoreSize e q i =
     (case se_store e i of
        Inl er \<Rightarrow> Inl er
      | Inr st \<Rightarrow>
          (case q (st_ulStore st) of
             Inl er \<Rightarrow> Inl er
           | Inr rows \<Rightarrow>
               if length rows \<noteq> 1 then Inr 0
               else (case hd rows of None \<Rightarrow> Inl ZARAFA_E_DATABASE_ERROR | Some n \<Rightarrow> Inr n)))"

definition GetUserSize :: "(u32 \<Rightarrow> ecresult + i64 option list) \<Rightarrow> u32 \<Rightarrow> ecresult + i64" where
  "GetUserSize q u =
     (case q u of
        Inl er \<Rightarrow> Inl er
      | Inr rows \<Rightarrow>
          if length rows \<noteq> 1 then Inr 0
          else (case hd rows of None \<Rightarrow> Inr 0 | Some n \<Rightarrow> Inr n))"

datatype quota_status = QUOTA_OK | QUOTA_WARN | QUOTA_SOFTLIMIT | QUOTA_HARDLIMIT

definition no_quota :: quotadetails where
  "no_quota = \<lparr>qd_bUseDefaultQuota = True, qd_bIsUserDefaultQuota = False,
     qd_llWarnSize = 0, qd_llSoftSize = 0, qd_llHardSize = 0\<rparr>"

definition megabytes :: "i64 \<Rightarrow> i64" where
  "megabytes n = n * 1024 * 1024"

text \<open>The last level: the configuration, with the sizes it does not give as they were.\<close>

definition config_quota :: "sec_env \<Rightarrow> u32 \<Rightarrow> quotadetails \<Rightarrow> quotadetails" where
  "config_quota e cls q =
     (let user = (OBJECTCLASS_TYPE cls = OBJECTTYPE_MAILUSER);
          w = (if user then se_setting e ''quota_warn''
               else if cls = CONTAINER_COMPANY then se_setting e ''companyquota_warn'' else None);
          sf = (if user then se_setting e ''quota_soft'' else None);
          h = (if user then se_setting e ''quota_hard'' else None)
      in q\<lparr>qd_bUseDefaultQuota := True, qd_bIsUserDefaultQuota := False,
           qd_llWarnSize := (case w of None \<Rightarrow> qd_llWarnSize q | Some n \<Rightarrow> megabytes n),
           qd_llSoftSize := (case sf of None \<Rightarrow> qd_llSoftSize q | Some n \<Rightarrow> megabytes n),
           qd_llHardSize := (case h of None \<Rightarrow> qd_llHardSize q | Some n \<Rightarrow> megabytes n)\<rparr>)"

definition GetUserQuota :: "sec_env \<Rightarrow> u32 \<Rightarrow> bool \<Rightarrow> ecresult + quotadetails" where
  "GetUserQuota e u dflt =
     (case se_extern e u of
        Inl er \<Rightarrow> Inl er
      | Inr (cls, co) \<Rightarrow>
          if cls = NONACTIVE_CONTACT \<or> OBJECTCLASS_TYPE cls = OBJECTTYPE_DISTLIST \<or>
             cls = CONTAINER_ADDRESSLIST
          then Inr no_quota
          else (case se_quota e u dflt of
            Inl er \<Rightarrow> Inl er
          | Inr q \<Rightarrow>
              if \<not> qd_bUseDefaultQuota q then Inr q
              else if OBJECTCLASS_TYPE cls = OBJECTTYPE_MAILUSER \<and> co \<noteq> 0 then
                (case se_quota e co True of
                   Inl _ \<Rightarrow> Inr (config_quota e cls q)
                 | Inr qc \<Rightarrow> if \<not> qd_bUseDefaultQuota qc then Inr qc
                            else Inr (config_quota e cls qc))
              else Inr (config_quota e cls q)))"

definition quota_status_of :: "quotadetails \<Rightarrow> i64 \<Rightarrow> quota_status" where
  "quota_status_of q sz =
     (if sint (qd_llHardSize q) > 0 \<and> sint sz \<ge> sint (qd_llHardSize q) then QUOTA_HARDLIMIT
      else if sint (qd_llSoftSize q) > 0 \<and> sint sz \<ge> sint (qd_llSoftSize q) then QUOTA_SOFTLIMIT
      else if sint (qd_llWarnSize q) > 0 \<and> sint sz \<ge> sint (qd_llWarnSize q) then QUOTA_WARN
      else QUOTA_OK)"

definition CheckUserQuota :: "sec_env \<Rightarrow> u32 \<Rightarrow> i64 \<Rightarrow> ecresult + quota_status" where
  "CheckUserQuota e u sz =
     (if u = ZARAFA_UID_EVERYONE then Inr QUOTA_OK
      else (case GetUserQuota e u False of
        Inl er \<Rightarrow> Inl er
      | Inr q \<Rightarrow> Inr (quota_status_of q sz)))"

definition CheckQuota :: "sec_env \<Rightarrow> u32 \<Rightarrow> i64 \<Rightarrow> ecresult + quota_status" where
  "CheckQuota e i sz =
     (case se_store e i of
        Inl er \<Rightarrow> Inl er
      | Inr st \<Rightarrow>
          if st_ulType st \<noteq> ECSTORE_TYPE_PRIVATE then Inr QUOTA_OK
          else (case GetStoreOwner e i of
            Inl er \<Rightarrow> Inl er
          | Inr ow \<Rightarrow> CheckUserQuota e ow sz))"

end
