(* ===== verification/Security_Facts.thy ===== *)
theory Security_Facts
  imports Security
begin

text \<open>
  Lemmas on the decisions of \<open>Security\<close>: the group search ends and finds exactly the groups a
  user is in, the permission climb is a search along the chain of parents, denials in access
  lists have no influence, what each kind of allowance rests on, and the quota order.
\<close>

subsection \<open>Visibility and its caches\<close>

lemma view_companies_fields:
  "view_companies e s = (r, s') \<Longrightarrow>
    m_ulUserID s' = m_ulUserID s \<and> m_ulCompanyID s' = m_ulCompanyID s \<and> m_details s' = m_details s \<and>
    m_bRestrictedAdmin s' = m_bRestrictedAdmin s \<and>
    m_bOwnerAutoFullAccess s' = m_bOwnerAutoFullAccess s \<and> m_lpGroups s' = m_lpGroups s"
  by (auto simp: view_companies_def split: option.splits sum.splits)

text \<open>Asking again, in the state that a question left, gives the same answer.\<close>

lemma view_companies_again: "view_companies e s = (r, s') \<Longrightarrow> view_companies e s' = (r, s')"
  by (auto simp: view_companies_def split: option.splits sum.splits)

lemma view_companies_same:
  assumes "view_companies e s = (r, s')"
  shows "fst (view_companies e s') = r"
  using view_companies_again[OF assms] by simp

definition same_session :: "sec_env \<Rightarrow> security \<Rightarrow> security \<Rightarrow> bool" where
  "same_session e s s' \<longleftrightarrow>
     m_ulUserID s' = m_ulUserID s \<and> m_ulCompanyID s' = m_ulCompanyID s \<and>
     m_details s' = m_details s \<and> m_bRestrictedAdmin s' = m_bRestrictedAdmin s \<and>
     m_bOwnerAutoFullAccess s' = m_bOwnerAutoFullAccess s \<and>
     fst (view_companies e s') = fst (view_companies e s)"

lemma same_session_refl [simp]: "same_session e s s"
  by (simp add: same_session_def)

lemma same_session_trans: "same_session e s s' \<Longrightarrow> same_session e s' s'' \<Longrightarrow> same_session e s s''"
  by (simp add: same_session_def)

lemma same_session_view: "view_companies e s = (r, s') \<Longrightarrow> same_session e s s'"
  using view_companies_fields view_companies_same by (fastforce simp: same_session_def)

lemma same_session_visible: "same_session e s (snd (IsUserObjectVisible e s u))"
  using same_session_view[of e s]
  by (auto simp: IsUserObjectVisible_def Let_def split: sum.splits prod.splits)

text \<open>The code of \<open>IsUserObjectVisible\<close> as a predicate.\<close>

definition visible_id :: "sec_env \<Rightarrow> security \<Rightarrow> u32 \<Rightarrow> bool" where
  "visible_id e s u \<longleftrightarrow> fst (IsUserObjectVisible e s u) = erSuccess"

lemma IsUserObjectVisible_same:
  assumes "same_session e s s'"
  shows "fst (IsUserObjectVisible e s' u) = fst (IsUserObjectVisible e s u)"
proof -
  obtain r1 t1 where 1: "view_companies e s = (r1, t1)" by fastforce
  obtain r2 t2 where 2: "view_companies e s' = (r2, t2)" by fastforce
  have "r1 = r2" using assms 1 2 by (simp add: same_session_def)
  then show ?thesis using assms 1 2
    by (auto simp: same_session_def IsUserObjectVisible_def Let_def split: sum.splits)
qed

lemma visible_id_same: "same_session e s s' \<Longrightarrow> visible_id e s' u = visible_id e s u"
  by (simp add: visible_id_def IsUserObjectVisible_same)

subsection \<open>The groups of a user\<close>

definition usable_group :: "sec_env \<Rightarrow> security \<Rightarrow> localobject \<Rightarrow> bool" where
  "usable_group e s g \<longleftrightarrow> visible_id e s (lo_ulId g) \<and> ud_class (lo_details g) \<noteq> DISTLIST_DYNAMIC"

definition group_parents :: "sec_env \<Rightarrow> u32 \<Rightarrow> localobject list" where
  "group_parents e i =
     (case se_parents e OBJECTRELATION_GROUP_MEMBER i USERMANAGEMENT_IDS_ONLY of
        Inl _ \<Rightarrow> [] | Inr gs \<Rightarrow> gs)"

text \<open>The groups a user is in: directly, or through a group it is in; only usable ones count.\<close>

inductive in_group :: "sec_env \<Rightarrow> security \<Rightarrow> u32 \<Rightarrow> u32 \<Rightarrow> bool" for e s u where
  direct: "g \<in> set (group_parents e u) \<Longrightarrow> usable_group e s g \<Longrightarrow> in_group e s u (lo_ulId g)"
| nested: "in_group e s u i \<Longrightarrow> g \<in> set (group_parents e i) \<Longrightarrow> usable_group e s g \<Longrightarrow>
    in_group e s u (lo_ulId g)"

inductive_cases in_groupE: "in_group e s u i"

lemma usable_same: "same_session e s s' \<Longrightarrow> usable_group e s' g = usable_group e s g"
  by (simp add: usable_group_def visible_id_same)

lemma groups_loop_step:
  "groups_loop e s seen acc [] = Some (acc, s)"
  "groups_loop e s seen acc (g # todo) =
     (let s' = snd (IsUserObjectVisible e s (lo_ulId g)) in
      if \<not> usable_group e s g then groups_loop e s' seen acc todo
      else groups_loop e s' (lo_ulId g # seen) (acc @ [g])
        (todo @ filter (\<lambda>x. lo_ulId x \<notin> set (lo_ulId g # seen)) (group_parents e (lo_ulId g))))"
  by (subst groups_loop.simps,
      auto simp: usable_group_def visible_id_def group_parents_def Let_def split: prod.splits sum.splits)+

text \<open>
  The search ends. An entry of the list is labelled with the groups seen when it was appended,
  which it is not among; when it is processed it is replaced by entries with larger labels, so
  the multiset of what the labels leave out decreases.
\<close>

definition room :: "u32 set \<Rightarrow> nat" where
  "room S = card (UNIV - S)"

lemma room_less: "S \<subset> T \<Longrightarrow> room T < room S"
  unfolding room_def by (intro psubset_card_mono) auto

lemma labels_decrease:
  assumes "\<forall>n \<in> set ns. n < m"
  shows "(mset (ms @ ns), mset (m # ms)) \<in> mult {(x, y). x < (y::nat)}"
  using one_step_implies_mult[of "{#m#}" "mset ns" "{(x, y). x < y}" "mset ms"] assms by simp

definition usable_ids :: "sec_env \<Rightarrow> security \<Rightarrow> localobject list \<Rightarrow> u32 set" where
  "usable_ids e s gs = lo_ulId ` {g \<in> set gs. usable_group e s g}"

lemma usable_ids_simps [simp]:
  "usable_ids e s [] = {}"
  "usable_ids e s (g # gs) = (if usable_group e s g then {lo_ulId g} else {}) \<union> usable_ids e s gs"
  "usable_ids e s (gs @ hs) = usable_ids e s gs \<union> usable_ids e s hs"
  "usable_ids e s (filter (\<lambda>x. lo_ulId x \<notin> S) gs) = usable_ids e s gs - S"
  by (auto simp: usable_ids_def)

lemma in_group_parents:
  "usable_ids e s (group_parents e u) \<subseteq> {i. in_group e s u i}"
  "in_group e s u i \<Longrightarrow> usable_ids e s (group_parents e i) \<subseteq> {i. in_group e s u i}"
  by (auto simp: usable_ids_def intro: in_group.intros)

text \<open>The invariant of the search, relative to the session \<open>s0\<close> in which it started.\<close>

definition group_search ::
  "sec_env \<Rightarrow> security \<Rightarrow> u32 \<Rightarrow> security \<Rightarrow> u32 list \<Rightarrow> localobject list \<Rightarrow> localobject list \<Rightarrow> bool" where
  "group_search e s0 u s seen acc todo \<longleftrightarrow>
     same_session e s0 s \<and> lo_ulId ` set acc = set seen \<and>
     set seen \<union> usable_ids e s0 todo \<subseteq> {i. in_group e s0 u i} \<and>
     (\<forall>g \<in> set acc. usable_group e s0 g) \<and>
     (\<forall>i \<in> insert u (set seen). usable_ids e s0 (group_parents e i) \<subseteq> set seen \<union> usable_ids e s0 todo)"

lemma group_search_skip:
  assumes "group_search e s0 u s seen acc (g # todo)" "\<not> usable_group e s g"
  shows "group_search e s0 u (snd (IsUserObjectVisible e s (lo_ulId g))) seen acc todo"
proof -
  have "\<not> usable_group e s0 g" using assms usable_same by (auto simp: group_search_def)
  moreover have "same_session e s0 (snd (IsUserObjectVisible e s (lo_ulId g)))"
    using assms(1) same_session_trans[OF _ same_session_visible] by (simp add: group_search_def)
  ultimately show ?thesis using assms(1) by (simp add: group_search_def)
qed

lemma group_search_take:
  assumes "group_search e s0 u s seen acc (g # todo)" "usable_group e s g"
  shows "group_search e s0 u (snd (IsUserObjectVisible e s (lo_ulId g))) (lo_ulId g # seen) (acc @ [g])
    (todo @ filter (\<lambda>x. lo_ulId x \<notin> set (lo_ulId g # seen)) (group_parents e (lo_ulId g)))"
proof -
  have ug: "usable_group e s0 g" using assms usable_same by (auto simp: group_search_def)
  then have ig: "in_group e s0 u (lo_ulId g)" using assms(1) by (simp add: group_search_def)
  have "same_session e s0 (snd (IsUserObjectVisible e s (lo_ulId g)))"
    using assms(1) same_session_trans[OF _ same_session_visible] by (simp add: group_search_def)
  then show ?thesis
    using assms(1) ug ig in_group_parents(2)[OF ig]
    by (simp only: group_search_def usable_ids_simps) auto
qed

lemma groups_loop_total:
  assumes "list_all2 (\<lambda>S g. S \<subseteq> set seen \<and> lo_ulId g \<notin> S) labels todo"
    and "group_search e s0 u s seen acc todo"
  shows "\<exists>l s' seen'. groups_loop e s seen acc todo = Some (l, s') \<and> group_search e s0 u s' seen' l []"
  using assms
proof (induction "mset (map room labels)" arbitrary: labels s seen acc todo
    rule: wf_induct_rule[OF wf_mult[OF wf_less]])
  case (1 labels)
  show ?case
  proof (cases todo)
    case Nil
    then show ?thesis using "1.prems"(2) by (auto simp: groups_loop_step)
  next
    case (Cons g rest)
    then obtain S Ls where L: "labels = S # Ls" "S \<subseteq> set seen" "lo_ulId g \<notin> S"
      and rest: "list_all2 (\<lambda>S g. S \<subseteq> set seen \<and> lo_ulId g \<notin> S) Ls rest"
      using "1.prems"(1) by (auto simp: list_all2_Cons2)
    note inv = "1.prems"(2)[unfolded Cons]
    let ?s = "snd (IsUserObjectVisible e s (lo_ulId g))"
    show ?thesis
    proof (cases "usable_group e s g")
      case False
      have "(mset (map room Ls), mset (map room labels)) \<in> mult {(x, y). x < y}"
        using labels_decrease[of "[]" "room S" "map room Ls"] by (simp add: L)
      from "1.hyps"[OF this rest group_search_skip[OF inv False]]
      show ?thesis using Cons False by (simp add: groups_loop_step Let_def)
    next
      case True
      let ?seen = "lo_ulId g # seen"
      let ?more = "filter (\<lambda>x. lo_ulId x \<notin> set ?seen) (group_parents e (lo_ulId g))"
      let ?new = "replicate (length ?more) (set ?seen)"
      have "S \<subset> set ?seen" using L by auto
      then have "room (set ?seen) < room S" by (rule room_less)
      then have "(mset (map room (Ls @ ?new)), mset (map room labels)) \<in> mult {(x, y). x < y}"
        using labels_decrease[of "map room ?new" "room S" "map room Ls"] by (simp add: L)
      moreover have "list_all2 (\<lambda>S g. S \<subseteq> set ?seen \<and> lo_ulId g \<notin> S) ?new ?more"
        by (auto simp: list_all2_conv_all_nth dest: nth_mem)
      moreover have "list_all2 (\<lambda>S g. S \<subseteq> set ?seen \<and> lo_ulId g \<notin> S) Ls rest"
        using rest by (rule list_all2_mono) auto
      ultimately have "\<exists>l s' seen'. groups_loop e ?s ?seen (acc @ [g]) (rest @ ?more) = Some (l, s') \<and>
          group_search e s0 u s' seen' l []"
        using "1.hyps"[of "Ls @ ?new" ?seen "rest @ ?more" ?s "acc @ [g]"] group_search_take[OF inv True]
        by (simp add: list_all2_appendI)
      then show ?thesis using Cons True by (simp add: groups_loop_step Let_def)
    qed
  qed
qed

text \<open>What \<open>GetGroupsForUser\<close> returns: exactly the groups that the user is in.\<close>

lemma GetGroupsForUser_groups:
  assumes "se_parents e OBJECTRELATION_GROUP_MEMBER u USERMANAGEMENT_IDS_ONLY = Inr gs"
  obtains l s' where "GetGroupsForUser e s u = Some (Inr l, s')"
    "lo_ulId ` set l = {i. in_group e s u i}" "\<forall>g \<in> set l. usable_group e s g" "same_session e s s'"
proof -
  have gp: "group_parents e u = gs" using assms by (simp add: group_parents_def)
  have "group_search e s u s [] [] gs"
    using gp in_group_parents(1)[of e s u] by (simp add: group_search_def)
  moreover have "list_all2 (\<lambda>S g. S \<subseteq> set [] \<and> lo_ulId g \<notin> S) (replicate (length gs) {}) gs"
    by (simp add: list_all2_conv_all_nth)
  ultimately obtain l s' seen' where
    r: "groups_loop e s [] [] gs = Some (l, s')" "group_search e s u s' seen' l []"
    using groups_loop_total[of "[]" "replicate (length gs) {}" gs] by blast
  have "i \<in> set seen'" if "in_group e s u i" for i
    using that
  proof induction
    case (direct g)
    then have "lo_ulId g \<in> usable_ids e s (group_parents e u)" by (auto simp: usable_ids_def)
    then show ?case using r(2) by (auto simp: group_search_def)
  next
    case (nested i g)
    then have "lo_ulId g \<in> usable_ids e s (group_parents e i)" by (auto simp: usable_ids_def)
    then show ?case using r(2) nested by (auto simp: group_search_def)
  qed
  then have "lo_ulId ` set l = {i. in_group e s u i}"
    using r(2) by (auto simp: group_search_def)
  then show ?thesis using that r assms by (simp add: GetGroupsForUser_def group_search_def)
qed

lemma GetGroupsForUser_total: "GetGroupsForUser e s u \<noteq> None"
proof (cases "se_parents e OBJECTRELATION_GROUP_MEMBER u USERMANAGEMENT_IDS_ONLY")
  case (Inr gs)
  show ?thesis by (rule GetGroupsForUser_groups[OF Inr, of s]) simp
qed (simp add: GetGroupsForUser_def)

subsection \<open>The rights on an object\<close>

text \<open>An object and its parents, as far as the climb goes: at most \<open>n\<close> parents.\<close>

fun ancestors :: "sec_env \<Rightarrow> nat \<Rightarrow> u32 \<Rightarrow> u32 list" where
  "ancestors e 0 i = [i]"
| "ancestors e (Suc n) i = i # (case se_parent e i of Inl _ \<Rightarrow> [] | Inr p \<Rightarrow> ancestors e n p)"

text \<open>The rights that one object's access list gives, and whether it gives any.\<close>

definition level_rights :: "sec_env \<Rightarrow> u32 list \<Rightarrow> u32 \<Rightarrow> u32 \<times> bool" where
  "level_rights e ids i =
     (case se_acls e i of Inl _ \<Rightarrow> (0, False) | Inr acl \<Rightarrow> acl_rights acl ids)"

text \<open>The rights of the nearest object that grants some.\<close>

definition nearest_rights :: "sec_env \<Rightarrow> u32 list \<Rightarrow> u32 list \<Rightarrow> u32" where
  "nearest_rights e ids objs =
     (case dropWhile (\<lambda>i. \<not> snd (level_rights e ids i)) objs of
        [] \<Rightarrow> 0 | i # _ \<Rightarrow> fst (level_rights e ids i))"

declare permission_loop.simps [simp del] deleted_loop.simps [simp del]

text \<open>The groups that count: those kept, or those found now; none when they cannot be read.\<close>

definition groups_of :: "sec_env \<Rightarrow> security \<Rightarrow> localobject list" where
  "groups_of e s =
     (case m_lpGroups s of
        Some l \<Rightarrow> l
      | None \<Rightarrow> (case GetGroupsForUser e s (m_ulUserID s) of Some (Inr l, s') \<Rightarrow> l | _ \<Rightarrow> []))"

lemma GetViewableCompanies_groups [simp]:
  "GetViewableCompanies e (s\<lparr>m_lpGroups := x\<rparr>) fl = GetViewableCompanies e s fl"
  by (simp add: GetViewableCompanies_def Let_def split: sum.split)

lemma view_companies_groups [simp]:
  "fst (view_companies e (s\<lparr>m_lpGroups := x\<rparr>)) = fst (view_companies e s)"
  by (simp add: view_companies_def split: option.splits sum.splits)

lemma my_groups_spec:
  obtains s' where "my_groups e s = Some (groups_of e s, s')" "groups_of e s' = groups_of e s"
    "same_session e s s'"
proof (cases "m_lpGroups s")
  case (Some l)
  then show ?thesis using that[of s] by (simp add: my_groups_def groups_of_def)
next
  case None
  show ?thesis
  proof (cases "se_parents e OBJECTRELATION_GROUP_MEMBER (m_ulUserID s) USERMANAGEMENT_IDS_ONLY")
    case (Inl er)
    then show ?thesis using None that[of s] by (simp add: my_groups_def groups_of_def GetGroupsForUser_def)
  next
    case (Inr gs)
    obtain l s' where r: "GetGroupsForUser e s (m_ulUserID s) = Some (Inr l, s')" "same_session e s s'"
      by (rule GetGroupsForUser_groups[OF Inr, of s])
    have "same_session e s (s'\<lparr>m_lpGroups := Some l\<rparr>)"
      using r(2) by (simp add: same_session_def)
    then show ?thesis
      using None r that[of "s'\<lparr>m_lpGroups := Some l\<rparr>"] by (simp add: my_groups_def groups_of_def)
  qed
qed

text \<open>One level of the climb.\<close>

lemma acl_level:
  obtains s' where
    "(case se_acls e i of Inl _ \<Rightarrow> Some ((0, False), s)
      | Inr acl \<Rightarrow> do { (gs, s) \<leftarrow> my_groups e s; Some (acl_rights acl (acl_ids s gs), s) }) =
      Some (level_rights e (acl_ids s (groups_of e s)) i, s')"
    "groups_of e s' = groups_of e s" "same_session e s s'"
proof (cases "se_acls e i")
  case (Inl er)
  then show ?thesis using that[of s] by (simp add: level_rights_def)
next
  case (Inr acl)
  obtain s' where s': "my_groups e s = Some (groups_of e s, s')" "groups_of e s' = groups_of e s"
    "same_session e s s'" by (rule my_groups_spec)
  then show ?thesis
    using that[of s'] Inr by (simp add: level_rights_def acl_ids_def same_session_def)
qed

lemma permission_loop_nearest:
  assumes "depth \<le> MAX_PARENT_LIMIT"
  shows "\<exists>s'. permission_loop e s depth i =
    Some (nearest_rights e (acl_ids s (groups_of e s)) (ancestors e (MAX_PARENT_LIMIT - depth) i), s') \<and>
    same_session e s s'"
  using assms
proof (induction "MAX_PARENT_LIMIT - depth" arbitrary: depth i s)
  case 0
  obtain s1 where lv:
    "(case se_acls e i of Inl _ \<Rightarrow> Some ((0, False), s)
      | Inr acl \<Rightarrow> do { (gs, s) \<leftarrow> my_groups e s; Some (acl_rights acl (acl_ids s gs), s) }) =
      Some (level_rights e (acl_ids s (groups_of e s)) i, s1)"
    "groups_of e s1 = groups_of e s" "same_session e s s1" by (rule acl_level)
  show ?case using 0 lv(3)
    by (subst permission_loop.simps, unfold lv(1))
      (auto simp: nearest_rights_def split: prod.splits sum.splits)
next
  case (Suc n)
  obtain s1 where lv:
    "(case se_acls e i of Inl _ \<Rightarrow> Some ((0, False), s)
      | Inr acl \<Rightarrow> do { (gs, s) \<leftarrow> my_groups e s; Some (acl_rights acl (acl_ids s gs), s) }) =
      Some (level_rights e (acl_ids s (groups_of e s)) i, s1)"
    "groups_of e s1 = groups_of e s" "same_session e s s1" by (rule acl_level)
  have m: "MAX_PARENT_LIMIT - Suc depth = n" "Suc depth \<le> MAX_PARENT_LIMIT" using Suc.hyps(2) by linarith+
  have ids: "acl_ids s1 (groups_of e s1) = acl_ids s (groups_of e s)"
    using lv(2,3) by (simp add: acl_ids_def same_session_def)
  have IH: "\<exists>s'. permission_loop e s1 (Suc depth) p =
      Some (nearest_rights e (acl_ids s (groups_of e s)) (ancestors e n p), s') \<and> same_session e s s'" for p
    using Suc.hyps(1)[of "Suc depth" s1 p] m ids same_session_trans[OF lv(3)] by auto
  obtain b f where bf: "level_rights e (acl_ids s (groups_of e s)) i = (b, f)" by fastforce
  show ?case unfolding Suc.hyps(2)[symmetric]
    using m(2) IH lv(3) bf
    by (subst permission_loop.simps, unfold lv(1))
      (cases "se_parent e i"; auto simp: nearest_rights_def)
qed

theorem GetObjectPermission_nearest:
  "\<exists>s'. GetObjectPermission e s i =
    Some (nearest_rights e (acl_ids s (groups_of e s)) (ancestors e MAX_PARENT_LIMIT i), s') \<and>
    same_session e s s'"
  using permission_loop_nearest[of 0 e s i] by (simp add: GetObjectPermission_def)

text \<open>Denials have no influence.\<close>

lemma granted_grants:
  "granted (filter (\<lambda>r. ri_ulType r = ACCESS_TYPE_GRANT) acl) u = granted acl u"
proof -
  let ?g = "\<lambda>r (m, f). if ri_ulType r = ACCESS_TYPE_GRANT \<and> ri_ulUserid r = u
                      then (m OR ri_ulRights r, True) else (m, f)"
  have "fold ?g (filter (\<lambda>r. ri_ulType r = ACCESS_TYPE_GRANT) acl) p = fold ?g acl p" for p
    by (induction acl arbitrary: p) (auto split: prod.splits)
  then show ?thesis by (simp add: granted_def)
qed

lemma acl_rights_grants:
  "acl_rights (filter (\<lambda>r. ri_ulType r = ACCESS_TYPE_GRANT) acl) ids = acl_rights acl ids"
  by (simp add: acl_rights_def granted_grants)

lemma level_rights_grants:
  "level_rights (e\<lparr>se_acls := (\<lambda>i. map_sum id (filter (\<lambda>r. ri_ulType r = ACCESS_TYPE_GRANT)) (se_acls e i))\<rparr>) ids i =
   level_rights e ids i"
  by (cases "se_acls e i") (simp_all add: level_rights_def acl_rights_grants)

subsection \<open>Deleted parents\<close>

text \<open>The objects that \<open>CheckDeletedParent\<close> looks at, from an object up to its store.\<close>

fun parent_chain :: "sec_env \<Rightarrow> nat \<Rightarrow> u32 \<Rightarrow> (ecresult + ecobject) list" where
  "parent_chain e 0 i = [se_object e i]"
| "parent_chain e (Suc n) i =
     se_object e i #
     (case se_object e i of
        Inl _ \<Rightarrow> []
      | Inr ob \<Rightarrow> if ob_ulType ob \<noteq> MAPI_STORE \<and> ob_ulParent ob \<noteq> CACHE_NO_PARENT
                  then parent_chain e n (ob_ulParent ob) else [])"

definition undeleted :: "ecresult + ecobject \<Rightarrow> bool" where
  "undeleted r \<longleftrightarrow> (case r of Inl _ \<Rightarrow> False | Inr ob \<Rightarrow> ob_ulFlags ob AND MSGFLAG_DELETED = 0)"

lemma deleted_loop_success:
  assumes "deleted_loop e i d = erSuccess" "d \<le> MAX_PARENT_LIMIT" "\<And>j. se_object e j \<noteq> Inl erSuccess"
  shows "list_all undeleted (parent_chain e (MAX_PARENT_LIMIT - d) i)"
  using assms(1,2)
proof (induction "MAX_PARENT_LIMIT - d" arbitrary: d i)
  case 0
  then show ?case using assms(3)[of i]
    by (auto simp: deleted_loop.simps undeleted_def split: sum.splits if_splits)
next
  case (Suc n)
  have m: "n = MAX_PARENT_LIMIT - Suc d" "Suc d \<le> MAX_PARENT_LIMIT" using Suc.hyps(2) by linarith+
  show ?case unfolding Suc.hyps(2)[symmetric]
    using Suc.prems(1) Suc.hyps(1)[OF m(1) _ m(2)] m assms(3)[of i]
    by (auto simp: deleted_loop.simps[of e i] undeleted_def split: sum.splits if_splits)
qed

text \<open>A chain that is longer than the limit passes; only one of exactly that length is refused.\<close>

lemma deleted_loop_deep:
  assumes "\<And>j. \<exists>ob. se_object e j = Inr ob \<and> ob_ulFlags ob AND MSGFLAG_DELETED = 0 \<and>
     ob_ulType ob \<noteq> MAPI_STORE \<and> ob_ulParent ob \<noteq> CACHE_NO_PARENT"
    and "d \<le> MAX_PARENT_LIMIT"
  shows "deleted_loop e i d = erSuccess"
  using assms(2)
proof (induction "MAX_PARENT_LIMIT - d" arbitrary: d i)
  case 0
  then show ?case using assms(1)[of i] by (auto simp: deleted_loop.simps)
next
  case (Suc n)
  then have "n = MAX_PARENT_LIMIT - Suc d" "Suc d \<le> MAX_PARENT_LIMIT" by linarith+
  then show ?case using assms(1)[of i] Suc.hyps(1)
    by (auto simp: deleted_loop.simps[of e i])
qed

subsection \<open>What an allowed operation rests on\<close>

lemma same_session_visible_only: "same_session e s (snd (visible_only e s cs))"
proof (induction cs arbitrary: s)
  case (Cons c cs)
  then show ?case
    using same_session_trans[OF same_session_visible Cons.IH, of s "lo_ulId c"]
    by (simp add: Let_def case_prod_beta)
qed simp

text \<open>The administrator question changes neither the user nor the options of the session.\<close>

lemma IsAdminOverOwner_keeps:
  assumes "IsAdminOverOwnerOfObject e s i = (er, s')"
  shows "m_bRestrictedAdmin s' = m_bRestrictedAdmin s" "m_ulUserID s' = m_ulUserID s"
proof -
  have v: "m_bRestrictedAdmin (snd (visible_only e s cs)) = m_bRestrictedAdmin s"
    "m_ulUserID (snd (visible_only e s cs)) = m_ulUserID s" for cs
    using same_session_visible_only[of e s cs] by (simp_all add: same_session_def)
  have "m_bRestrictedAdmin (snd (admin_companies e s)) = m_bRestrictedAdmin s \<and>
      m_ulUserID (snd (admin_companies e s)) = m_ulUserID s"
    using v by (simp add: admin_companies_def GetAdminCompanies_def case_prod_beta split: option.split sum.split)
  then have "m_bRestrictedAdmin s' = m_bRestrictedAdmin s \<and> m_ulUserID s' = m_ulUserID s"
    using assms by (auto simp: IsAdminOverOwnerOfObject_def IsAdminOverUserObject_def Let_def
        split: sum.splits prod.splits if_splits)
  then show "m_bRestrictedAdmin s' = m_bRestrictedAdmin s" "m_ulUserID s' = m_ulUserID s" by simp_all
qed

text \<open>The mask of rights that the nearest access list gives to the user of a session.\<close>

definition acl_mask :: "sec_env \<Rightarrow> security \<Rightarrow> u32 \<Rightarrow> u32" where
  "acl_mask e s i = nearest_rights e (acl_ids s (groups_of e s)) (ancestors e MAX_PARENT_LIMIT i)"

lemma HaveObjectPermission_mask:
  "\<exists>s'. HaveObjectPermission e s i m =
     Some (if acl_mask e s i AND m \<noteq> 0 then erSuccess else ZARAFA_E_NO_ACCESS, s')"
  using GetObjectPermission_nearest[of e s i]
  by (auto simp: HaveObjectPermission_def acl_mask_def)

text \<open>The grounds on which \<open>CheckPermission\<close> says yes before it looks at deleted parents.\<close>

definition allowed_by_owner :: "sec_env \<Rightarrow> security \<Rightarrow> u32 \<Rightarrow> u32 \<Rightarrow> bool" where
  "allowed_by_owner e s i right \<longleftrightarrow>
     store_owner_allows s (GetStoreOwnerAndType e i) right \<or>
     owner_found e s i \<and> object_owner_allows (snd (snd (GetStoreOwnerAndType e i))) right"

definition allowed_by_admin :: "sec_env \<Rightarrow> security \<Rightarrow> u32 \<Rightarrow> u32 \<Rightarrow> bool" where
  "allowed_by_admin e s i right \<longleftrightarrow>
     fst (IsAdminOverOwnerOfObject e s i) = erSuccess \<and> admin_allows s right"

definition allowed_by_check :: "sec_env \<Rightarrow> security \<Rightarrow> u32 \<Rightarrow> u32 \<Rightarrow> bool" where
  "allowed_by_check e s i right \<longleftrightarrow>
     (let s' = snd (IsAdminOverOwnerOfObject e s i) in
      case check_type_of right (owner_found e s i) (snd (snd (GetStoreOwnerAndType e i))) of
        CheckACL m \<Rightarrow> m = 0 \<or> acl_mask e s' i AND m \<noteq> 0
      | CheckOwner \<Rightarrow> owner_found e s i
      | CheckAdmin \<Rightarrow> True
      | NoCheck \<Rightarrow> False)"

lemma check_type_rest:
  "check_type_of right own ty = CheckOwner \<Longrightarrow> right = ecSecurityOwner"
  "check_type_of right own ty = NoCheck \<Longrightarrow> right \<noteq> ecSecurityRead \<and> right \<noteq> ecSecurityFolderVisible"
  by (auto simp: check_type_of_def split: if_splits)

lemma check_rest_grounds:
  assumes "er0 = erSuccess \<longrightarrow> right = ecSecurityFolderVisible \<or> right = ecSecurityRead"
  shows "\<exists>er s'. check_rest e s i right own ty er0 = Some (er, s') \<and>
    (er = erSuccess \<longleftrightarrow> (case check_type_of right own ty of
        CheckACL m \<Rightarrow> m = 0 \<or> acl_mask e s i AND m \<noteq> 0
      | CheckOwner \<Rightarrow> own | CheckAdmin \<Rightarrow> True | NoCheck \<Rightarrow> False))"
proof (cases "check_type_of right own ty")
  case (CheckACL m)
  then show ?thesis using HaveObjectPermission_mask[of e s i m] by (auto simp: check_rest_def)
next
  case CheckOwner
  then show ?thesis using assms check_type_rest(1)[OF CheckOwner]
    by (auto simp: check_rest_def ecSecurity_defs)
next
  case NoCheck
  then show ?thesis using assms check_type_rest(2)[OF NoCheck] by (auto simp: check_rest_def)
qed (simp add: check_rest_def)

lemma decide_permission_grounds:
  assumes "m_ulUserID s \<noteq> ZARAFA_UID_SYSTEM" "open_shortcut e i right = None"
  shows "\<exists>er s'. decide_permission e s i right = Some (er, s') \<and>
    (er = erSuccess \<longleftrightarrow> allowed_by_owner e s i right \<or> allowed_by_admin e s i right \<or>
                        allowed_by_check e s i right)"
proof -
  obtain era s1 where a: "IsAdminOverOwnerOfObject e s i = (era, s1)" by fastforce
  have adm: "admin_allows s1 right = admin_allows s right"
    using IsAdminOverOwner_keeps[OF a] by (simp add: admin_allows_def)
  define er0 where "er0 = (if right = ecSecurityFolderVisible \<or> right = ecSecurityRead
                      then erSuccess else ZARAFA_E_NO_ACCESS)"
  let ?ty = "snd (snd (GetStoreOwnerAndType e i))" and ?own = "owner_found e s i"
  have run: "decide_permission e s i right =
      (if allowed_by_owner e s i right then Some (erSuccess, s)
       else if allowed_by_admin e s i right then Some (erSuccess, s1)
       else check_rest e s1 i right ?own ?ty er0)"
    unfolding decide_permission_def Let_def er0_def[symmetric] allowed_by_owner_def
      allowed_by_admin_def a
    using assms adm by auto
  have "er0 = erSuccess \<longrightarrow> right = ecSecurityFolderVisible \<or> right = ecSecurityRead"
    by (simp add: er0_def)
  from check_rest_grounds[OF this, of e s1 i ?own ?ty] a
  have "\<exists>er s'. check_rest e s1 i right ?own ?ty er0 = Some (er, s') \<and>
      (er = erSuccess \<longleftrightarrow> allowed_by_check e s i right)"
    by (simp add: allowed_by_check_def)
  then show ?thesis unfolding run by auto
qed

subsection \<open>Writing access lists\<close>

lemma run_stmt_frame:
  "run_stmt a st tab = (er, tab') \<Longrightarrow> (\<And>u i' t r. st = ReplaceAcl u i' t r \<Longrightarrow> i' = i) \<Longrightarrow>
    (\<And>u i' t. st = DeleteAcl u i' t \<Longrightarrow> i' = i) \<Longrightarrow> j \<noteq> i \<Longrightarrow> tab' (j, v) = tab (j, v)"
  by (cases st; cases v) (auto simp: run_stmt_def split: if_splits)

lemma store_right_frame:
  assumes "store_right a i u x tab = (er, tab')" "j \<noteq> i"
  shows "tab' (j, v) = tab (j, v)"
  using assms
  by (cases v) (auto simp: store_right_def Let_def run_pair_def run_stmt_def split: if_splits prod.splits)

lemma rights_loop_frame:
  assumes "rights_loop e a i xs errs tab = (r, tab')" "j \<noteq> i"
  shows "tab' (j, v) = tab (j, v)"
  using assms
proof (induction xs arbitrary: errs tab)
  case (Cons x xs)
  show ?case
  proof (cases "entry_user a x")
    case (Inr u)
    obtain er t1 where s: "store_right a i u x tab = (er, t1)" by fastforce
    show ?thesis using Cons Inr s store_right_frame[OF s]
      by (auto split: sum.splits if_splits)
  qed (use Cons in auto)
qed simp

lemma rights_loop_count: "rights_loop e a i xs errs tab = (Inr n, tab') \<Longrightarrow> n \<le> errs + length xs"
proof (induction xs arbitrary: errs tab)
  case (Cons x xs)
  show ?case
  proof (cases "entry_user a x")
    case (Inr u)
    obtain er t1 where s: "store_right a i u x tab = (er, t1)" by fastforce
    show ?thesis using Cons Inr s Cons.IH[of "Suc errs" tab] Cons.IH[of errs t1]
      by (auto split: sum.splits if_splits intro: le_SucI)
  qed (use Cons in auto)
qed simp

text \<open>When every entry is refused, the table is as it was.\<close>

lemma rights_loop_refused:
  "rights_loop e a i xs errs tab = (Inr (errs + length xs), tab') \<Longrightarrow> tab' = tab"
proof (induction xs arbitrary: errs tab)
  case (Cons x xs)
  show ?case
  proof (cases "entry_user a x")
    case (Inr u)
    obtain er t1 where s: "store_right a i u x tab = (er, t1)" by fastforce
    show ?thesis using Cons.prems Inr s Cons.IH[of "Suc errs" tab]
        rights_loop_count[of e a i xs errs t1 "errs + Suc (length xs)" tab']
      by (auto split: sum.splits if_splits)
  qed (use Cons in auto)
qed simp

lemma and_power: "(r AND 2 ^ n \<noteq> 0) = bit (r :: u32) n"
  by (simp add: and_exp_eq_0_iff_not_bit)

lemma denied_bits:
  assumes "n < 32"
  shows "bit (denied_rights r) n =
    (if n = 3 then \<not> bit r 3 \<and> \<not> bit r 5
     else if n = 4 then \<not> bit r 4 \<and> \<not> bit r 6
     else bit (r XOR ecRightsAllMask) n)"
proof -
  have c: "ecRightsEditOwned = 2 ^ 3" "ecRightsEditAny = 2 ^ 5"
    "ecRightsDeleteOwned = 2 ^ 4" "ecRightsDeleteAny = 2 ^ 6"
    by (simp_all add: ecRights_defs)
  have m: "bit ecRightsAllMask 3" "bit ecRightsAllMask 4" "bit ecRightsAllMask 5" "bit ecRightsAllMask 6"
    by (simp_all add: ecRights_defs bit_numeral_rec)
  have t: "(r AND ecRightsEditAny \<noteq> 0) = bit r 5" "(r AND ecRightsEditOwned \<noteq> 0) = bit r 3"
    "(r AND ecRightsDeleteAny \<noteq> 0) = bit r 6" "(r AND ecRightsDeleteOwned \<noteq> 0) = bit r 4"
    unfolding c by (rule and_power)+
  have b: "bit ecRightsEditOwned k = (k = 3)" "bit ecRightsEditAny k = (k = 5)"
    "bit ecRightsDeleteOwned k = (k = 4)" "bit ecRightsDeleteAny k = (k = 6)" for k
    unfolding c by (auto simp only: bit_exp_iff possible_bit_word) auto
  show ?thesis
    using assms m unfolding denied_rights_def Let_def t
    by (auto simp: bit_and_iff bit_or_iff bit_not_iff bit_xor_iff b)
qed

subsection \<open>Quota states\<close>

instantiation quota_status :: linorder
begin

definition quota_rank :: "quota_status \<Rightarrow> nat" where
  "quota_rank q = (case q of QUOTA_OK \<Rightarrow> 0 | QUOTA_WARN \<Rightarrow> 1 | QUOTA_SOFTLIMIT \<Rightarrow> 2 | QUOTA_HARDLIMIT \<Rightarrow> 3)"

definition less_eq_quota_status :: "quota_status \<Rightarrow> quota_status \<Rightarrow> bool" where
  "q \<le> q' \<longleftrightarrow> quota_rank q \<le> quota_rank q'"

definition less_quota_status :: "quota_status \<Rightarrow> quota_status \<Rightarrow> bool" where
  "q < q' \<longleftrightarrow> quota_rank q < quota_rank q'"

instance
  by standard
    (auto simp: less_eq_quota_status_def less_quota_status_def quota_rank_def split: quota_status.splits)

end

lemma quota_status_mono: "sint a \<le> sint b \<Longrightarrow> quota_status_of q a \<le> quota_status_of q b"
  by (auto simp: quota_status_of_def less_eq_quota_status_def quota_rank_def)

subsection \<open>Properties\<close>

text \<open>A hosted server without companies; user 5 is in group 10, which is in group 11.\<close>

definition demo_details :: objectdetails where
  "demo_details = no_details\<lparr>ud_class := ACTIVE_USER\<rparr>"

definition demo_group :: "u32 \<Rightarrow> localobject" where
  "demo_group i = \<lparr>lo_ulId = i, lo_details = no_details\<lparr>ud_class := DISTLIST_SECURITY\<rparr>\<rparr>"

definition demo_env :: sec_env where
  "demo_env = with_database demo_db
     \<lparr>se_hosted = False, se_object = (\<lambda>_. Inl ZARAFA_E_NOT_FOUND), se_owner = (\<lambda>_. Inl ZARAFA_E_NOT_FOUND),
      se_parent = (\<lambda>_. Inl ZARAFA_E_NOT_FOUND), se_store = (\<lambda>_. Inl ZARAFA_E_NOT_FOUND),
      se_acls = (\<lambda>_. Inl ZARAFA_E_NOT_FOUND), se_details = (\<lambda>_. Inr demo_details),
      se_extern = (\<lambda>_. Inr (ACTIVE_USER, 0)),
      se_parents = (\<lambda>r u fl. Inr (if u = 5 then [demo_group 10]
                                    else if u = 10 then [demo_group 11] else [])),
      se_companies = (\<lambda>_. Inr []), se_quota = (\<lambda>_ _. Inr no_quota), se_setting = (\<lambda>_. None)\<rparr>"

definition demo_session :: security where
  "demo_session = (new_security False True EC_NO_IMPERSONATOR)\<lparr>m_ulUserID := 6, m_lpGroups := Some []\<rparr>"

lemmas demo_defs = demo_env_def with_database_def demo_session_def new_security_def no_details_def
  demo_details_def

text \<open>The search for the groups of a user ends, whatever cycles the memberships have.\<close>

theorem groups_search_ends: "GetGroupsForUser e s u \<noteq> None"
  by (rule GetGroupsForUser_total)

text \<open>
  C36: The search finds exactly the groups the user is in, directly or through other groups, that
  are visible to the session and not dynamic.
\<close>

theorem groups_search_exact:
  assumes "se_parents e OBJECTRELATION_GROUP_MEMBER u USERMANAGEMENT_IDS_ONLY = Inr gs"
  shows "\<exists>l s'. GetGroupsForUser e s u = Some (Inr l, s') \<and>
     lo_ulId ` set l = {i. in_group e s u i} \<and> (\<forall>g \<in> set l. usable_group e s g)"
  by (rule GetGroupsForUser_groups[OF assms, of s]) blast

lemma groups_search_exact_witness: "in_group demo_env demo_session 5 10 \<and> (\<exists>l s'.
    GetGroupsForUser demo_env demo_session 5 = Some (Inr l, s') \<and> 10 \<in> lo_ulId ` set l)"
proof -
  have g: "se_parents demo_env OBJECTRELATION_GROUP_MEMBER 5 USERMANAGEMENT_IDS_ONLY = Inr [demo_group 10]"
    by (simp add: demo_defs)
  have "in_group demo_env demo_session 5 (lo_ulId (demo_group 10))"
    by (rule in_group.direct)
      (simp_all add: g group_parents_def usable_group_def visible_id_def IsUserObjectVisible_def
        demo_group_def demo_defs DISTLIST_SECURITY_def DISTLIST_DYNAMIC_def)
  then have "in_group demo_env demo_session 5 10" by (simp add: demo_group_def)
  then show ?thesis using groups_search_exact[OF g, of demo_session] by auto
qed


text \<open>Denials in access lists never change the rights on an object.\<close>

theorem denials_ignored:
  assumes "m_lpGroups s = Some gs"
  shows "map_option fst (GetObjectPermission
      (e\<lparr>se_acls := (\<lambda>i. map_sum id (filter (\<lambda>r. ri_ulType r = ACCESS_TYPE_GRANT)) (se_acls e i))\<rparr>) s i) =
    map_option fst (GetObjectPermission e s i)"
proof -
  let ?e = "e\<lparr>se_acls := (\<lambda>i. map_sum id (filter (\<lambda>r. ri_ulType r = ACCESS_TYPE_GRANT)) (se_acls e i))\<rparr>"
  have "ancestors ?e n i = ancestors e n i" for n i
    by (induction n arbitrary: i) (auto split: sum.splits)
  moreover have "groups_of ?e s = groups_of e s" using assms by (simp add: groups_of_def)
  moreover have nr: "nearest_rights ?e ids objs = nearest_rights e ids objs" for ids objs
    unfolding nearest_rights_def level_rights_grants ..
  ultimately show ?thesis
    using GetObjectPermission_nearest[of ?e s i] GetObjectPermission_nearest[of e s i]
      nr by auto
qed

lemma denials_ignored_witness:
  "map_option fst (GetObjectPermission (demo_env\<lparr>se_acls := (\<lambda>i. map_sum id
      (filter (\<lambda>r. ri_ulType r = ACCESS_TYPE_GRANT)) (se_acls demo_env i))\<rparr>) demo_session 3) =
    map_option fst (GetObjectPermission demo_env demo_session 3)"
  by (rule denials_ignored[of _ "[]"]) (simp add: demo_session_def)

text \<open>
  The check for \<open>ecSecurityAdmin\<close> allows everyone: a user who is neither owner nor
  administrator falls through to the branch whose comment says that it is never reached.
\<close>

theorem admin_check_allows_everyone:
  assumes "m_ulUserID s \<noteq> ZARAFA_UID_SYSTEM"
  shows "\<exists>s'. CheckPermission e s i ecSecurityAdmin = Some (erSuccess, s')"
proof -
  have "open_shortcut e i ecSecurityAdmin = None" by (simp add: open_shortcut_def ecSecurity_defs)
  moreover have "allowed_by_check e s i ecSecurityAdmin"
    by (simp add: allowed_by_check_def check_type_of_def ecSecurity_defs)
  ultimately show ?thesis using decide_permission_grounds[OF assms, of e i ecSecurityAdmin]
    by (auto simp: CheckPermission_def ecSecurity_defs)
qed

lemma admin_check_allows_everyone_witness:
  "ud_admin (m_details demo_session) = 0 \<and>
   (\<exists>s'. CheckPermission demo_env demo_session 2 ecSecurityAdmin = Some (erSuccess, s'))"
  using admin_check_allows_everyone[of demo_session demo_env 2]
  by (simp add: demo_session_def new_security_def no_details_def ZARAFA_UID_SYSTEM_def)

text \<open>
  A check for deleted parents that succeeds has read every object from the given one up to
  its store, or 65 of them, and found none with the deleted flag.
\<close>

theorem deleted_parent_check_sound:
  assumes "CheckDeletedParent e i = erSuccess" "\<And>j. se_object e j \<noteq> Inl erSuccess"
  shows "list_all undeleted (parent_chain e MAX_PARENT_LIMIT i)"
  using deleted_loop_success[of e i 0] assms by (simp add: CheckDeletedParent_def)

lemma deleted_parent_check_sound_witness:
  "list_all undeleted (parent_chain demo_env MAX_PARENT_LIMIT 1)"
proof (rule deleted_parent_check_sound)
  have "se_object demo_env 1 = Inr \<lparr>ob_ulParent = CACHE_NO_PARENT, ob_ulOwner = 5, ob_ulFlags = 0, ob_ulType = 1\<rparr>"
    by (simp add: demo_env_def with_database_def read_object_def demo_db_def demo_rows_def)
  then show "CheckDeletedParent demo_env 1 = erSuccess"
    unfolding CheckDeletedParent_def
    by (subst deleted_loop.simps) (simp add: MAX_PARENT_LIMIT_def MAPI_STORE_def)
qed (simp add: demo_env_def with_database_def read_object_def demo_db_def demo_rows_def)

text \<open>
  A chain of folders without end passes the check for deleted parents, although its comment
  promises an error when the maximum depth is reached: the loop leaves with depth 65, and the
  test after it is for 64.
\<close>

theorem deep_chain_passes:
  assumes "\<And>j. \<exists>ob. se_object e j = Inr ob \<and> ob_ulFlags ob AND MSGFLAG_DELETED = 0 \<and>
     ob_ulType ob \<noteq> MAPI_STORE \<and> ob_ulParent ob \<noteq> CACHE_NO_PARENT"
  shows "CheckDeletedParent e i = erSuccess"
  unfolding CheckDeletedParent_def using assms by (rule deleted_loop_deep) simp

lemma deep_chain_passes_witness:
  "CheckDeletedParent (demo_env\<lparr>se_object :=
     (\<lambda>_. Inr \<lparr>ob_ulParent = 7, ob_ulOwner = 5, ob_ulFlags = 0, ob_ulType = 3\<rparr>)\<rparr>) 7 = erSuccess"
  by (rule deep_chain_passes) (simp add: MAPI_STORE_def CACHE_NO_PARENT_def)

text \<open>
  The denied rights that \<open>SetRights\<close> derives are the complement of the granted ones within
  the mask of all rights, except that an \<open>Owned\<close> right counts as granted when its \<open>Any\<close> right is.
\<close>

theorem denied_rights_complement:
  "n < 32 \<Longrightarrow> bit (denied_rights r) n =
    (if n = 3 then \<not> bit r 3 \<and> \<not> bit r 5
     else if n = 4 then \<not> bit r 4 \<and> \<not> bit r 6
     else bit (r XOR ecRightsAllMask) n)"
  by (rule denied_bits)

lemma denied_rights_complement_witness: "\<not> bit (denied_rights 0x20) 3 \<and> bit (denied_rights 0) 3"
  using denied_rights_complement[of 3 "0x20"] denied_rights_complement[of 3 0]
  by (simp add: bit_numeral_rec)

text \<open>
  \<open>SetRights\<close> writes rows of the given object only, whatever it returns, and writes nothing
  when it refuses the request because every entry is for a user that cannot be given rights.
\<close>

theorem set_rights_frame:
  assumes "SetRights e a d i arr tab cm = (er, tab', cm')"
  shows "(\<forall>j v. j \<noteq> i \<longrightarrow> tab' (j, v) = tab (j, v)) \<and>
    (\<forall>xs. arr = Some xs \<longrightarrow> (\<forall>n t. rights_loop e a i xs 0 tab = (Inr n, t) \<longrightarrow> n = length xs \<longrightarrow>
       (ae_connect a = erSuccess \<longrightarrow> er = ZARAFA_E_INVALID_PARAMETER) \<and> tab' = tab))"
proof (cases arr)
  case (Some xs)
  obtain r t where l: "rights_loop e a i xs 0 tab = (r, t)" by fastforce
  have "tab' = tab \<or> tab' = t" using assms Some l
    by (auto simp: SetRights_def Let_def split: if_splits sum.splits)
  then show ?thesis
    using assms Some l rights_loop_frame[OF l] rights_loop_refused[of e a i xs 0 tab t]
    by (auto simp: SetRights_def Let_def split: if_splits)
qed (use assms in \<open>auto simp: SetRights_def split: if_splits\<close>)

definition demo_acl :: acl_env where
  "demo_acl = \<lparr>ae_connect = erSuccess, ae_entryid = (\<lambda>_. Inr (0, [])), ae_localid = (\<lambda>_. Inr 0),
     ae_exec = (\<lambda>_. erSuccess)\<rparr>"

definition demo_entry :: rights_entry where
  "demo_entry = \<lparr>rr_sUserId = [], rr_ulUserid = 6, rr_ulType = 2, rr_ulRights = 1, rr_ulState = 9\<rparr>"

lemma set_rights_frame_witness:
  "fst (snd (SetRights demo_env demo_acl demo_db 3 (Some [demo_entry]) Map.empty new_cacheman)) (4, 6, 2) = None"
proof -
  obtain er t c where
    r: "SetRights demo_env demo_acl demo_db 3 (Some [demo_entry]) Map.empty new_cacheman = (er, t, c)"
    using prod_cases3 by blast
  have "t (4, v) = None" for v
    using set_rights_frame[OF r, THEN conjunct1, rule_format, of 4 v] by simp
  then show ?thesis by (simp add: r)
qed

text \<open>
  What an entry of a request asks for, for one user: the rights of each type of row, from those before. A new or changed
  entry sets its type and, when the denied rights are to follow, the denied ones to the complement of all rights, without
  the \<open>Owned\<close> rights whose \<open>Any\<close> rights are given; a deleted one takes the rows away. The states are
  bits: 1 new, 2 changed, 4 deleted, 8 the denied rights follow.
\<close>

definition denied_complement :: "u32 \<Rightarrow> u32" where
  "denied_complement r =
     (r XOR 0x15FB) AND NOT (if bit r 5 then 0x8 else 0) AND NOT (if bit r 6 then 0x10 else 0)"

definition wanted :: "rights_entry \<Rightarrow> (u32 \<Rightarrow> u32 option) \<Rightarrow> u32 \<Rightarrow> u32 option" where
  "wanted x old t =
     (let st = rr_ulState x; denied = (bit st 3 \<and> t = 1) in
      if bit st 0 \<or> bit st 1 then
        (if denied then Some (denied_complement (rr_ulRights x))
         else if t = rr_ulType x then Some (rr_ulRights x) else old t)
      else if bit st 2 \<and> (denied \<or> t = rr_ulType x) then None
      else old t)"

text \<open>The user that an entry names: by number, or by an entry id, with an external id or without.\<close>

definition names_user :: "acl_env \<Rightarrow> rights_entry \<Rightarrow> u32 \<Rightarrow> bool" where
  "names_user a x u \<longleftrightarrow>
     rr_sUserId x = [] \<and> u = rr_ulUserid x \<or>
     rr_sUserId x \<noteq> [] \<and> (ae_entryid a (rr_sUserId x) = Inr (u, []) \<or>
       (\<exists>v ext. ext \<noteq> [] \<and> ae_entryid a (rr_sUserId x) = Inr (v, ext) \<and> ae_localid a ext = Inr u))"

text \<open>Users, security groups and companies can be given rights.\<close>

definition can_have_rights :: "sec_env \<Rightarrow> u32 \<Rightarrow> bool" where
  "can_have_rights e u \<longleftrightarrow> (\<exists>d. se_details e u = Inr d \<and> ud_class d \<in> {0x10001, 0x30002, 0x40001})"

text \<open>The rows of an object in the database are those of the table.\<close>

definition shows_acl :: "cm_env \<Rightarrow> acl_table \<Rightarrow> u32 \<Rightarrow> bool" where
  "shows_acl d tab i \<longleftrightarrow> (\<exists>rs. read_acl d i = Inr rs \<and>
     (\<forall>u t r. \<lparr>ri_ulUserid = u, ri_ulType = t, ri_ulRights = r\<rparr> \<in> set rs \<longleftrightarrow> tab (i, u, t) = Some r))"

lemma denied_rights_spec: "denied_rights r = denied_complement r"
proof (rule bit_word_eqI)
  fix n assume n: "n < LENGTH(32)"
  have b: "bit (0x8 :: u32) n \<longleftrightarrow> n = 3" "bit (0x10 :: u32) n \<longleftrightarrow> n = 4"
    using bit_exp_iff[of 3 n, where 'a = u32] bit_exp_iff[of 4 n, where 'a = u32] n by auto
  have m: "bit ecRightsAllMask 3" "bit ecRightsAllMask 4" by (simp_all add: ecRights_defs bit_numeral_rec)
  have c: "bit (denied_complement r) n \<longleftrightarrow> bit (r XOR ecRightsAllMask) n \<and> \<not> (bit r 5 \<and> n = 3) \<and> \<not> (bit r 6 \<and> n = 4)"
    using n b unfolding denied_complement_def ecRightsAllMask_def bit_and_iff bit_not_iff
    by (cases "bit r 5"; cases "bit r 6") simp_all
  show "bit (denied_rights r) n = bit (denied_complement r) n"
    using n m unfolding c by (subst denied_bits) (auto simp: bit_xor_iff)
qed

lemma store_right_wanted:
  assumes "\<And>st. ae_exec a st = erSuccess"
  shows "store_right a i u x tab = (erSuccess, \<lambda>(j, v, t).
    if j = i \<and> v = u then wanted x (\<lambda>t. tab (i, u, t)) t else tab (j, v, t))"
proof -
  let ?st = "rr_ulState x"
  have t: "(?st AND RIGHT_NEW \<noteq> 0) = bit ?st 0" "(?st AND RIGHT_MODIFY \<noteq> 0) = bit ?st 1"
    "(?st AND RIGHT_DELETED \<noteq> 0) = bit ?st 2" "(?st AND RIGHT_AUTOUPDATE_DENIED \<noteq> 0) = bit ?st 3"
    using and_power[of ?st 0] and_power[of ?st 1] and_power[of ?st 2] and_power[of ?st 3]
    by (simp_all add: RIGHT_NEW_def RIGHT_MODIFY_def RIGHT_DELETED_def RIGHT_AUTOUPDATE_DENIED_def)
  have z: "?st = RIGHT_NORMAL \<Longrightarrow> \<not> bit ?st n" for n by (simp add: RIGHT_NORMAL_def)
  show ?thesis
    using z[of 0] z[of 1] z[of 2] assms
    by (auto simp: store_right_def t Let_def run_pair_def run_stmt_def wanted_def denied_rights_spec
        ACCESS_TYPE_DENIED_def fun_eq_iff)
qed

lemma rights_loop_wanted:
  assumes "\<And>st. ae_exec a st = erSuccess" "list_all2 (names_user a) xs us" "distinct us" "\<forall>u \<in> set us. can_have_rights e u"
  shows "rights_loop e a i xs n tab = (Inr n, \<lambda>(j, u, t).
    if j = i then (case map_of (zip us xs) u of None \<Rightarrow> tab (i, u, t) | Some x \<Rightarrow> wanted x (\<lambda>t. tab (i, u, t)) t)
    else tab (j, u, t))"
  using assms(2-4)
proof (induction xs us arbitrary: tab rule: list_all2_induct)
  case (Cons x xs u us)
  let ?tab = "\<lambda>(j, v, t). if j = i \<and> v = u then wanted x (\<lambda>t. tab (i, u, t)) t else tab (j, v, t)"
  have u: "entry_user a x = Inr u" using Cons.hyps(1) by (auto simp: names_user_def entry_user_def)
  obtain d where d: "se_details e u = Inr d" "right_settable (rr_ulState x) (ud_class d)"
    using Cons.prems(2)
    by (auto simp: can_have_rights_def right_settable_def ACTIVE_USER_def DISTLIST_SECURITY_def CONTAINER_COMPANY_def)
  have "rights_loop e a i (x # xs) n tab = rights_loop e a i xs n ?tab"
    using u d store_right_wanted[OF assms(1), of i u x tab] by simp
  moreover have "map_of (zip us xs) u = None" using Cons.prems(1) list_all2_lengthD[OF Cons.hyps(2)]
    by (simp add: map_of_zip_is_None)
  ultimately show ?case using Cons.IH[of ?tab] Cons.prems
    by (auto simp: fun_eq_iff split: option.splits)
qed (auto simp: fun_eq_iff)

text \<open>
  C24: \<open>SetRights\<close> with entries for different users that can be given rights, where no statement fails, writes
  exactly the rows that the entries ask for and leaves those of other users and other objects; after it the access list
  that the cache manager gives for the object is the new one, whatever it kept before, and it stays coherent with the
  database.
\<close>

theorem set_rights_seen_by_reads:
  assumes "SetRights e a d i (Some xs) tab cm = (er, tab', cm')"
    and "ae_connect a = erSuccess" "\<And>st. ae_exec a st = erSuccess"
    and "list_all2 (names_user a) xs us" "distinct us" "\<forall>u \<in> set us. can_have_rights e u" "xs \<noteq> []"
    and "cm_ok d cm" "db_connect d = erSuccess" "d' = d\<lparr>db_acl := (db_acl d)(i := rows)\<rparr>" "shows_acl d' tab' i"
  shows "er = erSuccess \<and> cm_ok d' cm' \<and> (\<forall>j v. j \<noteq> i \<longrightarrow> tab' (j, v) = tab (j, v)) \<and>
    (\<exists>rs. fst (cm_GetACLs d' cm' i) = Inr rs \<and>
       (\<forall>u t r. \<lparr>ri_ulUserid = u, ri_ulType = t, ri_ulRights = r\<rparr> \<in> set rs \<longleftrightarrow>
          (case map_of (zip us xs) u of
             None \<Rightarrow> tab (i, u, t) | Some x \<Rightarrow> wanted x (\<lambda>t. tab (i, u, t)) t) = Some r))"
proof -
  note l = rights_loop_wanted[OF assms(3-6), of i 0 tab]
  have run: "er = erSuccess" "cm' = cm_Update d cm fnevObjectModified i"
    "tab' = (\<lambda>(j, u, t). if j = i then (case map_of (zip us xs) u of None \<Rightarrow> tab (i, u, t)
       | Some x \<Rightarrow> wanted x (\<lambda>t. tab (i, u, t)) t) else tab (j, u, t))"
    using assms(1,2,7) l by (simp_all add: SetRights_def Let_def)
  have ok: "cm_ok d' cm'"
    using Update_modified_ok[OF assms(8), of i d' d] assms(10) run(2) by (simp add: parent_of_def read_object_def)
  have "fst (cm_GetACLs d' cm' i) = read_acl d' i"
    by (rule GetACLs_transparent(1)[OF ok _ prod.collapse[symmetric]]) (simp add: assms(9,10))
  then show ?thesis using run(1,3) ok assms(11) by (simp add: shows_acl_def)
qed

text \<open>
  The right to read for user 6 on object 2, whose access list the cache has kept, with the denied rights to follow: the
  next read gives both rows.
\<close>

lemma set_rights_seen_by_reads_witness:
  "\<exists>rs. fst (cm_GetACLs
      (demo_db\<lparr>db_acl := (db_acl demo_db)(2 := Inr [(Some 6, Some 2, Some 1), (Some 6, Some 1, Some 0x15FA)])\<rparr>)
      (snd (snd (SetRights demo_env demo_acl demo_db 2 (Some [demo_entry]) Map.empty
        (snd (cm_GetACLs demo_db new_cacheman 2))))) 2) = Inr rs \<and>
    \<lparr>ri_ulUserid = 6, ri_ulType = 2, ri_ulRights = 1\<rparr> \<in> set rs \<and>
    \<lparr>ri_ulUserid = 6, ri_ulType = 1, ri_ulRights = 0x15FA\<rparr> \<in> set rs"
proof -
  let ?cm = "snd (cm_GetACLs demo_db new_cacheman 2)"
  let ?rows = "Inr [(Some 6, Some 2, Some 1), (Some 6, Some 1, Some 0x15FA)] :: ecresult + (u32 option \<times> u32 option \<times> u32 option) list"
  let ?d = "demo_db\<lparr>db_acl := (db_acl demo_db)(2 := ?rows)\<rparr>"
  have ex: "ae_exec demo_acl st = erSuccess" "ae_connect demo_acl = erSuccess" for st by (simp_all add: demo_acl_def)
  have us: "list_all2 (names_user demo_acl) [demo_entry] [6]" by (simp add: names_user_def demo_entry_def)
  have can: "\<forall>u \<in> set [6]. can_have_rights demo_env u"
    by (simp add: can_have_rights_def demo_defs ACTIVE_USER_def)
  have ok: "cm_ok demo_db ?cm"
    by (rule GetACLs_transparent(2)[OF cm_ok_new _ prod.collapse[symmetric]]) (simp add: demo_db_def)
  have b: "bit (9 :: u32) 0" "\<not> bit (9 :: u32) 1" "bit (9 :: u32) 3" "\<not> bit (1 :: u32) 5" "\<not> bit (1 :: u32) 6"
    by (simp_all add: bit_numeral_rec bit_1_iff)
  have w: "wanted demo_entry (\<lambda>_. None) t = (if t = 1 then Some 0x15FA else if t = 2 then Some 1 else None)" for t
    by (simp add: wanted_def demo_entry_def b denied_complement_def)
  obtain er t c where r: "SetRights demo_env demo_acl demo_db 2 (Some [demo_entry]) Map.empty ?cm = (er, t, c)"
    using prod_cases3 by blast
  then have t: "t (2, u, ty) = (if u = 6 then wanted demo_entry (\<lambda>_. None) ty else None)" for u ty
    using rights_loop_wanted[OF ex(1) us _ can, of 2 0 Map.empty] ex(2) by (auto simp: SetRights_def Let_def)
  have "shows_acl ?d t 2"
    by (auto simp: shows_acl_def read_acl_def t w demo_db_def)
  from set_rights_seen_by_reads[OF r ex(2,1) us _ can _ ok _ refl this]
  obtain rs where "fst (cm_GetACLs ?d c 2) = Inr rs"
    "\<And>u t r. \<lparr>ri_ulUserid = u, ri_ulType = t, ri_ulRights = r\<rparr> \<in> set rs \<longleftrightarrow>
          (case map_of (zip [6] [demo_entry]) u of None \<Rightarrow> None | Some x \<Rightarrow> wanted x (\<lambda>t. None) t) = Some r"
    by (auto simp: demo_db_def)
  then show ?thesis by (simp add: r w)
qed

text \<open>
  The quota state of a store grows with its size, and the store of everyone and a store
  that is not private are never over quota.
\<close>

theorem quota_monotone:
  assumes "sint a \<le> sint b" "CheckUserQuota e u a = Inr qa" "CheckUserQuota e u b = Inr qb"
  shows "qa \<le> qb \<and> (u = ZARAFA_UID_EVERYONE \<longrightarrow> qb = QUOTA_OK)"
  using assms quota_status_mono[OF assms(1)]
  by (auto simp: CheckUserQuota_def split: if_splits sum.splits)

lemma quota_monotone_witness: "QUOTA_OK \<le> QUOTA_OK \<and> CheckUserQuota demo_env 6 5 = Inr QUOTA_OK"
proof -
  have q: "CheckUserQuota demo_env 6 n = Inr QUOTA_OK" for n
    by (simp add: CheckUserQuota_def GetUserQuota_def demo_defs ZARAFA_UID_EVERYONE_def ACTIVE_USER_def
        NONACTIVE_CONTACT_def CONTAINER_ADDRESSLIST_def OBJECTCLASS_TYPE_def OBJECTTYPE_DISTLIST_def
        OBJECTTYPE_MAILUSER_def no_quota_def config_quota_def quota_status_of_def CONTAINER_COMPANY_def)
  show ?thesis using quota_monotone[OF _ q q, of 1 5] q by simp
qed

end
