(* ===== verification/Security_Grounds.thy ===== *)
theory Security_Grounds
  imports Security_Facts
begin

text \<open>
  What \<open>CheckPermission\<close> of \<^verbatim>\<open>provider/libserver/ECSecurity.cpp\<close> allows, said without its code: the
  grounds on which a user may do something, one rule for each, in terms of the objects, stores, owners, access lists,
  groups and companies that the server knows, and the proof that the code allows exactly that.
\<close>

subsection \<open>What the server knows\<close>

text \<open>An answer that is an error is not the code for success.\<close>

definition honest :: "sec_env \<Rightarrow> bool" where
  "honest e \<longleftrightarrow> (\<forall>j. se_object e j \<noteq> Inl erSuccess) \<and> (\<forall>j. se_store e j \<noteq> Inl erSuccess) \<and>
     (\<forall>j. se_details e j \<noteq> Inl erSuccess) \<and> (\<forall>j. se_extern e j \<noteq> Inl erSuccess) \<and>
     (\<forall>r j fl. se_parents e r j fl \<noteq> Inl erSuccess)"

text \<open>The companies that a session shows to its user, and the users, groups and companies that it shows.\<close>

definition shown_companies :: "sec_env \<Rightarrow> security \<Rightarrow> u32 set" where
  "shown_companies e s =
     (case m_lpViewCompanies s of
        Some l \<Rightarrow> lo_ulId ` set l
      | None \<Rightarrow>
          if m_ulCompanyID s \<noteq> 0 \<and> (\<exists>er. se_details e (m_ulCompanyID s) = Inl er) then {}
          else (if m_ulCompanyID s \<noteq> 0 then {m_ulCompanyID s} else {}) \<union>
            (case se_parents e OBJECTRELATION_COMPANY_VIEW (m_ulCompanyID s) 0 of
               Inl _ \<Rightarrow> {} | Inr l \<Rightarrow> lo_ulId ` set l))"

definition company_of :: "sec_env \<Rightarrow> u32 \<Rightarrow> u32 \<Rightarrow> bool" where
  "company_of e u c \<longleftrightarrow>
     (\<exists>cls co. se_extern e u = Inr (cls, co) \<and> c = (if cls = CONTAINER_COMPANY then u else co))"

definition sees :: "sec_env \<Rightarrow> security \<Rightarrow> u32 \<Rightarrow> bool" where
  "sees e s u \<longleftrightarrow> \<not> se_hosted e \<or> u \<in> {0, m_ulUserID s, m_ulCompanyID s, ZARAFA_UID_SYSTEM, ZARAFA_UID_EVERYONE} \<or>
     ud_admin (m_details s) = ADMIN_LEVEL_SYSADMIN \<or> (\<exists>c \<in> shown_companies e s. company_of e u c)"

text \<open>The groups that the user is in, directly or through other groups; dynamic and hidden ones do not count.\<close>

inductive member :: "sec_env \<Rightarrow> security \<Rightarrow> u32 \<Rightarrow> bool" for e s where
  direct: "se_parents e OBJECTRELATION_GROUP_MEMBER (m_ulUserID s) USERMANAGEMENT_IDS_ONLY = Inr gs \<Longrightarrow> g \<in> set gs \<Longrightarrow>
    sees e s (lo_ulId g) \<Longrightarrow> ud_class (lo_details g) \<noteq> DISTLIST_DYNAMIC \<Longrightarrow> member e s (lo_ulId g)"
| nested: "member e s i \<Longrightarrow> se_parents e OBJECTRELATION_GROUP_MEMBER i USERMANAGEMENT_IDS_ONLY = Inr gs \<Longrightarrow>
    g \<in> set gs \<Longrightarrow> sees e s (lo_ulId g) \<Longrightarrow> ud_class (lo_details g) \<noteq> DISTLIST_DYNAMIC \<Longrightarrow> member e s (lo_ulId g)"

text \<open>The ids that stand for the user in access lists; the groups may have been found before.\<close>

definition my_ids :: "sec_env \<Rightarrow> security \<Rightarrow> u32 set" where
  "my_ids e s = {m_ulUserID s, m_ulCompanyID s} \<union>
     (case m_lpGroups s of Some l \<Rightarrow> lo_ulId ` set l | None \<Rightarrow> {g. member e s g})"

text \<open>
  A right, by its bit, that the nearest access list with a grant for the user gives: the list of the object or, as long
  as there is no grant, of its parents, up to \<open>k\<close> of them.
\<close>

definition grants :: "sec_env \<Rightarrow> u32 set \<Rightarrow> u32 \<Rightarrow> ecright set" where
  "grants e ids i = {x. \<exists>acl. se_acls e i = Inr acl \<and> x \<in> set acl \<and> ri_ulType x = ACCESS_TYPE_GRANT \<and> ri_ulUserid x \<in> ids}"

inductive gives_right :: "sec_env \<Rightarrow> u32 set \<Rightarrow> nat \<Rightarrow> u32 \<Rightarrow> nat \<Rightarrow> bool" for e ids where
  here: "x \<in> grants e ids i \<Longrightarrow> bit (ri_ulRights x) n \<Longrightarrow> gives_right e ids k i n"
| above: "grants e ids i = {} \<Longrightarrow> se_parent e i = Inr p \<Longrightarrow> gives_right e ids k p n \<Longrightarrow> gives_right e ids (Suc k) i n"

inductive_cases gives_rightE: "gives_right e ids k i n"

subsection \<open>Owners and administrators\<close>

definition owns_store :: "sec_env \<Rightarrow> security \<Rightarrow> u32 \<Rightarrow> bool" where
  "owns_store e s i \<longleftrightarrow> (\<exists>st. se_store e i = Inr st \<and> se_owner e (st_ulStore st) = Inr (m_ulUserID s))"

definition in_archive :: "sec_env \<Rightarrow> u32 \<Rightarrow> bool" where
  "in_archive e i \<longleftrightarrow> (\<exists>st. se_store e i = Inr st \<and> st_ulType st = ECSTORE_TYPE_ARCHIVE)"

definition owns :: "sec_env \<Rightarrow> security \<Rightarrow> u32 \<Rightarrow> bool" where
  "owns e s i \<longleftrightarrow> m_bOwnerAutoFullAccess s \<and> se_owner e i = Inr (m_ulUserID s)"

text \<open>The companies that the user has been made an administrator of, besides the own one.\<close>

definition managed :: "sec_env \<Rightarrow> security \<Rightarrow> u32 set" where
  "managed e s =
     (case m_lpAdminCompanies s of
        Some l \<Rightarrow> lo_ulId ` set l
      | None \<Rightarrow> (case se_parents e OBJECTRELATION_COMPANY_ADMIN (m_ulUserID s) USERMANAGEMENT_IDS_ONLY of
                   Inl _ \<Rightarrow> {} | Inr l \<Rightarrow> {c \<in> lo_ulId ` set l. sees e s c}))"

text \<open>
  Being the administrator of the owner of the store: of everyone on a server without companies, and else as system
  administrator, as administrator of the own company, or of the company that one manages.
\<close>

definition administers :: "sec_env \<Rightarrow> security \<Rightarrow> u32 \<Rightarrow> bool" where
  "administers e s i \<longleftrightarrow> (\<exists>st ow. se_store e i = Inr st \<and> se_owner e (st_ulStore st) = Inr ow \<and>
     (if \<not> se_hosted e then ud_admin (m_details s) \<noteq> 0
      else ud_admin (m_details s) = ADMIN_LEVEL_SYSADMIN \<or>
        (\<exists>c. company_of e ow c \<and>
           (if c = m_ulCompanyID s then ud_admin (m_details s) \<noteq> 0 else c \<in> managed e s))))"

subsection \<open>Objects\<close>

text \<open>Stores and the folders right below them can be opened by everyone; the parent has to be readable for that.\<close>

definition can_be_read :: "sec_env \<Rightarrow> u32 \<Rightarrow> bool" where
  "can_be_read e i \<longleftrightarrow> (\<exists>ob. se_object e i = Inr ob \<and>
     (ob_ulType ob = MAPI_STORE \<or> (\<exists>par. se_object e (ob_ulParent ob) = Inr par)))"

definition open_to_all :: "sec_env \<Rightarrow> u32 \<Rightarrow> bool" where
  "open_to_all e i \<longleftrightarrow> (\<exists>ob. se_object e i = Inr ob \<and>
     (ob_ulType ob = MAPI_STORE \<or> ob_ulType ob = MAPI_FOLDER \<and>
        (\<exists>par. se_object e (ob_ulParent ob) = Inr par \<and> ob_ulType par = MAPI_STORE)))"

text \<open>
  No object on the way to the store is deleted, as far as \<open>CheckDeletedParent\<close> looks, which is 65 objects; a way of
  exactly 64 is refused.
\<close>

definition not_deleted :: "sec_env \<Rightarrow> u32 \<Rightarrow> bool" where
  "not_deleted e i \<longleftrightarrow> list_all undeleted (parent_chain e 64 i) \<and> length (parent_chain e 64 i) \<noteq> 64"

subsection \<open>The grounds\<close>

inductive may :: "sec_env \<Rightarrow> security \<Rightarrow> u32 \<Rightarrow> u32 \<Rightarrow> bool" for e s i where
  open_object: "open_to_all e i \<Longrightarrow> right \<in> {ecSecurityRead, ecSecurityFolderVisible} \<Longrightarrow> may e s i right"
| store_owner: "owns_store e s i \<Longrightarrow> \<not> in_archive e i \<Longrightarrow> may e s i right"
| archive_owner: "owns_store e s i \<Longrightarrow> right \<in> {ecSecurityRead, ecSecurityFolderVisible} \<Longrightarrow> may e s i right"
| owner_reads: "owns e s i \<Longrightarrow> right \<in> {ecSecurityRead, ecSecurityFolderVisible} \<Longrightarrow> may e s i right"
| owner_creates: "owns e s i \<Longrightarrow> \<not> in_archive e i \<Longrightarrow> right \<in> {ecSecurityCreate, ecSecurityFolderAccess} \<Longrightarrow>
    may e s i right"
| owner_edits: "owns e s i \<Longrightarrow> gives_right e (my_ids e s) 64 i 3 \<Longrightarrow> may e s i ecSecurityEdit"
| owner_deletes: "owns e s i \<Longrightarrow> gives_right e (my_ids e s) 64 i 4 \<Longrightarrow> may e s i ecSecurityDelete"
| owner_owns: "owns e s i \<Longrightarrow> may e s i ecSecurityOwner"
| administrator: "administers e s i \<Longrightarrow> \<not> m_bRestrictedAdmin s \<Longrightarrow> may e s i right"
| restricted_administrator: "administers e s i \<Longrightarrow>
    right \<in> {ecSecurityFolderVisible, ecSecurityFolderAccess, ecSecurityCreateFolder} \<Longrightarrow> may e s i right"
| granted_right: "gives_right e (my_ids e s) 64 i n \<Longrightarrow>
    (right, n) \<in> {(ecSecurityRead, 0), (ecSecurityCreate, 1), (ecSecurityEdit, 5), (ecSecurityDelete, 6),
      (ecSecurityCreateFolder, 7), (ecSecurityFolderAccess, 8), (ecSecurityFolderVisible, 10)} \<Longrightarrow> may e s i right"
| admin_check: "may e s i ecSecurityAdmin"

subsection \<open>The code computes them\<close>

lemma ids_unique [simp]: "lo_ulId ` set (unique_ids xs) = lo_ulId ` set xs"
  by (induction xs rule: unique_ids.induct) auto

lemma view_companies_shown:
  assumes "honest e" "ud_admin (m_details s) \<noteq> ADMIN_LEVEL_SYSADMIN"
  shows "(\<exists>er s'. view_companies e s = (Inl er, s') \<and> er \<noteq> erSuccess \<and> shown_companies e s = {}) \<or>
    (\<exists>l s'. view_companies e s = (Inr l, s') \<and> lo_ulId ` set l = shown_companies e s)"
proof (cases "m_lpViewCompanies s")
  case None
  have "se_details e (m_ulCompanyID s) \<noteq> Inl erSuccess" using assms(1) by (simp add: honest_def)
  then show ?thesis
    using None assms(2)
    by (cases "se_details e (m_ulCompanyID s)"; cases "se_parents e OBJECTRELATION_COMPANY_VIEW (m_ulCompanyID s) 0")
      (auto simp: view_companies_def GetViewableCompanies_def shown_companies_def Let_def)
qed (simp add: view_companies_def shown_companies_def)

lemma visible_sees: "honest e \<Longrightarrow> visible_id e s u = sees e s u"
proof -
  assume h: "honest e"
  have x: "se_extern e u \<noteq> Inl erSuccess" using h by (simp add: honest_def)
  show ?thesis
  proof (cases "\<not> se_hosted e \<or> u \<in> {0, m_ulUserID s, m_ulCompanyID s, ZARAFA_UID_SYSTEM, ZARAFA_UID_EVERYONE} \<or>
      ud_admin (m_details s) = ADMIN_LEVEL_SYSADMIN")
    case True
    then show ?thesis by (auto simp: visible_id_def IsUserObjectVisible_def sees_def)
  next
    case False
    note f = this
    show ?thesis
    proof (cases "se_extern e u")
      case (Inl er)
      then show ?thesis using f x by (auto simp: visible_id_def IsUserObjectVisible_def sees_def company_of_def)
    next
      case (Inr p)
      obtain cls co where p: "p = (cls, co)" by fastforce
      have c: "company_of e u c \<longleftrightarrow> c = (if cls = CONTAINER_COMPANY then u else co)" for c
        using Inr p by (simp add: company_of_def)
      show ?thesis
        using view_companies_shown[OF h, of s] f Inr p
        by (auto simp: visible_id_def IsUserObjectVisible_def sees_def c Let_def)
    qed
  qed
qed

lemma usable_sees: "honest e \<Longrightarrow> usable_group e s g \<longleftrightarrow> sees e s (lo_ulId g) \<and> ud_class (lo_details g) \<noteq> DISTLIST_DYNAMIC"
  by (simp add: usable_group_def visible_sees)

lemma member_in_group:
  assumes "honest e"
  shows "member e s i \<longleftrightarrow> in_group e s (m_ulUserID s) i"
proof
  show "member e s i \<Longrightarrow> in_group e s (m_ulUserID s) i"
    by (induction rule: member.induct) (auto simp: group_parents_def usable_sees[OF assms] intro: in_group.intros)
  show "in_group e s (m_ulUserID s) i \<Longrightarrow> member e s i"
    by (induction rule: in_group.induct)
      (auto simp: group_parents_def usable_sees[OF assms] split: sum.splits intro: member.direct[OF sym] member.nested[OF _ sym])
qed

lemma in_group_same: "same_session e s s' \<Longrightarrow> in_group e s' u i = in_group e s u i"
proof -
  have "in_group e t u i \<Longrightarrow> (\<And>g. usable_group e t g = usable_group e t' g) \<Longrightarrow> in_group e t' u i" for t t'
    by (induction rule: in_group.induct) (auto intro: in_group.intros)
  then show "same_session e s s' \<Longrightarrow> in_group e s' u i = in_group e s u i" using usable_same by metis
qed

lemma groups_members:
  assumes "m_lpGroups s = None"
  shows "lo_ulId ` set (groups_of e s) = {g. in_group e s (m_ulUserID s) g}"
proof (cases "se_parents e OBJECTRELATION_GROUP_MEMBER (m_ulUserID s) USERMANAGEMENT_IDS_ONLY")
  case (Inl er)
  have "\<not> in_group e s (m_ulUserID s) g" for g
  proof
    show "in_group e s (m_ulUserID s) g \<Longrightarrow> False"
      by (induction rule: in_group.induct) (simp_all add: group_parents_def Inl)
  qed
  then show ?thesis using assms Inl by (simp add: groups_of_def GetGroupsForUser_def)
next
  case (Inr gs)
  obtain l s' where "GetGroupsForUser e s (m_ulUserID s) = Some (Inr l, s')"
    "lo_ulId ` set l = {i. in_group e s (m_ulUserID s) i}" by (rule GetGroupsForUser_groups[OF Inr, of s])
  then show ?thesis using assms by (simp add: groups_of_def)
qed

lemma acl_ids_my:
  assumes "honest e" "same_session e s s'" "m_lpGroups s' = m_lpGroups s"
  shows "set (acl_ids s' (groups_of e s')) = my_ids e s"
proof -
  have u: "m_ulUserID s' = m_ulUserID s" "m_ulCompanyID s' = m_ulCompanyID s" using assms(2) by (simp_all add: same_session_def)
  show ?thesis
  proof (cases "m_lpGroups s")
    case None
    have "{g. in_group e s' (m_ulUserID s') g} = {g. member e s g}"
      by (simp add: member_in_group[OF assms(1)] in_group_same[OF assms(2)] u)
    then show ?thesis using groups_members[of s' e] None assms(3) u by (simp add: acl_ids_def my_ids_def)
  qed (use assms(3) u in \<open>simp add: acl_ids_def my_ids_def groups_of_def\<close>)
qed

text \<open>The rights of one access list, and those of the nearest one.\<close>

lemma granted_bits:
  "bit (fst (granted acl u)) n \<longleftrightarrow>
     (\<exists>x \<in> set acl. ri_ulType x = ACCESS_TYPE_GRANT \<and> ri_ulUserid x = u \<and> bit (ri_ulRights x) n)"
  "snd (granted acl u) \<longleftrightarrow> (\<exists>x \<in> set acl. ri_ulType x = ACCESS_TYPE_GRANT \<and> ri_ulUserid x = u)"
proof -
  let ?f = "\<lambda>r (m, f). if ri_ulType r = ACCESS_TYPE_GRANT \<and> ri_ulUserid r = u
                      then (m OR ri_ulRights r, True) else (m, f)"
  have "(bit (fst (fold ?f acl (m, f))) n \<longleftrightarrow> bit m n \<or>
      (\<exists>x \<in> set acl. ri_ulType x = ACCESS_TYPE_GRANT \<and> ri_ulUserid x = u \<and> bit (ri_ulRights x) n)) \<and>
    (snd (fold ?f acl (m, f)) \<longleftrightarrow> f \<or> (\<exists>x \<in> set acl. ri_ulType x = ACCESS_TYPE_GRANT \<and> ri_ulUserid x = u))" for m f
    by (induction acl arbitrary: m f) (auto simp: bit_or_iff)
  from this[of 0 False] show
    "bit (fst (granted acl u)) n \<longleftrightarrow>
       (\<exists>x \<in> set acl. ri_ulType x = ACCESS_TYPE_GRANT \<and> ri_ulUserid x = u \<and> bit (ri_ulRights x) n)"
    "snd (granted acl u) \<longleftrightarrow> (\<exists>x \<in> set acl. ri_ulType x = ACCESS_TYPE_GRANT \<and> ri_ulUserid x = u)"
    by (simp_all add: granted_def)
qed

lemma acl_rights_bits:
  "bit (fst (acl_rights acl ids)) n \<longleftrightarrow>
     (\<exists>x \<in> set acl. ri_ulType x = ACCESS_TYPE_GRANT \<and> ri_ulUserid x \<in> set ids \<and> bit (ri_ulRights x) n)"
  "snd (acl_rights acl ids) \<longleftrightarrow> (\<exists>x \<in> set acl. ri_ulType x = ACCESS_TYPE_GRANT \<and> ri_ulUserid x \<in> set ids)"
proof -
  let ?f = "\<lambda>u (m, f). case granted acl u of (m', f') \<Rightarrow> (m OR m', f \<or> f')"
  have "(bit (fst (fold ?f ids (m, f))) n \<longleftrightarrow> bit m n \<or> (\<exists>u \<in> set ids. bit (fst (granted acl u)) n)) \<and>
    (snd (fold ?f ids (m, f)) \<longleftrightarrow> f \<or> (\<exists>u \<in> set ids. snd (granted acl u)))" for m f
    by (induction ids arbitrary: m f) (auto simp: bit_or_iff case_prod_beta)
  from this[of 0 False] show "bit (fst (acl_rights acl ids)) n \<longleftrightarrow>
     (\<exists>x \<in> set acl. ri_ulType x = ACCESS_TYPE_GRANT \<and> ri_ulUserid x \<in> set ids \<and> bit (ri_ulRights x) n)"
    "snd (acl_rights acl ids) \<longleftrightarrow> (\<exists>x \<in> set acl. ri_ulType x = ACCESS_TYPE_GRANT \<and> ri_ulUserid x \<in> set ids)"
    unfolding acl_rights_def by (auto simp: granted_bits)
qed

lemma level_bits:
  "bit (fst (level_rights e ids i)) n \<longleftrightarrow> (\<exists>x \<in> grants e (set ids) i. bit (ri_ulRights x) n)"
  "snd (level_rights e ids i) \<longleftrightarrow> grants e (set ids) i \<noteq> {}"
  by (auto simp: level_rights_def grants_def acl_rights_bits split: sum.splits)

lemma nearest_given:
  "bit (nearest_rights e ids (ancestors e k i)) n \<longleftrightarrow> gives_right e (set ids) k i n"
proof (induction k arbitrary: i)
  case 0
  show ?case
    by (auto simp: nearest_rights_def level_bits intro: gives_right.here elim: gives_rightE)
next
  case (Suc k)
  show ?case
  proof (cases "grants e (set ids) i = {}")
    case False
    then show ?thesis
      by (auto simp: nearest_rights_def level_bits intro: gives_right.here elim: gives_rightE)
  next
    case True
    then have g: "gives_right e (set ids) (Suc k) i n \<longleftrightarrow> (\<exists>p. se_parent e i = Inr p \<and> gives_right e (set ids) k p n)"
      by (auto intro: gives_right.above elim: gives_rightE)
    have nr: "nearest_rights e ids (i # xs) = nearest_rights e ids xs" for xs
      using True by (simp add: nearest_rights_def level_bits)
    have "\<not> bit (nearest_rights e ids []) n" by (simp add: nearest_rights_def)
    then show ?thesis using Suc.IH by (cases "se_parent e i") (simp_all add: nr g)
  qed
qed

lemma acl_mask_given:
  assumes "honest e" "same_session e s s'" "m_lpGroups s' = m_lpGroups s"
  shows "bit (acl_mask e s' i) n \<longleftrightarrow> gives_right e (my_ids e s) 64 i n"
  using nearest_given[of e "acl_ids s' (groups_of e s')" MAX_PARENT_LIMIT i n] acl_ids_my[OF assms]
  by (simp add: acl_mask_def MAX_PARENT_LIMIT_def)

subsection \<open>The question for administrators\<close>

definition kept :: "sec_env \<Rightarrow> security \<Rightarrow> security \<Rightarrow> bool" where
  "kept e s s' \<longleftrightarrow> same_session e s s' \<and> m_lpGroups s' = m_lpGroups s \<and> m_lpAdminCompanies s' = m_lpAdminCompanies s"

lemma kept_trans: "kept e s s' \<Longrightarrow> kept e s' s'' \<Longrightarrow> kept e s s''"
  using same_session_trans by (auto simp: kept_def)

lemma kept_visible: "kept e s (snd (IsUserObjectVisible e s u))"
proof -
  obtain r t where v: "view_companies e s = (r, t)" by fastforce
  then have "m_lpGroups t = m_lpGroups s" "m_lpAdminCompanies t = m_lpAdminCompanies s"
    by (auto simp: view_companies_def split: option.splits sum.splits)
  then have "m_lpGroups (snd (IsUserObjectVisible e s u)) = m_lpGroups s \<and>
      m_lpAdminCompanies (snd (IsUserObjectVisible e s u)) = m_lpAdminCompanies s"
    using v by (auto simp: IsUserObjectVisible_def Let_def split: sum.splits)
  then show ?thesis using same_session_visible by (simp add: kept_def)
qed

lemma visible_only_spec:
  "fst (visible_only e s cs) = filter (\<lambda>c. visible_id e s (lo_ulId c)) cs \<and> kept e s (snd (visible_only e s cs))"
proof (induction cs arbitrary: s)
  case (Cons c cs)
  let ?s = "snd (IsUserObjectVisible e s (lo_ulId c))"
  have k: "kept e s ?s" by (rule kept_visible)
  then have "visible_id e ?s u = visible_id e s u" for u by (intro visible_id_same) (simp add: kept_def)
  then show ?case using Cons.IH[of ?s] kept_trans[OF k]
    by (auto simp: Let_def case_prod_beta visible_id_def)
qed (simp add: kept_def)

lemma view_companies_admin [simp]:
  "fst (view_companies e (s\<lparr>m_lpAdminCompanies := x\<rparr>)) = fst (view_companies e s)"
proof -
  have "GetViewableCompanies e (s\<lparr>m_lpAdminCompanies := x\<rparr>) fl = GetViewableCompanies e s fl" for fl
    by (simp add: GetViewableCompanies_def Let_def split: sum.split)
  then show ?thesis by (simp add: view_companies_def split: option.splits sum.splits)
qed

lemma admin_companies_managed:
  assumes "honest e" "ud_admin (m_details s) \<noteq> ADMIN_LEVEL_SYSADMIN"
  obtains er s' where "admin_companies e s = (Inl er, s')" "er \<noteq> erSuccess" "managed e s = {}"
      "same_session e s s'" "m_lpGroups s' = m_lpGroups s"
    | l s' where "admin_companies e s = (Inr l, s')" "lo_ulId ` set l = managed e s"
      "same_session e s s'" "m_lpGroups s' = m_lpGroups s"
proof (cases "m_lpAdminCompanies s")
  case (Some l)
  then show thesis using that(2)[of l s] by (simp add: admin_companies_def managed_def)
next
  case None
  note none = this
  show thesis
  proof (cases "se_parents e OBJECTRELATION_COMPANY_ADMIN (m_ulUserID s) USERMANAGEMENT_IDS_ONLY")
    case (Inl er)
    then have "er \<noteq> erSuccess" using assms(1) by (auto simp: honest_def)
    then show thesis using that(1)[of er s] none Inl assms(2)
      by (simp add: admin_companies_def managed_def GetAdminCompanies_def)
  next
    case (Inr cs)
    obtain l t where v: "visible_only e s cs = (l, t)" by fastforce
    with visible_only_spec[of e s cs] have l: "l = filter (\<lambda>c. sees e s (lo_ulId c)) cs" "kept e s t"
      by (simp_all add: visible_sees[OF assms(1)])
    have "lo_ulId ` set l = managed e s" using l(1) none Inr by (auto simp: managed_def)
    moreover have "admin_companies e s = (Inr l, t\<lparr>m_lpAdminCompanies := Some l\<rparr>)"
      using none Inr assms(2) v by (simp add: admin_companies_def GetAdminCompanies_def)
    ultimately show thesis using that(2) l(2) by (simp add: kept_def same_session_def)
  qed
qed

lemma admin_over_user:
  assumes "honest e"
  obtains er s' where "IsAdminOverUserObject e s u = (er, s')" "same_session e s s'" "m_lpGroups s' = m_lpGroups s"
    "er = erSuccess \<longleftrightarrow> (if \<not> se_hosted e then ud_admin (m_details s) \<noteq> 0
      else ud_admin (m_details s) = ADMIN_LEVEL_SYSADMIN \<or>
        (\<exists>c. company_of e u c \<and>
           (if c = m_ulCompanyID s then ud_admin (m_details s) \<noteq> 0 else c \<in> managed e s)))"
proof (cases "\<not> se_hosted e \<or> ud_admin (m_details s) = ADMIN_LEVEL_SYSADMIN")
  case True
  then have "\<exists>er. IsAdminOverUserObject e s u = (er, s) \<and> (er = erSuccess \<longleftrightarrow> (if \<not> se_hosted e then ud_admin (m_details s) \<noteq> 0
      else ud_admin (m_details s) = ADMIN_LEVEL_SYSADMIN \<or>
        (\<exists>c. company_of e u c \<and>
           (if c = m_ulCompanyID s then ud_admin (m_details s) \<noteq> 0 else c \<in> managed e s))))"
    by (auto simp: IsAdminOverUserObject_def)
  then show thesis using that[OF _ same_session_refl refl] by blast
next
  case False
  note f = this
  show thesis
  proof (cases "se_extern e u")
    case (Inl er)
    then have "er \<noteq> erSuccess" using assms by (auto simp: honest_def)
    then show thesis using that[of er s] f Inl by (simp add: IsAdminOverUserObject_def company_of_def)
  next
    case (Inr p)
    obtain cls co where p: "p = (cls, co)" by fastforce
    define c where "c = (if cls = CONTAINER_COMPANY then u else co)"
    have co: "company_of e u c' \<longleftrightarrow> c' = c" for c' using Inr p by (simp add: company_of_def c_def)
    show thesis
    proof (cases "m_ulCompanyID s = c")
      case True
      then show thesis using that[of _ s] f Inr p by (auto simp: IsAdminOverUserObject_def co Let_def c_def[symmetric])
    next
      case False
      have a: "ud_admin (m_details s) \<noteq> ADMIN_LEVEL_SYSADMIN" using f by simp
      show thesis
      proof (cases rule: admin_companies_managed[OF assms a])
        case (1 er s')
        then show thesis using that[of er s'] f Inr p False
          by (auto simp: IsAdminOverUserObject_def co Let_def c_def[symmetric])
      next
        case (2 l s')
        then show thesis
          using that[of "if c \<in> managed e s then erSuccess else ZARAFA_E_NO_ACCESS" s'] f Inr p False
          by (auto simp: IsAdminOverUserObject_def co Let_def c_def[symmetric])
      qed
    qed
  qed
qed

lemma admin_question:
  assumes "honest e"
  obtains er s' where "IsAdminOverOwnerOfObject e s i = (er, s')" "same_session e s s'" "m_lpGroups s' = m_lpGroups s"
    "er = erSuccess \<longleftrightarrow> administers e s i"
proof (cases "\<exists>st ow. se_store e i = Inr st \<and> se_owner e (st_ulStore st) = Inr ow")
  case False
  have h: "se_store e i \<noteq> Inl erSuccess" using assms by (simp add: honest_def)
  then have "\<exists>er. GetStoreOwner e i = Inl er \<and> er \<noteq> erSuccess"
    using False by (cases "se_store e i"; cases "se_owner e (st_ulStore (projr (se_store e i)))")
      (auto simp: GetStoreOwner_def GetStoreOwnerAndType_def GetOwner_def)
  then show thesis using that[of _ s] False by (auto simp: IsAdminOverOwnerOfObject_def administers_def)
next
  case True
  then obtain st ow where st: "se_store e i = Inr st" "se_owner e (st_ulStore st) = Inr ow" by blast
  then have "GetStoreOwner e i = Inr ow" by (simp add: GetStoreOwner_def GetStoreOwnerAndType_def GetOwner_def)
  then show thesis using st that by (rule_tac admin_over_user[OF assms, of s ow]) (auto simp: IsAdminOverOwnerOfObject_def administers_def)
qed

subsection \<open>The decision\<close>

lemma mask_bits:
  "(x AND ecRightsReadAny \<noteq> 0) = bit x 0" "(x AND ecRightsCreate \<noteq> 0) = bit x 1"
  "(x AND ecRightsEditOwned \<noteq> 0) = bit x 3" "(x AND ecRightsDeleteOwned \<noteq> 0) = bit x 4"
  "(x AND ecRightsEditAny \<noteq> 0) = bit x 5" "(x AND ecRightsDeleteAny \<noteq> 0) = bit x 6"
  "(x AND ecRightsCreateSubfolder \<noteq> 0) = bit x 7" "(x AND ecRightsFolderAccess \<noteq> 0) = bit x 8"
  "(x AND ecRightsFolderVisible \<noteq> 0) = bit x 10"
  using and_power[of x 0] and_power[of x 1] and_power[of x 3] and_power[of x 4] and_power[of x 5] and_power[of x 6]
    and_power[of x 7] and_power[of x 8] and_power[of x 10]
  by (simp_all add: ecRights_defs)

lemma mask_or: "x AND (m OR k) \<noteq> 0 \<longleftrightarrow> x AND m \<noteq> 0 \<or> x AND k \<noteq> (0 :: u32)"
  by (simp add: bit.conj_disj_distrib or_eq_0_iff)

lemma mask_nonzero:
  "ecRightsReadAny \<noteq> 0" "ecRightsCreate \<noteq> 0" "ecRightsEditAny \<noteq> 0" "ecRightsDeleteAny \<noteq> 0"
  "ecRightsCreateSubfolder \<noteq> 0" "ecRightsFolderAccess \<noteq> 0" "ecRightsFolderVisible \<noteq> 0"
  "ecRightsEditAny OR ecRightsEditOwned \<noteq> 0" "ecRightsDeleteAny OR ecRightsDeleteOwned \<noteq> 0"
  by (simp_all add: ecRights_defs)

lemma owner_found_owns: "owner_found e s i \<longleftrightarrow> owns e s i"
  by (auto simp: owner_found_def owns_def GetOwner_def split: sum.splits)

lemma store_type: "snd (snd (GetStoreOwnerAndType e i)) = ECSTORE_TYPE_ARCHIVE \<longleftrightarrow> in_archive e i"
  by (auto simp: GetStoreOwnerAndType_def in_archive_def ECSTORE_TYPE_ARCHIVE_def split: sum.splits)

lemma store_owner_owns:
  assumes "honest e"
  shows "store_owner_allows s (GetStoreOwnerAndType e i) right \<longleftrightarrow>
    owns_store e s i \<and> (in_archive e i \<longrightarrow> right \<in> {ecSecurityRead, ecSecurityFolderVisible})"
proof -
  have "se_store e i \<noteq> Inl erSuccess" using assms by (simp add: honest_def)
  then show ?thesis
    by (auto simp: store_owner_allows_def GetStoreOwnerAndType_def GetOwner_def owns_store_def in_archive_def
        split: sum.splits)
qed

inductive_simps may_iff: "may e s i right"

lemma granted_may:
  assumes "honest e" "\<not> (right \<in> {ecSecurityRead, ecSecurityFolderVisible} \<and> open_to_all e i)"
  shows "allowed_by_owner e s i right \<or> allowed_by_admin e s i right \<or> allowed_by_check e s i right \<longleftrightarrow> may e s i right"
proof -
  obtain er s' where q: "IsAdminOverOwnerOfObject e s i = (er, s')" "same_session e s s'" "m_lpGroups s' = m_lpGroups s"
    "er = erSuccess \<longleftrightarrow> administers e s i" by (rule admin_question[OF assms(1), of s i])
  note m = acl_mask_given[OF assms(1) q(2,3)]
  have adm: "allowed_by_admin e s i right \<longleftrightarrow> administers e s i \<and> (\<not> m_bRestrictedAdmin s \<or>
      right \<in> {ecSecurityFolderVisible, ecSecurityFolderAccess, ecSecurityCreateFolder})"
    using q(1,4) by (auto simp: allowed_by_admin_def admin_allows_def)
  have own: "allowed_by_owner e s i right \<longleftrightarrow>
      owns_store e s i \<and> (in_archive e i \<longrightarrow> right \<in> {ecSecurityRead, ecSecurityFolderVisible}) \<or>
      owns e s i \<and> (right \<in> {ecSecurityRead, ecSecurityFolderVisible} \<or> \<not> in_archive e i \<and> right = ecSecurityCreate)"
    unfolding allowed_by_owner_def store_owner_owns[OF assms(1)] owner_found_owns object_owner_allows_def store_type
    by auto
  let ?rest = "case check_type_of right (owns e s i) (snd (snd (GetStoreOwnerAndType e i))) of
        CheckACL m \<Rightarrow> m = 0 \<or> acl_mask e s' i AND m \<noteq> 0
      | CheckOwner \<Rightarrow> owns e s i | CheckAdmin \<Rightarrow> True | NoCheck \<Rightarrow> False"
  have chk: "allowed_by_check e s i right \<longleftrightarrow> ?rest"
    unfolding allowed_by_check_def q(1) owner_found_owns by (simp add: Let_def)
  show ?thesis
    using assms(2) unfolding own adm chk check_type_of_def may_iff store_type
    by (auto simp: mask_bits mask_or mask_nonzero m ecSecurity_defs)
qed

lemma deleted_loop_iff:
  assumes "honest e" "d \<le> MAX_PARENT_LIMIT"
  shows "deleted_loop e i d = erSuccess \<longleftrightarrow>
    list_all undeleted (parent_chain e (MAX_PARENT_LIMIT - d) i) \<and>
    d + length (parent_chain e (MAX_PARENT_LIMIT - d) i) \<noteq> MAX_PARENT_LIMIT"
  using assms(2)
proof (induction "MAX_PARENT_LIMIT - d" arbitrary: d i)
  case 0
  have "se_object e i \<noteq> Inl erSuccess" using assms(1) by (simp add: honest_def)
  then show ?case using 0
    by (auto simp: deleted_loop.simps[of e i] undeleted_def split: sum.splits)
next
  case (Suc n)
  have m: "n = MAX_PARENT_LIMIT - Suc d" "Suc d \<le> MAX_PARENT_LIMIT" using Suc.hyps(2) by linarith+
  have "se_object e i \<noteq> Inl erSuccess" using assms(1) by (simp add: honest_def)
  then show ?case unfolding Suc.hyps(2)[symmetric]
    using Suc.hyps(1)[OF m] m
    by (cases "se_object e i") (auto simp: deleted_loop.simps[of e i] undeleted_def)
qed

lemma CheckDeletedParent_iff: "honest e \<Longrightarrow> CheckDeletedParent e i = erSuccess \<longleftrightarrow> not_deleted e i"
  using deleted_loop_iff[of e 0 i] by (simp add: CheckDeletedParent_def not_deleted_def MAX_PARENT_LIMIT_def)

lemma shortcut_open:
  assumes "honest e"
  shows "(case open_shortcut e i right of
      None \<Rightarrow> right \<in> {ecSecurityRead, ecSecurityFolderVisible} \<longrightarrow> can_be_read e i \<and> \<not> open_to_all e i
    | Some er \<Rightarrow> right \<in> {ecSecurityRead, ecSecurityFolderVisible} \<and>
        (if er = erSuccess then can_be_read e i \<and> open_to_all e i else \<not> can_be_read e i))"
proof -
  have h: "se_object e j \<noteq> Inl erSuccess" for j using assms by (simp add: honest_def)
  show ?thesis
  proof (cases "se_object e i")
    case (Inl er)
    then show ?thesis using h[of i] by (auto simp: open_shortcut_def can_be_read_def)
  next
    case (Inr ob)
    show ?thesis
    proof (cases "se_object e (ob_ulParent ob)")
      case (Inl er)
      then show ?thesis using Inr h[of "ob_ulParent ob"] by (auto simp: open_shortcut_def can_be_read_def open_to_all_def)
    next
      case (Inr par)
      then show ?thesis using \<open>se_object e i = Inr ob\<close>
        by (auto simp: open_shortcut_def can_be_read_def open_to_all_def)
    qed
  qed
qed

lemma decide_may:
  assumes "honest e"
  obtains er s' where "decide_permission e s i right = Some (er, s')"
    "er = erSuccess \<longleftrightarrow> m_ulUserID s = ZARAFA_UID_SYSTEM \<or>
      (right \<in> {ecSecurityRead, ecSecurityFolderVisible} \<longrightarrow> can_be_read e i) \<and> may e s i right"
proof (cases "m_ulUserID s = ZARAFA_UID_SYSTEM")
  case True
  then show thesis using that by (simp add: decide_permission_def)
next
  case False
  note sc = shortcut_open[OF assms, where i = i and right = right]
  show thesis
  proof (cases "open_shortcut e i right")
    case None
    obtain er s' where "decide_permission e s i right = Some (er, s')"
      "er = erSuccess \<longleftrightarrow> allowed_by_owner e s i right \<or> allowed_by_admin e s i right \<or> allowed_by_check e s i right"
      using decide_permission_grounds[OF False None] by blast
    moreover have "\<not> (right \<in> {ecSecurityRead, ecSecurityFolderVisible} \<and> open_to_all e i)" using sc None by auto
    ultimately show thesis using that[of er s'] granted_may[OF assms, of right i s] sc None False by auto
  next
    case (Some er)
    then have "er = erSuccess \<longleftrightarrow> can_be_read e i \<and> may e s i right"
      using sc by (auto intro: may.open_object split: if_splits)
    then show thesis using that[of er s] Some False sc by (auto simp: decide_permission_def)
  qed
qed

subsection \<open>Properties\<close>


text \<open>
  Object 3 belongs to user 6, in the store of user 5; the access list of its folder lets user 6 read. So the user may
  create in it and enter it, and may not delete in it.
\<close>

lemma demo_grants:
  "grants demo_env ids 3 = {}"
  "grants demo_env (my_ids demo_env demo_session) 2 = {\<lparr>ri_ulUserid = 6, ri_ulType = 2, ri_ulRights = 1\<rparr>}"
  "se_parent demo_env 3 = Inr 2"
  by (auto simp: grants_def my_ids_def demo_defs read_acl_def demo_db_def ACCESS_TYPE_GRANT_def parent_of_def
      read_object_def demo_rows_def CACHE_NO_PARENT_def)

lemma demo_given: "gives_right demo_env (my_ids demo_env demo_session) 64 3 n \<longleftrightarrow> n = 0"
proof -
  let ?ids = "my_ids demo_env demo_session"
  have "gives_right demo_env ?ids (Suc 63) 3 n \<longleftrightarrow> gives_right demo_env ?ids 63 2 n"
    by (subst gives_right.simps) (simp add: demo_grants)
  also have "\<dots> \<longleftrightarrow> bit (1 :: u32) n"
    by (subst gives_right.simps) (simp add: demo_grants)
  finally show ?thesis by (simp add: bit_1_iff)
qed

lemma demo_honest: "honest demo_env"
proof -
  have "store_of demo_db n j \<noteq> Inl erSuccess" for n j
    by (induction n arbitrary: j) (auto simp: read_store_def demo_db_def split: sum.splits)
  then show ?thesis by (simp add: honest_def demo_env_def with_database_def demo_details_def) (simp add: read_object_def demo_db_def demo_rows_def)
qed


end
