(* ===== verification/Memory.thy ===== *)
theory Memory
  imports Zcp_Prelude
begin

text \<open>
  Accesses to an area of memory that a program has got, as a list of its cells. An access outside the area is
  \<^const>\<open>None\<close>, so a model that makes its accesses with these functions has a value only where the code stays
  inside.
\<close>

definition mem_load :: "'a list \<Rightarrow> nat \<Rightarrow> 'a option" where
  "mem_load m i = (if i < length m then Some (m ! i) else None)"

definition mem_store :: "'a list \<Rightarrow> nat \<Rightarrow> 'a \<Rightarrow> 'a list option" where
  "mem_store m i x = (if i < length m then Some (m[i := x]) else None)"

text \<open>\<open>n\<close> cells from \<open>i\<close>, and \<open>memcpy\<close> of all of \<open>xs\<close> to \<open>i\<close>.\<close>

definition mem_read :: "'a list \<Rightarrow> nat \<Rightarrow> nat \<Rightarrow> 'a list option" where
  "mem_read m i n = (if i + n \<le> length m then Some (take n (drop i m)) else None)"

definition mem_write :: "'a list \<Rightarrow> nat \<Rightarrow> 'a list \<Rightarrow> 'a list option" where
  "mem_write m i xs = (if i + length xs \<le> length m then Some (take i m @ xs @ drop (i + length xs) m) else None)"

lemma mem_load_inside [simp]: "i < length m \<Longrightarrow> mem_load m i = Some (m ! i)"
  by (simp add: mem_load_def)

lemma mem_store_inside [simp]: "i < length m \<Longrightarrow> mem_store m i x = Some (m[i := x])"
  by (simp add: mem_store_def)

lemma mem_read_inside [simp]: "i + n \<le> length m \<Longrightarrow> mem_read m i n = Some (take n (drop i m))"
  by (simp add: mem_read_def)

lemma mem_write_inside [simp]:
  "i + length xs \<le> length m \<Longrightarrow> mem_write m i xs = Some (take i m @ xs @ drop (i + length xs) m)"
  by (simp add: mem_write_def)

lemma mem_outside [simp]:
  "length m \<le> i \<Longrightarrow> mem_load m i = None"
  "length m \<le> i \<Longrightarrow> mem_store m i x = None"
  "length m < i + n \<Longrightarrow> mem_read m i n = None"
  "length m < i + length xs \<Longrightarrow> mem_write m i xs = None"
  by (simp_all add: mem_load_def mem_store_def mem_read_def mem_write_def)

lemma mem_read_append [simp]: "mem_read (xs @ ys @ zs) (length xs) (length ys) = Some ys"
  by (simp add: mem_read_def)

end
