(* ===== verification/Recurrence_State.thy ===== *)
theory Recurrence_State
  imports Memory
begin

text \<open>
  The recurrence blob of \<^verbatim>\<open>m4lcommon/RecurrenceState.cpp\<close>: its reader and writer of little-endian
  fields, \<open>ParseBlob\<close> and \<open>GetBlob\<close>. A read that runs out of data stops the parser with what it
  has stored so far, so a parser step maps a state to a state and says whether it succeeded.
  Character set conversions are parameters. The cursor and the length are \<open>unsigned int\<close>, the accesses
  those of \<open>Memory\<close>; one out of range is \<^const>\<open>None\<close>.
\<close>

subsection \<open>State\<close>

type_synonym bytes = "u8 list"

record rexception =
  ex_ulStartDateTime :: u32
  ex_ulEndDateTime :: u32
  ex_ulOriginalStartDate :: u32
  ex_ulOverrideFlags :: u32
  ex_strSubject :: bytes
  ex_ulApptStateFlags :: u32
  ex_ulReminderDelta :: u32
  ex_ulReminderSet :: u32
  ex_strLocation :: bytes
  ex_ulBusyStatus :: u32
  ex_ulAttachment :: u32
  ex_ulSubType :: u32
  ex_ulAppointmentColor :: u32

record extexception =
  xx_ulChangeHighlightValue :: u32
  xx_strReserved :: bytes
  xx_strReservedBlock1 :: bytes
  xx_ulStartDateTime :: u32
  xx_ulEndDateTime :: u32
  xx_ulOriginalStartDate :: u32
  xx_strWideCharSubject :: "nat list"
  xx_strWideCharLocation :: "nat list"
  xx_strReservedBlock2 :: bytes

record recurrence_state =
  ulReaderVersion :: u32
  ulWriterVersion :: u32
  ulRecurFrequency :: u32
  ulPatternType :: u32
  ulCalendarType :: u32
  ulFirstDateTime :: u32
  ulPeriod :: u32
  ulSlidingFlag :: u32
  ulWeekDays :: u32
  ulDayOfMonth :: u32
  ulWeekNumber :: u32
  ulEndType :: u32
  ulOccurrenceCount :: u32
  ulFirstDOW :: u32
  ulDeletedInstanceCount :: u32
  lstDeletedInstanceDates :: "u32 list"
  ulModifiedInstanceCount :: u32
  lstModifiedInstanceDates :: "u32 list"
  ulStartDate :: u32
  ulEndDate :: u32
  ulReaderVersion2 :: u32
  ulWriterVersion2 :: u32
  ulStartTimeOffset :: u32
  ulEndTimeOffset :: u32
  ulExceptionCount :: u32
  lstExceptions :: "rexception list"
  strReservedBlock1 :: bytes
  lstExtendedExceptions :: "extexception list"
  strReservedBlock2 :: bytes

text \<open>The constructor; \<open>ulEndDate\<close> is not set there, its value is the argument.\<close>

definition new_RecurrenceState :: "u32 \<Rightarrow> recurrence_state" where
  "new_RecurrenceState enddate =
     \<lparr>ulReaderVersion = 0x3004, ulWriterVersion = 0x3004, ulRecurFrequency = 0, ulPatternType = 0,
      ulCalendarType = 0, ulFirstDateTime = 0, ulPeriod = 0, ulSlidingFlag = 0, ulWeekDays = 0,
      ulDayOfMonth = 0, ulWeekNumber = 0, ulEndType = 0, ulOccurrenceCount = 0, ulFirstDOW = 1,
      ulDeletedInstanceCount = 0, lstDeletedInstanceDates = [], ulModifiedInstanceCount = 0,
      lstModifiedInstanceDates = [], ulStartDate = 0, ulEndDate = enddate,
      ulReaderVersion2 = 0x3006, ulWriterVersion2 = 0x3008, ulStartTimeOffset = 0,
      ulEndTimeOffset = 0, ulExceptionCount = 0, lstExceptions = [], strReservedBlock1 = [],
      lstExtendedExceptions = [], strReservedBlock2 = []\<rparr>"

definition ARO_SUBJECT :: u32 where "ARO_SUBJECT = 0x0001"
definition ARO_MEETINGTYPE :: u32 where "ARO_MEETINGTYPE = 0x0002"
definition ARO_REMINDERDELTA :: u32 where "ARO_REMINDERDELTA = 0x0004"
definition ARO_REMINDERSET :: u32 where "ARO_REMINDERSET = 0x0008"
definition ARO_LOCATION :: u32 where "ARO_LOCATION = 0x0010"
definition ARO_BUSYSTATUS :: u32 where "ARO_BUSYSTATUS = 0x0020"
definition ARO_ATTACHMENT :: u32 where "ARO_ATTACHMENT = 0x0040"
definition ARO_SUBTYPE :: u32 where "ARO_SUBTYPE = 0x0080"
definition ARO_APPTCOLOR :: u32 where "ARO_APPTCOLOR = 0x0100"
definition RECURRENCE_STATE_TASKS :: u32 where "RECURRENCE_STATE_TASKS = 0x02"

text \<open>
  The conversions, and what an exception holds before its fields are read (local variables
  without initial values).
\<close>

record rs_env =
  cv_ucs2 :: "bytes \<Rightarrow> nat list"          \<comment> \<open>\<open>TryConvert\<close> from UCS-2LE\<close>
  cv_1252 :: "bytes \<Rightarrow> nat list"          \<comment> \<open>\<open>TryConvert\<close> from windows-1252\<close>
  cv_utf16 :: "nat list \<Rightarrow> u16 list"      \<comment> \<open>\<open>convert_to<utf16string>\<close>\<close>
  raw_exception :: rexception
  raw_extexception :: extexception

subsection \<open>Little-endian fields\<close>

definition put16 :: "u32 \<Rightarrow> bytes" where
  "put16 x = [ucast x, ucast (drop_bit 8 x)]"

definition put32 :: "u32 \<Rightarrow> bytes" where
  "put32 x = [ucast x, ucast (drop_bit 8 x), ucast (drop_bit 16 x), ucast (drop_bit 24 x)]"

definition get16 :: "u8 \<Rightarrow> u8 \<Rightarrow> u32" where
  "get16 a b = ucast a OR push_bit 8 (ucast b)"

definition get32 :: "u8 \<Rightarrow> u8 \<Rightarrow> u8 \<Rightarrow> u8 \<Rightarrow> u32" where
  "get32 a b c d = ucast a OR push_bit 8 (ucast b) OR push_bit 16 (ucast c) OR push_bit 24 (ucast d)"

subsection \<open>The reader\<close>

text \<open>The reader with its data, the object, the exceptions being read.\<close>

record pstate =
  m_lpData :: bytes
  m_ulLen :: u32
  m_ulCursor :: u32
  p_rs :: recurrence_state
  p_ex :: rexception
  p_xx :: extexception

text \<open>A parser step: whether it succeeded, and the state it leaves.\<close>

type_synonym rstep = "pstate \<Rightarrow> (bool \<times> pstate) option"

definition pure_step :: "(pstate \<Rightarrow> pstate) \<Rightarrow> rstep" where
  "pure_step f s = Some (True, f s)"

text \<open>A read, and what the block does with the value; and a read into a field.\<close>

definition short_then :: "(u32 \<Rightarrow> rstep) \<Rightarrow> rstep" where
  "short_then k s =
     (if m_ulCursor s + 2 > m_ulLen s then Some (False, s)
      else do {
        b \<leftarrow> mem_read (m_lpData s) (unat (m_ulCursor s)) 2;
        k (get16 (b ! 0) (b ! 1)) (s\<lparr>m_ulCursor := m_ulCursor s + 2\<rparr>)
      })"

definition ReadShort :: "(u32 \<Rightarrow> pstate \<Rightarrow> pstate) \<Rightarrow> rstep" where
  "ReadShort upd = short_then (\<lambda>x. pure_step (upd x))"

definition long_then :: "(u32 \<Rightarrow> rstep) \<Rightarrow> rstep" where
  "long_then k s =
     (if m_ulCursor s + 4 > m_ulLen s then Some (False, s)
      else do {
        b \<leftarrow> mem_read (m_lpData s) (unat (m_ulCursor s)) 4;
        k (get32 (b ! 0) (b ! 1) (b ! 2) (b ! 3)) (s\<lparr>m_ulCursor := m_ulCursor s + 4\<rparr>)
      })"

definition ReadLong :: "(u32 \<Rightarrow> pstate \<Rightarrow> pstate) \<Rightarrow> rstep" where
  "ReadLong upd = long_then (\<lambda>x. pure_step (upd x))"

text \<open>
  A short string is stored and skipped before the failure is reported. The result is an \<open>int\<close>, negative for
  lengths from \<open>2 ^ 31\<close> on.
\<close>

definition ReadString :: "u32 \<Rightarrow> (bytes \<Rightarrow> pstate \<Rightarrow> pstate) \<Rightarrow> rstep" where
  "ReadString n upd s =
     (let reallen = (if n > m_ulLen s - m_ulCursor s then m_ulLen s - m_ulCursor s else n) in
      if m_ulCursor s + reallen > m_ulLen s then Some (False, s)
      else do {
        b \<leftarrow> mem_read (m_lpData s) (unat (m_ulCursor s)) (unat reallen);
        Some (reallen = n \<and> n < 2 ^ 31, upd b (s\<lparr>m_ulCursor := m_ulCursor s + reallen\<rparr>))
      })"

fun steps :: "rstep list \<Rightarrow> rstep" where
  "steps [] s = Some (True, s)"
| "steps (f # fs) s = do { (ok, s) \<leftarrow> f s; if ok then steps fs s else Some (False, s) }"

definition when_set :: "(pstate \<Rightarrow> bool) \<Rightarrow> rstep list \<Rightarrow> rstep" where
  "when_set c fs s = (if c s then steps fs s else Some (True, s))"

fun repeat_step :: "nat \<Rightarrow> rstep \<Rightarrow> rstep" where
  "repeat_step 0 f s = Some (True, s)"
| "repeat_step (Suc n) f s = do { (ok, s) \<leftarrow> f s; if ok then repeat_step n f s else Some (False, s) }"

definition set_rs :: "(recurrence_state \<Rightarrow> recurrence_state) \<Rightarrow> pstate \<Rightarrow> pstate" where
  "set_rs f s = s\<lparr>p_rs := f (p_rs s)\<rparr>"

definition set_ex :: "(rexception \<Rightarrow> rexception) \<Rightarrow> pstate \<Rightarrow> pstate" where
  "set_ex f s = s\<lparr>p_ex := f (p_ex s)\<rparr>"

definition set_xx :: "(extexception \<Rightarrow> extexception) \<Rightarrow> pstate \<Rightarrow> pstate" where
  "set_xx f s = s\<lparr>p_xx := f (p_xx s)\<rparr>"

subsection \<open>Parsing\<close>

text \<open>The pattern types that carry a day of the month, and those that carry week fields.\<close>

definition monthly_pattern :: "u32 \<Rightarrow> bool" where
  "monthly_pattern t \<longleftrightarrow> t = 0x2 \<or> t = 0x4 \<or> t = 0xa \<or> t = 0xc"

definition nth_pattern :: "u32 \<Rightarrow> bool" where
  "nth_pattern t \<longleftrightarrow> t = 0x3 \<or> t = 0xb"

definition parse_pattern :: rstep where
  "parse_pattern s =
     (let t = ulPatternType (p_rs s) in
      if t = 0x1 then ReadLong (\<lambda>x. set_rs (\<lambda>r. r\<lparr>ulWeekDays := x\<rparr>)) s
      else if monthly_pattern t then ReadLong (\<lambda>x. set_rs (\<lambda>r. r\<lparr>ulDayOfMonth := x\<rparr>)) s
      else if nth_pattern t then
        steps [ReadLong (\<lambda>x. set_rs (\<lambda>r. r\<lparr>ulWeekDays := x\<rparr>)),
               ReadLong (\<lambda>x. set_rs (\<lambda>r. r\<lparr>ulWeekNumber := x\<rparr>))] s
      else Some (True, s))"

definition parse_header :: rstep where
  "parse_header = steps
     [ReadShort (\<lambda>x. set_rs (\<lambda>r. r\<lparr>ulReaderVersion := x\<rparr>)),
      ReadShort (\<lambda>x. set_rs (\<lambda>r. r\<lparr>ulWriterVersion := x\<rparr>)),
      ReadShort (\<lambda>x. set_rs (\<lambda>r. r\<lparr>ulRecurFrequency := x\<rparr>)),
      ReadShort (\<lambda>x. set_rs (\<lambda>r. r\<lparr>ulPatternType := x\<rparr>)),
      ReadShort (\<lambda>x. set_rs (\<lambda>r. r\<lparr>ulCalendarType := x\<rparr>)),
      ReadLong (\<lambda>x. set_rs (\<lambda>r. r\<lparr>ulFirstDateTime := x\<rparr>)),
      ReadLong (\<lambda>x. set_rs (\<lambda>r. r\<lparr>ulPeriod := x\<rparr>)),
      ReadLong (\<lambda>x. set_rs (\<lambda>r. r\<lparr>ulSlidingFlag := x\<rparr>)),
      parse_pattern,
      ReadLong (\<lambda>x. set_rs (\<lambda>r. r\<lparr>ulEndType := x\<rparr>)),
      ReadLong (\<lambda>x. set_rs (\<lambda>r. r\<lparr>ulOccurrenceCount := x\<rparr>)),
      ReadLong (\<lambda>x. set_rs (\<lambda>r. r\<lparr>ulFirstDOW := x\<rparr>)),
      ReadLong (\<lambda>x. set_rs (\<lambda>r. r\<lparr>ulDeletedInstanceCount := x\<rparr>)),
      (\<lambda>s. repeat_step (unat (ulDeletedInstanceCount (p_rs s)))
         (ReadLong (\<lambda>x. set_rs (\<lambda>r. r\<lparr>lstDeletedInstanceDates := lstDeletedInstanceDates r @ [x]\<rparr>))) s),
      ReadLong (\<lambda>x. set_rs (\<lambda>r. r\<lparr>ulModifiedInstanceCount := x\<rparr>)),
      (\<lambda>s. repeat_step (unat (ulModifiedInstanceCount (p_rs s)))
         (ReadLong (\<lambda>x. set_rs (\<lambda>r. r\<lparr>lstModifiedInstanceDates := lstModifiedInstanceDates r @ [x]\<rparr>))) s),
      ReadLong (\<lambda>x. set_rs (\<lambda>r. r\<lparr>ulStartDate := x\<rparr>)),
      ReadLong (\<lambda>x. set_rs (\<lambda>r. r\<lparr>ulEndDate := x\<rparr>))]"

definition parse_versions :: rstep where
  "parse_versions = steps
     [ReadLong (\<lambda>x. set_rs (\<lambda>r. r\<lparr>ulReaderVersion2 := x\<rparr>)),
      ReadLong (\<lambda>x. set_rs (\<lambda>r. r\<lparr>ulWriterVersion2 := x\<rparr>)),
      ReadLong (\<lambda>x. set_rs (\<lambda>r. r\<lparr>ulStartTimeOffset := x\<rparr>)),
      ReadLong (\<lambda>x. set_rs (\<lambda>r. r\<lparr>ulEndTimeOffset := x\<rparr>)),
      ReadShort (\<lambda>x. set_rs (\<lambda>r. r\<lparr>ulExceptionCount := x\<rparr>))]"

definition has_override :: "u32 \<Rightarrow> pstate \<Rightarrow> bool" where
  "has_override f s \<longleftrightarrow> ex_ulOverrideFlags (p_ex s) AND f \<noteq> 0"

text \<open>One exception; of the two lengths of a string the second counts.\<close>

definition exception_fields :: "rs_env \<Rightarrow> rstep list" where
  "exception_fields e =
     [pure_step (\<lambda>s. s\<lparr>p_ex := raw_exception e\<rparr>),
      ReadLong (\<lambda>x. set_ex (\<lambda>r. r\<lparr>ex_ulStartDateTime := x\<rparr>)),
      ReadLong (\<lambda>x. set_ex (\<lambda>r. r\<lparr>ex_ulEndDateTime := x\<rparr>)),
      ReadLong (\<lambda>x. set_ex (\<lambda>r. r\<lparr>ex_ulOriginalStartDate := x\<rparr>)),
      ReadShort (\<lambda>x. set_ex (\<lambda>r. r\<lparr>ex_ulOverrideFlags := x\<rparr>)),
      when_set (has_override ARO_SUBJECT)
        [short_then (\<lambda>n1. short_then (\<lambda>n2.
           ReadString n2 (\<lambda>x. set_ex (\<lambda>r. r\<lparr>ex_strSubject := x\<rparr>))))],
      when_set (has_override ARO_MEETINGTYPE)
        [ReadLong (\<lambda>x. set_ex (\<lambda>r. r\<lparr>ex_ulApptStateFlags := x\<rparr>))],
      when_set (has_override ARO_REMINDERDELTA)
        [ReadLong (\<lambda>x. set_ex (\<lambda>r. r\<lparr>ex_ulReminderDelta := x\<rparr>))],
      when_set (has_override ARO_REMINDERSET)
        [ReadLong (\<lambda>x. set_ex (\<lambda>r. r\<lparr>ex_ulReminderSet := x\<rparr>))],
      when_set (has_override ARO_LOCATION)
        [short_then (\<lambda>n1. short_then (\<lambda>n2.
           ReadString n2 (\<lambda>x. set_ex (\<lambda>r. r\<lparr>ex_strLocation := x\<rparr>))))],
      when_set (has_override ARO_BUSYSTATUS)
        [ReadLong (\<lambda>x. set_ex (\<lambda>r. r\<lparr>ex_ulBusyStatus := x\<rparr>))],
      when_set (has_override ARO_ATTACHMENT)
        [ReadLong (\<lambda>x. set_ex (\<lambda>r. r\<lparr>ex_ulAttachment := x\<rparr>))],
      when_set (has_override ARO_SUBTYPE)
        [ReadLong (\<lambda>x. set_ex (\<lambda>r. r\<lparr>ex_ulSubType := x\<rparr>))],
      when_set (has_override ARO_APPTCOLOR)
        [ReadLong (\<lambda>x. set_ex (\<lambda>r. r\<lparr>ex_ulAppointmentColor := x\<rparr>))]]"

definition parse_exception :: "rs_env \<Rightarrow> rstep" where
  "parse_exception e = steps (exception_fields e @
     [pure_step (\<lambda>s. set_rs (\<lambda>r. r\<lparr>lstExceptions := lstExceptions r @ [p_ex s]\<rparr>) s)])"

definition parse_exceptions :: "rs_env \<Rightarrow> rstep" where
  "parse_exceptions e s = repeat_step (unat (ulExceptionCount (p_rs s))) (parse_exception e) s"

definition parse_reserved1 :: rstep where
  "parse_reserved1 = 
     long_then (\<lambda>n. ReadString n (\<lambda>x. set_rs (\<lambda>r. r\<lparr>strReservedBlock1 := x\<rparr>)))"

text \<open>The extended part of one exception, whose flags the argument gives.\<close>

definition extended_fields :: "rs_env \<Rightarrow> rexception \<Rightarrow> rstep list" where
  "extended_fields e ex =
     (let subj = ex_ulOverrideFlags ex AND ARO_SUBJECT \<noteq> 0;
          loc = ex_ulOverrideFlags ex AND ARO_LOCATION \<noteq> 0
      in
     [pure_step (\<lambda>s. s\<lparr>p_xx := raw_extexception e\<rparr>),
      when_set (\<lambda>s. ulWriterVersion2 (p_rs s) \<ge> 0x3009)
        [long_then (\<lambda>n. steps
           [ReadLong (\<lambda>x. set_xx (\<lambda>r. r\<lparr>xx_ulChangeHighlightValue := x\<rparr>)),
            ReadString (n - 4) (\<lambda>x. set_xx (\<lambda>r. r\<lparr>xx_strReserved := x\<rparr>))])],
      long_then (\<lambda>n. ReadString n (\<lambda>x. set_xx (\<lambda>r. r\<lparr>xx_strReservedBlock1 := x\<rparr>))),
      when_set (\<lambda>_. subj \<or> loc)
        [ReadLong (\<lambda>x. set_xx (\<lambda>r. r\<lparr>xx_ulStartDateTime := x\<rparr>)),
         ReadLong (\<lambda>x. set_xx (\<lambda>r. r\<lparr>xx_ulEndDateTime := x\<rparr>)),
         ReadLong (\<lambda>x. set_xx (\<lambda>r. r\<lparr>xx_ulOriginalStartDate := x\<rparr>))],
      when_set (\<lambda>_. subj)
        [short_then (\<lambda>n. ReadString (n * 2)
           (\<lambda>x. set_xx (\<lambda>r. r\<lparr>xx_strWideCharSubject := cv_ucs2 e x\<rparr>)))],
      when_set (\<lambda>_. loc)
        [short_then (\<lambda>n. ReadString (n * 2)
           (\<lambda>x. set_xx (\<lambda>r. r\<lparr>xx_strWideCharLocation := cv_ucs2 e x\<rparr>)))],
      when_set (\<lambda>_. subj \<or> loc)
        [long_then (\<lambda>n. ReadString n (\<lambda>x. set_xx (\<lambda>r. r\<lparr>xx_strReservedBlock2 := x\<rparr>)))]])"

definition parse_extended :: "rs_env \<Rightarrow> rexception \<Rightarrow> rstep" where
  "parse_extended e ex = steps (extended_fields e ex @
     [pure_step (\<lambda>s. set_rs (\<lambda>r. r\<lparr>lstExtendedExceptions := lstExtendedExceptions r @ [p_xx s]\<rparr>) s)])"

definition parse_extendeds :: "rs_env \<Rightarrow> rstep" where
  "parse_extendeds e s = steps (map (parse_extended e) (lstExceptions (p_rs s))) s"

definition parse_reserved2 :: rstep where
  "parse_reserved2 = 
     long_then (\<lambda>n. ReadString n (\<lambda>x. set_rs (\<lambda>r. r\<lparr>strReservedBlock2 := x\<rparr>)))"

text \<open>
  The extended exceptions made from the normal ones. The loop runs to \<open>ulExceptionCount\<close>, which
  may be beyond the list.
\<close>

definition sync_one :: "rs_env \<Rightarrow> rexception \<Rightarrow> extexception" where
  "sync_one e x =
     \<lparr>xx_ulChangeHighlightValue = 0, xx_strReserved = [], xx_strReservedBlock1 = [],
      xx_ulStartDateTime = ex_ulStartDateTime x, xx_ulEndDateTime = ex_ulEndDateTime x,
      xx_ulOriginalStartDate = ex_ulOriginalStartDate x,
      xx_strWideCharSubject = (if ex_ulOverrideFlags x AND ARO_SUBJECT \<noteq> 0 then cv_1252 e (ex_strSubject x) else []),
      xx_strWideCharLocation = (if ex_ulOverrideFlags x AND ARO_LOCATION \<noteq> 0 then cv_1252 e (ex_strLocation x) else []),
      xx_strReservedBlock2 = []\<rparr>"

definition sync_extended :: "rs_env \<Rightarrow> recurrence_state \<Rightarrow> recurrence_state option" where
  "sync_extended e r =
     (if unat (ulExceptionCount r) \<le> length (lstExceptions r)
      then Some (r\<lparr>lstExtendedExceptions :=
             map (sync_one e) (take (unat (ulExceptionCount r)) (lstExceptions r))\<rparr>)
      else None)"

text \<open>The label \<open>exit\<close>: \<open>valid\<close> is \<open>bReadValid\<close>, \<open>ext\<close> is \<open>bExtended\<close>.\<close>

definition parse_exit ::
  "rs_env \<Rightarrow> hresult \<Rightarrow> bool \<Rightarrow> bool \<Rightarrow> recurrence_state \<Rightarrow> (hresult \<times> recurrence_state) option" where
  "parse_exit e hr valid ext r =
     (if hr \<noteq> hrSuccess \<and> valid then
        (if ext then Some (MAPI_W_ERRORS_RETURNED, r)
         else map_option (Pair MAPI_W_ERRORS_RETURNED) (sync_extended e r))
      else Some (hr, r))"

definition ParseBlob ::
  "rs_env \<Rightarrow> recurrence_state \<Rightarrow> bytes \<Rightarrow> u32 \<Rightarrow> (hresult \<times> recurrence_state) option" where
  "ParseBlob e r0 blob flags =
     (let r = r0\<lparr>lstDeletedInstanceDates := [], lstModifiedInstanceDates := [],
                 lstExceptions := [], lstExtendedExceptions := []\<rparr>;
          s = \<lparr>m_lpData = blob, m_ulLen = of_nat (length blob), m_ulCursor = 0,
               p_rs = r, p_ex = raw_exception e, p_xx = raw_extexception e\<rparr>;
          task = (flags AND RECURRENCE_STATE_TASKS \<noteq> 0)
      in do {
        (ok, s) \<leftarrow> parse_header s;
        if \<not> ok then parse_exit e MAPI_E_NOT_FOUND False False (p_rs s)
        else do {
          (ok, s) \<leftarrow> steps [parse_versions, parse_exceptions e] s;
          if \<not> ok then parse_exit e MAPI_E_NOT_FOUND task False (p_rs s)
          else do {
            (ok, s) \<leftarrow> steps [parse_reserved1, parse_extendeds e] s;
            if \<not> ok then parse_exit e MAPI_E_NOT_FOUND True False (p_rs s)
            else do {
              (ok, s) \<leftarrow> parse_reserved2 s;
              if \<not> ok \<or> m_ulLen s - m_ulCursor s \<noteq> 0 then parse_exit e MAPI_E_NOT_FOUND True True (p_rs s)
              else parse_exit e hrSuccess True True (p_rs s)
            }
          }
        }
      })"

subsection \<open>Writing\<close>

definition put_pattern :: "recurrence_state \<Rightarrow> bytes" where
  "put_pattern r =
     (let t = ulPatternType r in
      if t = 0x1 then put32 (ulWeekDays r)
      else if monthly_pattern t then put32 (ulDayOfMonth r)
      else if nth_pattern t then put32 (ulWeekDays r) @ put32 (ulWeekNumber r)
      else [])"

definition put_header :: "recurrence_state \<Rightarrow> bytes" where
  "put_header r =
     put16 (ulReaderVersion r) @ put16 (ulWriterVersion r) @ put16 (ulRecurFrequency r) @
     put16 (ulPatternType r) @ put16 (ulCalendarType r) @ put32 (ulFirstDateTime r) @
     put32 (ulPeriod r) @ put32 (ulSlidingFlag r) @ put_pattern r @ put32 (ulEndType r) @
     put32 (ulOccurrenceCount r) @ put32 (ulFirstDOW r) @ put32 (ulDeletedInstanceCount r) @
     concat (map put32 (lstDeletedInstanceDates r)) @ put32 (ulModifiedInstanceCount r) @
     concat (map put32 (lstModifiedInstanceDates r)) @ put32 (ulStartDate r) @ put32 (ulEndDate r)"

definition put_versions :: "recurrence_state \<Rightarrow> bytes" where
  "put_versions r =
     put32 (ulReaderVersion2 r) @ put32 (ulWriterVersion2 r) @ put32 (ulStartTimeOffset r) @
     put32 (ulEndTimeOffset r) @ put16 (ulExceptionCount r)"

definition put_if :: "u32 \<Rightarrow> u32 \<Rightarrow> bytes \<Rightarrow> bytes" where
  "put_if flags f b = (if flags AND f \<noteq> 0 then b else [])"

definition put_str16 :: "bytes \<Rightarrow> bytes" where
  "put_str16 b = put16 (word_of_nat (length b) + 1) @ put16 (word_of_nat (length b)) @ b"

definition put_str32 :: "bytes \<Rightarrow> bytes" where
  "put_str32 b = put32 (word_of_nat (length b)) @ b"

definition put_exception :: "rexception \<Rightarrow> bytes" where
  "put_exception x =
     (let fl = ex_ulOverrideFlags x in
      put32 (ex_ulStartDateTime x) @ put32 (ex_ulEndDateTime x) @ put32 (ex_ulOriginalStartDate x) @
      put16 fl @
      put_if fl ARO_SUBJECT (put_str16 (ex_strSubject x)) @
      put_if fl ARO_MEETINGTYPE (put32 (ex_ulApptStateFlags x)) @
      put_if fl ARO_REMINDERDELTA (put32 (ex_ulReminderDelta x)) @
      put_if fl ARO_REMINDERSET (put32 (ex_ulReminderSet x)) @
      put_if fl ARO_LOCATION (put_str16 (ex_strLocation x)) @
      put_if fl ARO_BUSYSTATUS (put32 (ex_ulBusyStatus x)) @
      put_if fl ARO_ATTACHMENT (put32 (ex_ulAttachment x)) @
      put_if fl ARO_SUBTYPE (put32 (ex_ulSubType x)) @
      put_if fl ARO_APPTCOLOR (put32 (ex_ulAppointmentColor x)))"

definition put_wide :: "rs_env \<Rightarrow> nat list \<Rightarrow> bytes" where
  "put_wide e w =
     (let u = cv_utf16 e w in
      put16 (word_of_nat (length u)) @ concat (map (\<lambda>c. put16 (ucast c)) u))"

definition put_extended :: "rs_env \<Rightarrow> u32 \<Rightarrow> rexception \<Rightarrow> extexception \<Rightarrow> bytes" where
  "put_extended e wv x xx =
     (let subj = ex_ulOverrideFlags x AND ARO_SUBJECT \<noteq> 0;
          loc = ex_ulOverrideFlags x AND ARO_LOCATION \<noteq> 0
      in (if wv \<ge> 0x3009
          then put32 (word_of_nat (length (xx_strReserved xx)) + 4) @
               put32 (xx_ulChangeHighlightValue xx) @ xx_strReserved xx
          else []) @
         put_str32 (xx_strReservedBlock1 xx) @
         (if subj \<or> loc
          then put32 (xx_ulStartDateTime xx) @ put32 (xx_ulEndDateTime xx) @
               put32 (xx_ulOriginalStartDate xx)
          else []) @
         (if subj then put_wide e (xx_strWideCharSubject xx) else []) @
         (if loc then put_wide e (xx_strWideCharLocation xx) else []) @
         (if subj \<or> loc then put_str32 (xx_strReservedBlock2 xx) else []))"

definition GetBlob :: "rs_env \<Rightarrow> recurrence_state \<Rightarrow> hresult + bytes" where
  "GetBlob e r =
     (if length (lstExceptions r) \<noteq> length (lstExtendedExceptions r) then Inl MAPI_E_CORRUPT_DATA
      else Inr (put_header r @ put_versions r @ concat (map put_exception (lstExceptions r)) @
                put_str32 (strReservedBlock1 r) @
                concat (map (\<lambda>(x, xx). put_extended e (ulWriterVersion2 r) x xx)
                          (zip (lstExceptions r) (lstExtendedExceptions r))) @
                put_str32 (strReservedBlock2 r)))"

end
