(* ===== verification/Calendar.thy ===== *)
theory Calendar
  imports Zcp_Prelude "HOL-Library.Signed_Division"
begin

text \<open>
  Dates and times: the conversions between \<open>time_t\<close>, \<open>FILETIME\<close> and \<open>rtime\<close> (minutes since 1601)
  of \<^verbatim>\<open>common/platform.cpp\<close>, the time zones of \<^verbatim>\<open>common/TimeUtil.cpp\<close> and the date functions
  of \<^verbatim>\<open>libfreebusy/recurrence.cpp\<close>, over the C library's \<open>gmtime_r\<close> and \<open>timegm\<close>.

  A \<open>time_t\<close> is a mathematical integer: the 64-bit values that the code computes from 32-bit
  minutes stay far from overflow. \<open>LONG\<close> and \<open>ULONG\<close> have 32 bits and are reduced where a
  conversion can change the value.
\<close>

subsection \<open>The C library's calendar\<close>

definition leap :: "int \<Rightarrow> bool" where
  "leap y \<longleftrightarrow> (y mod 4 = 0 \<and> y mod 100 \<noteq> 0) \<or> y mod 400 = 0"

definition year_len :: "int \<Rightarrow> int" where
  "year_len y = (if leap y then 366 else 365)"

definition month_lens :: "int \<Rightarrow> int list" where
  "month_lens y = [31, if leap y then 29 else 28, 31, 30, 31, 30, 31, 31, 30, 31, 30, 31]"

text \<open>Days between 1 January 1601 and 1 January of a year.\<close>

definition days_before :: "int \<Rightarrow> int" where
  "days_before y = (let k = y - 1601 in 365 * k + k div 4 - k div 100 + k div 400)"

text \<open>The year of a day, from a guess that is off by one at most.\<close>

definition year_of :: "int \<Rightarrow> int" where
  "year_of n = (let y = 1601 + (n * 400) div 146097
     in if n < days_before y then y - 1 else if days_before (y + 1) \<le> n then y + 1 else y)"

fun month_split :: "int \<Rightarrow> int list \<Rightarrow> int \<Rightarrow> int \<times> int" where
  "month_split m [] d = (m, d)"
| "month_split m (l # ls) d = (if d < l \<or> ls = [] then (m, d) else month_split (m + 1) ls (d - l))"

definition month_day :: "int \<Rightarrow> int \<Rightarrow> int \<times> int" where
  "month_day y d = month_split 0 (month_lens y) d"

record tm =
  tm_sec :: int
  tm_min :: int
  tm_hour :: int
  tm_mday :: int
  tm_mon :: int
  tm_year :: int
  tm_wday :: int
  tm_yday :: int

text \<open>
  \<open>gmtime_safe\<close>: \<open>gmtime_r\<close>, the UTC calendar without leap seconds. 1 January 1970 was a Thursday
  and lies 134774 days after 1 January 1601.
\<close>

definition gmtime_safe :: "int \<Rightarrow> tm" where
  "gmtime_safe t =
     (let n = t div 86400; s = t mod 86400; N = n + 134774;
          y = year_of N; d = N - days_before y; (m, md) = month_day y d
      in \<lparr>tm_sec = s mod 60, tm_min = s div 60 mod 60, tm_hour = s div 3600,
          tm_mday = md + 1, tm_mon = m, tm_year = y - 1900,
          tm_wday = (n + 4) mod 7, tm_yday = d\<rparr>)"

text \<open>\<open>timegm\<close> at midnight of a day of a month: months outside 0 to 11 carry into the year.\<close>

definition timegm_day :: "int \<Rightarrow> int \<Rightarrow> int \<Rightarrow> int" where
  "timegm_day year mon mday =
     (let y = year + 1900 + mon div 12; m = nat (mon mod 12)
      in (days_before y + sum_list (take m (month_lens y)) + (mday - 1) - 134774) * 86400)"

subsection \<open>Facts about the calendar\<close>

lemma div_step:
  fixes k c :: int
  assumes "1 < c"
  shows "(k + 1) div c = k div c + (if (k + 1) mod c = 0 then 1 else 0)"
proof -
  have r: "0 \<le> k mod c" "k mod c < c" using assms by simp_all
  have "(k + 1) div c = k div c + (k mod c + 1) div c" "(k + 1) mod c = (k mod c + 1) mod c"
    using assms div_add1_eq[of k 1 c] mod_add_left_eq[of k c 1] by simp_all
  moreover have "(k mod c + 1) div c = (if (k mod c + 1) mod c = 0 then 1 else 0)"
  proof (cases "k mod c + 1 = c")
    case True
    then show ?thesis using assms by simp
  next
    case False
    then have "k mod c + 1 < c" using r by linarith
    then show ?thesis using r(1) by simp
  qed
  ultimately show ?thesis by simp
qed

lemma days_before_Suc: "days_before (y + 1) = days_before y + year_len y"
proof -
  have "y - 1600 = y + (- 400) * 4" "y - 1600 = y + (- 16) * 100" "y - 1600 = y + (- 4) * 400" by simp_all
  then have m: "(y - 1600) mod 4 = y mod 4" "(y - 1600) mod 100 = y mod 100" "(y - 1600) mod 400 = y mod 400"
    by (metis mod_mult_self1)+
  define k where "k = y - 1601"
  have s: "(k + 1) div 4 = k div 4 + (if (k + 1) mod 4 = 0 then 1 else 0)"
    "(k + 1) div 100 = k div 100 + (if (k + 1) mod 100 = 0 then 1 else 0)"
    "(k + 1) div 400 = k div 400 + (if (k + 1) mod 400 = 0 then 1 else 0)" by (rule div_step; simp)+
  have imp1: "(k + 1) mod 400 = 0 \<Longrightarrow> (k + 1) mod 100 = 0 \<and> (k + 1) mod 4 = 0"
    using dvd_trans[of 100 400 "k + 1"] dvd_trans[of 4 400 "k + 1"] by (simp add: dvd_eq_mod_eq_0)
  have imp2: "(k + 1) mod 100 = 0 \<Longrightarrow> (k + 1) mod 4 = 0"
    using dvd_trans[of 4 100 "k + 1"] by (simp add: dvd_eq_mod_eq_0)
  have "k + 1 = y - 1600" by (simp add: k_def)
  then have l: "leap y \<longleftrightarrow> ((k + 1) mod 4 = 0 \<and> (k + 1) mod 100 \<noteq> 0) \<or> (k + 1) mod 400 = 0"
    by (simp only: leap_def m)
  have "days_before (y + 1) = 365 * (k + 1) + (k + 1) div 4 - (k + 1) div 100 + (k + 1) div 400"
    by (simp add: days_before_def k_def Let_def)
  then have 1: "days_before (y + 1) = 365 * (k + 1) + (k div 4 + (if (k + 1) mod 4 = 0 then 1 else 0)) -
      (k div 100 + (if (k + 1) mod 100 = 0 then 1 else 0)) + (k div 400 + (if (k + 1) mod 400 = 0 then 1 else 0))"
    unfolding s .
  have 2: "days_before y = 365 * k + k div 4 - k div 100 + k div 400"
    by (simp add: days_before_def k_def Let_def)
  have sum: "x' = x + (if (A \<and> \<not> B) \<or> C then 366 else 365)"
    if "x' = 365 * (k + 1) + (a + (if A then 1 else 0)) - (b + (if B then 1 else 0)) + (c + (if C then 1 else 0))"
      "x = 365 * k + a - b + c" "C \<Longrightarrow> B \<and> A" "B \<Longrightarrow> A" for x x' a b c :: int and A B C
    using that by (cases A; cases B; cases C; simp)
  show ?thesis unfolding year_len_def l by (rule sum[OF 1 2]) (fact imp1, fact imp2)
qed

lemma year_len_pos: "365 \<le> year_len y" "year_len y \<le> 366"
  by (simp_all add: year_len_def)

lemma days_before_mono: "y \<le> z \<Longrightarrow> days_before y + 365 * (z - y) \<le> days_before z"
proof (induction "nat (z - y)" arbitrary: z)
  case (Suc k)
  then have "days_before y + 365 * ((z - 1) - y) \<le> days_before (z - 1)" by (intro Suc.hyps(1)) auto
  moreover have "days_before z = days_before (z - 1) + year_len (z - 1)" using days_before_Suc[of "z - 1"] by simp
  ultimately show ?case using year_len_pos(1)[of "z - 1"] by simp
qed simp

lemma div_bounds:
  fixes n c :: int
  assumes "0 < c"
  shows "c * (n div c) \<le> n" "n < c * (n div c) + c"
  using assms mult_div_mod_eq[of c n] pos_mod_bound[of c n] pos_mod_sign[of c n] by linarith+

lemma year_of_bounds: "days_before (year_of n) \<le> n \<and> n < days_before (year_of n + 1)"
proof -
  define k where "k = (n * 400) div 146097"
  define a b c where "a = k div 4" and "b = k div 100" and "c = k div 400"
  have k: "146097 * k \<le> n * 400" "n * 400 < 146097 * k + 146097"
    unfolding k_def using div_bounds[of 146097 "n * 400"] by simp_all
  have d: "days_before (1601 + k) = 365 * k + a - b + c" by (simp add: days_before_def Let_def a_def b_def c_def)
  have e: "4 * a \<le> k" "k \<le> 4 * a + 3" "100 * b \<le> k" "k \<le> 100 * b + 99" "400 * c \<le> k" "k \<le> 400 * c + 399"
    unfolding a_def b_def c_def using div_bounds[of 4 k] div_bounds[of 100 k] div_bounds[of 400 k] by simp_all
  have up: "days_before (1601 + k + 1) = days_before (1601 + k) + year_len (1601 + k)" by (rule days_before_Suc)
  have up2: "days_before (1601 + k + 1 + 1) = days_before (1601 + k + 1) + year_len (1601 + k + 1)" by (rule days_before_Suc)
  have down: "days_before (1601 + k) = days_before (1601 + k - 1) + year_len (1601 + k - 1)"
    using days_before_Suc[of "1601 + k - 1"] by simp
  have "days_before (1601 + k - 1) \<le> n" "n < days_before (1601 + k + 1 + 1)"
    using k e d up up2 down year_len_pos[of "1601 + k"] year_len_pos[of "1601 + k + 1"] year_len_pos[of "1601 + k - 1"]
    by linarith+
  then show ?thesis unfolding year_of_def Let_def k_def[symmetric] by (auto simp: algebra_simps)
qed

lemma year_of_unique: "days_before y \<le> n \<Longrightarrow> n < days_before (y + 1) \<Longrightarrow> year_of n = y"
proof (rule ccontr)
  assume a: "days_before y \<le> n" "n < days_before (y + 1)" "year_of n \<noteq> y"
  then consider "year_of n + 1 \<le> y" | "y + 1 \<le> year_of n" by linarith
  then show False
  proof cases
    case 1
    from days_before_mono[OF this] 1 have "days_before (year_of n + 1) \<le> days_before y" by simp
    then show False using year_of_bounds[of n] a(1) by simp
  next
    case 2
    from days_before_mono[OF this] 2 have "days_before (y + 1) \<le> days_before (year_of n)" by simp
    then show False using year_of_bounds[of n] a(2) by simp
  qed
qed

lemma month_split_spec:
  assumes "0 \<le> d" "d < sum_list ls" "\<forall>l \<in> set ls. 0 < l"
  shows "\<exists>i r. month_split m ls d = (m + int i, r) \<and> i < length ls \<and> 0 \<le> r \<and> r < ls ! i \<and> d = sum_list (take i ls) + r"
  using assms
proof (induction ls arbitrary: m d)
  case (Cons l ls)
  show ?case
  proof (cases "d < l \<or> ls = []")
    case True
    then have "d < l" using Cons.prems(2) by auto
    then show ?thesis using Cons.prems(1) by (intro exI[of _ 0] exI[of _ d]) simp
  next
    case False
    then have "0 \<le> d - l" "d - l < sum_list ls" using Cons.prems by auto
    from Cons.IH[OF this, of "m + 1"] Cons.prems(3) obtain i r where
      "month_split (m + 1) ls (d - l) = (m + 1 + int i, r)" "i < length ls" "0 \<le> r" "r < ls ! i" "d - l = sum_list (take i ls) + r"
      by auto
    then show ?thesis using False by (intro exI[of _ "Suc i"] exI[of _ r]) auto
  qed
qed simp

lemma month_split_at:
  assumes "i < length ls" "0 \<le> r" "r < ls ! i" "\<forall>l \<in> set ls. 0 < l"
  shows "month_split m ls (sum_list (take i ls) + r) = (m + int i, r)"
  using assms
proof (induction ls arbitrary: m i)
  case (Cons l ls)
  show ?case
  proof (cases i)
    case (Suc j)
    have "0 \<le> sum_list (take j ls)" using Cons.prems(4) by (intro sum_list_nonneg) (auto dest!: in_set_takeD)
    then show ?thesis using Cons Suc by auto
  qed (use Cons.prems in simp)
qed simp

lemma month_lens_pos: "\<forall>l \<in> set (month_lens y). 0 < l"
  by (auto simp: month_lens_def)

lemma month_lens_sum: "sum_list (month_lens y) = year_len y" "length (month_lens y) = 12"
  by (simp_all add: month_lens_def year_len_def)

text \<open>What \<open>gmtime_safe\<close> says of a time, and that it is the inverse of counting days.\<close>

lemma gmtime_spec:
  fixes t
  defines "g \<equiv> gmtime_safe t"
  shows "t = timegm_day (tm_year g) (tm_mon g) (tm_mday g) + 3600 * tm_hour g + 60 * tm_min g + tm_sec g"
    "0 \<le> tm_mon g" "tm_mon g < 12" "1 \<le> tm_mday g" "tm_mday g \<le> month_lens (tm_year g + 1900) ! nat (tm_mon g)"
    "0 \<le> tm_hour g" "tm_hour g < 24" "0 \<le> tm_min g" "tm_min g < 60" "0 \<le> tm_sec g" "tm_sec g < 60"
    "tm_wday g = (t div 86400 + 4) mod 7" "tm_yday g = t div 86400 + 134774 - days_before (tm_year g + 1900)"
    "tm_yday g = sum_list (take (nat (tm_mon g)) (month_lens (tm_year g + 1900))) + tm_mday g - 1"
proof -
  define N where "N = t div 86400 + 134774"
  define y where "y = year_of N"
  have b: "days_before y \<le> N" "N < days_before (y + 1)" using year_of_bounds[of N] by (simp_all add: y_def)
  then have d: "0 \<le> N - days_before y" "N - days_before y < sum_list (month_lens y)"
    using days_before_Suc[of y] by (simp_all add: month_lens_sum)
  from month_split_spec[OF this month_lens_pos, of 0] obtain i r where
    i: "month_day y (N - days_before y) = (int i, r)" "i < 12" "0 \<le> r" "r < month_lens y ! i"
      "N - days_before y = sum_list (take i (month_lens y)) + r" by (auto simp: month_day_def month_lens_sum)
  have s: "0 \<le> t mod 86400" "t mod 86400 < 86400" by simp_all
  have g: "g = \<lparr>tm_sec = t mod 86400 mod 60, tm_min = t mod 86400 div 60 mod 60, tm_hour = t mod 86400 div 3600,
      tm_mday = r + 1, tm_mon = int i, tm_year = y - 1900, tm_wday = (t div 86400 + 4) mod 7, tm_yday = N - days_before y\<rparr>"
    unfolding g_def gmtime_safe_def Let_def N_def[symmetric] y_def[symmetric] i(1) by simp
  have hms: "3600 * (t mod 86400 div 3600) + 60 * (t mod 86400 div 60 mod 60) + t mod 86400 mod 60 = t mod 86400"
  proof -
    have "t mod 86400 div 3600 = t mod 86400 div 60 div 60" by (simp add: zdiv_zmult2_eq)
    then show ?thesis using div_mult_mod_eq[of "t mod 86400" 60] div_mult_mod_eq[of "t mod 86400 div 60" 60] by linarith
  qed
  have "timegm_day (y - 1900) (int i) (r + 1) = (t div 86400) * 86400"
    using i(2,5) by (simp add: timegm_day_def Let_def N_def)
  then show "t = timegm_day (tm_year g) (tm_mon g) (tm_mday g) + 3600 * tm_hour g + 60 * tm_min g + tm_sec g"
  proof -
    have "t = a * 86400 + (3600 * h + 60 * m + sc)" if "3600 * h + 60 * m + sc = r'" "a * 86400 + r' = t" for a h m sc r' :: int
      using that by simp
    from this[OF hms div_mult_mod_eq[of t 86400]] \<open>timegm_day (y - 1900) (int i) (r + 1) = (t div 86400) * 86400\<close>
    show ?thesis unfolding g tm.simps by (simp only: add.assoc)
  qed
  have "q < 24" if "3600 * q \<le> x" "x < 86400" for q x :: int using that by simp
  from this[OF div_bounds(1) s(2)] have "t mod 86400 div 3600 < 24" by simp
  then show "tm_hour g < 24" by (simp add: g)
  show "0 \<le> tm_mon g" "tm_mon g < 12" using i(2) by (simp_all add: g)
  show "1 \<le> tm_mday g" "tm_mday g \<le> month_lens (tm_year g + 1900) ! nat (tm_mon g)" using i(3,4) by (simp_all add: g)
  show "0 \<le> tm_hour g" unfolding g tm.simps by (rule pos_imp_zdiv_nonneg_iff[THEN iffD2]) simp_all
  show "0 \<le> tm_min g" "tm_min g < 60" "0 \<le> tm_sec g" "tm_sec g < 60" unfolding g tm.simps by simp_all
  show "tm_wday g = (t div 86400 + 4) mod 7" by (simp add: g)
  show "tm_yday g = t div 86400 + 134774 - days_before (tm_year g + 1900)" by (simp add: g N_def)
  show "tm_yday g = sum_list (take (nat (tm_mon g)) (month_lens (tm_year g + 1900))) + tm_mday g - 1"
    using i(5) by (simp add: g)
qed

lemma gmtime_timegm:
  assumes "0 \<le> m" "m < 12" "1 \<le> d" "d \<le> month_lens (y + 1900) ! nat m" "0 \<le> s" "s < 86400"
  shows "tm_year (gmtime_safe (timegm_day y m d + s)) = y \<and> tm_mon (gmtime_safe (timegm_day y m d + s)) = m \<and>
    tm_mday (gmtime_safe (timegm_day y m d + s)) = d"
proof -
  let ?Y = "y + 1900"
  define D where "D = sum_list (take (nat m) (month_lens ?Y)) + (d - 1)"
  have t: "timegm_day y m d = (days_before ?Y + D - 134774) * 86400"
    using assms(1,2) by (simp add: timegm_day_def Let_def D_def)
  have n: "(timegm_day y m d + s) div 86400 = days_before ?Y + D - 134774" unfolding t using assms(5,6) by simp
  have i: "nat m < length (month_lens ?Y)" using assms(2) by (simp add: month_lens_sum)
  have D: "month_split 0 (month_lens ?Y) D = (m, d - 1)"
    unfolding D_def using month_split_at[OF i _ _ month_lens_pos, of "d - 1" 0] assms by simp
  have "0 \<le> sum_list (take (nat m) (month_lens ?Y))"
    using month_lens_pos[of ?Y] by (intro sum_list_nonneg) (auto dest!: in_set_takeD)
  then have D0: "0 \<le> D" using assms(3) by (simp add: D_def)
  have "D < year_len ?Y"
  proof -
    have "sum_list (month_lens ?Y) = sum_list (take (nat m) (month_lens ?Y)) + sum_list (drop (nat m) (month_lens ?Y))"
      by (metis append_take_drop_id sum_list_append)
    moreover have "drop (nat m) (month_lens ?Y) = month_lens ?Y ! nat m # drop (Suc (nat m)) (month_lens ?Y)"
      using i by (rule Cons_nth_drop_Suc[symmetric])
    moreover have "0 \<le> sum_list (drop (Suc (nat m)) (month_lens ?Y))"
      using month_lens_pos[of ?Y] by (intro sum_list_nonneg) (auto dest!: in_set_dropD)
    ultimately show ?thesis using assms(4) by (simp add: D_def month_lens_sum)
  qed
  then have "year_of (days_before ?Y + D) = ?Y" using D0 days_before_Suc[of ?Y] by (intro year_of_unique) simp_all
  then show ?thesis unfolding gmtime_safe_def n Let_def using D by (simp add: month_day_def)
qed

subsection \<open>Conversions of \<^verbatim>\<open>common/platform.cpp\<close>\<close>

record filetime =
  dwLowDateTime :: u32
  dwHighDateTime :: u32

definition NANOSECS_BETWEEN_EPOCHS :: int where
  "NANOSECS_BETWEEN_EPOCHS = 116444736000000000"

text \<open>\<open>__int64\<close> and \<open>ULONGLONG\<close> arithmetic is that of 64-bit words; C division truncates.\<close>

definition UnixTimeToFileTime :: "int \<Rightarrow> filetime" where
  "UnixTimeToFileTime t =
     (let l = (of_int t * 10000000 + of_int NANOSECS_BETWEEN_EPOCHS :: i64)
      in \<lparr>dwLowDateTime = ucast l, dwHighDateTime = ucast (drop_bit 32 l)\<rparr>)"

definition FileTimeToUnixTime :: "filetime \<Rightarrow> int" where
  "FileTimeToUnixTime ft =
     (let l = (push_bit 32 (ucast (dwHighDateTime ft)) + ucast (dwLowDateTime ft) :: i64);
          l = l - of_int NANOSECS_BETWEEN_EPOCHS
      in sint l sdiv 10000000)"

definition UnitsPerMinute :: u64 where "UnitsPerMinute = 600000000"
definition UnitsPerHalfMinute :: u64 where "UnitsPerHalfMinute = 300000000"

definition RTimeToFileTime :: "u32 \<Rightarrow> filetime" where
  "RTimeToFileTime rtime =
     (let q = (scast rtime * UnitsPerMinute :: u64)
      in \<lparr>dwLowDateTime = ucast (q AND 0xFFFFFFFF), dwHighDateTime = ucast (drop_bit 32 q)\<rparr>)"

definition FileTimeToRTime :: "filetime \<Rightarrow> u32" where
  "FileTimeToRTime ft =
     (let q = (push_bit 32 (ucast (dwHighDateTime ft)) OR ucast (dwLowDateTime ft) :: u64);
          q = (q + UnitsPerHalfMinute) div UnitsPerMinute
      in ucast (q AND 0x7FFFFFFF))"

definition RTimeToUnixTime :: "u32 \<Rightarrow> int" where
  "RTimeToUnixTime rtime = FileTimeToUnixTime (RTimeToFileTime rtime)"

definition UnixTimeToRTime :: "int \<Rightarrow> u32" where
  "UnixTimeToRTime t = FileTimeToRTime (UnixTimeToFileTime t)"

text \<open>Comparisons of \<open>FILETIME\<close> values, and their difference in seconds.\<close>

definition ft_greater :: "filetime \<Rightarrow> filetime \<Rightarrow> bool" where
  "ft_greater a b \<longleftrightarrow> dwHighDateTime a > dwHighDateTime b \<or>
     (dwHighDateTime a = dwHighDateTime b \<and> dwLowDateTime a > dwLowDateTime b)"

definition ft_less :: "filetime \<Rightarrow> filetime \<Rightarrow> bool" where
  "ft_less a b \<longleftrightarrow> dwHighDateTime a < dwHighDateTime b \<or>
     (dwHighDateTime a = dwHighDateTime b \<and> dwLowDateTime a < dwLowDateTime b)"

definition ft_greater_eq :: "filetime \<Rightarrow> filetime \<Rightarrow> bool" where
  "ft_greater_eq a b \<longleftrightarrow> ft_greater a b \<or> a = b"

definition ft_less_eq :: "filetime \<Rightarrow> filetime \<Rightarrow> bool" where
  "ft_less_eq a b \<longleftrightarrow> ft_less a b \<or> a = b"

definition ft_minus :: "filetime \<Rightarrow> filetime \<Rightarrow> int" where
  "ft_minus a b = FileTimeToUnixTime a - FileTimeToUnixTime b"

text \<open>Dates and times packed into integers.\<close>

definition CreateIntDate :: "u32 \<Rightarrow> u32 \<Rightarrow> u32 \<Rightarrow> u32" where
  "CreateIntDate day month year = day + month * 32 + year * 32 * 16"

definition CreateIntTime :: "u32 \<Rightarrow> u32 \<Rightarrow> u32 \<Rightarrow> u32" where
  "CreateIntTime seconds minutes hours = seconds + minutes * 64 + hours * 64 * 64"

definition FileTimeToIntDate :: "filetime \<Rightarrow> u32" where
  "FileTimeToIntDate ft =
     (let date = gmtime_safe (FileTimeToUnixTime ft)
      in CreateIntDate (of_int (tm_mday date)) (of_int (tm_mon date + 1)) (of_int (tm_year date + 1900)))"

definition SecondsToIntTime :: "u32 \<Rightarrow> u32" where
  "SecondsToIntTime seconds =
     (let hours = seconds div (60 * 60); seconds = seconds - hours * 60 * 60;
          minutes = seconds div 60; seconds = seconds - minutes * 60
      in CreateIntTime seconds minutes hours)"

lemma file_time_word:
  fixes q :: u64
  shows "push_bit 32 (ucast (ucast (drop_bit 32 q) :: u32)) + ucast (ucast (q AND 0xFFFFFFFF) :: u32) = q"
    "push_bit 32 (ucast (ucast (drop_bit 32 q) :: u32)) + ucast (ucast q :: u32) = q"
    "push_bit 32 (ucast (ucast (drop_bit 32 q) :: u32)) OR ucast (ucast q :: u32) = q"
proof -
  have n: "LENGTH(64) = 64" "LENGTH(32) = 32" by simp_all
  have a: "ucast (q AND 0xFFFFFFFF) = (ucast q :: u32)"
  proof (rule bit_word_eqI)
    fix k assume "k < LENGTH(32)"
    moreover have "(0xFFFFFFFF :: u64) = mask 32" by (simp add: mask_eq_exp_minus_1)
    ultimately show "bit (ucast (q AND 0xFFFFFFFF) :: u32) k = bit (ucast q :: u32) k"
      by (simp only: bit_simps) auto
  qed
  show o: "push_bit 32 (ucast (ucast (drop_bit 32 q) :: u32)) OR ucast (ucast q :: u32) = q"
    by (rule bit_word_eqI) (auto simp: bit_simps)
  have "push_bit 32 (ucast (ucast (drop_bit 32 q) :: u32)) + ucast (ucast q :: u32) =
      push_bit 32 (ucast (ucast (drop_bit 32 q) :: u32)) OR (ucast (ucast q :: u32) :: u64)"
    by (rule disjunctive_add_eq_or, rule bit_word_eqI) (auto simp: bit_simps)
  then show p: "push_bit 32 (ucast (ucast (drop_bit 32 q) :: u32)) + ucast (ucast q :: u32) = q" by (simp only: o)
  show "push_bit 32 (ucast (ucast (drop_bit 32 q) :: u32)) + ucast (ucast (q AND 0xFFFFFFFF) :: u32) = q"
    by (simp only: a p)
qed

lemma RTimeToUnixTime_eq: "RTimeToUnixTime r = 60 * sint r - 11644473600"
proof -
  have b: "- (2 ^ 31) \<le> sint r" "sint r < 2 ^ 31" using sint_range_size[of r] by (simp_all add: word_size)
  have w: "scast r * UnitsPerMinute - of_int NANOSECS_BETWEEN_EPOCHS =
      (word_of_int (sint r * 600000000 - 116444736000000000) :: u64)"
    by (simp add: UnitsPerMinute_def NANOSECS_BETWEEN_EPOCHS_def)
  have "sint (word_of_int (sint r * 600000000 - 116444736000000000) :: u64) = sint r * 600000000 - 116444736000000000"
    using b unfolding sint_sbintrunc' by (simp add: signed_take_bit_int_eq_self)
  moreover have "sint r * 600000000 - 116444736000000000 = (60 * sint r - 11644473600) * 10000000" by simp
  moreover have "(a * c) sdiv c = a" if "0 < c" for a c :: int
    using that by (simp add: signed_divide_int_def sgn_mult abs_mult mult_sgn_abs)
  ultimately show ?thesis
    unfolding RTimeToUnixTime_def RTimeToFileTime_def FileTimeToUnixTime_def Let_def filetime.simps file_time_word w
    by (simp only:)
qed

lemma UnixTimeToRTime_eq:
  assumes "- 11644473600 \<le> t" "t < 2 ^ 40"
  shows "UnixTimeToRTime t = of_int ((t + 11644473630) div 60 mod 2 ^ 31)"
proof -
  define l where "l = (of_int t * 10000000 + of_int NANOSECS_BETWEEN_EPOCHS :: u64)"
  have "uint (l + UnitsPerHalfMinute) = (t + 11644473630) * 10000000"
  proof -
    have "l + UnitsPerHalfMinute = word_of_int ((t + 11644473630) * 10000000)"
      by (simp add: l_def UnitsPerHalfMinute_def NANOSECS_BETWEEN_EPOCHS_def algebra_simps)
    moreover have "uint (word_of_int ((t + 11644473630) * 10000000) :: u64) = (t + 11644473630) * 10000000"
      unfolding uint_word_of_int_eq by (rule take_bit_int_eq_self) (use assms in simp_all)
    ultimately show ?thesis by (simp only:)
  qed
  then have "uint ((l + UnitsPerHalfMinute) div UnitsPerMinute) = (t + 11644473630) * 10000000 div 600000000"
    by (simp add: uint_div UnitsPerMinute_def)
  also have "\<dots> = (t + 11644473630) div 60"
    using zdiv_zmult2_eq[of 60 "(t + 11644473630) * 10000000" 10000000] by (simp add: mult.commute)
  finally have u: "uint ((l + UnitsPerHalfMinute) div UnitsPerMinute) = (t + 11644473630) div 60" .
  have m: "(0x7FFFFFFF :: u64) = mask 31" by (simp add: mask_eq_exp_minus_1)
  have "ucast (w AND 0x7FFFFFFF) = (word_of_int (uint w mod 2 ^ 31) :: u32)" for w :: u64
    unfolding m take_bit_eq_mask[symmetric] ucast_eq by (simp only: unsigned_take_bit_eq) (simp only: take_bit_eq_mod)
  then show ?thesis
    unfolding UnixTimeToRTime_def UnixTimeToFileTime_def FileTimeToRTime_def Let_def filetime.simps file_time_word l_def[symmetric]
    by (simp only: u)
qed

lemma rtime_of_unix:
  assumes "0 \<le> sint r"
  shows "UnixTimeToRTime (RTimeToUnixTime r) = r"
proof -
  have "sint r < 2 ^ 31" using sint_range_size[of r] by (simp add: word_size)
  moreover have "(60 * sint r - 11644473600 + 11644473630) div 60 = sint r" by simp
  ultimately show ?thesis
    unfolding RTimeToUnixTime_eq using assms by (subst UnixTimeToRTime_eq) simp_all
qed

lemma unix_of_rtime:
  assumes "- 11644473600 \<le> t" "t < 60 * 2 ^ 31 - 11644473630"
  shows "RTimeToUnixTime (UnixTimeToRTime t) = (t + 30) div 60 * 60"
proof -
  define k where "k = (t + 11644473630) div 60"
  have k: "0 \<le> k" "k < 2 ^ 31" "k = (t + 30) div 60 + 194074560"
    using assms div_bounds[of 60 "t + 11644473630"] by (simp_all add: k_def pos_imp_zdiv_nonneg_iff)
  have "sint (of_int k :: u32) = k"
    using k(1,2) by (simp add: sint_sbintrunc' signed_take_bit_int_eq_self)
  then show ?thesis using assms k
    by (simp add: RTimeToUnixTime_eq UnixTimeToRTime_eq k_def[symmetric])
qed

subsection \<open>Time zones of \<^verbatim>\<open>common/TimeUtil.cpp\<close>\<close>

record systemtime =
  wYear :: u16
  wMonth :: u16
  wDayOfWeek :: u16
  wDay :: u16
  wHour :: u16
  wMinute :: u16
  wSecond :: u16
  wMilliseconds :: u16

record timezone =
  lBias :: u32
  lStdBias :: u32
  lDstBias :: u32
  wStdYear :: u16
  stStdDate :: systemtime
  wDstYear :: u16
  stDstDate :: systemtime

text \<open>\<open>WORD\<close> arguments are promoted to \<open>int\<close>; the products for week and day are \<open>int\<close> products.\<close>

definition getDateByYearMonthWeekDayHour :: "u16 \<Rightarrow> u16 \<Rightarrow> u16 \<Rightarrow> u16 \<Rightarrow> u16 \<Rightarrow> int" where
  "getDateByYearMonthWeekDayHour year month week day hour =
     (let date = timegm_day (uint year) (uint month - 1) 1;
          tm = gmtime_safe date;
          date = date - tm_wday tm * 24 * 60 * 60;
          date = date + to_int32 (uint week * 7 * 24 * 60 * 60);
          date = date + to_int32 (uint day * 24 * 60 * 60);
          date = date + uint hour * 60 * 60;
          tm = gmtime_safe date
      in if tm_mon tm \<noteq> uint month - 1 then date - 7 * 24 * 60 * 60 else date)"

definition getTZOffset :: "int \<Rightarrow> timezone \<Rightarrow> int" where
  "getTZOffset date tz =
     (if lStdBias tz = lDstBias tz \<or> wMonth (stDstDate tz) = 0 \<or> wMonth (stStdDate tz) = 0
      then sint (- lBias tz * 60)
      else
        let year = of_int (tm_year (gmtime_safe date));
            dststart = getDateByYearMonthWeekDayHour year (wMonth (stDstDate tz)) (wDay (stDstDate tz))
              (wDayOfWeek (stDstDate tz)) (wHour (stDstDate tz));
            dstend = getDateByYearMonthWeekDayHour year (wMonth (stStdDate tz)) (wDay (stStdDate tz))
              (wDayOfWeek (stStdDate tz)) (wHour (stStdDate tz));
            dst = (if dststart \<le> dstend then date > dststart \<and> date < dstend else date < dstend \<or> date > dststart)
        in if dst then sint (- (lBias tz + lDstBias tz) * 60) else sint (- (lBias tz + lStdBias tz) * 60))"

definition UTCToLocal :: "int \<Rightarrow> timezone \<Rightarrow> int" where
  "UTCToLocal utc tz = utc + getTZOffset utc tz"

definition LocalToUTC :: "int \<Rightarrow> timezone \<Rightarrow> int" where
  "LocalToUTC local tz = local - getTZOffset local tz"

subsection \<open>Date functions of \<^verbatim>\<open>libfreebusy/recurrence.cpp\<close>\<close>

text \<open>Years and months are \<open>ULONG\<close> values, given as integers from 0 to \<open>2 ^ 32 - 1\<close>.\<close>

definition isLeapYear :: "int \<Rightarrow> bool" where
  "isLeapYear year \<longleftrightarrow> (year mod 4 = 0 \<and> year mod 100 \<noteq> 0) \<or> year mod 400 = 0"

definition DaysInYear :: "int \<Rightarrow> int" where
  "DaysInYear year = (if isLeapYear year then 366 else 365)"

definition days_in_month :: "int \<Rightarrow> int" where
  "days_in_month month =
     (if month > 12 then 0 else [0, 31, 28, 31, 30, 31, 30, 31, 31, 30, 31, 30, 31] ! nat month)"

definition DaysInMonth :: "int \<Rightarrow> int \<Rightarrow> int" where
  "DaysInMonth year month = days_in_month month + (if month = 2 \<and> isLeapYear year then 1 else 0)"

definition MonthInSeconds :: "int \<Rightarrow> int \<Rightarrow> int" where
  "MonthInSeconds year month = DaysInMonth year month * 24 * 60 * 60"

text \<open>The loop passes the month for the year; the product wraps.\<close>

fun months_loop :: "nat \<Rightarrow> int \<Rightarrow> int \<Rightarrow> int \<Rightarrow> int" where
  "months_loop 0 m year days = days"
| "months_loop (Suc k) m year days =
     months_loop k (m + 1) (if m mod 12 \<noteq> 0 then year + 1 else year) (days + DaysInMonth ((m + 1) mod 12) year)"

definition MonthsInSeconds :: "int \<Rightarrow> int" where
  "MonthsInSeconds months = to_uint32 (months_loop (nat months) 0 1601 0 * 24 * 60 * 60)"

definition Minutes2Time :: "int \<Rightarrow> int" where
  "Minutes2Time minutes = (minutes - NANOSECS_BETWEEN_EPOCHS sdiv 600000000) * 60"

definition Time2Minutes :: "int \<Rightarrow> int" where
  "Time2Minutes time = to_uint32 (time sdiv 60 + NANOSECS_BETWEEN_EPOCHS sdiv 600000000)"

text \<open>The quotient of doubles is exact enough for its ceiling: the operands have 32 bits.\<close>

definition Minutes2Month :: "int \<Rightarrow> int" where
  "Minutes2Month minutes = (minutes + 44639) div 44640 + 1"

definition StartOfDay :: "int \<Rightarrow> int" where
  "StartOfDay t = (let tm = gmtime_safe t in t - (tm_hour tm * 60 * 60 + tm_min tm * 60 + tm_sec tm))"

definition StartOfWeek :: "int \<Rightarrow> int" where
  "StartOfWeek t = (let tm = gmtime_safe t
     in t - (tm_wday tm * 24 * 60 * 60 + tm_hour tm * 60 * 60 + tm_min tm * 60 + tm_sec tm))"

definition StartOfMonth :: "int \<Rightarrow> int" where
  "StartOfMonth t = (let tm = gmtime_safe t
     in t - ((tm_mday tm - 1) * 24 * 60 * 60 + tm_hour tm * 60 * 60 + tm_min tm * 60 + tm_sec tm))"

definition StartOfYear :: "int \<Rightarrow> int" where
  "StartOfYear t = (let tm = gmtime_safe t
     in t - (tm_yday tm * 24 * 60 * 60 + tm_hour tm * 60 * 60 + tm_min tm * 60 + tm_sec tm))"

definition MonthFromTime :: "int \<Rightarrow> int" where
  "MonthFromTime t = tm_mon (gmtime_safe t) + 1"

definition YearFromTime :: "int \<Rightarrow> int" where
  "YearFromTime t = to_uint32 (tm_year (gmtime_safe t) + 1900)"

definition AllMonthsFromTime :: "int \<Rightarrow> int" where
  "AllMonthsFromTime t = to_uint32 (tm_mon (gmtime_safe t) + (tm_year (gmtime_safe t) + 1900 - 1601) * 12)"

definition WeekDayFromTime :: "int \<Rightarrow> int" where
  "WeekDayFromTime t = tm_wday (gmtime_safe t)"

definition MonthDayFromTime :: "int \<Rightarrow> int" where
  "MonthDayFromTime t = tm_mday (gmtime_safe t)"

definition countDaysOfMonth :: "int \<Rightarrow> int" where
  "countDaysOfMonth tsDate =
     (let ulYear = YearFromTime tsDate; ulMonth = MonthFromTime tsDate
      in if isLeapYear ulYear \<and> ulMonth = 2 then 29
         else [31, 28, 31, 30, 31, 30, 31, 31, 30, 31, 30, 31] ! nat (ulMonth - 1))"

text \<open>The months from \<open>ul\<close> on, \<open>n\<close> of them; the bound of the loop wraps.\<close>

fun days_till :: "int \<Rightarrow> int \<Rightarrow> nat \<Rightarrow> int" where
  "days_till year ul 0 = 0"
| "days_till year ul (Suc n) = DaysInMonth year ul + days_till year (ul + 1) n"

definition DaysTillMonth :: "int \<Rightarrow> int \<Rightarrow> int" where
  "DaysTillMonth tsDate ulMonth =
     (let m = MonthFromTime tsDate in days_till (YearFromTime tsDate) m (nat (to_uint32 (ulMonth + m) - m)))"

subsection \<open>What the date functions compute\<close>

lemma seconds_of_day:
  "tm_hour (gmtime_safe t) * 60 * 60 + tm_min (gmtime_safe t) * 60 + tm_sec (gmtime_safe t) =
     t - timegm_day (tm_year (gmtime_safe t)) (tm_mon (gmtime_safe t)) (tm_mday (gmtime_safe t))"
  using gmtime_spec(1)[of t] by simp

lemma timegm_day_shift: "timegm_day y m d = timegm_day y m 1 + (d - 1) * 86400"
  by (simp add: timegm_day_def Let_def algebra_simps)

lemma timegm_day_mod: "timegm_day y m d mod 86400 = 0"
  by (simp add: timegm_day_def Let_def)

lemma gmtime_midnight:
  "timegm_day (tm_year (gmtime_safe t)) (tm_mon (gmtime_safe t)) (tm_mday (gmtime_safe t)) = t - t mod 86400"
proof -
  let ?g = "gmtime_safe t"
  have r: "0 \<le> 3600 * tm_hour ?g + 60 * tm_min ?g + tm_sec ?g" "3600 * tm_hour ?g + 60 * tm_min ?g + tm_sec ?g < 86400"
    using gmtime_spec(6-11)[of t] by linarith+
  have "t mod 86400 = (3600 * tm_hour ?g + 60 * tm_min ?g + tm_sec ?g) mod 86400"
  proof -
    have "(a + b) mod 86400 = b mod 86400" if "a mod 86400 = 0" for a b :: int
      using mod_add_left_eq[of a 86400 b] that by simp
    from this[OF timegm_day_mod] show ?thesis
      by (subst gmtime_spec(1)[of t]) (simp only: add.assoc)
  qed
  then have "t mod 86400 = 3600 * tm_hour ?g + 60 * tm_min ?g + tm_sec ?g" using r by simp
  then show ?thesis using gmtime_spec(1)[of t] by linarith
qed

lemma StartOfDay_eq: "StartOfDay t = t - t mod 86400"
  using seconds_of_day[of t] gmtime_midnight[of t] unfolding StartOfDay_def Let_def by linarith

lemma StartOfMonth_eq: "StartOfMonth t = timegm_day (tm_year (gmtime_safe t)) (tm_mon (gmtime_safe t)) 1"
  using seconds_of_day[of t] timegm_day_shift[of "tm_year (gmtime_safe t)" "tm_mon (gmtime_safe t)" "tm_mday (gmtime_safe t)"]
  unfolding StartOfMonth_def Let_def by linarith

lemma StartOfYear_eq: "StartOfYear t = timegm_day (tm_year (gmtime_safe t)) 0 1"
proof -
  let ?g = "gmtime_safe t"
  have m: "0 \<le> tm_mon ?g" "tm_mon ?g < 12" by (fact gmtime_spec)+
  have "timegm_day (tm_year ?g) (tm_mon ?g) (tm_mday ?g) = timegm_day (tm_year ?g) 0 1 + tm_yday ?g * 86400"
    using gmtime_spec(14)[of t] m by (simp add: timegm_day_def Let_def algebra_simps)
  then show ?thesis using seconds_of_day[of t] unfolding StartOfYear_def Let_def by linarith
qed

lemma StartOfWeek_eq:
  "StartOfWeek t = t - t mod 86400 - WeekDayFromTime t * 86400"
  using seconds_of_day[of t] gmtime_midnight[of t] unfolding StartOfWeek_def WeekDayFromTime_def Let_def by linarith

lemma isLeapYear_leap: "isLeapYear y = leap y"
  by (simp add: isLeapYear_def leap_def)

lemma DaysInMonth_len: "1 \<le> m \<Longrightarrow> m \<le> 12 \<Longrightarrow> DaysInMonth y m = month_lens y ! nat (m - 1)"
proof -
  assume "1 \<le> m" "m \<le> 12"
  then have "m = 1 \<or> m = 2 \<or> m = 3 \<or> m = 4 \<or> m = 5 \<or> m = 6 \<or> m = 7 \<or> m = 8 \<or> m = 9 \<or> m = 10 \<or> m = 11 \<or> m = 12"
    by presburger
  then show ?thesis by (auto simp: DaysInMonth_def days_in_month_def month_lens_def isLeapYear_leap)
qed

lemma days_till_sum:
  assumes "1 \<le> m" "m + int n \<le> 13"
  shows "days_till y m n = sum_list (take n (drop (nat (m - 1)) (month_lens y)))"
  using assms
proof (induction n arbitrary: m)
  case (Suc n)
  have i: "nat (m - 1) < length (month_lens y)" using Suc.prems by (simp add: month_lens_sum)
  have "days_till y (m + 1) n = sum_list (take n (drop (nat m) (month_lens y)))"
    using Suc.IH[of "m + 1"] Suc.prems by simp
  moreover have "drop (nat (m - 1)) (month_lens y) = month_lens y ! nat (m - 1) # drop (nat m) (month_lens y)"
    using Cons_nth_drop_Suc[OF i] Suc.prems(1) by (simp add: nat_diff_distrib Suc_nat_eq_nat_zadd1[symmetric] flip: nat_0_le)
  ultimately show ?case using DaysInMonth_len[of m y] Suc.prems by simp
qed simp

text \<open>Within the year the count of days leads from the start of a month to the start of another.\<close>

lemma timegm_months:
  assumes "0 \<le> m" "m + int n \<le> 12"
  shows "timegm_day y (m + int n) 1 = timegm_day y m 1 + days_till (y + 1900) (m + 1) n * 86400"
proof -
  let ?L = "month_lens (y + 1900)"
  have d: "days_till (y + 1900) (m + 1) n = sum_list (take n (drop (nat m) ?L))"
    using days_till_sum[of "m + 1" n "y + 1900"] assms by simp
  show ?thesis
  proof (cases "m + int n = 12")
    case True
    show ?thesis
    proof (cases "n = 0")
      case False
      then have "m < 12" using True by linarith
      then have l: "timegm_day y m 1 = (days_before (y + 1900) + sum_list (take (nat m) ?L) - 134774) * 86400"
        using assms(1) by (simp add: timegm_day_def Let_def)
      have r: "timegm_day y (m + int n) 1 = (days_before (y + 1900 + 1) - 134774) * 86400"
        unfolding True by (simp add: timegm_day_def Let_def algebra_simps)
      have "sum_list ?L = sum_list (take (nat m) ?L) + sum_list (drop (nat m) ?L)"
        by (metis append_take_drop_id sum_list_append)
      moreover have "take n (drop (nat m) ?L) = drop (nat m) ?L" using True by (simp add: month_lens_sum)
      ultimately have "days_before (y + 1900 + 1) = days_before (y + 1900) + sum_list (take (nat m) ?L) + days_till (y + 1900) (m + 1) n"
        using d days_before_Suc[of "y + 1900"] by (simp only: month_lens_sum)
      then show ?thesis unfolding l r by (simp only: algebra_simps)
    qed simp
  next
    case False
    then have "m + int n < 12" using assms(2) by simp
    moreover have "take (nat m + n) ?L = take (nat m) ?L @ take n (drop (nat m) ?L)" by (rule take_add)
    ultimately show ?thesis using d assms(1) by (simp add: timegm_day_def Let_def nat_add_distrib algebra_simps)
  qed
qed

end
