(* ===== verification/Free_Busy.thy ===== *)
theory Free_Busy
  imports Calendar
begin

text \<open>
  Free/busy data of \<^verbatim>\<open>libfreebusy/\<close>: the block list (\<^verbatim>\<open>ECFBBlockList.cpp\<close>), its enumeration
  (\<^verbatim>\<open>ECEnumFBBlock.cpp\<close>), the data of a user (\<^verbatim>\<open>ECFreeBusyData.cpp\<close>), the merging of blocks
  before they are published (\<open>HrMergeBlocks\<close> of \<^verbatim>\<open>PublishFreeBusy.cpp\<close>) and the monthly event
  properties of \<^verbatim>\<open>freebusyutil.cpp\<close> and \<^verbatim>\<open>ECFreeBusyUpdate.cpp\<close>.

  Times are \<open>LONG\<close> values, minutes since 1601, held as 32-bit words; the code compares some of them
  signed and some unsigned. A pointer argument of the code is never null here.
\<close>

subsection \<open>Blocks\<close>

record fb_block =
  m_tmStart :: u32
  m_tmEnd :: u32
  m_fbstatus :: u32

definition fbFree :: u32 where "fbFree = 0"
definition fbTentative :: u32 where "fbTentative = 1"
definition fbBusy :: u32 where "fbBusy = 2"
definition fbOutOfOffice :: u32 where "fbOutOfOffice = 3"
definition fbZarafaAllBusy :: u32 where "fbZarafaAllBusy = 1000"

record occr_info =
  fbBlock :: fb_block
  tBaseDate :: int

text \<open>
  Arrays of occurrences. \<open>HrAddFBBlock\<close> copies one element more than the old array has: what it
  reads behind the end is \<open>junk\<close>.
\<close>

definition HrCopyFBBlockSet :: "occr_info \<Rightarrow> occr_info list \<Rightarrow> nat \<Rightarrow> occr_info list" where
  "HrCopyFBBlockSet junk src ulcValues = map (\<lambda>i. if i < length src then src ! i else junk) [0..<ulcValues]"

definition HrAddFBBlock :: "occr_info \<Rightarrow> occr_info \<Rightarrow> occr_info list \<Rightarrow> occr_info list" where
  "HrAddFBBlock junk sOccrInfo old =
     (let ulModVal = length old + 1;
          new = (if old \<noteq> [] then HrCopyFBBlockSet junk old ulModVal else replicate ulModVal junk)
      in new[ulModVal - 1 := sOccrInfo])"

lemma HrAddFBBlock_append: "HrAddFBBlock junk x xs = xs @ [x]"
proof -
  have "map (\<lambda>i. if i < length xs then xs ! i else junk) [0..<length xs + 1] = xs @ [junk]"
    by (rule nth_equalityI) (auto simp: nth_append)
  then show ?thesis by (simp add: HrAddFBBlock_def HrCopyFBBlockSet_def list_update_append)
qed

subsection \<open>The block list\<close>

text \<open>
  \<open>m_FBMap\<close> is a \<open>std::map\<close> from the start of a block, ordered as signed numbers: a list of blocks
  with rising starts. An iterator is the start of its block, or \<^const>\<open>None\<close> at the end.
\<close>

record fb_list =
  m_FBMap :: "fb_block list"
  m_FBIter :: "u32 option"
  m_tmRestictStart :: u32
  m_tmRestictEnd :: u32
  m_bInitIter :: bool

definition ECFBBlockList :: fb_list where
  "ECFBBlockList = \<lparr>m_FBMap = [], m_FBIter = None, m_tmRestictStart = 0, m_tmRestictEnd = 0, m_bInitIter = False\<rparr>"

definition fb_begin :: "fb_block list \<Rightarrow> u32 option" where
  "fb_begin bs = (case bs of [] \<Rightarrow> None | b # _ \<Rightarrow> Some (m_tmStart b))"

definition fb_from :: "fb_block list \<Rightarrow> u32 option \<Rightarrow> fb_block list" where
  "fb_from bs it = (case it of None \<Rightarrow> [] | Some k \<Rightarrow> dropWhile (\<lambda>b. m_tmStart b \<noteq> k) bs)"

fun fb_insert :: "fb_block \<Rightarrow> fb_block list \<Rightarrow> fb_block list" where
  "fb_insert b [] = [b]"
| "fb_insert b (c # cs) =
     (if sint (m_tmStart b) < sint (m_tmStart c) then b # c # cs
      else if m_tmStart b = m_tmStart c then c # cs
      else c # fb_insert b cs)"

definition fb_Add :: "fb_list \<Rightarrow> fb_block \<Rightarrow> fb_list" where
  "fb_Add l b = l\<lparr>m_FBMap := fb_insert b (m_FBMap l)\<rparr>"

fun fb_merge :: "fb_block \<Rightarrow> fb_block list \<Rightarrow> fb_block list option" where
  "fb_merge b [] = None"
| "fb_merge b (c # cs) =
     (if m_tmEnd c = m_tmStart b then Some (c\<lparr>m_tmEnd := m_tmEnd b\<rparr> # cs)
      else map_option ((#) c) (fb_merge b cs))"

definition fb_Merge :: "fb_list \<Rightarrow> fb_block \<Rightarrow> hresult \<times> fb_list" where
  "fb_Merge l b =
     (case fb_merge b (m_FBMap l) of
        None \<Rightarrow> (MAPI_E_NOT_FOUND, l)
      | Some bs \<Rightarrow> (hrSuccess, l\<lparr>m_FBMap := bs\<rparr>))"

text \<open>The blocks behind the start of the restriction, and the test for its end.\<close>

definition from_restrict :: "u32 \<Rightarrow> fb_block list \<Rightarrow> fb_block list" where
  "from_restrict rs bs = (if rs = 0 then bs else dropWhile (\<lambda>b. \<not> m_tmEnd b > rs) bs)"

definition past_restrict :: "fb_list \<Rightarrow> fb_block \<Rightarrow> bool" where
  "past_restrict l b \<longleftrightarrow> m_tmRestictEnd l \<noteq> 0 \<and> m_tmStart b > m_tmRestictEnd l"

definition fb_Restrict :: "fb_list \<Rightarrow> u32 \<Rightarrow> u32 \<Rightarrow> fb_list" where
  "fb_Restrict l tmStart tmEnd =
     l\<lparr>m_tmRestictStart := tmStart, m_tmRestictEnd := tmEnd,
       m_FBIter := fb_begin (from_restrict tmStart (m_FBMap l)), m_bInitIter := True\<rparr>"

definition fb_init :: "fb_list \<Rightarrow> fb_list" where
  "fb_init l = (if m_bInitIter l then l else fb_Restrict l (m_tmRestictStart l) (m_tmRestictEnd l))"

definition fb_Next :: "fb_list \<Rightarrow> (hresult \<times> fb_block option) \<times> fb_list" where
  "fb_Next l =
     (let l = fb_init l in
      case fb_from (m_FBMap l) (m_FBIter l) of
        [] \<Rightarrow> ((MAPI_E_NOT_FOUND, None), l)
      | b # bs \<Rightarrow>
          if past_restrict l b then ((MAPI_E_NOT_FOUND, None), l)
          else ((hrSuccess, Some (if sint (m_tmStart b) < sint (m_tmRestictStart l)
                   then b\<lparr>m_tmStart := m_tmRestictStart l\<rparr> else b)),
                l\<lparr>m_FBIter := fb_begin bs\<rparr>))"

definition fb_Reset :: "fb_list \<Rightarrow> fb_list" where
  "fb_Reset l = l\<lparr>m_bInitIter := False\<rparr>"

fun fb_skip :: "nat \<Rightarrow> fb_list \<Rightarrow> fb_list" where
  "fb_skip 0 l = l"
| "fb_skip (Suc n) l =
     (case fb_from (m_FBMap l) (m_FBIter l) of
        [] \<Rightarrow> l
      | b # bs \<Rightarrow> if past_restrict l b then l else fb_skip n (l\<lparr>m_FBIter := fb_begin bs\<rparr>))"

definition fb_Skip :: "fb_list \<Rightarrow> u32 \<Rightarrow> hresult \<times> fb_list" where
  "fb_Skip l items = (hrSuccess, fb_skip (nat (sint items)) (fb_init l))"

definition fb_Clear :: "fb_list \<Rightarrow> fb_list" where
  "fb_Clear l = l\<lparr>m_FBMap := [], m_FBIter := None, m_bInitIter := False, m_tmRestictStart := 0, m_tmRestictEnd := 0\<rparr>"

definition fb_Copy :: "fb_list \<Rightarrow> fb_list \<Rightarrow> fb_list" where
  "fb_Copy l src = fb_Restrict (l\<lparr>m_FBMap := m_FBMap src\<rparr>) (m_tmRestictStart src) (m_tmRestictEnd src)"

definition fb_Size :: "fb_list \<Rightarrow> nat" where
  "fb_Size l = length (takeWhile (\<lambda>b. \<not> past_restrict l b) (from_restrict (m_tmRestictStart l) (m_FBMap l)))"

definition fb_GetEndTime :: "fb_list \<Rightarrow> hresult \<times> u32 option" where
  "fb_GetEndTime l =
     (case takeWhile (\<lambda>b. \<not> past_restrict l b) (m_FBMap l) of
        [] \<Rightarrow> (MAPI_E_NOT_FOUND, None)
      | bs \<Rightarrow> (hrSuccess, Some (m_tmEnd (last bs))))"

subsection \<open>Enumerations\<close>

text \<open>The blocks that \<open>n\<close> calls of \<open>Next\<close> return; a constructor reads until the first failure.\<close>

fun fb_fetch :: "nat \<Rightarrow> fb_list \<Rightarrow> fb_block list \<times> fb_list" where
  "fb_fetch 0 l = ([], l)"
| "fb_fetch (Suc n) l =
     (case fb_Next l of
        ((hr, Some b), l) \<Rightarrow> (let (bs, l) = fb_fetch n l in (b # bs, l))
      | ((hr, None), l) \<Rightarrow> ([], l))"

definition ECEnumFBBlock :: "fb_list \<Rightarrow> fb_list \<times> fb_list" where
  "ECEnumFBBlock l =
     (let l = fb_Reset l; (bs, l) = fb_fetch (Suc (length (m_FBMap l))) l
      in (fold (\<lambda>b e. fb_Add e b) bs ECFBBlockList, l))"

definition enum_Next :: "fb_list \<Rightarrow> u32 \<Rightarrow> (hresult \<times> fb_block list) \<times> fb_list" where
  "enum_Next e celt =
     (let (bs, e) = fb_fetch (nat (sint celt)) e in ((if bs = [] then S_FALSE else hrSuccess, bs), e))"

definition enum_Restrict :: "fb_list \<Rightarrow> filetime \<Rightarrow> filetime \<Rightarrow> fb_list" where
  "enum_Restrict e ftmStart ftmEnd = fb_Restrict e (FileTimeToRTime ftmStart) (FileTimeToRTime ftmEnd)"

subsection \<open>The data of a user\<close>

record fb_data =
  m_rtmStart :: u32
  m_rtmEnd :: u32
  m_fbBlockList :: fb_list

definition ECFreeBusyData :: fb_data where
  "ECFreeBusyData = \<lparr>m_rtmStart = 0, m_rtmEnd = 0, m_fbBlockList = ECFBBlockList\<rparr>"

definition fbd_Init :: "fb_data \<Rightarrow> u32 \<Rightarrow> u32 \<Rightarrow> fb_list \<Rightarrow> fb_data" where
  "fbd_Init d rtmStart rtmEnd l =
     (let d = d\<lparr>m_rtmStart := rtmStart, m_rtmEnd := rtmEnd, m_fbBlockList := fb_Copy (m_fbBlockList d) l\<rparr>;
          d = (if m_rtmStart d = 0 then
                 (case fb_Next (m_fbBlockList d) of
                    ((hr, Some blk), l) \<Rightarrow> d\<lparr>m_rtmStart := m_tmStart blk, m_fbBlockList := fb_Reset l\<rparr>
                  | ((hr, None), l) \<Rightarrow> d\<lparr>m_fbBlockList := fb_Reset l\<rparr>)
               else d)
      in if m_rtmEnd d = 0 then
           (case fb_GetEndTime (m_fbBlockList d) of
              (hr, Some e) \<Rightarrow> d\<lparr>m_rtmEnd := e\<rparr>
            | (hr, None) \<Rightarrow> d)
         else d)"

definition EnumBlocks :: "fb_data \<Rightarrow> filetime \<Rightarrow> filetime \<Rightarrow> fb_list \<times> fb_data" where
  "EnumBlocks d ftmStart ftmEnd =
     (let l = fb_Restrict (m_fbBlockList d) (FileTimeToRTime ftmStart) (FileTimeToRTime ftmEnd);
          (e, l) = ECEnumFBBlock l
      in (e, d\<lparr>m_fbBlockList := l\<rparr>))"

text \<open>The loop of \<open>FindFreeBlock\<close>, with as many rounds as there are blocks and one more.\<close>

fun overlap_loop :: "nat \<Rightarrow> u32 \<Rightarrow> u32 \<Rightarrow> fb_list \<Rightarrow> bool \<times> fb_list" where
  "overlap_loop 0 ulBegin ulEnd l = (False, l)"
| "overlap_loop (Suc n) ulBegin ulEnd l =
     (case fb_Next l of
        ((hr, None), l) \<Rightarrow> (False, l)
      | ((hr, Some b), l) \<Rightarrow>
          if sint (m_tmStart b) \<ge> sint ulEnd then (False, l)
          else if sint (m_tmEnd b) > sint (ulBegin + 1) \<and> sint (m_tmStart b) < sint ulEnd then (True, l)
          else overlap_loop n ulBegin ulEnd l)"

definition FindFreeBlock :: "fb_data \<Rightarrow> u32 \<Rightarrow> u32 \<Rightarrow> u32 \<Rightarrow> (hresult \<times> fb_block option) \<times> fb_data" where
  "FindFreeBlock d ulBegin ulMinutes ulEnd =
     (if sint (ulBegin + 1 + ulMinutes) > sint ulEnd then ((MAPI_E_NOT_FOUND, None), d)
      else
        let l = fb_Reset (m_fbBlockList d);
            (bOverlap, l) = overlap_loop (Suc (length (m_FBMap l))) ulBegin ulEnd l;
            d = d\<lparr>m_fbBlockList := l\<rparr>
        in if \<not> bOverlap
           then ((hrSuccess, Some \<lparr>m_tmStart = ulBegin + 1, m_tmEnd = ulBegin + 1 + ulMinutes, m_fbstatus = fbFree\<rparr>), d)
           else ((MAPI_E_NOT_FOUND, None), d))"

definition SetFBRange :: "fb_data \<Rightarrow> u32 \<Rightarrow> u32 \<Rightarrow> fb_data" where
  "SetFBRange d rtmStart rtmEnd = d\<lparr>m_rtmStart := rtmStart, m_rtmEnd := rtmEnd\<rparr>"

definition GetFBPublishRange :: "fb_data \<Rightarrow> u32 \<times> u32" where
  "GetFBPublishRange d = (m_rtmStart d, m_rtmEnd d)"

subsection \<open>Merging blocks before they are published\<close>

text \<open>
  \<open>mpTimestamps\<close>: for each time the last start or end that was stored there, with the status of its
  block, in the order of the times.
\<close>

fun put_time :: "int \<Rightarrow> bool \<times> u32 \<Rightarrow> (int \<times> bool \<times> u32) list \<Rightarrow> (int \<times> bool \<times> u32) list" where
  "put_time t x [] = [(t, x)]"
| "put_time t x ((u, y) # r) =
     (if t < u then (t, x) # (u, y) # r else if t = u then (t, x) # r else (u, y) # put_time t x r)"

definition put_block :: "fb_block \<Rightarrow> (int \<times> bool \<times> u32) list \<Rightarrow> (int \<times> bool \<times> u32) list" where
  "put_block b m =
     put_time (sint (m_tmEnd b)) (False, m_fbstatus b) (put_time (sint (m_tmStart b)) (True, m_fbstatus b) m)"

record sweep =
  sw_level :: u32
  sw_status :: "u32 list"
  sw_last :: int
  sw_out :: "fb_block list"

definition sweep_emit :: "int \<Rightarrow> sweep \<Rightarrow> sweep" where
  "sweep_emit t s =
     (let v = sort (sw_status s); st = (if v \<noteq> [] then last v else 0)
      in s\<lparr>sw_status := v,
           sw_out := (if st \<noteq> 0
             then sw_out s @ [\<lparr>m_tmStart = of_int (sw_last s), m_tmEnd = of_int t, m_fbstatus = st\<rparr>]
             else sw_out s)\<rparr>)"

fun sweep_step :: "int \<times> bool \<times> u32 \<Rightarrow> sweep \<Rightarrow> sweep" where
  "sweep_step (t, True, st) s =
     (let s = (if sw_level s \<noteq> 0 \<and> sw_last s \<noteq> t then sweep_emit t s else s)
      in s\<lparr>sw_level := sw_level s + 1, sw_status := sw_status s @ [st], sw_last := t\<rparr>)"
| "sweep_step (t, False, st) s =
     (let s = (if sw_last s \<noteq> t then sweep_emit t s else s)
      in s\<lparr>sw_level := sw_level s - 1, sw_status := remove1 st (sw_status s), sw_last := t\<rparr>)"

definition HrMergeBlocks :: "fb_block list \<Rightarrow> fb_block list" where
  "HrMergeBlocks bs =
     sw_out (fold sweep_step (fold put_block bs []) \<lparr>sw_level = 0, sw_status = [], sw_last = 0, sw_out = []\<rparr>)"

subsection \<open>Monthly events\<close>

definition leapyear :: "int \<Rightarrow> bool" where
  "leapyear year \<longleftrightarrow> year mod 4 = 0 \<and> (year mod 100 \<noteq> 0 \<or> year mod 400 = 0)"

text \<open>The minutes of a month go to a \<open>short\<close>; the old value stays when the month is refused.\<close>

definition getMaxMonthMinutes :: "int \<Rightarrow> int \<Rightarrow> u16 \<Rightarrow> hresult \<times> u16" where
  "getMaxMonthMinutes year month minutes =
     (if month < 0 \<or> month > 11 \<or> year < 1601 then (MAPI_E_INVALID_PARAMETER, minutes)
      else
        let days = (if month + 1 \<in> {1, 3, 5, 7, 8, 10, 12} then 31
                    else if month + 1 \<in> {4, 6, 9, 11} then 30
                    else if leapyear year then 29 else 28)
        in (hrSuccess, of_int (days * (24 * 60))))"

definition FB_YEARMONTH :: "int \<Rightarrow> int \<Rightarrow> u32" where
  "FB_YEARMONTH year month = ((push_bit 4 (ucast (of_int year :: u16)) AND 0xFFF0) OR ucast (of_int month :: u16))"

definition FB_YEAR :: "u32 \<Rightarrow> int" where
  "FB_YEAR yearmonth = uint (drop_bit 4 (ucast yearmonth :: u16))"

definition FB_MONTH :: "u32 \<Rightarrow> int" where
  "FB_MONTH yearmonth = uint ((ucast yearmonth :: u16) AND 0x000F)"

definition DiffYearMonthToMonth :: "tm \<Rightarrow> tm \<Rightarrow> u32" where
  "DiffYearMonthToMonth tm1 tm2 =
     (if tm_year tm1 = tm_year tm2 then of_int (tm_mon tm2 - tm_mon tm1)
      else if tm_year tm2 > tm_year tm1 \<and> tm_mon tm2 \<ge> tm_mon tm1
        then of_int (12 * (tm_year tm2 - tm_year tm1) + tm_mon tm2 - tm_mon tm1)
      else if tm_year tm2 > tm_year tm1 \<and> tm_mon tm2 < tm_mon tm1
        then of_int (12 * (tm_year tm2 - tm_year tm1 - 1) + (tm_mon tm2 + 1) + (11 - tm_mon tm1))
      else 0)"

text \<open>
  The two properties: the months, and the events of each as pairs of minutes since its start.
  \<open>ulMonths + 1\<close> of them have room; a write behind them is \<^const>\<open>None\<close>.
\<close>

type_synonym fb_prop = "(u32 \<times> (u16 \<times> u16) list) list"

record fbp_state =
  fbp_prop :: fb_prop
  fbp_lastYear :: int
  fbp_lastMonth :: int
  fbp_found :: bool
  fbp_end :: u16

definition new_month :: "u32 \<Rightarrow> int \<Rightarrow> int \<Rightarrow> fb_prop \<Rightarrow> fb_prop option" where
  "new_month ulMonths year mon p =
     (if length p < unat ulMonths + 1 then Some (p @ [(FB_YEARMONTH (year + 1900) (mon + 1), [])]) else None)"

definition add_event :: "u16 \<times> u16 \<Rightarrow> fb_prop \<Rightarrow> fb_prop option" where
  "add_event ev p =
     (if p = [] then None else Some (butlast p @ [(fst (last p), snd (last p) @ [ev])]))"

definition month_minutes :: "tm \<Rightarrow> u16" where
  "month_minutes t = of_int ((tm_mday t - 1) * 24 * 60 + tm_hour t * 60 + tm_min t)"

text \<open>\<open>mktime\<close> on the first day of a month only carries the month into the year.\<close>

definition next_month :: "int \<times> int \<Rightarrow> int \<times> int" where
  "next_month ym = (if snd ym + 1 = 12 then (fst ym + 1, 0) else (fst ym, snd ym + 1))"

text \<open>The months in between, \<open>k\<close> at most; it leaves the last event's end.\<close>

fun full_months :: "nat \<Rightarrow> u32 \<Rightarrow> int \<times> int \<Rightarrow> u16 \<Rightarrow> fb_prop \<Rightarrow> ((int \<times> int) \<times> u16 \<times> fb_prop) option" where
  "full_months 0 ulMonths ym e p = Some (ym, e, p)"
| "full_months (Suc k) ulMonths ym e p =
     (if length p < unat ulMonths then do {
        let ym = next_month ym;
        p \<leftarrow> new_month ulMonths (fst ym) (snd ym) p;
        let e = snd (getMaxMonthMinutes (fst ym + 1900) (snd ym) e);
        p \<leftarrow> add_event (0, e) p;
        full_months k ulMonths ym e p
      } else Some (ym, e, p))"

definition fbp_block :: "u32 \<Rightarrow> fb_block \<Rightarrow> fbp_state \<Rightarrow> fbp_state option" where
  "fbp_block ulMonths b s = do {
     let tmStart = gmtime_safe (RTimeToUnixTime (m_tmStart b));
     let tmEnd = gmtime_safe (RTimeToUnixTime (m_tmEnd b));
     p \<leftarrow> (if tm_year tmStart > fbp_lastYear s \<or> tm_mon tmStart > fbp_lastMonth s
           then new_month ulMonths (tm_year tmStart) (tm_mon tmStart) (fbp_prop s)
           else Some (fbp_prop s));
     (p, ev) \<leftarrow> (if tm_year tmEnd > tm_year tmStart \<or> tm_mon tmEnd > tm_mon tmStart then do {
         let e = snd (getMaxMonthMinutes (tm_year tmStart + 1900) (tm_mon tmStart) (fbp_end s));
         p \<leftarrow> add_event (month_minutes tmStart, e) p;
         (ym, e, p) \<leftarrow> full_months (nat (sint (DiffYearMonthToMonth tmStart tmEnd) - 1)) ulMonths
           (tm_year tmStart, tm_mon tmStart) e p;
         let ym = next_month ym;
         p \<leftarrow> new_month ulMonths (fst ym) (snd ym) p;
         Some (p, (0, month_minutes tmEnd))
       } else Some (p, (month_minutes tmStart, month_minutes tmEnd)));
     p \<leftarrow> add_event ev p;
     Some \<lparr>fbp_prop = p, fbp_lastYear = tm_year tmEnd, fbp_lastMonth = tm_mon tmEnd, fbp_found = True, fbp_end = snd ev\<rparr>
   }"

text \<open>The loop over the blocks; \<open>iMonth\<close> is one less than the number of months.\<close>

fun fbp_loop :: "nat \<Rightarrow> u32 \<Rightarrow> u32 \<Rightarrow> fb_list \<Rightarrow> fbp_state \<Rightarrow> (fbp_state \<times> fb_list) option" where
  "fbp_loop 0 fbStatus ulMonths l s = None"
| "fbp_loop (Suc n) fbStatus ulMonths l s =
     (case fb_Next l of
        ((hr, None), l) \<Rightarrow> Some (s, l)
      | ((hr, Some b), l) \<Rightarrow>
          if int (length (fbp_prop s)) - 1 < sint ulMonths then
            if m_fbstatus b = fbStatus \<or> fbStatus = fbZarafaAllBusy then do {
              s \<leftarrow> fbp_block ulMonths b s;
              fbp_loop n fbStatus ulMonths l s
            } else fbp_loop n fbStatus ulMonths l s
          else Some (s, l))"

definition CreateFBProp :: "u16 \<Rightarrow> u32 \<Rightarrow> u32 \<Rightarrow> fb_list \<Rightarrow> ((hresult + fb_prop) \<times> fb_list) option" where
  "CreateFBProp junk fbStatus ulMonths l = do {
     let l = fb_Reset l;
     (s, l) \<leftarrow> fbp_loop (length (m_FBMap l) + 2) fbStatus ulMonths l
       \<lparr>fbp_prop = [], fbp_lastYear = 0, fbp_lastMonth = 0, fbp_found = False, fbp_end = junk\<rparr>;
     Some (if fbp_found s then Inr (fbp_prop s) else Inl MAPI_E_NOT_FOUND, l)
   }"

text \<open>Reading the properties back; the end of the last block is kept between events and months.\<close>

definition parse_event :: "u32 \<Rightarrow> u32 \<Rightarrow> u16 \<times> u16 \<Rightarrow> fb_block \<times> fb_list \<Rightarrow> fb_block \<times> fb_list" where
  "parse_event fbSts month ev = (\<lambda>(blk, l).
     let rtm = (\<lambda>m. UnixTimeToRTime (timegm_day (FB_YEAR month - 1900) (FB_MONTH month - 1) 1 + uint m * 60));
         bMerge = (m_tmEnd blk = rtm (fst ev));
         blk = \<lparr>m_tmStart = rtm (fst ev), m_tmEnd = rtm (snd ev), m_fbstatus = fbSts\<rparr>
     in (blk, if bMerge then snd (fb_Merge l blk) else fb_Add l blk))"

definition ParseFBEvents :: "u32 \<Rightarrow> u32 list \<Rightarrow> (u16 \<times> u16) list list \<Rightarrow> fb_list \<Rightarrow> hresult \<times> fb_list" where
  "ParseFBEvents fbSts months events l =
     (if length events \<noteq> length months then (MAPI_E_INVALID_PARAMETER, l)
      else (hrSuccess, snd (fold (\<lambda>(m, evs). fold (parse_event fbSts m) evs) (zip months events)
              (\<lparr>m_tmStart = 0, m_tmEnd = 0, m_fbstatus = 0\<rparr>, l))))"

text \<open>
  The properties of a free/busy message. Its \<open>SetProps\<close>, \<open>DeleteProps\<close> and \<open>SaveChanges\<close> succeed here.
\<close>

record fb_message =
  fm_start :: u32
  fm_end :: u32
  fm_num_months :: u32
  fm_all :: "fb_prop option"
  fm_busy :: "fb_prop option"
  fm_tentative :: "fb_prop option"
  fm_oof :: "fb_prop option"

definition PublishBlocks :: "fb_list \<Rightarrow> fb_block list \<Rightarrow> fb_list" where
  "PublishBlocks l bs = fold (\<lambda>b l. fb_Add l b) bs l"

definition fb_prop_of :: "u16 \<Rightarrow> u32 \<Rightarrow> u32 \<Rightarrow> fb_list \<Rightarrow> (fb_prop option \<times> fb_list) option" where
  "fb_prop_of junk fbStatus ulMonths l = do {
     (r, l) \<leftarrow> CreateFBProp junk fbStatus ulMonths l;
     Some (case r of Inl e \<Rightarrow> None | Inr p \<Rightarrow> Some p, l)
   }"

definition fb_SaveChanges ::
  "u16 \<Rightarrow> filetime \<Rightarrow> filetime \<Rightarrow> fb_list \<Rightarrow> ((hresult \<times> fb_message option) \<times> fb_list) option" where
  "fb_SaveChanges junk ftStart ftEnd l =
     (let rtmStart = FileTimeToRTime ftStart; rtmEnd = FileTimeToRTime ftEnd in
      if rtmStart > rtmEnd then Some ((MAPI_E_BAD_VALUE, None), fb_Reset l)
      else do {
        let l = fb_Restrict l rtmStart rtmEnd;
        let months = DiffYearMonthToMonth (gmtime_safe (RTimeToUnixTime rtmStart)) (gmtime_safe (RTimeToUnixTime rtmEnd));
        let ulMonths = (if months = 0 then 1 else months);
        (all, l) \<leftarrow> fb_prop_of junk fbZarafaAllBusy ulMonths l;
        (busy, l) \<leftarrow> fb_prop_of junk fbBusy ulMonths l;
        (tentative, l) \<leftarrow> fb_prop_of junk fbTentative ulMonths l;
        (oof, l) \<leftarrow> fb_prop_of junk fbOutOfOffice ulMonths l;
        Some ((hrSuccess, Some \<lparr>fm_start = rtmStart, fm_end = rtmEnd, fm_num_months = ulMonths, fm_all = all,
                fm_busy = busy, fm_tentative = tentative, fm_oof = oof\<rparr>), fb_Reset l)
      })"

definition parse_prop :: "u32 \<Rightarrow> fb_prop option \<Rightarrow> fb_list \<Rightarrow> hresult \<times> fb_list" where
  "parse_prop fbSts p l =
     (case p of None \<Rightarrow> (hrSuccess, l) | Some p \<Rightarrow> ParseFBEvents fbSts (map fst p) (map snd p) l)"

definition GetFreeBusyMessageData :: "fb_message \<Rightarrow> fb_list \<Rightarrow> (hresult \<times> u32 \<times> u32) \<times> fb_list" where
  "GetFreeBusyMessageData m l =
     (let (hr, l) = parse_prop fbBusy (fm_busy m) l in
      if hr \<noteq> hrSuccess then ((hr, 0, 0), l) else
      let (hr, l) = parse_prop fbTentative (fm_tentative m) l in
      if hr \<noteq> hrSuccess then ((hr, 0, 0), l) else
      let (hr, l) = parse_prop fbOutOfOffice (fm_oof m) l in
      if hr \<noteq> hrSuccess then ((hr, 0, 0), l) else ((hrSuccess, fm_start m, fm_end m), l))"

end
