(* ===== verification/Recurrence.thy ===== *)
theory Recurrence
  imports Recurrence_State Free_Busy
begin

text \<open>
  The class \<open>recurrence\<close> of \<^verbatim>\<open>libfreebusy/recurrence.cpp\<close> over the parsed blob: the pattern and its
  bounds, deleted and modified occurrences, and the check and completion of the blob before it is
  written. \<open>ULONG\<close> arithmetic wraps at 32 bits. A remainder by zero, an \<open>int\<close> that overflows, a
  negative shift and an index out of range are \<^const>\<open>None\<close>.
\<close>

record recurrence =
  m_sRecState :: recurrence_state
  m_ulMonth :: u32

definition on_state :: "(recurrence_state \<Rightarrow> recurrence_state) \<Rightarrow> recurrence \<Rightarrow> recurrence" where
  "on_state f r = r\<lparr>m_sRecState := f (m_sRecState r)\<rparr>"

definition new_recurrence :: "u32 \<Rightarrow> recurrence" where
  "new_recurrence enddate = \<lparr>m_sRecState = new_RecurrenceState enddate, m_ulMonth = 0\<rparr>"

definition HrLoadRecurrenceState :: "rs_env \<Rightarrow> recurrence \<Rightarrow> bytes \<Rightarrow> u32 \<Rightarrow> (hresult \<times> recurrence) option" where
  "HrLoadRecurrenceState e r lpData ulFlags =
     map_option (\<lambda>(hr, s). (hr, r\<lparr>m_sRecState := s\<rparr>)) (ParseBlob e (m_sRecState r) lpData ulFlags)"

definition RF_DAILY :: u32 where "RF_DAILY = 0x200A"
definition RF_WEEKLY :: u32 where "RF_WEEKLY = 0x200B"
definition RF_MONTHLY :: u32 where "RF_MONTHLY = 0x200C"
definition RF_YEARLY :: u32 where "RF_YEARLY = 0x200D"
definition ET_DATE :: u32 where "ET_DATE = 0x2021"
definition ET_NUMBER :: u32 where "ET_NUMBER = 0x2022"
definition ET_NEVER :: u32 where "ET_NEVER = 0x2023"
definition WD_MASK :: u8 where "WD_MASK = 0x7F"
definition ARO_EXCEPTIONAL_BODY :: u32 where "ARO_EXCEPTIONAL_BODY = 0x0200"

subsection \<open>The pattern\<close>

datatype freq_type = DAILY | WEEKLY | MONTHLY | YEARLY
datatype term_type = DATE | NUMBER | NEVER

definition getFrequency :: "recurrence \<Rightarrow> freq_type" where
  "getFrequency r =
     (let f = ulRecurFrequency (m_sRecState r) in
      if f = RF_DAILY then DAILY else if f = RF_WEEKLY then WEEKLY
      else if f = RF_MONTHLY then MONTHLY else if f = RF_YEARLY then YEARLY else DAILY)"

definition setFrequency :: "freq_type \<Rightarrow> recurrence \<Rightarrow> hresult \<times> recurrence" where
  "setFrequency ft r = (hrSuccess, on_state (\<lambda>s. case ft of
       DAILY \<Rightarrow> s\<lparr>ulRecurFrequency := RF_DAILY, ulPatternType := 0, ulPeriod := 60 * 24\<rparr>
     | WEEKLY \<Rightarrow> s\<lparr>ulRecurFrequency := RF_WEEKLY, ulPatternType := 1, ulPeriod := 1\<rparr>
     | MONTHLY \<Rightarrow> s\<lparr>ulRecurFrequency := RF_MONTHLY, ulPatternType := 2, ulPeriod := 1\<rparr>
     | YEARLY \<Rightarrow> s\<lparr>ulRecurFrequency := RF_YEARLY, ulPatternType := 2, ulPeriod := 12\<rparr>) r)"

definition getStartDate :: "recurrence \<Rightarrow> int" where
  "getStartDate r = RTimeToUnixTime (ulStartDate (m_sRecState r))"

definition setStartDate :: "int \<Rightarrow> recurrence \<Rightarrow> hresult \<times> recurrence" where
  "setStartDate tStart r =
     (hrSuccess, on_state (\<lambda>s. s\<lparr>ulStartDate := UnixTimeToRTime (StartOfDay tStart)\<rparr>) r)"

definition getEndDate :: "recurrence \<Rightarrow> int" where
  "getEndDate r = RTimeToUnixTime (ulEndDate (m_sRecState r))"

definition setEndDate :: "int \<Rightarrow> recurrence \<Rightarrow> hresult \<times> recurrence" where
  "setEndDate tEnd r =
     (hrSuccess, on_state (\<lambda>s. s\<lparr>ulEndDate := UnixTimeToRTime (StartOfDay tEnd)\<rparr>) r)"

definition getStartTimeOffset :: "recurrence \<Rightarrow> u32" where
  "getStartTimeOffset r = ulStartTimeOffset (m_sRecState r) * 60"

definition setStartTimeOffset :: "u32 \<Rightarrow> recurrence \<Rightarrow> hresult \<times> recurrence" where
  "setStartTimeOffset ulMinutesSinceMidnight r =
     (if ulMinutesSinceMidnight \<ge> 24 * 60 then (E_INVALIDARG, r)
      else (hrSuccess, on_state (\<lambda>s. s\<lparr>ulStartTimeOffset := ulMinutesSinceMidnight\<rparr>) r))"

definition getEndTimeOffset :: "recurrence \<Rightarrow> u32" where
  "getEndTimeOffset r = ulEndTimeOffset (m_sRecState r) * 60"

definition setEndTimeOffset :: "u32 \<Rightarrow> recurrence \<Rightarrow> hresult \<times> recurrence" where
  "setEndTimeOffset ulMinutesSinceMidnight r =
     (hrSuccess, on_state (\<lambda>s. s\<lparr>ulEndTimeOffset := ulMinutesSinceMidnight\<rparr>) r)"

definition getStartDateTime :: "recurrence \<Rightarrow> int" where
  "getStartDateTime r =
     RTimeToUnixTime (ulStartDate (m_sRecState r)) + uint (ulStartTimeOffset (m_sRecState r) * 60)"

definition setStartDateTime :: "int \<Rightarrow> recurrence \<Rightarrow> hresult \<times> recurrence" where
  "setStartDateTime t r =
     (let startDate = StartOfDay t in
      (hrSuccess, on_state (\<lambda>s. s\<lparr>ulStartDate := UnixTimeToRTime startDate,
         ulStartTimeOffset := of_int ((t - startDate) sdiv 60)\<rparr>) r))"

definition getEndDateTime :: "recurrence \<Rightarrow> int" where
  "getEndDateTime r =
     RTimeToUnixTime (ulEndDate (m_sRecState r)) + uint (ulEndTimeOffset (m_sRecState r) * 60)"

definition setEndDateTime :: "int \<Rightarrow> recurrence \<Rightarrow> hresult \<times> recurrence" where
  "setEndDateTime t r =
     (hrSuccess, on_state (\<lambda>s. s\<lparr>ulEndDate := UnixTimeToRTime (StartOfDay t),
        ulEndTimeOffset := of_int ((t - getStartDate r) sdiv 60)\<rparr>) r)"

definition getCount :: "recurrence \<Rightarrow> u32" where
  "getCount r = ulOccurrenceCount (m_sRecState r)"

definition setCount :: "u32 \<Rightarrow> recurrence \<Rightarrow> hresult \<times> recurrence" where
  "setCount ulCount r = (hrSuccess, on_state (\<lambda>s. s\<lparr>ulOccurrenceCount := ulCount\<rparr>) r)"

definition getEndType :: "recurrence \<Rightarrow> term_type" where
  "getEndType r =
     (if ulEndType (m_sRecState r) = ET_DATE then DATE
      else if ulEndType (m_sRecState r) = ET_NUMBER then NUMBER else NEVER)"

definition setEndType :: "term_type \<Rightarrow> recurrence \<Rightarrow> hresult \<times> recurrence" where
  "setEndType t r = (hrSuccess, on_state (\<lambda>s. s\<lparr>ulEndType :=
     (case t of DATE \<Rightarrow> ET_DATE | NUMBER \<Rightarrow> ET_NUMBER | NEVER \<Rightarrow> ET_NEVER)\<rparr>) r)"

definition getInterval :: "recurrence \<Rightarrow> u32" where
  "getInterval r =
     (let s = m_sRecState r in
      if ulPatternType s = 0 then ulPeriod s div (60 * 24)
      else if getFrequency r = YEARLY then ulPeriod s div 12
      else ulPeriod s)"

text \<open>The frequency is set before the interval: the period is multiplied.\<close>

definition setInterval :: "u32 \<Rightarrow> recurrence \<Rightarrow> hresult \<times> recurrence" where
  "setInterval i r =
     (if i = 0 then (E_INVALIDARG, r)
      else (hrSuccess, on_state (\<lambda>s. s\<lparr>ulPeriod := ulPeriod s * i\<rparr>) r))"

definition getSlidingFlag :: "recurrence \<Rightarrow> u32" where
  "getSlidingFlag r = ulSlidingFlag (m_sRecState r)"

definition setSlidingFlag :: "u32 \<Rightarrow> recurrence \<Rightarrow> hresult \<times> recurrence" where
  "setSlidingFlag x r = (hrSuccess, on_state (\<lambda>s. s\<lparr>ulSlidingFlag := x\<rparr>) r)"

definition getFirstDOW :: "recurrence \<Rightarrow> u32" where
  "getFirstDOW r = ulFirstDOW (m_sRecState r)"

definition setFirstDOW :: "u32 \<Rightarrow> recurrence \<Rightarrow> hresult \<times> recurrence" where
  "setFirstDOW x r = (hrSuccess, on_state (\<lambda>s. s\<lparr>ulFirstDOW := x\<rparr>) r)"

definition getWeekDays :: "recurrence \<Rightarrow> u8" where
  "getWeekDays r = (if ulPatternType (m_sRecState r) = 0 then 0 else ucast (ulWeekDays (m_sRecState r)))"

definition setWeekDays :: "u8 \<Rightarrow> recurrence \<Rightarrow> hresult \<times> recurrence" where
  "setWeekDays d r = (hrSuccess, on_state (\<lambda>s.
     (if ulPatternType s = 0 then s\<lparr>ulPatternType := 1, ulPeriod := ulPeriod s div (24 * 60)\<rparr> else s)
       \<lparr>ulWeekDays := ucast (d AND WD_MASK)\<rparr>) r)"

definition getDayOfMonth :: "recurrence \<Rightarrow> u8" where
  "getDayOfMonth r =
     (let s = m_sRecState r in
      if ulRecurFrequency s \<noteq> RF_YEARLY \<and> ulRecurFrequency s \<noteq> RF_MONTHLY \<and>
         (ulPatternType s \<noteq> 2 \<or> ulPatternType s \<noteq> 4)
      then 0 else ucast (ulDayOfMonth s))"

definition setDayOfMonth :: "u8 \<Rightarrow> recurrence \<Rightarrow> hresult \<times> recurrence" where
  "setDayOfMonth d r = (hrSuccess, on_state (\<lambda>s. s\<lparr>ulDayOfMonth := ucast d\<rparr>) r)"

definition getMonth :: "recurrence \<Rightarrow> int" where
  "getMonth r =
     (if m_ulMonth r > 0 \<and> m_ulMonth r < 13 then uint (m_ulMonth r)
      else tm_mon (gmtime_safe (getStartDate r)) + 1)"

definition setMonth :: "u8 \<Rightarrow> recurrence \<Rightarrow> hresult \<times> recurrence" where
  "setMonth m r = (if m < 1 \<or> m > 12 then (MAPI_E_CALL_FAILED, r) else (hrSuccess, r\<lparr>m_ulMonth := ucast m\<rparr>))"

definition getWeekNumber :: "recurrence \<Rightarrow> u8" where
  "getWeekNumber r =
     (if ulPatternType (m_sRecState r) \<noteq> 3 \<and> ulPatternType (m_sRecState r) \<noteq> 0xB then 0
      else ucast (ulWeekNumber (m_sRecState r)))"

definition setWeekNumber :: "u8 \<Rightarrow> recurrence \<Rightarrow> hresult \<times> recurrence" where
  "setWeekNumber x r = (hrSuccess, on_state (\<lambda>s. s\<lparr>ulPatternType := 3, ulWeekNumber := ucast x\<rparr>) r)"

definition HrGetHumanReadableString :: "recurrence \<Rightarrow> hresult \<times> string" where
  "HrGetHumanReadableString r = (hrSuccess, ''This item is recurring'')"

subsection \<open>Deleted and modified occurrences\<close>

definition addDeletedException :: "int \<Rightarrow> recurrence \<Rightarrow> hresult \<times> recurrence" where
  "addDeletedException tDelete r = (hrSuccess, on_state (\<lambda>s. s\<lparr>lstDeletedInstanceDates :=
     lstDeletedInstanceDates s @ [UnixTimeToRTime (StartOfDay tDelete)]\<rparr>) r)"

text \<open>The date of a moved occurrence is a modification: its first entry leaves the copied list.\<close>

definition original_day :: "rexception \<Rightarrow> u32" where
  "original_day x = ex_ulOriginalStartDate x - ex_ulOriginalStartDate x mod 1440"

definition getDeletedExceptions :: "recurrence \<Rightarrow> int list" where
  "getDeletedExceptions r =
     map (\<lambda>d. RTimeToUnixTime d + uint (getStartTimeOffset r))
       (fold (\<lambda>x. remove1 (original_day x)) (lstExceptions (m_sRecState r))
          (lstDeletedInstanceDates (m_sRecState r)))"

definition getModifiedOccurrences :: "recurrence \<Rightarrow> int list" where
  "getModifiedOccurrences r =
     map (\<lambda>x. RTimeToUnixTime (ex_ulOriginalStartDate x)) (lstExceptions (m_sRecState r))"

definition getModifiedCount :: "recurrence \<Rightarrow> u32" where
  "getModifiedCount r = ulModifiedInstanceCount (m_sRecState r)"

text \<open>The getters of one modification: the count guards the index, not the length of the list.\<close>

definition modified_field :: "(rexception \<Rightarrow> 'a) \<Rightarrow> 'a \<Rightarrow> recurrence \<Rightarrow> u32 \<Rightarrow> 'a option" where
  "modified_field f none r i =
     (let xs = lstExceptions (m_sRecState r) in
      if i \<ge> ulModifiedInstanceCount (m_sRecState r) then Some none
      else if unat i < length xs then Some (f (xs ! unat i)) else None)"

definition extended_field :: "(extexception \<Rightarrow> 'a) \<Rightarrow> 'a \<Rightarrow> recurrence \<Rightarrow> u32 \<Rightarrow> 'a option" where
  "extended_field f none r i =
     (let xs = lstExtendedExceptions (m_sRecState r) in
      if i \<ge> ulModifiedInstanceCount (m_sRecState r) then Some none
      else if unat i < length xs then Some (f (xs ! unat i)) else None)"

definition getModifiedFlags :: "recurrence \<Rightarrow> u32 \<Rightarrow> u32 option" where
  "getModifiedFlags = modified_field ex_ulOverrideFlags 0"

definition getModifiedStartDateTime :: "recurrence \<Rightarrow> u32 \<Rightarrow> int option" where
  "getModifiedStartDateTime = modified_field (\<lambda>x. RTimeToUnixTime (ex_ulStartDateTime x)) 0"

definition getModifiedEndDateTime :: "recurrence \<Rightarrow> u32 \<Rightarrow> int option" where
  "getModifiedEndDateTime = modified_field (\<lambda>x. RTimeToUnixTime (ex_ulEndDateTime x)) 0"

definition getModifiedOriginalDateTime :: "recurrence \<Rightarrow> u32 \<Rightarrow> int option" where
  "getModifiedOriginalDateTime = modified_field (\<lambda>x. RTimeToUnixTime (ex_ulOriginalStartDate x)) 0"

definition getModifiedSubject :: "recurrence \<Rightarrow> u32 \<Rightarrow> nat list option" where
  "getModifiedSubject = extended_field xx_strWideCharSubject []"

definition getModifiedMeetingType :: "recurrence \<Rightarrow> u32 \<Rightarrow> u32 option" where
  "getModifiedMeetingType = modified_field ex_ulApptStateFlags 0"

definition getModifiedReminderDelta :: "recurrence \<Rightarrow> u32 \<Rightarrow> u32 option" where
  "getModifiedReminderDelta = modified_field ex_ulReminderDelta 0"

definition getModifiedReminder :: "recurrence \<Rightarrow> u32 \<Rightarrow> u32 option" where
  "getModifiedReminder = modified_field ex_ulReminderSet 0"

definition getModifiedLocation :: "recurrence \<Rightarrow> u32 \<Rightarrow> nat list option" where
  "getModifiedLocation = extended_field xx_strWideCharLocation []"

definition getModifiedBusyStatus :: "recurrence \<Rightarrow> u32 \<Rightarrow> u32 option" where
  "getModifiedBusyStatus = modified_field ex_ulBusyStatus 0"

definition getModifiedAttachment :: "recurrence \<Rightarrow> u32 \<Rightarrow> u32 option" where
  "getModifiedAttachment = modified_field ex_ulAttachment 0"

definition getModifiedSubType :: "recurrence \<Rightarrow> u32 \<Rightarrow> u32 option" where
  "getModifiedSubType = modified_field ex_ulSubType 0"

definition zero_exception :: rexception where
  "zero_exception = \<lparr>ex_ulStartDateTime = 0, ex_ulEndDateTime = 0, ex_ulOriginalStartDate = 0,
     ex_ulOverrideFlags = 0, ex_strSubject = [], ex_ulApptStateFlags = 0, ex_ulReminderDelta = 0,
     ex_ulReminderSet = 0, ex_strLocation = [], ex_ulBusyStatus = 0, ex_ulAttachment = 0,
     ex_ulSubType = 0, ex_ulAppointmentColor = 0\<rparr>"

definition zero_extended :: extexception where
  "zero_extended = \<lparr>xx_ulChangeHighlightValue = 0, xx_strReserved = [], xx_strReservedBlock1 = [],
     xx_ulStartDateTime = 0, xx_ulEndDateTime = 0, xx_ulOriginalStartDate = 0,
     xx_strWideCharSubject = [], xx_strWideCharLocation = [], xx_strReservedBlock2 = []\<rparr>"

text \<open>A modification is also a deletion of the original day; the id is the index it gets.\<close>

definition addModifiedException :: "int \<Rightarrow> int \<Rightarrow> int \<Rightarrow> recurrence \<Rightarrow> (hresult \<times> u32) \<times> recurrence" where
  "addModifiedException tStart tEnd tOriginalStart r =
     (let rStart = UnixTimeToRTime tStart; rEnd = UnixTimeToRTime tEnd; rOrig = UnixTimeToRTime tOriginalStart
      in ((hrSuccess, of_nat (length (lstModifiedInstanceDates (m_sRecState r)))),
          on_state (\<lambda>s. s\<lparr>
            lstModifiedInstanceDates := lstModifiedInstanceDates s @ [UnixTimeToRTime (StartOfDay tStart)],
            lstDeletedInstanceDates := lstDeletedInstanceDates s @ [UnixTimeToRTime (StartOfDay tOriginalStart)],
            lstExceptions := lstExceptions s @ [zero_exception\<lparr>ex_ulStartDateTime := rStart,
              ex_ulEndDateTime := rEnd, ex_ulOriginalStartDate := rOrig\<rparr>],
            lstExtendedExceptions := lstExtendedExceptions s @ [zero_extended\<lparr>xx_ulStartDateTime := rStart,
              xx_ulEndDateTime := rEnd, xx_ulOriginalStartDate := rOrig\<rparr>]\<rparr>) r))"

text \<open>The setters of one modification: here the length of the list guards the index.\<close>

definition set_modified :: "u32 \<Rightarrow> (rexception \<Rightarrow> rexception) \<Rightarrow> u32 \<Rightarrow> recurrence \<Rightarrow> hresult \<times> recurrence" where
  "set_modified flag f i r =
     (let xs = lstExceptions (m_sRecState r) in
      if unat i \<ge> length xs then (S_FALSE, r)
      else (hrSuccess, on_state (\<lambda>s. s\<lparr>lstExceptions := xs[unat i :=
              f ((xs ! unat i)\<lparr>ex_ulOverrideFlags := ex_ulOverrideFlags (xs ! unat i) OR flag\<rparr>)]\<rparr>) r))"

definition set_extended :: "(extexception \<Rightarrow> extexception) \<Rightarrow> u32 \<Rightarrow> recurrence \<Rightarrow> recurrence option" where
  "set_extended f i r =
     (let xs = lstExtendedExceptions (m_sRecState r) in
      if unat i < length xs
      then Some (on_state (\<lambda>s. s\<lparr>lstExtendedExceptions := xs[unat i := f (xs ! unat i)]\<rparr>) r) else None)"

text \<open>\<open>cv\<close> is \<open>convert_to<string>\<close>.\<close>

definition setModifiedSubject :: "(nat list \<Rightarrow> bytes) \<Rightarrow> u32 \<Rightarrow> nat list \<Rightarrow> recurrence \<Rightarrow> (hresult \<times> recurrence) option" where
  "setModifiedSubject cv i str r =
     (case set_modified ARO_SUBJECT (\<lambda>x. x\<lparr>ex_strSubject := cv str\<rparr>) i r of (hr, r') \<Rightarrow>
        if hr = S_FALSE then Some (hr, r')
        else map_option (Pair hrSuccess) (set_extended (\<lambda>x. x\<lparr>xx_strWideCharSubject := str\<rparr>) i r'))"

definition setModifiedMeetingType :: "u32 \<Rightarrow> u32 \<Rightarrow> recurrence \<Rightarrow> hresult \<times> recurrence" where
  "setModifiedMeetingType i type = set_modified ARO_MEETINGTYPE (\<lambda>x. x\<lparr>ex_ulApptStateFlags := type\<rparr>) i"

definition setModifiedReminderDelta :: "u32 \<Rightarrow> u32 \<Rightarrow> recurrence \<Rightarrow> hresult \<times> recurrence" where
  "setModifiedReminderDelta i delta = set_modified ARO_REMINDERDELTA (\<lambda>x. x\<lparr>ex_ulReminderDelta := delta\<rparr>) i"

definition setModifiedReminder :: "u32 \<Rightarrow> u32 \<Rightarrow> recurrence \<Rightarrow> hresult \<times> recurrence" where
  "setModifiedReminder i x = set_modified ARO_REMINDERSET (\<lambda>e. e\<lparr>ex_ulReminderSet := x\<rparr>) i"

definition setModifiedLocation :: "(nat list \<Rightarrow> bytes) \<Rightarrow> u32 \<Rightarrow> nat list \<Rightarrow> recurrence \<Rightarrow> (hresult \<times> recurrence) option" where
  "setModifiedLocation cv i str r =
     (case set_modified ARO_LOCATION (\<lambda>x. x\<lparr>ex_strLocation := cv str\<rparr>) i r of (hr, r') \<Rightarrow>
        if hr = S_FALSE then Some (hr, r')
        else map_option (Pair hrSuccess) (set_extended (\<lambda>x. x\<lparr>xx_strWideCharLocation := str\<rparr>) i r'))"

definition setModifiedBusyStatus :: "u32 \<Rightarrow> u32 \<Rightarrow> recurrence \<Rightarrow> hresult \<times> recurrence" where
  "setModifiedBusyStatus i status = set_modified ARO_BUSYSTATUS (\<lambda>x. x\<lparr>ex_ulBusyStatus := status\<rparr>) i"

definition setModifiedAttachment :: "u32 \<Rightarrow> recurrence \<Rightarrow> hresult \<times> recurrence" where
  "setModifiedAttachment i = set_modified ARO_ATTACHMENT id i"

definition setModifiedSubType :: "u32 \<Rightarrow> u32 \<Rightarrow> recurrence \<Rightarrow> hresult \<times> recurrence" where
  "setModifiedSubType i subtype = set_modified ARO_SUBTYPE (\<lambda>x. x\<lparr>ex_ulSubType := subtype\<rparr>) i"

definition setModifiedApptColor :: "u32 \<Rightarrow> u32 \<Rightarrow> recurrence \<Rightarrow> hresult \<times> recurrence" where
  "setModifiedApptColor i color = set_modified ARO_APPTCOLOR (\<lambda>x. x\<lparr>ex_ulAppointmentColor := color\<rparr>) i"

definition setModifiedBody :: "u32 \<Rightarrow> recurrence \<Rightarrow> hresult \<times> recurrence" where
  "setModifiedBody i = set_modified ARO_EXCEPTIONAL_BODY id i"

subsection \<open>Writing the blob\<close>

text \<open>The bit of a weekday in \<open>ulWeekDays\<close>.\<close>

definition on_weekday :: "u32 \<Rightarrow> int \<Rightarrow> bool" where
  "on_weekday days wday \<longleftrightarrow> days AND push_bit (nat wday) 1 \<noteq> 0"

text \<open>The days from a weekday to the next day of the pattern; none is \<open>-1\<close>.\<close>

definition day_skip :: "u32 \<Rightarrow> int \<Rightarrow> int" where
  "day_skip days wday =
     (case filter (\<lambda>j. on_weekday days ((wday + int j) mod 7)) [0..<7] of [] \<Rightarrow> -1 | j # _ \<Rightarrow> int j)"

text \<open>From a start time to the first occurrence of a weekly pattern.\<close>

definition weekly_start :: "recurrence_state \<Rightarrow> int \<Rightarrow> int" where
  "weekly_start s tStart =
     (let wday = tm_wday (gmtime_safe tStart);
          dayskip = day_skip (ulWeekDays s) wday;
          weekskip = (if (wday < sint (ulFirstDOW s) \<and> dayskip > 0) \<or> wday + dayskip > 6 then 1 else 0)
      in tStart + dayskip * 24 * 60 * 60 + uint (weekskip * (ulPeriod s - 1) * 7 * 24 * 60 * 60))"

fun first_months :: "nat \<Rightarrow> u32" where
  "first_months 0 = 0"
| "first_months (Suc i) =
     of_int (uint (first_months i) + MonthInSeconds (1601 + int i div 12) (int i mod 12 + 1) div 60)"

definition first_date_time :: "recurrence \<Rightarrow> u32 option" where
  "first_date_time r =
     (let s = m_sRecState r; p = ulPeriod s in
      if ulRecurFrequency s = RF_DAILY then
        (if ulPatternType s = 1 then Some (6 * 24 * 60)
         else if p = 0 then None else Some (ulStartDate s mod p))
      else if ulRecurFrequency s = RF_WEEKLY then
        (let tStart = weekly_start s (getStartDate r); wday = tm_wday (gmtime_safe tStart)
         in if p * 7 * 24 * 60 = 0 then None
            else Some (UnixTimeToRTime tStart mod (p * 7 * 24 * 60) - of_int ((wday - 1) * 24 * 60)))
      else
        (let tm = gmtime_safe (getStartDate r);
             rStart = ((((12 mod p) * (of_int (tm_year tm + 1900 - 1601) mod p)) mod p) + of_int (tm_mon tm)) mod p
         in if p = 0 then None else Some (first_months (nat (sint rStart)))))"

text \<open>\<open>std::sort\<close> and \<open>std::unique\<close>, whose result the code ignores: the list keeps its length.\<close>

definition unique_in_place :: "u32 list \<Rightarrow> u32 list" where
  "unique_in_place xs = remdups_adj xs @ drop (length (remdups_adj xs)) xs"

definition HrGetRecurrenceState :: "rs_env \<Rightarrow> recurrence \<Rightarrow> ((hresult + bytes) \<times> recurrence) option" where
  "HrGetRecurrenceState e r =
     (let s = m_sRecState r in
      if ulRecurFrequency s \<notin> {RF_DAILY, RF_WEEKLY, RF_MONTHLY, RF_YEARLY} \<or>
         ulPatternType s \<notin> {0, 1, 2, 3, 4, 0xA, 0xB, 0xC} \<or>
         ulEndType s \<notin> {ET_DATE, ET_NUMBER, ET_NEVER}
      then Some (Inl MAPI_E_CORRUPT_DATA, r)
      else case first_date_time r of None \<Rightarrow> None
      | Some first \<Rightarrow>
          (let mods = unique_in_place (sort (lstModifiedInstanceDates s));
               dels = unique_in_place (sort (lstDeletedInstanceDates s));
               s = s\<lparr>ulFirstDateTime := first,
                     ulEndDate := (if ulEndType s = ET_NEVER then 0x5AE980DF else ulEndDate s),
                     lstModifiedInstanceDates := mods, ulModifiedInstanceCount := of_nat (length mods),
                     lstDeletedInstanceDates := dels, ulDeletedInstanceCount := of_nat (length dels),
                     ulExceptionCount := of_nat (length mods)\<rparr>
           in Some (GetBlob e s, r\<lparr>m_sRecState := s\<rparr>)))"

end
