(* ===== verification/Recurrence_Items.thy ===== *)
theory Recurrence_Items
  imports Recurrence
begin

text \<open>
  The occurrences of a recurrence, from \<^verbatim>\<open>libfreebusy/recurrence.cpp\<close>: its first and last date, the
  number of occurrences, and \<open>HrGetItems\<close>, which lists them for a period. A loop over times may
  run forever (a period that is a multiple of \<open>2 ^ 32\<close> seconds is no step at all), so it is
  a \<open>partial_function (option)\<close>; not returning, like undefined behaviour, is \<^const>\<open>None\<close>.
\<close>

subsection \<open>Start and end\<close>

fun add_months :: "nat \<Rightarrow> int \<Rightarrow> int \<Rightarrow> int \<Rightarrow> int" where
  "add_months 0 curyear curmonth t = t"
| "add_months (Suc n) curyear curmonth t =
     add_months n (if curmonth = 12 then curyear + 1 else curyear) (if curmonth = 12 then 1 else curmonth + 1)
       (t + MonthInSeconds curyear curmonth)"

text \<open>
  The search for a weekday, forward or, for the last week, backward: there a day before Sunday is
  a negative shift.
\<close>

fun back_search :: "u32 \<Rightarrow> int \<Rightarrow> nat list \<Rightarrow> nat option option" where
  "back_search days wday [] = Some None"
| "back_search days wday (i # is) =
     (if wday < int i then None
      else if on_weekday days (wday - int i) then Some (Some i) else back_search days wday is)"

definition week_search :: "recurrence_state \<Rightarrow> int \<Rightarrow> nat option option" where
  "week_search s wday =
     (if ulWeekNumber s = 5 then back_search (ulWeekDays s) wday [0..<7]
      else Some (find (\<lambda>i. on_weekday (ulWeekDays s) ((wday + int i) mod 7)) [0..<7]))"

definition day_of_month_start :: "recurrence \<Rightarrow> int \<Rightarrow> int" where
  "day_of_month_start r tStart =
     (let s = m_sRecState r; tm = gmtime_safe tStart; d = ulDayOfMonth s;
          t = tStart - (tm_mday tm - 1) * 24 * 60 * 60 + uint ((d - 1) * 24 * 60 * 60);
          count :: u32 =
            (if ulRecurFrequency s = RF_MONTHLY \<and> sint d < tm_mday tm then ulPeriod s
             else if ulRecurFrequency s = RF_YEARLY then
               (if getMonth r - 1 < tm_mon tm \<or> (getMonth r - 1 = tm_mon tm \<and> sint d < tm_mday tm)
                then ulPeriod s - of_int (tm_mon tm - (getMonth r - 1))
                else if getMonth r - 1 > tm_mon tm then of_int (getMonth r - 1 - tm_mon tm) else 0)
             else 0);
          t = add_months (unat count) (tm_year tm + 1900) (tm_mon tm + 1) t
      in if d \<ge> 28 \<and> d \<le> 31 \<and> tm_mday (gmtime_safe t) < sint d
         then t - tm_mday (gmtime_safe t) * 24 * 60 * 60 else t)"

text \<open>Whether the day found lies before the original date or behind the week; then the next month counts.\<close>

definition move_month :: "recurrence_state \<Rightarrow> tm \<Rightarrow> nat option \<Rightarrow> bool" where
  "move_month s tm found =
     (case found of None \<Rightarrow> False
      | Some i \<Rightarrow>
          if ulWeekNumber s = 5 then DaysInMonth (tm_year tm + 1900) (tm_mon tm + 1) - int i < tm_mday tm
          else tm_mday tm + int i > sint (ulWeekNumber s * 7))"

definition nth_day_start :: "recurrence \<Rightarrow> int \<Rightarrow> int option" where
  "nth_day_start r tStart =
     (let s = m_sRecState r; tm = gmtime_safe tStart; year = tm_year tm + 1900; month = tm_mon tm + 1;
          t = tStart - (tm_mday tm - 1) * 24 * 60 * 60;
          t = (if ulWeekNumber s = 5 then t + (MonthInSeconds year month - 24 * 60 * 60) else t)
      in do {
        found \<leftarrow> week_search s (tm_wday tm);
        let move = move_month s tm found;
        let t = (if ulRecurFrequency s = RF_YEARLY then
                   add_months (nat (if getMonth r - 1 < tm_mon tm \<or> (getMonth r - 1 = tm_mon tm \<and> move)
                                    then 12 - tm_mon tm + (getMonth r - 1) else getMonth r - 1 - tm_mon tm)) year month t
                 else if move then
                   (if ulWeekNumber s = 5
                    then add_months (unat (ulPeriod s)) (if month = 12 then year + 1 else year)
                           (if month = 12 then 1 else month + 1) t
                    else add_months (unat (ulPeriod s)) year month t)
                 else t);
        found \<leftarrow> week_search s (tm_wday (gmtime_safe t));
        Some (case found of None \<Rightarrow> t
              | Some i \<Rightarrow> if ulWeekNumber s = 5 then t - int i * 24 * 60 * 60
                         else t + uint (((ulWeekNumber s - 1) * 7 + of_int (int i + 1) - 1) * 24 * 60 * 60))
      })"

definition calcStartDate :: "recurrence \<Rightarrow> int option" where
  "calcStartDate r =
     (let s = m_sRecState r; tStart = getStartDateTime r; f = ulRecurFrequency s in
      if f = RF_WEEKLY then Some (weekly_start s tStart)
      else if f = RF_MONTHLY \<or> f = RF_YEARLY then
        (if ulPatternType s = 2 then Some (day_of_month_start r tStart)
         else if ulPatternType s = 3 then nth_day_start r tStart
         else Some tStart)
      else Some tStart)"

fun calc_bits :: "nat \<Rightarrow> u32 \<Rightarrow> u32" where
  "calc_bits 0 x = 0"
| "calc_bits (Suc n) x = (if x = 0 then 0 else (x AND 1) + calc_bits n (drop_bit 1 x))"

definition calcBits :: "u32 \<Rightarrow> u32" where
  "calcBits x = calc_bits 32 x"

text \<open>The value of an \<open>int\<close> expression: an overflow is undefined.\<close>

definition int_value :: "int \<Rightarrow> int option" where
  "int_value x = (if - (2 ^ 31) \<le> x \<and> x < 2 ^ 31 then Some x else None)"

partial_function (option) rest_loop :: "recurrence_state \<Rightarrow> int \<Rightarrow> int \<Rightarrow> int \<Rightarrow> int \<Rightarrow> int option" where
  "rest_loop s wday j rest tEnd =
     (if ulWeekDays s \<noteq> 0 \<and> rest > 0 then
        (let wd = (wday + j) mod 7;
             tEnd = (if wd = sint (ulFirstDOW s) then tEnd + uint ((ulPeriod s - 1) * 7 * 24 * 60 * 60) else tEnd)
         in rest_loop s wday (j + 1) (if on_weekday (ulWeekDays s) wd then rest - 1 else rest) (tEnd + 24 * 60 * 60))
      else Some tEnd)"

definition weekly_end :: "recurrence_state \<Rightarrow> int \<Rightarrow> int option" where
  "weekly_end s tStart =
     (let daycount = uint (calcBits (ulWeekDays s)) in
      if daycount = 0 then None
      else do {
        fwd \<leftarrow> int_value (uint (ulOccurrenceCount s - 1) div daycount);
        let rest = sint (ulOccurrenceCount s - of_int (fwd * daycount) - 1);
        let fwd = sint (of_int fwd * ulPeriod s);
        secs \<leftarrow> int_value (fwd * 7 * 24 * 60 * 60);
        let tEnd = tStart + secs;
        rest_loop s (tm_wday (gmtime_safe tEnd)) 1 rest tEnd
      })"

definition day_of_month_end :: "recurrence_state \<Rightarrow> int \<Rightarrow> int" where
  "day_of_month_end s tEnd =
     (let tm = gmtime_safe tEnd in
      if ulDayOfMonth s \<ge> 28 \<and> ulDayOfMonth s \<le> 31 \<and> tm_mday tm < sint (ulDayOfMonth s) then
        (if tm_mday tm < 28 then tEnd - tm_mday tm * 24 * 60 * 60
         else tEnd + (DaysInMonth (tm_year tm + 1900) (tm_mon tm + 1) - tm_mday tm) * 24 * 60 * 60)
      else tEnd)"

text \<open>The loop over the days does not stop at the day it finds.\<close>

fun nth_end_loop :: "recurrence_state \<Rightarrow> nat list \<Rightarrow> int \<Rightarrow> int option" where
  "nth_end_loop s [] tEnd = Some tEnd"
| "nth_end_loop s (d # ds) tEnd =
     (let tm = gmtime_safe tEnd in
      if ulWeekNumber s = 5 then
        (if tm_wday tm < int d then None
         else nth_end_loop s ds
           (if on_weekday (ulWeekDays s) (tm_wday tm - int d) then tEnd - tm_mday tm * 24 * 60 * 60 else tEnd))
      else nth_end_loop s ds
        (if on_weekday (ulWeekDays s) ((tm_wday tm + int d) mod 7)
         then tEnd + uint ((of_nat d + (ulWeekNumber s - 1) * 7) * 24 * 60 * 60) else tEnd))"

definition monthly_end :: "recurrence_state \<Rightarrow> int \<Rightarrow> int option" where
  "monthly_end s tStart =
     (let tm = gmtime_safe tStart;
          fwd = sint ((ulOccurrenceCount s - 1) * ulPeriod s);
          tEnd = add_months (nat fwd) (tm_year tm + 1900) (tm_mon tm + 1) tStart;
          tm = gmtime_safe tEnd
      in if ulPatternType s = 2 then Some (day_of_month_end s tEnd)
         else if ulPatternType s = 3 then
           nth_end_loop s [0..<7]
             (if ulWeekNumber s = 5
              then tEnd + (DaysInMonth (tm_year tm + 1900) (tm_mon tm + 1) - tm_mday tm) * 24 * 60 * 60
              else tEnd - (tm_mday tm - 1) * 24 * 60 * 60)
         else Some tEnd)"

text \<open>A daily recurrence on weekdays falls through to the weekly case.\<close>

definition calcEndDate :: "recurrence \<Rightarrow> int option" where
  "calcEndDate r =
     (let s = m_sRecState r; tStart = getStartDateTime r; f = ulRecurFrequency s in
      if ulEndType s \<noteq> ET_NUMBER then Some (getEndDateTime r)
      else if f = RF_DAILY \<and> ulPatternType s = 0
        then Some (tStart + uint (ulPeriod s * 60 * (ulOccurrenceCount s - 1)))
      else if f = RF_DAILY \<or> f = RF_WEEKLY then weekly_end s tStart
      else if f = RF_MONTHLY \<or> f = RF_YEARLY then monthly_end s tStart
      else Some tStart)"

definition calcCount :: "recurrence \<Rightarrow> u32" where
  "calcCount r =
     (let s = m_sRecState r; f = ulRecurFrequency s; p = uint (ulPeriod s);
          range = getEndDate r - getStartDate r
      in if ulEndType s \<noteq> ET_DATE then ulOccurrenceCount s
         else if ulPeriod s = 0 then 0
         else
           (if f = RF_DAILY then
              (if ulPatternType s = 1 then of_int (range sdiv (24 * 60 * 60) sdiv p) - 1
               else of_int (range sdiv 60 sdiv p))
            else if f = RF_WEEKLY then
              of_int (range sdiv (7 * 24 * 60 * 60) sdiv p * uint (calcBits (ulWeekDays s)))
            else if f = RF_MONTHLY \<or> f = RF_YEARLY then
              (of_int (AllMonthsFromTime (getEndDate r)) - of_int (AllMonthsFromTime (getStartDate r))) div ulPeriod s
            else 0) + 1)"

subsection \<open>One occurrence\<close>

text \<open>
  The arguments of \<open>HrGetItems\<close> that are passed on; \<open>q_junk\<close> is what \<open>HrAddFBBlock\<close> reads behind
  the old array.
\<close>

record items_query =
  q_tsStart :: int
  q_tsEnd :: int
  q_ttZinfo :: timezone
  q_ulBusyStatus :: u32
  q_junk :: occr_info

definition isException :: "recurrence \<Rightarrow> int \<Rightarrow> bool" where
  "isException r tsOccDate \<longleftrightarrow> list_ex (\<lambda>t. StartOfDay tsOccDate = StartOfDay t) (getModifiedOccurrences r)"

definition isDeletedOccurrence :: "recurrence \<Rightarrow> int \<Rightarrow> bool" where
  "isDeletedOccurrence r tsOccDate \<longleftrightarrow> list_ex (\<lambda>t. tsOccDate = t) (getDeletedExceptions r)"

definition isOccurrenceValid :: "recurrence \<Rightarrow> int \<Rightarrow> int \<Rightarrow> int \<Rightarrow> bool" where
  "isOccurrenceValid r tsPeriodStart tsPeriodEnd tsNewOcc \<longleftrightarrow>
     (if isException r tsNewOcc then False
      else if tsNewOcc < tsPeriodStart \<or> tsNewOcc > tsPeriodEnd then False
      else \<not> isDeletedOccurrence r tsNewOcc)"

definition AddValidOccr :: "items_query \<Rightarrow> int \<Rightarrow> int \<Rightarrow> occr_info list \<Rightarrow> occr_info list" where
  "AddValidOccr q tsOccrStart tsOccrEnd =
     HrAddFBBlock (q_junk q)
       \<lparr>fbBlock = \<lparr>m_tmStart = UnixTimeToRTime tsOccrStart, m_tmEnd = UnixTimeToRTime tsOccrEnd,
                   m_fbstatus = q_ulBusyStatus q\<rparr>,
        tBaseDate = tsOccrStart\<rparr>"

text \<open>The occurrence of a day, from local time.\<close>

definition add_day :: "recurrence \<Rightarrow> items_query \<Rightarrow> int \<Rightarrow> occr_info list \<Rightarrow> occr_info list" where
  "add_day r q tsNow =
     AddValidOccr q (LocalToUTC (tsNow + uint (getStartTimeOffset r)) (q_ttZinfo q))
       (LocalToUTC (tsNow + uint (getEndTimeOffset r)) (q_ttZinfo q))"

definition CheckAddValidOccr :: "recurrence \<Rightarrow> items_query \<Rightarrow> int \<Rightarrow> occr_info list \<Rightarrow> bool \<times> occr_info list" where
  "CheckAddValidOccr r q tsNow xs =
     (if isOccurrenceValid r (UTCToLocal (q_tsStart q) (q_ttZinfo q)) (UTCToLocal (q_tsEnd q) (q_ttZinfo q))
           (tsNow + uint (getStartTimeOffset r))
      then (True, add_day r q tsNow xs) else (False, xs))"

text \<open>A loop over times: the body says whether to leave it, and may itself fail to end.\<close>

partial_function (option) time_loop ::
  "(int \<Rightarrow> bool) \<Rightarrow> (int \<Rightarrow> int) \<Rightarrow> (int \<Rightarrow> 's \<Rightarrow> (bool \<times> 's) option) \<Rightarrow> int \<Rightarrow> 's \<Rightarrow> 's option" where
  "time_loop cond next body t s =
     (if cond t then do {
        (stop, s) \<leftarrow> body t s;
        if stop then Some s else time_loop cond next body (next t) s
      } else Some s)"

subsection \<open>Daily and weekly\<close>

text \<open>A body that tries a day; without \<open>last\<close> the loop never stops early.\<close>

definition try_day :: "recurrence \<Rightarrow> items_query \<Rightarrow> bool \<Rightarrow> (int \<Rightarrow> bool) \<Rightarrow> int \<Rightarrow> occr_info list \<Rightarrow> bool \<times> occr_info list" where
  "try_day r q only_last on tsNow xs =
     (if on tsNow then (case CheckAddValidOccr r q tsNow xs of (found, xs) \<Rightarrow> (only_last \<and> found, xs))
      else (False, xs))"

text \<open>Forward from the first day, or backward from the last one that lies in step with the first.\<close>

definition step_loop ::
  "bool \<Rightarrow> int \<Rightarrow> int \<Rightarrow> int \<Rightarrow> (int \<Rightarrow> occr_info list \<Rightarrow> bool \<times> occr_info list) \<Rightarrow> occr_info list \<Rightarrow> occr_info list option" where
  "step_loop only_last step tsDayStart tsDayEnd body xs =
     (if only_last then
        (if step = 0 then None
         else time_loop (\<lambda>t. t \<ge> tsDayStart) (\<lambda>t. t - step) (\<lambda>t xs. Some (body t xs))
                (tsDayEnd - (tsDayEnd - tsDayStart) smod step) xs)
      else time_loop (\<lambda>t. t \<le> tsDayEnd) (\<lambda>t. t + step) (\<lambda>t xs. Some (body t xs)) tsDayStart xs)"

definition daily_items :: "recurrence \<Rightarrow> items_query \<Rightarrow> bool \<Rightarrow> int \<Rightarrow> int \<Rightarrow> occr_info list \<Rightarrow> occr_info list option" where
  "daily_items r q only_last tsDayStart tsDayEnd =
     (if ulPatternType (m_sRecState r) = 0
      then step_loop only_last (uint (ulPeriod (m_sRecState r) * 60)) tsDayStart tsDayEnd
             (try_day r q only_last (\<lambda>_. True))
      else step_loop only_last (60 * 1440) tsDayStart tsDayEnd
             (try_day r q only_last (\<lambda>t. tm_wday (gmtime_safe t) > 0 \<and> tm_wday (gmtime_safe t) < 6)))"

fun week_loop :: "recurrence \<Rightarrow> items_query \<Rightarrow> bool \<Rightarrow> int list \<Rightarrow> int \<Rightarrow> occr_info list \<Rightarrow> bool \<times> occr_info list" where
  "week_loop r q only_last [] tsNow xs = (False, xs)"
| "week_loop r q only_last (i # is) tsNow xs =
     (case try_day r q only_last (\<lambda>t. on_weekday (ulWeekDays (m_sRecState r)) (WeekDayFromTime t)) (tsNow + i * 1440 * 60) xs of
        (stop, xs) \<Rightarrow> if stop then (True, xs) else week_loop r q only_last is tsNow xs)"

definition weekly_items :: "recurrence \<Rightarrow> items_query \<Rightarrow> bool \<Rightarrow> int \<Rightarrow> int \<Rightarrow> occr_info list \<Rightarrow> occr_info list option" where
  "weekly_items r q only_last tsDayStart tsDayEnd =
     step_loop only_last (uint (ulPeriod (m_sRecState r) * 604800)) tsDayStart tsDayEnd
       (week_loop r q only_last (if only_last then [6, 5, 4, 3, 2, 1, 0] else [0, 1, 2, 3, 4, 5, 6]))"

subsection \<open>Monthly and yearly\<close>

text \<open>The day at which the count of matching weekdays reaches the week number, else the first.\<close>

fun nth_search :: "u32 \<Rightarrow> u32 \<Rightarrow> int \<Rightarrow> u32 \<Rightarrow> nat list \<Rightarrow> nat" where
  "nth_search days week tsNow counter [] = 0"
| "nth_search days week tsNow counter (d # ds) =
     (let counter = (if on_weekday days (WeekDayFromTime (tsNow + int d * 60 * 60 * 24)) then counter + 1 else counter)
      in if week = counter then d else nth_search days week tsNow counter ds)"

partial_function (option) last_weekday :: "u32 \<Rightarrow> int \<Rightarrow> int option" where
  "last_weekday days t = (if on_weekday days (WeekDayFromTime t) then Some t else last_weekday days (t - 86400))"

text \<open>The day of a month that the pattern names; without one \<open>tsDayNow\<close> stays.\<close>

definition monthly_day :: "recurrence_state \<Rightarrow> int \<Rightarrow> int \<Rightarrow> int option" where
  "monthly_day s tsNow tsDayNow =
     (let d = ulDayOfMonth s; n :: u32 = of_int (countDaysOfMonth tsNow) in
      if d \<noteq> 0 then
        Some (tsNow + uint ((d - (if ulWeekDays s = 0 \<and> d > n then d - n + 1 else 1)) * 24 * 60 * 60))
      else if ulWeekNumber s \<noteq> 0 \<and> ulWeekDays s \<noteq> 0 then
        (let len = DaysInMonth (YearFromTime tsNow) (MonthFromTime tsNow) in
         if ulWeekNumber s < 5 then
           Some (tsNow + int (nth_search (ulWeekDays s) (ulWeekNumber s) tsNow 0 [0..<nat len]) * 60 * 60 * 24)
         else last_weekday (ulWeekDays s) (tsNow + (len - 1) * 60 * 60 * 24))
      else Some tsDayNow)"

partial_function (option) into_month :: "int \<Rightarrow> int \<Rightarrow> int option" where
  "into_month start t = (if StartOfMonth t \<noteq> start then into_month start (t - 7 * 24 * 60 * 60) else Some t)"

definition yearly_day :: "recurrence \<Rightarrow> int \<Rightarrow> int \<Rightarrow> int option" where
  "yearly_day r tsNow tsDayNow =
     (let s = m_sRecState r; t = tsNow + to_uint32 (DaysTillMonth tsNow (getMonth r - 1) * 24 * 60 * 60) in
      if ulDayOfMonth s \<noteq> 0 then
        (let len :: u32 = of_int (DaysInMonth (YearFromTime t) (MonthFromTime t))
         in Some (t + uint ((min (ulDayOfMonth s) len - 1) * 24 * 60 * 60)))
      else if ulWeekNumber s \<noteq> 0 \<and> ulWeekDays s \<noteq> 0 then
        (let d = (case find (\<lambda>d. on_weekday (ulWeekDays s) (WeekDayFromTime (t + int d * 60 * 60 * 24))) [0..<7] of
                    Some d \<Rightarrow> d | None \<Rightarrow> 0)
         in into_month (StartOfMonth t)
              (t + uint ((of_nat d + of_int ((uint (getWeekNumber r) - 1) * 7) :: u32) * 60 * 60 * 24)))
      else Some tsDayNow)"

text \<open>The loop over months or years; the period is compared as it is, in UTC.\<close>

definition month_loop ::
  "recurrence \<Rightarrow> items_query \<Rightarrow> (int \<Rightarrow> int \<Rightarrow> int option) \<Rightarrow> int \<Rightarrow> int \<Rightarrow> occr_info list \<Rightarrow> occr_info list option" where
  "month_loop r q day tsNow tsDayEnd xs =
     map_option snd (time_loop (\<lambda>t. t < tsDayEnd)
       (\<lambda>t. t + to_uint32 (DaysTillMonth t (uint (ulPeriod (m_sRecState r))) * 60 * 60 * 24))
       (\<lambda>t (tsDayNow, xs). do {
          tsDayNow \<leftarrow> day t tsDayNow;
          Some (False, tsDayNow,
            if isOccurrenceValid r (q_tsStart q) (q_tsEnd q) (tsDayNow + uint (getStartTimeOffset r))
            then add_day r q tsDayNow xs else xs)
        }) tsNow (0, xs))"

subsection \<open>\<open>HrGetItems\<close>\<close>

definition default_period :: "u32 \<Rightarrow> recurrence \<Rightarrow> recurrence" where
  "default_period p = on_state (\<lambda>s. if ulPeriod s = 0 then s\<lparr>ulPeriod := p\<rparr> else s)"

text \<open>A modified occurrence is listed with its own times when they touch the period.\<close>

definition add_exception :: "items_query \<Rightarrow> rexception \<Rightarrow> occr_info list \<Rightarrow> occr_info list" where
  "add_exception q x xs =
     (let tsOccStart = LocalToUTC (RTimeToUnixTime (ex_ulStartDateTime x)) (q_ttZinfo q);
          tsOccEnd = LocalToUTC (RTimeToUnixTime (ex_ulEndDateTime x)) (q_ttZinfo q)
      in if tsOccStart > q_tsEnd q \<or> tsOccEnd < q_tsStart q then xs
         else HrAddFBBlock (q_junk q)
           \<lparr>fbBlock = \<lparr>m_tmStart = UnixTimeToRTime tsOccStart, m_tmEnd = UnixTimeToRTime tsOccEnd,
                       m_fbstatus = ex_ulBusyStatus x\<rparr>,
            tBaseDate = RTimeToUnixTime (ex_ulOriginalStartDate x)\<rparr> xs)"

definition range_end :: "recurrence \<Rightarrow> items_query \<Rightarrow> int" where
  "range_end r q =
     (let tsRangeEnd = (if getEndType r = NEVER \<or> q_tsEnd q < getEndDateTime r then q_tsEnd q
                        else LocalToUTC (getEndDateTime r) (q_ttZinfo q))
      in StartOfDay (UTCToLocal tsRangeEnd (q_ttZinfo q)))"

definition rule_items :: "recurrence \<Rightarrow> items_query \<Rightarrow> bool \<Rightarrow> occr_info list \<Rightarrow> (recurrence \<times> occr_info list) option" where
  "rule_items r q only_last xs =
     (let tsDayStart = getStartDate r; tsDayEnd = range_end r q in
      case getFrequency r of
        DAILY \<Rightarrow> (let r = default_period 1440 r in
                   map_option (Pair r) (daily_items r q only_last tsDayStart tsDayEnd xs))
      | WEEKLY \<Rightarrow> (let r = default_period 1 r in
                    map_option (Pair r) (weekly_items r q only_last tsDayStart tsDayEnd xs))
      | MONTHLY \<Rightarrow> (let r = default_period 1 r in
                     map_option (Pair r) (month_loop r q (monthly_day (m_sRecState r)) (StartOfMonth tsDayStart) tsDayEnd xs))
      | YEARLY \<Rightarrow> (let r = default_period 12 r in
                    map_option (Pair r) (month_loop r q (yearly_day r) (StartOfYear tsDayStart) tsDayEnd xs)))"

definition HrGetItems :: "recurrence \<Rightarrow> items_query \<Rightarrow> bool \<Rightarrow> occr_info list \<Rightarrow> (hresult \<times> recurrence \<times> occr_info list) option" where
  "HrGetItems r q only_last xs = do {
     (r, xs) \<leftarrow> rule_items r q only_last xs;
     Some (hrSuccess, r, fold (add_exception q) (rev (lstExceptions (m_sRecState r))) xs)
   }"

end
