(* ===== verification/Time_Facts.thy ===== *)
theory Time_Facts
  imports Calendar
begin

text \<open>
  Properties of the time conversions and date functions: round trips between minutes and seconds,
  the days up to a later month, and the dates at which time zones switch.
\<close>

subsection \<open>Years in range\<close>

lemma year_range:
  assumes "- 11644473600 \<le> t" "t < 2 ^ 40"
  shows "1601 \<le> tm_year (gmtime_safe t) + 1900" "tm_year (gmtime_safe t) + 1900 < 2 ^ 32"
proof -
  define N where "N = t div 86400 + 134774"
  have two: "(2 :: int) ^ 40 = 1099511627776" "(2 :: int) ^ 24 = 16777216" by simp_all
  have "- 134774 \<le> t div 86400" "t div 86400 < 2 ^ 24"
    using div_bounds[of 86400 t] assms unfolding two by linarith+
  then have N: "0 \<le> N" "N < 33554432" by (simp_all add: N_def)
  have y: "tm_year (gmtime_safe t) + 1900 = year_of N"
    by (simp add: gmtime_safe_def Let_def N_def split: prod.splits)
  have b: "days_before (year_of N) \<le> N" "N < days_before (year_of N + 1)" using year_of_bounds[of N] by simp_all
  have z: "days_before 1601 = 0" by (simp add: days_before_def)
  show "1601 \<le> tm_year (gmtime_safe t) + 1900"
  proof (rule ccontr)
    assume "\<not> ?thesis"
    then have le: "year_of N + 1 \<le> 1601" using y by simp
    have "False" if "D + 365 * (1601 - z) \<le> 0" "z \<le> 1601" "N < D" for D z using that N(1) by simp
    from this[OF _ le b(2)] show False using days_before_mono[OF le] z by simp
  qed
  then have "1601 \<le> year_of N" using y by simp
  have "z < 4294967296" if "0 + 365 * (z - 1601) \<le> D" "D \<le> N" for D z using that N(2) by simp
  from this[OF _ b(1)] have "tm_year (gmtime_safe t) + 1900 < 4294967296"
    using days_before_mono[OF \<open>1601 \<le> year_of N\<close>] unfolding z y by simp
  then show "tm_year (gmtime_safe t) + 1900 < 2 ^ 32" by simp
qed

lemma YearFromTime_eq:
  "- 11644473600 \<le> t \<Longrightarrow> t < 2 ^ 40 \<Longrightarrow> YearFromTime t = tm_year (gmtime_safe t) + 1900"
  using year_range[of t] by (simp add: YearFromTime_def)

subsection \<open>Days up to a later month\<close>

lemma days_till_late: "13 \<le> m \<Longrightarrow> days_till y m n = 0"
  by (induction n arbitrary: m) (simp_all add: DaysInMonth_def days_in_month_def)

lemma days_till_add: "days_till y m (j + k) = days_till y m j + days_till y (m + int j) k"
  by (induction j arbitrary: m) (simp_all add: algebra_simps)

lemma DaysTillMonth_start:
  assumes "- 11644473600 \<le> t" "t < 2 ^ 40" "0 \<le> k" "k < 2 ^ 32 - 12"
  shows "StartOfMonth t + DaysTillMonth t k * 86400 =
    timegm_day (tm_year (gmtime_safe t)) (min (tm_mon (gmtime_safe t) + k) 12) 1"
proof -
  define y m where "y = tm_year (gmtime_safe t)" and "m = tm_mon (gmtime_safe t)"
  have m: "0 \<le> m" "m < 12" unfolding m_def by (fact gmtime_spec)+
  have w: "to_uint32 (k + (m + 1)) = k + (m + 1)" using m assms(3,4) by (intro to_uint32_small) linarith+
  have d: "DaysTillMonth t k = days_till (y + 1900) (m + 1) (nat k)"
    using YearFromTime_eq[OF assms(1,2)] w by (simp add: DaysTillMonth_def MonthFromTime_def y_def m_def Let_def)
  show ?thesis
  proof (cases "m + k \<le> 12")
    case True
    then show ?thesis using timegm_months[of m "nat k" y] m(1) assms(3) d
      by (simp add: StartOfMonth_eq y_def[symmetric] m_def[symmetric])
  next
    case False
    define j where "j = nat (12 - m)"
    have "nat k = j + (nat k - j)" using False m by (simp add: j_def)
    then have "days_till (y + 1900) (m + 1) (nat k) = days_till (y + 1900) (m + 1) j"
      using days_till_add[of "y + 1900" "m + 1" j "nat k - j"] days_till_late[of "m + 1 + int j"] m by (simp add: j_def)
    then show ?thesis using timegm_months[of m j y] m False d
      by (simp add: StartOfMonth_eq y_def[symmetric] m_def[symmetric] j_def)
  qed
qed

text \<open>
  From the start of a month the days of \<open>DaysTillMonth\<close> lead to the start of the month that is
  asked for when it lies in the same year or is the next January. Months behind it count no days, so
  every longer distance leads to the next January as well.
\<close>

theorem DaysTillMonth_lands:
  assumes "- 11644473600 \<le> t" "t < 2 ^ 40" "0 \<le> k" "k < 2 ^ 32 - 12"
  shows "StartOfMonth t + DaysTillMonth t k * 86400 =
    timegm_day (tm_year (gmtime_safe t)) (min (tm_mon (gmtime_safe t) + k) 12) 1"
  using assms by (rule DaysTillMonth_start)

text \<open>From December 2014 two months lead to January 2015.\<close>

theorem DaysTillMonth_lands_witness:
  "StartOfMonth 1417392000 + DaysTillMonth 1417392000 2 * 86400 = timegm_day 114 12 1"
proof -
  have "tm_year (gmtime_safe 1417392000) = 114" "tm_mon (gmtime_safe 1417392000) = 11" by code_simp+
  then show ?thesis using DaysTillMonth_lands[of 1417392000 2] by simp
qed

subsection \<open>Minutes and seconds\<close>

text \<open>
  Minutes since 1601 survive the way to seconds and back, and a time comes back as the nearest
  whole minute, for times from 1601 on that fit 31 bits of minutes.
\<close>

theorem rtime_round_trip:
  "(0 \<le> sint r \<longrightarrow> UnixTimeToRTime (RTimeToUnixTime r) = r) \<and>
   (- 11644473600 \<le> t \<and> t < 60 * 2 ^ 31 - 11644473630 \<longrightarrow> RTimeToUnixTime (UnixTimeToRTime t) = (t + 30) div 60 * 60)"
  using rtime_of_unix[of r] unix_of_rtime[of t] by blast

theorem rtime_round_trip_witness:
  "UnixTimeToRTime (RTimeToUnixTime 0x0CB34557) = 0x0CB34557 \<and> RTimeToUnixTime (UnixTimeToRTime 1417392029) = 1417392000"
  using rtime_round_trip[of "0x0CB34557" 1417392029] by simp

subsection \<open>The dates at which time zones switch\<close>

lemma weekday_days: "WeekDayFromTime t = (t div 86400 + 4) mod 7"
  using gmtime_spec(12)[of t] by (simp add: WeekDayFromTime_def)

lemma timegm_day_mon:
  assumes "0 \<le> m" "m < 12" "0 \<le> k" "k < month_lens (y + 1900) ! nat m" "0 \<le> s" "s < 86400"
  shows "tm_mon (gmtime_safe (timegm_day y m 1 + k * 86400 + s)) = m"
  using gmtime_timegm[of m "k + 1" y s] assms timegm_day_shift[of y m "k + 1"] by simp

lemma timegm_next_month:
  assumes "0 \<le> m" "m < 12"
  shows "timegm_day y m 1 + month_lens (y + 1900) ! nat m * 86400 = timegm_day y (m + 1) 1"
proof -
  have "days_till (y + 1900) (m + 1) 1 = month_lens (y + 1900) ! nat m"
    using DaysInMonth_len[of "m + 1" "y + 1900"] assms by simp
  then show ?thesis using timegm_months[of m 1 y] assms by simp
qed

lemma month_lens_bounds:
  assumes "m < 12"
  shows "28 \<le> month_lens y ! m" "month_lens y ! m \<le> 31"
proof -
  have "\<forall>l \<in> set (month_lens y). 28 \<le> l \<and> l \<le> 31" by (auto simp: month_lens_def)
  then show "28 \<le> month_lens y ! m" "month_lens y ! m \<le> 31" using nth_mem[of m "month_lens y"] assms by (auto simp: month_lens_sum)
qed

lemma timegm_day_carry: "timegm_day y 12 d = timegm_day (y + 1) 0 d"
  by (simp add: timegm_day_def Let_def algebra_simps)

lemma in_next_month:
  assumes "0 \<le> m" "m < 12" "month_lens (y + 1900) ! nat m \<le> k" "k < month_lens (y + 1900) ! nat m + 28" "0 \<le> s" "s < 86400"
  shows "tm_mon (gmtime_safe (timegm_day y m 1 + k * 86400 + s)) \<noteq> m"
proof -
  define j where "j = k - month_lens (y + 1900) ! nat m"
  have e: "timegm_day y m 1 + k * 86400 + s = timegm_day y (m + 1) 1 + j * 86400 + s"
    using timegm_next_month[OF assms(1,2), of y] by (simp add: j_def algebra_simps)
  have j: "0 \<le> j" "j < 28" using assms by (simp_all add: j_def)
  show ?thesis
  proof (cases "m = 11")
    case True
    then have "timegm_day y (m + 1) 1 = timegm_day (y + 1) 0 1" by (simp add: timegm_day_carry)
    then show ?thesis using timegm_day_mon[of 0 j "y + 1" s] j assms(5,6) month_lens_bounds(1)[of 0 "y + 1 + 1900"] e True by simp
  next
    case False
    then have n: "nat (m + 1) < 12" "m + 1 < 12" using assms(1,2) by simp_all
    have "tm_mon (gmtime_safe (timegm_day y (m + 1) 1 + j * 86400 + s)) = m + 1"
      using timegm_day_mon[of "m + 1" j y s] j assms(1,5,6) month_lens_bounds(1)[OF n(1), of "y + 1900"] n(2) by simp
    then show ?thesis using e by simp
  qed
qed

text \<open>The day that is returned, counted from 0 in its month, for a month that begins on weekday \<open>f\<close>.\<close>

definition switch_day :: "int \<Rightarrow> int \<Rightarrow> int \<Rightarrow> int \<Rightarrow> int" where
  "switch_day len f week day = (let k = 7 * week - f + day in if len \<le> k then k - 7 else k)"

lemma switch_date:
  assumes "1 \<le> uint month" "uint month \<le> 12" "1 \<le> uint week" "uint week \<le> 5" "uint day < 7" "uint hour < 24"
  shows "getDateByYearMonthWeekDayHour year month week day hour =
    timegm_day (uint year) (uint month - 1) 1 +
    switch_day (month_lens (uint year + 1900) ! nat (uint month - 1))
      (WeekDayFromTime (timegm_day (uint year) (uint month - 1) 1)) (uint week) (uint day) * 86400 + uint hour * 3600"
proof -
  define y m F f k len where "y = uint year" and "m = uint month - 1" and "F = timegm_day y m 1"
    and "f = WeekDayFromTime F" and "k = 7 * uint week - f + uint day" and "len = month_lens (y + 1900) ! nat m"
  have m: "0 \<le> m" "m < 12" using assms by (simp_all add: m_def)
  have f: "0 \<le> f" "f < 7" by (simp_all add: f_def weekday_days)
  have len: "28 \<le> len" "len \<le> 31" using month_lens_bounds[of "nat m" "y + 1900"] m by (simp_all add: len_def)
  have k: "1 \<le> k" "k \<le> 41" using assms f uint_ge_0[of day] unfolding k_def by linarith+
  have h: "0 \<le> uint hour * 3600" "uint hour * 3600 < 86400" using assms(6) by simp_all
  have w: "to_int32 (uint week * 7 * 24 * 60 * 60) = uint week * 604800" "to_int32 (uint day * 24 * 60 * 60) = uint day * 86400"
  proof -
    have "to_int32 (x * 7 * 24 * 60 * 60) = x * 604800" "to_int32 (z * 24 * 60 * 60) = z * 86400"
      if "1 \<le> x" "x \<le> 5" "0 \<le> z" "z < 7" for x z :: int using that by simp_all
    from this[OF assms(3,4) uint_ge_0[of day] assms(5)] show "to_int32 (uint week * 7 * 24 * 60 * 60) = uint week * 604800"
      "to_int32 (uint day * 24 * 60 * 60) = uint day * 86400" by blast+
  qed
  have wd: "tm_wday (gmtime_safe F) = f" by (simp add: f_def WeekDayFromTime_def)
  have d: "F - f * 24 * 60 * 60 + uint week * 604800 + uint day * 86400 + uint hour * 60 * 60 = F + k * 86400 + uint hour * 3600"
    by (simp add: k_def algebra_simps)
  have "tm_mon (gmtime_safe (F + k * 86400 + uint hour * 3600)) \<noteq> m \<longleftrightarrow> len \<le> k"
  proof (cases "len \<le> k")
    case True
    then show ?thesis using in_next_month[OF m, of y k] k h len unfolding len_def F_def by simp
  next
    case False
    then show ?thesis using timegm_day_mon[OF m, of k y] k h unfolding len_def F_def by simp
  qed
  then show ?thesis
    unfolding getDateByYearMonthWeekDayHour_def Let_def y_def[symmetric] m_def[symmetric] F_def[symmetric] wd w d f_def[symmetric]
      switch_day_def k_def[symmetric] len_def[symmetric] by simp
qed

text \<open>
  When the month does not begin on or before the weekday in question, the date that
  \<open>getDateByYearMonthWeekDayHour\<close> returns is that weekday in that month, the \<open>week\<close>-th one for
  weeks up to 4 and the last one for week 5.
\<close>

theorem switch_is_nth_weekday:
  assumes "1 \<le> uint month" "uint month \<le> 12" "1 \<le> uint week" "uint week \<le> 5" "uint day < 7" "uint hour < 24"
    and "uint day < WeekDayFromTime (timegm_day (uint year) (uint month - 1) 1)"
  shows "let date = gmtime_safe (getDateByYearMonthWeekDayHour year month week day hour)
    in tm_mon date = uint month - 1 \<and> tm_wday date = uint day \<and>
       (if uint week < 5 then (tm_mday date - 1) div 7 + 1 = uint week
        else DaysInMonth (uint year + 1900) (uint month) < tm_mday date + 7)"
proof -
  define y m F f len k where "y = uint year" and "m = uint month - 1" and "F = timegm_day y m 1"
    and "f = WeekDayFromTime F" and "len = month_lens (y + 1900) ! nat m" and "k = switch_day len f (uint week) (uint day)"
  have m: "0 \<le> m" "m < 12" using assms by (simp_all add: m_def)
  have f: "0 \<le> f" "f < 7" "uint day < f" using assms(7) by (simp_all add: f_def weekday_days F_def y_def m_def)
  have len: "28 \<le> len" "len \<le> 31" using month_lens_bounds[of "nat m" "y + 1900"] m by (simp_all add: len_def)
  have h: "0 \<le> uint hour * 3600" "uint hour * 3600 < 86400" using assms(6) by simp_all
  have k: "0 \<le> k" "k < len" "k = 7 * uint week - f + uint day \<or> k = 7 * uint week - f + uint day - 7 \<and> len \<le> k + 7"
    using assms(3-5) f len uint_ge_0[of day] by (auto simp: k_def switch_day_def Let_def)
  have date: "getDateByYearMonthWeekDayHour year month week day hour = F + k * 86400 + uint hour * 3600"
    using switch_date[OF assms(1-6), of year] unfolding y_def[symmetric] m_def[symmetric] F_def[symmetric] f_def[symmetric]
      len_def[symmetric] k_def[symmetric] .
  have F: "F + k * 86400 + uint hour * 3600 = timegm_day y m (k + 1) + uint hour * 3600"
    using timegm_day_shift[of y m "k + 1"] by (simp add: F_def)
  have g: "tm_mon (gmtime_safe (F + k * 86400 + uint hour * 3600)) = m"
    "tm_mday (gmtime_safe (F + k * 86400 + uint hour * 3600)) = k + 1"
    using gmtime_timegm[of m "k + 1" y "uint hour * 3600"] m k h by (simp_all add: F len_def)
  have "F mod 86400 = 0" by (simp add: F_def timegm_day_mod)
  then have "(F + k * 86400 + uint hour * 3600) div 86400 = F div 86400 + k"
  proof -
    have "(a * 86400 + s) div 86400 = a" if "0 \<le> s" "s < 86400" for a s :: int
      using that div_mult_self3[of 86400 a s] by simp
    moreover have "F + k * 86400 + x = (F div 86400 + k) * 86400 + x" for x
      using \<open>F mod 86400 = 0\<close> div_mult_mod_eq[of F 86400] unfolding distrib_right by linarith
    ultimately show ?thesis using h by (simp only:)
  qed
  moreover have "(F div 86400 + 4) mod 7 = f" by (simp add: f_def weekday_days)
  ultimately have w: "WeekDayFromTime (F + k * 86400 + uint hour * 3600) = (f + k) mod 7"
    using mod_add_left_eq[of "F div 86400 + 4" 7 k] unfolding weekday_days by (simp only: ac_simps)
  have "(f + k) mod 7 = uint day"
    using k(3)
  proof
    assume "k = 7 * uint week - f + uint day"
    then have "f + k = uint day + uint week * 7" by simp
    then show ?thesis using assms(5) uint_ge_0[of day] by (simp only: mod_mult_self1) simp
  next
    assume "k = 7 * uint week - f + uint day - 7 \<and> len \<le> k + 7"
    then have "f + k = uint day + (uint week - 1) * 7" by (simp add: algebra_simps)
    then show ?thesis using assms(5) uint_ge_0[of day] by (simp only: mod_mult_self1) simp
  qed
  moreover have "k div 7 + 1 = uint week" if "uint week < 5"
  proof -
    have "k = 7 * uint week - f + uint day" using k(1,2,3) that f len assms(3) uint_ge_0[of day] by linarith
    then have "k = (7 - f + uint day) + (uint week - 1) * 7" by (simp add: algebra_simps)
    moreover have "0 \<le> 7 - f + uint day" "7 - f + uint day < 7" using f uint_ge_0[of day] by linarith+
    ultimately show ?thesis by (simp only: div_mult_self1)
  qed
  moreover have "len < 8 + k" if "\<not> uint week < 5"
  proof -
    have "uint week = 5" using that assms(4) by simp
    then show ?thesis using k(3) f len uint_ge_0[of day] by linarith
  qed
  moreover have "DaysInMonth (uint year + 1900) (uint month) = len"
    using DaysInMonth_len[OF assms(1,2)] by (simp add: len_def y_def m_def)
  ultimately show ?thesis
    using g w unfolding date Let_def WeekDayFromTime_def m_def[symmetric] by simp
qed

text \<open>
  When the month begins on the weekday in question, the date is a week late: summer time in the
  United States began on the second Sunday of March, which was the 8th in 2009, and the date is the 15th.
\<close>

theorem switch_a_week_late:
  "getDateByYearMonthWeekDayHour 109 3 2 0 2 = timegm_day 109 2 15 + 2 * 3600 \<and>
   WeekDayFromTime (timegm_day 109 2 1) = 0 \<and> WeekDayFromTime (timegm_day 109 2 8) = 0"
  by code_simp

text \<open>The last Sunday of October 2014, at 3 in the morning: the end of summer time in Europe.\<close>

theorem switch_is_nth_weekday_witness:
  "let date = gmtime_safe (getDateByYearMonthWeekDayHour 114 10 5 0 3)
   in tm_mon date = 9 \<and> tm_wday date = 0 \<and> 31 < tm_mday date + 7"
proof -
  have "WeekDayFromTime (timegm_day 114 9 1) = 3" "DaysInMonth 2014 10 = 31" by code_simp+
  then show ?thesis using switch_is_nth_weekday[of 10 5 0 3 114] by simp
qed

end
