(* ===== verification/Recurrence_Expand.thy ===== *)
theory Recurrence_Expand
  imports Recurrence_Items Time_Facts
begin

text \<open>
  What \<open>HrGetItems\<close> lists: loops over times as folds over lists of times, the exact days of daily,
  weekly, monthly and yearly patterns, the last occurrence, and when the loops end.
\<close>

subsection \<open>Loops over times\<close>

definition times :: "int \<Rightarrow> int \<Rightarrow> nat \<Rightarrow> int list" where
  "times a step n = map (\<lambda>k. a + int k * step) [0..<n]"

lemma times_Suc: "times a step (Suc n) = a # times (a + step) step n"
  by (simp add: times_def upt_conv_Cons map_Suc_upt[symmetric] algebra_simps del: upt_Suc)

lemma times_snoc: "times a step (Suc n) = times a step n @ [a + int n * step]"
  by (simp add: times_def)

text \<open>A body over a list of times, up to the one at which it stops.\<close>

fun scan :: "('a \<Rightarrow> 's \<Rightarrow> bool \<times> 's) \<Rightarrow> 'a list \<Rightarrow> 's \<Rightarrow> bool \<times> 's" where
  "scan f [] s = (False, s)"
| "scan f (t # ts) s = (case f t s of (stop, s) \<Rightarrow> if stop then (True, s) else scan f ts s)"

lemma scan_append: "scan f (ts @ us) s = (case scan f ts s of (stop, s) \<Rightarrow> if stop then (True, s) else scan f us s)"
  by (induction ts arbitrary: s) (simp_all split: prod.splits)

lemma scan_nested: "scan (\<lambda>t. scan g (h t)) ts s = scan g (concat (map h ts)) s"
  by (induction ts arbitrary: s) (simp_all add: scan_append split: prod.splits)

lemma time_loop_runs:
  assumes "\<forall>k < n. c ((next ^^ k) a)" "\<not> c ((next ^^ n) a)"
  shows "time_loop c next (\<lambda>t s. Some (f t s)) a s = Some (snd (scan f (map (\<lambda>k. (next ^^ k) a) [0..<n]) s))"
  using assms
proof (induction n arbitrary: a s)
  case 0
  then show ?case by (subst time_loop.simps) simp
next
  case (Suc n)
  have "c a" using Suc.prems(1) by (metis funpow_0 zero_less_Suc)
  have l: "map (\<lambda>k. (next ^^ k) a) [0..<Suc n] = a # map (\<lambda>k. (next ^^ k) (next a)) [0..<n]"
    by (simp add: upt_conv_Cons map_Suc_upt[symmetric] funpow_swap1 del: upt_Suc)
  have "time_loop c next (\<lambda>t s. Some (f t s)) (next a) s' = Some (snd (scan f (map (\<lambda>k. (next ^^ k) (next a)) [0..<n]) s'))" for s'
    by (rule Suc.IH) (use Suc.prems in \<open>auto simp: funpow_swap1 dest: spec[of _ "Suc _"]\<close>)
  then show ?case using \<open>c a\<close> unfolding l by (subst time_loop.simps) (simp split: prod.splits)
qed

lemma funpow_add_int: "((\<lambda>t. t + d) ^^ k) a = a + int k * (d :: int)"
  by (induction k) (simp_all add: algebra_simps)

text \<open>The number of steps of a positive length from \<open>a\<close> up to \<open>e\<close>.\<close>

definition steps_to :: "int \<Rightarrow> int \<Rightarrow> int \<Rightarrow> nat" where
  "steps_to step a e = nat ((e - a) div step + 1)"

lemma steps_to_less:
  assumes "0 < step"
  shows "k < steps_to step a e \<longleftrightarrow> a + int k * step \<le> e"
proof -
  have "int k \<le> (e - a) div step \<longleftrightarrow> int k * step \<le> e - a"
  proof
    assume "int k \<le> (e - a) div step"
    then have "int k * step \<le> (e - a) div step * step" using assms by simp
    then show "int k * step \<le> e - a" using div_bounds(1)[OF assms, of "e - a"] by (simp add: mult.commute)
  next
    assume "int k * step \<le> e - a"
    then have "int k * step div step \<le> (e - a) div step" using assms by (intro zdiv_mono1)
    then show "int k \<le> (e - a) div step" using assms by simp
  qed
  then show ?thesis unfolding steps_to_def by linarith
qed

lemma loop_up:
  assumes "0 < step"
  shows "time_loop (\<lambda>t. t \<le> e) (\<lambda>t. t + step) (\<lambda>t s. Some (f t s)) a s =
    Some (snd (scan f (times a step (steps_to step a e)) s))"
  using time_loop_runs[of "steps_to step a e" "\<lambda>t. t \<le> e" "\<lambda>t. t + step" a f s]
    steps_to_less[OF assms, of "steps_to step a e" a e]
  by (simp add: funpow_add_int times_def steps_to_less[OF assms])

lemma loop_down:
  assumes "0 < step" "a \<le> e"
  shows "time_loop (\<lambda>t. t \<ge> a) (\<lambda>t. t - step) (\<lambda>t s. Some (f t s)) (e - (e - a) smod step) s =
    Some (snd (scan f (rev (times a step (steps_to step a e))) s))"
proof -
  define n where "n = steps_to step a e"
  have n: "int n = (e - a) div step + 1" "0 < n" using assms by (simp_all add: n_def steps_to_def pos_imp_zdiv_nonneg_iff)
  have "(e - a) smod step = (e - a) mod step" using assms by (simp add: signed_modulo_int_def sgn_if signed_modulo_int_def)
  then have top: "e - (e - a) smod step = a + (int n - 1) * step"
    using n(1) div_mult_mod_eq[of "e - a" step] by (simp add: algebra_simps)
  have fp: "((\<lambda>t. t - step) ^^ k) x = x - int k * step" for k x
    using funpow_add_int[where d = "- step"] by simp
  have "\<forall>k < n. a \<le> a + (int n - 1) * step - int k * step"
  proof (intro allI impI)
    fix k assume "k < n"
    then have "0 \<le> (int n - 1 - int k) * step" using assms(1) by simp
    then show "a \<le> a + (int n - 1) * step - int k * step" by (simp add: algebra_simps)
  qed
  moreover have "\<not> a \<le> a + (int n - 1) * step - int n * step" using assms(1) by (simp add: algebra_simps)
  moreover have "map (\<lambda>k. a + (int n - 1) * step - int k * step) [0..<n] = rev (times a step n)"
    by (rule nth_equalityI) (simp_all add: times_def rev_nth algebra_simps of_nat_diff Suc_le_eq)
  ultimately show ?thesis
    using time_loop_runs[of n "\<lambda>t. t \<ge> a" "\<lambda>t. t - step" "a + (int n - 1) * step" f s]
    by (simp add: fp top n_def)
qed

text \<open>A loop that stands still does not end.\<close>

lemma loop_stands_still:
  assumes "c t" "next t = t" "\<forall>s. \<exists>s'. body t s = Some (False, s')"
  shows "time_loop c next body t (s :: 's) = None"
proof -
  let ?P = "\<lambda>c next body t (s :: 's) (y :: 's). \<not> (c t \<and> next t = t \<and> (\<forall>s. \<exists>s'. body t s = Some (False, s')))"
  have "?P c next body t s y" if "time_loop c next body t s = Some y" for y
  proof (rule time_loop.raw_induct[where P = ?P, OF _ that], rule notI)
    fix loop c "next" body t s y
    assume IH: "\<And>c next body t s y. loop c next body t s = Some y \<Longrightarrow> ?P c next body t s y"
      and run: "(if c t then do { (stop, s) \<leftarrow> body t s; if stop then Some s else loop c next body (next t) s } else Some s) = Some y"
      and p: "c t \<and> next t = t \<and> (\<forall>s. \<exists>s'. body t s = Some (False, s'))"
    from p obtain s' where "body t s = Some (False, s')" by blast
    with run p have "loop c next body t s' = Some y" by simp
    from IH[OF this] p show False by simp
  qed
  with assms show ?thesis by (cases "time_loop c next body t s") auto
qed

lemma step_loop_scan:
  assumes "0 < step" "b \<Longrightarrow> a \<le> e"
  shows "step_loop b step a e f xs =
    Some (snd (scan f (if b then rev (times a step (steps_to step a e)) else times a step (steps_to step a e)) xs))"
  using assms loop_up[OF assms(1), of e f a xs] loop_down[OF assms(1), of a e f xs]
  by (auto simp: step_loop_def)

lemma in_times:
  assumes "0 < step"
  shows "d \<in> set (times a step (steps_to step a e)) \<longleftrightarrow> a \<le> d \<and> (d - a) mod step = 0 \<and> d \<le> e"
proof
  assume "d \<in> set (times a step (steps_to step a e))"
  then obtain k where "k < steps_to step a e" "d = a + int k * step" by (auto simp: times_def)
  then show "a \<le> d \<and> (d - a) mod step = 0 \<and> d \<le> e" using assms by (simp add: steps_to_less)
next
  assume d: "a \<le> d \<and> (d - a) mod step = 0 \<and> d \<le> e"
  define k where "k = nat ((d - a) div step)"
  have "int k = (d - a) div step" using d assms by (simp add: k_def pos_imp_zdiv_nonneg_iff)
  then have "d = a + int k * step" using div_mult_mod_eq[of "d - a" step] d by simp
  then show "d \<in> set (times a step (steps_to step a e))"
    using d steps_to_less[OF assms, of k a e] by (auto simp: times_def)
qed

lemma times_sorted: "0 < step \<Longrightarrow> sorted_wrt (<) (times a step n)"
  by (auto simp: times_def sorted_wrt_iff_nth_less)

subsection \<open>The days of daily and weekly patterns\<close>

text \<open>The occurrence of a day, and whether \<open>CheckAddValidOccr\<close> takes it.\<close>

definition occ_of :: "recurrence \<Rightarrow> items_query \<Rightarrow> int \<Rightarrow> occr_info" where
  "occ_of r q d =
     (let b = LocalToUTC (d + uint (getStartTimeOffset r)) (q_ttZinfo q);
          e = LocalToUTC (d + uint (getEndTimeOffset r)) (q_ttZinfo q)
      in \<lparr>fbBlock = \<lparr>m_tmStart = UnixTimeToRTime b, m_tmEnd = UnixTimeToRTime e, m_fbstatus = q_ulBusyStatus q\<rparr>,
          tBaseDate = b\<rparr>)"

definition takes_day :: "recurrence \<Rightarrow> items_query \<Rightarrow> int \<Rightarrow> bool" where
  "takes_day r q d \<longleftrightarrow>
     isOccurrenceValid r (UTCToLocal (q_tsStart q) (q_ttZinfo q)) (UTCToLocal (q_tsEnd q) (q_ttZinfo q))
       (d + uint (getStartTimeOffset r))"

lemma add_day_append: "add_day r q d xs = xs @ [occ_of r q d]"
  by (simp add: add_day_def AddValidOccr_def HrAddFBBlock_append occ_of_def Let_def)

lemma try_day_scan:
  "scan (try_day r q False on) ts xs = (False, xs @ map (occ_of r q) (filter (\<lambda>d. on d \<and> takes_day r q d) ts))"
  "snd (scan (try_day r q True on) ts xs) = xs @ map (occ_of r q) (take 1 (filter (\<lambda>d. on d \<and> takes_day r q d) ts))"
  by (induction ts arbitrary: xs)
     (simp_all add: try_day_def CheckAddValidOccr_def takes_day_def[symmetric] add_day_append)

lemma week_loop_scan:
  "week_loop r q b is t = scan (try_day r q b (\<lambda>t. on_weekday (ulWeekDays (m_sRecState r)) (WeekDayFromTime t)))
     (map (\<lambda>i. t + i * 1440 * 60) is)"
  by (rule ext, induction "is") (simp_all split: prod.splits)

text \<open>The week of a time: seven days in a row.\<close>

definition week_days :: "int \<Rightarrow> int list" where
  "week_days t = map (\<lambda>i. t + i * 1440 * 60) [0, 1, 2, 3, 4, 5, 6]"

lemma in_week_days: "d \<in> set (week_days t) \<longleftrightarrow> t \<le> d \<and> d < t + 604800 \<and> (d - t) mod 86400 = 0"
proof
  assume "t \<le> d \<and> d < t + 604800 \<and> (d - t) mod 86400 = 0"
  then obtain k where k: "d = t + 86400 * k" by (metis add.commute diff_add_cancel mult_div_mod_eq add.right_neutral)
  with \<open>t \<le> d \<and> d < t + 604800 \<and> (d - t) mod 86400 = 0\<close> have "0 \<le> k" "k < 7" by linarith+
  then have "k \<in> {0, 1, 2, 3, 4, 5, 6}" by auto
  then show "d \<in> set (week_days t)" using k by (auto simp: week_days_def)
qed (auto simp: week_days_def)

text \<open>
  The days of a pattern, said without a loop: in step with the first day, or in a week that is in
  step with the week of the first day. What counts against the end of the range is the day, or the
  first day of its week.
\<close>

definition rule_step :: "recurrence \<Rightarrow> int" where
  "rule_step r =
     (if getFrequency r = WEEKLY then uint (ulPeriod (m_sRecState r) * 604800)
      else if ulPatternType (m_sRecState r) = 0 then uint (ulPeriod (m_sRecState r) * 60) else 86400)"

definition rule_base :: "recurrence \<Rightarrow> int \<Rightarrow> int" where
  "rule_base r d = (if getFrequency r = WEEKLY then d - (d - getStartDate r) mod rule_step r else d)"

definition in_pattern :: "recurrence \<Rightarrow> int \<Rightarrow> bool" where
  "in_pattern r d \<longleftrightarrow>
     (let k = (d - getStartDate r) mod rule_step r in
      getStartDate r \<le> d \<and>
      (if getFrequency r = WEEKLY
       then k < 604800 \<and> k mod 86400 = 0 \<and> on_weekday (ulWeekDays (m_sRecState r)) (WeekDayFromTime d)
       else k = 0 \<and> (ulPatternType (m_sRecState r) = 0 \<or> (0 < WeekDayFromTime d \<and> WeekDayFromTime d < 6))))"

text \<open>The step of the loop is the period: the product does not wrap.\<close>

definition steps_on :: "recurrence \<Rightarrow> bool" where
  "steps_on r \<longleftrightarrow> (if getFrequency r = WEEKLY then 604800 \<le> rule_step r else 0 < rule_step r)"

lemma times_concat_sorted:
  assumes "604800 \<le> step"
  shows "sorted_wrt (<) (concat (map week_days (times a step n)))"
proof (induction n arbitrary: a)
  case (Suc n)
  have "x < y" if "x \<in> set (week_days a)" "y \<in> set (concat (map week_days (times (a + step) step n)))" for x y
  proof -
    from that(2) obtain k where "y \<in> set (week_days (a + step + int k * step))" by (auto simp: times_def)
    then have "a + step + int k * step \<le> y" by (simp add: in_week_days)
    moreover have "0 \<le> int k * step" using assms by simp
    moreover have "x < a + 604800" using that(1) by (simp add: in_week_days)
    ultimately show ?thesis using assms by linarith
  qed
  moreover have "sorted_wrt (<) (week_days a)" by (simp add: week_days_def)
  ultimately show ?case using Suc by (simp only: times_Suc list.map concat.simps sorted_wrt_append) blast
qed (simp add: times_def)

lemma in_times_weeks:
  assumes "604800 \<le> step"
  shows "d \<in> set (concat (map week_days (times a step (steps_to step a e)))) \<longleftrightarrow>
    a \<le> d \<and> (d - a) mod step < 604800 \<and> (d - a) mod step mod 86400 = 0 \<and> d - (d - a) mod step \<le> e"
proof
  assume "d \<in> set (concat (map week_days (times a step (steps_to step a e))))"
  then obtain t where t: "t \<in> set (times a step (steps_to step a e))" "d \<in> set (week_days t)" by auto
  then have t': "a \<le> t" "(t - a) mod step = 0" "t \<le> e" "t \<le> d" "d < t + 604800" "(d - t) mod 86400 = 0"
    using in_times[of step t a e] assms by (simp_all add: in_week_days)
  have "(d - a) mod step = ((t - a) mod step + (d - t)) mod step" by (simp add: mod_simps)
  then have "(d - a) mod step = d - t" using t' assms by simp
  then show "a \<le> d \<and> (d - a) mod step < 604800 \<and> (d - a) mod step mod 86400 = 0 \<and> d - (d - a) mod step \<le> e"
    using t' by simp
next
  assume d: "a \<le> d \<and> (d - a) mod step < 604800 \<and> (d - a) mod step mod 86400 = 0 \<and> d - (d - a) mod step \<le> e"
  define t where "t = d - (d - a) mod step"
  have eq: "t - a = (d - a) div step * step" unfolding t_def using div_mult_mod_eq[of "d - a" step] by linarith
  moreover have "0 \<le> (d - a) div step" using d assms by (simp add: pos_imp_zdiv_nonneg_iff)
  ultimately have "0 \<le> t - a" "(t - a) mod step = 0" using assms by simp_all
  then have "t \<in> set (times a step (steps_to step a e))" using d assms by (simp add: in_times t_def)
  moreover have "d \<in> set (week_days t)" using d assms by (simp add: in_week_days t_def)
  ultimately show "d \<in> set (concat (map week_days (times a step (steps_to step a e))))" by auto
qed

text \<open>The days that the loop tries, in order.\<close>

definition rule_days :: "recurrence \<Rightarrow> int \<Rightarrow> int list" where
  "rule_days r e =
     (let ts = times (getStartDate r) (rule_step r) (steps_to (rule_step r) (getStartDate r) e) in
      if getFrequency r = WEEKLY
      then filter (\<lambda>d. on_weekday (ulWeekDays (m_sRecState r)) (WeekDayFromTime d)) (concat (map week_days ts))
      else filter (\<lambda>d. ulPatternType (m_sRecState r) = 0 \<or> (0 < WeekDayFromTime d \<and> WeekDayFromTime d < 6)) ts)"

lemma rule_days_spec:
  assumes "steps_on r"
  shows "sorted_wrt (<) (rule_days r e)" "d \<in> set (rule_days r e) \<longleftrightarrow> in_pattern r d \<and> rule_base r d \<le> e"
  using assms
  by (auto simp: rule_days_def in_pattern_def rule_base_def steps_on_def Let_def in_times in_times_weeks
      simp del: set_concat set_map split: if_splits intro!: sorted_wrt_filter times_sorted times_concat_sorted)

lemma week_loop_both:
  "scan (week_loop r q b (if b then [6, 5, 4, 3, 2, 1, 0] else [0, 1, 2, 3, 4, 5, 6])) (if b then rev ts else ts) xs =
     scan (try_day r q b (\<lambda>t. on_weekday (ulWeekDays (m_sRecState r)) (WeekDayFromTime t)))
       (if b then rev (concat (map week_days ts)) else concat (map week_days ts)) xs"
proof -
  have w: "scan (week_loop r q b is) us xs =
      scan (try_day r q b (\<lambda>t. on_weekday (ulWeekDays (m_sRecState r)) (WeekDayFromTime t)))
        (concat (map (\<lambda>t. map (\<lambda>i. t + i * 1440 * 60) is) us)) xs" for b "is" us
    unfolding week_loop_scan[abs_def] by (rule scan_nested)
  have "rev (concat (map week_days ts)) = concat (map (\<lambda>t. map (\<lambda>i. t + i * 1440 * 60) [6, 5, 4, 3, 2, 1, 0]) (rev ts))"
    by (simp add: rev_concat rev_map week_days_def comp_def)
  moreover have "week_days = (\<lambda>t. map (\<lambda>i. t + i * 1440 * 60) [0, 1, 2, 3, 4, 5, 6])"
    by (rule ext) (rule week_days_def)
  ultimately show ?thesis by (cases b) (simp_all only: w if_True if_False)
qed

text \<open>What a search for the last day leaves of the days.\<close>

definition only_last_of :: "bool \<Rightarrow> 'a list \<Rightarrow> 'a list" where
  "only_last_of b ds = (if b then take 1 (rev ds) else ds)"

lemma try_day_both:
  "snd (scan (try_day r q b on) (if b then rev ts else ts) xs) =
     xs @ map (occ_of r q) (only_last_of b (filter (takes_day r q) (filter on ts)))"
  by (simp add: try_day_scan only_last_of_def rev_filter conj_commute)

lemma rule_loop_days:
  assumes "steps_on r" "b \<Longrightarrow> getStartDate r \<le> e"
  shows "getFrequency r = DAILY \<Longrightarrow> daily_items r q b (getStartDate r) e xs =
      Some (xs @ map (occ_of r q) (only_last_of b (filter (takes_day r q) (rule_days r e))))"
    "getFrequency r = WEEKLY \<Longrightarrow> weekly_items r q b (getStartDate r) e xs =
      Some (xs @ map (occ_of r q) (only_last_of b (filter (takes_day r q) (rule_days r e))))"
proof -
  assume d: "getFrequency r = DAILY"
  have wd: "WeekDayFromTime t = tm_wday (gmtime_safe t)" for t by (simp add: WeekDayFromTime_def)
  show "daily_items r q b (getStartDate r) e xs =
      Some (xs @ map (occ_of r q) (only_last_of b (filter (takes_day r q) (rule_days r e))))"
    using assms d
    by (cases "ulPatternType (m_sRecState r) = 0")
       (simp_all add: daily_items_def steps_on_def rule_step_def step_loop_scan try_day_both rule_days_def wd)
next
  assume w: "getFrequency r = WEEKLY"
  then have "0 < rule_step r" using assms(1) by (simp add: steps_on_def)
  then show "weekly_items r q b (getStartDate r) e xs =
      Some (xs @ map (occ_of r q) (only_last_of b (filter (takes_day r q) (rule_days r e))))"
    using assms(2) w
    by (simp add: weekly_items_def step_loop_scan rule_step_def week_loop_both try_day_both rule_days_def)
qed

lemma default_period_same:
  "getFrequency (default_period p r) = getFrequency r" "getStartDate (default_period p r) = getStartDate r"
  "range_end (default_period p r) q = range_end r q" "getMonth (default_period p r) = getMonth r"
  "lstExceptions (m_sRecState (default_period p r)) = lstExceptions (m_sRecState r)"
  "isException (default_period p r) = isException r" "isDeletedOccurrence (default_period p r) = isDeletedOccurrence r"
  "getStartTimeOffset (default_period p r) = getStartTimeOffset r" "getEndTimeOffset (default_period p r) = getEndTimeOffset r"
  by (auto simp: default_period_def on_state_def getFrequency_def getStartDate_def range_end_def getEndType_def
      getEndDateTime_def getMonth_def isException_def isDeletedOccurrence_def getModifiedOccurrences_def
      getDeletedExceptions_def getStartTimeOffset_def getEndTimeOffset_def Let_def fun_eq_iff)

text \<open>The modified occurrences that touch the period.\<close>

definition moved_items :: "items_query \<Rightarrow> rexception list \<Rightarrow> occr_info list" where
  "moved_items q xs = concat (map (\<lambda>x. add_exception q x []) (rev xs))"

lemma add_exception_append: "add_exception q x xs = xs @ add_exception q x []"
  by (simp add: add_exception_def Let_def HrAddFBBlock_append)

lemma add_exceptions: "fold (add_exception q) (rev es) xs = xs @ moved_items q es"
proof -
  have "fold (add_exception q) es xs = xs @ concat (map (\<lambda>x. add_exception q x []) es)" for es
  proof (induction es arbitrary: xs)
    case (Cons e es)
    show ?case unfolding fold_Cons comp_apply Cons.IH by (subst add_exception_append) simp
  qed simp
  then show ?thesis by (simp add: moved_items_def)
qed

text \<open>The recurrence with the period that \<open>HrGetItems\<close> puts for a missing one.\<close>

definition with_period :: "recurrence \<Rightarrow> recurrence" where
  "with_period r =
     default_period (case getFrequency r of DAILY \<Rightarrow> 1440 | WEEKLY \<Rightarrow> 1 | MONTHLY \<Rightarrow> 1 | YEARLY \<Rightarrow> 12) r"

lemma HrGetItems_days:
  assumes "getFrequency r = DAILY \<or> getFrequency r = WEEKLY" "steps_on (with_period r)"
    "b \<Longrightarrow> getStartDate r \<le> range_end r q"
  shows "HrGetItems r q b xs = Some (hrSuccess, with_period r,
    xs @ map (occ_of r q) (only_last_of b (filter (takes_day r q) (rule_days (with_period r) (range_end r q)))) @
    moved_items q (lstExceptions (m_sRecState r)))"
proof -
  have same: "occ_of (default_period p r) = occ_of r" "takes_day (default_period p r) = takes_day r" for p
    by (simp_all add: fun_eq_iff occ_of_def takes_day_def isOccurrenceValid_def default_period_same)
  from assms(1) show ?thesis
  proof
    assume "getFrequency r = DAILY"
    then show ?thesis
      using assms(2,3) rule_loop_days(1)[of "default_period 1440 r" b "range_end r q" q xs]
      by (simp add: HrGetItems_def rule_items_def with_period_def default_period_same same add_exceptions Let_def)
  next
    assume "getFrequency r = WEEKLY"
    then show ?thesis
      using assms(2,3) rule_loop_days(2)[of "default_period 1 r" b "range_end r q" q xs]
      by (simp add: HrGetItems_def rule_items_def with_period_def default_period_same same add_exceptions Let_def)
  qed
qed

subsection \<open>The months of monthly and yearly patterns\<close>

definition takes_utc :: "recurrence \<Rightarrow> items_query \<Rightarrow> int \<Rightarrow> bool" where
  "takes_utc r q d \<longleftrightarrow> isOccurrenceValid r (q_tsStart q) (q_tsEnd q) (d + uint (getStartTimeOffset r))"

lemma month_loop_runs:
  assumes "\<And>t x. day t x = Some (g t)" "\<forall>k < n. M k < e" "\<not> M n < e"
    "\<forall>k < n. M k + to_uint32 (DaysTillMonth (M k) (uint (ulPeriod (m_sRecState r))) * 60 * 60 * 24) = M (Suc k)"
  shows "month_loop r q day (M 0) e xs =
    Some (xs @ map (occ_of r q) (filter (takes_utc r q) (map (\<lambda>k. g (M k)) [0..<n])))"
proof -
  let ?next = "\<lambda>t. t + to_uint32 (DaysTillMonth t (uint (ulPeriod (m_sRecState r))) * 60 * 60 * 24)"
  let ?f = "\<lambda>t (tsDayNow :: int, xs). (False, g t, if takes_utc r q (g t) then add_day r q (g t) xs else xs)"
  have M: "k \<le> n \<Longrightarrow> (?next ^^ k) (M 0) = M k" for k
    by (induction k) (use assms(4) in simp_all)
  have body: "(\<lambda>t (tsDayNow, xs). do {
          tsDayNow \<leftarrow> day t tsDayNow;
          Some (False, tsDayNow,
            if isOccurrenceValid r (q_tsStart q) (q_tsEnd q) (tsDayNow + uint (getStartTimeOffset r))
            then add_day r q tsDayNow xs else xs)
        }) = (\<lambda>t s. Some (?f t s))"
    by (rule ext)+ (simp add: assms(1) takes_utc_def split: prod.splits)
  have run: "time_loop (\<lambda>t. t < e) ?next (\<lambda>t s. Some (?f t s)) (M 0) (0, xs) =
      Some (snd (scan ?f (map (\<lambda>k. (?next ^^ k) (M 0)) [0..<n]) (0, xs)))"
    by (rule time_loop_runs) (use M assms(2,3) in auto)
  have l: "map (\<lambda>k. (?next ^^ k) (M 0)) [0..<n] = map M [0..<n]" using M by simp
  have sc: "snd (snd (scan ?f ts (x, xs))) = xs @ map (occ_of r q) (filter (takes_utc r q) (map g ts))" for ts x xs
    by (induction ts arbitrary: x xs) (simp_all add: add_day_append)
  show ?thesis unfolding month_loop_def body run l by (simp add: sc comp_def)
qed

definition nth_month :: "int \<Rightarrow> int \<Rightarrow> int \<Rightarrow> nat \<Rightarrow> int" where
  "nth_month year mon p k = timegm_day year (mon + int k * p) 1"

lemma timegm_day_years: "timegm_day y (m + 12 * c) d = timegm_day (y + c) m d"
  by (simp add: timegm_day_def Let_def algebra_simps)

lemma DaysInMonth_bounds: "0 \<le> DaysInMonth y m" "DaysInMonth y m \<le> 31"
proof -
  let ?L = "[0, 31, 28, 31, 30, 31, 30, 31, 31, 30, 31, 30, 31] :: int list"
  have b: "\<forall>l \<in> set ?L. 0 \<le> l \<and> l \<le> 31" by simp
  have "0 \<le> days_in_month m \<and> days_in_month m \<le> 31"
  proof (cases "m > 12")
    case False
    then have "nat m < length ?L" by simp
    then show ?thesis using bspec[OF b nth_mem] False by (simp only: days_in_month_def if_False)
  qed (simp add: days_in_month_def)
  then show "0 \<le> DaysInMonth y m" "DaysInMonth y m \<le> 31" by (auto simp: DaysInMonth_def days_in_month_def)
qed

lemma days_till_bounds: "0 \<le> days_till y m n" "days_till y m n \<le> 31 * int n"
proof (induction n arbitrary: m)
  case (Suc n)
  { case 1 show ?case using DaysInMonth_bounds(1)[of y m] Suc(1)[of "m + 1"] by simp }
  { case 2 show ?case using DaysInMonth_bounds(2)[of y m] Suc(2)[of "m + 1"] by simp }
qed simp_all

lemma nth_month_parts:
  assumes "0 < p" "p dvd 12" "p dvd mon"
  obtains y m where "nth_month year mon p k = timegm_day y m 1" "nth_month year mon p (Suc k) = timegm_day y (m + p) 1"
    "0 \<le> m" "m + p \<le> 12" "y = year + (mon + int k * p) div 12" "m = (mon + int k * p) mod 12"
proof -
  define c m where "c = (mon + int k * p) div 12" and "m = (mon + int k * p) mod 12"
  have e: "mon + int k * p = m + 12 * c" by (simp add: c_def m_def)
  have "p dvd mon + int k * p" using assms by simp
  then have "p dvd m" using assms(2) by (simp add: m_def dvd_mod)
  then obtain a where a: "m = p * a" by (auto simp: dvd_def)
  obtain b where b: "12 = p * b" using assms(2) by (auto simp: dvd_def)
  have "m < 12" by (simp add: m_def)
  then have "p * a < p * b" using a b by simp
  then have "a + 1 \<le> b" using assms(1) by simp
  then have "p * (a + 1) \<le> p * b" using assms(1) by simp
  then have "m + p \<le> 12" using a b by (simp add: algebra_simps)
  moreover have "nth_month year mon p k = timegm_day (year + c) m 1"
    by (simp only: nth_month_def e timegm_day_years)
  moreover have "nth_month year mon p (Suc k) = timegm_day (year + c) (m + p) 1"
  proof -
    have "mon + int (Suc k) * p = (m + p) + 12 * c" using e by (simp add: algebra_simps)
    then show ?thesis by (simp only: nth_month_def timegm_day_years)
  qed
  moreover have "0 \<le> m" by (simp add: m_def)
  ultimately show thesis using that[of "year + c" m] by (simp add: m_def c_def)
qed

lemma nth_month_next:
  assumes "0 < p" "p dvd 12" "p dvd mon"
  shows "28 * 86400 \<le> nth_month year mon p (Suc k) - nth_month year mon p k"
    "nth_month year mon p (Suc k) - nth_month year mon p k \<le> 12 * 31 * 86400"
    "- 11644473600 \<le> nth_month year mon p k \<Longrightarrow> nth_month year mon p k < 2 ^ 40 \<Longrightarrow>
       nth_month year mon p k + to_uint32 (DaysTillMonth (nth_month year mon p k) p * 60 * 60 * 24) =
       nth_month year mon p (Suc k)"
proof -
  obtain y m where ym: "nth_month year mon p k = timegm_day y m 1"
    "nth_month year mon p (Suc k) = timegm_day y (m + p) 1" "0 \<le> m" "m + p \<le> 12"
    using nth_month_parts[OF assms] by metis
  define D where "D = days_till (y + 1900) (m + 1) (nat p)"
  have step: "timegm_day y (m + p) 1 = timegm_day y m 1 + D * 86400"
    using timegm_months[of m "nat p" y] ym(3,4) assms(1) by (simp add: D_def)
  have first: "days_till (y + 1900) (m + 1) (nat p) =
      month_lens (y + 1900) ! nat m + days_till (y + 1900) (m + 1 + 1) (nat p - 1)"
  proof -
    obtain n where "nat p = Suc n" using assms(1) by (cases "nat p") simp_all
    then show ?thesis using DaysInMonth_len[of "m + 1" "y + 1900"] ym(3,4) assms(1) by (simp add: add.assoc)
  qed
  have m: "nat m < 12" using ym assms(1) by linarith
  have lo: "28 \<le> D" using first days_till_bounds(1)[of "y + 1900" "m + 1 + 1" "nat p - 1"] month_lens_bounds(1)[OF m, of "y + 1900"]
    by (simp add: D_def)
  from days_till_bounds(2)[of "y + 1900" "m + 1" "nat p"] have hi: "D \<le> 12 * 31" using ym assms(1) by (simp add: D_def)
  show "28 * 86400 \<le> nth_month year mon p (Suc k) - nth_month year mon p k"
    "nth_month year mon p (Suc k) - nth_month year mon p k \<le> 12 * 31 * 86400"
    using lo hi by (simp_all add: ym step)
  assume r: "- 11644473600 \<le> nth_month year mon p k" "nth_month year mon p k < 2 ^ 40"
  have g: "tm_year (gmtime_safe (timegm_day y m 1)) = y" "tm_mon (gmtime_safe (timegm_day y m 1)) = m"
    using gmtime_timegm[of m 1 y 0] ym(3,4) assms(1) month_lens_bounds(1)[OF m, of "y + 1900"] by simp_all
  have "timegm_day y m 1 + DaysTillMonth (timegm_day y m 1) p * 86400 = timegm_day y (m + p) 1"
    using DaysTillMonth_start[of "timegm_day y m 1" p] r ym assms(1) by (simp add: g StartOfMonth_eq)
  then have "DaysTillMonth (timegm_day y m 1) p = D" using step by simp
  moreover have "to_uint32 (D * 60 * 60 * 24) = D * 86400"
    using lo hi by (simp add: to_uint32_small)
  ultimately show "nth_month year mon p k + to_uint32 (DaysTillMonth (nth_month year mon p k) p * 60 * 60 * 24) =
       nth_month year mon p (Suc k)" by (simp only: ym step)
qed

lemma nth_month_mono:
  assumes "0 < p" "p dvd 12" "p dvd mon"
  shows "nth_month year mon p i + int d \<le> nth_month year mon p (i + d)"
proof (induction d)
  case (Suc d)
  then show ?case using nth_month_next(1)[OF assms, of year "i + d"] by simp
qed simp

text \<open>The number of months that begin before the end.\<close>

lemma months_before:
  assumes "0 < p" "p dvd 12" "p dvd mon"
  shows "\<exists>n. \<forall>k. k < n \<longleftrightarrow> nth_month year mon p k < e"
proof -
  let ?M = "nth_month year mon p"
  have "e \<le> ?M (nat (e - ?M 0))"
    using nth_month_mono[OF assms, of year 0 "nat (e - ?M 0)"] by (cases "?M 0 \<le> e") simp_all
  then have l: "e \<le> ?M (LEAST n. e \<le> ?M n)" by (rule LeastI)
  have "k < (LEAST n. e \<le> ?M n) \<longleftrightarrow> ?M k < e" for k
  proof
    assume "k < (LEAST n. e \<le> ?M n)"
    then show "?M k < e" using not_less_Least[of k "\<lambda>n. e \<le> ?M n"] by simp
  next
    assume a: "?M k < e"
    show "k < (LEAST n. e \<le> ?M n)"
    proof (rule ccontr)
      assume "\<not> ?thesis"
      then obtain d where "k = (LEAST n. e \<le> ?M n) + d" using le_Suc_ex[of "LEAST n. e \<le> ?M n" k] by auto
      then show False using nth_month_mono[OF assms, of year "LEAST n. e \<le> ?M n" d] l a by simp
    qed
  qed
  then show ?thesis by blast
qed

subsection \<open>Days of the month\<close>

lemma small_days:
  fixes k :: u32
  assumes "1 \<le> uint k" "uint k \<le> 366"
  shows "uint ((k - 1) * 24 * 60 * 60) = (uint k - 1) * 86400"
proof -
  have "(k - 1) * 24 * 60 * 60 = word_of_int ((uint k - 1) * 86400)" by (simp add: algebra_simps)
  moreover have "uint (word_of_int ((uint k - 1) * 86400) :: u32) = (uint k - 1) * 86400"
    unfolding uint_word_of_int_eq by (rule take_bit_int_eq_self) (use assms in simp_all)
  ultimately show ?thesis by (simp only:)
qed

lemma countDaysOfMonth_len:
  assumes "- 11644473600 \<le> t" "t < 2 ^ 40"
  shows "countDaysOfMonth t = month_lens (tm_year (gmtime_safe t) + 1900) ! nat (tm_mon (gmtime_safe t))"
proof -
  define m where "m = tm_mon (gmtime_safe t)"
  have "0 \<le> m" "m < 12" unfolding m_def by (fact gmtime_spec)+
  then have "m = 0 \<or> m = 1 \<or> m = 2 \<or> m = 3 \<or> m = 4 \<or> m = 5 \<or> m = 6 \<or> m = 7 \<or> m = 8 \<or> m = 9 \<or> m = 10 \<or> m = 11"
    by presburger
  then show ?thesis
    by (auto simp: countDaysOfMonth_def MonthFromTime_def YearFromTime_eq[OF assms] m_def[symmetric] Let_def
        month_lens_def isLeapYear_leap)
qed

text \<open>The day of a month, or the last day of a month that is too short for it.\<close>

definition clipped_day :: "int \<Rightarrow> int \<Rightarrow> int \<Rightarrow> int" where
  "clipped_day year mon d =
     timegm_day year mon (min d (month_lens (year + mon div 12 + 1900) ! nat (mon mod 12)))"

lemma monthly_day_clipped:
  assumes "0 \<le> m" "m < 12" "- 11644473600 \<le> timegm_day y m 1" "timegm_day y m 1 < 2 ^ 40"
    "ulDayOfMonth s \<noteq> 0" "ulWeekDays s = 0"
  shows "monthly_day s (timegm_day y m 1) x = Some (clipped_day y m (uint (ulDayOfMonth s)))"
proof -
  define L where "L = month_lens (y + 1900) ! nat m"
  have nm: "nat m < 12" using assms(1,2) by simp
  have L: "28 \<le> L" "L \<le> 31" using month_lens_bounds[OF nm, of "y + 1900"] by (simp_all add: L_def)
  have g: "tm_year (gmtime_safe (timegm_day y m 1)) = y" "tm_mon (gmtime_safe (timegm_day y m 1)) = m"
    using gmtime_timegm[of m 1 y 0] assms(1,2) L(1) by (simp_all add: L_def)
  define n d where "n = (of_int L :: u32)" and "d = ulDayOfMonth s"
  have un: "uint n = L" unfolding n_def uint_word_of_int_eq by (rule take_bit_int_eq_self) (use L in simp_all)
  have c: "countDaysOfMonth (timegm_day y m 1) = L" using countDaysOfMonth_len[OF assms(3,4)] g by (simp add: L_def)
  have gt: "d > n \<longleftrightarrow> uint d > L" by (simp add: word_less_alt un)
  have d1: "1 \<le> uint d" using assms(5) by (simp add: d_def) (metis uint_0_iff uint_ge_0 zless_imp_add1_zle add_0 order_le_less)
  have "uint ((d - (if d > n then d - n + 1 else 1)) * 24 * 60 * 60) = (min (uint d) L - 1) * 86400"
  proof (cases "d > n")
    case True
    have "d - (d - n + 1) = n - 1" by simp
    then show ?thesis using True gt small_days[of n] un L by (simp add: algebra_simps)
  next
    case False
    then show ?thesis using gt small_days[of d] d1 L by (simp add: algebra_simps)
  qed
  moreover have "monthly_day s (timegm_day y m 1) x =
      Some (timegm_day y m 1 + uint ((d - (if d > n then d - n + 1 else 1)) * 24 * 60 * 60))"
  proof -
    have "ulDayOfMonth s = d" "d \<noteq> 0" using assms(5) by (simp_all add: d_def)
    then show ?thesis
      unfolding monthly_day_def Let_def c n_def[symmetric] using assms(6) by (simp only: simp_thms if_True)
  qed
  moreover have "clipped_day y m (uint d) = timegm_day y m 1 + (min (uint d) L - 1) * 86400"
    using timegm_day_shift[of y m "min (uint d) L"] assms(1,2) by (simp add: clipped_day_def L_def)
  ultimately show ?thesis by (simp only: d_def)
qed

lemma getMonth_range: "1 \<le> getMonth r" "getMonth r \<le> 12"
proof -
  have "0 \<le> tm_mon (gmtime_safe t)" "tm_mon (gmtime_safe t) < 12" for t by (fact gmtime_spec)+
  from this[of "getStartDate r"] show "1 \<le> getMonth r" "getMonth r \<le> 12"
    by (auto simp: getMonth_def word_less_alt)
qed

lemma yearly_day_clipped:
  assumes "- 11644473600 \<le> timegm_day y 0 1" "timegm_day y 0 1 < 2 ^ 39" "ulDayOfMonth (m_sRecState r) \<noteq> 0"
  shows "yearly_day r (timegm_day y 0 1) x =
    Some (clipped_day y (getMonth r - 1) (uint (ulDayOfMonth (m_sRecState r))))"
proof -
  define m where "m = getMonth r - 1"
  have m: "0 \<le> m" "m < 12" using getMonth_range[of r] by (simp_all add: m_def)
  have nm: "nat m < 12" using m by simp
  define L where "L = month_lens (y + 1900) ! nat m"
  have L: "28 \<le> L" "L \<le> 31" using month_lens_bounds[OF nm, of "y + 1900"] by (simp_all add: L_def)
  have J: "28 \<le> month_lens (y + 1900) ! 0" by (rule month_lens_bounds) simp
  have g0: "tm_year (gmtime_safe (timegm_day y 0 1)) = y" "tm_mon (gmtime_safe (timegm_day y 0 1)) = 0"
    using gmtime_timegm[of 0 1 y 0] J by simp_all
  have g: "tm_year (gmtime_safe (timegm_day y m 1)) = y" "tm_mon (gmtime_safe (timegm_day y m 1)) = m"
    using gmtime_timegm[of m 1 y 0] m L(1) by (simp_all add: L_def)
  define D where "D = days_till (y + 1900) 1 (nat m)"
  have step: "timegm_day y m 1 = timegm_day y 0 1 + D * 86400"
    using timegm_months[of 0 "nat m" y] m by (simp add: D_def)
  have D: "0 \<le> D" "D \<le> 372" using days_till_bounds[of "y + 1900" 1 "nat m"] m by (simp_all add: D_def)
  have "timegm_day y 0 1 + DaysTillMonth (timegm_day y 0 1) m * 86400 = timegm_day y m 1"
    using DaysTillMonth_start[of "timegm_day y 0 1" m] assms(1,2) m by (simp add: g0 StartOfMonth_eq)
  then have DT: "DaysTillMonth (timegm_day y 0 1) m = D" using step by simp
  have "to_uint32 (D * 24 * 60 * 60) = D * 86400" using D by (simp add: to_uint32_small)
  then have t: "timegm_day y 0 1 + to_uint32 (DaysTillMonth (timegm_day y 0 1) (getMonth r - 1) * 24 * 60 * 60) = timegm_day y m 1"
    by (simp only: m_def[symmetric] DT step)
  have r: "- 11644473600 \<le> timegm_day y m 1" "timegm_day y m 1 < 2 ^ 40" using step D assms(1,2) by simp_all
  have len: "DaysInMonth (YearFromTime (timegm_day y m 1)) (MonthFromTime (timegm_day y m 1)) = L"
    using DaysInMonth_len[of "m + 1" "y + 1900"] m by (simp add: YearFromTime_eq[OF r] MonthFromTime_def g L_def)
  define n d where "n = (of_int L :: u32)" and "d = ulDayOfMonth (m_sRecState r)"
  have un: "uint n = L" unfolding n_def uint_word_of_int_eq by (rule take_bit_int_eq_self) (use L in simp_all)
  have d1: "1 \<le> uint d" using assms(3) by (simp add: d_def) (metis uint_0_iff uint_ge_0 zless_imp_add1_zle add_0 order_le_less)
  have mn: "uint (min d n) = min (uint d) L" by (simp add: min_def word_le_def un)
  then have "uint ((min d n - 1) * 24 * 60 * 60) = (min (uint d) L - 1) * 86400"
    using small_days[of "min d n"] d1 L by simp
  moreover have "yearly_day r (timegm_day y 0 1) x = Some (timegm_day y m 1 + uint ((min d n - 1) * 24 * 60 * 60))"
  proof -
    have "ulDayOfMonth (m_sRecState r) = d" "d \<noteq> 0" using assms(3) by (simp_all add: d_def)
    then show ?thesis unfolding yearly_day_def Let_def t len n_def[symmetric] by (simp only: simp_thms if_True)
  qed
  moreover have "clipped_day y m (uint d) = timegm_day y m 1 + (min (uint d) L - 1) * 86400"
    using timegm_day_shift[of y m "min (uint d) L"] m by (simp add: clipped_day_def L_def)
  ultimately show ?thesis by (simp only: d_def m_def)
qed

lemma HrGetItems_months:
  assumes "getFrequency r = MONTHLY \<and> day = monthly_day (m_sRecState (with_period r)) \<and> M 0 = StartOfMonth (getStartDate r) \<or>
      getFrequency r = YEARLY \<and> day = yearly_day (with_period r) \<and> M 0 = StartOfYear (getStartDate r)"
    "\<And>t x. day t x = Some (g t)" "\<forall>k < n. M k < range_end r q" "\<not> M n < range_end r q"
    "\<forall>k < n. M k + to_uint32 (DaysTillMonth (M k) (uint (ulPeriod (m_sRecState (with_period r)))) * 60 * 60 * 24) = M (Suc k)"
  shows "HrGetItems r q b xs = Some (hrSuccess, with_period r,
    xs @ map (occ_of r q) (filter (takes_utc r q) (map (\<lambda>k. g (M k)) [0..<n])) @ moved_items q (lstExceptions (m_sRecState r)))"
proof -
  have same: "occ_of (default_period p r) = occ_of r" "takes_utc (default_period p r) = takes_utc r" for p
    by (simp_all add: fun_eq_iff occ_of_def takes_utc_def isOccurrenceValid_def default_period_same)
  note run = month_loop_runs[of day g n M "range_end r q" "with_period r" q xs, OF assms(2-5)]
  from assms(1) show ?thesis
    using run by (auto simp: HrGetItems_def rule_items_def with_period_def default_period_same same add_exceptions Let_def)
qed

lemma with_period_pos: "0 < uint (ulPeriod (m_sRecState (with_period r)))"
proof -
  have "ulPeriod (m_sRecState (with_period r)) \<noteq> 0"
    by (simp add: with_period_def default_period_def on_state_def split: freq_type.splits)
  then show ?thesis by (metis uint_0_iff uint_ge_0 order_le_less)
qed

lemma with_period_fields:
  "ulDayOfMonth (m_sRecState (with_period r)) = ulDayOfMonth (m_sRecState r)"
  "ulWeekDays (m_sRecState (with_period r)) = ulWeekDays (m_sRecState r)"
  "ulWeekNumber (m_sRecState (with_period r)) = ulWeekNumber (m_sRecState r)"
  by (simp_all add: with_period_def default_period_def on_state_def)

lemma clipped_day_years: "clipped_day y (m + 12 * c) d = clipped_day (y + c) m d"
  by (simp add: clipped_day_def timegm_day_years add_ac)

text \<open>
  The weekdays of a pattern in a month whose first day is \<open>t\<close>: the days, counted from 0, that match.
  The code takes the one that the week number says, for 5 and more the last.
\<close>

definition matching_days :: "u32 \<Rightarrow> int \<Rightarrow> nat \<Rightarrow> nat list" where
  "matching_days days t len = filter (\<lambda>i. on_weekday days ((WeekDayFromTime t + int i) mod 7)) [0..<len]"

definition weekday_of_month :: "recurrence_state \<Rightarrow> int \<Rightarrow> nat \<Rightarrow> nat" where
  "weekday_of_month s t len =
     (let ms = matching_days (ulWeekDays s) t len in
      if ulWeekNumber s < 5 then ms ! (unat (ulWeekNumber s) - 1) else last ms)"

lemma WeekDay_shift: "WeekDayFromTime (t + k * 86400) = (WeekDayFromTime t + k) mod 7"
proof -
  have "(t + k * 86400) div 86400 = t div 86400 + k" by simp
  then show ?thesis unfolding weekday_days by (simp add: mod_simps algebra_simps)
qed

lemma WeekDay_range: "0 \<le> WeekDayFromTime t" "WeekDayFromTime t < 7"
  unfolding weekday_days by simp_all

lemma nth_search_matching:
  fixes week :: u32
  assumes "c < unat week" "unat week < 5"
  shows "nth_search days week t (of_nat c) ds =
    (let ms = filter (\<lambda>i. on_weekday days ((WeekDayFromTime t + int i) mod 7)) ds in
     if unat week - c \<le> length ms then ms ! (unat week - c - 1) else 0)"
  using assms
proof (induction ds arbitrary: c)
  case (Cons d ds)
  have wd: "WeekDayFromTime (t + int d * 60 * 60 * 24) = (WeekDayFromTime t + int d) mod 7"
    using WeekDay_shift[of t "int d"] by (simp add: mult.assoc)
  have st: "nth_search days week t x (d # ds) =
      (let x = (if on_weekday days ((WeekDayFromTime t + int d) mod 7) then x + 1 else x)
       in if week = x then d else nth_search days week t x ds)" for x
    by (simp only: nth_search.simps wd)
  have eq: "week = of_nat k \<longleftrightarrow> unat week = k" if "k \<le> 5" for k
    using that by (auto simp: unat_of_nat)
  show ?case
  proof (cases "on_weekday days ((WeekDayFromTime t + int d) mod 7)")
    case True
    have nx: "(of_nat c + 1 :: u32) = of_nat (Suc c)" by simp
    show ?thesis
    proof (cases "unat week = Suc c")
      case t: True
      then show ?thesis using True Cons.prems by (simp add: st nx eq del: of_nat_Suc nth_search.simps)
    next
      case False
      then have "Suc c < unat week" using Cons.prems by simp
      from Cons.IH[OF this Cons.prems(2)] show ?thesis
        using True False Cons.prems by (auto simp: st nx eq Let_def nth_Cons' simp del: of_nat_Suc nth_search.simps)
    qed
  next
    case False
    then show ?thesis using Cons.IH[OF Cons.prems] Cons.prems by (simp add: st eq Let_def del: nth_search.simps)
  qed
qed simp

text \<open>Going back to a weekday ends when the pattern has one of the seven days.\<close>

lemma last_weekday_at:
  "on_weekday days (WeekDayFromTime (t - int j * 86400)) \<Longrightarrow> \<forall>i < j. \<not> on_weekday days (WeekDayFromTime (t - int i * 86400)) \<Longrightarrow>
   last_weekday days t = Some (t - int j * 86400)"
proof (induction j arbitrary: t)
  case 0
  then show ?case by (subst last_weekday.simps) simp
next
  case (Suc j)
  have sh: "t - 86400 - int i * 86400 = t - int (Suc i) * 86400" for i by simp
  have "\<not> on_weekday days (WeekDayFromTime t)" using Suc.prems(2)[rule_format, of 0] by simp
  moreover have "last_weekday days (t - 86400) = Some (t - 86400 - int j * 86400)"
  proof (rule Suc.IH)
    show "on_weekday days (WeekDayFromTime (t - 86400 - int j * 86400))" unfolding sh by (rule Suc.prems(1))
    show "\<forall>i < j. \<not> on_weekday days (WeekDayFromTime (t - 86400 - int i * 86400))"
      unfolding sh by (intro allI impI Suc.prems(2)[rule_format]) simp
  qed
  ultimately show ?case unfolding sh by (subst last_weekday.simps) (simp only: if_False)
qed

lemma last_weekday_endless:
  assumes "\<forall>w. 0 \<le> w \<and> w < 7 \<longrightarrow> \<not> on_weekday days w"
  shows "last_weekday days t = None"
proof -
  let ?P = "\<lambda>days t (y :: int). \<exists>w. 0 \<le> w \<and> w < 7 \<and> on_weekday days w"
  have "?P days t y" if "last_weekday days t = Some y" for y
  proof (rule last_weekday.raw_induct[where P = ?P, OF _ that])
    fix loop days t y
    assume "\<And>days t y. loop days t = Some y \<Longrightarrow> ?P days t y"
      and "(if on_weekday days (WeekDayFromTime t) then Some t else loop days (t - 86400)) = Some y"
    then show "?P days t y" using WeekDay_range[of t] by (auto split: if_splits)
  qed
  then show ?thesis using assms by (cases "last_weekday days t") auto
qed

text \<open>The pattern has one of the seven days.\<close>

definition some_weekday :: "u32 \<Rightarrow> bool" where
  "some_weekday days \<longleftrightarrow> (\<exists>w. 0 \<le> w \<and> w < 7 \<and> on_weekday days w)"

lemma weekday_ahead:
  assumes "some_weekday days"
  obtains j where "j < 7" "on_weekday days ((f + int j) mod 7)"
proof -
  from assms obtain w where w: "0 \<le> w" "w < 7" "on_weekday days w" by (auto simp: some_weekday_def)
  have j: "int (nat ((w - f) mod 7)) = (w - f) mod 7" by simp
  have "(f + (w - f) mod 7) mod 7 = w" using w by (simp add: mod_simps)
  then have "on_weekday days ((f + int (nat ((w - f) mod 7))) mod 7)" using w j by simp
  moreover have "nat ((w - f) mod 7) < 7" by simp
  ultimately show thesis using that by blast
qed

lemma four_matching:
  assumes "some_weekday days" "28 \<le> len"
  shows "4 \<le> length (matching_days days t len)"
proof -
  let ?P = "\<lambda>i. on_weekday days ((WeekDayFromTime t + int i) mod 7)"
  obtain j where j: "j < 7" "?P j" using weekday_ahead[OF assms(1), of "WeekDayFromTime t"] by blast
  have P: "?P (j + 7 * k)" for k
  proof -
    have "(WeekDayFromTime t + int (j + 7 * k)) mod 7 = (WeekDayFromTime t + int j) mod 7"
      using mod_mult_self2[of "WeekDayFromTime t + int j" 7 "int k"] by (simp add: algebra_simps)
    then show ?thesis using j(2) by simp
  qed
  have "{j, j + 7, j + 14, j + 21} \<subseteq> set (matching_days days t len)"
    using P[of 0] P[of 1] P[of 2] P[of 3] j(1) assms(2) by (simp add: matching_days_def)
  moreover have "card {j, j + 7, j + 14, j + 21} = 4" by simp
  ultimately have "4 \<le> card (set (matching_days days t len))" by (metis card_mono List.finite_set)
  then show ?thesis using card_length[of "matching_days days t len"] by simp
qed

lemma last_matching:
  assumes "i < len" "P i" "\<forall>k. i < k \<and> k < len \<longrightarrow> \<not> P k"
  shows "last (filter P [0..<len]) = i"
proof -
  have "[0..<len] = [0..<i] @ i # [Suc i..<len]"
    using assms(1) upt_add_eq_append[of 0 i "len - i"] by (simp add: upt_conv_Cons)
  moreover have "filter P [Suc i..<len] = []" using assms(3) by (auto simp: filter_empty_conv)
  ultimately show ?thesis using assms(2) by simp
qed

lemma last_weekday_matching:
  assumes "some_weekday days" "28 \<le> len"
  shows "last_weekday days (t + (int len - 1) * 86400) = Some (t + int (last (matching_days days t len)) * 86400)"
proof -
  let ?P = "\<lambda>i. on_weekday days ((WeekDayFromTime t + int i) mod 7)"
  define hit where "hit j = on_weekday days (WeekDayFromTime (t + (int len - 1) * 86400 - int j * 86400))" for j
  have hit: "hit j \<longleftrightarrow> ?P (len - 1 - j)" if "j < len" for j
  proof -
    have "t + (int len - 1) * 86400 - int j * 86400 = t + int (len - 1 - j) * 86400" using that by (simp add: algebra_simps)
    then show ?thesis unfolding hit_def by (simp only: WeekDay_shift)
  qed
  obtain i where i: "i < 7" "?P i" using weekday_ahead[OF assms(1), of "WeekDayFromTime t"] by blast
  have "hit (len - 1 - i)" using hit[of "len - 1 - i"] i assms(2) by simp
  then have ex: "\<exists>j. hit j" by blast
  define j where "j = (LEAST j. hit j)"
  have j: "hit j" "\<And>i. i < j \<Longrightarrow> \<not> hit i" unfolding j_def using LeastI_ex[OF ex] not_less_Least by blast+
  have "j \<le> len - 1 - i" unfolding j_def using \<open>hit (len - 1 - i)\<close> by (rule Least_le)
  then have jl: "j < len" using assms(2) by simp
  have "last_weekday days (t + (int len - 1) * 86400) = Some (t + (int len - 1) * 86400 - int j * 86400)"
    by (rule last_weekday_at) (use j in \<open>simp_all add: hit_def\<close>)
  moreover have "last (matching_days days t len) = len - 1 - j"
    unfolding matching_days_def
  proof (rule last_matching)
    show "len - 1 - j < len" using assms(2) by simp
    show "?P (len - 1 - j)" using hit[OF jl] j(1) by simp
    show "\<forall>k. len - 1 - j < k \<and> k < len \<longrightarrow> \<not> ?P k"
    proof (intro allI impI)
      fix k assume k: "len - 1 - j < k \<and> k < len"
      then have "len - 1 - k < j" "len - 1 - k < len" "len - 1 - (len - 1 - k) = k" by auto
      then show "\<not> ?P k" using hit[of "len - 1 - k"] j(2)[of "len - 1 - k"] by simp
    qed
  qed
  moreover have "int (len - 1 - j) = int len - 1 - int j" using jl by simp
  ultimately show ?thesis by (simp add: algebra_simps)
qed

lemma monthly_day_weekday:
  assumes "0 \<le> m" "m < 12" "- 11644473600 \<le> timegm_day y m 1" "timegm_day y m 1 < 2 ^ 40"
    "ulDayOfMonth s = 0" "ulWeekNumber s \<noteq> 0" "some_weekday (ulWeekDays s)"
  shows "monthly_day s (timegm_day y m 1) x =
    Some (timegm_day y m 1 + int (weekday_of_month s (timegm_day y m 1) (nat (month_lens (y + 1900) ! nat m))) * 86400)"
proof -
  define T L where "T = timegm_day y m 1" and "L = month_lens (y + 1900) ! nat m"
  have nm: "nat m < 12" using assms(1,2) by simp
  have L: "28 \<le> L" "L \<le> 31" using month_lens_bounds[OF nm, of "y + 1900"] by (simp_all add: L_def)
  have g: "tm_year (gmtime_safe T) = y" "tm_mon (gmtime_safe T) = m"
    using gmtime_timegm[of m 1 y 0] assms(1,2) L(1) by (simp_all add: L_def T_def)
  have r: "- 11644473600 \<le> T" "T < 2 ^ 40" using assms(3,4) by (simp_all add: T_def)
  have len: "DaysInMonth (YearFromTime T) (MonthFromTime T) = L"
    using DaysInMonth_len[of "m + 1" "y + 1900"] assms(1,2) by (simp add: YearFromTime_eq[OF r] MonthFromTime_def g L_def)
  have w0: "ulWeekDays s \<noteq> 0" using assms(7) by (auto simp: some_weekday_def on_weekday_def)
  have u0: "0 < unat (ulWeekNumber s)" using assms(6) by (simp add: unat_gt_0)
  have four: "4 \<le> length (matching_days (ulWeekDays s) T (nat L))" by (rule four_matching) (use assms(7) L in simp_all)
  have "monthly_day s T x = Some (T + int (weekday_of_month s T (nat L)) * 86400)"
  proof (cases "ulWeekNumber s < 5")
    case True
    then have u5: "unat (ulWeekNumber s) < 5" by (simp add: word_less_nat_alt)
    have "nth_search (ulWeekDays s) (ulWeekNumber s) T 0 [0..<nat L] = weekday_of_month s T (nat L)"
      using nth_search_matching[of 0 "ulWeekNumber s" "ulWeekDays s" T "[0..<nat L]"] u0 u5 four True
      by (simp add: weekday_of_month_def matching_days_def[symmetric] Let_def)
    then show ?thesis using True assms(5,6) w0 by (simp add: monthly_day_def Let_def len)
  next
    case False
    have "last_weekday (ulWeekDays s) (T + (L - 1) * 86400) = Some (T + int (weekday_of_month s T (nat L)) * 86400)"
      using last_weekday_matching[of "ulWeekDays s" "nat L" T] assms(7) L False by (simp add: weekday_of_month_def)
    then show ?thesis using False assms(5,6) w0 by (simp add: monthly_day_def Let_def len mult.assoc)
  qed
  then show ?thesis by (simp only: T_def L_def)
qed

text \<open>The day of a month that the pattern names, and when it names one.\<close>

definition names_day :: "recurrence_state \<Rightarrow> bool" where
  "names_day s \<longleftrightarrow> (ulDayOfMonth s \<noteq> 0 \<and> ulWeekDays s = 0) \<or>
     (ulDayOfMonth s = 0 \<and> ulWeekNumber s \<noteq> 0 \<and> some_weekday (ulWeekDays s))"

definition pattern_day :: "recurrence_state \<Rightarrow> int \<Rightarrow> int \<Rightarrow> int" where
  "pattern_day s year mon =
     (if ulDayOfMonth s \<noteq> 0 then clipped_day year mon (uint (ulDayOfMonth s))
      else timegm_day year mon 1 + int (weekday_of_month s (timegm_day year mon 1)
             (nat (month_lens (year + mon div 12 + 1900) ! nat (mon mod 12)))) * 86400)"

lemma pattern_day_years: "pattern_day s y (m + 12 * c) = pattern_day s (y + c) m"
  by (simp add: pattern_day_def clipped_day_years timegm_day_years add_ac)

lemma monthly_day_pattern:
  assumes "0 \<le> m" "m < 12" "- 11644473600 \<le> timegm_day y m 1" "timegm_day y m 1 < 2 ^ 40" "names_day s"
  shows "monthly_day s (timegm_day y m 1) x = Some (pattern_day s y m)"
  using monthly_day_clipped[OF assms(1-4), of s x] monthly_day_weekday[OF assms(1-4), of s x] assms
  by (auto simp: names_day_def pattern_day_def)

lemma monthly_day_total:
  assumes "names_day s"
  shows "\<exists>d. monthly_day s t x = Some d \<and> monthly_day s t y = Some d"
proof -
  have "\<exists>d. last_weekday (ulWeekDays s) u = Some d" if "some_weekday (ulWeekDays s)" for u
    using last_weekday_matching[OF that, of 28 "u - 27 * 86400"] by simp
  moreover have "ulWeekDays s \<noteq> 0" if "some_weekday (ulWeekDays s)"
    using that by (auto simp: some_weekday_def on_weekday_def)
  ultimately show ?thesis using assms by (auto simp: names_day_def monthly_day_def Let_def)
qed

lemma monthly_items_days:
  assumes "getFrequency r = MONTHLY" "p = uint (ulPeriod (m_sRecState (with_period r)))"
    "p dvd 12" "p dvd tm_mon (gmtime_safe (getStartDate r))" "names_day (m_sRecState r)"
    "- 11644473600 \<le> StartOfMonth (getStartDate r)" "range_end r q \<le> 2 ^ 40"
    "year = tm_year (gmtime_safe (getStartDate r))" "mon = tm_mon (gmtime_safe (getStartDate r))"
  shows "\<exists>n. (\<forall>k. k < n \<longleftrightarrow> nth_month year mon p k < range_end r q) \<and>
    HrGetItems r q b xs = Some (hrSuccess, with_period r,
      xs @ map (occ_of r q) (filter (takes_utc r q)
             (map (\<lambda>k. pattern_day (m_sRecState r) year (mon + int k * p)) [0..<n])) @
      moved_items q (lstExceptions (m_sRecState r)))"
proof -
  have p: "0 < p" "p dvd 12" "p dvd mon" using assms with_period_pos[of r] by simp_all
  have nd: "names_day (m_sRecState (with_period r))" using assms(5) by (simp add: names_day_def with_period_fields)
  let ?M = "nth_month year mon p" and ?s = "m_sRecState (with_period r)"
  from months_before[OF p] obtain n where n: "\<And>k. k < n \<longleftrightarrow> ?M k < range_end r q" by metis
  define g where "g t = the (monthly_day ?s t 0)" for t
  have M0: "?M 0 = StartOfMonth (getStartDate r)" using assms(8,9) by (simp add: nth_month_def StartOfMonth_eq)
  have lo: "- 11644473600 \<le> ?M k" for k using nth_month_mono[OF p, of year 0 k] assms(6) M0 by simp
  have hi: "?M k < 2 ^ 40" if "k < n" for k using n[of k] that assms(7) by simp
  have items: "HrGetItems r q b xs = Some (hrSuccess, with_period r,
      xs @ map (occ_of r q) (filter (takes_utc r q) (map (\<lambda>k. g (?M k)) [0..<n])) @ moved_items q (lstExceptions (m_sRecState r)))"
  proof (rule HrGetItems_months[where M = ?M and g = g and day = "monthly_day ?s"])
    show "getFrequency r = MONTHLY \<and> monthly_day ?s = monthly_day ?s \<and> ?M 0 = StartOfMonth (getStartDate r) \<or>
        getFrequency r = YEARLY \<and> monthly_day ?s = yearly_day (with_period r) \<and> ?M 0 = StartOfYear (getStartDate r)"
      using assms(1) M0 by simp
    show "monthly_day ?s t x = Some (g t)" for t x
      using monthly_day_total[of ?s t x 0] nd by (auto simp: g_def)
    show "\<forall>k < n. ?M k < range_end r q" "\<not> ?M n < range_end r q" using n n[of n] by simp_all
    show "\<forall>k < n. ?M k + to_uint32 (DaysTillMonth (?M k) (uint (ulPeriod ?s)) * 60 * 60 * 24) = ?M (Suc k)"
      using nth_month_next(3)[OF p lo hi] assms(2) by simp
  qed
  have "g (?M k) = pattern_day (m_sRecState r) year (mon + int k * p)" if "k < n" for k
  proof -
    from nth_month_parts[OF p, of year k] obtain y m where ym: "?M k = timegm_day y m 1" "0 \<le> m" "m + p \<le> 12"
      "y = year + (mon + int k * p) div 12" "m = (mon + int k * p) mod 12" by metis
    have "monthly_day ?s (timegm_day y m 1) 0 = Some (pattern_day ?s y m)"
      by (rule monthly_day_pattern) (use ym lo[of k] hi[OF that] p(1) nd in simp_all)
    moreover have "pattern_day ?s year (mon + int k * p) = pattern_day ?s y m"
      using pattern_day_years[of ?s year m "(mon + int k * p) div 12"] ym(4,5) by simp
    moreover have "pattern_day ?s = pattern_day (m_sRecState r)"
      by (simp add: fun_eq_iff pattern_day_def weekday_of_month_def with_period_fields Let_def)
    ultimately show ?thesis by (simp add: g_def ym(1))
  qed
  then have e: "map (\<lambda>k. g (?M k)) [0..<n] = map (\<lambda>k. pattern_day (m_sRecState r) year (mon + int k * p)) [0..<n]"
    by simp
  show ?thesis using n by (intro exI[of _ n] conjI) (blast, simp only: items e)
qed

lemma yearly_items_days:
  assumes "getFrequency r = YEARLY" "ulPeriod (m_sRecState (with_period r)) = 12" "ulDayOfMonth (m_sRecState r) \<noteq> 0"
    "- 11644473600 \<le> StartOfYear (getStartDate r)" "range_end r q \<le> 2 ^ 39" "year = tm_year (gmtime_safe (getStartDate r))"
  shows "\<exists>n. (\<forall>k. k < n \<longleftrightarrow> timegm_day (year + int k) 0 1 < range_end r q) \<and>
    HrGetItems r q b xs = Some (hrSuccess, with_period r,
      xs @ map (occ_of r q) (filter (takes_utc r q)
             (map (\<lambda>k. clipped_day (year + int k) (getMonth r - 1) (uint (ulDayOfMonth (m_sRecState r)))) [0..<n])) @
      moved_items q (lstExceptions (m_sRecState r)))"
proof -
  have p: "(0 :: int) < 12" "(12 :: int) dvd 12" "(12 :: int) dvd 0" by simp_all
  let ?M = "nth_month year 0 12"
  have M: "?M k = timegm_day (year + int k) 0 1" for k
    using timegm_day_years[of year 0 "int k" 1] by (simp add: nth_month_def mult.commute)
  from months_before[OF p] obtain n where n: "\<And>k. k < n \<longleftrightarrow> ?M k < range_end r q" by metis
  define g where "g t = the (yearly_day (with_period r) t 0)" for t
  have M0: "?M 0 = StartOfYear (getStartDate r)" using M[of 0] assms(6) by (simp add: StartOfYear_eq)
  have lo: "- 11644473600 \<le> ?M k" for k using nth_month_mono[OF p, of year 0 k] assms(4) M0 by simp
  have hi: "?M k < 2 ^ 39" if "k < n" for k using n[of k] that assms(5) by simp
  have items: "HrGetItems r q b xs = Some (hrSuccess, with_period r,
      xs @ map (occ_of r q) (filter (takes_utc r q) (map (\<lambda>k. g (?M k)) [0..<n])) @ moved_items q (lstExceptions (m_sRecState r)))"
  proof (rule HrGetItems_months[where M = ?M and g = g and day = "yearly_day (with_period r)"])
    show "getFrequency r = MONTHLY \<and> yearly_day (with_period r) = monthly_day (m_sRecState (with_period r)) \<and> ?M 0 = StartOfMonth (getStartDate r) \<or>
        getFrequency r = YEARLY \<and> yearly_day (with_period r) = yearly_day (with_period r) \<and> ?M 0 = StartOfYear (getStartDate r)"
      using assms(1) M0 by simp
    show "yearly_day (with_period r) t x = Some (g t)" for t x
      using assms(3) by (simp add: g_def yearly_day_def with_period_fields Let_def)
    show "\<forall>k < n. ?M k < range_end r q" "\<not> ?M n < range_end r q" using n n[of n] by simp_all
    have "?M k + to_uint32 (DaysTillMonth (?M k) 12 * 60 * 60 * 24) = ?M (Suc k)" if "k < n" for k
    proof (rule nth_month_next(3)[OF p lo])
      show "?M k < 2 ^ 40" using hi[OF that] by simp
    qed
    then show "\<forall>k < n. ?M k + to_uint32 (DaysTillMonth (?M k) (uint (ulPeriod (m_sRecState (with_period r)))) * 60 * 60 * 24) = ?M (Suc k)"
      by (simp add: assms(2))
  qed
  have mo: "getMonth (with_period r) = getMonth r" by (simp add: with_period_def default_period_same)
  have "g (?M k) = clipped_day (year + int k) (getMonth r - 1) (uint (ulDayOfMonth (m_sRecState r)))" if "k < n" for k
    using yearly_day_clipped[of "year + int k" "with_period r" 0] lo[of k] hi[OF that] assms(3)
    by (simp add: g_def M with_period_fields mo)
  then have e: "map (\<lambda>k. g (?M k)) [0..<n] =
      map (\<lambda>k. clipped_day (year + int k) (getMonth r - 1) (uint (ulDayOfMonth (m_sRecState r)))) [0..<n]" by simp
  show ?thesis using n[unfolded M] by (intro exI[of _ n] conjI) (blast, simp only: items e)
qed

subsection \<open>Every occurrence that is listed is valid\<close>

text \<open>A loop keeps what its body keeps.\<close>

lemma time_loop_keeps:
  assumes run: "time_loop c next body t s = Some y"
    and keeps: "\<And>t s stop s'. I s \<Longrightarrow> body t s = Some (stop, s') \<Longrightarrow> I s'"
    and start: "I s"
  shows "I (y :: 's)"
proof -
  let ?P = "\<lambda>c next body t (s :: 's) (y :: 's). (\<forall>t s stop s'. I s \<longrightarrow> body t s = Some (stop, s') \<longrightarrow> I s') \<longrightarrow> I s \<longrightarrow> I y"
  have "?P c next body t s y"
  proof (rule time_loop.raw_induct[where P = ?P, OF _ run], intro impI)
    fix loop c "next" body t s y
    assume IH: "\<And>c next body t s y. loop c next body t s = Some y \<Longrightarrow> ?P c next body t s y"
      and run: "(if c t then do { (stop, s) \<leftarrow> body t s; if stop then Some s else loop c next body (next t) s } else Some s) = Some y"
      and b: "\<forall>t s stop s'. I s \<longrightarrow> body t s = Some (stop, s') \<longrightarrow> I s'" and i: "I s"
    show "I y"
    proof (cases "c t")
      case True
      with run obtain stop s' where s': "body t s = Some (stop, s')"
        "(if stop then Some s' else loop c next body (next t) s') = Some y" by (auto split: Option.bind_splits prod.splits)
      then have "I s'" using b i by blast
      then show ?thesis using s'(2) IH[of c "next" body "next t" s' y] b by (cases stop) auto
    next
      case False
      then show ?thesis using run i by simp
    qed
  qed
  then show ?thesis using keeps start by blast
qed

text \<open>Lists that grow by valid occurrences, where \<open>V\<close> says when a day is valid.\<close>

definition grows :: "recurrence \<Rightarrow> items_query \<Rightarrow> (int \<Rightarrow> bool) \<Rightarrow> occr_info list \<Rightarrow> occr_info list \<Rightarrow> bool" where
  "grows r q V xs ys \<longleftrightarrow> (\<exists>ds. ys = xs @ map (occ_of r q) ds \<and> (\<forall>d \<in> set ds. V d))"

lemma grows_refl: "grows r q V xs xs"
  by (auto simp: grows_def intro: exI[of _ "[]"])

lemma grows_trans: "grows r q V xs ys \<Longrightarrow> grows r q V ys zs \<Longrightarrow> grows r q V xs zs"
  unfolding grows_def by (metis append.assoc map_append Un_iff set_append)

lemma grows_add_day: "V d \<Longrightarrow> grows r q V xs (add_day r q d xs)"
  by (auto simp: grows_def add_day_append intro!: exI[of _ "[d]"])

lemma try_day_grows: "grows r q (takes_day r q) xs (snd (try_day r q b on t xs))"
  using grows_refl grows_add_day[of "takes_day r q" t r q xs]
  by (auto simp: try_day_def CheckAddValidOccr_def takes_day_def)

lemma week_loop_grows: "grows r q (takes_day r q) xs (snd (week_loop r q b is t xs))"
proof (induction "is" arbitrary: xs)
  case (Cons i "is")
  note one = try_day_grows[of r q xs b "\<lambda>t. on_weekday (ulWeekDays (m_sRecState r)) (WeekDayFromTime t)" "t + i * 1440 * 60"]
  show ?case
    using one grows_trans[OF one Cons.IH] by (simp split: prod.splits) (metis snd_conv)
qed (simp add: grows_refl)

lemma step_loop_grows:
  assumes "\<And>t xs. grows r q V xs (snd (body t xs))" "step_loop b step a e body xs = Some ys"
  shows "grows r q V xs ys"
proof -
  have k: "grows r q V xs s'" if "grows r q V xs s" "Some (body t s) = Some (stop, s')" for t s stop s'
    using assms(1)[of s t] that by (auto intro: grows_trans)
  show ?thesis
    using assms(2) time_loop_keeps[of _ _ "\<lambda>t xs. Some (body t xs)" _ xs ys "grows r q V xs", OF _ k grows_refl]
    by (auto simp: step_loop_def split: if_splits)
qed

lemma month_loop_grows:
  assumes "month_loop r q day t e xs = Some ys"
  shows "grows r q (takes_utc r q) xs ys"
proof -
  let ?body = "\<lambda>t (tsDayNow, xs). do {
      tsDayNow \<leftarrow> day t tsDayNow;
      Some (False, tsDayNow,
        if isOccurrenceValid r (q_tsStart q) (q_tsEnd q) (tsDayNow + uint (getStartTimeOffset r))
        then add_day r q tsDayNow xs else xs)
    }"
  from assms obtain x where run: "time_loop (\<lambda>t. t < e)
      (\<lambda>t. t + to_uint32 (DaysTillMonth t (uint (ulPeriod (m_sRecState r))) * 60 * 60 * 24)) ?body t (0, xs) = Some (x, ys)"
    by (auto simp: month_loop_def)
  have "grows r q (takes_utc r q) xs (snd (x, ys))"
  proof (rule time_loop_keeps[OF run, of "\<lambda>s. grows r q (takes_utc r q) xs (snd s)"])
    fix t s stop s'
    assume g: "grows r q (takes_utc r q) xs (snd s)" and b: "?body t s = Some (stop, s')"
    define d where "d = the (day t (fst s))"
    from b have "snd s' = (if takes_utc r q d then add_day r q d (snd s) else snd s)"
      by (cases s) (auto simp: takes_utc_def d_def split: Option.bind_splits)
    then have "grows r q (takes_utc r q) (snd s) (snd s')"
      using grows_add_day[of "takes_utc r q" d r q "snd s"] grows_refl[of r q "takes_utc r q" "snd s"] by simp
    then show "grows r q (takes_utc r q) xs (snd s')" using g grows_trans by blast
  qed (simp add: grows_refl)
  then show ?thesis by simp
qed

text \<open>The period that occurrences are compared with: in local time for days and weeks, in UTC else.\<close>

definition takes :: "recurrence \<Rightarrow> items_query \<Rightarrow> int \<Rightarrow> bool" where
  "takes r q = (if getFrequency r = DAILY \<or> getFrequency r = WEEKLY then takes_day r q else takes_utc r q)"

text \<open>The loop of each frequency.\<close>

definition rule_loop :: "recurrence \<Rightarrow> items_query \<Rightarrow> bool \<Rightarrow> occr_info list \<Rightarrow> occr_info list option" where
  "rule_loop r q b =
     (case getFrequency r of
        DAILY \<Rightarrow> daily_items r q b (getStartDate r) (range_end r q)
      | WEEKLY \<Rightarrow> weekly_items r q b (getStartDate r) (range_end r q)
      | MONTHLY \<Rightarrow> month_loop r q (monthly_day (m_sRecState r)) (StartOfMonth (getStartDate r)) (range_end r q)
      | YEARLY \<Rightarrow> month_loop r q (yearly_day r) (StartOfYear (getStartDate r)) (range_end r q))"

lemma HrGetItems_loop:
  "HrGetItems r q b xs =
     map_option (\<lambda>zs. (hrSuccess, with_period r, zs @ moved_items q (lstExceptions (m_sRecState r)))) (rule_loop (with_period r) q b xs)"
  by (cases "getFrequency r"; cases "rule_loop (with_period r) q b xs")
     (simp_all add: HrGetItems_def rule_items_def rule_loop_def with_period_def default_period_same Let_def add_exceptions)

lemma rule_loop_grows:
  assumes "rule_loop r q b xs = Some ys"
  shows "grows r q (takes r q) xs ys"
proof (cases "getFrequency r")
  case DAILY
  with assms show ?thesis
    by (auto simp: rule_loop_def daily_items_def takes_def split: if_splits dest!: step_loop_grows[OF try_day_grows])
next
  case WEEKLY
  with assms show ?thesis
    by (auto simp: rule_loop_def weekly_items_def takes_def dest!: step_loop_grows[OF week_loop_grows])
qed (use assms month_loop_grows in \<open>auto simp: rule_loop_def takes_def\<close>)

lemma HrGetItems_valid:
  assumes "HrGetItems r q b xs = Some (hr, r', ys)"
  shows "\<exists>ds. ys = xs @ map (occ_of r q) ds @ moved_items q (lstExceptions (m_sRecState r)) \<and> (\<forall>d \<in> set ds. takes r q d)"
proof -
  have same: "occ_of (with_period r) = occ_of r" "takes (with_period r) q = takes r q"
    by (simp_all add: fun_eq_iff occ_of_def takes_def takes_day_def takes_utc_def isOccurrenceValid_def with_period_def default_period_same)
  from assms obtain zs where "rule_loop (with_period r) q b xs = Some zs"
    "ys = zs @ moved_items q (lstExceptions (m_sRecState r))" by (auto simp: HrGetItems_loop)
  then show ?thesis using rule_loop_grows[of "with_period r" q b xs zs] by (auto simp: grows_def same)
qed

subsection \<open>When the loops end\<close>

lemma step_loop_ends:
  assumes "0 \<le> step" "\<And>t xs. \<not> fst (body t xs)"
  shows "step_loop False step a e body xs = None \<longleftrightarrow> step = 0 \<and> a \<le> e"
proof (cases "step = 0")
  case True
  show ?thesis
  proof (cases "a \<le> e")
    case le: True
    have "time_loop (\<lambda>t. t \<le> e) (\<lambda>t. t + step) (\<lambda>t xs. Some (body t xs)) a xs = None"
      by (rule loop_stands_still) (use le True assms(2) in \<open>auto simp: prod_eq_iff\<close>)
    then show ?thesis using True le by (simp add: step_loop_def)
  next
    case False
    then show ?thesis by (simp add: step_loop_def time_loop.simps[of _ _ _ a])
  qed
next
  case False
  then show ?thesis using step_loop_scan[of step False a e body xs] assms(1) by simp
qed

lemma weekly_daily_ends:
  assumes "getFrequency r = DAILY \<or> getFrequency r = WEEKLY"
  shows "HrGetItems r q False xs = None \<longleftrightarrow> rule_step (with_period r) = 0 \<and> getStartDate r \<le> range_end r q"
proof -
  let ?r = "with_period r"
  have same: "getFrequency ?r = getFrequency r" "getStartDate ?r = getStartDate r" "range_end ?r q = range_end r q"
    by (simp_all add: with_period_def default_period_same)
  have t: "\<not> fst (try_day ?r q False on t xs)" for on t xs by (simp add: try_day_def split: prod.splits)
  have w: "\<not> fst (week_loop ?r q False is t xs)" for "is" t xs
    by (induction "is" arbitrary: xs) (auto split: prod.splits dest: arg_cong[where f = fst] simp: t[simplified])
  have pos: "0 \<le> rule_step ?r" by (simp add: rule_step_def)
  have td: "step_loop False (rule_step ?r) a e (try_day ?r q False on) xs = None \<longleftrightarrow> rule_step ?r = 0 \<and> a \<le> e" for a e on
    using pos t by (rule step_loop_ends)
  have wk: "step_loop False (rule_step ?r) a e (week_loop ?r q False is) xs = None \<longleftrightarrow> rule_step ?r = 0 \<and> a \<le> e" for a e "is"
    using pos w by (rule step_loop_ends)
  from assms show ?thesis
  proof
    assume d: "getFrequency r = DAILY"
    then have "rule_loop ?r q False xs = None \<longleftrightarrow> rule_step ?r = 0 \<and> getStartDate r \<le> range_end r q"
      using td[of "getStartDate r" "range_end r q"]
      by (cases "ulPatternType (m_sRecState ?r) = 0") (simp_all add: rule_loop_def daily_items_def rule_step_def same)
    then show ?thesis by (simp add: HrGetItems_loop)
  next
    assume d: "getFrequency r = WEEKLY"
    then have "rule_loop ?r q False xs = None \<longleftrightarrow> rule_step ?r = 0 \<and> getStartDate r \<le> range_end r q"
      using wk by (simp add: rule_loop_def weekly_items_def rule_step_def same)
    then show ?thesis by (simp add: HrGetItems_loop)
  qed
qed

lemma last_weekday_ends: "last_weekday days t \<noteq> None \<longleftrightarrow> some_weekday days"
proof (cases "some_weekday days")
  case True
  then show ?thesis using last_weekday_matching[of days 28 "t - 27 * 86400"] by simp
next
  case False
  then have "last_weekday days t = None" by (intro last_weekday_endless) (auto simp: some_weekday_def)
  then show ?thesis using False by simp
qed

end
