(* ===== verification/Recurrence_Facts.thy ===== *)
theory Recurrence_Facts
  imports Recurrence_State
begin

text \<open>
  The round trip of the recurrence blob: what \<open>GetBlob\<close> writes, \<open>ParseBlob\<close> reads back as the
  same object. The proof follows the blob block by block with the relation \<open>accepts\<close>: a parser
  step consumes given bytes and moves one state to another, whatever follows the bytes.
\<close>

subsection \<open>Bytes of words\<close>

lemma word_of_bytes32 [simp]:
  "get32 (ucast x) (ucast (drop_bit 8 x)) (ucast (drop_bit 16 x)) (ucast (drop_bit 24 x)) = (x :: u32)"
proof (rule bit_word_eqI)
  fix n assume "n < LENGTH(32)"
  then consider "n < 8" | "8 \<le> n" "n < 16" | "16 \<le> n" "n < 24" | "24 \<le> n" "n < 32" by fastforce
  then show "bit (get32 (ucast x) (ucast (drop_bit 8 x)) (ucast (drop_bit 16 x)) (ucast (drop_bit 24 x))) n = bit x n"
    by cases (auto simp: get32_def bit_simps)
qed

lemma word_of_bytes16:
  assumes "x < 2 ^ 16"
  shows "get16 (ucast x) (ucast (drop_bit 8 x)) = (x :: u32)"
proof (rule bit_word_eqI)
  fix n assume n: "n < LENGTH(32)"
  have "unat x < 2 ^ 16" using assms by (simp add: word_less_nat_alt)
  then have "take_bit 16 (unat x) = unat x" by (simp add: take_bit_nat_eq_self_iff)
  moreover have "bit (take_bit 16 (unat x)) n \<Longrightarrow> n < 16" by (simp add: bit_take_bit_iff)
  ultimately have hi: "16 \<le> n \<Longrightarrow> \<not> bit x n" using n by (auto simp: bit_unsigned_iff)
  consider "n < 8" | "8 \<le> n" "n < 16" | "16 \<le> n" by linarith
  then show "bit (get16 (ucast x) (ucast (drop_bit 8 x))) n = bit x n"
  proof cases
    case 3
    then show ?thesis using hi n by (simp add: get16_def bit_simps)
  qed (use n in \<open>auto simp: get16_def bit_simps\<close>)
qed

subsection \<open>Parser steps on written bytes\<close>

text \<open>The reader behind \<open>p\<close> with \<open>r\<close> still to be read.\<close>

definition at :: "bytes \<Rightarrow> bytes \<Rightarrow> pstate \<Rightarrow> pstate" where
  "at p r s = s\<lparr>m_lpData := p @ r, m_ulLen := of_nat (length (p @ r)), m_ulCursor := of_nat (length p)\<rparr>"

lemma at_parts [simp]:
  "m_lpData (at p r s) = p @ r" "m_ulLen (at p r s) = of_nat (length (p @ r))"
  "m_ulCursor (at p r s) = of_nat (length p)"
  "p_rs (at p r s) = p_rs s" "p_ex (at p r s) = p_ex s" "p_xx (at p r s) = p_xx s"
  "at p r (at q t s) = at p r s" "at p r (s\<lparr>p_rs := a\<rparr>) = (at p r s)\<lparr>p_rs := a\<rparr>"
  "at p r (s\<lparr>p_ex := x\<rparr>) = (at p r s)\<lparr>p_ex := x\<rparr>" "at p r (s\<lparr>p_xx := y\<rparr>) = (at p r s)\<lparr>p_xx := y\<rparr>"
  by (simp_all add: at_def)

text \<open>A read of the next bytes \<open>b\<close> is inside, and moves behind them.\<close>

lemma at_fetch:
  fixes n :: u32
  assumes "length (p @ b @ r) < 2 ^ 32" "n = of_nat (length b)"
  shows "\<not> m_ulCursor (at p (b @ r) s) + n > m_ulLen (at p (b @ r) s)"
    "n \<le> m_ulLen (at p (b @ r) s) - m_ulCursor (at p (b @ r) s)"
    "mem_read (m_lpData (at p (b @ r) s)) (unat (m_ulCursor (at p (b @ r) s))) (length b) = Some b"
    "(at p (b @ r) s)\<lparr>m_ulCursor := m_ulCursor (at p (b @ r) s) + n\<rparr> = at (p @ b) r s"
proof -
  have of: "unat (of_nat m :: u32) = m" if "m \<le> length (p @ b @ r)" for m
    using that assms(1) by (simp add: unat_of_nat)
  have sum: "(of_nat (length p) :: u32) + n = of_nat (length p + length b)" by (simp add: assms(2))
  have diff: "(of_nat (length (p @ b @ r)) :: u32) - of_nat (length p) = of_nat (length (b @ r))" by simp
  show "\<not> m_ulCursor (at p (b @ r) s) + n > m_ulLen (at p (b @ r) s)"
  proof -
    have "unat (of_nat (length p + length b) :: u32) \<le> unat (of_nat (length (p @ b @ r)) :: u32)"
      by (subst (1 2) of) simp_all
    then show ?thesis unfolding at_parts sum word_less_nat_alt not_less .
  qed
  show "n \<le> m_ulLen (at p (b @ r) s) - m_ulCursor (at p (b @ r) s)"
  proof -
    have "unat (of_nat (length b) :: u32) \<le> unat (of_nat (length (b @ r)) :: u32)"
      by (subst (1 2) of) simp_all
    then show ?thesis unfolding at_parts diff assms(2) word_le_nat_alt .
  qed
  show "mem_read (m_lpData (at p (b @ r) s)) (unat (m_ulCursor (at p (b @ r) s))) (length b) = Some b"
    by (simp add: of)
  show "(at p (b @ r) s)\<lparr>m_ulCursor := m_ulCursor (at p (b @ r) s) + n\<rparr> = at (p @ b) r s"
    by (simp add: at_def assms(2))
qed

definition accepts :: "rstep \<Rightarrow> bytes \<Rightarrow> pstate \<Rightarrow> pstate \<Rightarrow> bool" where
  "accepts f b s s' \<longleftrightarrow>
     (\<forall>p r. length (p @ b @ r) < 2 ^ 32 \<longrightarrow> f (at p (b @ r) s) = Some (True, at (p @ b) r s'))"

definition norest :: "(pstate \<Rightarrow> pstate) \<Rightarrow> bool" where
  "norest g \<longleftrightarrow> (\<forall>s p r. g (at p r s) = at p r (g s))"

lemma norest_sets [simp]: "norest (set_rs f)" "norest (set_ex g)" "norest (set_xx h)"
  by (simp_all add: norest_def set_rs_def set_ex_def set_xx_def)

lemma accepts_nil: "accepts (steps []) [] s s"
  by (simp add: accepts_def)

lemma accepts_cons:
  "accepts f b s s1 \<Longrightarrow> accepts (steps fs) c s1 s2 \<Longrightarrow> accepts (steps (f # fs)) (b @ c) s s2"
  unfolding accepts_def by (auto simp: add.assoc)

lemma accepts_skip:
  "accepts f [] s s1 \<Longrightarrow> accepts (steps fs) c s1 s2 \<Longrightarrow> accepts (steps (f # fs)) c s s2"
  using accepts_cons[of f "[]"] by simp

lemma accepts_end:
  "accepts f b s s1 \<Longrightarrow> accepts (steps fs) [] s1 s2 \<Longrightarrow> accepts (steps (f # fs)) b s s2"
  using accepts_cons[of f b s s1 fs "[]"] by simp

lemma accepts_last: "accepts f b s s' \<Longrightarrow> accepts (steps [f]) b s s'"
  by (rule accepts_end[OF _ accepts_nil])

lemma accepts_pure: "norest g \<Longrightarrow> accepts (pure_step g) [] s (g s)"
  by (simp add: accepts_def norest_def pure_step_def)

lemma lengths_put [simp]: "length (put32 x) = 4" "length (put16 x) = 2"
  by (simp_all add: put32_def put16_def)

lemma long_then_at:
  assumes "length (p @ put32 x @ r) < 2 ^ 32"
  shows "long_then k (at p (put32 x @ r) s) = k x (at (p @ put32 x) r s)"
proof -
  have b: "put32 x ! 0 = ucast x" "put32 x ! 1 = ucast (drop_bit 8 x)" "put32 x ! 2 = ucast (drop_bit 16 x)"
    "put32 x ! 3 = ucast (drop_bit 24 x)" by (simp_all add: put32_def)
  note f = at_fetch[OF assms, of 4, unfolded lengths_put, simplified of_nat_numeral, OF refl]
  show ?thesis by (simp only: long_then_def f if_False bind.bind_lunit b word_of_bytes32)
qed

lemma short_then_at:
  assumes "length (p @ put16 x @ r) < 2 ^ 32"
  shows "short_then k (at p (put16 x @ r) s) = k (get16 (ucast x) (ucast (drop_bit 8 x))) (at (p @ put16 x) r s)"
proof -
  have b: "put16 x ! 0 = ucast x" "put16 x ! 1 = ucast (drop_bit 8 x)" by (simp_all add: put16_def)
  note f = at_fetch[OF assms, of 2, unfolded lengths_put, simplified of_nat_numeral, OF refl]
  show ?thesis by (simp only: short_then_def f if_False bind.bind_lunit b)
qed

lemma accepts_long_then: "accepts (k x) b s s' \<Longrightarrow> accepts (long_then k) (put32 x @ b) s s'"
  unfolding accepts_def by (auto simp: long_then_at[unfolded append_assoc] simp flip: append_assoc) (auto simp: long_then_at)

lemma accepts_short_any:
  "(\<And>y. accepts (k y) b s s') \<Longrightarrow> accepts (short_then k) (put16 x @ b) s s'"
  by (auto simp: accepts_def short_then_at)

lemma accepts_short_then:
  "x < 2 ^ 16 \<Longrightarrow> accepts (k x) b s s' \<Longrightarrow> accepts (short_then k) (put16 x @ b) s s'"
  by (auto simp: accepts_def short_then_at word_of_bytes16)

lemma accepts_long: "norest (upd x) \<Longrightarrow> accepts (ReadLong upd) (put32 x) s (upd x s)"
  using accepts_long_then[OF accepts_pure] unfolding ReadLong_def by force

lemma accepts_short:
  "norest (upd x) \<Longrightarrow> x < 2 ^ 16 \<Longrightarrow> accepts (ReadShort upd) (put16 x) s (upd x s)"
  using accepts_short_then[OF _ accepts_pure] unfolding ReadShort_def by force

lemma accepts_string:
  assumes "norest (upd x)" "unat n = length x" "length x < 2 ^ 31"
  shows "accepts (ReadString n upd) x s (upd x s)"
  unfolding accepts_def
proof (intro allI impI)
  fix p r assume l: "length (p @ x @ r) < 2 ^ 32"
  have n: "n < 2 ^ 31" "n = of_nat (length x)"
    using assms(3) by (simp_all add: word_less_nat_alt assms(2) flip: assms(2))
  note f = at_fetch[OF l n(2), of s]
  have "\<not> n > m_ulLen (at p (x @ r) s) - m_ulCursor (at p (x @ r) s)" using f(2) by simp
  then show "ReadString n upd (at p (x @ r) s) = Some (True, at (p @ x) r (upd x s))"
    using assms(1) n(1) by (simp only: ReadString_def Let_def if_False f assms(2) bind.bind_lunit norest_def) simp
qed

lemma accepts_str32:
  "norest (upd x) \<Longrightarrow> length x < 2 ^ 31 \<Longrightarrow>
    accepts (long_then (\<lambda>n. ReadString n upd)) (put_str32 x) s (upd x s)"
  unfolding put_str32_def
  by (intro accepts_long_then accepts_string) (simp_all add: unat_of_nat)

lemma accepts_str16:
  "norest (upd x) \<Longrightarrow> length x < 2 ^ 16 \<Longrightarrow>
    accepts (short_then (\<lambda>n1. short_then (\<lambda>n2. ReadString n2 upd))) (put_str16 x) s (upd x s)"
  unfolding put_str16_def
  by (intro accepts_short_any accepts_short_then accepts_string)
    (simp_all add: unat_of_nat word_less_nat_alt)

lemma accepts_when:
  assumes "\<And>p r. c (at p r s) = b" "b \<Longrightarrow> accepts (steps fs) w s s1" "\<not> b \<Longrightarrow> s1 = s"
  shows "accepts (when_set c fs) (if b then w else []) s s1"
  using assms by (cases b) (auto simp: accepts_def when_set_def)

lemma accepts_repeat:
  assumes "\<And>x s. x \<in> set xs \<Longrightarrow> P s \<Longrightarrow> accepts f (w x) s (g x s) \<and> P (g x s)" "P s"
  shows "accepts (repeat_step (length xs) f) (concat (map w xs)) s (fold g xs s) \<and> P (fold g xs s)"
  using assms
proof (induction xs arbitrary: s)
  case (Cons x xs)
  have f: "accepts f (w x) s (g x s)" "P (g x s)" using Cons.prems by auto
  have "accepts (repeat_step (length xs) f) (concat (map w xs)) (g x s) (fold g xs (g x s)) \<and>
      P (fold g xs (g x s))"
    using Cons.prems f(2) by (intro Cons.IH) auto
  then show ?case using f(1) by (auto simp: accepts_def add.assoc)
qed (simp add: accepts_def)

subsection \<open>Which objects survive\<close>

text \<open>A field that the flags leave out has the value that an unread field has.\<close>

definition wf_exception :: "rs_env \<Rightarrow> rexception \<Rightarrow> bool" where
  "wf_exception e x \<longleftrightarrow>
     (let fl = ex_ulOverrideFlags x; raw = raw_exception e in
      fl < 2 ^ 16 \<and> length (ex_strSubject x) < 2 ^ 16 \<and> length (ex_strLocation x) < 2 ^ 16 \<and>
      (fl AND ARO_SUBJECT = 0 \<longrightarrow> ex_strSubject x = ex_strSubject raw) \<and>
      (fl AND ARO_MEETINGTYPE = 0 \<longrightarrow> ex_ulApptStateFlags x = ex_ulApptStateFlags raw) \<and>
      (fl AND ARO_REMINDERDELTA = 0 \<longrightarrow> ex_ulReminderDelta x = ex_ulReminderDelta raw) \<and>
      (fl AND ARO_REMINDERSET = 0 \<longrightarrow> ex_ulReminderSet x = ex_ulReminderSet raw) \<and>
      (fl AND ARO_LOCATION = 0 \<longrightarrow> ex_strLocation x = ex_strLocation raw) \<and>
      (fl AND ARO_BUSYSTATUS = 0 \<longrightarrow> ex_ulBusyStatus x = ex_ulBusyStatus raw) \<and>
      (fl AND ARO_ATTACHMENT = 0 \<longrightarrow> ex_ulAttachment x = ex_ulAttachment raw) \<and>
      (fl AND ARO_SUBTYPE = 0 \<longrightarrow> ex_ulSubType x = ex_ulSubType raw) \<and>
      (fl AND ARO_APPTCOLOR = 0 \<longrightarrow> ex_ulAppointmentColor x = ex_ulAppointmentColor raw))"

text \<open>One optional block of an exception, on a state that already holds the flags.\<close>

definition ex_state :: "pstate \<Rightarrow> rexception \<Rightarrow> pstate" where
  "ex_state s y = s\<lparr>p_ex := y\<rparr>"

lemma accepts_block:
  assumes "accepts (steps fs) w (ex_state s y) (ex_state s y')"
    and "ex_ulOverrideFlags y = fl" "fl AND f = 0 \<Longrightarrow> y' = y"
  shows "accepts (when_set (has_override f) fs) (put_if fl f w) (ex_state s y) (ex_state s y')"
  unfolding put_if_def
  using assms by (intro accepts_when) (auto simp: has_override_def ex_state_def)

lemma accepts_ex_long:
  "accepts (ReadLong (\<lambda>x. set_ex (u x))) (put32 v) (ex_state s y) (ex_state s (u v y))"
  using accepts_long[of "\<lambda>x. set_ex (u x)" v "ex_state s y"] by (simp add: ex_state_def set_ex_def)

lemma accepts_ex_short:
  "v < 2 ^ 16 \<Longrightarrow> accepts (ReadShort (\<lambda>x. set_ex (u x))) (put16 v) (ex_state s y) (ex_state s (u v y))"
  using accepts_short[of "\<lambda>x. set_ex (u x)" v "ex_state s y"] by (simp add: ex_state_def set_ex_def)

lemma accepts_ex_str:
  "length v < 2 ^ 16 \<Longrightarrow> accepts (steps [short_then (\<lambda>n1. short_then (\<lambda>n2. ReadString n2 (\<lambda>x. set_ex (u x))))])
     (put_str16 v) (ex_state s y) (ex_state s (u v y))"
  using accepts_str16[of "\<lambda>x. set_ex (u x)" v "ex_state s y"] by (intro accepts_last) (simp add: ex_state_def set_ex_def)

lemma accepts_append_ex:
  "accepts (steps [pure_step (\<lambda>s. set_rs (\<lambda>r. r\<lparr>lstExceptions := lstExceptions r @ [p_ex s]\<rparr>) s)]) []
     (ex_state s y) (set_rs (\<lambda>r. r\<lparr>lstExceptions := lstExceptions r @ [y]\<rparr>) (ex_state s y))"
  by (simp add: accepts_def pure_step_def set_rs_def ex_state_def)

lemma accepts_exception:
  assumes "wf_exception e x"
  shows "accepts (parse_exception e) (put_exception x) s
    (s\<lparr>p_ex := x, p_rs := (p_rs s)\<lparr>lstExceptions := lstExceptions (p_rs s) @ [x]\<rparr>\<rparr>)"
proof -
  define fl where "fl = ex_ulOverrideFlags x"
  define raw where "raw = raw_exception e"
  note wf = assms[unfolded wf_exception_def Let_def, folded fl_def raw_def]
  have w: "fl < 2 ^ 16" "length (ex_strSubject x) < 2 ^ 16" "length (ex_strLocation x) < 2 ^ 16"
      "fl AND ARO_SUBJECT = 0 \<Longrightarrow> ex_strSubject x = ex_strSubject raw"
      "fl AND ARO_MEETINGTYPE = 0 \<Longrightarrow> ex_ulApptStateFlags x = ex_ulApptStateFlags raw"
      "fl AND ARO_REMINDERDELTA = 0 \<Longrightarrow> ex_ulReminderDelta x = ex_ulReminderDelta raw"
      "fl AND ARO_REMINDERSET = 0 \<Longrightarrow> ex_ulReminderSet x = ex_ulReminderSet raw"
      "fl AND ARO_LOCATION = 0 \<Longrightarrow> ex_strLocation x = ex_strLocation raw"
      "fl AND ARO_BUSYSTATUS = 0 \<Longrightarrow> ex_ulBusyStatus x = ex_ulBusyStatus raw"
      "fl AND ARO_ATTACHMENT = 0 \<Longrightarrow> ex_ulAttachment x = ex_ulAttachment raw"
      "fl AND ARO_SUBTYPE = 0 \<Longrightarrow> ex_ulSubType x = ex_ulSubType raw"
      "fl AND ARO_APPTCOLOR = 0 \<Longrightarrow> ex_ulAppointmentColor x = ex_ulAppointmentColor raw"
    using wf by blast+
  note acc = accepts_cons[OF accepts_block[where fl = fl, OF accepts_last[OF accepts_ex_long]]]
  have "\<exists>y. accepts (parse_exception e) (put_exception x) s
      (set_rs (\<lambda>r. r\<lparr>lstExceptions := lstExceptions r @ [y]\<rparr>) (ex_state s y)) \<and> y = x"
    unfolding parse_exception_def exception_fields_def append_Cons append_Nil put_exception_def Let_def fl_def[symmetric] raw_def[symmetric]
    apply (intro exI conjI)
     apply (rule accepts_skip[OF accepts_pure])
      apply (simp add: norest_def)
     apply (fold ex_state_def)
     apply (rule accepts_cons[OF accepts_ex_long])+
     apply (rule accepts_cons[OF accepts_ex_short], rule w)
     apply (rule accepts_cons[OF accepts_block[where fl = fl, OF accepts_ex_str]], rule w, simp, simp add: w)
     apply (rule acc, simp, simp add: w)+
     apply (rule accepts_cons[OF accepts_block[where fl = fl, OF accepts_ex_str]], rule w, simp, simp add: w)
     apply (rule acc, simp, simp add: w)+
     apply (rule accepts_end[OF accepts_block[where fl = fl, OF accepts_last[OF accepts_ex_long]]],
        simp, simp add: w)
     apply (rule accepts_append_ex)
    apply (simp add: fl_def)
    done
  then show ?thesis by (simp add: ex_state_def set_rs_def)
qed

text \<open>The same for the extended part, where the wide strings go through the conversions.\<close>

definition wide_bytes :: "rs_env \<Rightarrow> nat list \<Rightarrow> bytes" where
  "wide_bytes e w = concat (map (\<lambda>c. put16 (ucast c)) (cv_utf16 e w))"

definition wide_ok :: "rs_env \<Rightarrow> nat list \<Rightarrow> bool" where
  "wide_ok e w \<longleftrightarrow> length (cv_utf16 e w) < 2 ^ 16 \<and> cv_ucs2 e (wide_bytes e w) = w"

definition wf_extended :: "rs_env \<Rightarrow> u32 \<Rightarrow> rexception \<Rightarrow> extexception \<Rightarrow> bool" where
  "wf_extended e wv x xx \<longleftrightarrow>
     (let raw = raw_extexception e;
          subj = ex_ulOverrideFlags x AND ARO_SUBJECT \<noteq> 0;
          loc = ex_ulOverrideFlags x AND ARO_LOCATION \<noteq> 0
      in length (xx_strReserved xx) + 4 < 2 ^ 31 \<and> length (xx_strReservedBlock1 xx) < 2 ^ 31 \<and>
         length (xx_strReservedBlock2 xx) < 2 ^ 31 \<and>
         (\<not> wv \<ge> 0x3009 \<longrightarrow> xx_strReserved xx = xx_strReserved raw \<and>
            xx_ulChangeHighlightValue xx = xx_ulChangeHighlightValue raw) \<and>
         (\<not> (subj \<or> loc) \<longrightarrow> xx_ulStartDateTime xx = xx_ulStartDateTime raw \<and>
            xx_ulEndDateTime xx = xx_ulEndDateTime raw \<and>
            xx_ulOriginalStartDate xx = xx_ulOriginalStartDate raw \<and>
            xx_strReservedBlock2 xx = xx_strReservedBlock2 raw) \<and>
         (if subj then wide_ok e (xx_strWideCharSubject xx)
          else xx_strWideCharSubject xx = xx_strWideCharSubject raw) \<and>
         (if loc then wide_ok e (xx_strWideCharLocation xx)
          else xx_strWideCharLocation xx = xx_strWideCharLocation raw))"

definition xx_state :: "pstate \<Rightarrow> extexception \<Rightarrow> pstate" where
  "xx_state s y = s\<lparr>p_xx := y\<rparr>"

lemma set_xx_state: "set_xx f (xx_state s y) = xx_state s (f y)"
  by (simp add: set_xx_def xx_state_def)

lemma accepts_xx_block:
  assumes "b \<Longrightarrow> accepts (steps fs) w (xx_state s y) (xx_state s y')" "\<not> b \<Longrightarrow> y' = y"
    "\<And>p r. c (at p r (xx_state s y)) = b"
  shows "accepts (when_set c fs) (if b then w else []) (xx_state s y) (xx_state s y')"
  using assms by (intro accepts_when) auto

lemma accepts_xx_long:
  "accepts (ReadLong (\<lambda>x. set_xx (u x))) (put32 v) (xx_state s y) (xx_state s (u v y))"
  using accepts_long[of "\<lambda>x. set_xx (u x)" v "xx_state s y"] by (simp add: set_xx_state)

lemma accepts_xx_str:
  "length v < 2 ^ 31 \<Longrightarrow> accepts (long_then (\<lambda>n. ReadString n (\<lambda>x. set_xx (u x)))) (put_str32 v)
     (xx_state s y) (xx_state s (u v y))"
  using accepts_str32[of "\<lambda>x. set_xx (u x)" v "xx_state s y"] by (simp add: set_xx_state)

lemma length_wide: "length (wide_bytes e w) = 2 * length (cv_utf16 e w)"
proof -
  have "length (concat (map (\<lambda>c. put16 (ucast c)) u)) = 2 * length u" for u :: "u16 list"
    by (induction u) (simp_all add: put16_def)
  then show ?thesis by (simp add: wide_bytes_def)
qed

lemma accepts_xx_wide:
  assumes "wide_ok e w"
  shows "accepts (steps [short_then (\<lambda>n. ReadString (n * 2) (\<lambda>x. set_xx (u (cv_ucs2 e x))))]) (put_wide e w)
    (xx_state s y) (xx_state s (u w y))"
proof -
  let ?n = "word_of_nat (length (cv_utf16 e w)) :: u32"
  have n: "unat ?n = length (cv_utf16 e w)" "length (cv_utf16 e w) < 2 ^ 16"
    using assms by (simp_all add: wide_ok_def unat_of_nat)
  have "unat (?n * 2) = 2 * length (cv_utf16 e w)"
    using n by (subst unat_mult_lem[THEN iffD1]) simp_all
  then have "accepts (ReadString (?n * 2) (\<lambda>x. set_xx (u (cv_ucs2 e x)))) (wide_bytes e w) (xx_state s y)
      (set_xx (u (cv_ucs2 e (wide_bytes e w))) (xx_state s y))"
    using n(2) by (intro accepts_string) (simp_all add: length_wide)
  then have "accepts (ReadString (?n * 2) (\<lambda>x. set_xx (u (cv_ucs2 e x)))) (wide_bytes e w) (xx_state s y)
      (xx_state s (u w y))"
    using assms by (simp add: set_xx_state wide_ok_def)
  moreover have "?n < 2 ^ 16" using n by (simp add: word_less_nat_alt)
  ultimately show ?thesis
    unfolding put_wide_def Let_def wide_bytes_def[symmetric]
    by (intro accepts_last accepts_short_then)
qed

lemma accepts_xx_highlight:
  assumes "length v2 + 4 < 2 ^ 31"
  shows "accepts (steps [long_then (\<lambda>n. steps
           [ReadLong (\<lambda>x. set_xx (u1 x)), ReadString (n - 4) (\<lambda>x. set_xx (u2 x))])])
     (put32 (word_of_nat (length v2) + 4) @ put32 v1 @ v2)
     (xx_state s y) (xx_state s (u2 v2 (u1 v1 y)))"
proof -
  have "accepts (ReadString (word_of_nat (length v2) + 4 - 4) (\<lambda>x. set_xx (u2 x))) v2
      (xx_state s (u1 v1 y)) (set_xx (u2 v2) (xx_state s (u1 v1 y)))"
    using assms by (intro accepts_string) (simp_all add: unat_of_nat)
  then show ?thesis
    by (intro accepts_last accepts_long_then accepts_cons[OF accepts_xx_long] accepts_last)
      (simp_all add: set_xx_state)
qed

lemma accepts_append_xx:
  "accepts (steps [pure_step (\<lambda>s. set_rs (\<lambda>r. r\<lparr>lstExtendedExceptions := lstExtendedExceptions r @ [p_xx s]\<rparr>) s)]) []
     (xx_state s y) (set_rs (\<lambda>r. r\<lparr>lstExtendedExceptions := lstExtendedExceptions r @ [y]\<rparr>) (xx_state s y))"
  by (simp add: accepts_def pure_step_def set_rs_def xx_state_def)

lemma accepts_extended:
  assumes "wf_extended e wv x xx" "ulWriterVersion2 (p_rs s) = wv"
  shows "accepts (parse_extended e x) (put_extended e wv x xx) s
    (s\<lparr>p_xx := xx, p_rs := (p_rs s)\<lparr>lstExtendedExceptions := lstExtendedExceptions (p_rs s) @ [xx]\<rparr>\<rparr>)"
proof -
  define raw where "raw = raw_extexception e"
  define subj where "subj = (ex_ulOverrideFlags x AND ARO_SUBJECT \<noteq> 0)"
  define loc where "loc = (ex_ulOverrideFlags x AND ARO_LOCATION \<noteq> 0)"
  note wf = assms(1)[unfolded wf_extended_def Let_def, folded subj_def loc_def raw_def]
  have w: "length (xx_strReserved xx) + 4 < 2 ^ 31" "length (xx_strReservedBlock1 xx) < 2 ^ 31"
    "length (xx_strReservedBlock2 xx) < 2 ^ 31"
    "\<not> wv \<ge> 0x3009 \<Longrightarrow> xx_strReserved xx = xx_strReserved raw"
    "\<not> wv \<ge> 0x3009 \<Longrightarrow> xx_ulChangeHighlightValue xx = xx_ulChangeHighlightValue raw"
    "\<not> (subj \<or> loc) \<Longrightarrow> xx_ulStartDateTime xx = xx_ulStartDateTime raw"
    "\<not> (subj \<or> loc) \<Longrightarrow> xx_ulEndDateTime xx = xx_ulEndDateTime raw"
    "\<not> (subj \<or> loc) \<Longrightarrow> xx_ulOriginalStartDate xx = xx_ulOriginalStartDate raw"
    "\<not> (subj \<or> loc) \<Longrightarrow> xx_strReservedBlock2 xx = xx_strReservedBlock2 raw"
    "\<not> subj \<Longrightarrow> xx_strWideCharSubject xx = xx_strWideCharSubject raw"
    "\<not> loc \<Longrightarrow> xx_strWideCharLocation xx = xx_strWideCharLocation raw"
    using wf by (simp_all split: if_splits)
  have wide: "subj \<Longrightarrow> wide_ok e (xx_strWideCharSubject xx)" "loc \<Longrightarrow> wide_ok e (xx_strWideCharLocation xx)"
    using wf by simp_all
  have "\<exists>y. accepts (parse_extended e x) (put_extended e wv x xx) s
      (set_rs (\<lambda>r. r\<lparr>lstExtendedExceptions := lstExtendedExceptions r @ [y]\<rparr>) (xx_state s y)) \<and> y = xx"
    unfolding parse_extended_def extended_fields_def append_Cons append_Nil put_extended_def Let_def subj_def[symmetric] loc_def[symmetric] raw_def[symmetric]
    apply (intro exI conjI)
     apply (rule accepts_skip[OF accepts_pure])
      apply (simp add: norest_def)
     apply (fold xx_state_def)
     apply (rule accepts_cons[OF accepts_xx_block], rule accepts_xx_highlight, rule w, simp add: w,
        simp add: xx_state_def assms(2))
     apply (rule accepts_cons[OF accepts_xx_str], rule w)
     apply (rule accepts_cons[OF accepts_xx_block], (rule accepts_cons[OF accepts_xx_long])+,
        rule accepts_last[OF accepts_xx_long], simp add: w, simp)
     apply (rule accepts_cons[OF accepts_xx_block], erule accepts_xx_wide[OF wide(1)], simp add: w, simp)
     apply (rule accepts_cons[OF accepts_xx_block], erule accepts_xx_wide[OF wide(2)], simp add: w, simp)
     apply (rule accepts_end[OF accepts_xx_block], rule accepts_last[OF accepts_xx_str], rule w,
        simp add: w, simp)
     apply (rule accepts_append_xx)
    apply simp
    done
  then show ?thesis by (simp add: xx_state_def set_rs_def)
qed

subsection \<open>The whole blob\<close>

definition rs_state :: "pstate \<Rightarrow> recurrence_state \<Rightarrow> pstate" where
  "rs_state s y = s\<lparr>p_rs := y\<rparr>"

lemma set_rs_state: "set_rs f (rs_state s y) = rs_state s (f y)"
  by (simp add: set_rs_def rs_state_def)

lemma accepts_rs_long:
  "accepts (ReadLong (\<lambda>x. set_rs (u x))) (put32 v) (rs_state s y) (rs_state s (u v y))"
  using accepts_long[of "\<lambda>x. set_rs (u x)" v "rs_state s y"] by (simp add: set_rs_state)

lemma accepts_rs_short:
  "v < 2 ^ 16 \<Longrightarrow> accepts (ReadShort (\<lambda>x. set_rs (u x))) (put16 v) (rs_state s y) (rs_state s (u v y))"
  using accepts_short[of "\<lambda>x. set_rs (u x)" v "rs_state s y"] by (simp add: set_rs_state)

text \<open>The fields of the pattern that its type leaves out.\<close>

definition unread_pattern :: "recurrence_state \<Rightarrow> recurrence_state \<Rightarrow> bool" where
  "unread_pattern r0 r \<longleftrightarrow>
     (let t = ulPatternType r in
      (t \<noteq> 0x1 \<and> \<not> nth_pattern t \<longrightarrow> ulWeekDays r = ulWeekDays r0) \<and>
      (\<not> monthly_pattern t \<longrightarrow> ulDayOfMonth r = ulDayOfMonth r0) \<and>
      (\<not> nth_pattern t \<longrightarrow> ulWeekNumber r = ulWeekNumber r0))"

lemma accepts_pattern:
  assumes "ulPatternType y = ulPatternType r" "unread_pattern y r"
  shows "accepts parse_pattern (put_pattern r) (rs_state s y)
    (rs_state s (y\<lparr>ulWeekDays := ulWeekDays r, ulDayOfMonth := ulDayOfMonth r, ulWeekNumber := ulWeekNumber r\<rparr>))"
proof -
  have disj: "\<not> monthly_pattern 1" "\<not> nth_pattern 1" "monthly_pattern t \<Longrightarrow> \<not> nth_pattern t" for t
    by (auto simp: monthly_pattern_def nth_pattern_def)
  have cong: "accepts f b s s'" if "\<And>p r. f (at p r s) = g (at p r s)" "accepts g b s s'" for f g b s s'
    using that by (simp add: accepts_def)
  have t: "ulPatternType (p_rs (at p w (rs_state s y))) = ulPatternType r" for p w
    using assms(1) by (simp add: rs_state_def)
  consider "ulPatternType r = 1" | "ulPatternType r \<noteq> 1" "monthly_pattern (ulPatternType r)"
    | "ulPatternType r \<noteq> 1" "\<not> monthly_pattern (ulPatternType r)" "nth_pattern (ulPatternType r)"
    | "ulPatternType r \<noteq> 1" "\<not> monthly_pattern (ulPatternType r)" "\<not> nth_pattern (ulPatternType r)" by blast
  then show ?thesis
  proof cases
    case 1
    have y: "y\<lparr>ulWeekDays := ulWeekDays r, ulDayOfMonth := ulDayOfMonth r, ulWeekNumber := ulWeekNumber r\<rparr> = y\<lparr>ulWeekDays := ulWeekDays r\<rparr>"
      using assms 1 disj by (simp add: unread_pattern_def)
    have f: "parse_pattern (at p w (rs_state s y)) = ReadLong (\<lambda>x. set_rs (\<lambda>r. r\<lparr>ulWeekDays := x\<rparr>)) (at p w (rs_state s y))" for p w
      using 1 disj by (simp add: parse_pattern_def t del: at_parts)
    have b: "put_pattern r = put32 (ulWeekDays r)" using 1 disj by (simp add: put_pattern_def)
    show ?thesis unfolding y b by (rule cong[rotated], rule accepts_rs_long, rule f)
  next
    case 2
    have y: "y\<lparr>ulWeekDays := ulWeekDays r, ulDayOfMonth := ulDayOfMonth r, ulWeekNumber := ulWeekNumber r\<rparr> = y\<lparr>ulDayOfMonth := ulDayOfMonth r\<rparr>"
      using assms 2 disj by (simp add: unread_pattern_def)
    have f: "parse_pattern (at p w (rs_state s y)) = ReadLong (\<lambda>x. set_rs (\<lambda>r. r\<lparr>ulDayOfMonth := x\<rparr>)) (at p w (rs_state s y))" for p w
      using 2 disj by (simp add: parse_pattern_def t del: at_parts)
    have b: "put_pattern r = put32 (ulDayOfMonth r)" using 2 disj by (simp add: put_pattern_def)
    show ?thesis unfolding y b by (rule cong[rotated], rule accepts_rs_long, rule f)
  next
    case 3
    have y: "y\<lparr>ulWeekDays := ulWeekDays r, ulDayOfMonth := ulDayOfMonth r, ulWeekNumber := ulWeekNumber r\<rparr> = y\<lparr>ulWeekDays := ulWeekDays r, ulWeekNumber := ulWeekNumber r\<rparr>"
      using assms 3 disj by (simp add: unread_pattern_def)
    have f: "parse_pattern (at p w (rs_state s y)) = steps [ReadLong (\<lambda>x. set_rs (\<lambda>r. r\<lparr>ulWeekDays := x\<rparr>)), ReadLong (\<lambda>x. set_rs (\<lambda>r. r\<lparr>ulWeekNumber := x\<rparr>))] (at p w (rs_state s y))" for p w
      using 3 disj by (simp add: parse_pattern_def t del: at_parts)
    have b: "put_pattern r = put32 (ulWeekDays r) @ put32 (ulWeekNumber r)" using 3 disj by (simp add: put_pattern_def)
    show ?thesis unfolding y b by (rule cong[rotated], rule accepts_cons[OF accepts_rs_long accepts_last[OF accepts_rs_long]], rule f)
  next
    case 4
    have y: "y\<lparr>ulWeekDays := ulWeekDays r, ulDayOfMonth := ulDayOfMonth r, ulWeekNumber := ulWeekNumber r\<rparr> = y"
      using assms 4 disj by (simp add: unread_pattern_def)
    have f: "parse_pattern (at p w (rs_state s y)) = steps [] (at p w (rs_state s y))" for p w
      using 4 disj by (simp add: parse_pattern_def t del: at_parts)
    have b: "put_pattern r = []" using 4 disj by (simp add: put_pattern_def)
    show ?thesis unfolding y b by (rule cong[rotated], rule accepts_nil, rule f)
  qed
qed

lemma accepts_dates:
  assumes "unat (cnt y) = length ds"
    and app: "\<And>y xs. fold (\<lambda>x. u x) xs y = v y xs"
  shows "accepts (\<lambda>s. repeat_step (unat (cnt (p_rs s))) (ReadLong (\<lambda>x. set_rs (u x))) s)
    (concat (map put32 ds)) (rs_state s y) (rs_state s (v y ds))"
proof -
  have "accepts (repeat_step (length ds) (ReadLong (\<lambda>x. set_rs (u x)))) (concat (map put32 ds)) (rs_state s y)
      (fold (\<lambda>x. set_rs (u x)) ds (rs_state s y))"
    by (rule accepts_repeat[where P = "\<lambda>_. True", THEN conjunct1])
      (auto intro: accepts_long[where upd = "\<lambda>x. set_rs (u x)"])
  moreover have "fold (\<lambda>x. set_rs (u x)) ds (rs_state s y) = rs_state s (fold u ds y)"
    by (induction ds arbitrary: y) (simp_all add: set_rs_state)
  ultimately show ?thesis using assms(1) app[of ds y] by (simp add: accepts_def rs_state_def)
qed

lemma fold_append_dates:
  "fold (\<lambda>x r. r\<lparr>lstDeletedInstanceDates := lstDeletedInstanceDates r @ [x]\<rparr>) xs y =
     y\<lparr>lstDeletedInstanceDates := lstDeletedInstanceDates y @ xs\<rparr>"
  "fold (\<lambda>x r. r\<lparr>lstModifiedInstanceDates := lstModifiedInstanceDates r @ [x]\<rparr>) xs y =
     y\<lparr>lstModifiedInstanceDates := lstModifiedInstanceDates y @ xs\<rparr>"
  by (induction xs arbitrary: y) simp_all

definition wf_state :: "rs_env \<Rightarrow> recurrence_state \<Rightarrow> recurrence_state \<Rightarrow> bool" where
  "wf_state e r0 r \<longleftrightarrow>
     ulReaderVersion r < 2 ^ 16 \<and> ulWriterVersion r < 2 ^ 16 \<and> ulRecurFrequency r < 2 ^ 16 \<and>
     ulPatternType r < 2 ^ 16 \<and> ulCalendarType r < 2 ^ 16 \<and> ulExceptionCount r < 2 ^ 16 \<and>
     unat (ulDeletedInstanceCount r) = length (lstDeletedInstanceDates r) \<and>
     unat (ulModifiedInstanceCount r) = length (lstModifiedInstanceDates r) \<and>
     unat (ulExceptionCount r) = length (lstExceptions r) \<and>
     unread_pattern r0 r \<and> length (strReservedBlock1 r) < 2 ^ 31 \<and> length (strReservedBlock2 r) < 2 ^ 31 \<and>
     (\<forall>x \<in> set (lstExceptions r). wf_exception e x) \<and>
     list_all2 (wf_extended e (ulWriterVersion2 r)) (lstExceptions r) (lstExtendedExceptions r)"

text \<open>The object after the header and after the versions.\<close>

definition read_header :: "recurrence_state \<Rightarrow> recurrence_state \<Rightarrow> recurrence_state" where
  "read_header y r =
     y\<lparr>ulReaderVersion := ulReaderVersion r, ulWriterVersion := ulWriterVersion r,
       ulRecurFrequency := ulRecurFrequency r, ulPatternType := ulPatternType r,
       ulCalendarType := ulCalendarType r, ulFirstDateTime := ulFirstDateTime r,
       ulPeriod := ulPeriod r, ulSlidingFlag := ulSlidingFlag r, ulWeekDays := ulWeekDays r,
       ulDayOfMonth := ulDayOfMonth r, ulWeekNumber := ulWeekNumber r, ulEndType := ulEndType r,
       ulOccurrenceCount := ulOccurrenceCount r, ulFirstDOW := ulFirstDOW r,
       ulDeletedInstanceCount := ulDeletedInstanceCount r,
       lstDeletedInstanceDates := lstDeletedInstanceDates r,
       ulModifiedInstanceCount := ulModifiedInstanceCount r,
       lstModifiedInstanceDates := lstModifiedInstanceDates r,
       ulStartDate := ulStartDate r, ulEndDate := ulEndDate r\<rparr>"

definition read_versions :: "recurrence_state \<Rightarrow> recurrence_state \<Rightarrow> recurrence_state" where
  "read_versions y r =
     y\<lparr>ulReaderVersion2 := ulReaderVersion2 r, ulWriterVersion2 := ulWriterVersion2 r,
       ulStartTimeOffset := ulStartTimeOffset r, ulEndTimeOffset := ulEndTimeOffset r,
       ulExceptionCount := ulExceptionCount r\<rparr>"

lemma accepts_header:
  assumes "wf_state e y r" "lstDeletedInstanceDates y = []" "lstModifiedInstanceDates y = []"
  shows "accepts parse_header (put_header r) (rs_state s y) (rs_state s (read_header y r))"
proof -
  have w: "ulReaderVersion r < 2 ^ 16" "ulWriterVersion r < 2 ^ 16" "ulRecurFrequency r < 2 ^ 16"
     "ulPatternType r < 2 ^ 16" "ulCalendarType r < 2 ^ 16"
     "unat (ulDeletedInstanceCount r) = length (lstDeletedInstanceDates r)"
     "unat (ulModifiedInstanceCount r) = length (lstModifiedInstanceDates r)" "unread_pattern y r"
    using assms(1) by (simp_all add: wf_state_def)
  have "\<exists>z. accepts parse_header (put_header r) (rs_state s y) (rs_state s z) \<and> z = read_header y r"
    unfolding parse_header_def put_header_def
    apply (intro exI conjI)
     apply ((rule accepts_cons[OF accepts_rs_short], rule w)+)
     apply ((rule accepts_cons[OF accepts_rs_long])+)
     apply (rule accepts_cons[OF accepts_pattern], simp, use w(8) in \<open>simp add: unread_pattern_def\<close>)
     apply ((rule accepts_cons[OF accepts_rs_long])+)
     apply (rule accepts_cons[OF accepts_dates[OF _ fold_append_dates(1)]], simp add: w)
     apply ((rule accepts_cons[OF accepts_rs_long])+)
     apply (rule accepts_cons[OF accepts_dates[OF _ fold_append_dates(2)]], simp add: w)
     apply ((rule accepts_cons[OF accepts_rs_long])+)
     apply (rule accepts_last[OF accepts_rs_long])
    apply (simp add: read_header_def assms)
    done
  then show ?thesis by simp
qed

lemma accepts_versions:
  assumes "wf_state e r0 r"
  shows "accepts parse_versions (put_versions r) (rs_state s y) (rs_state s (read_versions y r))"
proof -
  have "\<exists>z. accepts parse_versions (put_versions r) (rs_state s y) (rs_state s z) \<and> z = read_versions y r"
    unfolding parse_versions_def put_versions_def
    apply (intro exI conjI)
     apply ((rule accepts_cons[OF accepts_rs_long])+)
     apply (rule accepts_last[OF accepts_rs_short])
    using assms apply (simp add: wf_state_def)
    apply (simp add: read_versions_def)
    done
  then show ?thesis by simp
qed

text \<open>Steps whose local variables do not matter afterwards.\<close>

definition yields :: "rstep \<Rightarrow> bytes \<Rightarrow> pstate \<Rightarrow> recurrence_state \<Rightarrow> bool" where
  "yields f b s y \<longleftrightarrow> (\<exists>s'. accepts f b s s' \<and> p_rs s' = y)"

lemma yields_exceptions:
  assumes "\<forall>x \<in> set xs. wf_exception e x"
  shows "yields (repeat_step (length xs) (parse_exception e)) (concat (map put_exception xs)) s
    ((p_rs s)\<lparr>lstExceptions := lstExceptions (p_rs s) @ xs\<rparr>)"
  using assms
proof (induction xs arbitrary: s)
  case (Cons x xs)
  let ?s = "s\<lparr>p_ex := x, p_rs := (p_rs s)\<lparr>lstExceptions := lstExceptions (p_rs s) @ [x]\<rparr>\<rparr>"
  have "accepts (parse_exception e) (put_exception x) s ?s" using Cons.prems by (intro accepts_exception) simp
  moreover obtain s' where "accepts (repeat_step (length xs) (parse_exception e)) (concat (map put_exception xs)) ?s s'"
    "p_rs s' = (p_rs ?s)\<lparr>lstExceptions := lstExceptions (p_rs ?s) @ xs\<rparr>"
    using Cons.IH[of ?s] Cons.prems by (auto simp: yields_def)
  ultimately show ?case unfolding yields_def by (intro exI[of _ s']) (simp add: accepts_def)
qed (auto simp: yields_def accepts_def)

lemma yields_extendeds:
  assumes "list_all2 (wf_extended e wv) xs xxs" "ulWriterVersion2 (p_rs s) = wv"
  shows "yields (steps (map (parse_extended e) xs))
    (concat (map (\<lambda>(x, xx). put_extended e wv x xx) (zip xs xxs))) s
    ((p_rs s)\<lparr>lstExtendedExceptions := lstExtendedExceptions (p_rs s) @ xxs\<rparr>)"
  using assms
proof (induction xs xxs arbitrary: s rule: list_all2_induct)
  case (Cons x xs xx xxs)
  let ?s = "s\<lparr>p_xx := xx, p_rs := (p_rs s)\<lparr>lstExtendedExceptions := lstExtendedExceptions (p_rs s) @ [xx]\<rparr>\<rparr>"
  have "accepts (parse_extended e x) (put_extended e wv x xx) s ?s"
    using Cons by (intro accepts_extended)
  moreover obtain s' where "accepts (steps (map (parse_extended e) xs))
      (concat (map (\<lambda>(x, xx). put_extended e wv x xx) (zip xs xxs))) ?s s'"
    "p_rs s' = (p_rs ?s)\<lparr>lstExtendedExceptions := lstExtendedExceptions (p_rs ?s) @ xxs\<rparr>"
    using Cons.IH[of ?s] Cons.prems by (auto simp: yields_def)
  ultimately show ?case unfolding yields_def by (intro exI[of _ s']) (simp add: accepts_def)
qed (auto simp: yields_def accepts_def)

lemma accepts_run:
  "accepts f b s s' \<Longrightarrow> length (p @ b @ r) < 2 ^ 32 \<Longrightarrow> f (at p (b @ r) s) = Some (True, at (p @ b) r s')"
  by (simp add: accepts_def)

theorem ParseBlob_GetBlob:
  assumes wf: "wf_state e r0 r" and g: "GetBlob e r = Inr blob" and len: "length blob < 2 ^ 32"
  shows "ParseBlob e r0 blob flags = Some (hrSuccess, r)"
proof -
  define y0 where "y0 = r0\<lparr>lstDeletedInstanceDates := [], lstModifiedInstanceDates := [],
                 lstExceptions := [], lstExtendedExceptions := []\<rparr>"
  define s0 where "s0 = \<lparr>m_lpData = blob, m_ulLen = of_nat (length blob), m_ulCursor = 0,
               p_rs = y0, p_ex = raw_exception e, p_xx = raw_extexception e\<rparr>"
  define H V where "H = put_header r" and "V = put_versions r"
  define E where "E = concat (map put_exception (lstExceptions r))"
  define X where "X = concat (map (\<lambda>(x, xx). put_extended e (ulWriterVersion2 r) x xx)
                          (zip (lstExceptions r) (lstExtendedExceptions r)))"
  define R1 R2 where "R1 = put_str32 (strReservedBlock1 r)" and "R2 = put_str32 (strReservedBlock2 r)"
  have blob: "blob = H @ (V @ E) @ (R1 @ X) @ R2"
    using g by (simp add: GetBlob_def H_def V_def E_def X_def R1_def R2_def split: if_splits)
  have start: "s0 = at [] blob s0" by (simp add: at_def s0_def)
  have wf0: "wf_state e y0 r" using wf by (simp add: wf_state_def y0_def unread_pattern_def)
  define y1 where "y1 = read_header y0 r"
  have h: "accepts parse_header H s0 (rs_state s0 y1)"
    using accepts_header[OF wf0, of s0] by (simp add: y1_def y0_def rs_state_def s0_def H_def)
  have 1: "parse_header s0 = Some (True, at H ((V @ E) @ (R1 @ X) @ R2) (rs_state s0 y1))"
    using accepts_run[OF h, of "[]" "(V @ E) @ (R1 @ X) @ R2"] len start blob by simp
  define y2 where "y2 = read_versions y1 r"
  have v: "accepts parse_versions V (rs_state s0 y1) (rs_state s0 y2)"
    using accepts_versions[OF wf, of s0 y1] by (simp add: y2_def V_def)
  have "ulExceptionCount y2 = ulExceptionCount r" "lstExceptions y2 = []"
    by (simp_all add: y2_def read_versions_def y1_def read_header_def y0_def)
  then obtain s2 where e: "accepts (parse_exceptions e) E (rs_state s0 y2) s2"
    and y3: "p_rs s2 = y2\<lparr>lstExceptions := lstExceptions r\<rparr>"
    using yields_exceptions[of "lstExceptions r" e "rs_state s0 y2"] wf
    by (auto simp: yields_def E_def wf_state_def parse_exceptions_def accepts_def rs_state_def)
  have 2: "steps [parse_versions, parse_exceptions e] (at H ((V @ E) @ (R1 @ X) @ R2) (rs_state s0 y1)) =
      Some (True, at (H @ V @ E) ((R1 @ X) @ R2) s2)"
    by (rule accepts_run[OF accepts_cons[OF v accepts_last[OF e]]]) (use len blob in simp)
  define y4 where "y4 = (p_rs s2)\<lparr>strReservedBlock1 := strReservedBlock1 r\<rparr>"
  have b1: "accepts parse_reserved1 R1 s2 (rs_state s2 y4)"
    using accepts_str32[of "\<lambda>x. set_rs (\<lambda>r. r\<lparr>strReservedBlock1 := x\<rparr>)" "strReservedBlock1 r" s2] wf
    by (simp add: parse_reserved1_def R1_def wf_state_def set_rs_def rs_state_def y4_def)
  have "lstExceptions y4 = lstExceptions r" "ulWriterVersion2 y4 = ulWriterVersion2 r" "lstExtendedExceptions y4 = []"
    by (simp_all add: y4_def y3 y2_def read_versions_def y1_def read_header_def y0_def)
  then obtain s4 where x: "accepts (parse_extendeds e) X (rs_state s2 y4) s4"
    and y5: "p_rs s4 = y4\<lparr>lstExtendedExceptions := lstExtendedExceptions r\<rparr>"
    using yields_extendeds[of e "ulWriterVersion2 r" "lstExceptions r" "lstExtendedExceptions r" "rs_state s2 y4"] wf
    by (auto simp: yields_def X_def wf_state_def parse_extendeds_def accepts_def rs_state_def)
  have 3: "steps [parse_reserved1, parse_extendeds e] (at (H @ V @ E) ((R1 @ X) @ R2) s2) =
      Some (True, at ((H @ V @ E) @ R1 @ X) R2 s4)"
    by (rule accepts_run[OF accepts_cons[OF b1 accepts_last[OF x]]]) (use len blob in simp)
  define y6 where "y6 = (p_rs s4)\<lparr>strReservedBlock2 := strReservedBlock2 r\<rparr>"
  have b2: "accepts parse_reserved2 R2 s4 (rs_state s4 y6)"
    using accepts_str32[of "\<lambda>x. set_rs (\<lambda>r. r\<lparr>strReservedBlock2 := x\<rparr>)" "strReservedBlock2 r" s4] wf
    by (simp add: parse_reserved2_def R2_def wf_state_def set_rs_def rs_state_def y6_def)
  have 4: "parse_reserved2 (at ((H @ V @ E) @ R1 @ X) R2 s4) =
      Some (True, at (((H @ V @ E) @ R1 @ X) @ R2) [] (rs_state s4 y6))"
    using accepts_run[OF b2, of "(H @ V @ E) @ R1 @ X" "[]"] len blob by simp
  have rs: "p_rs (rs_state s y) = y" for s y by (simp add: rs_state_def)
  have "y6 = r"
    by (simp add: y6_def y5 y4_def y3 y2_def read_versions_def y1_def read_header_def y0_def)
  then show ?thesis
    unfolding ParseBlob_def y0_def[symmetric] Let_def s0_def[symmetric]
    by (simp add: 1 2 3 4 parse_exit_def rs del: steps.simps append_assoc)
qed

subsection \<open>Parsing any data\<close>

text \<open>A reader whose cursor is inside its data, and data so short that a bound check cannot wrap around.\<close>

definition in_data :: "pstate \<Rightarrow> bool" where
  "in_data s \<longleftrightarrow> unat (m_ulLen s) = length (m_lpData s) \<and> m_ulCursor s \<le> m_ulLen s \<and>
     length (m_lpData s) < 2 ^ 32 - 4"

text \<open>An update of the object that leaves the reader and the part \<open>F\<close> alone.\<close>

definition quiet :: "(pstate \<Rightarrow> 'a) \<Rightarrow> (pstate \<Rightarrow> pstate) \<Rightarrow> bool" where
  "quiet F g \<longleftrightarrow> (\<forall>s. F (g s) = F s \<and> m_lpData (g s) = m_lpData s \<and> m_ulLen (g s) = m_ulLen s \<and>
     m_ulCursor (g s) = m_ulCursor s)"

definition blind :: "(pstate \<Rightarrow> 'a) \<Rightarrow> bool" where
  "blind F \<longleftrightarrow> (\<forall>s c. F (s\<lparr>m_ulCursor := c\<rparr>) = F s)"

text \<open>A step with no access out of range that leaves a part of the object alone, successful or not.\<close>

definition keeps :: "(pstate \<Rightarrow> 'a) \<Rightarrow> rstep \<Rightarrow> bool" where
  "keeps F f \<longleftrightarrow> (\<forall>s. in_data s \<longrightarrow> (\<exists>ok s'. f s = Some (ok, s') \<and> in_data s' \<and> F s' = F s))"

lemma keepsD: "keeps F f \<Longrightarrow> in_data s \<Longrightarrow> \<exists>ok s'. f s = Some (ok, s') \<and> in_data s' \<and> F s' = F s"
  by (simp add: keeps_def)

lemma quiet_inside: "quiet F g \<Longrightarrow> in_data s \<Longrightarrow> in_data (g s) \<and> F (g s) = F s"
  by (simp add: quiet_def in_data_def)

lemma keeps_pure: "quiet F g \<Longrightarrow> keeps F (pure_step g)"
  by (auto simp: keeps_def pure_step_def quiet_inside)

lemma keeps_steps [intro]:
  assumes "\<And>f. f \<in> set fs \<Longrightarrow> keeps F f"
  shows "keeps F (steps fs)"
  unfolding keeps_def
proof (intro allI impI)
  fix s show "in_data s \<Longrightarrow> \<exists>ok s'. steps fs s = Some (ok, s') \<and> in_data s' \<and> F s' = F s"
    using assms
  proof (induction fs arbitrary: s)
    case (Cons f fs)
    obtain ok s1 where 1: "f s = Some (ok, s1)" "in_data s1" "F s1 = F s"
      using keepsD[of F f s] Cons.prems by auto
    then show ?case using Cons.IH[of s1] Cons.prems(2) by auto
  qed auto
qed

lemma keeps_when: "keeps F (steps fs) \<Longrightarrow> keeps F (when_set c fs)"
  by (auto simp: keeps_def when_set_def)

text \<open>Behind a bound check the fetch is inside.\<close>

lemma inside_fetch:
  fixes n :: u32
  assumes "in_data s" "n \<le> 4 \<or> n \<le> m_ulLen s - m_ulCursor s" "\<not> m_ulCursor s + n > m_ulLen s"
  shows "unat (m_ulCursor s) + unat n \<le> length (m_lpData s)" "in_data (s\<lparr>m_ulCursor := m_ulCursor s + n\<rparr>)"
proof -
  have s: "unat (m_ulLen s) = length (m_lpData s)" "unat (m_ulCursor s) \<le> unat (m_ulLen s)"
    "length (m_lpData s) < 2 ^ 32 - 4"
    using assms(1) by (auto simp: in_data_def word_le_nat_alt)
  have "unat n \<le> 4 \<or> unat n \<le> unat (m_ulLen s) - unat (m_ulCursor s)"
    using assms(1,2) by (auto simp: word_le_nat_alt unat_sub in_data_def)
  then have "unat (m_ulCursor s) + unat n < 2 ^ LENGTH(32)" using s by auto
  then have "unat (m_ulCursor s + n) = unat (m_ulCursor s) + unat n" by (rule unat_add_lem[THEN iffD1])
  then show "unat (m_ulCursor s) + unat n \<le> length (m_lpData s)"
    using assms(3) s by (simp add: word_less_nat_alt)
  show "in_data (s\<lparr>m_ulCursor := m_ulCursor s + n\<rparr>)" using assms(1,3) by (simp add: in_data_def not_less)
qed

lemma keeps_short_then:
  assumes "\<And>x. keeps F (k x)" "blind F"
  shows "keeps F (short_then k)"
  unfolding keeps_def
proof (intro allI impI)
  fix s assume i: "in_data s"
  let ?s = "s\<lparr>m_ulCursor := m_ulCursor s + 2\<rparr>"
  show "\<exists>ok s'. short_then k s = Some (ok, s') \<and> in_data s' \<and> F s' = F s"
  proof (cases "m_ulCursor s + 2 > m_ulLen s")
    case False
    note f = inside_fetch[OF i _ False, simplified]
    have "F ?s = F s" using assms(2) by (simp add: blind_def)
    moreover have "unat (m_ulCursor s) + 2 \<le> length (m_lpData s)" using f(1) by simp
    ultimately show ?thesis using False keepsD[OF assms(1) f(2)] by (simp add: short_then_def)
  qed (use i in \<open>auto simp: short_then_def\<close>)
qed

lemma keeps_long_then:
  assumes "\<And>x. keeps F (k x)" "blind F"
  shows "keeps F (long_then k)"
  unfolding keeps_def
proof (intro allI impI)
  fix s assume i: "in_data s"
  let ?s = "s\<lparr>m_ulCursor := m_ulCursor s + 4\<rparr>"
  show "\<exists>ok s'. long_then k s = Some (ok, s') \<and> in_data s' \<and> F s' = F s"
  proof (cases "m_ulCursor s + 4 > m_ulLen s")
    case False
    note f = inside_fetch[OF i _ False, simplified]
    have "F ?s = F s" using assms(2) by (simp add: blind_def)
    moreover have "unat (m_ulCursor s) + 4 \<le> length (m_lpData s)" using f(1) by simp
    ultimately show ?thesis using False keepsD[OF assms(1) f(2)] by (simp add: long_then_def)
  qed (use i in \<open>auto simp: long_then_def\<close>)
qed

lemma keeps_string:
  assumes "\<And>x. quiet F (upd x)" "blind F"
  shows "keeps F (ReadString n upd)"
  unfolding keeps_def
proof (intro allI impI)
  fix s assume i: "in_data s"
  define m where "m = (if n > m_ulLen s - m_ulCursor s then m_ulLen s - m_ulCursor s else n)"
  let ?s = "s\<lparr>m_ulCursor := m_ulCursor s + m\<rparr>"
  show "\<exists>ok s'. ReadString n upd s = Some (ok, s') \<and> in_data s' \<and> F s' = F s"
  proof (cases "m_ulCursor s + m > m_ulLen s")
    case False
    have "m \<le> m_ulLen s - m_ulCursor s" by (simp add: m_def not_less)
    then have f: "unat (m_ulCursor s) + unat m \<le> length (m_lpData s)" "in_data ?s"
      using inside_fetch[OF i _ False] by simp_all
    have "in_data (upd b ?s) \<and> F (upd b ?s) = F s" for b
      using quiet_inside[OF assms(1) f(2)] assms(2) by (simp add: blind_def)
    then show ?thesis using False f(1) by (simp add: ReadString_def m_def[symmetric] Let_def)
  qed (use i in \<open>auto simp: ReadString_def m_def[symmetric] Let_def\<close>)
qed

lemma keeps_long: "(\<And>x. quiet F (upd x)) \<Longrightarrow> blind F \<Longrightarrow> keeps F (ReadLong upd)"
  unfolding ReadLong_def by (intro keeps_long_then keeps_pure)

lemma keeps_short: "(\<And>x. quiet F (upd x)) \<Longrightarrow> blind F \<Longrightarrow> keeps F (ReadShort upd)"
  unfolding ReadShort_def by (intro keeps_short_then keeps_pure)

lemmas keeps_rules = keeps_when keeps_long keeps_short keeps_string keeps_short_then keeps_long_then keeps_pure

text \<open>The lists of exceptions, and the count.\<close>

definition counts :: "pstate \<Rightarrow> u32 \<times> nat \<times> nat" where
  "counts s = (ulExceptionCount (p_rs s), length (lstExceptions (p_rs s)), length (lstExtendedExceptions (p_rs s)))"

lemma blind_counts [simp]: "blind counts"
  by (simp add: blind_def counts_def)

lemma quiet_counts [simp]:
  "quiet counts (set_ex f)" "quiet counts (set_xx g)"
  "quiet counts (\<lambda>s. s\<lparr>p_ex := x\<rparr>)" "quiet counts (\<lambda>s. s\<lparr>p_xx := y\<rparr>)"
  by (simp_all add: quiet_def counts_def set_ex_def set_xx_def)

lemma steps_append:
  "steps (fs @ gs) s = do { (ok, s) \<leftarrow> steps fs s; if ok then steps gs s else Some (False, s) }"
  by (induction fs s rule: steps.induct) (auto simp: bind_assoc split: prod.splits option.splits bind_splits)

lemma steps_snoc:
  assumes "keeps F (steps fs)" "in_data s" "\<And>s. in_data s \<Longrightarrow> in_data (g s)"
  shows "\<exists>ok s' s1. steps (fs @ [pure_step g]) s = Some (ok, s') \<and> in_data s' \<and> F s1 = F s \<and>
    s' = (if ok then g s1 else s1)"
proof -
  obtain ok s1 where "steps fs s = Some (ok, s1)" "in_data s1" "F s1 = F s" using keepsD assms(1,2) by blast
  then show ?thesis using assms(3) by (cases ok) (auto simp: steps_append pure_step_def)
qed

lemma inside_set_rs [simp]: "in_data (set_rs f s) = in_data s"
  by (simp add: in_data_def set_rs_def)

lemma keeps_exception_fields: "keeps counts (steps (exception_fields e))"
  by (rule keeps_steps) (auto simp: exception_fields_def intro!: keeps_rules keeps_steps)

lemma keeps_extended_fields: "keeps counts (steps (extended_fields e x))"
  by (rule keeps_steps) (auto simp: extended_fields_def Let_def intro!: keeps_rules keeps_steps)

lemma counts_exception:
  assumes "in_data s" "counts s = (c, n, m)"
  obtains ok s' where "parse_exception e s = Some (ok, s')" "in_data s'"
    "counts s' = (c, if ok then Suc n else n, m)"
proof -
  let ?g = "\<lambda>s. set_rs (\<lambda>r. r\<lparr>lstExceptions := lstExceptions r @ [p_ex s]\<rparr>) s"
  have i: "\<And>s. in_data s \<Longrightarrow> in_data (?g s)" by simp
  from steps_snoc[where g = ?g, OF keeps_exception_fields[of e] assms(1) i] obtain ok s' s1 where
    "parse_exception e s = Some (ok, s')" "in_data s'" "counts s1 = counts s" "s' = (if ok then ?g s1 else s1)"
    unfolding parse_exception_def by blast
  then show thesis using that assms(2) by (cases ok) (auto simp: counts_def set_rs_def)
qed

lemma counts_extended:
  assumes "in_data s" "counts s = (c, n, m)"
  obtains ok s' where "parse_extended e x s = Some (ok, s')" "in_data s'"
    "counts s' = (c, n, if ok then Suc m else m)"
proof -
  let ?g = "\<lambda>s. set_rs (\<lambda>r. r\<lparr>lstExtendedExceptions := lstExtendedExceptions r @ [p_xx s]\<rparr>) s"
  have i: "\<And>s. in_data s \<Longrightarrow> in_data (?g s)" by simp
  from steps_snoc[where g = ?g, OF keeps_extended_fields[of e x] assms(1) i] obtain ok s' s1 where
    "parse_extended e x s = Some (ok, s')" "in_data s'" "counts s1 = counts s" "s' = (if ok then ?g s1 else s1)"
    unfolding parse_extended_def by blast
  then show thesis using that assms(2) by (cases ok) (auto simp: counts_def set_rs_def)
qed

lemma counts_exceptions:
  assumes "in_data s" "counts s = (c, k, m)"
  shows "\<exists>ok s' k'. repeat_step n (parse_exception e) s = Some (ok, s') \<and> in_data s' \<and>
    counts s' = (c, k', m) \<and> (ok \<longrightarrow> k' = k + n)"
  using assms
proof (induction n arbitrary: s k)
  case (Suc n)
  obtain ok1 s1 where 1: "parse_exception e s = Some (ok1, s1)" "in_data s1"
    "counts s1 = (c, if ok1 then Suc k else k, m)" using counts_exception[OF Suc.prems] .
  then show ?case using Suc.IH[of s1 "Suc k"] by (cases ok1) auto
qed auto

lemma counts_extendeds:
  assumes "in_data s" "counts s = (c, k, m)"
  shows "\<exists>ok s' m'. steps (map (parse_extended e) xs) s = Some (ok, s') \<and> in_data s' \<and>
    counts s' = (c, k, m') \<and> (ok \<longrightarrow> m' = m + length xs)"
  using assms
proof (induction xs arbitrary: s m)
  case (Cons x xs)
  obtain ok1 s1 where 1: "parse_extended e x s = Some (ok1, s1)" "in_data s1"
    "counts s1 = (c, k, if ok1 then Suc m else m)" using counts_extended[OF Cons.prems] .
  then show ?case using Cons.IH[of s1 "Suc m"] by (cases ok1) auto
qed auto

definition list_lengths :: "pstate \<Rightarrow> nat \<times> nat" where
  "list_lengths s = (length (lstExceptions (p_rs s)), length (lstExtendedExceptions (p_rs s)))"

lemma blind_lengths [simp]: "blind list_lengths"
  by (simp add: blind_def list_lengths_def)

lemma keeps_repeat: "keeps F f \<Longrightarrow> keeps F (repeat_step n f)"
proof (induction n)
  case (Suc n)
  show ?case
    unfolding keeps_def
  proof (intro allI impI)
    fix s assume "in_data s"
    then obtain ok s1 where 1: "f s = Some (ok, s1)" "in_data s1" "F s1 = F s" using keepsD Suc.prems by blast
    then show "\<exists>ok s'. repeat_step (Suc n) f s = Some (ok, s') \<and> in_data s' \<and> F s' = F s"
      using keepsD[OF Suc.IH[OF Suc.prems] 1(2)] by (cases ok) auto
  qed
qed (auto simp: keeps_def)

lemma keeps_at: "(\<And>n. keeps F (f n)) \<Longrightarrow> keeps F (\<lambda>s. f (h s) s)"
  by (simp add: keeps_def)

lemma keeps_pattern: "keeps list_lengths parse_pattern"
proof -
  have q: "(\<And>x. quiet list_lengths (set_rs (u x))) \<Longrightarrow> keeps list_lengths (ReadLong (\<lambda>x. set_rs (u x)))" for u
    by (rule keeps_long) simp_all
  have "keeps list_lengths (ReadLong (\<lambda>x. set_rs (\<lambda>r. r\<lparr>ulWeekDays := x\<rparr>)))"
    "keeps list_lengths (ReadLong (\<lambda>x. set_rs (\<lambda>r. r\<lparr>ulDayOfMonth := x\<rparr>)))"
    "keeps list_lengths (steps [ReadLong (\<lambda>x. set_rs (\<lambda>r. r\<lparr>ulWeekDays := x\<rparr>)),
               ReadLong (\<lambda>x. set_rs (\<lambda>r. r\<lparr>ulWeekNumber := x\<rparr>))])"
    by (auto intro!: keeps_steps keeps_long simp: quiet_def list_lengths_def set_rs_def)
  then show ?thesis by (auto simp: keeps_def parse_pattern_def Let_def)
qed

lemma keeps_header: "keeps list_lengths parse_header"
  unfolding parse_header_def
  by (rule keeps_steps)
    (auto intro!: keeps_rules keeps_pattern keeps_at[of _ "\<lambda>n. repeat_step n f" for f] keeps_repeat
       simp: quiet_def list_lengths_def set_rs_def)

lemma keeps_versions: "keeps list_lengths parse_versions"
  unfolding parse_versions_def
  by (rule keeps_steps) (auto intro!: keeps_rules simp: quiet_def list_lengths_def set_rs_def)

lemma keeps_reserved: "keeps counts parse_reserved1" "keeps counts parse_reserved2"
  unfolding parse_reserved1_def parse_reserved2_def
  by (auto intro!: keeps_rules simp: quiet_def counts_def set_rs_def)

text \<open>
  For a calendar item nothing is read out of range, and unless the data is too short for the
  exceptions the result has as many extended exceptions as exceptions.
\<close>

lemma ParseBlob_calendar:
  assumes task: "flags AND RECURRENCE_STATE_TASKS = 0" and len: "length blob < 2 ^ 32 - 4"
  obtains hr r where "ParseBlob e r0 blob flags = Some (hr, r)"
    "hr = MAPI_E_NOT_FOUND \<or> (hr = hrSuccess \<or> hr = MAPI_W_ERRORS_RETURNED) \<and>
       length (lstExceptions r) = length (lstExtendedExceptions r)"
proof -
  define y0 where "y0 = r0\<lparr>lstDeletedInstanceDates := [], lstModifiedInstanceDates := [],
                 lstExceptions := [], lstExtendedExceptions := []\<rparr>"
  define s0 where "s0 = \<lparr>m_lpData = blob, m_ulLen = of_nat (length blob), m_ulCursor = 0,
               p_rs = y0, p_ex = raw_exception e, p_xx = raw_extexception e\<rparr>"
  have "unat (of_nat (length blob) :: u32) = length blob" using len by (simp add: unat_of_nat)
  then have "in_data s0" using len by (simp add: in_data_def s0_def)
  then obtain ok1 s1 where 1: "parse_header s0 = Some (ok1, s1)" "in_data s1" "list_lengths s1 = list_lengths s0"
    using keepsD keeps_header by blast
  obtain okv sv where v: "parse_versions s1 = Some (okv, sv)" "in_data sv" "list_lengths sv = list_lengths s1"
    using keepsD keeps_versions 1(2) by blast
  have "list_lengths sv = (0, 0)" using 1(3) v(3) by (simp add: list_lengths_def s0_def y0_def)
  then obtain c where cv: "counts sv = (c, 0, 0)" by (simp add: counts_def list_lengths_def)
  then have "ulExceptionCount (p_rs sv) = c" by (simp add: counts_def)
  then obtain oke s2 k where x: "parse_exceptions e sv = Some (oke, s2)" "in_data s2"
    "counts s2 = (c, k, 0)" "oke \<longrightarrow> k = unat c"
    using counts_exceptions[OF v(2) cv, of "unat c" e] by (auto simp: parse_exceptions_def)
  obtain okr sr where r: "parse_reserved1 s2 = Some (okr, sr)" "in_data sr" "counts sr = (c, k, 0)"
    using keepsD[OF keeps_reserved(1) x(2)] x(3) by auto
  then have "length (lstExceptions (p_rs sr)) = k" by (simp add: counts_def)
  then obtain okx s3 m where xx: "parse_extendeds e sr = Some (okx, s3)" "in_data s3"
    "counts s3 = (c, k, m)" "okx \<longrightarrow> m = k"
    using counts_extendeds[OF r(2,3), of e "lstExceptions (p_rs sr)"] by (auto simp: parse_extendeds_def)
  obtain ok4 s4 where 4: "parse_reserved2 s3 = Some (ok4, s4)" "counts s4 = (c, k, m)"
    using keepsD[OF keeps_reserved(2) xx(2)] xx(3) by auto
  note run = ParseBlob_def[of e r0 blob flags, unfolded Let_def, folded y0_def, folded s0_def]
  have sync: "counts s = (c, k, n) \<Longrightarrow> k = unat c \<Longrightarrow>
      \<exists>r. sync_extended e (p_rs s) = Some r \<and> length (lstExceptions r) = length (lstExtendedExceptions r)" for s n
    by (simp add: counts_def sync_extended_def)
  have steps_two: "f s = Some (True, s') \<Longrightarrow> g s' = Some (True, s'') \<Longrightarrow>
      steps [f, g] s = Some (True, s'')" for f g s s' s'' by simp
  show ?thesis
  proof (cases "ok1 \<and> okv \<and> oke")
    case False
    then have "\<exists>r. ParseBlob e r0 blob flags = Some (MAPI_E_NOT_FOUND, r)"
      using task 1 v x by (auto simp: run parse_exit_def)
    then show ?thesis using that by blast
  next
    case True
    note t = this
    show ?thesis
    proof (cases "okr \<and> okx")
      case False
      define se where "se = (if okr then s3 else sr)"
      have "\<exists>n. counts se = (c, k, n)" using r(3) xx(3) by (simp add: se_def)
      then obtain r' where r': "sync_extended e (p_rs se) = Some r'"
        "length (lstExceptions r') = length (lstExtendedExceptions r')"
        using sync x(4) t by blast
      have "steps [parse_reserved1, parse_extendeds e] s2 = Some (False, se)"
        using False r xx by (auto simp: se_def)
      then have "ParseBlob e r0 blob flags = Some (MAPI_W_ERRORS_RETURNED, r')"
        using t 1(1) v(1) x(1) r'(1) by (simp add: run parse_exit_def steps_two del: steps.simps)
      then show ?thesis using that r'(2) by blast
    next
      case True
      have "steps [parse_reserved1, parse_extendeds e] s2 = Some (True, s3)" using True r xx by simp
      then have "\<exists>hr. ParseBlob e r0 blob flags = Some (hr, p_rs s4) \<and> (hr = hrSuccess \<or> hr = MAPI_W_ERRORS_RETURNED)"
        using t 1(1) v(1) x(1) 4(1) by (simp add: run parse_exit_def steps_two del: steps.simps)
      moreover have "length (lstExceptions (p_rs s4)) = length (lstExtendedExceptions (p_rs s4))"
        using 4(2) xx(4) True by (simp add: counts_def)
      ultimately show ?thesis using that by blast
    qed
  qed
qed

subsection \<open>Properties\<close>

text \<open>A weekly series on Mondays with one deleted date and one exception that has a subject.\<close>

definition demo_raw :: rexception where
  "demo_raw = \<lparr>ex_ulStartDateTime = 0, ex_ulEndDateTime = 0, ex_ulOriginalStartDate = 0,
     ex_ulOverrideFlags = 0, ex_strSubject = [], ex_ulApptStateFlags = 0, ex_ulReminderDelta = 0,
     ex_ulReminderSet = 0, ex_strLocation = [], ex_ulBusyStatus = 0, ex_ulAttachment = 0,
     ex_ulSubType = 0, ex_ulAppointmentColor = 0\<rparr>"

definition demo_rawx :: extexception where
  "demo_rawx = \<lparr>xx_ulChangeHighlightValue = 0, xx_strReserved = [], xx_strReservedBlock1 = [],
     xx_ulStartDateTime = 0, xx_ulEndDateTime = 0, xx_ulOriginalStartDate = 0,
     xx_strWideCharSubject = [], xx_strWideCharLocation = [], xx_strReservedBlock2 = []\<rparr>"

fun demo_ucs2 :: "bytes \<Rightarrow> nat list" where
  "demo_ucs2 (a # b # r) = (unat a + 256 * unat b) # demo_ucs2 r"
| "demo_ucs2 _ = []"

definition demo_rsenv :: rs_env where
  "demo_rsenv = \<lparr>cv_ucs2 = demo_ucs2, cv_1252 = map unat, cv_utf16 = map word_of_nat,
     raw_exception = demo_raw, raw_extexception = demo_rawx\<rparr>"

definition demo_series :: recurrence_state where
  "demo_series = (new_RecurrenceState 0)\<lparr>ulRecurFrequency := 0x200B, ulPatternType := 1,
     ulWeekDays := 2, ulDeletedInstanceCount := 1, lstDeletedInstanceDates := [1440],
     ulExceptionCount := 1,
     lstExceptions := [demo_raw\<lparr>ex_ulOverrideFlags := 1, ex_strSubject := [65]\<rparr>],
     lstExtendedExceptions := [demo_rawx\<lparr>xx_strWideCharSubject := [65]\<rparr>]\<rparr>"

lemmas demo_series_defs = demo_series_def new_RecurrenceState_def demo_rsenv_def demo_raw_def demo_rawx_def



text \<open>
  C21: For a calendar item \<open>ParseBlob\<close> reads nothing out of range whatever the data, as long as it is shorter
  than 4 GB less 4 bytes (from there on the sum in a bound check can wrap around), and unless it
  reports that the data ends before the exceptions do, the object it leaves can be written: it has
  as many extended exceptions as exceptions.
\<close>

theorem calendar_parse_safe:
  assumes "flags AND RECURRENCE_STATE_TASKS = 0" "length blob < 2 ^ 32 - 4"
  shows "\<exists>hr r. ParseBlob e r0 blob flags = Some (hr, r) \<and>
    (hr = MAPI_E_NOT_FOUND \<or> (\<exists>out. GetBlob e r = Inr out))"
  using ParseBlob_calendar[OF assms, of e r0] by (metis GetBlob_def)

lemma calendar_parse_safe_witness:
  "\<exists>hr r. ParseBlob demo_rsenv (new_RecurrenceState 0) [4, 48] 1 = Some (hr, r) \<and>
    (hr = MAPI_E_NOT_FOUND \<or> (\<exists>out. GetBlob demo_rsenv r = Inr out))"
  by (rule calendar_parse_safe) (simp_all add: RECURRENCE_STATE_TASKS_def)

text \<open>
  The wrap-around: with the cursor three bytes below 4 GB the bound check of a long lets it through, and the four
  bytes are not there.
\<close>

lemma ReadLong_wraps:
  assumes "m_ulCursor s = 0xFFFFFFFD" "unat (m_ulLen s) = length (m_lpData s)" "m_ulLen s = 0xFFFFFFFF"
  shows "ReadLong upd s = None"
proof -
  have "mem_read (m_lpData s) (unat (m_ulCursor s)) 4 = None"
    using assms by (intro mem_outside) simp
  then show ?thesis using assms by (simp add: ReadLong_def long_then_def)
qed

text \<open>
  For a task the same data can make it read out of range: when the blob says that there is
  one exception and ends there, the loop that makes extended exceptions reads the first element
  of an empty vector.
\<close>

definition short_task_blob :: bytes where
  "short_task_blob = put_header (new_RecurrenceState 0) @
     put_versions ((new_RecurrenceState 0)\<lparr>ulExceptionCount := 1\<rparr>)"

theorem task_parse_out_of_range:
  "ParseBlob demo_rsenv (new_RecurrenceState 0) short_task_blob RECURRENCE_STATE_TASKS = None"
  by (simp add: ParseBlob_def short_task_blob_def parse_header_def put_header_def put_versions_def
      parse_versions_def parse_exceptions_def parse_exception_def exception_fields_def pure_step_def
      Let_def ReadShort_def ReadLong_def short_then_def long_then_def mem_read_def put16_def put32_def set_rs_def RECURRENCE_STATE_TASKS_def
      new_RecurrenceState_def parse_pattern_def put_pattern_def monthly_pattern_def nth_pattern_def
      parse_exit_def sync_extended_def get16_def get32_def demo_rsenv_def)

end
