(* ===== verification/Recurrence_Props.thy ===== *)
theory Recurrence_Props
  imports Recurrence_Expand Recurrence_Facts "HOL-Library.Multiset"
begin

text \<open>
  Properties of recurrences: the days that each frequency lists, the last occurrence, validity of
  what is listed, endless loops, and what adding deletions and modifications changes.
\<close>

subsection \<open>Recurrences to try\<close>

definition utc_zone :: timezone where
  "utc_zone = (let d = \<lparr>wYear = 0, wMonth = 0, wDayOfWeek = 0, wDay = 0, wHour = 0, wMinute = 0,
       wSecond = 0, wMilliseconds = 0\<rparr>
     in \<lparr>lBias = 0, lStdBias = 0, lDstBias = 0, wStdYear = 0, stStdDate = d, wDstYear = 0, stDstDate = d\<rparr>)"

definition demo_query :: "int \<Rightarrow> int \<Rightarrow> items_query" where
  "demo_query a b = \<lparr>q_tsStart = a, q_tsEnd = b, q_ttZinfo = utc_zone, q_ulBusyStatus = 2,
     q_junk = \<lparr>fbBlock = \<lparr>m_tmStart = 0, m_tmEnd = 0, m_fbstatus = 0\<rparr>, tBaseDate = 0\<rparr>\<rparr>"

text \<open>Minutes of 1 December 2014, a Monday, and a recurrence from there without an end.\<close>

definition dec2014 :: u32 where
  "dec2014 = 217697760"

definition demo_rule :: "u32 \<Rightarrow> u32 \<Rightarrow> u32 \<Rightarrow> recurrence" where
  "demo_rule freq pattern period =
     \<lparr>m_sRecState = (new_RecurrenceState 0)\<lparr>ulRecurFrequency := freq, ulPatternType := pattern, ulPeriod := period,
        ulEndType := ET_NEVER, ulStartDate := dec2014, ulStartTimeOffset := 540, ulEndTimeOffset := 600\<rparr>,
      m_ulMonth = 0\<rparr>"

definition with_pattern :: "u32 \<Rightarrow> u32 \<Rightarrow> u32 \<Rightarrow> recurrence \<Rightarrow> recurrence" where
  "with_pattern days day week = on_state (\<lambda>s. s\<lparr>ulWeekDays := days, ulDayOfMonth := day, ulWeekNumber := week\<rparr>)"

subsection \<open>What is listed\<close>

text \<open>
  C1: \<open>HrGetItems\<close> lists exactly the days of a daily, every-weekday or weekly pattern: a day in step
  with the first, or in a week in step with the first, up to the end of the range, that is not
  deleted or modified and lies in the period. They come in order, followed by the modified
  occurrences.
\<close>

theorem daily_weekly_items_exact:
  assumes "getFrequency r = DAILY \<or> getFrequency r = WEEKLY" "steps_on (with_period r)"
  shows "\<exists>ds. sorted_wrt (<) ds \<and>
    (\<forall>d. d \<in> set ds \<longleftrightarrow>
       in_pattern (with_period r) d \<and> rule_base (with_period r) d \<le> range_end r q \<and> takes_day r q d) \<and>
    HrGetItems r q False xs = Some (hrSuccess, with_period r,
      xs @ map (occ_of r q) ds @ moved_items q (lstExceptions (m_sRecState r)))"
proof (intro exI conjI allI)
  let ?ds = "filter (takes_day r q) (rule_days (with_period r) (range_end r q))"
  show "sorted_wrt (<) ?ds" using rule_days_spec(1)[OF assms(2)] by (rule sorted_wrt_filter)
  show "d \<in> set ?ds \<longleftrightarrow> in_pattern (with_period r) d \<and> rule_base (with_period r) d \<le> range_end r q \<and> takes_day r q d" for d
    using rule_days_spec(2)[OF assms(2)] by auto
  show "HrGetItems r q False xs = Some (hrSuccess, with_period r,
      xs @ map (occ_of r q) ?ds @ moved_items q (lstExceptions (m_sRecState r)))"
    using HrGetItems_days[OF assms, of False q xs] by (simp add: only_last_of_def)
qed

text \<open>Mondays and Wednesdays of every second week: 15 December 2014 is listed, 8 December is not.\<close>

theorem daily_weekly_items_exact_witness:
  "\<exists>ds. sorted_wrt (<) ds \<and> 1418601600 \<in> set ds \<and> 1417996800 \<notin> set ds \<and>
    HrGetItems (with_pattern 0x0A 0 0 (demo_rule RF_WEEKLY 1 2)) (demo_query 1417392000 1419984000) False [] =
      Some (hrSuccess, with_period (with_pattern 0x0A 0 0 (demo_rule RF_WEEKLY 1 2)),
        [] @ map (occ_of (with_pattern 0x0A 0 0 (demo_rule RF_WEEKLY 1 2)) (demo_query 1417392000 1419984000)) ds @
        moved_items (demo_query 1417392000 1419984000) (lstExceptions (m_sRecState (with_pattern 0x0A 0 0 (demo_rule RF_WEEKLY 1 2)))))"
proof -
  let ?r = "with_pattern 0x0A 0 0 (demo_rule RF_WEEKLY 1 2)" and ?q = "demo_query 1417392000 1419984000"
  have "getFrequency ?r = WEEKLY" "steps_on (with_period ?r)" by code_simp+
  moreover have "in_pattern (with_period ?r) 1418601600" "rule_base (with_period ?r) 1418601600 \<le> range_end ?r ?q"
    "takes_day ?r ?q 1418601600" "\<not> in_pattern (with_period ?r) 1417996800" by code_simp+
  ultimately show ?thesis using daily_weekly_items_exact[of ?r ?q "[]"] by blast
qed




text \<open>
  C2: \<open>HrGetItems\<close>, not asked for the last occurrence only, visits every \<open>p\<close>-th month that begins before the end of the range, when the period
  divides the year and the first month is in step, and lists the day that the pattern names: the
  day of the month or its last day, or the \<open>n\<close>-th or last of the matching weekdays.
\<close>

theorem monthly_items_exact:
  assumes "getFrequency r = MONTHLY" "p = uint (ulPeriod (m_sRecState (with_period r)))"
    "p dvd 12" "p dvd tm_mon (gmtime_safe (getStartDate r))" "names_day (m_sRecState r)"
    "- 11644473600 \<le> StartOfMonth (getStartDate r)" "range_end r q \<le> 2 ^ 40"
    "year = tm_year (gmtime_safe (getStartDate r))" "mon = tm_mon (gmtime_safe (getStartDate r))"
  shows "\<exists>n. (\<forall>k. k < n \<longleftrightarrow> nth_month year mon p k < range_end r q) \<and>
    HrGetItems r q False xs = Some (hrSuccess, with_period r,
      xs @ map (occ_of r q) (filter (takes_utc r q)
             (map (\<lambda>k. pattern_day (m_sRecState r) year (mon + int k * p)) [0..<n])) @
      moved_items q (lstExceptions (m_sRecState r)))"
  using assms by (rule monthly_items_days)

text \<open>The last Friday of every month from December 2014 on: 26 December and 30 January.\<close>

theorem monthly_items_exact_witness:
  "\<exists>n. (\<forall>k. k < n \<longleftrightarrow> nth_month 114 11 1 k < 1422748800) \<and>
    pattern_day (m_sRecState (with_pattern 0x20 0 5 (demo_rule RF_MONTHLY 3 1))) 114 11 = 1419552000 \<and>
    pattern_day (m_sRecState (with_pattern 0x20 0 5 (demo_rule RF_MONTHLY 3 1))) 114 12 = 1422576000 \<and>
    HrGetItems (with_pattern 0x20 0 5 (demo_rule RF_MONTHLY 3 1)) (demo_query 1417392000 1422748800) False [] =
      Some (hrSuccess, with_period (with_pattern 0x20 0 5 (demo_rule RF_MONTHLY 3 1)),
        [] @ map (occ_of (with_pattern 0x20 0 5 (demo_rule RF_MONTHLY 3 1)) (demo_query 1417392000 1422748800))
          (filter (takes_utc (with_pattern 0x20 0 5 (demo_rule RF_MONTHLY 3 1)) (demo_query 1417392000 1422748800))
            (map (\<lambda>k. pattern_day (m_sRecState (with_pattern 0x20 0 5 (demo_rule RF_MONTHLY 3 1))) 114 (11 + int k * 1)) [0..<n])) @
        moved_items (demo_query 1417392000 1422748800)
          (lstExceptions (m_sRecState (with_pattern 0x20 0 5 (demo_rule RF_MONTHLY 3 1)))))"
proof -
  let ?r = "with_pattern 0x20 0 5 (demo_rule RF_MONTHLY 3 1)" and ?q = "demo_query 1417392000 1422748800"
  have w: "some_weekday (ulWeekDays (m_sRecState ?r))"
    unfolding some_weekday_def by (rule exI[of _ 5]) code_simp
  have nd: "names_day (m_sRecState ?r)" using w by (simp add: names_day_def with_pattern_def on_state_def)
  have f: "getFrequency ?r = MONTHLY" "1 = uint (ulPeriod (m_sRecState (with_period ?r)))"
    "114 = tm_year (gmtime_safe (getStartDate ?r))" "11 = tm_mon (gmtime_safe (getStartDate ?r))"
    "- 11644473600 \<le> StartOfMonth (getStartDate ?r)" "range_end ?r ?q \<le> 2 ^ 40" by code_simp+
  have e: "range_end ?r ?q = 1422748800" by code_simp
  have d: "pattern_day (m_sRecState ?r) 114 11 = 1419552000" "pattern_day (m_sRecState ?r) 114 12 = 1422576000" by code_simp+
  show ?thesis
    using monthly_items_exact[OF f(1,2) one_dvd one_dvd nd f(5,6,3,4), of "[]", unfolded e] d by blast
qed

text \<open>
  C3: a yearly recurrence with a day of the month is, when not only the last occurrence is asked for, listed once in every year that begins before
  the end of the range: on that day of the month, or on its last day when it is too short.
\<close>

theorem yearly_items_exact:
  assumes "getFrequency r = YEARLY" "ulPeriod (m_sRecState (with_period r)) = 12" "ulDayOfMonth (m_sRecState r) \<noteq> 0"
    "- 11644473600 \<le> StartOfYear (getStartDate r)" "range_end r q \<le> 2 ^ 39" "year = tm_year (gmtime_safe (getStartDate r))"
  shows "\<exists>n. (\<forall>k. k < n \<longleftrightarrow> timegm_day (year + int k) 0 1 < range_end r q) \<and>
    HrGetItems r q False xs = Some (hrSuccess, with_period r,
      xs @ map (occ_of r q) (filter (takes_utc r q)
             (map (\<lambda>k. clipped_day (year + int k) (getMonth r - 1) (uint (ulDayOfMonth (m_sRecState r)))) [0..<n])) @
      moved_items q (lstExceptions (m_sRecState r)))"
  using assms by (rule yearly_items_days)

text \<open>29 February, set as the month of a recurrence: 28 February in 2015.\<close>

theorem yearly_items_exact_witness:
  "clipped_day 115 1 29 = 1425081600 \<and>
   (\<exists>n. (\<forall>k. k < n \<longleftrightarrow> timegm_day (114 + int k) 0 1 < 1456963200) \<and>
    HrGetItems ((with_pattern 0 29 0 (demo_rule RF_YEARLY 2 12))\<lparr>m_ulMonth := 2\<rparr>) (demo_query 1417392000 1456963200) False [] =
      Some (hrSuccess, with_period ((with_pattern 0 29 0 (demo_rule RF_YEARLY 2 12))\<lparr>m_ulMonth := 2\<rparr>),
        [] @ map (occ_of ((with_pattern 0 29 0 (demo_rule RF_YEARLY 2 12))\<lparr>m_ulMonth := 2\<rparr>) (demo_query 1417392000 1456963200))
          (filter (takes_utc ((with_pattern 0 29 0 (demo_rule RF_YEARLY 2 12))\<lparr>m_ulMonth := 2\<rparr>) (demo_query 1417392000 1456963200))
            (map (\<lambda>k. clipped_day (114 + int k) 1 29) [0..<n])) @
        moved_items (demo_query 1417392000 1456963200)
          (lstExceptions (m_sRecState ((with_pattern 0 29 0 (demo_rule RF_YEARLY 2 12))\<lparr>m_ulMonth := 2\<rparr>)))))"
proof -
  let ?r = "(with_pattern 0 29 0 (demo_rule RF_YEARLY 2 12))\<lparr>m_ulMonth := 2\<rparr>" and ?q = "demo_query 1417392000 1456963200"
  have "getFrequency ?r = YEARLY" "ulPeriod (m_sRecState (with_period ?r)) = 12" "ulDayOfMonth (m_sRecState ?r) \<noteq> 0"
    "- 11644473600 \<le> StartOfYear (getStartDate ?r)" "range_end ?r ?q \<le> 2 ^ 39" "114 = tm_year (gmtime_safe (getStartDate ?r))"
    "range_end ?r ?q = 1456963200" "getMonth ?r - 1 = 1" "uint (ulDayOfMonth (m_sRecState ?r)) = 29" "clipped_day 115 1 29 = 1425081600"
    by code_simp+
  note f = this
  show ?thesis using yearly_items_exact[OF f(1-6), of "[]", unfolded f(7-9)] f(10) by blast
qed


text \<open>
  C4: whatever the pattern, nothing that \<open>HrGetItems\<close> adds for it is deleted or lies on the day of a
  modified occurrence; for days and weeks nothing starts outside the period in local time, and for months and years
  the same holds in a zone where the bounds are those of UTC; the array that was passed in stays in front and
  the modified occurrences follow.
\<close>

theorem listed_items_valid:
  assumes "HrGetItems r q b xs = Some (hr, r', ys)"
  shows "\<exists>ds. ys = xs @ map (occ_of r q) ds @ moved_items q (lstExceptions (m_sRecState r)) \<and>
    (\<forall>d \<in> set ds. let t = d + uint (getStartTimeOffset r); z = q_ttZinfo q in
       t \<notin> set (getDeletedExceptions r) \<and>
       (\<forall>m \<in> set (getModifiedOccurrences r). StartOfDay t \<noteq> StartOfDay m) \<and>
       (getFrequency r = DAILY \<or> getFrequency r = WEEKLY \<or>
          UTCToLocal (q_tsStart q) z = q_tsStart q \<and> UTCToLocal (q_tsEnd q) z = q_tsEnd q \<longrightarrow>
        UTCToLocal (q_tsStart q) z \<le> t \<and> t \<le> UTCToLocal (q_tsEnd q) z))"
proof -
  from HrGetItems_valid[OF assms] obtain ds where
    ds: "ys = xs @ map (occ_of r q) ds @ moved_items q (lstExceptions (m_sRecState r))" "\<forall>d \<in> set ds. takes r q d" by blast
  have "let t = d + uint (getStartTimeOffset r); z = q_ttZinfo q in
       t \<notin> set (getDeletedExceptions r) \<and>
       (\<forall>m \<in> set (getModifiedOccurrences r). StartOfDay t \<noteq> StartOfDay m) \<and>
       (getFrequency r = DAILY \<or> getFrequency r = WEEKLY \<or>
          UTCToLocal (q_tsStart q) z = q_tsStart q \<and> UTCToLocal (q_tsEnd q) z = q_tsEnd q \<longrightarrow>
        UTCToLocal (q_tsStart q) z \<le> t \<and> t \<le> UTCToLocal (q_tsEnd q) z)" if "takes r q d" for d
    using that by (auto simp: takes_def takes_day_def takes_utc_def isOccurrenceValid_def isException_def
        isDeletedOccurrence_def list_ex_iff Let_def split: if_splits)
  with ds show ?thesis by blast
qed

text \<open>Every day from 1 December 2014, of which the second is deleted; asked for its first two days.\<close>

theorem listed_items_valid_witness:
  "\<exists>ys ds. HrGetItems (snd (addDeletedException 1417510800 (demo_rule RF_DAILY 0 1440))) (demo_query 1417392000 1417564800) False [] =
      Some (hrSuccess, with_period (snd (addDeletedException 1417510800 (demo_rule RF_DAILY 0 1440))), ys) \<and>
    ys = [] @ map (occ_of (snd (addDeletedException 1417510800 (demo_rule RF_DAILY 0 1440))) (demo_query 1417392000 1417564800)) ds @
      moved_items (demo_query 1417392000 1417564800)
        (lstExceptions (m_sRecState (snd (addDeletedException 1417510800 (demo_rule RF_DAILY 0 1440))))) \<and>
    (\<forall>d \<in> set ds. d + 32400 \<noteq> 1417510800 \<and> 1417392000 \<le> d + 32400 \<and> d + 32400 \<le> 1417564800)"
proof -
  let ?r = "snd (addDeletedException 1417510800 (demo_rule RF_DAILY 0 1440))" and ?q = "demo_query 1417392000 1417564800"
  have f: "getFrequency ?r = DAILY" "steps_on (with_period ?r)" by code_simp+
  obtain ys where ys: "HrGetItems ?r ?q False [] = Some (hrSuccess, with_period ?r, ys)"
    using HrGetItems_days[of ?r False ?q "[]"] f by blast
  have c: "uint (getStartTimeOffset ?r) = 32400" "1417510800 \<in> set (getDeletedExceptions ?r)"
    "UTCToLocal (q_tsStart ?q) (q_ttZinfo ?q) = 1417392000" "UTCToLocal (q_tsEnd ?q) (q_ttZinfo ?q) = 1417564800"
    by code_simp+
  show ?thesis using listed_items_valid[OF ys] ys f(1) c(2) unfolding Let_def c(1,3,4) by metis
qed

subsection \<open>Endless loops\<close>

text \<open>
  C5: expanding a daily, every-weekday or weekly pattern does not return exactly when its step in
  seconds is zero modulo \<open>2 ^ 32\<close> and the range is not empty.
\<close>

theorem items_endless_iff:
  assumes "getFrequency r = DAILY \<or> getFrequency r = WEEKLY"
  shows "HrGetItems r q False xs = None \<longleftrightarrow> rule_step (with_period r) = 0 \<and> getStartDate r \<le> range_end r q"
  using assms by (rule weekly_daily_ends)

text \<open>A period of \<open>2 ^ 30\<close> minutes, about two thousand years, is no step.\<close>

theorem items_endless_iff_witness:
  "HrGetItems (demo_rule RF_DAILY 0 0x40000000) (demo_query 1417392000 1417478400) False [] = None \<and>
   HrGetItems (demo_rule RF_DAILY 0 1440) (demo_query 1417392000 1417478400) False [] \<noteq> None"
proof -
  have "getFrequency (demo_rule RF_DAILY 0 0x40000000) = DAILY" "getFrequency (demo_rule RF_DAILY 0 1440) = DAILY"
    "rule_step (with_period (demo_rule RF_DAILY 0 0x40000000)) = 0" "rule_step (with_period (demo_rule RF_DAILY 0 1440)) \<noteq> 0"
    "getStartDate (demo_rule RF_DAILY 0 0x40000000) \<le>
       range_end (demo_rule RF_DAILY 0 0x40000000) (demo_query 1417392000 1417478400)" by code_simp+
  then show ?thesis using items_endless_iff by blast
qed

text \<open>
  Looking for the last weekday of a month returns exactly when the pattern has one of the seven
  weekdays; a blob whose weekday bits are all above them makes it run backwards forever.
\<close>

theorem last_weekday_endless_iff:
  "monthly_day s tsNow tsDayNow = None \<longleftrightarrow>
     ulDayOfMonth s = 0 \<and> ulWeekDays s \<noteq> 0 \<and> 5 \<le> ulWeekNumber s \<and> \<not> some_weekday (ulWeekDays s)"
proof -
  have "ulWeekNumber s \<noteq> 0" if "5 \<le> ulWeekNumber s" using that by auto
  moreover have "last_weekday (ulWeekDays s) t = None \<longleftrightarrow> \<not> some_weekday (ulWeekDays s)" for t
    using last_weekday_ends[of "ulWeekDays s" t] by blast
  ultimately show ?thesis by (auto simp: monthly_day_def Let_def not_less)
qed

subsection \<open>Deleting and modifying occurrences\<close>

lemma mset_fold_remove1: "mset (fold (\<lambda>x. remove1 (f x)) xs ys) = mset ys - mset (map f xs)"
  by (induction xs arbitrary: ys) (simp_all add: diff_diff_add_mset)

lemma rtime_day:
  assumes "- 11644473600 \<le> t" "t < 60 * 2 ^ 31 - 11644473630" "t mod 60 = 0"
  shows "UnixTimeToRTime t - UnixTimeToRTime t mod 1440 = UnixTimeToRTime (StartOfDay t)"
proof -
  define k where "k = (t + 11644473600) div 60"
  have t: "t = 60 * k - 11644473600"
  proof -
    have "(t + 11644473600) mod 60 = 0" using assms(3) mod_mult_self1[of t 194074560 60] by simp
    then show ?thesis using div_mult_mod_eq[of "t + 11644473600" 60] by (simp add: k_def)
  qed
  have k: "0 \<le> k" "k < 2 ^ 31" using assms t by simp_all
  have "(60 * k - 11644473600 + 11644473630) div 60 = k" by simp
  then have r: "UnixTimeToRTime t = of_int k"
    using UnixTimeToRTime_eq[of t] assms t k by simp
  have day: "StartOfDay t = 60 * (k - k mod 1440) - 11644473600"
  proof -
    have "(60 * k - 11644473600) mod 86400 = 60 * k mod 86400"
      using mod_mult_self1[of "60 * k" "- 134774" 86400] by simp
    also have "\<dots> = 60 * (k mod 1440)" using mult_mod_right[of 60 k 1440] by simp
    finally show ?thesis by (simp add: StartOfDay_eq t)
  qed
  have m: "0 \<le> k - k mod 1440" "k - k mod 1440 \<le> k" using k by (simp_all add: zmod_le_nonneg_dividend)
  have "(60 * (k - k mod 1440) - 11644473600 + 11644473630) div 60 = k - k mod 1440" by simp
  then have "UnixTimeToRTime (StartOfDay t) = of_int (k - k mod 1440)"
    using UnixTimeToRTime_eq[of "StartOfDay t"] day m k by simp
  moreover have "(of_int k :: u32) mod 1440 = of_int (k mod 1440)"
  proof -
    have "uint (of_int k :: u32) = k" unfolding uint_word_of_int_eq by (rule take_bit_int_eq_self) (use k in simp_all)
    then have "uint ((of_int k :: u32) mod 1440) = k mod 1440" by (simp add: uint_mod)
    then show ?thesis by (metis word_of_int_uint)
  qed
  ultimately show ?thesis by (simp add: r)
qed

text \<open>
  C6: adding a modified occurrence takes the occurrences of its original day, and no others, from
  those that are valid: the entry that it makes in the deleted days belongs to the modification.
\<close>

theorem modification_hides_its_day:
  assumes "- 11644473600 \<le> tOrig" "tOrig < 60 * 2 ^ 31 - 11644473630" "tOrig mod 60 = 0"
  shows "isOccurrenceValid (snd (addModifiedException tStart tEnd tOrig r)) a b t \<longleftrightarrow>
    isOccurrenceValid r a b t \<and> StartOfDay t \<noteq> StartOfDay tOrig"
proof -
  let ?r = "snd (addModifiedException tStart tEnd tOrig r)" and ?s = "m_sRecState r"
  have "RTimeToUnixTime (UnixTimeToRTime tOrig) = tOrig"
  proof -
    have "(tOrig + 30) div 60 * 60 = tOrig" using assms(3) by (simp add: mod_eq_0_iff_dvd) (auto simp: dvd_def)
    then show ?thesis using unix_of_rtime[OF assms(1,2)] by simp
  qed
  then have "getModifiedOccurrences ?r = getModifiedOccurrences r @ [tOrig]"
    by (simp add: getModifiedOccurrences_def addModifiedException_def on_state_def Let_def)
  then have ex: "isException ?r t \<longleftrightarrow> isException r t \<or> StartOfDay t = StartOfDay tOrig"
    by (simp add: isException_def)
  have "original_day (zero_exception\<lparr>ex_ulStartDateTime := x, ex_ulEndDateTime := y, ex_ulOriginalStartDate := UnixTimeToRTime tOrig\<rparr>) =
      UnixTimeToRTime (StartOfDay tOrig)" for x y
    using rtime_day[OF assms] by (simp add: original_day_def)
  then have "mset (fold (\<lambda>x. remove1 (original_day x)) (lstExceptions (m_sRecState ?r)) (lstDeletedInstanceDates (m_sRecState ?r))) =
      mset (fold (\<lambda>x. remove1 (original_day x)) (lstExceptions ?s) (lstDeletedInstanceDates ?s))"
    by (simp add: mset_fold_remove1 addModifiedException_def on_state_def Let_def)
  then have "set (fold (\<lambda>x. remove1 (original_day x)) (lstExceptions (m_sRecState ?r)) (lstDeletedInstanceDates (m_sRecState ?r))) =
      set (fold (\<lambda>x. remove1 (original_day x)) (lstExceptions ?s) (lstDeletedInstanceDates ?s))"
    by (rule mset_eq_setD)
  moreover have "getStartTimeOffset ?r = getStartTimeOffset r"
    by (simp add: getStartTimeOffset_def addModifiedException_def on_state_def Let_def)
  ultimately have "isDeletedOccurrence ?r t = isDeletedOccurrence r t"
    by (simp add: isDeletedOccurrence_def getDeletedExceptions_def list_ex_iff)
  with ex show ?thesis by (auto simp: isOccurrenceValid_def)
qed


text \<open>Moving the occurrence of Tuesday 2 December hides that day and leaves Wednesday.\<close>

theorem modification_hides_its_day_witness:
  "\<not> isOccurrenceValid (snd (addModifiedException 1417600800 1417604400 1417510800 (demo_rule RF_DAILY 0 1440))) 0 2000000000 1417510800 \<and>
   isOccurrenceValid (snd (addModifiedException 1417600800 1417604400 1417510800 (demo_rule RF_DAILY 0 1440))) 0 2000000000 1417597200"
proof -
  have "isOccurrenceValid (demo_rule RF_DAILY 0 1440) 0 2000000000 1417597200" "StartOfDay 1417597200 \<noteq> StartOfDay 1417510800"
    by code_simp+
  then show ?thesis
    using modification_hides_its_day[of 1417510800 1417600800 1417604400 "demo_rule RF_DAILY 0 1440" 0 2000000000] by simp
qed

text \<open>Every modification has its entry among the deleted days.\<close>

definition exceptions_deleted :: "recurrence \<Rightarrow> bool" where
  "exceptions_deleted r \<longleftrightarrow>
     mset (map original_day (lstExceptions (m_sRecState r))) \<subseteq># mset (lstDeletedInstanceDates (m_sRecState r))"

lemma StartOfDay_range:
  assumes "- 11644473600 \<le> t"
  shows "- 11644473600 \<le> StartOfDay t" "StartOfDay t \<le> t" "(StartOfDay t + 30) div 60 * 60 = StartOfDay t"
proof -
  define k where "k = t div 86400"
  have t: "StartOfDay t = 86400 * k" using mult_div_mod_eq[of 86400 t] unfolding StartOfDay_eq k_def by linarith
  have "- 134774 \<le> k" using div_bounds[of 86400 t] assms by (simp add: k_def)
  then show "- 11644473600 \<le> StartOfDay t" using t by simp
  show "StartOfDay t \<le> t" by (simp add: StartOfDay_eq)
  have "(86400 * k + 30) div 60 = 1440 * k" by simp
  then show "(StartOfDay t + 30) div 60 * 60 = StartOfDay t" by (simp add: t)
qed

lemma StartOfDay_rtime:
  assumes "- 11644473600 \<le> t" "t < 60 * 2 ^ 31 - 11644473630"
  shows "RTimeToUnixTime (UnixTimeToRTime (StartOfDay t)) = StartOfDay t"
proof -
  have "StartOfDay t < 60 * 2 ^ 31 - 11644473630" using StartOfDay_range(2)[OF assms(1)] assms(2) by linarith
  then show ?thesis using unix_of_rtime[OF StartOfDay_range(1)[OF assms(1)]] StartOfDay_range(3)[OF assms(1)] by simp
qed

text \<open>
  Deleting a day adds its occurrence, and no other, to those that count as deleted, as long as
  every modification has its entry among the deleted days; deleting and modifying keep that.
\<close>

theorem deletion_adds_its_day:
  assumes "exceptions_deleted r" "- 11644473600 \<le> t" "t < 60 * 2 ^ 31 - 11644473630" "t mod 60 = 0"
  shows "(isDeletedOccurrence (snd (addDeletedException t r)) u \<longleftrightarrow>
      isDeletedOccurrence r u \<or> u = StartOfDay t + uint (getStartTimeOffset r)) \<and>
    exceptions_deleted (snd (addDeletedException t r)) \<and>
    exceptions_deleted (snd (addModifiedException a b t r))"
proof (intro conjI)
  let ?r = "snd (addDeletedException t r)" and ?s = "m_sRecState r" and ?D = "UnixTimeToRTime (StartOfDay t)"
  let ?X = "mset (map original_day (lstExceptions ?s))" and ?A = "mset (lstDeletedInstanceDates ?s)"
  have sub: "?X \<subseteq># ?A" using assms(1) by (simp add: exceptions_deleted_def)
  have f: "lstExceptions (m_sRecState ?r) = lstExceptions ?s"
    "lstDeletedInstanceDates (m_sRecState ?r) = lstDeletedInstanceDates ?s @ [?D]" "getStartTimeOffset ?r = getStartTimeOffset r"
    by (simp_all add: addDeletedException_def on_state_def getStartTimeOffset_def)
  let ?rest = "\<lambda>r. fold (\<lambda>x. remove1 (original_day x)) (lstExceptions (m_sRecState r)) (lstDeletedInstanceDates (m_sRecState r))"
  have "?A + {#?D#} - ?X = {#?D#} + (?A - ?X)" using sub
    by (intro multiset_eqI) (simp add: subseteq_mset_def Suc_diff_le)
  then have "mset (?rest ?r) = add_mset ?D (mset (?rest r))" by (simp add: mset_fold_remove1 f)
  then have "set (?rest ?r) = insert ?D (set (?rest r))" by (metis set_mset_mset set_mset_add_mset_insert)
  then show "isDeletedOccurrence ?r u \<longleftrightarrow> isDeletedOccurrence r u \<or> u = StartOfDay t + uint (getStartTimeOffset r)"
    using StartOfDay_rtime[OF assms(2,3)]
    by (auto simp: isDeletedOccurrence_def getDeletedExceptions_def list_ex_iff f)
  have "?A \<subseteq># add_mset ?D ?A" by (simp add: subset_mset.less_imp_le)
  then show "exceptions_deleted ?r" using subset_mset.order_trans[OF sub] by (simp add: exceptions_deleted_def f)
  have "original_day (zero_exception\<lparr>ex_ulStartDateTime := x, ex_ulEndDateTime := y, ex_ulOriginalStartDate := UnixTimeToRTime t\<rparr>) = ?D" for x y
    using rtime_day[OF assms(2-4)] by (simp add: original_day_def)
  then show "exceptions_deleted (snd (addModifiedException a b t r))"
    using sub by (simp add: exceptions_deleted_def addModifiedException_def on_state_def Let_def)
qed

theorem deletion_adds_its_day_witness:
  "isDeletedOccurrence (snd (addDeletedException 1417510800 (demo_rule RF_DAILY 0 1440))) 1417510800 \<and>
   \<not> isDeletedOccurrence (snd (addDeletedException 1417510800 (demo_rule RF_DAILY 0 1440))) 1417597200"
proof -
  have "exceptions_deleted (demo_rule RF_DAILY 0 1440)"
    by (simp add: exceptions_deleted_def demo_rule_def new_RecurrenceState_def)
  moreover have "StartOfDay 1417510800 + uint (getStartTimeOffset (demo_rule RF_DAILY 0 1440)) = 1417510800"
    "\<not> isDeletedOccurrence (demo_rule RF_DAILY 0 1440) 1417597200" by code_simp+
  ultimately show ?thesis
    using deletion_adds_its_day[of "demo_rule RF_DAILY 0 1440" 1417510800 1417510800 0 0]
      deletion_adds_its_day[of "demo_rule RF_DAILY 0 1440" 1417510800 1417597200 0 0] by simp
qed

subsection \<open>Setting and getting\<close>

text \<open>
  The start that is set is read back to the minute, and the interval that is set after the
  frequency is read back when the period does not wrap.
\<close>

theorem pattern_round_trip:
  "(- 11644473600 \<le> t \<and> t < 60 * 2 ^ 31 - 11644473630 \<longrightarrow>
      getStartDateTime (snd (setStartDateTime t r)) = t - t mod 60) \<and>
   (0 < i \<and> uint i < 2 ^ 21 \<longrightarrow>
      fst (setInterval i (snd (setFrequency f r))) = hrSuccess \<and>
      getInterval (snd (setInterval i (snd (setFrequency f r)))) = i \<and>
      getFrequency (snd (setInterval i (snd (setFrequency f r)))) = f)"
proof (intro conjI impI; (elim conjE)?)
  assume t: "- 11644473600 \<le> t" "t < 60 * 2 ^ 31 - 11644473630"
  have off: "t - StartOfDay t = t mod 86400" by (simp add: StartOfDay_eq)
  have o: "0 \<le> t mod 86400" "t mod 86400 < 86400" by simp_all
  then have "(t mod 86400) sdiv 60 = t mod 86400 div 60" 
    by (cases "t mod 86400 = 0") (simp_all add: signed_divide_int_def)
  moreover have "0 \<le> t mod 86400 div 60" "t mod 86400 div 60 < 1440" using o by simp_all
  moreover have "uint (of_int m * 60 :: u32) = m * 60" if "0 \<le> m" "m < 1440" for m
  proof -
    have "(of_int m * 60 :: u32) = word_of_int (m * 60)" by simp
    moreover have "uint (word_of_int (m * 60) :: u32) = m * 60"
      unfolding uint_word_of_int_eq by (rule take_bit_int_eq_self) (use that in simp_all)
    ultimately show ?thesis by (simp only:)
  qed
  ultimately have "uint (of_int ((t mod 86400) sdiv 60) * 60 :: u32) = t mod 86400 div 60 * 60" by simp
  moreover have "t mod 86400 div 60 * 60 = t mod 86400 - t mod 60"
  proof -
    have "t mod 86400 mod 60 = t mod 60" by (rule mod_mod_cancel) simp
    then show ?thesis using div_mult_mod_eq[of "t mod 86400" 60] by simp
  qed
  ultimately show "getStartDateTime (snd (setStartDateTime t r)) = t - t mod 60"
    using StartOfDay_rtime[OF t] off by (simp add: getStartDateTime_def setStartDateTime_def on_state_def Let_def)
next
  assume i: "0 < i" "uint i < 2 ^ 21"
  show "fst (setInterval i (snd (setFrequency f r))) = hrSuccess" using i by (auto simp: setInterval_def)
  have m: "(k * i) div k = i" if "k = 1440 \<or> k = 12" for k :: u32
  proof -
    have "uint (k * i) = uint k * uint i"
      unfolding uint_word_ariths by (rule mod_pos_pos_trivial) (use that i in auto)
    then have "uint ((k * i) div k) = uint i" using that by (auto simp: uint_div)
    then show ?thesis by (simp only: word_uint_eq_iff)
  qed
  show "getInterval (snd (setInterval i (snd (setFrequency f r)))) = i"
    using i m[of 1440] m[of 12]
    by (cases f) (auto simp: getInterval_def setInterval_def setFrequency_def on_state_def getFrequency_def
        RF_DAILY_def RF_WEEKLY_def RF_MONTHLY_def RF_YEARLY_def Let_def)
  show "getFrequency (snd (setInterval i (snd (setFrequency f r)))) = f"
    by (cases f) (auto simp: setInterval_def setFrequency_def on_state_def getFrequency_def
        RF_DAILY_def RF_WEEKLY_def RF_MONTHLY_def RF_YEARLY_def Let_def)
qed


theorem pattern_round_trip_witness:
  "getStartDateTime (snd (setStartDateTime 1417510830 (demo_rule RF_DAILY 0 1440))) = 1417510800 \<and>
   getInterval (snd (setInterval 3 (snd (setFrequency DAILY (demo_rule RF_WEEKLY 1 1))))) = 3"
  using pattern_round_trip[of 1417510830 "demo_rule RF_DAILY 0 1440" 1 DAILY]
    pattern_round_trip[of 0 "demo_rule RF_WEEKLY 1 1" 3 DAILY] by simp

subsection \<open>The dates that are written\<close>

lemma unique_in_place_distinct: "distinct xs \<Longrightarrow> unique_in_place xs = xs"
  by (simp add: unique_in_place_def remdups_adj_distinct)

lemma unique_in_place_length: "length (unique_in_place xs) = length xs"
  using remdups_adj_length[of xs] by (simp add: unique_in_place_def)

lemma unique_in_place_set: "set (unique_in_place xs) = set xs"
  by (auto simp: unique_in_place_def dest: in_set_dropD)

text \<open>
  \<open>HrGetRecurrenceState\<close> completes the object before it writes it: the counts are those of the
  lists, dates without duplicates come out sorted, and a list never gets shorter. The comment
  promises unique dates; the code ignores the end that \<open>std::unique\<close> returns, so a date that occurs
  twice is still written twice, and the list may no longer be sorted.
\<close>

theorem save_orders_dates:
  assumes "HrGetRecurrenceState e r = Some (out, r')" "out \<noteq> Inl MAPI_E_CORRUPT_DATA"
  shows "let s = m_sRecState r; s' = m_sRecState r' in
    ulDeletedInstanceCount s' = of_nat (length (lstDeletedInstanceDates s)) \<and>
    ulModifiedInstanceCount s' = of_nat (length (lstModifiedInstanceDates s)) \<and>
    length (lstDeletedInstanceDates s') = length (lstDeletedInstanceDates s) \<and>
    set (lstDeletedInstanceDates s') = set (lstDeletedInstanceDates s) \<and>
    (distinct (lstDeletedInstanceDates s) \<longrightarrow> lstDeletedInstanceDates s' = sort (lstDeletedInstanceDates s)) \<and>
    (distinct (lstModifiedInstanceDates s) \<longrightarrow> lstModifiedInstanceDates s' = sort (lstModifiedInstanceDates s))"
proof -
  let ?s = "m_sRecState r"
  let ?bad = "ulRecurFrequency ?s \<notin> {RF_DAILY, RF_WEEKLY, RF_MONTHLY, RF_YEARLY} \<or>
      ulPatternType ?s \<notin> {0, 1, 2, 3, 4, 0xA, 0xB, 0xC} \<or> ulEndType ?s \<notin> {ET_DATE, ET_NUMBER, ET_NEVER}"
  let ?new = "\<lambda>first. ?s\<lparr>ulFirstDateTime := first,
      ulEndDate := (if ulEndType ?s = ET_NEVER then 0x5AE980DF else ulEndDate ?s),
      lstModifiedInstanceDates := unique_in_place (sort (lstModifiedInstanceDates ?s)),
      ulModifiedInstanceCount := of_nat (length (unique_in_place (sort (lstModifiedInstanceDates ?s)))),
      lstDeletedInstanceDates := unique_in_place (sort (lstDeletedInstanceDates ?s)),
      ulDeletedInstanceCount := of_nat (length (unique_in_place (sort (lstDeletedInstanceDates ?s)))),
      ulExceptionCount := of_nat (length (unique_in_place (sort (lstModifiedInstanceDates ?s))))\<rparr>"
  have "HrGetRecurrenceState e r = (if ?bad then Some (Inl MAPI_E_CORRUPT_DATA, r)
      else case first_date_time r of None \<Rightarrow> None | Some first \<Rightarrow> Some (GetBlob e (?new first), r\<lparr>m_sRecState := ?new first\<rparr>))"
    unfolding HrGetRecurrenceState_def Let_def by (rule refl)
  with assms have "\<exists>first. r' = r\<lparr>m_sRecState := ?new first\<rparr>"
    by (cases ?bad; cases "first_date_time r") (simp_all only: if_True if_False option.case option.inject prod.inject option.distinct, blast+)
  then obtain first where "m_sRecState r' = ?new first" by auto
  then show ?thesis by (simp add: Let_def unique_in_place_length unique_in_place_set unique_in_place_distinct)
qed

definition dup_rule :: recurrence where
  "dup_rule = on_state (\<lambda>s. s\<lparr>lstDeletedInstanceDates := [1440, 1440, 1440, 2880]\<rparr>) (demo_rule RF_DAILY 0 1440)"

theorem save_orders_dates_witness:
  "\<exists>out r'. HrGetRecurrenceState demo_rsenv dup_rule = Some (out, r') \<and>
    lstDeletedInstanceDates (m_sRecState r') = [1440, 2880, 1440, 2880] \<and>
    length (lstDeletedInstanceDates (m_sRecState r')) = length (lstDeletedInstanceDates (m_sRecState dup_rule))"
proof -
  have f: "first_date_time dup_rule = Some 0"
    by (simp add: first_date_time_def dup_rule_def demo_rule_def on_state_def new_RecurrenceState_def RF_DAILY_def dec2014_def)
  have u: "unique_in_place (sort [1440, 1440, 1440, 2880]) = [1440, 2880, 1440, 2880]" by (simp add: unique_in_place_def)
  from f u have "\<exists>out r'. HrGetRecurrenceState demo_rsenv dup_rule = Some (out, r') \<and> out \<noteq> Inl MAPI_E_CORRUPT_DATA \<and>
      lstDeletedInstanceDates (m_sRecState r') = [1440, 2880, 1440, 2880]"
    by (simp add: HrGetRecurrenceState_def Let_def dup_rule_def demo_rule_def on_state_def new_RecurrenceState_def
        RF_DAILY_def ET_NEVER_def GetBlob_def)
  then obtain out r' where g: "HrGetRecurrenceState demo_rsenv dup_rule = Some (out, r')" "out \<noteq> Inl MAPI_E_CORRUPT_DATA"
    "lstDeletedInstanceDates (m_sRecState r') = [1440, 2880, 1440, 2880]" by auto
  then show ?thesis using save_orders_dates[OF g(1,2)] by (auto simp: Let_def)
qed

end
