(* ===== verification/Free_Busy_Facts.thy ===== *)
theory Free_Busy_Facts
  imports Free_Busy "HOL-Library.Multiset"
begin

text \<open>
  Properties of the free/busy data: the merging of blocks keeps the status of every minute, an
  enumeration returns the blocks of the restriction, free slots are found, and properties written
  for a message are read back.
\<close>

subsection \<open>Merging\<close>

definition covers :: "fb_block \<Rightarrow> int \<Rightarrow> bool" where
  "covers b t \<longleftrightarrow> sint (m_tmStart b) \<le> t \<and> t < sint (m_tmEnd b)"

text \<open>The status of a minute: the largest status of the blocks that cover it, free without one.\<close>

definition busy_status :: "fb_block list \<Rightarrow> int \<Rightarrow> u32" where
  "busy_status bs t = Max (set (0 # map m_fbstatus (filter (\<lambda>b. covers b t) bs)))"

definition block_times :: "fb_block list \<Rightarrow> int list" where
  "block_times bs = concat (map (\<lambda>b. [sint (m_tmStart b), sint (m_tmEnd b)]) bs)"

definition block_events :: "fb_block \<Rightarrow> (int \<times> bool \<times> u32) set" where
  "block_events b = {(sint (m_tmStart b), True, m_fbstatus b), (sint (m_tmEnd b), False, m_fbstatus b)}"

lemma block_times_Cons: "block_times (b # bs) = sint (m_tmStart b) # sint (m_tmEnd b) # block_times bs"
  by (simp add: block_times_def)

lemma block_times_in: "b \<in> set bs \<Longrightarrow> sint (m_tmStart b) \<in> set (block_times bs) \<and> sint (m_tmEnd b) \<in> set (block_times bs)"
  by (auto simp: block_times_def)

lemma block_times_distinct:
  assumes "distinct (block_times bs)"
  shows "distinct bs" and "b \<in> set bs \<Longrightarrow> c \<in> set bs \<Longrightarrow> b \<noteq> c \<Longrightarrow>
    sint (m_tmStart b) \<noteq> sint (m_tmStart c) \<and> sint (m_tmStart b) \<noteq> sint (m_tmEnd c) \<and> sint (m_tmEnd b) \<noteq> sint (m_tmEnd c)"
  using assms
proof (induction bs)
  case (Cons x xs)
  { case 1
    then show ?case using Cons.IH(1) block_times_in[of x xs] by (auto simp: block_times_Cons) }
  { case 2
    then show ?case using Cons.IH(2) block_times_in[of b xs] block_times_in[of c xs] by (auto simp: block_times_Cons) }
qed simp_all

lemma put_time_set:
  "t \<notin> fst ` set m \<Longrightarrow> set (put_time t x m) = insert (t, x) (set m)"
  by (induction t x m rule: put_time.induct) auto

lemma put_time_keys: "fst ` set (put_time t x m) = insert t (fst ` set m)"
  by (induction t x m rule: put_time.induct) auto

lemma put_time_sorted:
  "sorted_wrt (<) (map fst m) \<Longrightarrow> sorted_wrt (<) (map fst (put_time t x m))"
proof (induction t x m rule: put_time.induct)
  case (2 t x u y r)
  have k: "set (map fst (put_time t x r)) = insert t (set (map fst r))" using put_time_keys[of t x r] by simp
  show ?case using 2 k by (auto simp del: set_map)
qed simp

lemma put_blocks:
  assumes "distinct (block_times bs)" "set (block_times bs) \<inter> fst ` set m = {}" "sorted_wrt (<) (map fst m)"
  shows "set (fold put_block bs m) = set m \<union> (\<Union>b \<in> set bs. block_events b) \<and> sorted_wrt (<) (map fst (fold put_block bs m))"
  using assms
proof (induction bs arbitrary: m)
  case (Cons b bs)
  have s: "set (put_block b m) = set m \<union> block_events b"
    using Cons.prems(1,2) by (simp add: put_block_def block_times_Cons put_time_set put_time_keys block_events_def) blast
  moreover have "sorted_wrt (<) (map fst (put_block b m))"
    using Cons.prems(3) by (simp add: put_block_def put_time_sorted)
  moreover have "set (block_times bs) \<inter> fst ` set (put_block b m) = {}"
    using Cons.prems(1,2) unfolding s by (auto simp: block_times_Cons block_events_def)
  ultimately show ?case using Cons.IH[of "put_block b m"] Cons.prems(1) by (auto simp: block_times_Cons)
qed simp

lemma last_sort_Max:
  fixes v :: "u32 list"
  assumes "v \<noteq> []"
  shows "last (sort v) = Max (set v)"
proof (rule Max_eqI[symmetric])
  have ne: "sort v \<noteq> []" using assms by (metis set_empty set_sort)
  show "last (sort v) \<in> set v" using last_in_set[OF ne] by simp
  fix y assume "y \<in> set v"
  then have "y \<in> set (sort v)" by simp
  then obtain i where "i < length (sort v)" "sort v ! i = y" by (metis in_set_conv_nth)
  then show "y \<le> last (sort v)" using sorted_nth_mono[OF sorted_sort, of i "length v - 1" v] assms
    by (simp add: last_conv_nth[OF ne])
qed simp

lemma busy_status_mset:
  assumes "mset v = mset (map m_fbstatus (filter (\<lambda>b. covers b t) bs))"
  shows "busy_status bs t = (if v = [] then 0 else last (sort v))"
proof -
  have "set v = set (map m_fbstatus (filter (\<lambda>b. covers b t) bs))" using assms by (metis set_mset_mset)
  then have "busy_status bs t = Max (set (0 # v))" by (simp add: busy_status_def)
  then show ?thesis by (cases "v = []") (simp_all add: last_sort_Max Max_insert max_def)
qed

lemma busy_status_cong: "(\<And>b. b \<in> set bs \<Longrightarrow> covers b t = covers b u) \<Longrightarrow> busy_status bs t = busy_status bs u"
  unfolding busy_status_def by (metis (mono_tags, lifting) filter_cong)

lemma busy_status_append: "busy_status (bs @ cs) t = max (busy_status bs t) (busy_status cs t)"
proof -
  have "set (0 # map m_fbstatus (filter (\<lambda>b. covers b t) (bs @ cs))) =
      set (0 # map m_fbstatus (filter (\<lambda>b. covers b t) bs)) \<union> set (0 # map m_fbstatus (filter (\<lambda>b. covers b t) cs))"
    by auto
  then show ?thesis unfolding busy_status_def by (simp only:) (rule Max_Un; simp)
qed

lemma mset_filter_add:
  assumes "distinct bs" "b \<in> set bs" "\<not> P b" "\<And>c. c \<in> set bs \<Longrightarrow> Q c \<longleftrightarrow> P c \<or> c = b"
  shows "mset (filter Q bs) = add_mset b (mset (filter P bs))"
  using assms
proof (induction bs)
  case (Cons c bs)
  show ?case
  proof (cases "c = b")
    case True
    then have "filter Q bs = filter P bs" using Cons.prems by (intro filter_cong) auto
    then show ?thesis using True Cons.prems by simp
  next
    case False
    then show ?thesis using Cons by (cases "P c") auto
  qed
qed simp

text \<open>What the sweep has established when all times up to \<open>T\<close> have passed.\<close>

definition swept :: "fb_block list \<Rightarrow> int \<Rightarrow> sweep \<Rightarrow> bool" where
  "swept bs T s \<longleftrightarrow>
     mset (sw_status s) = mset (map m_fbstatus (filter (\<lambda>b. covers b T) bs)) \<and>
     sw_level s = of_nat (length (sw_status s)) \<and>
     (sw_status s \<noteq> [] \<longrightarrow> sw_last s = T \<and> - (2 ^ 31) \<le> T \<and> T < 2 ^ 31) \<and>
     (\<forall>t. busy_status (sw_out s) t = (if t < T then busy_status bs t else 0))"

lemma sweep_emit_out:
  assumes "swept bs T s" "sw_status s \<noteq> []" "T < U" "U < 2 ^ 31"
    and "\<And>t b. b \<in> set bs \<Longrightarrow> T \<le> t \<Longrightarrow> t < U \<Longrightarrow> covers b t = covers b T"
  shows "busy_status (sw_out (sweep_emit U s)) t = (if t < U then busy_status bs t else 0)"
proof -
  define st where "st = last (sort (sw_status s))"
  have T: "sw_last s = T" "- (2 ^ 31) \<le> T" "T < 2 ^ 31" using assms(1,2) by (simp_all add: swept_def)
  have st: "busy_status bs T = st" using busy_status_mset[of "sw_status s" T bs] assms(1,2) by (simp add: swept_def st_def)
  have old: "busy_status (sw_out s) t = (if t < T then busy_status bs t else 0)" using assms(1) by (simp add: swept_def)
  have mid: "T \<le> t \<Longrightarrow> t < U \<Longrightarrow> busy_status bs t = st" using busy_status_cong[of bs t T] assms(5) st by blast
  have ne: "sort (sw_status s) \<noteq> []" using assms(2) by (metis set_empty set_sort)
  have rng: "sint (word_of_int T :: u32) = T" "sint (word_of_int U :: u32) = U"
    using T(2,3) assms(3,4) by (simp_all add: sint_sbintrunc' signed_take_bit_int_eq_self)
  let ?b = "\<lparr>m_tmStart = word_of_int T, m_tmEnd = word_of_int U, m_fbstatus = st\<rparr>"
  have new: "busy_status [?b] t = (if T \<le> t \<and> t < U then st else 0)"
    by (simp add: busy_status_def covers_def rng max_def)
  have "sw_out (sweep_emit U s) = (if st \<noteq> 0 then sw_out s @ [?b] else sw_out s)"
    by (simp add: sweep_emit_def Let_def ne T(1) st_def)
  then show ?thesis using old mid new assms(3) by (auto simp: busy_status_append)
qed

lemma swept_step:
  assumes "swept bs T s" "distinct (block_times bs)" "length bs < 2 ^ 32" "T < U"
    and "b \<in> set bs" "(U, k, st) \<in> block_events b" "\<And>x. x \<in> set (block_times bs) \<Longrightarrow> x \<le> T \<or> U \<le> x"
    and "sint (m_tmStart b) < sint (m_tmEnd b)"
  shows "swept bs U (sweep_step (U, k, st) s)"
proof -
  note db = block_times_distinct[OF assms(2)]
  have ends: "c \<in> set bs \<Longrightarrow> (sint (m_tmStart c) \<le> T \<or> U \<le> sint (m_tmStart c)) \<and> (sint (m_tmEnd c) \<le> T \<or> U \<le> sint (m_tmEnd c))" for c
    using assms(7) block_times_in[of c bs] by blast
  have Ur: "- (2 ^ 31) \<le> U" "U < 2 ^ 31"
    using assms(6) sint_range_size[of "m_tmStart b"] sint_range_size[of "m_tmEnd b"] by (auto simp: block_events_def word_size)
  have mid: "covers c t = covers c T" if "c \<in> set bs" "T \<le> t" "t < U" for t c
    using ends[OF that(1)] that(2,3) by (auto simp: covers_def)
  have stm: "mset (sw_status s) = mset (map m_fbstatus (filter (\<lambda>b. covers b T) bs))" using assms(1) by (simp add: swept_def)
  have len: "length (sw_status s) = length (filter (\<lambda>b. covers b T) bs)" using mset_eq_length[OF stm] by simp
  have lvl: "sw_level s \<noteq> 0 \<longleftrightarrow> sw_status s \<noteq> []"
  proof -
    define n where "n = length (sw_status s)"
    have "n < 2 ^ 32" using le_less_trans[OF length_filter_le assms(3), of "\<lambda>b. covers b T"] unfolding n_def len .
    then have "(of_nat n :: u32) = 0 \<longleftrightarrow> n = 0" by (auto simp: word_of_nat_eq_0_iff dest: dvd_imp_le)
    moreover have "sw_level s = of_nat n" using assms(1) by (simp add: swept_def n_def)
    ultimately show ?thesis by (simp add: n_def)
  qed
  define s' where "s' = (if sw_status s \<noteq> [] then sweep_emit U s else s)"
  have out: "busy_status (sw_out s') t = (if t < U then busy_status bs t else 0)" for t
  proof (cases "sw_status s = []")
    case True
    then have "busy_status bs T = 0" using busy_status_mset[OF stm] by simp
    then have "T \<le> t \<Longrightarrow> t < U \<Longrightarrow> busy_status bs t = 0" using busy_status_cong[of bs t T] mid by metis
    then show ?thesis using assms(1,4) True by (auto simp: swept_def s'_def)
  next
    case False
    then show ?thesis using sweep_emit_out[OF assms(1) False assms(4) Ur(2) mid] by (simp add: s'_def)
  qed
  have s': "mset (sw_status s') = mset (sw_status s)" "sw_level s' = sw_level s"
    by (simp_all add: s'_def sweep_emit_def Let_def)
  consider (start) "k" "U = sint (m_tmStart b)" "st = m_fbstatus b" | (stop) "\<not> k" "U = sint (m_tmEnd b)" "st = m_fbstatus b"
    using assms(6) by (auto simp: block_events_def)
  then show ?thesis
  proof cases
    case start
    have "mset (filter (\<lambda>b. covers b U) bs) = add_mset b (mset (filter (\<lambda>b. covers b T) bs))"
    proof (rule mset_filter_add[OF db(1) assms(5)])
      show "\<not> covers b T" using start(2) assms(4) by (simp add: covers_def)
      fix c assume c: "c \<in> set bs"
      show "covers c U \<longleftrightarrow> covers c T \<or> c = b"
      proof (cases "c = b")
        case True
        then show ?thesis using start(2) assms(8) by (simp add: covers_def)
      next
        case False
        then show ?thesis using db(2)[OF c assms(5) False] db(2)[OF assms(5) c] ends[OF c] start(2) assms(4)
          by (auto simp: covers_def)
      qed
    qed
    moreover have "sweep_step (U, k, st) s = s'\<lparr>sw_level := sw_level s' + 1, sw_status := sw_status s' @ [st], sw_last := U\<rparr>"
      using start(1) lvl assms(1,4) by (auto simp: s'_def Let_def swept_def)
    ultimately show ?thesis using out s' stm assms(1) Ur start(3) mset_eq_length[OF s'(1)] by (simp add: swept_def)
  next
    case stop
    have add: "mset (filter (\<lambda>b. covers b T) bs) = add_mset b (mset (filter (\<lambda>b. covers b U) bs))"
    proof (rule mset_filter_add[OF db(1) assms(5)])
      show "\<not> covers b U" using stop(2) by (simp add: covers_def)
      fix c assume c: "c \<in> set bs"
      show "covers c T \<longleftrightarrow> covers c U \<or> c = b"
      proof (cases "c = b")
        case True
        then show ?thesis using stop(2) assms(4,8) ends[OF assms(5)] by (auto simp: covers_def)
      next
        case False
        then show ?thesis using db(2)[OF c assms(5) False] db(2)[OF assms(5) c] ends[OF c] stop(2) assms(4)
          by (auto simp: covers_def)
      qed
    qed
    then have "sw_status s \<noteq> []" using stm by auto
    then have "sweep_step (U, k, st) s = s'\<lparr>sw_level := sw_level s' - 1, sw_status := remove1 st (sw_status s'), sw_last := U\<rparr>"
      using stop(1) assms(1,4) by (auto simp: s'_def Let_def swept_def)
    moreover have "length (sw_status s') = Suc (length (remove1 st (sw_status s')))"
    proof -
      have "st \<in> set (sw_status s')" using add stm s'(1) stop(3) by (metis image_mset_add_mset mset_map set_mset_mset union_single_eq_member add_mset_add_single multi_member_last)
      then show ?thesis by (simp add: length_remove1) (metis Suc_pred length_pos_if_in_set)
    qed
    moreover have "sw_level s' = of_nat (length (sw_status s'))" using assms(1) s' mset_eq_length[OF s'(1)] by (simp add: swept_def)
    ultimately show ?thesis using out s' stm add Ur stop(3) by (simp add: swept_def)
  qed
qed

lemma sweep_all:
  assumes "swept bs T s" "distinct (block_times bs)" "length bs < 2 ^ 32"
    and "\<forall>b \<in> set bs. sint (m_tmStart b) < sint (m_tmEnd b)"
    and "sorted_wrt (<) (map fst es)" "set es = {e \<in> (\<Union>b \<in> set bs. block_events b). T < fst e}"
  shows "busy_status (sw_out (fold sweep_step es s)) t = busy_status bs t"
  using assms(1,5,6)
proof (induction es arbitrary: T s)
  case Nil
  have "\<not> covers b t" if "T \<le> t" "b \<in> set bs" for b
  proof
    assume "covers b t"
    then have "(sint (m_tmEnd b), False, m_fbstatus b) \<in> {e \<in> (\<Union>b \<in> set bs. block_events b). T < fst e}"
      using that by (auto simp: covers_def block_events_def)
    then show False unfolding Nil.prems(3)[symmetric] by simp
  qed
  then have "T \<le> t \<Longrightarrow> busy_status bs t = 0" by (auto simp: busy_status_def)
  then show ?case using Nil.prems(1) by (auto simp: swept_def)
next
  case (Cons e es)
  obtain U k st where e: "e = (U, k, st)" by (cases e)
  have "e \<in> {e \<in> (\<Union>b \<in> set bs. block_events b). T < fst e}" using Cons.prems(3) by auto
  then obtain b where b: "b \<in> set bs" "(U, k, st) \<in> block_events b" "T < U" using e by auto
  have later: "x \<le> T \<or> U \<le> x" if x: "x \<in> set (block_times bs)" for x
  proof (rule ccontr)
    assume n: "\<not> ?thesis"
    from x obtain k' st' where "(x, k', st') \<in> (\<Union>b \<in> set bs. block_events b)"
      by (auto simp: block_times_def block_events_def)
    then have "(x, k', st') \<in> set (e # es)" using n unfolding Cons.prems(3) by simp
    then show False using n Cons.prems(2) e by auto
  qed
  have "swept bs U (sweep_step e s)"
    unfolding e by (rule swept_step[OF Cons.prems(1) assms(2,3) b(3,1,2) later]) (use assms(4) b(1) in blast)+
  moreover have "set es = {e \<in> (\<Union>b \<in> set bs. block_events b). U < fst e}"
  proof -
    have gt: "\<forall>x \<in> set es. U < fst x" "e \<notin> set es" using Cons.prems(2) e by auto
    have "x \<in> set es" if x: "x \<in> (\<Union>b \<in> set bs. block_events b)" "U < fst x" for x
    proof -
      have "x \<in> set (e # es)" using x b(3) unfolding Cons.prems(3) by simp
      then show ?thesis using x(2) e by auto
    qed
    moreover have "x \<in> (\<Union>b \<in> set bs. block_events b)" if "x \<in> set es" for x
    proof -
      have "x \<in> set (e # es)" using that by simp
      then show ?thesis unfolding Cons.prems(3) by simp
    qed
    ultimately show ?thesis using gt(1) by blast
  qed
  ultimately show ?case using Cons.IH Cons.prems(2) by simp
qed

lemma HrMergeBlocks_status:
  assumes "distinct (block_times bs)" "\<forall>b \<in> set bs. sint (m_tmStart b) < sint (m_tmEnd b)" "length bs < 2 ^ 32"
  shows "busy_status (HrMergeBlocks bs) t = busy_status bs t"
proof -
  define T :: int where "T = - (2 ^ 31) - 1"
  have T: "T < sint (w :: u32)" for w using sint_range_size[of w] by (simp add: T_def word_size)
  have p: "set (fold put_block bs []) = (\<Union>b \<in> set bs. block_events b)" "sorted_wrt (<) (map fst (fold put_block bs []))"
    using put_blocks[OF assms(1), of "[]"] by simp_all
  have "\<not> covers b u" if "u \<le> T" for b u using T[of "m_tmStart b"] that by (simp add: covers_def)
  then have "swept bs T \<lparr>sw_level = 0, sw_status = [], sw_last = 0, sw_out = []\<rparr>"
    by (simp add: swept_def busy_status_def)
  then show ?thesis
    unfolding HrMergeBlocks_def
  proof (rule sweep_all[OF _ assms(1,3,2) p(2)])
    show "set (fold put_block bs []) = {e \<in> (\<Union>b \<in> set bs. block_events b). T < fst e}"
      unfolding p(1) using T by (auto simp: block_events_def)
  qed
qed

text \<open>
  C7: merging keeps the status of every minute: when no two of the starts and ends coincide, each
  minute has after the merge the highest status that a block gave it before, and no status where no
  block was.
\<close>

theorem merge_keeps_status:
  assumes "distinct (block_times bs)" "\<forall>b \<in> set bs. sint (m_tmStart b) < sint (m_tmEnd b)" "length bs < 2 ^ 32"
  shows "busy_status (HrMergeBlocks bs) t = busy_status bs t"
  using assms by (rule HrMergeBlocks_status)

definition fb :: "int \<Rightarrow> int \<Rightarrow> u32 \<Rightarrow> fb_block" where
  "fb s e st = \<lparr>m_tmStart = of_int s, m_tmEnd = of_int e, m_fbstatus = st\<rparr>"

theorem merge_keeps_status_witness:
  "busy_status (HrMergeBlocks [fb 10 40 fbBusy, fb 20 30 fbOutOfOffice, fb 50 60 fbTentative]) 25 =
   busy_status [fb 10 40 fbBusy, fb 20 30 fbOutOfOffice, fb 50 60 fbTentative] 25"
proof (rule merge_keeps_status)
  show "distinct (block_times [fb 10 40 fbBusy, fb 20 30 fbOutOfOffice, fb 50 60 fbTentative])" by code_simp
  show "\<forall>b \<in> set [fb 10 40 fbBusy, fb 20 30 fbOutOfOffice, fb 50 60 fbTentative]. sint (m_tmStart b) < sint (m_tmEnd b)" by code_simp
qed simp

definition timed_block :: "u32 \<Rightarrow> u32 \<Rightarrow> u32 \<Rightarrow> fb_block" where
  "timed_block s e st = \<lparr>m_tmStart = s, m_tmEnd = e, m_fbstatus = st\<rparr>"

text \<open>
  C37: When an appointment begins where another one ends, the event of the one that is added later replaces that of the
  other. Added in their order, the end of the first is lost: its status stays for good, on the second appointment, on
  the gap behind it and on whatever follows. In the other order the second appointment is lost.
\<close>

theorem merge_back_to_back:
  assumes "sint a < sint b" "sint b < sint c" "sint c < sint d" "sint d < sint e" "s \<noteq> 0"
  shows "HrMergeBlocks [timed_block a b s, timed_block b c s', timed_block d e s''] =
      [timed_block a b s, timed_block b c (max s s'), timed_block c d s, timed_block d e (max s s'')] \<and>
    HrMergeBlocks [timed_block b c s', timed_block a b s] = [timed_block a b s]"
proof -
  have e: "fold put_block [timed_block a b s, timed_block b c s', timed_block d e s''] [] =
      [(sint a, True, s), (sint b, True, s'), (sint c, False, s'), (sint d, True, s''), (sint e, False, s'')]"
    "fold put_block [timed_block b c s', timed_block a b s] [] = [(sint a, True, s), (sint b, False, s), (sint c, False, s')]"
    using assms(1-4) by (simp_all add: put_block_def timed_block_def)
  show ?thesis
    unfolding HrMergeBlocks_def e using assms by (auto simp: sweep_emit_def Let_def timed_block_def max_def)
qed

theorem merge_back_to_back_witness:
  "HrMergeBlocks [timed_block 10 20 fbBusy, timed_block 20 30 fbTentative, timed_block 40 50 fbTentative] =
     [timed_block 10 20 fbBusy, timed_block 20 30 fbBusy, timed_block 30 40 fbBusy, timed_block 40 50 fbBusy] \<and>
   HrMergeBlocks [timed_block 20 30 fbTentative, timed_block 10 20 fbBusy] = [timed_block 10 20 fbBusy]"
proof -
  have m: "max fbBusy fbTentative = fbBusy" "fbBusy \<noteq> 0" by code_simp+
  show ?thesis using merge_back_to_back[of 10 20 30 40 50 fbBusy fbTentative fbTentative] by (simp add: m)
qed

subsection \<open>Enumerating the list\<close>

definition in_start_order :: "fb_block list \<Rightarrow> bool" where
  "in_start_order bs \<longleftrightarrow> sorted_wrt (\<lambda>a b. sint (m_tmStart a) < sint (m_tmStart b)) bs"

lemma fb_insert_set: "set (fb_insert b bs) \<subseteq> insert b (set bs)"
  by (induction b bs rule: fb_insert.induct) auto

lemma fb_insert_order: "in_start_order bs \<Longrightarrow> in_start_order (fb_insert b bs)"
proof (induction b bs rule: fb_insert.induct)
  case (2 b c cs)
  consider "sint (m_tmStart b) < sint (m_tmStart c)" | "m_tmStart b = m_tmStart c"
    | "sint (m_tmStart c) < sint (m_tmStart b)"
    by (metis linorder_neqE_linordered_idom signed_word_eqI)
  then show ?case
  proof cases
    case 1
    then show ?thesis using 2(2) by (auto simp: in_start_order_def dest: less_trans)
  next
    case 3
    then have n: "\<not> sint (m_tmStart b) < sint (m_tmStart c)" "m_tmStart b \<noteq> m_tmStart c" by auto
    then have "in_start_order (fb_insert b cs)" using 2 by (simp add: in_start_order_def)
    then show ?thesis using 3 n 2(2) fb_insert_set[of b cs] by (auto simp: in_start_order_def)
  qed (use 2 in simp)
qed (simp add: in_start_order_def)

lemma fb_merge_starts: "fb_merge b bs = Some cs \<Longrightarrow> map m_tmStart cs = map m_tmStart bs"
  by (induction b bs arbitrary: cs rule: fb_merge.induct) (auto split: if_splits)

lemma in_start_order_starts: "map m_tmStart cs = map m_tmStart bs \<Longrightarrow> in_start_order bs \<Longrightarrow> in_start_order cs"
proof -
  have "in_start_order xs \<longleftrightarrow> sorted_wrt (\<lambda>a b. sint a < sint b) (map m_tmStart xs)" for xs
    by (simp add: in_start_order_def sorted_wrt_map)
  then show "map m_tmStart cs = map m_tmStart bs \<Longrightarrow> in_start_order bs \<Longrightarrow> in_start_order cs" by simp
qed

lemma in_start_order_append: "in_start_order (as @ bs) \<Longrightarrow> in_start_order bs"
  by (simp add: in_start_order_def sorted_wrt_append)

lemma fb_from_begin:
  assumes "in_start_order (as @ bs)"
  shows "fb_from (as @ bs) (fb_begin bs) = bs"
proof (cases bs)
  case (Cons b cs)
  have "m_tmStart a \<noteq> m_tmStart b" if "a \<in> set as" for a
    using assms that Cons by (auto simp: in_start_order_def sorted_wrt_append)
  then have "dropWhile (\<lambda>x. m_tmStart x \<noteq> m_tmStart b) (as @ b # cs) = b # cs"
    by (subst dropWhile_append2) auto
  then show ?thesis using Cons by (simp add: fb_from_def fb_begin_def)
qed (simp add: fb_from_def fb_begin_def)

text \<open>The blocks that an enumeration from the start of the restriction returns.\<close>

definition fb_cap :: "fb_list \<Rightarrow> fb_block \<Rightarrow> fb_block" where
  "fb_cap l b = (if sint (m_tmStart b) < sint (m_tmRestictStart l) then b\<lparr>m_tmStart := m_tmRestictStart l\<rparr> else b)"

definition fb_rest :: "fb_list \<Rightarrow> fb_block list \<Rightarrow> fb_block list" where
  "fb_rest l bs = map (fb_cap l) (takeWhile (\<lambda>b. \<not> past_restrict l b) bs)"

definition fb_view :: "fb_list \<Rightarrow> fb_block list" where
  "fb_view l = fb_rest l (from_restrict (m_tmRestictStart l) (m_FBMap l))"

lemma from_restrict_suffix: "\<exists>as. bs = as @ from_restrict rs bs"
proof (cases "rs = 0")
  case False
  then show ?thesis using takeWhile_dropWhile_id[of "\<lambda>b. \<not> m_tmEnd b > rs" bs] by (metis from_restrict_def)
qed (simp add: from_restrict_def)

text \<open>An enumeration that stands before the blocks \<open>bs\<close>.\<close>

definition stands :: "fb_list \<Rightarrow> fb_block list \<Rightarrow> bool" where
  "stands l bs \<longleftrightarrow> in_start_order (m_FBMap l) \<and>
     (\<exists>as. m_FBMap (fb_init l) = as @ bs \<and> m_FBIter (fb_init l) = fb_begin bs)"

lemma init_simps [simp]:
  "m_FBMap (fb_init l) = m_FBMap l" "m_bInitIter (fb_init l)" "m_tmRestictStart (fb_init l) = m_tmRestictStart l"
  "m_tmRestictEnd (fb_init l) = m_tmRestictEnd l" "fb_init (fb_init l) = fb_init l"
  by (simp_all add: fb_init_def fb_Restrict_def)

lemma past_init [simp]: "past_restrict (fb_init l) = past_restrict l"
  by (rule ext) (simp add: past_restrict_def)

lemma stands_reset: "in_start_order (m_FBMap l) \<Longrightarrow> stands (fb_Reset l) (from_restrict (m_tmRestictStart l) (m_FBMap l))"
  using from_restrict_suffix[of "m_FBMap l" "m_tmRestictStart l"]
  by (auto simp: stands_def fb_init_def fb_Reset_def fb_Restrict_def)

text \<open>The lists between which an enumeration moves.\<close>

definition same_list :: "fb_list \<Rightarrow> fb_list \<Rightarrow> bool" where
  "same_list l l' \<longleftrightarrow> m_FBMap l' = m_FBMap l \<and> m_tmRestictStart l' = m_tmRestictStart l \<and> m_tmRestictEnd l' = m_tmRestictEnd l"

lemma Next_stands:
  assumes "stands l bs"
  shows "case fb_rest l bs of
      [] \<Rightarrow> (\<exists>l'. fb_Next l = ((MAPI_E_NOT_FOUND, None), l') \<and> same_list l l')
    | x # xs \<Rightarrow> (\<exists>l' cs. fb_Next l = ((hrSuccess, Some x), l') \<and> same_list l l' \<and> stands l' cs \<and> xs = fb_rest l' cs \<and> length cs < length bs)"
proof -
  from assms obtain as where as: "m_FBMap (fb_init l) = as @ bs" "m_FBIter (fb_init l) = fb_begin bs" "in_start_order (as @ bs)"
    by (auto simp: stands_def)
  have f: "fb_from (m_FBMap (fb_init l)) (m_FBIter (fb_init l)) = bs"
    unfolding as(1,2) by (rule fb_from_begin[OF as(3)])
  show ?thesis
  proof (cases bs)
    case Nil
    then show ?thesis using f by (simp add: fb_rest_def fb_Next_def Let_def same_list_def)
  next
    case (Cons b cs)
    show ?thesis
    proof (cases "past_restrict l b")
      case True
      then show ?thesis using f Cons by (simp add: fb_rest_def fb_Next_def Let_def same_list_def)
    next
      case False
      let ?l = "fb_init l\<lparr>m_FBIter := fb_begin cs\<rparr>"
      have i: "fb_init ?l = ?l" by (simp add: fb_init_def fb_Restrict_def)
      have m: "m_FBMap l = as @ b # cs" using as(1) Cons by simp
      then have st: "stands ?l cs" using as Cons unfolding stands_def i by (intro conjI exI[of _ "as @ [b]"]) simp_all
      moreover have "past_restrict ?l = past_restrict l" "fb_cap ?l = fb_cap l" by (rule ext, simp add: past_restrict_def fb_cap_def)+
      ultimately show ?thesis using f Cons False
        by (auto simp: fb_rest_def fb_Next_def Let_def same_list_def fb_cap_def)
    qed
  qed
qed

lemma rest_same: "same_list l l' \<Longrightarrow> fb_rest l' = fb_rest l"
  unfolding fb_rest_def by (intro ext arg_cong2[of _ _ _ _ map] arg_cong2[of _ _ _ _ takeWhile])
    (auto simp: same_list_def past_restrict_def fb_cap_def fun_eq_iff)

lemma same_list_trans: "same_list l m \<Longrightarrow> same_list m n \<Longrightarrow> same_list l n"
  by (simp add: same_list_def)

lemma fetch_stands:
  "stands l bs \<Longrightarrow> fst (fb_fetch n l) = take n (fb_rest l bs) \<and> same_list l (snd (fb_fetch n l))"
proof (induction n arbitrary: l bs)
  case (Suc n)
  note N = Next_stands[OF Suc.prems]
  show ?case
  proof (cases "fb_rest l bs")
    case Nil
    then show ?thesis using N by auto
  next
    case (Cons x xs)
    then obtain l' cs where l': "fb_Next l = ((hrSuccess, Some x), l')" "same_list l l'" "stands l' cs" "xs = fb_rest l' cs"
      using N by auto
    show ?thesis using Suc.IH[OF l'(3)] l' Cons same_list_trans[OF l'(2)]
      by (cases "fb_fetch n l'") simp
  qed
qed (simp add: same_list_def)

lemma fb_view_reset [simp]: "fb_view (fb_Reset l) = fb_view l"
  by (simp add: fb_view_def fb_rest_def fb_Reset_def fb_cap_def[abs_def] past_restrict_def[abs_def])

lemma reset_view:
  assumes "in_start_order (m_FBMap l)"
  obtains bs where "stands (fb_Reset l) bs" "fb_rest (fb_Reset l) bs = fb_view l" "length bs \<le> length (m_FBMap l)"
proof
  show "stands (fb_Reset l) (from_restrict (m_tmRestictStart l) (m_FBMap l))" by (rule stands_reset[OF assms])
  show "fb_rest (fb_Reset l) (from_restrict (m_tmRestictStart l) (m_FBMap l)) = fb_view l"
    unfolding fb_view_def by (simp add: fb_rest_def fb_Reset_def fb_cap_def[abs_def] past_restrict_def[abs_def])
  show "length (from_restrict (m_tmRestictStart l) (m_FBMap l)) \<le> length (m_FBMap l)"
    by (simp add: from_restrict_def length_dropWhile_le)
qed

text \<open>
  On a list whose blocks are in the order of their starts, the calls of \<open>Next\<close> after a \<open>Reset\<close>
  return the blocks that the restriction admits, one by one and cut at its start, and \<open>Size\<close> is their
  number.
\<close>

theorem enumeration_returns_view:
  assumes "in_start_order (m_FBMap l)"
  shows "fst (fb_fetch n (fb_Reset l)) = take n (fb_view l) \<and> fb_Size l = length (fb_view l)"
proof -
  from reset_view[OF assms] obtain bs where "stands (fb_Reset l) bs" "fb_rest (fb_Reset l) bs = fb_view l" .
  then show ?thesis using fetch_stands[of "fb_Reset l" bs n] by (simp add: fb_Size_def fb_view_def fb_rest_def)
qed

definition fb_demo :: fb_list where
  "fb_demo = fb_Restrict (PublishBlocks ECFBBlockList [fb 50 60 fbBusy, fb 10 20 fbTentative, fb 25 40 fbBusy]) 30 55"

theorem enumeration_returns_view_witness:
  "fst (fb_fetch 5 (fb_Reset fb_demo)) = [fb 30 40 fbBusy, fb 50 60 fbBusy] \<and> fb_Size fb_demo = 2"
proof -
  have "in_start_order (m_FBMap fb_demo)" "fb_view fb_demo = [fb 30 40 fbBusy, fb 50 60 fbBusy]" by code_simp+
  then show ?thesis using enumeration_returns_view[of fb_demo 5] by simp
qed

subsection \<open>Finding a free slot\<close>

definition overlaps :: "u32 \<Rightarrow> u32 \<Rightarrow> fb_block \<Rightarrow> bool" where
  "overlaps ulBegin ulEnd b \<longleftrightarrow> sint (m_tmEnd b) > sint (ulBegin + 1) \<and> sint (m_tmStart b) < sint ulEnd"

definition rising :: "fb_block list \<Rightarrow> bool" where
  "rising bs \<longleftrightarrow> sorted_wrt (\<lambda>a b. sint (m_tmStart a) \<le> sint (m_tmStart b)) bs"

lemma overlap_loop_view:
  "stands l bs \<Longrightarrow> rising (fb_rest l bs) \<Longrightarrow> length bs < n \<Longrightarrow>
   fst (overlap_loop n ulBegin ulEnd l) \<longleftrightarrow> (\<exists>b \<in> set (fb_rest l bs). overlaps ulBegin ulEnd b)"
proof (induction n arbitrary: l bs)
  case (Suc n)
  note N = Next_stands[OF Suc.prems(1)]
  show ?case
  proof (cases "fb_rest l bs")
    case Nil
    then show ?thesis using N by auto
  next
    case (Cons x xs)
    then obtain l' cs where l': "fb_Next l = ((hrSuccess, Some x), l')" "stands l' cs" "xs = fb_rest l' cs" "length cs < length bs"
      using N by auto
    have r: "rising xs" "\<forall>b \<in> set xs. sint (m_tmStart x) \<le> sint (m_tmStart b)" using Suc.prems(2) Cons by (auto simp: rising_def)
    have "sint ulEnd \<le> sint (m_tmStart x) \<Longrightarrow> \<forall>b \<in> set (x # xs). \<not> overlaps ulBegin ulEnd b"
      using r(2) by (auto simp: overlaps_def)
    then show ?thesis using Suc.IH[OF l'(2)] l' r(1) Suc.prems(3) Cons by (auto simp: overlaps_def)
  qed
qed simp

lemma view_rising:
  assumes "in_start_order (m_FBMap l)"
  shows "rising (fb_view l)"
proof -
  let ?bs = "takeWhile (\<lambda>b. \<not> past_restrict l b) (from_restrict (m_tmRestictStart l) (m_FBMap l))"
  have "in_start_order (from_restrict (m_tmRestictStart l) (m_FBMap l))"
    using from_restrict_suffix[of "m_FBMap l" "m_tmRestictStart l"] assms in_start_order_append by metis
  then have "in_start_order ?bs" unfolding in_start_order_def by (metis sorted_wrt_append takeWhile_dropWhile_id)
  then have "sorted_wrt (\<lambda>a b. sint (m_tmStart (fb_cap l a)) \<le> sint (m_tmStart (fb_cap l b))) ?bs"
    unfolding in_start_order_def by (rule sorted_wrt_mono_rel[rotated]) (auto simp: fb_cap_def)
  then show ?thesis by (simp add: rising_def fb_view_def fb_rest_def sorted_wrt_map)
qed

text \<open>
  C9: \<open>FindFreeBlock\<close> returns a slot exactly when the minutes fit between the begin and the end and no
  block that the restriction admits overlaps the time from the begin to the end; the slot is free and
  starts a minute after the begin.
\<close>

theorem FindFreeBlock_exact:
  assumes "in_start_order (m_FBMap (m_fbBlockList d))"
  shows "fst (FindFreeBlock d ulBegin ulMinutes ulEnd) =
    (if sint (ulBegin + 1 + ulMinutes) \<le> sint ulEnd \<and> (\<forall>b \<in> set (fb_view (m_fbBlockList d)). \<not> overlaps ulBegin ulEnd b)
     then (hrSuccess, Some \<lparr>m_tmStart = ulBegin + 1, m_tmEnd = ulBegin + 1 + ulMinutes, m_fbstatus = fbFree\<rparr>)
     else (MAPI_E_NOT_FOUND, None))"
proof -
  let ?l = "m_fbBlockList d"
  from reset_view[OF assms] obtain bs where bs: "stands (fb_Reset ?l) bs" "fb_rest (fb_Reset ?l) bs = fb_view ?l"
    "length bs \<le> length (m_FBMap ?l)" .
  have "fst (overlap_loop (Suc (length (m_FBMap (fb_Reset ?l)))) ulBegin ulEnd (fb_Reset ?l)) \<longleftrightarrow>
      (\<exists>b \<in> set (fb_view ?l). overlaps ulBegin ulEnd b)"
    unfolding bs(2)[symmetric]
    by (rule overlap_loop_view[OF bs(1)]) (use view_rising[OF assms] bs(2,3) in \<open>simp_all add: fb_Reset_def\<close>)
  then show ?thesis by (auto simp: FindFreeBlock_def Let_def not_less split: prod.splits)
qed

theorem FindFreeBlock_exact_witness:
  "fst (FindFreeBlock (ECFreeBusyData\<lparr>m_fbBlockList := fb_demo\<rparr>) 40 5 50) = (hrSuccess, Some (fb 41 46 fbFree)) \<and>
   fst (FindFreeBlock (ECFreeBusyData\<lparr>m_fbBlockList := fb_demo\<rparr>) 38 5 50) = (MAPI_E_NOT_FOUND, None)"
proof -
  have "in_start_order (m_FBMap fb_demo)" "fb_view fb_demo = [fb 30 40 fbBusy, fb 50 60 fbBusy]" by code_simp+
  then show ?thesis
    using FindFreeBlock_exact[of "ECFreeBusyData\<lparr>m_fbBlockList := fb_demo\<rparr>" 40 5 50]
      FindFreeBlock_exact[of "ECFreeBusyData\<lparr>m_fbBlockList := fb_demo\<rparr>" 38 5 50]
    by (simp add: overlaps_def fb_def)
qed

end
