(* ===== verification/Free_Busy_Props.thy ===== *)
theory Free_Busy_Props
  imports Free_Busy_Facts Time_Facts
begin

text \<open>
  The monthly event properties: what \<open>CreateFBProp\<close> writes, \<open>ParseFBEvents\<close> reads back. Months are
  counted from January 1900, and a block is the list of its pieces in the months that it touches.
\<close>

subsection \<open>Minutes of a month\<close>

definition month_of :: "tm \<Rightarrow> int" where
  "month_of t = 12 * tm_year t + tm_mon t"

definition month_start :: "int \<Rightarrow> int" where
  "month_start k = timegm_day (k div 12) (k mod 12) 1"

definition month_len :: "int \<Rightarrow> u16" where
  "month_len k = of_int (month_lens (k div 12 + 1900) ! nat (k mod 12) * 1440)"

definition month_code :: "int \<Rightarrow> u32" where
  "month_code k = FB_YEARMONTH (k div 12 + 1900) (k mod 12 + 1)"

definition start_tm :: "fb_block \<Rightarrow> tm" where
  "start_tm b = gmtime_safe (RTimeToUnixTime (m_tmStart b))"

definition end_tm :: "fb_block \<Rightarrow> tm" where
  "end_tm b = gmtime_safe (RTimeToUnixTime (m_tmEnd b))"

lemma month_of_gmtime:
  "month_of (gmtime_safe t) div 12 = tm_year (gmtime_safe t)" "month_of (gmtime_safe t) mod 12 = tm_mon (gmtime_safe t)"
  using gmtime_spec(2,3)[of t] by (simp_all add: month_of_def)

lemma month_len_uint: "uint (month_len k) = month_lens (k div 12 + 1900) ! nat (k mod 12) * 1440"
proof -
  have "28 \<le> month_lens (k div 12 + 1900) ! nat (k mod 12)" "month_lens (k div 12 + 1900) ! nat (k mod 12) \<le> 31"
    using month_lens_bounds[of "nat (k mod 12)" "k div 12 + 1900"] by (simp_all add: nat_less_iff)
  then show ?thesis unfolding month_len_def uint_word_of_int_eq by (intro take_bit_int_eq_self) simp_all
qed

lemma month_len_pos: "0 < uint (month_len k)"
  using month_lens_bounds(1)[of "nat (k mod 12)" "k div 12 + 1900"] by (simp add: month_len_uint nat_less_iff)

lemma month_start_Suc: "month_start (k + 1) = month_start k + 60 * uint (month_len k)"
proof -
  have n: "timegm_day (k div 12) (k mod 12) 1 + month_lens (k div 12 + 1900) ! nat (k mod 12) * 86400 =
      timegm_day (k div 12) (k mod 12 + 1) 1" by (rule timegm_next_month) simp_all
  have "month_start (k + 1) = timegm_day (k div 12) (k mod 12 + 1) 1"
  proof (cases "k mod 12 = 11")
    case True
    then have "(k + 1) mod 12 = 0" "(k + 1) div 12 = k div 12 + 1" using div_step[of 12 k] mod_add_left_eq[of k 12 1] by simp_all
    then show ?thesis using True by (simp add: month_start_def timegm_day_carry)
  next
    case False
    then have "k mod 12 + 1 < 12" using pos_mod_bound[of 12 k] by linarith
    then have "(k + 1) mod 12 = k mod 12 + 1" "(k + 1) div 12 = k div 12"
      using div_step[of 12 k] mod_add_left_eq[of k 12 1] by simp_all
    then show ?thesis by (simp add: month_start_def)
  qed
  then show ?thesis using n by (simp add: month_start_def month_len_uint)
qed

lemma month_start_mono: "j \<le> k \<Longrightarrow> month_start j \<le> month_start k"
proof (induction "nat (k - j)" arbitrary: k)
  case (Suc n)
  then have "month_start j \<le> month_start (k - 1)" by (intro Suc.hyps(1)) auto
  then show ?case using month_start_Suc[of "k - 1"] month_len_pos[of "k - 1"] by simp
qed simp

lemma month_start_less: "j < k \<Longrightarrow> month_start j < month_start k"
  using month_start_mono[of "j + 1" k] month_start_Suc[of j] month_len_pos[of j] by simp

lemma month_start_bounds:
  "month_start (month_of (gmtime_safe t)) \<le> t" "t < month_start (month_of (gmtime_safe t) + 1)"
proof -
  define g where "g = gmtime_safe t"
  have spec: "t = timegm_day (tm_year g) (tm_mon g) (tm_mday g) + 3600 * tm_hour g + 60 * tm_min g + tm_sec g"
    "0 \<le> tm_sec g" "tm_sec g < 60" "0 \<le> tm_hour g" "tm_hour g < 24" "0 \<le> tm_min g" "tm_min g < 60" "1 \<le> tm_mday g"
    "tm_mday g \<le> month_lens (tm_year g + 1900) ! nat (tm_mon g)"
    unfolding g_def by (fact gmtime_spec)+
  have m: "month_of g div 12 = tm_year g" "month_of g mod 12 = tm_mon g" by (simp_all add: g_def month_of_gmtime)
  have s: "timegm_day (tm_year g) (tm_mon g) (tm_mday g) = month_start (month_of g) + (tm_mday g - 1) * 86400"
    unfolding month_start_def m by (rule timegm_day_shift)
  have l: "60 * uint (month_len (month_of g)) = month_lens (tm_year g + 1900) ! nat (tm_mon g) * 86400"
    by (simp add: month_len_uint m)
  have "a \<le> t" "t < a + L * 86400"
    if "t = a + (d - 1) * 86400 + 3600 * h + 60 * m + c" "0 \<le> c" "c < 60" "0 \<le> h" "h < 24" "0 \<le> m" "m < 60" "1 \<le> d" "d \<le> L"
    for a d h m c L :: int
  proof -
    define x where "x = 3600 * h + 60 * m + c"
    have "0 \<le> x" "x < 86400" using that(2-7) by (simp_all add: x_def)
    moreover have "(d - 1) * 86400 + 86400 \<le> L * 86400" "0 \<le> (d - 1) * 86400" using that(8,9) by simp_all
    moreover have "t = a + (d - 1) * 86400 + x" using that(1) by (simp add: x_def)
    ultimately show "a \<le> t" "t < a + L * 86400" by simp_all
  qed
  note this[OF spec(1)[unfolded s] spec(2-9)]
  then have "month_start (month_of g) \<le> t" "t < month_start (month_of g + 1)"
    unfolding month_start_Suc l by simp_all
  then show "month_start (month_of (gmtime_safe t)) \<le> t" "t < month_start (month_of (gmtime_safe t) + 1)"
    by (simp_all add: g_def)
qed

lemma month_of_mono:
  assumes "s \<le> t"
  shows "month_of (gmtime_safe s) \<le> month_of (gmtime_safe t)"
proof (rule ccontr)
  assume "\<not> ?thesis"
  then have "month_start (month_of (gmtime_safe t) + 1) \<le> month_start (month_of (gmtime_safe s))"
    by (intro month_start_mono) simp
  then show False using month_start_bounds(1)[of s] month_start_bounds(2)[of t] assms by simp
qed

lemma leapyear_leap: "leapyear y = leap y"
  using dvd_trans[of 4 400 y] by (auto simp: leapyear_def leap_def dvd_eq_mod_eq_0)

lemma max_minutes:
  assumes "1601 \<le> y" "0 \<le> m" "m < 12"
  shows "snd (getMaxMonthMinutes y m e) = of_int (month_lens y ! nat m * 1440)"
proof -
  have "m = 0 \<or> m = 1 \<or> m = 2 \<or> m = 3 \<or> m = 4 \<or> m = 5 \<or> m = 6 \<or> m = 7 \<or> m = 8 \<or> m = 9 \<or> m = 10 \<or> m = 11"
    using assms(2,3) by presburger
  then show ?thesis using assms(1) by (elim disjE) (simp_all add: getMaxMonthMinutes_def month_lens_def leapyear_leap)
qed

lemma getMaxMonthMinutes_len:
  assumes "1601 \<le> k div 12 + 1900"
  shows "snd (getMaxMonthMinutes (k div 12 + 1900) (k mod 12) e) = month_len k"
  unfolding month_len_def by (rule max_minutes[OF assms]) simp_all

text \<open>A time in minutes since 1601 is a month and a minute of it.\<close>

lemma rtime_minutes:
  assumes "0 \<le> sint r"
  shows "60 * sint r - 11644473600 = month_start (month_of (gmtime_safe (RTimeToUnixTime r))) +
    60 * uint (month_minutes (gmtime_safe (RTimeToUnixTime r)))"
proof -
  define t g where "t = RTimeToUnixTime r" and "g = gmtime_safe t"
  have t: "t = 60 * sint r - 11644473600" by (simp add: t_def RTimeToUnixTime_eq)
  have spec: "t = timegm_day (tm_year g) (tm_mon g) (tm_mday g) + 3600 * tm_hour g + 60 * tm_min g + tm_sec g"
    "0 \<le> tm_sec g" "tm_sec g < 60" "0 \<le> tm_hour g" "tm_hour g < 24" "0 \<le> tm_min g" "tm_min g < 60" "1 \<le> tm_mday g"
    "tm_mday g \<le> month_lens (tm_year g + 1900) ! nat (tm_mon g)" "0 \<le> tm_mon g" "tm_mon g < 12"
    unfolding g_def by (fact gmtime_spec)+
  have "nat (tm_mon g) < 12" using spec(10,11) by simp
  then have d: "tm_mday g \<le> 31" using spec(9) month_lens_bounds(2)[of "nat (tm_mon g)" "tm_year g + 1900"] by linarith
  define q where "q = timegm_day (tm_year g) (tm_mon g) (tm_mday g) div 86400"
  have q: "timegm_day (tm_year g) (tm_mon g) (tm_mday g) = q * 86400"
    using timegm_day_mod[of "tm_year g" "tm_mon g" "tm_mday g"] div_mult_mod_eq[of "timegm_day (tm_year g) (tm_mon g) (tm_mday g)" 86400]
    by (simp add: q_def)
  have "tm_sec g = (sint r - 194074560 - q * 1440 - 60 * tm_hour g - tm_min g) * 60" using spec(1) t q by simp
  then have "60 dvd tm_sec g" by simp
  then have sec: "tm_sec g = 0" using spec(2,3) zdvd_not_zless[of "tm_sec g" 60] by linarith
  have "uint (month_minutes g) = (tm_mday g - 1) * 1440 + tm_hour g * 60 + tm_min g"
  proof -
    have "0 \<le> (tm_mday g - 1) * 24 * 60 + tm_hour g * 60 + tm_min g" "(tm_mday g - 1) * 24 * 60 + tm_hour g * 60 + tm_min g < 65536"
      using spec(4-8) d by simp_all
    then have "uint (month_minutes g) = (tm_mday g - 1) * 24 * 60 + tm_hour g * 60 + tm_min g"
      unfolding month_minutes_def uint_word_of_int_eq by (intro take_bit_int_eq_self) simp_all
    then show ?thesis by simp
  qed
  moreover have "timegm_day (tm_year g) (tm_mon g) (tm_mday g) = month_start (month_of g) + (tm_mday g - 1) * 86400"
    using timegm_day_shift[of "tm_year g" "tm_mon g" "tm_mday g"] month_of_gmtime[of t]
    unfolding month_start_def g_def[symmetric] by simp
  ultimately have "t = month_start (month_of g) + 60 * uint (month_minutes g)"
    using spec(1) sec by (simp add: algebra_simps)
  then show ?thesis unfolding t_def[symmetric] g_def[symmetric] t[symmetric] .
qed

lemma UnixTimeToRTime_minutes:
  assumes "0 \<le> q" "q < 2 ^ 31"
  shows "UnixTimeToRTime (60 * q - 11644473600) = of_int q"
proof -
  have "(60 * q - 11644473600 + 11644473630) div 60 = q" by simp
  then show ?thesis using assms by (subst UnixTimeToRTime_eq) simp_all
qed

lemma sint_of_minutes: "0 \<le> q \<Longrightarrow> q < 2 ^ 31 \<Longrightarrow> sint (of_int q :: u32) = q"
  by (simp add: sint_sbintrunc' signed_take_bit_int_eq_self)

lemma month_code_parts:
  assumes "0 \<le> k" "k div 12 + 1900 < 4096"
  shows "FB_YEAR (month_code k) = k div 12 + 1900" "FB_MONTH (month_code k) = k mod 12 + 1"
proof -
  define Y M :: u16 where "Y = of_int (k div 12 + 1900)" and "M = of_int (k mod 12 + 1)"
  have "0 \<le> k div 12" using assms(1) by (rule pos_imp_zdiv_nonneg_iff[THEN iffD2, rotated]) simp
  then have Y: "uint Y = k div 12 + 1900" unfolding Y_def uint_word_of_int_eq using assms(2) by (intro take_bit_int_eq_self) simp_all
  have "0 \<le> k mod 12" "k mod 12 < 12" by simp_all
  then have M: "uint M = k mod 12 + 1" unfolding M_def uint_word_of_int_eq by (intro take_bit_int_eq_self) simp_all
  have bits: "\<not> bit w n" if "uint w < 2 ^ j" "j \<le> n" for w :: u16 and j n
  proof -
    have "(2 :: int) ^ j \<le> 2 ^ n" using that(2) by (rule power_increasing) simp
    then have "uint w div 2 ^ n = 0" using that(1) uint_ge_0[of w] by (intro div_pos_pos_trivial) linarith+
    then have "\<not> bit (uint w) n" by (simp add: bit_iff_odd)
    then show ?thesis using bit_imp_le_length[of w n] by (auto simp: bit_uint_iff)
  qed
  have bY: "n < 12" if "bit Y n" for n
    using bits[of Y 12 n] that Y assms(2) by (cases "12 \<le> n") simp_all
  have bM: "n < 4" if "bit M n" for n
    using bits[of M 4 n] that M \<open>k mod 12 < 12\<close> by (cases "4 \<le> n") simp_all
  have hi: "(0xFFF0 :: u32) = push_bit 4 (mask 12)" and lo: "(0x000F :: u16) = mask 4" by (simp_all add: mask_eq_exp_minus_1 push_bit_eq_mult)
  have "drop_bit 4 (ucast ((push_bit 4 (ucast Y) AND 0xFFF0) OR ucast M :: u32) :: u16) = Y"
    unfolding hi by (rule bit_word_eqI) (use bY bM in \<open>auto simp: bit_simps\<close>)
  moreover have "(ucast ((push_bit 4 (ucast Y) AND 0xFFF0) OR ucast M :: u32) :: u16) AND 0x000F = M"
    unfolding hi lo by (rule bit_word_eqI) (use bM in \<open>auto simp: bit_simps not_le\<close>)
  ultimately show "FB_YEAR (month_code k) = k div 12 + 1900" "FB_MONTH (month_code k) = k mod 12 + 1"
    unfolding month_code_def FB_YEARMONTH_def FB_YEAR_def FB_MONTH_def Y_def[symmetric] M_def[symmetric]
    using Y M by (simp_all only:)
qed

subsection \<open>Writing\<close>

text \<open>The pieces of a block: month and first and last minute in it.\<close>

definition pieces :: "fb_block \<Rightarrow> (int \<times> u16 \<times> u16) list" where
  "pieces b =
     (let i = month_of (start_tm b); j = month_of (end_tm b);
          s = month_minutes (start_tm b); e = month_minutes (end_tm b)
      in if i < j then (i, s, month_len i) # map (\<lambda>k. (k, 0, month_len k)) [i + 1..j - 1] @ [(j, 0, e)]
         else [(i, s, e)])"

definition coded :: "(int \<times> u16 \<times> u16) list \<Rightarrow> (u32 \<times> u16 \<times> u16) list" where
  "coded = map (\<lambda>(k, ev). (month_code k, ev))"

definition flat :: "fb_prop \<Rightarrow> (u32 \<times> u16 \<times> u16) list" where
  "flat p = concat (map (\<lambda>(m, evs). map (Pair m) evs) p)"

lemma flat_append [simp]: "flat (p @ q) = flat p @ flat q"
  by (simp add: flat_def)

lemma add_event_flat:
  assumes "p \<noteq> []"
  shows "\<exists>p'. add_event ev p = Some p' \<and> flat p' = flat p @ [(fst (last p), ev)] \<and> length p' = length p \<and> fst (last p') = fst (last p) \<and> p' \<noteq> []"
proof -
  obtain q m evs where p: "p = q @ [(m, evs)]" using assms by (metis rev_exhaust surj_pair)
  then show ?thesis by (simp add: add_event_def flat_def)
qed

lemma new_month_flat:
  assumes "length p < unat U + 1"
  shows "\<exists>p'. new_month U (k div 12) (k mod 12) p = Some p' \<and> flat p' = flat p \<and> length p' = Suc (length p) \<and> fst (last p') = month_code k \<and> p' \<noteq> []"
  using assms by (simp add: new_month_def flat_def month_code_def)

lemma next_month_code: "next_month (k div 12, k mod 12) = ((k + 1) div 12, (k + 1) mod 12)"
proof (cases "k mod 12 = 11")
  case True
  then have "(k + 1) mod 12 = 0" "(k + 1) div 12 = k div 12 + 1" using div_step[of 12 k] mod_add_left_eq[of k 12 1] by simp_all
  then show ?thesis using True by (simp add: next_month_def)
next
  case False
  then have "k mod 12 + 1 < 12" using pos_mod_bound[of 12 k] by linarith
  then have "(k + 1) mod 12 = k mod 12 + 1" "(k + 1) div 12 = k div 12"
    using div_step[of 12 k] mod_add_left_eq[of k 12 1] by simp_all
  then show ?thesis using \<open>k mod 12 + 1 < 12\<close> by (simp add: next_month_def)
qed

lemma upto_from: "[k + 1..k + 1 + int n] = (k + 1) # [k + 2..k + 1 + int n]"
  using upto_rec1[of "k + 1" "k + 1 + int n"] by (simp add: add.assoc)

lemma full_months_flat:
  assumes "length p + n \<le> unat U" "0 \<le> k"
  shows "\<exists>e' p'. full_months n U (k div 12, k mod 12) e p = Some (((k + int n) div 12, (k + int n) mod 12), e', p') \<and>
    flat p' = flat p @ coded (map (\<lambda>k. (k, 0, month_len k)) [k + 1..k + int n]) \<and> length p' = length p + n \<and>
    (p \<noteq> [] \<longrightarrow> p' \<noteq> [])"
  using assms
proof (induction n arbitrary: k e p)
  case (Suc n)
  obtain p1 where p1: "new_month U ((k + 1) div 12) ((k + 1) mod 12) p = Some p1" "flat p1 = flat p"
    "length p1 = Suc (length p)" "fst (last p1) = month_code (k + 1)" "p1 \<noteq> []"
    using new_month_flat[of p U "k + 1"] Suc.prems(1) by auto
  have y: "1601 \<le> (k + 1) div 12 + 1900"
    using Suc.prems(2) pos_imp_zdiv_nonneg_iff[of 12 "k + 1"] by simp
  obtain p2 where p2: "add_event (0, month_len (k + 1)) p1 = Some p2"
    "flat p2 = flat p @ [(month_code (k + 1), 0, month_len (k + 1))]" "length p2 = Suc (length p)" "p2 \<noteq> []"
    using add_event_flat[OF p1(5), of "(0, month_len (k + 1))"] p1 by auto
  from Suc.IH[of p2 "k + 1" "month_len (k + 1)"] Suc.prems p2(3) obtain e' p' where
    f: "full_months n U ((k + 1) div 12, (k + 1) mod 12) (month_len (k + 1)) p2 =
      Some (((k + 1 + int n) div 12, (k + 1 + int n) mod 12), e', p')"
    "flat p' = flat p2 @ coded (map (\<lambda>k. (k, 0, month_len k)) [k + 1 + 1..k + 1 + int n])" "length p' = length p2 + n"
    "p' \<noteq> []" using p2(4) by auto
  have "full_months (Suc n) U (k div 12, k mod 12) e p = Some (((k + 1 + int n) div 12, (k + 1 + int n) mod 12), e', p')"
    using Suc.prems(1) p1(1) p2(1) f(1) getMaxMonthMinutes_len[OF y, of e]
    by (simp add: next_month_code Let_def)
  moreover have "flat p' = flat p @ coded (map (\<lambda>k. (k, 0, month_len k)) [k + 1..k + 1 + int n])"
    unfolding upto_from using f(2) p2(2) by (simp add: coded_def add.assoc)
  ultimately show ?case using f(3,4) p2(3) by (simp add: add.assoc)
qed (simp add: coded_def)

text \<open>What the loop has written: the months so far begin with \<open>F\<close>, the last one is \<open>L\<close>.\<close>

definition written :: "u32 \<Rightarrow> int \<Rightarrow> int \<Rightarrow> fbp_state \<Rightarrow> bool" where
  "written U F L s \<longleftrightarrow>
     (if fbp_prop s = [] then fbp_lastYear s = 0 \<and> fbp_lastMonth s = 0
      else fbp_lastYear s = L div 12 \<and> fbp_lastMonth s = L mod 12 \<and> fst (last (fbp_prop s)) = month_code L \<and>
        int (length (fbp_prop s)) \<le> L - F + 1)"

lemma diff_months:
  assumes "month_of a \<le> month_of b" "month_of b - month_of a < 2 ^ 31" "0 \<le> tm_mon a" "tm_mon a < 12" "0 \<le> tm_mon b" "tm_mon b < 12"
  shows "sint (DiffYearMonthToMonth a b) = month_of b - month_of a"
proof -
  have "DiffYearMonthToMonth a b = of_int (month_of b - month_of a)"
    using assms(1,3-6) by (auto simp: DiffYearMonthToMonth_def month_of_def algebra_simps)
  then show ?thesis using assms(1,2) sint_of_minutes[of "month_of b - month_of a"] by (simp only:)
qed

lemma unat_of_sint:
  assumes "0 < sint (U :: u32)"
  shows "int (unat U) = sint U"
proof -
  have "sint U < 2 ^ 31" using sint_range_size[of U] by (simp add: word_size)
  then have "uint (of_int (sint U) :: u32) = sint U" using assms unfolding uint_word_of_int_eq by (intro take_bit_int_eq_self) simp_all
  then show ?thesis by simp
qed

text \<open>The blocks that the properties can express: from 1901 on and before the year 4096.\<close>

definition fits_months :: "fb_block \<Rightarrow> bool" where
  "fits_months b \<longleftrightarrow> 0 \<le> sint (m_tmStart b) \<and> sint (m_tmStart b) < sint (m_tmEnd b) \<and>
     0 < tm_year (start_tm b) \<and> tm_year (end_tm b) + 1900 < 4096"

lemma tm_parts:
  "tm_year (start_tm b) = month_of (start_tm b) div 12" "tm_mon (start_tm b) = month_of (start_tm b) mod 12"
  "tm_year (end_tm b) = month_of (end_tm b) div 12" "tm_mon (end_tm b) = month_of (end_tm b) mod 12"
  by (simp_all add: start_tm_def end_tm_def month_of_gmtime)

lemma fits_months_order: "fits_months b \<Longrightarrow> month_of (start_tm b) \<le> month_of (end_tm b)"
  unfolding start_tm_def end_tm_def by (rule month_of_mono) (simp add: fits_months_def RTimeToUnixTime_eq)

lemma later_month:
  fixes i j :: int
  assumes "i \<le> j"
  shows "j div 12 > i div 12 \<or> j mod 12 > i mod 12 \<longleftrightarrow> i < j"
proof -
  have "i div 12 \<le> j div 12" using assms by (rule zdiv_mono1) simp
  then show ?thesis using div_mult_mod_eq[of i 12] div_mult_mod_eq[of j 12] by presburger
qed

lemma start_month:
  assumes "written U F L s" "fbp_prop s \<noteq> [] \<longrightarrow> L \<le> i" "F \<le> i" "i - F < int (unat U)" "0 < i div 12"
  shows "\<exists>p. (if i div 12 > fbp_lastYear s \<or> i mod 12 > fbp_lastMonth s
      then new_month U (i div 12) (i mod 12) (fbp_prop s) else Some (fbp_prop s)) = Some p \<and>
    flat p = flat (fbp_prop s) \<and> fst (last p) = month_code i \<and> int (length p) \<le> i - F + 1 \<and> p \<noteq> []"
proof (cases "fbp_prop s = []")
  case True
  then have "fbp_lastYear s = 0" using assms(1) by (simp add: written_def)
  then show ?thesis using new_month_flat[of "fbp_prop s" U i] assms(3,5) True by auto
next
  case False
  then have w: "fbp_lastYear s = L div 12" "fbp_lastMonth s = L mod 12" "fst (last (fbp_prop s)) = month_code L"
    "int (length (fbp_prop s)) \<le> L - F + 1" using assms(1) by (simp_all add: written_def)
  have L: "L \<le> i" using assms(2) False by blast
  show ?thesis
  proof (cases "L < i")
    case True
    then have "length (fbp_prop s) < unat U + 1" using w(4) assms(4) by linarith
    from new_month_flat[OF this, of i] show ?thesis
      unfolding w(1,2) later_month[OF L] using True w(4) by (auto simp: not_less)
  next
    case False
    then show ?thesis unfolding w(1,2) later_month[OF L] using w L \<open>fbp_prop s \<noteq> []\<close> by auto
  qed
qed

lemma fbp_block_written:
  assumes "written U F L s" "fits_months b" "fbp_prop s \<noteq> [] \<longrightarrow> L \<le> month_of (start_tm b)"
    and "F \<le> month_of (start_tm b)" "month_of (end_tm b) - F < sint U"
  shows "\<exists>s'. fbp_block U b s = Some s' \<and> written U F (month_of (end_tm b)) s' \<and>
    flat (fbp_prop s') = flat (fbp_prop s) @ coded (pieces b) \<and> fbp_prop s' \<noteq> [] \<and> fbp_found s'"
proof -
  define i j where "i = month_of (start_tm b)" and "j = month_of (end_tm b)"
  have ij: "i \<le> j" using fits_months_order[OF assms(2)] by (simp add: i_def j_def)
  have y: "0 < i div 12" using assms(2) tm_parts(1)[of b] by (simp add: fits_months_def i_def)
  have F: "F \<le> i" "j - F < sint U" "fbp_prop s \<noteq> [] \<longrightarrow> L \<le> i" using assms by (simp_all add: i_def j_def)
  have U: "int (unat U) = sint U" using F ij by (intro unat_of_sint) linarith
  have c: "i - F < int (unat U)" using F(2) ij U by linarith
  obtain p1 where p1: "(if i div 12 > fbp_lastYear s \<or> i mod 12 > fbp_lastMonth s
      then new_month U (i div 12) (i mod 12) (fbp_prop s) else Some (fbp_prop s)) = Some p1"
    "flat p1 = flat (fbp_prop s)" "fst (last p1) = month_code i" "int (length p1) \<le> i - F + 1" "p1 \<noteq> []"
    using start_month[OF assms(1) F(3,1) c y] by auto
  note parts = tm_parts[of b, folded i_def j_def]
  show ?thesis
  proof (cases "i < j")
    case False
    then have e: "i = j" using ij by simp
    obtain p2 where p2: "add_event (month_minutes (start_tm b), month_minutes (end_tm b)) p1 = Some p2"
      "flat p2 = flat p1 @ [(month_code i, month_minutes (start_tm b), month_minutes (end_tm b))]"
      "length p2 = length p1" "fst (last p2) = month_code i" "p2 \<noteq> []"
      using add_event_flat[OF p1(5)] p1(3) by metis
    have "fbp_block U b s = Some \<lparr>fbp_prop = p2, fbp_lastYear = j div 12, fbp_lastMonth = j mod 12, fbp_found = True,
        fbp_end = month_minutes (end_tm b)\<rparr>"
      using p1(1) p2(1) False unfolding fbp_block_def Let_def start_tm_def[symmetric] end_tm_def[symmetric] parts later_month[OF ij]
      by simp
    then show ?thesis using p1 p2 e False
      by (auto simp: written_def pieces_def coded_def i_def[symmetric] j_def[symmetric] Let_def)
  next
    case True
    obtain p2 where p2: "add_event (month_minutes (start_tm b), month_len i) p1 = Some p2"
      "flat p2 = flat p1 @ [(month_code i, month_minutes (start_tm b), month_len i)]" "length p2 = length p1" "p2 \<noteq> []"
      using add_event_flat[OF p1(5)] p1(3) by metis
    have i0: "0 \<le> i" "1601 \<le> i div 12 + 1900" using y by (simp_all add: pos_imp_zdiv_pos_iff)
    have n: "int (nat (j - i - 1)) = j - i - 1" using True by simp
    have "length p2 + nat (j - i - 1) \<le> unat U" using p2(3) p1(4) F(2) U n by linarith
    from full_months_flat[OF this i0(1), of "month_len i"] obtain e' p3 where
      p3: "full_months (nat (j - i - 1)) U (i div 12, i mod 12) (month_len i) p2 = Some (((j - 1) div 12, (j - 1) mod 12), e', p3)"
      "flat p3 = flat p2 @ coded (map (\<lambda>k. (k, 0, month_len k)) [i + 1..j - 1])" "length p3 = length p2 + nat (j - i - 1)"
      unfolding n by auto
    have "length p3 < unat U + 1" using p3(3) p2(3) p1(4) F(2) U n by linarith
    from new_month_flat[OF this, of j] obtain p4 where
      p4: "new_month U (j div 12) (j mod 12) p3 = Some p4" "flat p4 = flat p3" "length p4 = Suc (length p3)"
      "fst (last p4) = month_code j" "p4 \<noteq> []" by auto
    obtain p5 where p5: "add_event (0, month_minutes (end_tm b)) p4 = Some p5"
      "flat p5 = flat p4 @ [(month_code j, 0, month_minutes (end_tm b))]" "length p5 = length p4"
      "fst (last p5) = month_code j" "p5 \<noteq> []"
      using add_event_flat[OF p4(5)] p4(4) by metis
    have "sint (DiffYearMonthToMonth (start_tm b) (end_tm b)) = j - i"
    proof -
      have "sint U < 2 ^ 31" using sint_range_size[of U] by (simp add: word_size)
      then have "j - i < 2 ^ 31" using F by linarith
      then show ?thesis using diff_months[of "start_tm b" "end_tm b"] True parts by (simp add: i_def[symmetric] j_def[symmetric])
    qed
    then have "fbp_block U b s = Some \<lparr>fbp_prop = p5, fbp_lastYear = j div 12, fbp_lastMonth = j mod 12, fbp_found = True,
        fbp_end = month_minutes (end_tm b)\<rparr>"
      using p1(1) p2(1) p3(1) p4(1) p5(1) True getMaxMonthMinutes_len[OF i0(2)] next_month_code[of "j - 1"]
      unfolding fbp_block_def Let_def start_tm_def[symmetric] end_tm_def[symmetric] parts later_month[OF ij]
      by (simp add: parts)
    moreover have "int (length p5) \<le> j - F + 1" using p5(3) p4(3) p3(3) p2(3) p1(4) n by linarith
    moreover have "flat p5 = flat (fbp_prop s) @ coded (pieces b)"
      using p5(2) p4(2) p3(2) p2(2) p1(2) True by (simp add: pieces_def coded_def i_def[symmetric] j_def[symmetric] Let_def)
    ultimately show ?thesis using p5(4,5) by (auto simp: written_def j_def[symmetric])
  qed
qed

text \<open>Blocks apart from each other, each before the next.\<close>

definition apart :: "fb_block list \<Rightarrow> bool" where
  "apart bs \<longleftrightarrow> sorted_wrt (\<lambda>a b. sint (m_tmEnd a) < sint (m_tmStart b)) bs"

lemma apart_month:
  assumes "sint (m_tmEnd a) < sint (m_tmStart b)"
  shows "month_of (end_tm a) \<le> month_of (start_tm b)"
  unfolding start_tm_def end_tm_def by (rule month_of_mono) (use assms in \<open>simp add: RTimeToUnixTime_eq\<close>)

lemma fbp_loop_written:
  assumes "stands l bs" "length bs < n" "st \<noteq> fbZarafaAllBusy" "0 < sint U"
    and "xs = filter (\<lambda>b. m_fbstatus b = st) (fb_rest l bs)" "\<forall>b \<in> set xs. fits_months b" "apart xs"
    and "\<forall>b \<in> set xs. F \<le> month_of (start_tm b) \<and> month_of (end_tm b) - F < sint U"
    and "written U F L s" "fbp_prop s \<noteq> [] \<longrightarrow> L - F < sint U \<and> (\<forall>b \<in> set xs. L \<le> month_of (start_tm b))"
  shows "\<exists>s' l'. fbp_loop n st U l s = Some (s', l') \<and> flat (fbp_prop s') = flat (fbp_prop s) @ coded (concat (map pieces xs)) \<and>
    fbp_found s' = (fbp_found s \<or> xs \<noteq> [])"
  using assms
proof (induction n arbitrary: l bs xs L s)
  case (Suc n)
  note N = Next_stands[OF Suc.prems(1)]
  show ?case
  proof (cases "fb_rest l bs")
    case Nil
    then show ?thesis using N Suc.prems(5) by (auto simp: coded_def)
  next
    case (Cons x ys)
    then obtain l' cs where l': "fb_Next l = ((hrSuccess, Some x), l')" "stands l' cs" "ys = fb_rest l' cs" "length cs < n"
      using N Suc.prems(2) by fastforce
    have guard: "int (length (fbp_prop s)) - 1 < sint U"
    proof (cases "fbp_prop s = []")
      case False
      then have "int (length (fbp_prop s)) \<le> L - F + 1" "L - F < sint U" using Suc.prems(9,10) by (simp_all add: written_def)
      then show ?thesis by linarith
    qed (use Suc.prems(4) in simp)
    define zs where "zs = filter (\<lambda>b. m_fbstatus b = st) (fb_rest l' cs)"
    show ?thesis
    proof (cases "m_fbstatus x = st")
      case False
      then have "xs = zs" using Suc.prems(5) Cons l'(3) by (simp add: zs_def)
      then show ?thesis
        using Suc.IH[OF l'(2,4) Suc.prems(3,4) zs_def, of L s] Suc.prems(6-10) l'(1) guard False Suc.prems(3) by simp
    next
      case True
      then have xs: "xs = x # zs" using Suc.prems(5) Cons l'(3) by (simp add: zs_def)
      have x: "fits_months x" "F \<le> month_of (start_tm x)" "month_of (end_tm x) - F < sint U"
        "fbp_prop s \<noteq> [] \<longrightarrow> L \<le> month_of (start_tm x)" using Suc.prems(6,8,10) xs by simp_all
      obtain s1 where s1: "fbp_block U x s = Some s1" "written U F (month_of (end_tm x)) s1"
        "flat (fbp_prop s1) = flat (fbp_prop s) @ coded (pieces x)" "fbp_prop s1 \<noteq> []" "fbp_found s1"
        using fbp_block_written[OF Suc.prems(9) x(1,4,2,3)] by blast
      have z: "apart zs" "\<forall>b \<in> set zs. month_of (end_tm x) \<le> month_of (start_tm b)"
        using Suc.prems(7) xs apart_month[of x] by (auto simp: apart_def)
      from Suc.IH[OF l'(2,4) Suc.prems(3,4) zs_def _ z(1) _ s1(2)] Suc.prems(6,8) x(3) z(2) s1(4) xs obtain s' l'' where
        "fbp_loop n st U l' s1 = Some (s', l'')" "flat (fbp_prop s') = flat (fbp_prop s1) @ coded (concat (map pieces zs))"
        "fbp_found s'" using s1(5) by auto
      then show ?thesis using l'(1) guard True s1(1,3) xs by (auto simp: coded_def)
    qed
  qed
qed simp

subsection \<open>Reading\<close>

definition rtime_in :: "int \<Rightarrow> u16 \<Rightarrow> u32" where
  "rtime_in k m = UnixTimeToRTime (month_start k + uint m * 60)"

lemma parse_event_month:
  assumes "0 \<le> k" "k div 12 + 1900 < 4096"
  shows "parse_event st (month_code k) (s, e) (blk, l) =
    (let blk' = \<lparr>m_tmStart = rtime_in k s, m_tmEnd = rtime_in k e, m_fbstatus = st\<rparr>
     in (blk', if m_tmEnd blk = rtime_in k s then snd (fb_Merge l blk') else fb_Add l blk'))"
  using month_code_parts[OF assms] by (simp add: parse_event_def Let_def rtime_in_def month_start_def)

lemma rtime_of_minutes: "0 \<le> sint r \<Longrightarrow> rtime_in (month_of (gmtime_safe (RTimeToUnixTime r))) (month_minutes (gmtime_safe (RTimeToUnixTime r))) = r"
proof -
  assume r: "0 \<le> sint r"
  have "sint r < 2 ^ 31" using sint_range_size[of r] by (simp add: word_size)
  then show ?thesis
    unfolding rtime_in_def using rtime_minutes[OF r] UnixTimeToRTime_minutes[OF r] by (simp add: mult.commute)
qed

lemma rtime_in_len: "rtime_in k (month_len k) = rtime_in (k + 1) 0"
  by (simp add: rtime_in_def month_start_Suc mult.commute)

lemma rtime_in_between:
  assumes "fits_months b" "month_of (start_tm b) < k" "k \<le> month_of (end_tm b)"
  shows "sint (m_tmStart b) < sint (rtime_in k 0)"
proof -
  have st: "0 \<le> sint (m_tmStart b)" "sint (m_tmEnd b) < 2 ^ 31"
    using assms(1) sint_range_size[of "m_tmEnd b"] by (simp_all add: fits_months_def word_size)
  define q where "q = month_start k div 60 + 194074560"
  have "month_start k mod 86400 = 0" by (simp add: month_start_def timegm_day_mod)
  then have "60 dvd month_start k" using dvd_trans[of 60 86400 "month_start k"] by (simp add: dvd_eq_mod_eq_0)
  then have q: "month_start k = 60 * q - 11644473600" by (simp add: q_def)
  have "RTimeToUnixTime (m_tmStart b) < month_start k"
    using month_start_bounds(2)[of "RTimeToUnixTime (m_tmStart b)"] month_start_mono[of "month_of (start_tm b) + 1" k] assms(2)
    by (simp add: start_tm_def)
  then have lo: "sint (m_tmStart b) < q" by (simp add: RTimeToUnixTime_eq q)
  have "month_start k \<le> RTimeToUnixTime (m_tmEnd b)"
    using month_start_bounds(1)[of "RTimeToUnixTime (m_tmEnd b)"] month_start_mono[OF assms(3)] by (simp add: end_tm_def)
  then have "q < 2 ^ 31" using st(2) by (simp add: RTimeToUnixTime_eq q)
  then show ?thesis using lo st(1) by (simp add: rtime_in_def q UnixTimeToRTime_minutes sint_of_minutes)
qed

lemma fb_insert_last: "\<forall>a \<in> set bs. sint (m_tmStart a) < sint (m_tmStart b) \<Longrightarrow> fb_insert b bs = bs @ [b]"
  by (induction b bs rule: fb_insert.induct) auto

lemma fb_merge_last:
  "\<forall>a \<in> set bs. m_tmEnd a \<noteq> m_tmStart b \<Longrightarrow> m_tmEnd c = m_tmStart b \<Longrightarrow>
   fb_merge b (bs @ [c]) = Some (bs @ [c\<lparr>m_tmEnd := m_tmEnd b\<rparr>])"
  by (induction bs) auto

text \<open>A block whose end is the start of month \<open>k\<close> grows with the events of the months from \<open>k\<close> on.\<close>

abbreviation parse_all :: "u32 \<Rightarrow> (u32 \<times> u16 \<times> u16) list \<Rightarrow> fb_block \<times> fb_list \<Rightarrow> fb_block \<times> fb_list" where
  "parse_all st \<equiv> fold (\<lambda>(m, ev). parse_event st m ev)"

lemma grow_step:
  assumes "0 \<le> k" "k div 12 + 1900 < 4096" "m_tmEnd blk = rtime_in k 0" "m_FBMap l = bs @ [c]" "m_tmEnd c = rtime_in k 0"
    and "\<forall>a \<in> set bs. m_tmEnd a \<noteq> rtime_in k 0"
  shows "parse_event st (month_code k) (0, e) (blk, l) =
    (\<lparr>m_tmStart = rtime_in k 0, m_tmEnd = rtime_in k e, m_fbstatus = st\<rparr>, l\<lparr>m_FBMap := bs @ [c\<lparr>m_tmEnd := rtime_in k e\<rparr>]\<rparr>)"
  using parse_event_month[OF assms(1,2)] assms(3-6) fb_merge_last[of bs] by (simp add: Let_def fb_Merge_def)

lemma grow_months:
  assumes "0 \<le> k" "(k + int n) div 12 + 1900 < 4096" "m_tmEnd blk = rtime_in (k + 1) 0" "m_FBMap l = bs @ [c]"
    and "m_tmEnd c = rtime_in (k + 1) 0" "\<forall>i. k < i \<and> i \<le> k + int n \<longrightarrow> (\<forall>a \<in> set bs. m_tmEnd a \<noteq> rtime_in i 0)"
  shows "\<exists>blk'. parse_all st (coded (map (\<lambda>k. (k, 0, month_len k)) [k + 1..k + int n])) (blk, l) =
    (blk', l\<lparr>m_FBMap := bs @ [c\<lparr>m_tmEnd := rtime_in (k + int n + 1) 0\<rparr>]\<rparr>) \<and> m_tmEnd blk' = rtime_in (k + int n + 1) 0"
  using assms
proof (induction n arbitrary: k blk l c)
  case 0
  have "l\<lparr>m_FBMap := bs @ [c\<lparr>m_tmEnd := rtime_in (k + 1) 0\<rparr>]\<rparr> = l" using 0(4,5) by simp
  then show ?case using 0 by (simp add: coded_def)
next
  case (Suc n)
  have d: "(k + 1) div 12 + 1900 < 4096"
    using Suc.prems(2) zdiv_mono1[of "k + 1" "k + int (Suc n)" 12] by simp
  define l1 where "l1 = l\<lparr>m_FBMap := bs @ [c\<lparr>m_tmEnd := rtime_in (k + 2) 0\<rparr>]\<rparr>"
  define blk1 where "blk1 = \<lparr>m_tmStart = rtime_in (k + 1) 0, m_tmEnd = rtime_in (k + 2) 0, m_fbstatus = st\<rparr>"
  have "parse_event st (month_code (k + 1)) (0, month_len (k + 1)) (blk, l) = (blk1, l1)"
    using grow_step[of "k + 1" blk l bs c st "month_len (k + 1)"] Suc.prems d rtime_in_len[of "k + 1"]
    by (simp add: l1_def blk1_def add.assoc)
  moreover have "\<exists>blk'. parse_all st (coded (map (\<lambda>k. (k, 0, month_len k)) [k + 1 + 1..k + 1 + int n])) (blk1, l1) =
    (blk', l1\<lparr>m_FBMap := bs @ [c\<lparr>m_tmEnd := rtime_in (k + 2) 0, m_tmEnd := rtime_in (k + 1 + int n + 1) 0\<rparr>]\<rparr>) \<and>
    m_tmEnd blk' = rtime_in (k + 1 + int n + 1) 0"
    using Suc.prems by (intro Suc.IH) (simp_all add: l1_def blk1_def add.assoc)
  moreover have "[k + 1..k + int (Suc n)] = (k + 1) # [k + 1 + 1..k + 1 + int n]"
    using upto_from[of k n] by (simp add: add.assoc)
  ultimately show ?case by (simp add: coded_def l1_def add.assoc)
qed

lemma parse_pieces:
  assumes "fits_months b" "\<forall>a \<in> set (m_FBMap l). sint (m_tmStart a) < sint (m_tmStart b) \<and> sint (m_tmEnd a) < sint (m_tmStart b)"
    and "m_tmEnd blk \<noteq> m_tmStart b"
  shows "\<exists>blk'. parse_all st (coded (pieces b)) (blk, l) = (blk', l\<lparr>m_FBMap := m_FBMap l @ [b\<lparr>m_fbstatus := st\<rparr>]\<rparr>) \<and>
    m_tmEnd blk' = m_tmEnd b"
proof -
  define i j bs where "i = month_of (start_tm b)" and "j = month_of (end_tm b)" and "bs = m_FBMap l"
  have ij: "i \<le> j" using fits_months_order[OF assms(1)] by (simp add: i_def j_def)
  have "0 < i div 12" "j div 12 + 1900 < 4096" using assms(1) tm_parts[of b] by (simp_all add: fits_months_def i_def j_def)
  then have i0: "0 \<le> i" and j0: "j div 12 + 1900 < 4096" by (simp_all add: pos_imp_zdiv_pos_iff)
  then have i1: "i div 12 + 1900 < 4096" using zdiv_mono1[OF ij, of 12] by simp
  have s: "rtime_in i (month_minutes (start_tm b)) = m_tmStart b"
    unfolding i_def start_tm_def using assms(1) by (intro rtime_of_minutes) (simp add: fits_months_def)
  have e: "rtime_in j (month_minutes (end_tm b)) = m_tmEnd b"
    unfolding j_def end_tm_def using assms(1) by (intro rtime_of_minutes) (simp add: fits_months_def)
  have ins: "fb_insert c bs = bs @ [c]" if "m_tmStart c = m_tmStart b" for c
    by (rule fb_insert_last) (use assms(2) that in \<open>auto simp: bs_def\<close>)
  have ends: "m_tmEnd a \<noteq> rtime_in k 0" if "a \<in> set bs" "i < k" "k \<le> j" for a k
    using rtime_in_between[OF assms(1), of k] assms(2) that by (auto simp: i_def j_def bs_def)
  show ?thesis
  proof (cases "i < j")
    case False
    then have "i = j" using ij by simp
    then show ?thesis
      using parse_event_month[OF i0 i1, of st "month_minutes (start_tm b)" "month_minutes (end_tm b)" blk l] s e assms(3) False
      by (simp add: pieces_def coded_def i_def[symmetric] j_def[symmetric] Let_def fb_Add_def bs_def[symmetric] ins)
  next
    case True
    define c where "c = b\<lparr>m_tmEnd := rtime_in (i + 1) 0, m_fbstatus := st\<rparr>"
    define blk1 where "blk1 = \<lparr>m_tmStart = m_tmStart b, m_tmEnd = rtime_in (i + 1) 0, m_fbstatus = st\<rparr>"
    have first: "parse_event st (month_code i) (month_minutes (start_tm b), month_len i) (blk, l) = (blk1, l\<lparr>m_FBMap := bs @ [c]\<rparr>)"
      using parse_event_month[OF i0 i1, of st "month_minutes (start_tm b)" "month_len i" blk l] s assms(3) rtime_in_len[of i]
      by (simp add: Let_def fb_Add_def bs_def[symmetric] ins c_def blk1_def)
    have n: "i + int (nat (j - i - 1)) = j - 1" using True by simp
    have "(j - 1) div 12 \<le> j div 12" by (rule zdiv_mono1) simp_all
    then have "\<exists>blk'. parse_all st (coded (map (\<lambda>k. (k, 0, month_len k)) [i + 1..i + int (nat (j - i - 1))])) (blk1, l\<lparr>m_FBMap := bs @ [c]\<rparr>) =
        (blk', l\<lparr>m_FBMap := bs @ [c], m_FBMap := bs @ [c\<lparr>m_tmEnd := rtime_in (i + int (nat (j - i - 1)) + 1) 0\<rparr>]\<rparr>) \<and>
        m_tmEnd blk' = rtime_in (i + int (nat (j - i - 1)) + 1) 0"
      by (intro grow_months) (use i0 j0 ends n in \<open>auto simp: blk1_def c_def\<close>)
    then obtain blk2 where mid: "parse_all st (coded (map (\<lambda>k. (k, 0, month_len k)) [i + 1..j - 1])) (blk1, l\<lparr>m_FBMap := bs @ [c]\<rparr>) =
        (blk2, l\<lparr>m_FBMap := bs @ [c\<lparr>m_tmEnd := rtime_in j 0\<rparr>]\<rparr>)" "m_tmEnd blk2 = rtime_in j 0"
      unfolding n by auto
    have last: "parse_event st (month_code j) (0, month_minutes (end_tm b)) (blk2, l\<lparr>m_FBMap := bs @ [c\<lparr>m_tmEnd := rtime_in j 0\<rparr>]\<rparr>) =
        (\<lparr>m_tmStart = rtime_in j 0, m_tmEnd = m_tmEnd b, m_fbstatus = st\<rparr>, l\<lparr>m_FBMap := bs @ [c\<lparr>m_tmEnd := m_tmEnd b\<rparr>]\<rparr>)"
      using grow_step[of j blk2 "l\<lparr>m_FBMap := bs @ [c\<lparr>m_tmEnd := rtime_in j 0\<rparr>]\<rparr>" bs "c\<lparr>m_tmEnd := rtime_in j 0\<rparr>" st "month_minutes (end_tm b)"]
        i0 ij j0 mid(2) ends True e by simp
    have "coded (pieces b) = (month_code i, month_minutes (start_tm b), month_len i) #
        coded (map (\<lambda>k. (k, 0, month_len k)) [i + 1..j - 1]) @ [(month_code j, 0, month_minutes (end_tm b))]"
      using True by (simp add: pieces_def coded_def i_def[symmetric] j_def[symmetric] Let_def)
    moreover have "c\<lparr>m_tmEnd := m_tmEnd b\<rparr> = b\<lparr>m_fbstatus := st\<rparr>" by (simp add: c_def)
    ultimately show ?thesis using first mid(1) last by (simp add: bs_def)
  qed
qed

lemma parse_blocks:
  assumes "\<forall>b \<in> set xs. fits_months b" "apart xs"
    and "\<forall>a \<in> set (m_FBMap l). \<forall>b \<in> set xs. sint (m_tmStart a) < sint (m_tmStart b) \<and> sint (m_tmEnd a) < sint (m_tmStart b)"
    and "\<forall>b \<in> set xs. m_tmEnd blk \<noteq> m_tmStart b"
  shows "\<exists>blk'. parse_all st (coded (concat (map pieces xs))) (blk, l) =
    (blk', l\<lparr>m_FBMap := m_FBMap l @ map (\<lambda>b. b\<lparr>m_fbstatus := st\<rparr>) xs\<rparr>)"
  using assms
proof (induction xs arbitrary: blk l)
  case (Cons b xs)
  have "\<exists>blk'. parse_all st (coded (pieces b)) (blk, l) = (blk', l\<lparr>m_FBMap := m_FBMap l @ [b\<lparr>m_fbstatus := st\<rparr>]\<rparr>) \<and>
    m_tmEnd blk' = m_tmEnd b" by (rule parse_pieces) (use Cons.prems in auto)
  then obtain blk' where b: "parse_all st (coded (pieces b)) (blk, l) = (blk', l\<lparr>m_FBMap := m_FBMap l @ [b\<lparr>m_fbstatus := st\<rparr>]\<rparr>)"
    "m_tmEnd blk' = m_tmEnd b" by blast
  have after: "\<forall>x \<in> set xs. sint (m_tmEnd b) < sint (m_tmStart x)" using Cons.prems(2) by (simp add: apart_def)
  moreover have "sint (m_tmStart b) < sint (m_tmEnd b)" using Cons.prems(1) by (simp add: fits_months_def)
  ultimately have "\<exists>blk''. parse_all st (coded (concat (map pieces xs))) (blk', l\<lparr>m_FBMap := m_FBMap l @ [b\<lparr>m_fbstatus := st\<rparr>]\<rparr>) =
    (blk'', l\<lparr>m_FBMap := m_FBMap l @ [b\<lparr>m_fbstatus := st\<rparr>],
       m_FBMap := (m_FBMap l @ [b\<lparr>m_fbstatus := st\<rparr>]) @ map (\<lambda>b. b\<lparr>m_fbstatus := st\<rparr>) xs\<rparr>)"
    using Cons.IH[of "l\<lparr>m_FBMap := m_FBMap l @ [b\<lparr>m_fbstatus := st\<rparr>]\<rparr>" blk'] Cons.prems b(2)
    by (fastforce simp: apart_def)
  then show ?case using b(1) by (auto simp: coded_def)
qed (simp add: coded_def)

lemma fold_flat:
  "fold (\<lambda>(m, evs). fold (parse_event st m) evs) (zip (map fst p) (map snd p)) x = parse_all st (flat p) x"
proof (induction p arbitrary: x)
  case (Cons a p)
  have "fold (parse_event st m) evs y = parse_all st (map (Pair m) evs) y" for m evs y
    by (induction evs arbitrary: y) simp_all
  then show ?case using Cons by (cases a) (simp add: flat_def)
qed (simp add: flat_def)

subsection \<open>The round trip\<close>

lemma CreateFBProp_written:
  assumes "in_start_order (m_FBMap l)" "st \<noteq> fbZarafaAllBusy" "0 < sint U"
    and "xs = filter (\<lambda>b. m_fbstatus b = st) (fb_view l)" "xs \<noteq> []" "\<forall>b \<in> set xs. fits_months b" "apart xs"
    and "\<forall>a \<in> set xs. \<forall>b \<in> set xs. month_of (end_tm b) - month_of (start_tm a) < sint U"
  shows "\<exists>p l'. CreateFBProp junk st U l = Some (Inr p, l') \<and> flat p = coded (concat (map pieces xs))"
proof -
  from reset_view[OF assms(1)] obtain bs where bs: "stands (fb_Reset l) bs" "fb_rest (fb_Reset l) bs = fb_view l"
    "length bs \<le> length (m_FBMap l)" .
  obtain x ys where x: "xs = x # ys" using assms(5) by (cases xs) auto
  define s0 where "s0 = \<lparr>fbp_prop = [], fbp_lastYear = 0, fbp_lastMonth = 0, fbp_found = False, fbp_end = junk\<rparr>"
  have first: "month_of (start_tm x) \<le> month_of (start_tm b)" if "b \<in> set xs" for b
  proof (cases "b = x")
    case False
    then have "sint (m_tmEnd x) < sint (m_tmStart b)" using that assms(7) x by (auto simp: apart_def)
    then have "month_of (end_tm x) \<le> month_of (start_tm b)" by (rule apart_month)
    then show ?thesis using fits_months_order[of x] assms(6) x by simp
  qed simp
  have "\<exists>s' l'. fbp_loop (length (m_FBMap (fb_Reset l)) + 2) st U (fb_Reset l) s0 = Some (s', l') \<and>
      flat (fbp_prop s') = flat (fbp_prop s0) @ coded (concat (map pieces xs)) \<and> fbp_found s' = (fbp_found s0 \<or> xs \<noteq> [])"
  proof (rule fbp_loop_written[OF bs(1) _ assms(2,3) _ assms(6,7), where F = "month_of (start_tm x)" and L = 0])
    show "length bs < length (m_FBMap (fb_Reset l)) + 2" using bs(3) by (simp add: fb_Reset_def)
    show "xs = filter (\<lambda>b. m_fbstatus b = st) (fb_rest (fb_Reset l) bs)" using assms(4) bs(2) by simp
    show "\<forall>b \<in> set xs. month_of (start_tm x) \<le> month_of (start_tm b) \<and> month_of (end_tm b) - month_of (start_tm x) < sint U"
      using first assms(8) x by auto
  qed (simp_all add: s0_def written_def)
  then show ?thesis using assms(5) by (auto simp: CreateFBProp_def Let_def s0_def flat_def)
qed

text \<open>
  C8: the blocks of a status that \<open>CreateFBProp\<close> writes month by month are the blocks that
  \<open>ParseFBEvents\<close> reads from what was written, also blocks over several months: blocks that do not
  touch, from 1901 on and before the year 4096, in no more months than the property has room for.
\<close>

theorem monthly_events_round_trip:
  assumes "in_start_order (m_FBMap l)" "st \<noteq> fbZarafaAllBusy" "0 < sint U"
    and "xs = filter (\<lambda>b. m_fbstatus b = st) (fb_view l)" "xs \<noteq> []" "\<forall>b \<in> set xs. fits_months b" "apart xs"
    and "\<forall>a \<in> set xs. \<forall>b \<in> set xs. month_of (end_tm b) - month_of (start_tm a) < sint U"
  shows "\<exists>p l'. CreateFBProp junk st U l = Some (Inr p, l') \<and>
    (\<exists>l2. ParseFBEvents st (map fst p) (map snd p) ECFBBlockList = (hrSuccess, l2) \<and> m_FBMap l2 = xs)"
proof -
  from CreateFBProp_written[OF assms] obtain p l' where
    p: "CreateFBProp junk st U l = Some (Inr p, l')" "flat p = coded (concat (map pieces xs))" by blast
  have pos: "0 < sint (m_tmStart b)" if "b \<in> set xs" for b
  proof (rule ccontr)
    assume n: "\<not> ?thesis"
    have b: "0 \<le> sint (m_tmStart b)" "0 < tm_year (start_tm b)" using assms(6) that by (auto simp: fits_months_def)
    then have "m_tmStart b = 0" using n by (intro signed_word_eqI) simp
    then have "tm_year (start_tm b) = tm_year (gmtime_safe (- 11644473600))" by (simp add: start_tm_def RTimeToUnixTime_eq)
    also have "\<dots> = - 299" by code_simp
    finally show False using b(2) by simp
  qed
  then have ne: "\<forall>b \<in> set xs. m_tmEnd \<lparr>m_tmStart = 0, m_tmEnd = 0, m_fbstatus = 0\<rparr> \<noteq> m_tmStart b" by (force dest: pos)
  have "\<exists>blk'. parse_all st (coded (concat (map pieces xs))) (\<lparr>m_tmStart = 0, m_tmEnd = 0, m_fbstatus = 0\<rparr>, ECFBBlockList) =
      (blk', ECFBBlockList\<lparr>m_FBMap := m_FBMap ECFBBlockList @ map (\<lambda>b. b\<lparr>m_fbstatus := st\<rparr>) xs\<rparr>)"
    by (rule parse_blocks[OF assms(6,7) _ ne]) (simp add: ECFBBlockList_def)
  moreover have "map (\<lambda>b. b\<lparr>m_fbstatus := st\<rparr>) xs = xs" by (rule map_idI) (use assms(4) in auto)
  ultimately show ?thesis using p by (auto simp: ParseFBEvents_def fold_flat ECFBBlockList_def)
qed

text \<open>An hour on 15 November 2014, and from 30 December 2014 to 2 February 2015.\<close>

definition fb_months :: fb_list where
  "fb_months = PublishBlocks ECFBBlockList [fb 217739520 217788480 fbBusy, fb 217675260 217675320 fbBusy]"

theorem monthly_events_round_trip_witness:
  "\<exists>p l'. CreateFBProp 0 fbBusy 6 fb_months = Some (Inr p, l') \<and>
    (\<exists>l2. ParseFBEvents fbBusy (map fst p) (map snd p) ECFBBlockList = (hrSuccess, l2) \<and>
      m_FBMap l2 = [fb 217675260 217675320 fbBusy, fb 217739520 217788480 fbBusy])"
proof (rule monthly_events_round_trip)
  show "in_start_order (m_FBMap fb_months)" "fbBusy \<noteq> fbZarafaAllBusy" by code_simp+
  show "[fb 217675260 217675320 fbBusy, fb 217739520 217788480 fbBusy] = filter (\<lambda>b. m_fbstatus b = fbBusy) (fb_view fb_months)"
    by code_simp
  show "\<forall>b \<in> set [fb 217675260 217675320 fbBusy, fb 217739520 217788480 fbBusy]. fits_months b" by code_simp
  show "apart [fb 217675260 217675320 fbBusy, fb 217739520 217788480 fbBusy]" by code_simp
  show "\<forall>a \<in> set [fb 217675260 217675320 fbBusy, fb 217739520 217788480 fbBusy].
    \<forall>b \<in> set [fb 217675260 217675320 fbBusy, fb 217739520 217788480 fbBusy]. month_of (end_tm b) - month_of (start_tm a) < sint (6 :: u32)"
  proof -
    have "month_of (start_tm (fb 217675260 217675320 fbBusy)) = 1378" "month_of (end_tm (fb 217675260 217675320 fbBusy)) = 1378"
      "month_of (start_tm (fb 217739520 217788480 fbBusy)) = 1379" "month_of (end_tm (fb 217739520 217788480 fbBusy)) = 1381"
      by code_simp+
    then show ?thesis by simp
  qed
qed simp_all

text \<open>
  A block that begins in the month behind the last one that has room and runs into the next is
  written behind the end of the arrays: here the room is for one month and the one behind it.
\<close>

theorem months_overflow: "CreateFBProp 0 fbBusy 1 fb_months = None"
  by code_simp

end
