(* ===== verification/Mapi_Props.thy ===== *)
theory Mapi_Props
  imports Key_Order "HOL-Library.Sublist"
begin

text \<open>
  Property values: \<open>SPropValue\<close> of \<^verbatim>\<open>mapi4linux/include/mapidefs.h\<close>, the search for a property in
  a row, the copying, sizes and comparison of values in \<^verbatim>\<open>m4lcommon/Util.cpp\<close>, and the string
  functions of \<^verbatim>\<open>common/ustringutil.cpp\<close> (in the build without ICU) and \<^verbatim>\<open>common/stringutil.cpp\<close>
  that they use.
\<close>

subsection \<open>Values and tags\<close>

text \<open>
  A value knows its type, and the tag of a property is made of its id and that type, so a tag never
  disagrees with the member of the union. A string is an optional list, \<^const>\<open>None\<close> for a null
  pointer; a binary value of length 0 has a null pointer. A floating point number is held as the
  eight bytes of the \<open>double\<close> that it is or converts to. \<open>PvOther\<close> stands for the types that the code
  does not know; restrictions and rule actions as values are left out.
\<close>

datatype pval =
    PvNull
  | PvI2 u16
  | PvLong u32
  | PvR4 "u8 list"
  | PvDouble "u8 list"
  | PvCurrency u32 u32                  \<comment> \<open>\<open>Lo\<close> and \<open>Hi\<close>\<close>
  | PvAppTime "u8 list"
  | PvError u32
  | PvBoolean u16
  | PvObject u32
  | PvI8 u64
  | PvString8 "u8 list option"
  | PvUnicode "u32 list option"
  | PvSysTime u32 u32                   \<comment> \<open>\<open>dwLowDateTime\<close> and \<open>dwHighDateTime\<close>\<close>
  | PvClsid "u8 list"
  | PvBinary "u8 list"
  | PvMvI2 "u16 list"
  | PvMvLong "u32 list"
  | PvMvR4 "u8 list list"
  | PvMvDouble "u8 list list"
  | PvMvCurrency "(u32 \<times> u32) list"
  | PvMvAppTime "u8 list list"
  | PvMvI8 "u64 list"
  | PvMvString8 "u8 list option list"
  | PvMvUnicode "u32 list option list"
  | PvMvSysTime "(u32 \<times> u32) list"
  | PvMvClsid "u8 list list"
  | PvMvBinary "u8 list list"
  | PvOther u16

definition PT_UNSPECIFIED :: u16 where "PT_UNSPECIFIED = 0x0000"
definition PT_NULL :: u16 where "PT_NULL = 0x0001"
definition PT_LONG :: u16 where "PT_LONG = 0x0003"
definition PT_ERROR :: u16 where "PT_ERROR = 0x000A"
definition PT_I8 :: u16 where "PT_I8 = 0x0014"
definition PT_STRING8 :: u16 where "PT_STRING8 = 0x001E"
definition PT_UNICODE :: u16 where "PT_UNICODE = 0x001F"
definition PT_BINARY :: u16 where "PT_BINARY = 0x0102"

lemmas pt_defs = PT_UNSPECIFIED_def PT_NULL_def PT_LONG_def PT_ERROR_def PT_I8_def PT_STRING8_def
  PT_UNICODE_def PT_BINARY_def

fun ptype :: "pval \<Rightarrow> u16" where
  "ptype PvNull = 0x0001"
| "ptype (PvI2 _) = 0x0002"
| "ptype (PvLong _) = 0x0003"
| "ptype (PvR4 _) = 0x0004"
| "ptype (PvDouble _) = 0x0005"
| "ptype (PvCurrency _ _) = 0x0006"
| "ptype (PvAppTime _) = 0x0007"
| "ptype (PvError _) = 0x000A"
| "ptype (PvBoolean _) = 0x000B"
| "ptype (PvObject _) = 0x000D"
| "ptype (PvI8 _) = 0x0014"
| "ptype (PvString8 _) = 0x001E"
| "ptype (PvUnicode _) = 0x001F"
| "ptype (PvSysTime _ _) = 0x0040"
| "ptype (PvClsid _) = 0x0048"
| "ptype (PvBinary _) = 0x0102"
| "ptype (PvMvI2 _) = 0x1002"
| "ptype (PvMvLong _) = 0x1003"
| "ptype (PvMvR4 _) = 0x1004"
| "ptype (PvMvDouble _) = 0x1005"
| "ptype (PvMvCurrency _) = 0x1006"
| "ptype (PvMvAppTime _) = 0x1007"
| "ptype (PvMvI8 _) = 0x1014"
| "ptype (PvMvString8 _) = 0x101E"
| "ptype (PvMvUnicode _) = 0x101F"
| "ptype (PvMvSysTime _) = 0x1040"
| "ptype (PvMvClsid _) = 0x1048"
| "ptype (PvMvBinary _) = 0x1102"
| "ptype (PvOther t) = t"

record sprop =
  sp_id :: u16
  sp_val :: pval

definition PROP_TAG :: "u16 \<Rightarrow> u16 \<Rightarrow> u32" where
  "PROP_TAG type i = push_bit 16 (ucast i) OR ucast type"

definition PROP_TYPE :: "u32 \<Rightarrow> u16" where
  "PROP_TYPE tag = ucast tag"

definition PROP_ID :: "u32 \<Rightarrow> u16" where
  "PROP_ID tag = ucast (drop_bit 16 tag)"

definition CHANGE_PROP_TYPE :: "u32 \<Rightarrow> u16 \<Rightarrow> u32" where
  "CHANGE_PROP_TYPE tag type = PROP_TAG type (PROP_ID tag)"

definition ulPropTag :: "sprop \<Rightarrow> u32" where
  "ulPropTag p = PROP_TAG (ptype (sp_val p)) (sp_id p)"

lemma PROP_TAG_parts [simp]: "PROP_TYPE (PROP_TAG t i) = t" "PROP_ID (PROP_TAG t i) = i"
  by (rule bit_word_eqI, auto simp: PROP_TYPE_def PROP_ID_def PROP_TAG_def bit_simps dest: bit_imp_le_length)+

lemma PROP_TAG_id [simp]: "PROP_TAG (PROP_TYPE tag) (PROP_ID tag) = tag"
proof (rule bit_word_eqI)
  fix n
  assume "n < LENGTH(32)"
  then show "bit (PROP_TAG (PROP_TYPE tag) (PROP_ID tag)) n = bit tag n"
    by (cases "n < 16") (auto simp: PROP_TYPE_def PROP_ID_def PROP_TAG_def bit_simps)
qed

lemma tag_eq: "a = b \<longleftrightarrow> PROP_TYPE a = PROP_TYPE b \<and> PROP_ID a = PROP_ID b"
  by (metis PROP_TAG_id)

lemma ulPropTag_parts [simp]: "PROP_TYPE (ulPropTag p) = ptype (sp_val p)" "PROP_ID (ulPropTag p) = sp_id p"
  by (simp_all add: ulPropTag_def)

definition PpropFindProp :: "sprop list \<Rightarrow> u32 \<Rightarrow> sprop option" where
  "PpropFindProp ps tag =
     find (\<lambda>p. ulPropTag p = tag \<or> PROP_TYPE tag = PT_UNSPECIFIED \<and> sp_id p = PROP_ID tag) ps"

text \<open>\<open>Value.ul\<close> of a property whose tag is of type \<open>PT_LONG\<close> or \<open>PT_I8\<close>.\<close>

fun val_ul :: "pval \<Rightarrow> u32" where
  "val_ul (PvLong x) = x"
| "val_ul (PvI8 x) = ucast x"
| "val_ul _ = 0"

subsection \<open>Strings\<close>

text \<open>
  What the code asks of the C library and of the character set conversion: \<open>tolower_l\<close> and \<open>towlower_l\<close>,
  \<open>convert_to\<close>, \<open>wcsxfrm_l\<close> and the difference of two floating point numbers, converted to \<open>int\<close>;
  \<open>pe_junk\<close> is what an uninitialised variable holds.
\<close>

record prop_env =
  pe_lowerA :: "u8 \<Rightarrow> u8"
  pe_lowerW :: "u32 \<Rightarrow> u32"
  pe_to_wide :: "u8 list \<Rightarrow> u32 list"
  pe_to_narrow :: "u32 list \<Rightarrow> u8 list"
  pe_xfrm :: "u32 list \<Rightarrow> u32 list"
  pe_fdiff :: "u8 list \<Rightarrow> u8 list \<Rightarrow> int"
  pe_junk :: int

fun strcmp :: "'a :: linorder list \<Rightarrow> 'a list \<Rightarrow> int" where
  "strcmp [] [] = 0"
| "strcmp [] (b # bs) = -1"
| "strcmp (a # as) [] = 1"
| "strcmp (a # as) (b # bs) = (if a < b then -1 else if b < a then 1 else strcmp as bs)"

definition strncmp :: "nat \<Rightarrow> 'a :: linorder list \<Rightarrow> 'a list \<Rightarrow> int" where
  "strncmp n as bs = strcmp (take n as) (take n bs)"

text \<open>\<open>strstr(haystack, needle) != NULL\<close>.\<close>

fun strstr :: "'a list \<Rightarrow> 'a list \<Rightarrow> bool" where
  "strstr [] needle \<longleftrightarrow> needle = []"
| "strstr (c # hay) needle \<longleftrightarrow> prefix needle (c # hay) \<or> strstr hay needle"

definition str_equals :: "u8 list \<Rightarrow> u8 list \<Rightarrow> bool" where
  "str_equals s1 s2 \<longleftrightarrow> strcmp s1 s2 = 0"

definition str_iequals :: "prop_env \<Rightarrow> u8 list \<Rightarrow> u8 list \<Rightarrow> bool" where
  "str_iequals e s1 s2 \<longleftrightarrow> strcmp (map (pe_lowerA e) s1) (map (pe_lowerA e) s2) = 0"

definition str_startswith :: "u8 list \<Rightarrow> u8 list \<Rightarrow> bool" where
  "str_startswith s1 s2 \<longleftrightarrow> (if length s1 \<ge> length s2 then strncmp (length s2) s1 s2 = 0 else False)"

definition str_istartswith :: "prop_env \<Rightarrow> u8 list \<Rightarrow> u8 list \<Rightarrow> bool" where
  "str_istartswith e s1 s2 \<longleftrightarrow>
     (if length s1 \<ge> length s2
      then strncmp (length s2) (map (pe_lowerA e) s1) (map (pe_lowerA e) s2) = 0 else False)"

definition str_icompare :: "prop_env \<Rightarrow> u8 list \<Rightarrow> u8 list \<Rightarrow> int" where
  "str_icompare e s1 s2 =
     (let r = strcmp (map (pe_lowerA e) s1) (map (pe_lowerA e) s2) in if r < 0 then -1 else if r > 0 then 1 else 0)"

definition str_contains :: "u8 list \<Rightarrow> u8 list \<Rightarrow> bool" where
  "str_contains haystack needle \<longleftrightarrow> strstr haystack needle"

definition str_icontains :: "prop_env \<Rightarrow> u8 list \<Rightarrow> u8 list \<Rightarrow> bool" where
  "str_icontains e haystack needle \<longleftrightarrow> strstr (map (pe_lowerA e) haystack) (map (pe_lowerA e) needle)"

definition wcs_equals :: "u32 list \<Rightarrow> u32 list \<Rightarrow> bool" where
  "wcs_equals s1 s2 \<longleftrightarrow> strcmp s1 s2 = 0"

definition wcs_iequals :: "prop_env \<Rightarrow> u32 list \<Rightarrow> u32 list \<Rightarrow> bool" where
  "wcs_iequals e s1 s2 \<longleftrightarrow> strcmp (map (pe_lowerW e) s1) (map (pe_lowerW e) s2) = 0"

definition wcs_startswith :: "u32 list \<Rightarrow> u32 list \<Rightarrow> bool" where
  "wcs_startswith s1 s2 \<longleftrightarrow> (if length s1 \<ge> length s2 then strncmp (length s2) s1 s2 = 0 else False)"

definition wcs_istartswith :: "prop_env \<Rightarrow> u32 list \<Rightarrow> u32 list \<Rightarrow> bool" where
  "wcs_istartswith e s1 s2 \<longleftrightarrow>
     (if length s1 \<ge> length s2
      then strncmp (length s2) (map (pe_lowerW e) s1) (map (pe_lowerW e) s2) = 0 else False)"

definition wcs_icompare :: "prop_env \<Rightarrow> u32 list \<Rightarrow> u32 list \<Rightarrow> int" where
  "wcs_icompare e s1 s2 =
     (let r = strcmp (map (pe_lowerW e) s1) (map (pe_lowerW e) s2) in if r < 0 then -1 else if r > 0 then 1 else 0)"

definition wcs_contains :: "u32 list \<Rightarrow> u32 list \<Rightarrow> bool" where
  "wcs_contains haystack needle \<longleftrightarrow> strstr haystack needle"

text \<open>The loop over the haystack: its rest is long enough for the needle.\<close>

fun icontains_loop :: "prop_env \<Rightarrow> u32 list \<Rightarrow> u32 list \<Rightarrow> bool" where
  "icontains_loop e lpHay needle \<longleftrightarrow>
     (if length lpHay \<ge> length needle then
        strncmp (length needle) (map (pe_lowerW e) lpHay) (map (pe_lowerW e) needle) = 0 \<or>
        (case lpHay of [] \<Rightarrow> False | _ # hay \<Rightarrow> icontains_loop e hay needle)
      else False)"

declare icontains_loop.simps [simp del]

definition wcs_icontains :: "prop_env \<Rightarrow> u32 list \<Rightarrow> u32 list \<Rightarrow> bool" where
  "wcs_icontains e haystack needle \<longleftrightarrow> icontains_loop e haystack needle"

text \<open>
  \<open>memsubstr\<close>: the positions in the data and in the pattern; after a mismatch the search goes back to
  behind the place where it began. Reading the pattern behind its end is \<^const>\<open>None\<close>.
\<close>

function memsubstr_loop :: "u8 list \<Rightarrow> u8 list \<Rightarrow> nat \<Rightarrow> nat \<Rightarrow> int option" where
  "memsubstr_loop hay needle pos n =
     (if pos < length hay \<and> n \<le> pos then
        if n \<ge> length needle then None
        else if hay ! pos = needle ! n then
          if Suc n = length needle then Some 0 else memsubstr_loop hay needle (Suc pos) (Suc n)
        else memsubstr_loop hay needle (Suc (pos - n)) 0
      else Some 1)"
  by pat_completeness auto
termination
  by (relation "inv_image (less_than <*lex*> less_than)
       (\<lambda>(hay, needle, pos, n). (length hay - (pos - n), length hay - pos))") (auto simp: in_inv_image)

declare memsubstr_loop.simps [simp del]

definition memsubstr :: "u8 list \<Rightarrow> u8 list \<Rightarrow> int option" where
  "memsubstr haystack needle =
     (if length haystack < length needle then Some (to_int32 (int (length haystack) - int (length needle)))
      else memsubstr_loop haystack needle 0 0)"

subsection \<open>Comparing values\<close>

text \<open>A difference of \<open>unsigned int\<close>s in an \<open>int\<close>.\<close>

definition diff32 :: "u32 \<Rightarrow> u32 \<Rightarrow> int" where
  "diff32 a b = sint (a - b)"

definition count_diff :: "'a list \<Rightarrow> 'b list \<Rightarrow> int" where
  "count_diff xs ys = diff32 (of_nat (length xs)) (of_nat (length ys))"

definition CompareSBinary :: "u8 list \<Rightarrow> u8 list \<Rightarrow> int" where
  "CompareSBinary b1 b2 =
     (if b1 \<noteq> [] \<and> b2 \<noteq> [] \<and> length b1 = length b2 then memcmp b1 b2 else count_diff b1 b2)"

definition cmp_cur :: "u32 \<times> u32 \<Rightarrow> u32 \<times> u32 \<Rightarrow> int" where
  "cmp_cur a b = (if snd a = snd b then diff32 (fst a) (fst b) else diff32 (snd a) (snd b))"

text \<open>The loop over the values of a multi-valued property: the first difference.\<close>

fun first_diff :: "('a \<Rightarrow> 'a \<Rightarrow> int) \<Rightarrow> 'a list \<Rightarrow> 'a list \<Rightarrow> int" where
  "first_diff f (a # as) (b # bs) = (if f a b \<noteq> 0 then f a b else first_diff f as bs)"
| "first_diff f _ _ = 0"

definition mv_cmp :: "('a \<Rightarrow> 'a \<Rightarrow> int) \<Rightarrow> 'a list \<Rightarrow> 'a list \<Rightarrow> int" where
  "mv_cmp f as bs = (if length as = length bs then first_diff f as bs else count_diff as bs)"

text \<open>Strings behind pointers that may be null.\<close>

definition ptr_cmp :: "('a \<Rightarrow> 'a \<Rightarrow> int) \<Rightarrow> 'a option \<Rightarrow> 'a option \<Rightarrow> int" where
  "ptr_cmp f p q =
     (case (p, q) of (Some a, Some b) \<Rightarrow> f a b | (None, None) \<Rightarrow> 0 | _ \<Rightarrow> 1)"

text \<open>In the build with \<open>UNICODE\<close> the tag of \<open>PR_ANR\<close> has the type \<open>PT_UNICODE\<close>, so a \<open>PT_STRING8\<close> never has it.\<close>

definition PR_ANR :: u32 where "PR_ANR = 0x360C001F"

definition cmp_values :: "prop_env \<Rightarrow> bool \<Rightarrow> pval \<Rightarrow> pval \<Rightarrow> int option" where
  "cmp_values e anr v w =
     (case v of
        PvI2 a \<Rightarrow> (case w of PvI2 b \<Rightarrow>
          Some (sint a - sint b) | _ \<Rightarrow> None)
      | PvLong a \<Rightarrow> (case w of PvLong b \<Rightarrow>
          Some (diff32 a b) | _ \<Rightarrow> None)
      | PvR4 a \<Rightarrow> (case w of PvR4 b \<Rightarrow>
          Some (dbl_cmp a b) | _ \<Rightarrow> None)
      | PvBoolean a \<Rightarrow> (case w of PvBoolean b \<Rightarrow>
          Some (uint a - uint b) | _ \<Rightarrow> None)
      | PvDouble a \<Rightarrow> (case w of PvDouble b \<Rightarrow>
          Some (dbl_cmp a b) | _ \<Rightarrow> None)
      | PvAppTime a \<Rightarrow> (case w of PvAppTime b \<Rightarrow>
          Some (dbl_cmp a b) | _ \<Rightarrow> None)
      | PvI8 a \<Rightarrow> (case w of PvI8 b \<Rightarrow>
          Some (sint (ucast (a - b) :: u32)) | _ \<Rightarrow> None)
      | PvUnicode a \<Rightarrow> (case w of PvUnicode b \<Rightarrow>
          Some (ptr_cmp (\<lambda>s t. if anr then (if wcs_icontains e s t then 1 else 0) else wcs_icompare e s t) a b) | _ \<Rightarrow> None)
      | PvString8 a \<Rightarrow> (case w of PvString8 b \<Rightarrow>
          Some (ptr_cmp (str_icompare e) a b) | _ \<Rightarrow> None)
      | PvSysTime lo hi \<Rightarrow> (case w of PvSysTime lo' hi' \<Rightarrow>
          Some (cmp_cur (lo, hi) (lo', hi')) | _ \<Rightarrow> None)
      | PvCurrency lo hi \<Rightarrow> (case w of PvCurrency lo' hi' \<Rightarrow>
          Some (cmp_cur (lo, hi) (lo', hi')) | _ \<Rightarrow> None)
      | PvBinary a \<Rightarrow> (case w of PvBinary b \<Rightarrow>
          Some (CompareSBinary a b) | _ \<Rightarrow> None)
      | PvClsid a \<Rightarrow> (case w of PvClsid b \<Rightarrow>
          Some (memcmp a b) | _ \<Rightarrow> None)
      | PvMvI2 a \<Rightarrow> (case w of PvMvI2 b \<Rightarrow>
          Some (mv_cmp (\<lambda>x y. sint x - sint y) a b) | _ \<Rightarrow> None)
      | PvMvLong a \<Rightarrow> (case w of PvMvLong b \<Rightarrow>
          Some (mv_cmp diff32 a b) | _ \<Rightarrow> None)
      | PvMvR4 a \<Rightarrow> (case w of PvMvR4 b \<Rightarrow>
          Some (mv_cmp (pe_fdiff e) a b) | _ \<Rightarrow> None)
      | PvMvDouble a \<Rightarrow> (case w of PvMvDouble b \<Rightarrow>
          Some (mv_cmp (pe_fdiff e) a b) | _ \<Rightarrow> None)
      | PvMvAppTime a \<Rightarrow> (case w of PvMvAppTime b \<Rightarrow>
          Some (mv_cmp (pe_fdiff e) a b) | _ \<Rightarrow> None)
      | PvMvI8 a \<Rightarrow> (case w of PvMvI8 b \<Rightarrow>
          Some (mv_cmp (\<lambda>x y. sint (ucast (x - y) :: u32)) a b) | _ \<Rightarrow> None)
      | PvMvSysTime a \<Rightarrow> (case w of PvMvSysTime b \<Rightarrow>
          Some (if length a = length b then first_diff cmp_cur a b else 0) | _ \<Rightarrow> None)
      | PvMvCurrency a \<Rightarrow> (case w of PvMvCurrency b \<Rightarrow>
          Some (if length a = length b then first_diff cmp_cur a b else 0) | _ \<Rightarrow> None)
      | PvMvClsid a \<Rightarrow> (case w of PvMvClsid b \<Rightarrow>
          Some (if length a = length b then memcmp (concat a) (concat b) else count_diff a b) | _ \<Rightarrow> None)
      | PvMvBinary a \<Rightarrow> (case w of PvMvBinary b \<Rightarrow>
          Some (mv_cmp CompareSBinary a b) | _ \<Rightarrow> None)
      | PvMvUnicode a \<Rightarrow> (case w of PvMvUnicode b \<Rightarrow>
          Some (mv_cmp (ptr_cmp (\<lambda>s t. strcmp (map (pe_lowerW e) s) (map (pe_lowerW e) t))) a b) | _ \<Rightarrow> None)
      | PvMvString8 a \<Rightarrow> (case w of PvMvString8 b \<Rightarrow>
          Some (mv_cmp (ptr_cmp (\<lambda>s t. strcmp (map (pe_lowerA e) s) (map (pe_lowerA e) t))) a b) | _ \<Rightarrow> None)
      | _ \<Rightarrow> None)"

definition CompareProp :: "prop_env \<Rightarrow> sprop \<Rightarrow> sprop \<Rightarrow> hresult + int" where
  "CompareProp e p1 p2 =
     (if ptype (sp_val p1) \<noteq> ptype (sp_val p2) then Inl MAPI_E_INVALID_PARAMETER
      else (case cmp_values e (ulPropTag p2 = PR_ANR) (sp_val p1) (sp_val p2) of
              None \<Rightarrow> Inl MAPI_E_INVALID_TYPE | Some r \<Rightarrow> Inr r))"

definition opt_len :: "'a list option \<Rightarrow> nat" where
  "opt_len p = (case p of None \<Rightarrow> 0 | Some xs \<Rightarrow> length xs)"

definition PropSize :: "sprop \<Rightarrow> u32" where
  "PropSize p =
     (case sp_val p of
        PvI2 _ \<Rightarrow> 2
      | PvBoolean _ \<Rightarrow> 4 | PvR4 _ \<Rightarrow> 4 | PvLong _ \<Rightarrow> 4
      | PvAppTime _ \<Rightarrow> 8 | PvDouble _ \<Rightarrow> 8 | PvI8 _ \<Rightarrow> 8
      | PvUnicode s \<Rightarrow> of_nat (opt_len s)
      | PvString8 s \<Rightarrow> of_nat (opt_len s)
      | PvSysTime _ _ \<Rightarrow> 8 | PvCurrency _ _ \<Rightarrow> 8
      | PvBinary b \<Rightarrow> of_nat (length b)
      | PvClsid _ \<Rightarrow> 16
      | PvMvI2 xs \<Rightarrow> 2 * of_nat (length xs)
      | PvMvR4 xs \<Rightarrow> 4 * of_nat (length xs)
      | PvMvLong xs \<Rightarrow> 4 * of_nat (length xs)
      | PvMvAppTime xs \<Rightarrow> 8 * of_nat (length xs)
      | PvMvDouble xs \<Rightarrow> 8 * of_nat (length xs)
      | PvMvI8 xs \<Rightarrow> 8 * of_nat (length xs)
      | PvMvUnicode xs \<Rightarrow> of_nat (sum_list (map opt_len xs))
      | PvMvString8 xs \<Rightarrow> of_nat (sum_list (map opt_len xs))
      | PvMvSysTime xs \<Rightarrow> 8 * of_nat (length xs)
      | PvMvCurrency xs \<Rightarrow> 8 * of_nat (length xs)
      | PvMvBinary xs \<Rightarrow> of_nat (sum_list (map length xs))
      | PvMvClsid xs \<Rightarrow> 16 * of_nat (length xs)
      | _ \<Rightarrow> 0)"

subsection \<open>Copying values\<close>

text \<open>A null pointer among the strings of a multi-valued property is read: \<^const>\<open>None\<close>.\<close>

definition HrCopyProperty :: "sprop \<Rightarrow> (hresult + sprop) option" where
  "HrCopyProperty p =
     (case sp_val p of
        PvUnicode None \<Rightarrow> Some (Inl MAPI_E_INVALID_PARAMETER)
      | PvString8 None \<Rightarrow> Some (Inl MAPI_E_INVALID_PARAMETER)
      | PvObject _ \<Rightarrow> Some (Inr (p\<lparr>sp_val := PvObject 0\<rparr>))
      | PvMvUnicode xs \<Rightarrow> (if None \<in> set xs then None else Some (Inr p))
      | PvMvString8 xs \<Rightarrow> (if None \<in> set xs then None else Some (Inr p))
      | PvOther _ \<Rightarrow> Some (Inl MAPI_E_INVALID_PARAMETER)
      | _ \<Rightarrow> Some (Inr p))"

text \<open>What cannot be copied is left out.\<close>

fun HrCopyPropertyArray :: "bool \<Rightarrow> sprop list \<Rightarrow> sprop list option" where
  "HrCopyPropertyArray bExcludeErrors [] = Some []"
| "HrCopyPropertyArray bExcludeErrors (p # ps) =
     (if bExcludeErrors \<and> ptype (sp_val p) = PT_ERROR then HrCopyPropertyArray bExcludeErrors ps
      else do {
        r \<leftarrow> HrCopyProperty p;
        qs \<leftarrow> HrCopyPropertyArray bExcludeErrors ps;
        Some (case r of Inl _ \<Rightarrow> qs | Inr q \<Rightarrow> q # qs)
      })"

end
