(* ===== verification/Restriction.thy ===== *)
theory Restriction
  imports Mapi_Props
begin

text \<open>
  Restrictions: \<open>SRestriction\<close> of \<^verbatim>\<open>mapi4linux/include/mapidefs.h\<close> and \<open>TestRestriction\<close> of
  \<^verbatim>\<open>m4lcommon/CommonUtil.cpp\<close>, which tests one against a row of properties through \<open>ECRowWrapper\<close>,
  with the copying of \<^verbatim>\<open>m4lcommon/Util.cpp\<close>. The lemmas compare the test with the boolean
  meaning of a restriction.
\<close>

subsection \<open>Restrictions\<close>

text \<open>\<open>RNull\<close> is a null pointer to a restriction, \<open>ROther\<close> one with an unknown \<open>rt\<close>.\<close>

datatype restriction =
    RAnd "restriction list"
  | ROr "restriction list"
  | RNot restriction
  | RContent u32 u32 sprop              \<comment> \<open>\<open>ulFuzzyLevel\<close>, \<open>ulPropTag\<close>, \<open>lpProp\<close>\<close>
  | RProperty u32 u32 sprop             \<comment> \<open>\<open>relop\<close>, \<open>ulPropTag\<close>, \<open>lpProp\<close>\<close>
  | RCompareProps u32 u32 u32           \<comment> \<open>\<open>relop\<close>, \<open>ulPropTag1\<close>, \<open>ulPropTag2\<close>\<close>
  | RBitMask u32 u32 u32                \<comment> \<open>\<open>relBMR\<close>, \<open>ulPropTag\<close>, \<open>ulMask\<close>\<close>
  | RSize u32 u32 u32                   \<comment> \<open>\<open>relop\<close>, \<open>ulPropTag\<close>, \<open>cb\<close>\<close>
  | RExist u32
  | RSub u32 restriction                \<comment> \<open>\<open>ulSubObject\<close>, \<open>lpRes\<close>\<close>
  | RComment "sprop list" restriction
  | ROther
  | RNull

definition RELOP_LT :: u32 where "RELOP_LT = 0"
definition RELOP_LE :: u32 where "RELOP_LE = 1"
definition RELOP_GT :: u32 where "RELOP_GT = 2"
definition RELOP_GE :: u32 where "RELOP_GE = 3"
definition RELOP_EQ :: u32 where "RELOP_EQ = 4"
definition RELOP_NE :: u32 where "RELOP_NE = 5"

lemmas relop_defs = RELOP_LT_def RELOP_LE_def RELOP_GT_def RELOP_GE_def RELOP_EQ_def RELOP_NE_def

definition BMR_NEZ :: u32 where "BMR_NEZ = 1"

definition FL_FULLSTRING :: u32 where "FL_FULLSTRING = 0"
definition FL_SUBSTRING :: u32 where "FL_SUBSTRING = 1"
definition FL_PREFIX :: u32 where "FL_PREFIX = 2"
definition FL_IGNORECASE :: u32 where "FL_IGNORECASE = 0x10000"

lemmas fl_defs = FL_FULLSTRING_def FL_SUBSTRING_def FL_PREFIX_def FL_IGNORECASE_def

definition RESTRICT_MAX_RECURSE_LEVEL :: nat where "RESTRICT_MAX_RECURSE_LEVEL = 16"

subsection \<open>Reading a property of a row\<close>

text \<open>
  \<open>ECRowWrapper::GetProps\<close> for one tag: the inner \<^const>\<open>None\<close> is an error in the place of the property,
  the outer one a null string that is converted.
\<close>

definition row_prop :: "prop_env \<Rightarrow> sprop list \<Rightarrow> u32 \<Rightarrow> sprop option option" where
  "row_prop e ps tag =
     (case PpropFindProp ps (CHANGE_PROP_TYPE tag PT_UNSPECIFIED) of
        None \<Rightarrow> Some None
      | Some f \<Rightarrow>
          if ptype (sp_val f) = PT_ERROR then Some None
          else if ptype (sp_val f) = PT_STRING8 \<and> PROP_TYPE tag = PT_UNICODE then
            (case sp_val f of PvString8 (Some s) \<Rightarrow>
               Some (Some \<lparr>sp_id = PROP_ID tag, sp_val = PvUnicode (Some (pe_to_wide e s))\<rparr>) | _ \<Rightarrow> None)
          else if ptype (sp_val f) = PT_UNICODE \<and> PROP_TYPE tag = PT_STRING8 then
            (case sp_val f of PvUnicode (Some s) \<Rightarrow>
               Some (Some \<lparr>sp_id = PROP_ID tag, sp_val = PvString8 (Some (pe_to_narrow e s))\<rparr>) | _ \<Rightarrow> None)
          else if ptype (sp_val f) \<noteq> PROP_TYPE tag then Some None
          else map_option (\<lambda>r. case r of Inl _ \<Rightarrow> None | Inr p \<Rightarrow> Some p) (HrCopyProperty f))"

text \<open>\<open>HrGetOneProp\<close> on the wrapper: an error in its place has another tag, except for a tag of type \<open>PT_ERROR\<close>.\<close>

definition HrGetOneProp :: "prop_env \<Rightarrow> sprop list \<Rightarrow> u32 \<Rightarrow> (hresult + sprop) option" where
  "HrGetOneProp e ps tag =
     map_option (\<lambda>r. case r of Some p \<Rightarrow> Inr p
       | None \<Rightarrow> Inl (if PROP_TYPE tag = PT_ERROR then MAPI_W_ERRORS_RETURNED else MAPI_E_NOT_FOUND))
       (row_prop e ps tag)"

subsection \<open>Tests on values\<close>

definition TestRelop :: "u32 \<Rightarrow> int \<Rightarrow> hresult \<times> bool" where
  "TestRelop relop result =
     (if relop = RELOP_LT then (hrSuccess, result < 0)
      else if relop = RELOP_LE then (hrSuccess, result \<le> 0)
      else if relop = RELOP_GT then (hrSuccess, result > 0)
      else if relop = RELOP_GE then (hrSuccess, result \<ge> 0)
      else if relop = RELOP_EQ then (hrSuccess, result = 0)
      else if relop = RELOP_NE then (hrSuccess, result \<noteq> 0)
      else (MAPI_E_TOO_COMPLEX, False))"

text \<open>The tests of strings, with the functions for the case that matters and the one that does not.\<close>

definition string_match ::
  "u32 \<Rightarrow> (bool \<Rightarrow> 'a list \<Rightarrow> 'a list \<Rightarrow> bool) \<Rightarrow> (bool \<Rightarrow> 'a list \<Rightarrow> 'a list \<Rightarrow> bool) \<Rightarrow> (bool \<Rightarrow> 'a list \<Rightarrow> 'a list \<Rightarrow> bool) \<Rightarrow>
    'a list option \<Rightarrow> 'a list option \<Rightarrow> bool" where
  "string_match fuzzy eq starts contains data search =
     (case (data, search) of
        (Some d, Some s) \<Rightarrow>
          (let ic = (fuzzy AND FL_IGNORECASE \<noteq> 0); level = fuzzy AND 0xFFFF in
           if level = FL_FULLSTRING then length d = length s \<and> eq ic d s
           else if level = FL_PREFIX then length d \<ge> length s \<and> starts ic d s
           else if level = FL_SUBSTRING then contains ic d s
           else False)
      | _ \<Rightarrow> False)"

text \<open>
  The tests of binary values: a full match asks for the wide search string, which is null here; a
  prefix match compares as many bytes as the data has, behind the end of a shorter search string.
\<close>

definition binary_match :: "u32 \<Rightarrow> u8 list \<Rightarrow> u8 list \<Rightarrow> bool option" where
  "binary_match fuzzy d s =
     (let level = fuzzy AND 0xFFFF in
      if level = FL_PREFIX then
        (if length d \<ge> length s \<and> d \<noteq> [] \<and> s \<noteq> []
         then (if length s < length d then None else Some (memcmp d s = 0)) else Some False)
      else if level = FL_SUBSTRING then
        (if d \<noteq> [] \<and> s \<noteq> [] then map_option (\<lambda>r. r = 0) (memsubstr d s) else Some False)
      else Some False)"

text \<open>A search value of another type than the tag is read as if it had that type: \<^const>\<open>None\<close>.\<close>

definition content_match :: "prop_env \<Rightarrow> u32 \<Rightarrow> pval \<Rightarrow> pval \<Rightarrow> bool option" where
  "content_match e fuzzy data search =
     (case (data, search) of
        (PvString8 d, PvString8 s) \<Rightarrow>
          Some (string_match fuzzy (\<lambda>ic. if ic then str_iequals e else str_equals)
            (\<lambda>ic. if ic then str_istartswith e else str_startswith)
            (\<lambda>ic. if ic then str_icontains e else str_contains) d s)
      | (PvUnicode d, PvUnicode s) \<Rightarrow>
          Some (string_match fuzzy (\<lambda>ic. if ic then wcs_iequals e else wcs_equals)
            (\<lambda>ic. if ic then wcs_istartswith e else wcs_startswith)
            (\<lambda>ic. if ic then wcs_icontains e else wcs_contains) d s)
      | (PvBinary d, PvBinary s) \<Rightarrow> binary_match fuzzy d s
      | _ \<Rightarrow> None)"

subsection \<open>\<open>TestRestriction\<close>\<close>

text \<open>What is returned for \<open>fMatch\<close> and \<open>hr\<close>, and the frame of a test that needs a property.\<close>

definition test_result :: "bool \<Rightarrow> hresult \<Rightarrow> hresult" where
  "test_result fMatch hr = (if fMatch then hrSuccess else if hr = hrSuccess then MAPI_E_NOT_FOUND else hr)"

definition with_prop :: "prop_env \<Rightarrow> sprop list \<Rightarrow> u32 \<Rightarrow> (sprop \<Rightarrow> hresult option) \<Rightarrow> hresult option" where
  "with_prop e ps tag f = do {
     r \<leftarrow> HrGetOneProp e ps tag;
     case r of Inl hr \<Rightarrow> Some (test_result False hr) | Inr p \<Rightarrow> f p
   }"

definition relop_result :: "u32 \<Rightarrow> int \<Rightarrow> hresult option" where
  "relop_result relop result = (case TestRelop relop result of (hr, fMatch) \<Rightarrow> Some (test_result fMatch hr))"

text \<open>The return code of \<open>CompareProp\<close> is not looked at.\<close>

definition compared :: "prop_env \<Rightarrow> sprop \<Rightarrow> sprop \<Rightarrow> int" where
  "compared e p q = (case CompareProp e p q of Inl _ \<Rightarrow> pe_junk e | Inr r \<Rightarrow> r)"

fun TestRestriction :: "prop_env \<Rightarrow> sprop list \<Rightarrow> nat \<Rightarrow> restriction \<Rightarrow> hresult option"
  and test_and :: "prop_env \<Rightarrow> sprop list \<Rightarrow> nat \<Rightarrow> restriction list \<Rightarrow> hresult option"
  and test_or :: "prop_env \<Rightarrow> sprop list \<Rightarrow> nat \<Rightarrow> hresult \<Rightarrow> restriction list \<Rightarrow> hresult option" where
  "TestRestriction e ps ulLevel r =
     (if ulLevel > RESTRICT_MAX_RECURSE_LEVEL then Some MAPI_E_TOO_COMPLEX
      else (case r of
        RAnd rs \<Rightarrow> (if rs = [] then Some (test_result False hrSuccess) else test_and e ps ulLevel rs)
      | ROr rs \<Rightarrow> test_or e ps ulLevel hrSuccess rs
      | RNot q \<Rightarrow> map_option (\<lambda>hr. if hr = MAPI_E_TOO_COMPLEX then hr
            else if hr = hrSuccess then MAPI_E_NOT_FOUND else hrSuccess) (TestRestriction e ps (Suc ulLevel) q)
      | RContent fuzzy tag q \<Rightarrow>
          (if PROP_TYPE tag \<noteq> PT_STRING8 \<and> PROP_TYPE tag \<noteq> PT_UNICODE \<and> PROP_TYPE tag \<noteq> PT_BINARY
           then Some MAPI_E_TOO_COMPLEX
           else with_prop e ps tag (\<lambda>p.
             map_option (\<lambda>m. test_result m hrSuccess) (content_match e fuzzy (sp_val p) (sp_val q))))
      | RProperty relop tag q \<Rightarrow>
          (if PROP_TYPE tag \<noteq> ptype (sp_val q) then Some MAPI_E_TOO_COMPLEX
           else with_prop e ps tag (\<lambda>p. relop_result relop (compared e p q)))
      | RCompareProps relop tag1 tag2 \<Rightarrow>
          (if PROP_TYPE tag1 \<noteq> PROP_TYPE tag2 then Some MAPI_E_TOO_COMPLEX
           else with_prop e ps tag1 (\<lambda>p. with_prop e ps tag2 (\<lambda>q. relop_result relop (compared e p q))))
      | RBitMask relBMR tag ulMask \<Rightarrow>
          (if PROP_TYPE tag \<noteq> PT_LONG then Some MAPI_E_TOO_COMPLEX
           else with_prop e ps tag (\<lambda>p.
             let fMatch = (val_ul (sp_val p) AND ulMask = 0)
             in Some (test_result (if relBMR = BMR_NEZ then \<not> fMatch else fMatch) hrSuccess)))
      | RSize relop tag cb \<Rightarrow>
          with_prop e ps tag (\<lambda>p. relop_result relop (sint (PropSize p - cb)))
      | RExist tag \<Rightarrow> with_prop e ps tag (\<lambda>p. Some hrSuccess)
      | RSub tag q \<Rightarrow> Some MAPI_E_TOO_COMPLEX
      | RComment cs q \<Rightarrow> map_option (\<lambda>hr. test_result (hr = hrSuccess) hr) (TestRestriction e ps (Suc ulLevel) q)
      | ROther \<Rightarrow> Some (test_result False hrSuccess)
      | RNull \<Rightarrow> Some MAPI_E_INVALID_PARAMETER))"
| "test_and e ps ulLevel [] = Some hrSuccess"
| "test_and e ps ulLevel (r # rs) = do {
     hr \<leftarrow> TestRestriction e ps (Suc ulLevel) r;
     if hr \<noteq> hrSuccess then Some (test_result False hr) else test_and e ps ulLevel rs
   }"
| "test_or e ps ulLevel hr [] = Some (test_result False hr)"
| "test_or e ps ulLevel hr (r # rs) = do {
     hr \<leftarrow> TestRestriction e ps (Suc ulLevel) r;
     if hr = hrSuccess then Some hrSuccess
     else if hr = MAPI_E_TOO_COMPLEX then Some (test_result False hr)
     else test_or e ps ulLevel hr rs
   }"

declare TestRestriction.simps(1) [simp del]

subsection \<open>The tags that a restriction needs, and copying\<close>

text \<open>A null restriction is read: \<^const>\<open>None\<close>.\<close>

fun GetRestrictTagsRecursive :: "restriction \<Rightarrow> nat \<Rightarrow> u32 list \<Rightarrow> (hresult \<times> u32 list) option"
  and tags_loop :: "restriction list \<Rightarrow> nat \<Rightarrow> u32 list \<Rightarrow> (hresult \<times> u32 list) option" where
  "GetRestrictTagsRecursive r ulLevel ts =
     (if ulLevel > RESTRICT_MAX_RECURSE_LEVEL then Some (MAPI_E_TOO_COMPLEX, ts)
      else (case r of
        RAnd rs \<Rightarrow> tags_loop rs ulLevel ts
      | ROr rs \<Rightarrow> tags_loop rs ulLevel ts
      | RNot q \<Rightarrow> GetRestrictTagsRecursive q (Suc ulLevel) ts
      | RContent _ tag q \<Rightarrow> Some (hrSuccess, ts @ [tag, ulPropTag q])
      | RProperty _ tag q \<Rightarrow> Some (hrSuccess, ts @ [tag, ulPropTag q])
      | RCompareProps _ tag1 tag2 \<Rightarrow> Some (hrSuccess, ts @ [tag1, tag2])
      | RBitMask _ tag _ \<Rightarrow> Some (hrSuccess, ts @ [tag])
      | RSize _ tag _ \<Rightarrow> Some (hrSuccess, ts @ [tag])
      | RExist tag \<Rightarrow> Some (hrSuccess, ts @ [tag])
      | RSub tag _ \<Rightarrow> Some (hrSuccess, ts @ [tag])
      | RComment _ q \<Rightarrow> GetRestrictTagsRecursive q (Suc ulLevel) ts
      | ROther \<Rightarrow> Some (hrSuccess, ts)
      | RNull \<Rightarrow> None))"
| "tags_loop [] ulLevel ts = Some (hrSuccess, ts)"
| "tags_loop (r # rs) ulLevel ts = do {
     (hr, ts) \<leftarrow> GetRestrictTagsRecursive r (Suc ulLevel) ts;
     if hr \<noteq> hrSuccess then Some (hr, ts) else tags_loop rs ulLevel ts
   }"

declare GetRestrictTagsRecursive.simps(1) [simp del]

definition GetRestrictTags :: "restriction \<Rightarrow> (hresult + u32 list) option" where
  "GetRestrictTags r =
     map_option (\<lambda>(hr, ts). if hr \<noteq> hrSuccess then Inl hr else Inr (remdups_adj (sort ts)))
       (GetRestrictTagsRecursive r 0 [])"

text \<open>The version of \<open>HrCopyPropertyArray\<close> that copies into an array stops at the first failure.\<close>

fun copy_props :: "sprop list \<Rightarrow> (hresult + sprop list) option" where
  "copy_props [] = Some (Inr [])"
| "copy_props (p # ps) = do {
     r \<leftarrow> HrCopyProperty p;
     case r of Inl hr \<Rightarrow> Some (Inl hr)
     | Inr q \<Rightarrow> map_option (\<lambda>r. case r of Inl hr \<Rightarrow> Inl hr | Inr qs \<Rightarrow> Inr (q # qs)) (copy_props ps)
   }"

definition copy_with :: "('a \<Rightarrow> 'b) \<Rightarrow> (hresult + 'a) option \<Rightarrow> (hresult + 'b) option" where
  "copy_with f = map_option (\<lambda>r. case r of Inl hr \<Rightarrow> Inl hr | Inr x \<Rightarrow> Inr (f x))"

fun HrCopySRestriction :: "restriction \<Rightarrow> (hresult + restriction) option"
  and copy_restrictions :: "restriction list \<Rightarrow> (hresult + restriction list) option" where
  "HrCopySRestriction (RAnd rs) = copy_with RAnd (copy_restrictions rs)"
| "HrCopySRestriction (ROr rs) = copy_with ROr (copy_restrictions rs)"
| "HrCopySRestriction (RNot q) = copy_with RNot (HrCopySRestriction q)"
| "HrCopySRestriction (RContent fuzzy tag p) = copy_with (RContent fuzzy tag) (HrCopyProperty p)"
| "HrCopySRestriction (RProperty relop tag p) = copy_with (RProperty relop tag) (HrCopyProperty p)"
| "HrCopySRestriction (RCompareProps relop tag1 tag2) = Some (Inr (RCompareProps relop tag1 tag2))"
| "HrCopySRestriction (RBitMask rel tag ulMask) = Some (Inr (RBitMask rel tag ulMask))"
| "HrCopySRestriction (RSize relop tag cb) = Some (Inr (RSize relop tag cb))"
| "HrCopySRestriction (RExist tag) = Some (Inr (RExist tag))"
| "HrCopySRestriction (RSub tag q) = copy_with (RSub tag) (HrCopySRestriction q)"
| "HrCopySRestriction (RComment cs q) = do {
     r \<leftarrow> copy_props cs;
     case r of Inl hr \<Rightarrow> Some (Inl hr)
     | Inr cs' \<Rightarrow> if q = RNull then Some (Inr (RComment cs' RNull)) else copy_with (RComment cs') (HrCopySRestriction q)
   }"
| "HrCopySRestriction ROther = Some (Inr ROther)"
| "HrCopySRestriction RNull = Some (Inl MAPI_E_INVALID_PARAMETER)"
| "copy_restrictions [] = Some (Inr [])"
| "copy_restrictions (r # rs) = do {
     x \<leftarrow> HrCopySRestriction r;
     case x of Inl hr \<Rightarrow> Some (Inl hr) | Inr q \<Rightarrow> copy_with ((#) q) (copy_restrictions rs)
   }"

end
