(* ===== verification/Mem_Table.thy ===== *)
theory Mem_Table
  imports Restriction Key_Table
begin

text \<open>
  \<open>ECMemTable\<close> and \<open>ECMemTableView\<close> of \<^verbatim>\<open>m4lcommon/ECMemTable.cpp\<close>: a table of rows of properties
  with the state of each row since it was last saved, and views of it, each with columns, a sort
  order, a restriction and a key table that holds the visible rows in order.

  A view reads the rows of its table, which is an argument of its operations. The calls of
  \<open>OnNotify\<close> are recorded in the view, memory allocation does not fail, and the mutex is left out.
  \<^const>\<open>None\<close> is undefined behaviour of a key table, a restriction or a sort key.
\<close>

subsection \<open>State\<close>

record table_entry =
  te_lpsPropVal :: "sprop list"
  te_fDeleted :: bool
  te_fDirty :: bool
  te_fNew :: bool
  te_lpsID :: "sprop option"

text \<open>A notification; a row that is not given is \<open>PR_NULL\<close> there.\<close>

record tab_notification =
  tn_ulTableEvent :: u32
  tn_propPrior :: "okey option"
  tn_propIndex :: "okey option"
  tn_row :: "sprop list"

text \<open>
  The sort order is a list of tags and directions, \<open>m_mapAdvise\<close> a list of connections and event
  masks, in the order of the map; \<open>m_notified\<close> lists the notifications that were sent.
\<close>

record mem_view =
  lpKeyTable :: keytable
  lpsSortOrderSet :: "(u32 \<times> u32) list"
  lpsPropTags :: "u32 list"
  lpsRestriction :: "restriction option"
  m_mapAdvise :: "(u32 \<times> u32) list"
  m_ulConnection :: u32
  m_ulFlags :: u32
  m_locale :: prop_env
  m_notified :: "(u32 \<times> tab_notification) list"

text \<open>\<open>mapRows\<close> is a \<open>std::map\<close>: a list with rising keys.\<close>

record mem_table =
  mapRows :: "(u32 \<times> table_entry) list"
  lstViews :: "mem_view list"
  lpsColumns :: "u32 list"
  ulRowPropTag :: u32

fun put_entry :: "u32 \<Rightarrow> table_entry \<Rightarrow> (u32 \<times> table_entry) list \<Rightarrow> (u32 \<times> table_entry) list" where
  "put_entry i e [] = [(i, e)]"
| "put_entry i e ((j, f) # r) =
     (if i < j then (i, e) # (j, f) # r else if i = j then (i, e) # r else (j, f) # put_entry i e r)"

definition entry_at :: "mem_table \<Rightarrow> u32 \<Rightarrow> table_entry option" where
  "entry_at m i = map_of (mapRows m) i"

definition MAPI_UNICODE :: u32 where "MAPI_UNICODE = 0x80000000"
definition TABLE_SORT_DESCEND :: u32 where "TABLE_SORT_DESCEND = 1"
definition PR_INSTANCE_KEY :: u32 where "PR_INSTANCE_KEY = 0x0FF60102"

definition TABLE_CHANGED :: u32 where "TABLE_CHANGED = 1"
definition TABLE_ROW_ADDED :: u32 where "TABLE_ROW_ADDED = 3"
definition TABLE_ROW_DELETED :: u32 where "TABLE_ROW_DELETED = 4"
definition TABLE_ROW_MODIFIED :: u32 where "TABLE_ROW_MODIFIED = 5"
definition TABLE_SORT_DONE :: u32 where "TABLE_SORT_DONE = 6"
definition TABLE_RESTRICT_DONE :: u32 where "TABLE_RESTRICT_DONE = 7"
definition TABLE_SETCOL_DONE :: u32 where "TABLE_SETCOL_DONE = 8"

text \<open>\<open>FixStringType\<close>: string types become those that the flags ask for, multi-valued or not.\<close>

definition FixStringType :: "u32 \<Rightarrow> u32 \<Rightarrow> u32" where
  "FixStringType ulFlags tag =
     (if PROP_TYPE tag AND 0x0ffe = 0x1e
      then CHANGE_PROP_TYPE tag ((if ulFlags AND MAPI_UNICODE \<noteq> 0 then PT_UNICODE else PT_STRING8) OR (PROP_TYPE tag AND 0x3000))
      else tag)"

text \<open>\<open>ZarafaErrorToMAPIError\<close> on the codes that occur, and on a code that is a \<open>HRESULT\<close> already.\<close>

fun ZarafaErrorToMAPIError :: "ecresult \<Rightarrow> hresult" where
  "ZarafaErrorToMAPIError erSuccess = hrSuccess"
| "ZarafaErrorToMAPIError ZARAFA_E_NOT_FOUND = MAPI_E_NOT_FOUND"
| "ZarafaErrorToMAPIError ZARAFA_E_NO_ACCESS = MAPI_E_NO_ACCESS"
| "ZarafaErrorToMAPIError ZARAFA_E_INVALID_PARAMETER = MAPI_E_INVALID_PARAMETER"
| "ZarafaErrorToMAPIError ZARAFA_E_INVALID_BOOKMARK = MAPI_E_INVALID_BOOKMARK"
| "ZarafaErrorToMAPIError ZARAFA_E_UNABLE_TO_COMPLETE = MAPI_E_UNABLE_TO_COMPLETE"
| "ZarafaErrorToMAPIError ZARAFA_E_NETWORK_ERROR = MAPI_E_NETWORK_ERROR"
| "ZarafaErrorToMAPIError ZARAFA_E_TIMEOUT = MAPI_E_TIMEOUT"
| "ZarafaErrorToMAPIError ZARAFA_E_DATABASE_ERROR = MAPI_E_DISK_ERROR"
| "ZarafaErrorToMAPIError ZARAFA_W_POSITION_CHANGED = MAPI_W_POSITION_CHANGED"
| "ZarafaErrorToMAPIError ZARAFA_W_PARTIAL_COMPLETION = MAPI_W_PARTIAL_COMPLETION"

definition converted_again :: "hresult \<Rightarrow> hresult" where
  "converted_again hr = (if hr = hrSuccess then hrSuccess else MAPI_E_NO_ACCESS)"

subsection \<open>Rows and their status\<close>

definition ECMemTable_Create :: "u32 list \<Rightarrow> u32 \<Rightarrow> hresult + mem_table" where
  "ECMemTable_Create cols rowTag =
     (if PROP_TYPE rowTag \<noteq> PT_I8 \<and> PROP_TYPE rowTag \<noteq> PT_LONG then Inl MAPI_E_INVALID_TYPE
      else Inr \<lparr>mapRows = [], lstViews = [], lpsColumns = cols, ulRowPropTag = rowTag\<rparr>)"

datatype row_status = ECROW_NORMAL | ECROW_ADDED | ECROW_MODIFIED | ECROW_DELETED

definition status_of :: "table_entry \<Rightarrow> row_status" where
  "status_of e =
     (if te_fNew e then ECROW_ADDED else if te_fDeleted e then ECROW_DELETED
      else if te_fDirty e then ECROW_MODIFIED else ECROW_NORMAL)"

text \<open>The rows are copied by reference; copying an id can fail.\<close>

fun all_with_status :: "(u32 \<times> table_entry) list \<Rightarrow> (hresult + (sprop list \<times> sprop option \<times> row_status) list) option" where
  "all_with_status [] = Some (Inr [])"
| "all_with_status ((i, e) # rows) = do {
     r \<leftarrow> (case te_lpsID e of None \<Rightarrow> Some (Inr None) | Some p \<Rightarrow> copy_with Some (HrCopyProperty p));
     case r of Inl hr \<Rightarrow> Some (Inl hr)
     | Inr p \<Rightarrow> copy_with ((#) (te_lpsPropVal e, p, status_of e)) (all_with_status rows)
   }"

definition HrGetAllWithStatus :: "mem_table \<Rightarrow> (hresult + (sprop list \<times> sprop option \<times> row_status) list) option" where
  "HrGetAllWithStatus m = all_with_status (mapRows m)"

definition HrGetRowID :: "mem_table \<Rightarrow> sprop \<Rightarrow> (hresult + sprop) option" where
  "HrGetRowID m lpRow =
     (if ulPropTag lpRow \<noteq> ulRowPropTag m then Some (Inl MAPI_E_INVALID_PARAMETER)
      else (case entry_at m (val_ul (sp_val lpRow)) of
              None \<Rightarrow> Some (Inl MAPI_E_NOT_FOUND)
            | Some e \<Rightarrow> (case te_lpsID e of None \<Rightarrow> Some (Inl MAPI_E_NOT_FOUND) | Some p \<Rightarrow> HrCopyProperty p)))"

definition HrGetRowData :: "mem_table \<Rightarrow> sprop \<Rightarrow> (hresult + sprop list) option" where
  "HrGetRowData m lpRow =
     (if ulPropTag lpRow \<noteq> ulRowPropTag m then Some (Inl MAPI_E_INVALID_PARAMETER)
      else (case entry_at m (val_ul (sp_val lpRow)) of
              None \<Rightarrow> Some (Inl MAPI_E_NOT_FOUND)
            | Some e \<Rightarrow> if te_lpsID e = None then Some (Inl MAPI_E_NOT_FOUND)
                        else map_option Inr (HrCopyPropertyArray False (te_lpsPropVal e))))"

definition HrSetClean :: "mem_table \<Rightarrow> mem_table" where
  "HrSetClean m =
     m\<lparr>mapRows := map (\<lambda>(i, e). (i, e\<lparr>te_fDeleted := False, te_fDirty := False, te_fNew := False\<rparr>))
         (filter (\<lambda>(i, e). \<not> te_fDeleted e) (mapRows m))\<rparr>"

text \<open>When the new id cannot be copied, an uninitialised one stays behind: \<^const>\<open>None\<close>.\<close>

definition HrUpdateRowID :: "mem_table \<Rightarrow> sprop \<Rightarrow> sprop list \<Rightarrow> (hresult \<times> mem_table) option" where
  "HrUpdateRowID m lpId lpProps =
     (case PpropFindProp lpProps (ulRowPropTag m) of
        None \<Rightarrow> Some (MAPI_E_INVALID_PARAMETER, m)
      | Some u \<Rightarrow>
          (case entry_at m (val_ul (sp_val u)) of
             None \<Rightarrow> Some (MAPI_E_NOT_FOUND, m)
           | Some e \<Rightarrow> do {
               r \<leftarrow> HrCopyProperty lpId;
               case r of Inl hr \<Rightarrow> None
               | Inr p \<Rightarrow> Some (hrSuccess, m\<lparr>mapRows := put_entry (val_ul (sp_val u)) (e\<lparr>te_lpsID := Some p\<rparr>) (mapRows m)\<rparr>)
             }))"

subsection \<open>The data of rows\<close>

definition be16 :: "u16 \<Rightarrow> u8 list" where
  "be16 x = [ucast (drop_bit 8 x), ucast x]"

definition be32 :: "u32 \<Rightarrow> u8 list" where
  "be32 x = [ucast (drop_bit 24 x), ucast (drop_bit 16 x), ucast (drop_bit 8 x), ucast x]"

definition le32 :: "u32 \<Rightarrow> u8 list" where
  "le32 x = [ucast x, ucast (drop_bit 8 x), ucast (drop_bit 16 x), ucast (drop_bit 24 x)]"

text \<open>One cell of \<open>QueryRowData\<close>: the row id, the instance key, or the first property with the id of the tag.\<close>

definition row_cell :: "mem_table \<Rightarrow> prop_env \<Rightarrow> table_entry \<Rightarrow> okey \<Rightarrow> u32 \<Rightarrow> sprop option" where
  "row_cell m e en k tag =
     (let notfound = \<lparr>sp_id = PROP_ID tag, sp_val = PvError 0x8004010F\<rparr> in
      if tag = ulRowPropTag m then
        Some \<lparr>sp_id = PROP_ID tag,
              sp_val = (if PROP_TYPE tag = PT_I8 then PvI8 (ucast (ulObjId k)) else PvLong (ulObjId k))\<rparr>
      else if PROP_TYPE tag = PT_NULL then Some \<lparr>sp_id = PROP_ID tag, sp_val = PvNull\<rparr>
      else if tag = PR_INSTANCE_KEY then
        Some \<lparr>sp_id = PROP_ID tag, sp_val = PvBinary (le32 (ulObjId k) @ le32 (ulOrderId k))\<rparr>
      else (case PpropFindProp (te_lpsPropVal en) (PROP_TAG PT_UNSPECIFIED (PROP_ID tag)) of
          None \<Rightarrow> Some notfound
        | Some p \<Rightarrow>
            if PROP_TYPE tag = PT_UNICODE \<and> ptype (sp_val p) = PT_STRING8 then
              (case sp_val p of PvString8 (Some s) \<Rightarrow>
                 Some \<lparr>sp_id = PROP_ID tag, sp_val = PvUnicode (Some (pe_to_wide e s))\<rparr> | _ \<Rightarrow> None)
            else if PROP_TYPE tag = PT_STRING8 \<and> ptype (sp_val p) = PT_UNICODE then
              (case sp_val p of PvUnicode (Some s) \<Rightarrow>
                 Some \<lparr>sp_id = PROP_ID tag, sp_val = PvString8 (Some (pe_to_narrow e s))\<rparr> | _ \<Rightarrow> None)
            else if tag = ulPropTag p then
              map_option (\<lambda>r. case r of Inl _ \<Rightarrow> notfound | Inr q \<Rightarrow> q) (HrCopyProperty p)
            else Some notfound))"

fun row_cells :: "mem_table \<Rightarrow> prop_env \<Rightarrow> table_entry \<Rightarrow> okey \<Rightarrow> u32 list \<Rightarrow> sprop list option" where
  "row_cells m e en k [] = Some []"
| "row_cells m e en k (tag # tags) = do {
     p \<leftarrow> row_cell m e en k tag;
     ps \<leftarrow> row_cells m e en k tags;
     Some (p # ps)
   }"

fun query_rows :: "mem_table \<Rightarrow> mem_view \<Rightarrow> okey list \<Rightarrow> (hresult + sprop list list) option" where
  "query_rows m v [] = Some (Inr [])"
| "query_rows m v (k # ks) =
     (case entry_at m (ulObjId k) of
        None \<Rightarrow> Some (Inl MAPI_E_NOT_FOUND)
      | Some en \<Rightarrow> do {
          cells \<leftarrow> row_cells m (m_locale v) en k (lpsPropTags v);
          copy_with ((#) cells) (query_rows m v ks)
        })"

definition QueryRowData :: "mem_table \<Rightarrow> mem_view \<Rightarrow> okey list \<Rightarrow> (hresult + sprop list list) option" where
  "QueryRowData m v ks = query_rows m v ks"

subsection \<open>Notifications\<close>

text \<open>\<open>Advise\<close> for a sink; a null sink or a null \<open>lpulConnection\<close> still uses up a number.\<close>

definition Advise :: "mem_view \<Rightarrow> u32 \<Rightarrow> bool \<Rightarrow> (hresult \<times> u32 option) \<times> mem_view" where
  "Advise v ulEventMask bNull =
     (let c = m_ulConnection v; v = v\<lparr>m_ulConnection := c + 1\<rparr> in
      if bNull then ((MAPI_E_INVALID_PARAMETER, None), v)
      else ((hrSuccess, Some c),
            v\<lparr>m_mapAdvise := (if c \<in> fst ` set (m_mapAdvise v) then m_mapAdvise v
                 else insort_key (\<lambda>(c, _). sint c) (c, ulEventMask) (m_mapAdvise v))\<rparr>))"

definition Unadvise :: "mem_view \<Rightarrow> u32 \<Rightarrow> hresult \<times> mem_view" where
  "Unadvise v c = (hrSuccess, v\<lparr>m_mapAdvise := filter (\<lambda>(d, _). d \<noteq> c) (m_mapAdvise v)\<rparr>)"

definition given :: "okey option \<Rightarrow> okey option" where
  "given k = (case k of Some k \<Rightarrow> if ulObjId k = 0 then None else Some k | None \<Rightarrow> None)"

definition send_all :: "tab_notification \<Rightarrow> mem_view \<Rightarrow> mem_view" where
  "send_all n v = v\<lparr>m_notified := m_notified v @ map (\<lambda>(c, _). (c, n)) (m_mapAdvise v)\<rparr>"

definition Notify :: "mem_table \<Rightarrow> mem_view \<Rightarrow> u32 \<Rightarrow> okey option \<Rightarrow> okey option \<Rightarrow> (hresult \<times> mem_view) option" where
  "Notify m v ev item prev =
     (let n = \<lparr>tn_ulTableEvent = ev, tn_propPrior = given prev, tn_propIndex = given item, tn_row = []\<rparr> in
      if ev = TABLE_ROW_ADDED \<or> ev = TABLE_ROW_MODIFIED then
        (case item of
           None \<Rightarrow> Some (MAPI_E_INVALID_PARAMETER, v)
         | Some k \<Rightarrow> do {
             r \<leftarrow> QueryRowData m v [k];
             case r of Inl hr \<Rightarrow> Some (hr, v)
             | Inr rows \<Rightarrow> Some (hrSuccess, send_all (n\<lparr>tn_row := hd rows\<rparr>) v)
           })
      else Some (hrSuccess, send_all n v))"

text \<open>A call of \<open>Notify\<close> whose code is not looked at.\<close>

definition notified :: "mem_table \<Rightarrow> mem_view \<Rightarrow> u32 \<Rightarrow> okey option \<Rightarrow> okey option \<Rightarrow> mem_view option" where
  "notified m v ev item prev = map_option snd (Notify m v ev item prev)"

subsection \<open>Sort keys\<close>

definition sort_key_of_text :: "prop_env \<Rightarrow> u32 list \<Rightarrow> u8 list" where
  "sort_key_of_text e s = concat (map le32 (pe_xfrm e s @ [0]))"

text \<open>
  \<open>GetBinarySortKey\<close>, which leaves the flags 0. For a \<open>PT_CLSID\<close> it reads \<open>bin\<close>, where the union holds
  a pointer to the GUID: \<^const>\<open>None\<close>.
\<close>

definition GetBinarySortKey :: "prop_env \<Rightarrow> sprop \<Rightarrow> (hresult + u8 list) option" where
  "GetBinarySortKey e p =
     (case sp_val p of
        PvBoolean b \<Rightarrow> Some (Inr (be16 b))
      | PvI2 i \<Rightarrow> Some (Inr (be16 i))
      | PvLong x \<Rightarrow> Some (Inr (be32 x))
      | PvR4 d \<Rightarrow> Some (Inr d)
      | PvDouble d \<Rightarrow> Some (Inr d)
      | PvAppTime d \<Rightarrow> Some (Inr d)
      | PvCurrency lo hi \<Rightarrow> Some (Inr [])
      | PvSysTime lo hi \<Rightarrow> Some (Inr (be32 hi @ be32 lo))
      | PvI8 x \<Rightarrow> Some (Inr (be32 (ucast (drop_bit 32 x)) @ be32 (ucast x)))
      | PvString8 s \<Rightarrow> Some (Inr (case s of None \<Rightarrow> [] | Some s \<Rightarrow> sort_key_of_text e (pe_to_wide e s)))
      | PvUnicode s \<Rightarrow> Some (Inr (case s of None \<Rightarrow> [] | Some s \<Rightarrow> sort_key_of_text e s))
      | PvClsid g \<Rightarrow> None
      | PvBinary b \<Rightarrow> Some (Inr b)
      | PvError x \<Rightarrow> Some (Inr [])
      | _ \<Rightarrow> Some (Inl MAPI_E_INVALID_TYPE))"

definition empty_col :: sortcol where
  "empty_col = \<lparr>sc_flags = 0, sc_key = []\<rparr>"

fun sort_cols :: "prop_env \<Rightarrow> sprop list \<Rightarrow> (u32 \<times> u32) list \<Rightarrow> sortcol list option" where
  "sort_cols e ps [] = Some []"
| "sort_cols e ps ((tag, order) # sorts) = do {
     c \<leftarrow> (case PpropFindProp ps tag of
             None \<Rightarrow> Some empty_col
           | Some p \<Rightarrow> map_option (\<lambda>r. case r of Inl _ \<Rightarrow> empty_col
               | Inr k \<Rightarrow> \<lparr>sc_flags = (if order = TABLE_SORT_DESCEND then TABLEROW_FLAG_DESC else 0), sc_key = k\<rparr>)
               (GetBinarySortKey e p));
     cs \<leftarrow> sort_cols e ps sorts;
     Some (c # cs)
   }"

subsection \<open>Keeping the key table up to date\<close>

text \<open>Whether the restriction of a view lets a row pass.\<close>

definition accepts_row :: "mem_view \<Rightarrow> sprop list \<Rightarrow> bool option" where
  "accepts_row v ps =
     (case lpsRestriction v of None \<Rightarrow> Some True
      | Some r \<Rightarrow> map_option (\<lambda>hr. hr = hrSuccess) (TestRestriction (m_locale v) ps 0 r))"

text \<open>What \<open>ModifyRowKey\<close> hands back: its code, \<open>*lpsPrevRow\<close> and \<open>*lpulAction\<close> where they are set.\<close>

definition ModifyRowKey ::
  "mem_table \<Rightarrow> mem_view \<Rightarrow> okey \<Rightarrow> ((hresult \<times> okey option \<times> update_type option) \<times> mem_view) option" where
  "ModifyRowKey m v k =
     (case entry_at m (ulObjId k) of
        None \<Rightarrow> Some ((MAPI_E_NOT_FOUND, None, None), v)
      | Some en \<Rightarrow> do {
          pass \<leftarrow> accepts_row v (te_lpsPropVal en);
          cols \<leftarrow> (if pass then sort_cols (m_locale v) (te_lpsPropVal en) (lpsSortOrderSet v) else Some []);
          res \<leftarrow> UpdateRow (lpKeyTable v) (if pass then TABLE_ROW_ADD else TABLE_ROW_DELETE) k cols False;
          Some ((hrSuccess, ur_prev res, ur_action res), v\<lparr>lpKeyTable := ur_table res\<rparr>)
        })"

fun event_code :: "update_type option \<Rightarrow> u32" where
  "event_code (Some TABLE_ROW_ADD) = TABLE_ROW_ADDED"
| "event_code (Some TABLE_ROW_DELETE) = TABLE_ROW_DELETED"
| "event_code (Some TABLE_ROW_MODIFY) = TABLE_ROW_MODIFIED"
| "event_code _ = 0"

definition row_item :: "u32 \<Rightarrow> okey" where
  "row_item i = \<lparr>ulObjId = i, ulOrderId = 0\<rparr>"

definition View_UpdateRow :: "mem_table \<Rightarrow> mem_view \<Rightarrow> update_type \<Rightarrow> u32 \<Rightarrow> (hresult \<times> mem_view) option" where
  "View_UpdateRow m v ty i = do {
     ((hr, prev, action), v) \<leftarrow>
       (if (lpsSortOrderSet v = [] \<and> lpsRestriction v = None) \<or> ty = TABLE_ROW_DELETE then do {
          res \<leftarrow> UpdateRow (lpKeyTable v) ty (row_item i) [] False;
          Some ((ZarafaErrorToMAPIError (ur_er res), ur_prev res, ur_action res), v\<lparr>lpKeyTable := ur_table res\<rparr>)
        }
        else ModifyRowKey m v (row_item i));
     if hr = hrSuccess then
       map_option (Pair hr) (notified m v (event_code action) (Some (row_item i))
         (Some (case prev of None \<Rightarrow> zero_key | Some k \<Rightarrow> k)))
     else Some (hr, v)
   }"

definition View_Clear :: "mem_table \<Rightarrow> mem_view \<Rightarrow> mem_view option" where
  "View_Clear m v = do {
     t \<leftarrow> Clear (lpKeyTable v);
     notified m (v\<lparr>lpKeyTable := t\<rparr>) TABLE_CHANGED None None
   }"

text \<open>The rows that are not deleted, in the order of their ids.\<close>

fun add_rows :: "mem_table \<Rightarrow> mem_view \<Rightarrow> (u32 \<times> table_entry) list \<Rightarrow> mem_view option" where
  "add_rows m v [] = Some v"
| "add_rows m v ((i, e) # rows) =
     (if te_fDeleted e then add_rows m v rows
      else do {
        (r, v) \<leftarrow> ModifyRowKey m v (row_item i);
        add_rows m v rows
      })"

definition UpdateSortOrRestrict :: "mem_table \<Rightarrow> mem_view \<Rightarrow> mem_view option" where
  "UpdateSortOrRestrict m v = do {
     t \<leftarrow> Clear (lpKeyTable v);
     v \<leftarrow> add_rows m (v\<lparr>lpKeyTable := t\<rparr>) (mapRows m);
     t \<leftarrow> seek_to (lpKeyTable v) EC_SEEK_SET 0;
     Some (v\<lparr>lpKeyTable := t\<rparr>)
   }"

text \<open>\<open>SortTable\<close> for a sort order, the empty one also where the pointer is null.\<close>

definition SortTable :: "mem_table \<Rightarrow> mem_view \<Rightarrow> (u32 \<times> u32) list \<Rightarrow> (hresult \<times> mem_view) option" where
  "SortTable m v sorts = do {
     v \<leftarrow> UpdateSortOrRestrict m (v\<lparr>lpsSortOrderSet := sorts\<rparr>);
     map_option (Pair hrSuccess) (notified m v TABLE_SORT_DONE None None)
   }"

definition Restrict :: "mem_table \<Rightarrow> mem_view \<Rightarrow> restriction option \<Rightarrow> (hresult \<times> mem_view) option" where
  "Restrict m v r = do {
     c \<leftarrow> (case r of None \<Rightarrow> Some (Inr None) | Some r \<Rightarrow> copy_with Some (HrCopySRestriction r));
     case c of
       Inl hr \<Rightarrow> Some (hr, v\<lparr>lpsRestriction := None\<rparr>)
     | Inr r \<Rightarrow> do {
         v \<leftarrow> UpdateSortOrRestrict m (v\<lparr>lpsRestriction := r\<rparr>);
         map_option (Pair hrSuccess) (notified m v TABLE_RESTRICT_DONE None None)
       }
   }"

subsection \<open>Changing the table\<close>

text \<open>The views in turn, up to the first that fails.\<close>

fun update_views :: "mem_table \<Rightarrow> update_type \<Rightarrow> u32 \<Rightarrow> mem_view list \<Rightarrow> (hresult \<times> mem_view list) option" where
  "update_views m ty i [] = Some (hrSuccess, [])"
| "update_views m ty i (v # vs) = do {
     (hr, v) \<leftarrow> View_UpdateRow m v ty i;
     if hr \<noteq> hrSuccess then Some (hr, v # vs)
     else map_option (\<lambda>(hr, vs). (hr, v # vs)) (update_views m ty i vs)
   }"

text \<open>\<open>HrModifyRow\<close>; the properties of a row that stays are replaced without those of type \<open>PT_ERROR\<close>.\<close>

definition HrModifyRow ::
  "mem_table \<Rightarrow> update_type \<Rightarrow> sprop option \<Rightarrow> sprop list \<Rightarrow> (hresult \<times> mem_table) option" where
  "HrModifyRow m ty lpsID lpPropVals =
     (case PpropFindProp lpPropVals (ulRowPropTag m) of
        None \<Rightarrow> Some (MAPI_E_INVALID_PARAMETER, m)
      | Some u \<Rightarrow>
          (let i = val_ul (sp_val u);
               ty = (if ty = TABLE_ROW_ADD \<and> entry_at m i \<noteq> None then TABLE_ROW_MODIFY
                     else if ty = TABLE_ROW_MODIFY \<and> entry_at m i = None then TABLE_ROW_ADD else ty)
           in if ty = TABLE_ROW_DELETE \<and> entry_at m i = None then Some (MAPI_E_NOT_FOUND, m)
           else do {
             r \<leftarrow> (case ty of
                 TABLE_ROW_DELETE \<Rightarrow>
                   Some (Inr (map_option (\<lambda>e. e\<lparr>te_fDeleted := True, te_fDirty := False, te_fNew := False\<rparr>) (entry_at m i)))
               | TABLE_ROW_MODIFY \<Rightarrow> do {
                   ps \<leftarrow> HrCopyPropertyArray True lpPropVals;
                   Some (Inr (map_option (\<lambda>e. e\<lparr>te_fDeleted := False, te_fDirty := True, te_lpsPropVal := ps\<rparr>) (entry_at m i)))
                 }
               | TABLE_ROW_ADD \<Rightarrow> do {
                   ps \<leftarrow> HrCopyPropertyArray False lpPropVals;
                   q \<leftarrow> (case lpsID of None \<Rightarrow> Some (Inr None) | Some p \<Rightarrow> copy_with Some (HrCopyProperty p));
                   Some (case q of Inl hr \<Rightarrow> Inl hr
                     | Inr q \<Rightarrow> Inr (Some \<lparr>te_lpsPropVal = ps, te_fDeleted = False, te_fDirty = True, te_fNew = True, te_lpsID = q\<rparr>))
                 }
               | TABLE_OTHER \<Rightarrow> Some (Inr (entry_at m i)));
             case r of
               Inl hr \<Rightarrow> Some (hr, m)
             | Inr e \<Rightarrow> do {
                 let m = (case e of None \<Rightarrow> m | Some e \<Rightarrow> m\<lparr>mapRows := put_entry i e (mapRows m)\<rparr>);
                 (hr, vs) \<leftarrow> update_views m ty i (lstViews m);
                 Some (hr, m\<lparr>lstViews := vs\<rparr>)
               }
           }))"

fun clear_views :: "mem_table \<Rightarrow> mem_view list \<Rightarrow> mem_view list option" where
  "clear_views m [] = Some []"
| "clear_views m (v # vs) = do {
     v \<leftarrow> View_Clear m v;
     vs \<leftarrow> clear_views m vs;
     Some (v # vs)
   }"

definition HrDeleteAll :: "mem_table \<Rightarrow> mem_table option" where
  "HrDeleteAll m =
     (let m = m\<lparr>mapRows := map (\<lambda>(i, e). (i, e\<lparr>te_fDeleted := True, te_fDirty := False, te_fNew := False\<rparr>)) (mapRows m)\<rparr>
      in map_option (\<lambda>vs. m\<lparr>lstViews := vs\<rparr>) (clear_views m (lstViews m)))"

definition HrClear :: "mem_table \<Rightarrow> mem_table option" where
  "HrClear m =
     (let m = m\<lparr>mapRows := []\<rparr> in map_option (\<lambda>vs. m\<lparr>lstViews := vs\<rparr>) (clear_views m (lstViews m)))"

text \<open>A new view shows all rows, unsorted; the locale is set last.\<close>

definition new_view :: "mem_table \<Rightarrow> prop_env \<Rightarrow> u32 \<Rightarrow> mem_view option" where
  "new_view m loc ulFlags = do {
     (hr, v) \<leftarrow> SortTable m
       \<lparr>lpKeyTable = ECKeyTable, lpsSortOrderSet = [],
        lpsPropTags = map (FixStringType (ulFlags AND MAPI_UNICODE)) (lpsColumns m), lpsRestriction = None,
        m_mapAdvise = [], m_ulConnection = 0, m_ulFlags = 0, m_locale = loc, m_notified = []\<rparr> [];
     Some (v\<lparr>m_ulConnection := 1, m_ulFlags := ulFlags AND MAPI_UNICODE\<rparr>)
   }"

definition HrGetView :: "mem_table \<Rightarrow> prop_env \<Rightarrow> u32 \<Rightarrow> (hresult \<times> mem_table) option" where
  "HrGetView m loc ulFlags = do {
     v \<leftarrow> new_view m loc ulFlags;
     Some (hrSuccess, m\<lparr>lstViews := lstViews m @ [v]\<rparr>)
   }"

subsection \<open>Reading a view\<close>

definition SetColumns :: "mem_table \<Rightarrow> mem_view \<Rightarrow> u32 list \<Rightarrow> (hresult \<times> mem_view) option" where
  "SetColumns m v tags =
     map_option (Pair hrSuccess) (notified m (v\<lparr>lpsPropTags := tags\<rparr>) TABLE_SETCOL_DONE None None)"

definition TBL_ALL_COLUMNS :: u32 where "TBL_ALL_COLUMNS = 1"

definition QueryColumns :: "mem_table \<Rightarrow> mem_view \<Rightarrow> u32 \<Rightarrow> hresult + u32 list" where
  "QueryColumns m v ulFlags =
     (if ulFlags AND NOT TBL_ALL_COLUMNS \<noteq> 0 then Inl MAPI_E_UNKNOWN_FLAGS
      else if ulFlags AND TBL_ALL_COLUMNS \<noteq> 0 then
        (let tags = map (FixStringType (m_ulFlags v)) (lpsColumns m @
               concat (map (\<lambda>(i, e). map ulPropTag (filter (\<lambda>p. ptype (sp_val p) \<noteq> PT_ERROR \<and> ptype (sp_val p) \<noteq> PT_NULL)
                 (te_lpsPropVal e))) (mapRows m)))
         in Inr (remdups_adj (sort tags)))
      else Inr (lpsPropTags v))"

definition View_GetRowCount :: "mem_view \<Rightarrow> nat option" where
  "View_GetRowCount v = map_option fst (GetRowCount (lpKeyTable v))"

definition bookmark_origin :: "u32 \<Rightarrow> seek_origin" where
  "bookmark_origin bk =
     (if bk = 0 then EC_SEEK_SET else if bk = 1 then EC_SEEK_CUR else if bk = 2 then EC_SEEK_END
      else SeekBookmark (unat bk))"

text \<open>The rows that were sought are only handed back on success.\<close>

definition View_SeekRow :: "mem_view \<Rightarrow> u32 \<Rightarrow> int \<Rightarrow> ((hresult \<times> int option) \<times> mem_view) option" where
  "View_SeekRow v bkOrigin lRowCount = do {
     (er, sought, t) \<leftarrow> SeekRow (lpKeyTable v) (bookmark_origin bkOrigin) lRowCount;
     let hr = ZarafaErrorToMAPIError er;
     Some ((hr, if hr = hrSuccess then sought else None), v\<lparr>lpKeyTable := t\<rparr>)
   }"

text \<open>The product with a quotient of floating point numbers is \<open>approx\<close>.\<close>

definition SeekRowApprox ::
  "(nat \<Rightarrow> u32 \<Rightarrow> u32 \<Rightarrow> u32) \<Rightarrow> mem_view \<Rightarrow> u32 \<Rightarrow> u32 \<Rightarrow> (hresult \<times> mem_view) option" where
  "SeekRowApprox approx v ulNumerator ulDenominator = do {
     (rows, cur) \<leftarrow> GetRowCount (lpKeyTable v);
     ((hr, sought), v) \<leftarrow> View_SeekRow v 0 (sint (approx rows ulNumerator ulDenominator));
     Some (hr, v)
   }"

definition QueryPosition :: "mem_view \<Rightarrow> (int \<times> int \<times> int) option" where
  "QueryPosition v = do {
     (rows, cur) \<leftarrow> GetRowCount (lpKeyTable v);
     Some (cur, cur, int rows)
   }"

definition View_CreateBookmark :: "mem_view \<Rightarrow> ((hresult \<times> nat option) \<times> mem_view) option" where
  "View_CreateBookmark v = do {
     (er, bk, t) \<leftarrow> CreateBookmark (lpKeyTable v);
     Some ((ZarafaErrorToMAPIError er, bk), v\<lparr>lpKeyTable := t\<rparr>)
   }"

definition View_FreeBookmark :: "mem_view \<Rightarrow> u32 \<Rightarrow> hresult \<times> mem_view" where
  "View_FreeBookmark v bk =
     (case FreeBookmark (lpKeyTable v) (unat bk) of (er, t) \<Rightarrow> (ZarafaErrorToMAPIError er, v\<lparr>lpKeyTable := t\<rparr>))"

definition TBL_NOADVANCE :: u32 where "TBL_NOADVANCE = 1"

definition View_QueryRows ::
  "mem_table \<Rightarrow> mem_view \<Rightarrow> u32 \<Rightarrow> u32 \<Rightarrow> ((hresult + sprop list list) \<times> mem_view) option" where
  "View_QueryRows m v lRowCount ulFlags = do {
     (ks, t) \<leftarrow> QueryRows (lpKeyTable v) (unat lRowCount) False (ulFlags AND TBL_NOADVANCE \<noteq> 0) False;
     let v = v\<lparr>lpKeyTable := t\<rparr>;
     rows \<leftarrow> QueryRowData m v ks;
     Some (rows, v)
   }"

text \<open>\<open>mapRows[id]\<close> adds an empty row where there is none.\<close>

definition empty_entry :: table_entry where
  "empty_entry = \<lparr>te_lpsPropVal = [], te_fDeleted = False, te_fDirty = False, te_fNew = False, te_lpsID = None\<rparr>"

definition touch_row :: "mem_table \<Rightarrow> u32 \<Rightarrow> mem_table" where
  "touch_row m i =
     (if entry_at m i = None then m\<lparr>mapRows := put_entry i empty_entry (mapRows m)\<rparr> else m)"

definition props_at :: "mem_table \<Rightarrow> u32 \<Rightarrow> sprop list" where
  "props_at m i = (case entry_at m i of None \<Rightarrow> [] | Some e \<Rightarrow> te_lpsPropVal e)"

text \<open>The loop of \<open>FindRow\<close>: the first row from the cursor on that matches, with the cursor put back on it.\<close>

partial_function (option) FindRow_loop ::
  "restriction \<Rightarrow> bool \<Rightarrow> mem_table \<Rightarrow> mem_view \<Rightarrow> ((hresult \<times> mem_table) \<times> mem_view) option" where
  "FindRow_loop r backward m v = do {
     (ks, t) \<leftarrow> QueryRows (lpKeyTable v) 1 backward False False;
     let v = v\<lparr>lpKeyTable := t\<rparr>;
     case ks of
       [] \<Rightarrow> Some ((MAPI_E_NOT_FOUND, m), v)
     | k # _ \<Rightarrow> do {
         let m = touch_row m (ulObjId k);
         hr \<leftarrow> TestRestriction (m_locale v) (props_at m (ulObjId k)) 0 r;
         if hr = hrSuccess then do {
           ((hr, sought), v) \<leftarrow> View_SeekRow v 1 (if backward then 1 else - 1);
           Some ((converted_again hr, m), v)
         }
         else FindRow_loop r backward m v
       }
   }"

text \<open>From the place that the caller names; backward from the end, from the last row.\<close>

definition find_from ::
  "mem_table \<Rightarrow> mem_view \<Rightarrow> restriction \<Rightarrow> u32 \<Rightarrow> bool \<Rightarrow> ((hresult \<times> mem_table) \<times> mem_view) option" where
  "find_from m v r bkOrigin backward = do {
     ((hr, sought), v) \<leftarrow> View_SeekRow v bkOrigin (if bkOrigin = 2 \<and> backward then - 1 else 0);
     if converted_again hr \<noteq> hrSuccess then Some ((converted_again hr, m), v)
     else FindRow_loop r backward m v
   }"

text \<open>
  A test of the row id from the beginning is answered by the key table, whatever its \<open>relop\<close>. The
  restriction is not null.
\<close>

definition FindRow ::
  "mem_table \<Rightarrow> mem_view \<Rightarrow> restriction \<Rightarrow> u32 \<Rightarrow> bool \<Rightarrow> ((hresult \<times> mem_table) \<times> mem_view) option" where
  "FindRow m v r bkOrigin backward =
     (case r of
        RProperty relop tag q \<Rightarrow>
          (if ulPropTag q = ulRowPropTag m \<and> bkOrigin = 0 then
             (case SeekId (lpKeyTable v) (row_item (val_ul (sp_val q))) of
                (er, t) \<Rightarrow> Some ((ZarafaErrorToMAPIError er, m), v\<lparr>lpKeyTable := t\<rparr>))
           else find_from m v r bkOrigin backward)
      | _ \<Rightarrow> find_from m v r bkOrigin backward)"

end
