(* ===== verification/Restriction_Facts.thy ===== *)
theory Restriction_Facts
  imports Restriction "HOL-Library.List_Lexorder"
begin

text \<open>
  What tests of restrictions mean: the string functions as relations on lists, the comparison of
  values as a linear order where the difference fits, and \<open>TestRestriction\<close> as the boolean meaning
  of a restriction, together with the cases in which it is something else.
\<close>

subsection \<open>Strings\<close>

lemma strcmp_less: "strcmp as bs < 0 \<longleftrightarrow> as < bs" "strcmp as bs = 0 \<longleftrightarrow> as = bs" "strcmp as bs > 0 \<longleftrightarrow> bs < as"
  by (induction as bs rule: strcmp.induct) auto

lemma map_mono_less:
  fixes f :: "'a :: linorder \<Rightarrow> 'b :: linorder"
  assumes "\<And>x y. f x < f y \<longleftrightarrow> x < y"
  shows "map f xs < map f ys \<longleftrightarrow> xs < ys"
proof -
  have eq: "f x = f y \<longleftrightarrow> x = y" for x y using assms[of x y] assms[of y x] by (cases x y rule: linorder_cases) auto
  show ?thesis by (induction xs ys rule: list_induct2') (auto simp: assms eq)
qed

lemma uint_map_less [simp]: "map uint xs < map uint ys \<longleftrightarrow> xs < ys"
  by (rule map_mono_less) (simp add: word_less_def)

lemma uint_map_eq [simp]: "map uint xs = map uint ys \<longleftrightarrow> xs = ys"
  by (rule inj_map_eq_map) (auto simp: inj_def intro: word_uint_eqI)

lemma strstr_sublist: "strstr hay needle \<longleftrightarrow> sublist needle hay"
  by (induction hay needle rule: strstr.induct) (auto simp: sublist_Cons_right)

lemma strncmp_prefix: "length s2 \<le> length s1 \<Longrightarrow> strncmp (length s2) s1 s2 = 0 \<longleftrightarrow> prefix s2 s1"
  by (auto simp: strncmp_def strcmp_less prefix_def) (metis append_take_drop_id)

lemma str_startswith_prefix:
  "str_startswith s1 s2 \<longleftrightarrow> prefix s2 s1" "wcs_startswith t1 t2 \<longleftrightarrow> prefix t2 t1"
  "str_istartswith e s1 s2 \<longleftrightarrow> prefix (map (pe_lowerA e) s2) (map (pe_lowerA e) s1)"
  "wcs_istartswith e t1 t2 \<longleftrightarrow> prefix (map (pe_lowerW e) t2) (map (pe_lowerW e) t1)"
  using strncmp_prefix[of s2 s1] strncmp_prefix[of t2 t1]
    strncmp_prefix[of "map (pe_lowerA e) s2" "map (pe_lowerA e) s1"]
    strncmp_prefix[of "map (pe_lowerW e) t2" "map (pe_lowerW e) t1"]
  by (auto simp: str_startswith_def wcs_startswith_def str_istartswith_def wcs_istartswith_def dest: prefix_length_le)

lemma icontains_sublist:
  "icontains_loop e hay needle \<longleftrightarrow> sublist (map (pe_lowerW e) needle) (map (pe_lowerW e) hay)"
proof (induction hay)
  case Nil
  then show ?case by (subst icontains_loop.simps) (auto simp: strncmp_def)
next
  case (Cons c hay)
  have "sublist (map (pe_lowerW e) needle) (map (pe_lowerW e) (c # hay)) \<Longrightarrow> length needle \<le> length (c # hay)"
    by (drule sublist_length_le) simp
  moreover have "length needle \<le> length (c # hay) \<Longrightarrow>
      strncmp (length needle) (map (pe_lowerW e) (c # hay)) (map (pe_lowerW e) needle) = 0 \<longleftrightarrow>
      prefix (map (pe_lowerW e) needle) (map (pe_lowerW e) (c # hay))"
    using strncmp_prefix[of "map (pe_lowerW e) needle" "map (pe_lowerW e) (c # hay)"] by simp
  ultimately show ?case
    using Cons by (subst icontains_loop.simps) (auto simp: sublist_Cons_right)
qed

lemma contains_sublist:
  "str_contains s t \<longleftrightarrow> sublist t s" "wcs_contains u v \<longleftrightarrow> sublist v u"
  "str_icontains e s t \<longleftrightarrow> sublist (map (pe_lowerA e) t) (map (pe_lowerA e) s)"
  "wcs_icontains e u v \<longleftrightarrow> sublist (map (pe_lowerW e) v) (map (pe_lowerW e) u)"
  by (simp_all add: str_contains_def wcs_contains_def str_icontains_def wcs_icontains_def strstr_sublist icontains_sublist)

lemmas string_fun_defs = str_equals_def str_iequals_def wcs_equals_def wcs_iequals_def strcmp_less
  str_startswith_prefix contains_sublist

subsection \<open>The search for bytes\<close>

lemma memsubstr_loop_finds:
  assumes "n \<le> pos" "pos \<le> length hay" "n < length needle" "take n needle = take n (drop (pos - n) hay)"
  shows "\<exists>r. memsubstr_loop hay needle pos n = Some r \<and> (r = 0 \<longleftrightarrow> (\<exists>k \<ge> pos - n. prefix needle (drop k hay)))"
  using assms
proof (induction hay needle pos n rule: memsubstr_loop.induct)
  case (1 hay needle pos n)
  let ?s = "pos - n"
  show ?case
  proof (cases "pos < length hay")
    case False
    have "\<not> prefix needle (drop k hay)" if "k \<ge> ?s" for k
      using that False 1(3-5) by (auto dest!: prefix_length_le)
    then show ?thesis using False by (subst memsubstr_loop.simps) auto
  next
    case True
    have hp: "drop ?s hay ! n = hay ! pos" using True 1(3) by simp
    have len: "n < length (drop ?s hay)" using True 1(3) by simp
    show ?thesis
    proof (cases "hay ! pos = needle ! n")
      case eq: True
      have t: "take (Suc n) needle = take (Suc n) (drop ?s hay)"
        using 1(5,6) eq hp len by (simp add: take_Suc_conv_app_nth)
      show ?thesis
      proof (cases "Suc n = length needle")
        case full: True
        then have "prefix needle (drop ?s hay)" using t by (metis take_all order_refl take_is_prefix)
        then have "\<exists>k \<ge> ?s. prefix needle (drop k hay)" by blast
        moreover have "memsubstr_loop hay needle pos n = Some 0"
          using True 1(3,5) eq full by (subst memsubstr_loop.simps) simp
        ultimately show ?thesis by simp
      next
        case False
        have run: "memsubstr_loop hay needle pos n = memsubstr_loop hay needle (Suc pos) (Suc n)"
          using True 1(3,5) eq False by (subst memsubstr_loop.simps) simp
        have "\<exists>r. memsubstr_loop hay needle (Suc pos) (Suc n) = Some r \<and>
            (r = 0 \<longleftrightarrow> (\<exists>k \<ge> Suc pos - Suc n. prefix needle (drop k hay)))"
          using True 1(3,5) eq False t by (intro 1(1)) auto
        then show ?thesis using run by simp
      qed
    next
      case ne: False
      have run: "memsubstr_loop hay needle pos n = memsubstr_loop hay needle (Suc ?s) 0"
        using True 1(3,5) ne by (subst memsubstr_loop.simps) simp
      have no: "\<not> prefix needle (drop ?s hay)"
      proof
        assume "prefix needle (drop ?s hay)"
        then have "needle ! n = drop ?s hay ! n" using 1(5) by (auto simp: prefix_def nth_append)
        then show False using ne hp by simp
      qed
      have "\<exists>r. memsubstr_loop hay needle (Suc ?s) 0 = Some r \<and>
          (r = 0 \<longleftrightarrow> (\<exists>k \<ge> Suc ?s - 0. prefix needle (drop k hay)))"
        using True 1(3,5) ne by (intro 1(2)) auto
      moreover have "(\<exists>k \<ge> Suc ?s. prefix needle (drop k hay)) \<longleftrightarrow> (\<exists>k \<ge> ?s. prefix needle (drop k hay))"
        using no by (metis Suc_leD le_antisym not_less_eq_eq)
      ultimately show ?thesis using run by simp
    qed
  qed
qed

lemma sublist_drop: "sublist xs ys \<longleftrightarrow> (\<exists>k. prefix xs (drop k ys))"
proof
  assume "sublist xs ys"
  then obtain ps ss where "ys = ps @ xs @ ss" by (auto simp: sublist_def)
  then show "\<exists>k. prefix xs (drop k ys)" by (intro exI[of _ "length ps"]) simp
next
  assume "\<exists>k. prefix xs (drop k ys)"
  then obtain k zs where "drop k ys = xs @ zs" by (auto simp: prefix_def)
  then have "ys = take k ys @ xs @ zs" by (metis append_take_drop_id)
  then show "sublist xs ys" by (metis sublist_appendI)
qed

lemma memsubstr_run:
  assumes "needle \<noteq> []" "length needle < 2 ^ 31"
  shows "\<exists>r. memsubstr hay needle = Some r \<and> (r = 0 \<longleftrightarrow> sublist needle hay)"
proof (cases "length hay < length needle")
  case True
  then have "\<not> sublist needle hay" by (auto dest: sublist_length_le)
  moreover have "to_int32 (int (length hay) - int (length needle)) \<noteq> 0"
    using True assms(2) by (subst to_int32_small) auto
  ultimately show ?thesis using True by (simp add: memsubstr_def)
next
  case False
  then show ?thesis
    using memsubstr_loop_finds[of 0 0 hay needle] assms(1) by (simp add: memsubstr_def sublist_drop)
qed

subsection \<open>The order of values\<close>

text \<open>A value as a list of numbers, compared lexicographically; strings without case.\<close>

definition prop_key :: "prop_env \<Rightarrow> pval \<Rightarrow> int list" where
  "prop_key e v =
     (case v of
        PvI2 a \<Rightarrow> [sint a] | PvLong a \<Rightarrow> [uint a] | PvBoolean a \<Rightarrow> [uint a] | PvI8 a \<Rightarrow> [sint a]
      | PvSysTime lo hi \<Rightarrow> [sint hi, uint lo] | PvCurrency lo hi \<Rightarrow> [sint hi, uint lo]
      | PvString8 (Some s) \<Rightarrow> map (uint \<circ> pe_lowerA e) s
      | PvUnicode (Some s) \<Rightarrow> map (uint \<circ> pe_lowerW e) s
      | PvBinary b \<Rightarrow> int (length b) # map uint b
      | PvClsid g \<Rightarrow> map uint g
      | PvDouble d \<Rightarrow> [dbl_key d] | PvR4 d \<Rightarrow> [dbl_key d] | PvAppTime d \<Rightarrow> [dbl_key d]
      | _ \<Rightarrow> [])"

text \<open>A difference that an \<open>int\<close> holds.\<close>

definition int_near :: "int \<Rightarrow> int \<Rightarrow> bool" where
  "int_near a b \<longleftrightarrow> \<bar>a - b\<bar> < 2 ^ 31"

definition comparable :: "pval \<Rightarrow> pval \<Rightarrow> bool" where
  "comparable v w \<longleftrightarrow>
     (case v of
        PvI2 a \<Rightarrow> (case w of PvI2 b \<Rightarrow> True | _ \<Rightarrow> False)
      | PvBoolean a \<Rightarrow> (case w of PvBoolean b \<Rightarrow> True | _ \<Rightarrow> False)
      | PvLong a \<Rightarrow> (case w of PvLong b \<Rightarrow> int_near (uint a) (uint b) | _ \<Rightarrow> False)
      | PvI8 a \<Rightarrow> (case w of PvI8 b \<Rightarrow> int_near (sint a) (sint b) | _ \<Rightarrow> False)
      | PvSysTime lo hi \<Rightarrow> (case w of PvSysTime lo' hi' \<Rightarrow>
          if hi = hi' then int_near (uint lo) (uint lo') else int_near (sint hi) (sint hi') | _ \<Rightarrow> False)
      | PvCurrency lo hi \<Rightarrow> (case w of PvCurrency lo' hi' \<Rightarrow>
          if hi = hi' then int_near (uint lo) (uint lo') else int_near (sint hi) (sint hi') | _ \<Rightarrow> False)
      | PvString8 s \<Rightarrow> (case w of PvString8 t \<Rightarrow> s \<noteq> None \<and> t \<noteq> None | _ \<Rightarrow> False)
      | PvUnicode s \<Rightarrow> (case w of PvUnicode t \<Rightarrow> s \<noteq> None \<and> t \<noteq> None | _ \<Rightarrow> False)
      | PvBinary a \<Rightarrow> (case w of PvBinary b \<Rightarrow> length a < 2 ^ 31 \<and> length b < 2 ^ 31 | _ \<Rightarrow> False)
      | PvClsid a \<Rightarrow> (case w of PvClsid b \<Rightarrow> length a = length b | _ \<Rightarrow> False)
      | PvDouble a \<Rightarrow> (case w of PvDouble b \<Rightarrow> \<not> dbl_nan a \<and> \<not> dbl_nan b | _ \<Rightarrow> False)
      | PvR4 a \<Rightarrow> (case w of PvR4 b \<Rightarrow> \<not> dbl_nan a \<and> \<not> dbl_nan b | _ \<Rightarrow> False)
      | PvAppTime a \<Rightarrow> (case w of PvAppTime b \<Rightarrow> \<not> dbl_nan a \<and> \<not> dbl_nan b | _ \<Rightarrow> False)
      | _ \<Rightarrow> False)"

definition orders :: "int \<Rightarrow> 'a :: linorder \<Rightarrow> 'a \<Rightarrow> bool" where
  "orders r a b \<longleftrightarrow> (r < 0 \<longleftrightarrow> a < b) \<and> (r = 0 \<longleftrightarrow> a = b)"

lemma sint_to_int32: "sint (of_int k :: u32) = to_int32 k"
  by (simp add: sint_uint uint_word_of_int signed_take_bit_eq_take_bit_shift to_int32_def take_bit_eq_mod mod_simps)

lemma diff32_near: "int_near (uint a) (uint b) \<Longrightarrow> diff32 a b = uint a - uint b"
proof -
  assume n: "int_near (uint a) (uint b)"
  have "diff32 a b = to_int32 (uint a - uint b)"
    unfolding diff32_def sint_to_int32[symmetric] by simp
  then show ?thesis using n by (simp add: int_near_def)
qed

lemma diff32_near_sint: "int_near (sint a) (sint b) \<Longrightarrow> diff32 a b = sint a - sint b"
proof -
  assume n: "int_near (sint a) (sint b)"
  have "diff32 a b = to_int32 (sint a - sint b)"
    unfolding diff32_def sint_to_int32[symmetric] by simp
  then show ?thesis using n by (simp add: int_near_def)
qed

lemma ucast_of_int64: "(ucast (of_int k :: u64) :: u32) = of_int k"
  by (rule bit_word_eqI) (simp add: bit_simps)

lemma diff64_near: "int_near (sint a) (sint b) \<Longrightarrow> sint (ucast (a - b :: u64) :: u32) = sint a - sint b"
proof -
  assume n: "int_near (sint a) (sint b)"
  have "a - b = of_int (sint a - sint b)" by simp
  then have "(ucast (a - b) :: u32) = of_int (sint a - sint b)" by (metis ucast_of_int64)
  then have "sint (ucast (a - b) :: u32) = to_int32 (sint a - sint b)" by (simp only: sint_to_int32)
  then show ?thesis using n by (simp add: int_near_def)
qed

lemma memcmp_orders: "length a = length b \<Longrightarrow> orders (memcmp a b) a b"
  using memcmp_lex[of a b] memcmp_zero[of a b] by (auto simp: orders_def)

lemma memcmp_orders_uint: "length a = length b \<Longrightarrow> orders (memcmp a b) (map uint a) (map uint b)"
  using memcmp_orders[of a b] by (simp add: orders_def)

lemma orders_diff: "orders (x - y) [x :: int] [y]" "a = b \<Longrightarrow> orders (x - y) [a :: int, x] [b, y]"
  "a \<noteq> b \<Longrightarrow> orders (a - b) [a :: int, x] [b, y]"
  by (auto simp: orders_def)

lemma CompareSBinary_orders:
  assumes "length a < 2 ^ 31" "length b < 2 ^ 31"
  shows "orders (CompareSBinary a b) (int (length a) # map uint a) (int (length b) # map uint b)"
proof (cases "length a = length b")
  case True
  then show ?thesis
    using memcmp_orders[OF True] by (cases "a = []") (auto simp: CompareSBinary_def orders_def count_diff_def diff32_def)
next
  case False
  have u: "uint (of_nat (length a) :: u32) = int (length a)" "uint (of_nat (length b) :: u32) = int (length b)"
    using assms by (simp_all add: unsigned_of_nat take_bit_nat_eq_self)
  then have "diff32 (of_nat (length a)) (of_nat (length b)) = int (length a) - int (length b)"
    using diff32_near[of "of_nat (length a)" "of_nat (length b)"] assms by (simp add: int_near_def)
  then have "CompareSBinary a b = int (length a) - int (length b)" using False by (auto simp: CompareSBinary_def count_diff_def)
  then show ?thesis using False by (simp add: orders_def)
qed

lemma dbl_cmp_orders: "\<not> dbl_nan a \<Longrightarrow> \<not> dbl_nan b \<Longrightarrow> orders (dbl_cmp a b) [dbl_key a] [dbl_key b]"
  by (auto simp: orders_def dbl_cmp_def)

lemma icompare_orders:
  "orders (str_icompare e s t) (map (uint \<circ> pe_lowerA e) s) (map (uint \<circ> pe_lowerA e) t)"
  "orders (wcs_icompare e u v) (map (uint \<circ> pe_lowerW e) u) (map (uint \<circ> pe_lowerW e) v)"
  by (auto simp: orders_def str_icompare_def wcs_icompare_def Let_def strcmp_less
      uint_map_less[of "map _ _" "map _ _", unfolded map_map] uint_map_eq[of "map _ _" "map _ _", unfolded map_map]
      dest: strcmp_less(2)[THEN iffD1])

lemma cmp_cur_orders:
  assumes "if hi = hi' then int_near (uint lo) (uint lo') else int_near (sint hi) (sint hi')"
  shows "orders (cmp_cur (lo, hi) (lo', hi')) [sint hi, uint lo] [sint hi', uint lo']"
proof (cases "hi = hi'")
  case True
  then show ?thesis using assms orders_diff(2)[of "sint hi" "sint hi'"] by (simp add: cmp_cur_def diff32_near)
next
  case False
  then have "sint hi \<noteq> sint hi'" by (auto dest: signed_word_eqI)
  then show ?thesis using assms False orders_diff(3) by (simp add: cmp_cur_def diff32_near_sint)
qed

lemma cmp_values_orders:
  assumes "comparable v w" "\<not> anr"
  shows "\<exists>r. cmp_values e anr v w = Some r \<and> orders r (prop_key e v) (prop_key e w) \<and> ptype v = ptype w"
  using assms
  by (cases v) (auto simp: comparable_def cmp_values_def prop_key_def ptr_cmp_def diff32_near diff64_near
      split: pval.splits option.splits intro: orders_diff memcmp_orders_uint CompareSBinary_orders dbl_cmp_orders icompare_orders cmp_cur_orders)

subsection \<open>What a restriction means\<close>

text \<open>The value that a row has for a tag, converted to the type of the tag.\<close>

definition row_value :: "prop_env \<Rightarrow> sprop list \<Rightarrow> u32 \<Rightarrow> pval option" where
  "row_value e ps tag = (case row_prop e ps tag of Some (Some p) \<Rightarrow> Some (sp_val p) | _ \<Rightarrow> None)"

text \<open>The characters of a string as numbers, in lower case on demand.\<close>

definition text_of :: "prop_env \<Rightarrow> bool \<Rightarrow> pval \<Rightarrow> int list" where
  "text_of e ic v =
     (case v of PvString8 (Some s) \<Rightarrow> map (uint \<circ> (if ic then pe_lowerA e else id)) s
      | PvUnicode (Some s) \<Rightarrow> map (uint \<circ> (if ic then pe_lowerW e else id)) s
      | _ \<Rightarrow> [])"

definition relates :: "u32 \<Rightarrow> 'a :: linorder \<Rightarrow> 'a \<Rightarrow> bool" where
  "relates relop x y \<longleftrightarrow>
     (if relop = RELOP_LT then x < y else if relop = RELOP_LE then x \<le> y
      else if relop = RELOP_GT then x > y else if relop = RELOP_GE then x \<ge> y
      else if relop = RELOP_EQ then x = y else x \<noteq> y)"

definition text_matches :: "u32 \<Rightarrow> 'a list \<Rightarrow> 'a list \<Rightarrow> bool" where
  "text_matches level data search \<longleftrightarrow>
     (if level = FL_FULLSTRING then data = search
      else if level = FL_PREFIX then prefix search data
      else level = FL_SUBSTRING \<and> sublist search data)"

fun means :: "prop_env \<Rightarrow> sprop list \<Rightarrow> restriction \<Rightarrow> bool" where
  "means e ps (RAnd rs) \<longleftrightarrow> (\<forall>r \<in> set rs. means e ps r)"
| "means e ps (ROr rs) \<longleftrightarrow> (\<exists>r \<in> set rs. means e ps r)"
| "means e ps (RNot r) \<longleftrightarrow> \<not> means e ps r"
| "means e ps (RComment cs r) \<longleftrightarrow> means e ps r"
| "means e ps (RContent fuzzy tag q) \<longleftrightarrow> (\<exists>v. row_value e ps tag = Some v \<and>
     (let ic = fuzzy AND FL_IGNORECASE \<noteq> 0
      in text_matches (fuzzy AND 0xFFFF) (text_of e ic v) (text_of e ic (sp_val q))))"
| "means e ps (RProperty relop tag q) \<longleftrightarrow> (\<exists>v. row_value e ps tag = Some v \<and>
     relates relop (prop_key e v) (prop_key e (sp_val q)))"
| "means e ps (RCompareProps relop tag1 tag2) \<longleftrightarrow> (\<exists>v w. row_value e ps tag1 = Some v \<and>
     row_value e ps tag2 = Some w \<and> relates relop (prop_key e v) (prop_key e w))"
| "means e ps (RBitMask relBMR tag ulMask) \<longleftrightarrow> (\<exists>v. row_value e ps tag = Some v \<and>
     (val_ul v AND ulMask \<noteq> 0 \<longleftrightarrow> relBMR = BMR_NEZ))"
| "means e ps (RSize relop tag cb) \<longleftrightarrow> (\<exists>v. row_value e ps tag = Some v \<and>
     relates relop (PropSize \<lparr>sp_id = 0, sp_val = v\<rparr>) cb)"
| "means e ps (RExist tag) \<longleftrightarrow> row_value e ps tag \<noteq> None"
| "means e ps _ \<longleftrightarrow> False"

text \<open>
  The restrictions that the code answers by their meaning: no conjunction is empty, types agree, differences
  fit, no null strings, and none of the kinds that it calls too complex.
\<close>

definition is_text :: "pval \<Rightarrow> bool" where
  "is_text v \<longleftrightarrow> (case v of PvString8 s \<Rightarrow> s \<noteq> None | PvUnicode s \<Rightarrow> s \<noteq> None | _ \<Rightarrow> False)"

fun clear :: "prop_env \<Rightarrow> sprop list \<Rightarrow> restriction \<Rightarrow> bool" where
  "clear e ps (RAnd rs) \<longleftrightarrow> rs \<noteq> [] \<and> (\<forall>r \<in> set rs. clear e ps r)"
| "clear e ps (ROr rs) \<longleftrightarrow> (\<forall>r \<in> set rs. clear e ps r)"
| "clear e ps (RNot r) \<longleftrightarrow> clear e ps r"
| "clear e ps (RComment cs r) \<longleftrightarrow> clear e ps r"
| "clear e ps (RContent fuzzy tag q) \<longleftrightarrow> PROP_TYPE tag = ptype (sp_val q) \<and> is_text (sp_val q) \<and>
     row_prop e ps tag \<noteq> None"
| "clear e ps (RProperty relop tag q) \<longleftrightarrow> PROP_TYPE tag = ptype (sp_val q) \<and> relop \<le> RELOP_NE \<and>
     ulPropTag q \<noteq> PR_ANR \<and> row_prop e ps tag \<noteq> None \<and>
     (\<forall>v. row_value e ps tag = Some v \<longrightarrow> comparable v (sp_val q))"
| "clear e ps (RCompareProps relop tag1 tag2) \<longleftrightarrow> PROP_TYPE tag1 = PROP_TYPE tag2 \<and> relop \<le> RELOP_NE \<and>
     tag2 \<noteq> PR_ANR \<and> row_prop e ps tag1 \<noteq> None \<and> row_prop e ps tag2 \<noteq> None \<and>
     (\<forall>v w. row_value e ps tag1 = Some v \<and> row_value e ps tag2 = Some w \<longrightarrow> comparable v w)"
| "clear e ps (RBitMask relBMR tag ulMask) \<longleftrightarrow> PROP_TYPE tag = PT_LONG \<and> row_prop e ps tag \<noteq> None"
| "clear e ps (RSize relop tag cb) \<longleftrightarrow> relop \<le> RELOP_NE \<and> row_prop e ps tag \<noteq> None \<and>
     (\<forall>v. row_value e ps tag = Some v \<longrightarrow> int_near (uint (PropSize \<lparr>sp_id = 0, sp_val = v\<rparr>)) (uint cb))"
| "clear e ps (RExist tag) \<longleftrightarrow> row_prop e ps tag \<noteq> None"
| "clear e ps _ \<longleftrightarrow> False"

fun nesting :: "restriction \<Rightarrow> nat" where
  "nesting (RAnd rs) = Suc (Max (insert 0 (nesting ` set rs)))"
| "nesting (ROr rs) = Suc (Max (insert 0 (nesting ` set rs)))"
| "nesting (RNot r) = Suc (nesting r)"
| "nesting (RComment cs r) = Suc (nesting r)"
| "nesting _ = 0"

lemma nesting_le: "r \<in> set rs \<Longrightarrow> nesting r < nesting (RAnd rs)" "r \<in> set rs \<Longrightarrow> nesting r < nesting (ROr rs)"
  by (auto simp: less_Suc_eq_le intro!: Max_ge)

definition answers :: "bool \<Rightarrow> hresult option \<Rightarrow> bool" where
  "answers b r \<longleftrightarrow> (\<exists>hr. r = Some hr \<and> (hr = hrSuccess \<longleftrightarrow> b) \<and> hr \<noteq> MAPI_E_TOO_COMPLEX)"

lemma answers_Some [simp]: "answers b (Some hr) \<longleftrightarrow> (hr = hrSuccess \<longleftrightarrow> b) \<and> hr \<noteq> MAPI_E_TOO_COMPLEX"
  by (simp add: answers_def)

lemma test_result_hr [simp]: "test_result True hr = hrSuccess" "test_result False hrSuccess = MAPI_E_NOT_FOUND"
  "test_result b hrSuccess = (if b then hrSuccess else MAPI_E_NOT_FOUND)"
  by (simp_all add: test_result_def)

lemma answers_relop:
  assumes "relop \<le> RELOP_NE" "orders d a b"
  shows "answers (relates relop a b) (relop_result relop d)"
proof -
  have "unat relop < 6" using assms(1) by (simp add: RELOP_NE_def word_le_nat_alt)
  then have k: "unat relop = 0 \<or> unat relop = 1 \<or> unat relop = 2 \<or> unat relop = 3 \<or> unat relop = 4 \<or> unat relop = 5"
    by linarith
  have u: "unat relop = k \<Longrightarrow> relop = of_nat k" for k
    by (drule arg_cong[of _ _ "of_nat :: nat \<Rightarrow> u32"]) simp
  have "relop = 0 \<or> relop = 1 \<or> relop = 2 \<or> relop = 3 \<or> relop = 4 \<or> relop = 5"
    using k u[of 0] u[of 1] u[of 2] u[of 3] u[of 4] u[of 5] by auto
  then show ?thesis using assms(2)
    by (elim disjE) (auto simp: relop_result_def TestRelop_def relop_defs relates_def orders_def test_result_def)
qed

text \<open>Reading a property: where nothing is undefined, its value or a code that is not \<open>hrSuccess\<close>.\<close>

lemma row_prop_type: "row_prop e ps tag = Some (Some p) \<Longrightarrow> ptype (sp_val p) = PROP_TYPE tag"
  by (auto simp: row_prop_def HrCopyProperty_def pt_defs split: option.splits if_splits pval.splits sum.splits)

lemma row_prop_id: "row_prop e ps tag = Some (Some p) \<Longrightarrow> sp_id p = PROP_ID tag"
proof -
  assume r: "row_prop e ps tag = Some (Some p)"
  then obtain f where f: "PpropFindProp ps (CHANGE_PROP_TYPE tag PT_UNSPECIFIED) = Some f" by (auto simp: row_prop_def split: option.splits)
  then have "sp_id f = PROP_ID tag"
    by (auto simp: PpropFindProp_def find_Some_iff CHANGE_PROP_TYPE_def ulPropTag_def tag_eq)
  then show ?thesis using r f
    by (auto simp: row_prop_def HrCopyProperty_def split: option.splits if_splits pval.splits sum.splits)
qed

lemma answers_with_prop:
  assumes "row_prop e ps tag \<noteq> None"
    "\<And>p. row_prop e ps tag = Some (Some p) \<Longrightarrow> ptype (sp_val p) = PROP_TYPE tag \<Longrightarrow> ulPropTag p = tag \<Longrightarrow>
       row_value e ps tag = Some (sp_val p) \<Longrightarrow> answers b (f p)"
    "row_value e ps tag = None \<Longrightarrow> \<not> b"
  shows "answers b (with_prop e ps tag f)"
proof (cases "row_prop e ps tag")
  case None
  then show ?thesis using assms(1) by simp
next
  case (Some r)
  show ?thesis
  proof (cases r)
    case None
    then have "row_value e ps tag = None" using Some by (simp add: row_value_def)
    then show ?thesis using Some None assms(3) by (simp add: with_prop_def HrGetOneProp_def test_result_def)
  next
    case (Some p)
    with \<open>row_prop e ps tag = Some r\<close> have p: "row_prop e ps tag = Some (Some p)" by simp
    have "ulPropTag p = tag" using row_prop_type[OF p] row_prop_id[OF p] by (simp add: tag_eq)
    then show ?thesis using assms(2)[OF p row_prop_type[OF p]] p
      by (simp add: with_prop_def HrGetOneProp_def row_value_def)
  qed
qed

lemma uint_prefix: "prefix (map uint xs) (map uint ys) \<longleftrightarrow> prefix xs ys"
proof
  assume "prefix (map uint xs) (map uint ys)"
  from prefix_map_rightE[OF this] show "prefix xs ys" by auto
qed (rule map_mono_prefix)

lemma uint_sublist: "sublist (map uint xs) (map uint ys) \<longleftrightarrow> sublist xs ys"
proof
  assume "sublist (map uint xs) (map uint ys)"
  from sublist_map_rightE[OF this] show "sublist xs ys" by auto
qed (rule map_mono_sublist)

lemma text_matches_uint: "text_matches level (map (uint \<circ> g) xs) (map (uint \<circ> g) ys) \<longleftrightarrow> text_matches level (map g xs) (map g ys)"
  by (simp add: text_matches_def uint_prefix uint_sublist flip: map_map)

lemma string_match_is:
  assumes "\<And>d s. eq False d s \<longleftrightarrow> d = s" "\<And>d s. eq True d s \<longleftrightarrow> map g d = map g s"
    "\<And>d s. starts False d s \<longleftrightarrow> prefix s d" "\<And>d s. starts True d s \<longleftrightarrow> prefix (map g s) (map g d)"
    "\<And>d s. contains False d s \<longleftrightarrow> sublist s d" "\<And>d s. contains True d s \<longleftrightarrow> sublist (map g s) (map g d)"
  shows "string_match fuzzy eq starts contains (Some d) (Some s) \<longleftrightarrow>
    text_matches (fuzzy AND 0xFFFF) (map (if fuzzy AND FL_IGNORECASE \<noteq> 0 then g else id) d)
      (map (if fuzzy AND FL_IGNORECASE \<noteq> 0 then g else id) s)"
proof -
  have "length d = length s" if "map g d = map g s" using that by (metis length_map)
  moreover have "length s \<le> length d" if "prefix (map g s) (map g d)" using prefix_length_le[OF that] by simp
  ultimately show ?thesis
    by (cases "fuzzy AND FL_IGNORECASE = 0")
      (auto simp: string_match_def text_matches_def assms fl_defs Let_def dest: prefix_length_le)
qed

lemma is_text_cases: "is_text v \<Longrightarrow> (\<exists>s. v = PvString8 (Some s)) \<or> (\<exists>s. v = PvUnicode (Some s))"
  by (cases v) (auto simp: is_text_def)

lemma text_match_is:
  assumes "is_text v" "is_text w" "ptype v = ptype w"
  shows "content_match e fuzzy v w = Some (let ic = fuzzy AND FL_IGNORECASE \<noteq> 0
      in text_matches (fuzzy AND 0xFFFF) (text_of e ic v) (text_of e ic w))"
proof -
  consider d s where "v = PvString8 (Some d)" "w = PvString8 (Some s)"
    | d s where "v = PvUnicode (Some d)" "w = PvUnicode (Some s)"
    using is_text_cases[OF assms(1)] is_text_cases[OF assms(2)] assms(3) by auto
  then show ?thesis
  proof cases
    case 1
    then show ?thesis
      unfolding content_match_def 1 text_of_def Let_def pval.case prod.case option.case text_matches_uint option.inject
      by (intro string_match_is) (simp_all add: string_fun_defs)
  next
    case 2
    then show ?thesis
      unfolding content_match_def 2 text_of_def Let_def pval.case prod.case option.case text_matches_uint option.inject
      by (intro string_match_is) (simp_all add: string_fun_defs)
  qed
qed

lemma row_value_text:
  assumes "row_value e ps tag = Some v" "PROP_TYPE tag = ptype w" "is_text w"
  shows "is_text v"
proof -
  from assms(1) obtain p where p: "row_prop e ps tag = Some (Some p)" "v = sp_val p"
    by (auto simp: row_value_def split: option.splits)
  have "PROP_TYPE tag = PT_STRING8 \<or> PROP_TYPE tag = PT_UNICODE"
    using assms(2,3) by (cases w) (auto simp: is_text_def pt_defs)
  then show ?thesis using p
    by (auto simp: row_prop_def HrCopyProperty_def is_text_def pt_defs split: option.splits if_splits pval.splits sum.splits)
qed

lemma answers_and:
  assumes "\<And>r. r \<in> set rs \<Longrightarrow> answers (m r) (TestRestriction e ps (Suc l) r)"
  shows "answers (\<forall>r \<in> set rs. m r) (test_and e ps l rs)"
  using assms
proof (induction rs)
  case (Cons r rs)
  from Cons.prems[of r] obtain hr where "TestRestriction e ps (Suc l) r = Some hr" "hr = hrSuccess \<longleftrightarrow> m r" "hr \<noteq> MAPI_E_TOO_COMPLEX"
    by (auto simp: answers_def)
  then show ?case using Cons by (auto simp: test_result_def)
qed simp

lemma answers_or:
  assumes "\<And>r. r \<in> set rs \<Longrightarrow> answers (m r) (TestRestriction e ps (Suc l) r)" "hr \<noteq> MAPI_E_TOO_COMPLEX"
  shows "answers (\<exists>r \<in> set rs. m r) (test_or e ps l hr rs)"
  using assms
proof (induction rs arbitrary: hr)
  case Nil
  then show ?case by (simp add: test_result_def)
next
  case (Cons r rs)
  from Cons.prems(1)[of r] obtain h where
    "TestRestriction e ps (Suc l) r = Some h" "h = hrSuccess \<longleftrightarrow> m r" "h \<noteq> MAPI_E_TOO_COMPLEX"
    by (auto simp: answers_def)
  then show ?case using Cons by auto
qed

lemma PropSize_val: "PropSize \<lparr>sp_id = i, sp_val = sp_val p\<rparr> = PropSize p"
  by (simp add: PropSize_def)

lemma orders_diff32: "int_near (uint a) (uint b) \<Longrightarrow> orders (sint (a - b)) a (b :: u32)"
  using diff32_near[of a b] by (auto simp: diff32_def orders_def word_less_def dest: word_uint_eqI)

lemma compared_orders:
  assumes "comparable (sp_val p) (sp_val q)" "ulPropTag q \<noteq> PR_ANR"
  shows "orders (compared e p q) (prop_key e (sp_val p)) (prop_key e (sp_val q))"
proof -
  from cmp_values_orders[OF assms(1), of "ulPropTag q = PR_ANR" e] assms(2) show ?thesis
    by (auto simp: compared_def CompareProp_def)
qed

lemma TestRestriction_means:
  "clear e ps r \<Longrightarrow> l + nesting r \<le> 16 \<Longrightarrow> answers (means e ps r) (TestRestriction e ps l r)"
proof (induction r arbitrary: l)
  case (RAnd rs)
  have "answers (means e ps r) (TestRestriction e ps (Suc l) r)" if "r \<in> set rs" for r
    using that RAnd nesting_le(1)[OF that] by (intro RAnd.IH) auto
  from answers_and[OF this] show ?case using RAnd.prems
    by (simp add: TestRestriction.simps(1)[of _ _ _ "RAnd rs"] RESTRICT_MAX_RECURSE_LEVEL_def)
next
  case (ROr rs)
  have "answers (means e ps r) (TestRestriction e ps (Suc l) r)" if "r \<in> set rs" for r
    using that ROr nesting_le(2)[OF that] by (intro ROr.IH) auto
  from answers_or[OF this, where hr = hrSuccess] show ?case using ROr.prems
    by (simp add: TestRestriction.simps(1)[of _ _ _ "ROr rs"] RESTRICT_MAX_RECURSE_LEVEL_def)
next
  case (RNot q)
  then have "answers (means e ps q) (TestRestriction e ps (Suc l) q)" by simp
  then show ?case using RNot.prems
    by (auto simp: TestRestriction.simps(1)[of _ _ _ "RNot q"] RESTRICT_MAX_RECURSE_LEVEL_def answers_def)
next
  case (RComment cs q)
  then have "answers (means e ps q) (TestRestriction e ps (Suc l) q)" by simp
  then show ?case using RComment.prems
    by (auto simp: TestRestriction.simps(1)[of _ _ _ "RComment cs q"] RESTRICT_MAX_RECURSE_LEVEL_def answers_def test_result_def)
next
  case (RContent fuzzy tag q)
  have t: "PROP_TYPE tag = PT_STRING8 \<or> PROP_TYPE tag = PT_UNICODE"
    using RContent.prems by (cases "sp_val q") (auto simp: is_text_def pt_defs)
  have "answers (means e ps (RContent fuzzy tag q)) (with_prop e ps tag (\<lambda>p.
      map_option (\<lambda>m. test_result m hrSuccess) (content_match e fuzzy (sp_val p) (sp_val q))))"
  proof (rule answers_with_prop)
    fix p
    assume p: "row_value e ps tag = Some (sp_val p)" "ptype (sp_val p) = PROP_TYPE tag"
    have "is_text (sp_val p)" using row_value_text[OF p(1)] RContent.prems by simp
    with text_match_is[OF this, of "sp_val q" e fuzzy] RContent.prems p(2) show "answers (means e ps (RContent fuzzy tag q))
        (map_option (\<lambda>m. test_result m hrSuccess) (content_match e fuzzy (sp_val p) (sp_val q)))"
      using p(1) by (simp add: Let_def)
  qed (use RContent.prems in auto)
  then show ?case using RContent.prems t
    by (auto simp: TestRestriction.simps(1)[of _ _ _ "RContent fuzzy tag q"] RESTRICT_MAX_RECURSE_LEVEL_def)
next
  case (RProperty relop tag q)
  have "answers (means e ps (RProperty relop tag q)) (with_prop e ps tag (\<lambda>p. relop_result relop (compared e p q)))"
    using RProperty.prems by (intro answers_with_prop) (auto intro!: answers_relop compared_orders)
  then show ?case using RProperty.prems
    by (simp add: TestRestriction.simps(1)[of _ _ _ "RProperty relop tag q"] RESTRICT_MAX_RECURSE_LEVEL_def)
next
  case (RCompareProps relop tag1 tag2)
  have "answers (means e ps (RCompareProps relop tag1 tag2)) (with_prop e ps tag1 (\<lambda>p.
      with_prop e ps tag2 (\<lambda>q. relop_result relop (compared e p q))))"
    using RCompareProps.prems by (intro answers_with_prop) (auto intro!: answers_relop compared_orders)
  then show ?case using RCompareProps.prems
    by (simp add: TestRestriction.simps(1)[of _ _ _ "RCompareProps relop tag1 tag2"] RESTRICT_MAX_RECURSE_LEVEL_def)
next
  case (RBitMask relBMR tag ulMask)
  have "answers (means e ps (RBitMask relBMR tag ulMask)) (with_prop e ps tag (\<lambda>p.
      let fMatch = (val_ul (sp_val p) AND ulMask = 0)
      in Some (test_result (if relBMR = BMR_NEZ then \<not> fMatch else fMatch) hrSuccess)))"
    using RBitMask.prems by (intro answers_with_prop) (auto simp: Let_def)
  then show ?case using RBitMask.prems
    by (simp add: TestRestriction.simps(1)[of _ _ _ "RBitMask relBMR tag ulMask"] RESTRICT_MAX_RECURSE_LEVEL_def)
next
  case (RSize relop tag cb)
  have "answers (means e ps (RSize relop tag cb)) (with_prop e ps tag (\<lambda>p. relop_result relop (sint (PropSize p - cb))))"
    using RSize.prems
    by (intro answers_with_prop) (auto intro!: answers_relop orders_diff32 simp: PropSize_val)
  then show ?case using RSize.prems
    by (simp add: TestRestriction.simps(1)[of _ _ _ "RSize relop tag cb"] RESTRICT_MAX_RECURSE_LEVEL_def)
next
  case (RExist tag)
  have "answers (means e ps (RExist tag)) (with_prop e ps tag (\<lambda>p. Some hrSuccess))"
    using RExist.prems by (intro answers_with_prop) auto
  then show ?case using RExist.prems
    by (simp add: TestRestriction.simps(1)[of _ _ _ "RExist tag"] RESTRICT_MAX_RECURSE_LEVEL_def)
qed simp_all

end
