(* ===== verification/Mem_Table_Facts.thy ===== *)
theory Mem_Table_Facts
  imports Mem_Table Restriction_Facts Key_Limits
begin

text \<open>
  Tables of properties and their views: what a view must show, and that changing rows, sorting and
  restricting keep it so. The proofs compose the contract of the key table in \<open>Key_Facts\<close> with the
  sort keys and restrictions of the view.
\<close>

subsection \<open>Rows that do not differ in their order\<close>

text \<open>Flags of columns that are compared byte by byte.\<close>

definition bytewise :: "u8 list \<Rightarrow> bool" where
  "bytewise fl \<longleftrightarrow> (\<forall>f \<in> set fl. f AND TABLEROW_FLAG_FLOAT = 0 \<and> f AND TABLEROW_FLAG_STRING = 0)"

lemma same_cols:
  assumes "bytewise fl" "fits fl as" "fits fl bs" "length as = length bs" "\<not> rowcompare as bs" "\<not> rowcompare bs as"
  shows "as = bs"
  using assms
proof (induction fl arbitrary: as bs)
  case (Cons f fl)
  show ?case
  proof (cases "as = [] \<or> bs = []")
    case True
    then show ?thesis using Cons.prems(4) by auto
  next
    case False
    with Cons.prems(2,3) obtain a as' b bs' where c: "as = a # as'" "bs = b # bs'" "sc_flags a = f" "sc_flags b = f"
      "sane a" "sane b" "fits fl as'" "fits fl bs'" by (auto simp: fits_Cons)
    have fab: "sc_flags a = sc_flags b" using c(3,4) by simp
    note r = rowcompare_Cons[OF fab c(5,6)] rowcompare_Cons[OF fab[symmetric] c(6,5)]
    have "\<not> col_before a b" "\<not> col_before b a" using Cons.prems(5,6) unfolding c(1,2) r by auto
    then have rk: "col_rank a = col_rank b"
      using has_flag_eq[OF fab] unfolding col_before_def by (auto split: if_splits)
    have "\<not> has_flag a TABLEROW_FLAG_FLOAT" "\<not> has_flag a TABLEROW_FLAG_STRING"
      "\<not> has_flag b TABLEROW_FLAG_FLOAT" "\<not> has_flag b TABLEROW_FLAG_STRING"
      using Cons.prems(1) c(3,4) by (auto simp: bytewise_def has_flag_def)
    then have "sc_key a = sc_key b" using rk by (simp add: col_rank_def)
    then have "a = b" using fab by simp
    moreover have "as' = bs'"
    proof (rule Cons.IH)
      show "bytewise fl" using Cons.prems(1) by (simp add: bytewise_def)
      show "\<not> rowcompare as' bs'" "\<not> rowcompare bs' as'" using Cons.prems(5,6) rk unfolding c(1,2) r by auto
    qed (use c Cons.prems(4) in auto)
    ultimately show ?thesis using c(1,2) by simp
  qed
qed simp

lemma shows_distinct: "shows_rows fl t xs \<Longrightarrow> distinct (map row_key xs)"
proof -
  assume "shows_rows fl t xs"
  then obtain T where T: "kt_ok t T" "xs = rows_of t T" by (auto simp: shows_rows_def)
  then have "distinct (inorder T)" "inj_on (key_of (kt_heap t)) (set (inorder T))"
    using kt_inj[OF T(1)] wf_distinct[of "kt_root t" "kt_heap t" T] by (auto simp: kt_ok_def kt_store_def)
  then show ?thesis unfolding T(2) rows_of_def by (simp add: distinct_map comp_def)
qed

lemma shows_fits: "shows_rows fl t xs \<Longrightarrow> r \<in> set xs \<Longrightarrow> fits fl (row_cols r)"
  by (auto simp: shows_rows_def rows.in_order_def list_all_iff)

lemma find_row_in: "find_row k xs = Some y \<Longrightarrow> y \<in> set xs \<and> row_key y = k"
  by (auto simp: find_row_def find_Some_iff)

lemma find_row_none: "find_row k xs = None \<Longrightarrow> r \<in> set xs \<Longrightarrow> row_key r \<noteq> k"
  unfolding find_row_def find_None_iff by blast

lemma place_row_set: "set (place_row x xs) = insert x (set xs)"
  using take_drop_set[of "\<lambda>y. \<not> before_row x y" xs] by (auto simp: place_row_def)

text \<open>The rows after an update, as sets: the row is replaced, or it is gone.\<close>

definition row_shape :: "u8 list \<Rightarrow> row \<Rightarrow> bool" where
  "row_shape fl r \<longleftrightarrow> length (row_cols r) = length fl \<and> \<not> row_hidden r"

lemma updated_rows_put:
  assumes b: "bytewise fl" and s: "shows_rows fl t xs" "\<forall>r \<in> set xs. row_shape fl r" and x: "fits fl cols" "length cols = length fl"
    and ty: "ty = TABLE_ROW_ADD \<or> ty = TABLE_ROW_MODIFY"
  shows "set (updated_rows ty (k, cols, False) xs) = insert (k, cols, False) {r \<in> set xs. row_key r \<noteq> k}"
proof (cases "find_row k xs")
  case None
  have "{r \<in> set xs. row_key r \<noteq> k} = set xs" using find_row_none[OF None] by blast
  then show ?thesis using None ty by (elim disjE) (simp_all add: updated_rows_def place_row_set)
next
  case (Some y)
  note y = find_row_in[OF Some]
  have only: "r = y" if "r \<in> set xs" "row_key r = k" for r
    using shows_distinct[OF s(1)] that y by (auto simp: distinct_map inj_on_def)
  show ?thesis
  proof (cases "same_place y (k, cols, False)")
    case True
    have "row_shape fl y" using y s(2) by blast
    then have "row_cols y = cols"
      using same_cols[OF b shows_fits[OF s(1), of y] x(1)] y True x(2)
      by (auto simp: same_place_def before_row_def row_shape_def)
    then have yk: "y = (k, cols, False)" using y \<open>row_shape fl y\<close> by (cases y) (auto simp: row_shape_def)
    have "insert y {r \<in> set xs. row_key r \<noteq> k} = set xs" using y only by blast
    moreover have "updated_rows ty (k, cols, False) xs = xs"
      using True ty Some by (elim disjE) (simp_all add: updated_rows_def)
    ultimately show ?thesis using yk by simp
  next
    case False
    then show ?thesis using ty Some by (elim disjE) (simp_all add: updated_rows_def place_row_set remove_row_def)
  qed
qed

lemma remove_row_set: "set (remove_row k xs) = {r \<in> set xs. row_key r \<noteq> k}"
  by (simp add: remove_row_def)

subsection \<open>What a view must show\<close>

definition view_flags :: "mem_view \<Rightarrow> u8 list" where
  "view_flags v = map (\<lambda>(tag, order). if order = TABLE_SORT_DESCEND then TABLEROW_FLAG_DESC else 0) (lpsSortOrderSet v)"

lemma view_flags_bytewise [simp]: "bytewise (view_flags v)"
  by (auto simp: bytewise_def view_flags_def flag_defs)

lemma view_flags_length [simp]: "length (view_flags v) = length (lpsSortOrderSet v)"
  by (simp add: view_flags_def)

lemma view_flags_simp [simp]: "view_flags (v\<lparr>lpKeyTable := t\<rparr>) = view_flags v"
  "view_flags (v\<lparr>m_notified := ns\<rparr>) = view_flags v"
  by (simp_all add: view_flags_def)

text \<open>
  A view can place a row when its restriction is defined on it and, where the row passes, each of its sort
  keys is; a descending column needs one.
\<close>

definition has_key :: "prop_env \<Rightarrow> sprop list \<Rightarrow> u32 \<Rightarrow> bool" where
  "has_key e ps tag \<longleftrightarrow> (case PpropFindProp ps tag of None \<Rightarrow> False
     | Some p \<Rightarrow> (case GetBinarySortKey e p of Some (Inr k) \<Rightarrow> True | _ \<Rightarrow> False))"

definition sortable :: "mem_view \<Rightarrow> sprop list \<Rightarrow> bool" where
  "sortable v ps \<longleftrightarrow> (\<forall>(tag, order) \<in> set (lpsSortOrderSet v).
     (\<forall>p. PpropFindProp ps tag = Some p \<longrightarrow> GetBinarySortKey (m_locale v) p \<noteq> None) \<and>
     (order = TABLE_SORT_DESCEND \<longrightarrow> has_key (m_locale v) ps tag))"

definition places :: "mem_view \<Rightarrow> sprop list \<Rightarrow> bool" where
  "places v ps \<longleftrightarrow> (case accepts_row v ps of None \<Rightarrow> False | Some b \<Rightarrow> b \<longrightarrow> sortable v ps)"

definition cols_in :: "mem_view \<Rightarrow> sprop list \<Rightarrow> sortcol list" where
  "cols_in v ps = (case sort_cols (m_locale v) ps (lpsSortOrderSet v) of None \<Rightarrow> [] | Some cs \<Rightarrow> cs)"

lemma sort_cols_fit:
  assumes "\<forall>(tag, order) \<in> set sorts. (\<forall>p. PpropFindProp ps tag = Some p \<longrightarrow> GetBinarySortKey e p \<noteq> None) \<and>
     (order = TABLE_SORT_DESCEND \<longrightarrow> has_key e ps tag)"
  shows "\<exists>cs. sort_cols e ps sorts = Some cs \<and> length cs = length sorts \<and>
    fits (map (\<lambda>(tag, order). if order = TABLE_SORT_DESCEND then TABLEROW_FLAG_DESC else 0) sorts) cs"
  using assms
proof (induction sorts)
  case (Cons s sorts)
  obtain tag order where s: "s = (tag, order)" by (cases s)
  from Cons.IH Cons.prems obtain cs where cs: "sort_cols e ps sorts = Some cs" "length cs = length sorts"
    "fits (map (\<lambda>(tag, order). if order = TABLE_SORT_DESCEND then TABLEROW_FLAG_DESC else 0) sorts) cs" by auto
  have k: "\<forall>p. PpropFindProp ps tag = Some p \<longrightarrow> GetBinarySortKey e p \<noteq> None"
    "order = TABLE_SORT_DESCEND \<longrightarrow> has_key e ps tag" using Cons.prems s by auto
  have sane0: "sane \<lparr>sc_flags = 0, sc_key = b\<rparr>" "sane \<lparr>sc_flags = TABLEROW_FLAG_DESC, sc_key = b\<rparr>" for b
    by (simp_all add: sane_def flag_defs)
  show ?case
  proof (cases "PpropFindProp ps tag")
    case None
    then have "order \<noteq> TABLE_SORT_DESCEND" using k(2) by (auto simp: has_key_def)
    then show ?thesis using s cs None sane0 by (auto simp: fits_Cons empty_col_def)
  next
    case (Some p)
    then obtain r where r: "GetBinarySortKey e p = Some r" using k(1) by auto
    show ?thesis
    proof (cases r)
      case (Inl hr)
      then have "order \<noteq> TABLE_SORT_DESCEND" using k(2) Some r by (auto simp: has_key_def)
      then show ?thesis using s cs Some r Inl sane0 by (auto simp: fits_Cons empty_col_def)
    next
      case (Inr b)
      then show ?thesis using s cs Some r sane0 by (auto simp: fits_Cons)
    qed
  qed
qed simp

lemma sortable_cols:
  assumes "sortable v ps"
  shows "sort_cols (m_locale v) ps (lpsSortOrderSet v) = Some (cols_in v ps)" "fits (view_flags v) (cols_in v ps)"
    "length (cols_in v ps) = length (lpsSortOrderSet v)"
  using sort_cols_fit[of "lpsSortOrderSet v" ps "m_locale v"] assms
  by (auto simp: sortable_def cols_in_def view_flags_def)

definition wants :: "mem_view \<Rightarrow> table_entry \<Rightarrow> bool" where
  "wants v e \<longleftrightarrow> \<not> te_fDeleted e \<and> accepts_row v (te_lpsPropVal e) = Some True"

definition view_row :: "mem_view \<Rightarrow> u32 \<Rightarrow> table_entry \<Rightarrow> row" where
  "view_row v i e = (row_item i, cols_in v (te_lpsPropVal e), False)"

text \<open>The rows of a table that a view wants, and a view that shows exactly these.\<close>

definition view_rows :: "mem_view \<Rightarrow> (u32 \<times> table_entry) list \<Rightarrow> row list" where
  "view_rows v rows = map (\<lambda>(i, e). view_row v i e) (filter (\<lambda>(i, e). wants v e) rows)"

definition in_step :: "(u32 \<times> table_entry) list \<Rightarrow> mem_view \<Rightarrow> bool" where
  "in_step rows v \<longleftrightarrow> (\<exists>xs. shows_rows (view_flags v) (lpKeyTable v) xs \<and> set xs = set (view_rows v rows)) \<and>
     (\<forall>(i, e) \<in> set rows. \<not> te_fDeleted e \<longrightarrow> places v (te_lpsPropVal e))"

lemma row_item_eq [simp]: "row_item i = row_item j \<longleftrightarrow> i = j" "ulObjId (row_item i) = i" "ulOrderId (row_item i) = 0"
  by (simp_all add: row_item_def)

lemma view_row_key [simp]: "row_key (view_row v i e) = row_item i" "row_hidden (view_row v i e) = False"
  "row_cols (view_row v i e) = cols_in v (te_lpsPropVal e)"
  by (simp_all add: view_row_def)

definition rising_ids :: "(u32 \<times> table_entry) list \<Rightarrow> bool" where
  "rising_ids rows \<longleftrightarrow> sorted_wrt (\<lambda>x y. fst x < fst y) rows"

lemma put_entry_set:
  "rising_ids rows \<Longrightarrow> set (put_entry i e rows) = insert (i, e) {x \<in> set rows. fst x \<noteq> i}"
  by (induction i e rows rule: put_entry.induct) (auto simp: rising_ids_def)

lemma put_entry_rising: "rising_ids rows \<Longrightarrow> rising_ids (put_entry i e rows)"
proof (induction i e rows rule: put_entry.induct)
  case (2 i e j f r)
  then show ?case using put_entry_set[of r i e] by (auto simp: rising_ids_def)
qed (simp add: rising_ids_def)

lemma map_of_rising: "rising_ids rows \<Longrightarrow> map_of rows i = Some e \<longleftrightarrow> (i, e) \<in> set rows"
proof -
  assume "rising_ids rows"
  then have "distinct (map fst rows)" by (induction rows) (auto simp: rising_ids_def)
  then show ?thesis by simp
qed

lemma view_rows_put:
  assumes "rising_ids rows"
  shows "set (view_rows v (put_entry i e rows)) =
    {r \<in> set (view_rows v rows). row_key r \<noteq> row_item i} \<union> (if wants v e then {view_row v i e} else {})"
  unfolding view_rows_def set_map set_filter put_entry_set[OF assms] by force

subsection \<open>Notifications never fail\<close>

definition null_free :: "pval \<Rightarrow> bool" where
  "null_free v \<longleftrightarrow> (case v of PvString8 s \<Rightarrow> s \<noteq> None | PvUnicode s \<Rightarrow> s \<noteq> None
     | PvMvString8 xs \<Rightarrow> None \<notin> set xs | PvMvUnicode xs \<Rightarrow> None \<notin> set xs
     | PvOther t \<Rightarrow> False | _ \<Rightarrow> True)"

definition readable :: "sprop list \<Rightarrow> bool" where
  "readable ps \<longleftrightarrow> (\<forall>p \<in> set ps. null_free (sp_val p))"

lemma copy_null_free: "HrCopyProperty p = Some (Inr q) \<Longrightarrow> null_free (sp_val q)"
  by (auto simp: HrCopyProperty_def null_free_def split: pval.splits option.splits if_splits)

lemma copy_total: "null_free (sp_val p) \<Longrightarrow> HrCopyProperty p \<noteq> None"
  by (auto simp: HrCopyProperty_def null_free_def split: pval.splits option.splits)

lemma copied_readable: "HrCopyPropertyArray b ps = Some qs \<Longrightarrow> readable qs"
proof (induction ps arbitrary: qs)
  case (Cons p ps)
  then show ?case
    by (auto simp: readable_def split: if_splits bind_splits sum.splits dest: copy_null_free)
qed (simp add: readable_def)

lemma row_cell_total: "readable (te_lpsPropVal en) \<Longrightarrow> row_cell m e en k tag \<noteq> None"
proof -
  assume r: "readable (te_lpsPropVal en)"
  have nf: "null_free (sp_val p)" if "PpropFindProp (te_lpsPropVal en) t = Some p" for p t
    using that r by (auto simp: PpropFindProp_def find_Some_iff readable_def)
  have ty: "\<exists>s. v = PvString8 (Some s)" if "null_free v" "ptype v = PT_STRING8" for v
    using that by (cases v) (auto simp: null_free_def pt_defs)
  have tyw: "\<exists>s. v = PvUnicode (Some s)" if "null_free v" "ptype v = PT_UNICODE" for v
    using that by (cases v) (auto simp: null_free_def pt_defs)
  show ?thesis
  proof (cases "PpropFindProp (te_lpsPropVal en) (PROP_TAG PT_UNSPECIFIED (PROP_ID tag))")
    case None
    then show ?thesis by (simp add: row_cell_def Let_def)
  next
    case (Some p)
    then have n: "null_free (sp_val p)" by (rule nf)
    consider s where "sp_val p = PvString8 (Some s)" | s where "sp_val p = PvUnicode (Some s)"
      | "ptype (sp_val p) \<noteq> PT_STRING8" "ptype (sp_val p) \<noteq> PT_UNICODE"
      using ty[OF n] tyw[OF n] by blast
    then show ?thesis using Some copy_total[OF n] by cases (simp_all add: row_cell_def Let_def pt_defs)
  qed
qed

lemma row_cells_total: "readable (te_lpsPropVal en) \<Longrightarrow> row_cells m e en k tags \<noteq> None"
proof (induction tags)
  case (Cons tag tags)
  then obtain ps where "row_cells m e en k tags = Some ps" by auto
  moreover obtain p where "row_cell m e en k tag = Some p" using row_cell_total[OF Cons.prems] by blast
  ultimately show ?case by simp
qed simp

lemma query_rows_total:
  assumes "\<forall>k \<in> set ks. \<exists>en. entry_at m (ulObjId k) = Some en \<and> readable (te_lpsPropVal en)"
  shows "\<exists>rows. query_rows m v ks = Some (Inr rows) \<and> length rows = length ks"
  using assms
proof (induction ks)
  case (Cons k ks)
  then obtain en rows where "entry_at m (ulObjId k) = Some en" "readable (te_lpsPropVal en)"
    "query_rows m v ks = Some (Inr rows)" "length rows = length ks" by auto
  moreover obtain cs where "row_cells m (m_locale v) en k (lpsPropTags v) = Some cs"
    using row_cells_total[OF calculation(2)] by blast
  ultimately show ?case by (simp add: copy_with_def)
qed simp

lemma notified_runs:
  assumes "ev = TABLE_ROW_ADDED \<or> ev = TABLE_ROW_MODIFIED \<Longrightarrow>
    \<exists>k en. item = Some k \<and> entry_at m (ulObjId k) = Some en \<and> readable (te_lpsPropVal en)"
  shows "\<exists>ns. notified m v ev item prev = Some (v\<lparr>m_notified := ns\<rparr>)"
proof (cases "ev = TABLE_ROW_ADDED \<or> ev = TABLE_ROW_MODIFIED")
  case True
  from assms[OF this] obtain k en where k: "item = Some k" "entry_at m (ulObjId k) = Some en" "readable (te_lpsPropVal en)"
    by blast
  then obtain rows where "query_rows m v [k] = Some (Inr rows)" using query_rows_total[of "[k]" m v] by auto
  then show ?thesis using True k(1) by (auto simp: notified_def Notify_def QueryRowData_def Let_def send_all_def)
next
  case False
  then show ?thesis by (auto simp: notified_def Notify_def Let_def send_all_def)
qed

subsection \<open>Changing one row of a view\<close>

definition shape_rows :: "mem_view \<Rightarrow> row list \<Rightarrow> bool" where
  "shape_rows v xs \<longleftrightarrow> (\<forall>r \<in> set xs. row_shape (view_flags v) r)"

lemma view_put:
  assumes "shows_rows (view_flags v) t xs" "shape_rows v xs" "sortable v ps"
    and ty: "ty = TABLE_ROW_ADD \<or> ty = TABLE_ROW_MODIFY"
  shows "\<exists>res xs'. UpdateRow t ty k (cols_in v ps) False = Some res \<and> ur_er res = erSuccess \<and>
    shows_rows (view_flags v) (ur_table res) xs' \<and> set xs' = insert (k, cols_in v ps, False) {r \<in> set xs. row_key r \<noteq> k}"
proof -
  note c = sortable_cols[OF assms(3)]
  from UpdateRow_step[OF assms(1) c(2), of ty k False] obtain res where
    res: "UpdateRow t ty k (cols_in v ps) False = Some res"
      "(ur_er res, ur_prev res, ur_action res) = update_report ty (k, cols_in v ps, False) xs"
      "shows_rows (view_flags v) (ur_table res) (updated_rows ty (k, cols_in v ps, False) xs)" by blast
  have "set (updated_rows ty (k, cols_in v ps, False) xs) = insert (k, cols_in v ps, False) {r \<in> set xs. row_key r \<noteq> k}"
    using assms(2) c(3) ty by (intro updated_rows_put[OF _ assms(1) _ c(2)]) (simp_all add: shape_rows_def)
  moreover have "ur_er res = erSuccess"
    using res(2) ty by (auto simp: update_report_def split: option.splits)
  ultimately show ?thesis using res by blast
qed

lemma view_delete:
  assumes "shows_rows fl t xs"
  shows "\<exists>res xs'. UpdateRow t TABLE_ROW_DELETE k [] False = Some res \<and>
    shows_rows fl (ur_table res) xs' \<and> set xs' = {r \<in> set xs. row_key r \<noteq> k} \<and>
    ur_action res \<noteq> Some TABLE_ROW_ADD \<and> ur_action res \<noteq> Some TABLE_ROW_MODIFY \<and>
    (if k \<in> row_key ` set xs then ur_er res = erSuccess else ur_er res = ZARAFA_E_NOT_FOUND \<and> ur_table res = t)"
proof -
  from UpdateRow_step[OF assms, of "[]" TABLE_ROW_DELETE k False] obtain res where
    res: "UpdateRow t TABLE_ROW_DELETE k [] False = Some res"
      "(ur_er res, ur_prev res, ur_action res) = update_report TABLE_ROW_DELETE (k, [], False) xs"
      "shows_rows fl (ur_table res) (updated_rows TABLE_ROW_DELETE (k, [], False) xs)" by (auto simp: fits_def)
  have u: "updated_rows TABLE_ROW_DELETE (k, [], False) xs = remove_row k xs" by (simp add: updated_rows_def)
  show ?thesis
  proof (cases "find_row k xs")
    case None
    then have nk: "k \<notin> row_key ` set xs" using find_row_none by blast
    from assms obtain T where T: "kt_ok t T" "xs = rows_of t T" by (auto simp: shows_rows_def)
    have "kt_map t k = None" using find_row_map[OF T(1), of k] None T(2) by simp
    then have "UpdateRow t TABLE_ROW_DELETE k [] False =
        Some \<lparr>ur_er = ZARAFA_E_NOT_FOUND, ur_prev = None, ur_action = None, ur_table = t\<rparr>"
      by (simp add: UpdateRow_def delete_row_def)
    then show ?thesis using res u nk remove_row_set[of k xs] by auto
  next
    case (Some y)
    then have "k \<in> row_key ` set xs" using find_row_in[OF Some] by blast
    then show ?thesis using res u Some remove_row_set[of k xs] by (auto simp: update_report_def)
  qed
qed

lemma accepts_upd [simp]: "accepts_row (v\<lparr>lpKeyTable := t\<rparr>) ps = accepts_row v ps"
  "accepts_row (v\<lparr>m_notified := ns\<rparr>) ps = accepts_row v ps"
  by (simp_all add: accepts_row_def split: option.split)

lemma ModifyRowKey_step:
  assumes s: "shows_rows (view_flags v) (lpKeyTable v) xs" "shape_rows v xs"
    and e: "entry_at m i = Some e" "\<not> te_fDeleted e" "places v (te_lpsPropVal e)"
  shows "\<exists>prev act t xs'. ModifyRowKey m v (row_item i) = Some ((hrSuccess, prev, act), v\<lparr>lpKeyTable := t\<rparr>) \<and>
    shows_rows (view_flags v) t xs' \<and>
    set xs' = {r \<in> set xs. row_key r \<noteq> row_item i} \<union> (if wants v e then {view_row v i e} else {})"
proof (cases "accepts_row v (te_lpsPropVal e) = Some True")
  case True
  have so: "sortable v (te_lpsPropVal e)" using e(3) True by (simp add: places_def)
  from view_put[OF s so, of TABLE_ROW_ADD "row_item i"] obtain res xs' where
    "UpdateRow (lpKeyTable v) TABLE_ROW_ADD (row_item i) (cols_in v (te_lpsPropVal e)) False = Some res"
    "shows_rows (view_flags v) (ur_table res) xs'"
    "set xs' = insert (row_item i, cols_in v (te_lpsPropVal e), False) {r \<in> set xs. row_key r \<noteq> row_item i}" by blast
  then show ?thesis using True e sortable_cols(1)[OF so]
    by (auto simp: ModifyRowKey_def wants_def view_row_def)
next
  case False
  then have "accepts_row v (te_lpsPropVal e) = Some False" using e(3) by (auto simp: places_def split: option.splits)
  moreover from view_delete[OF s(1), of "row_item i"] obtain res xs' where
    "UpdateRow (lpKeyTable v) TABLE_ROW_DELETE (row_item i) [] False = Some res"
    "shows_rows (view_flags v) (ur_table res) xs'" "set xs' = {r \<in> set xs. row_key r \<noteq> row_item i}" by blast
  ultimately show ?thesis using e by (auto simp: ModifyRowKey_def wants_def)
qed

lemma view_upd [simp]:
  "sortable (v\<lparr>lpKeyTable := t\<rparr>) ps = sortable v ps" "sortable (v\<lparr>m_notified := ns\<rparr>) ps = sortable v ps"
  "cols_in (v\<lparr>lpKeyTable := t\<rparr>) ps = cols_in v ps" "cols_in (v\<lparr>m_notified := ns\<rparr>) ps = cols_in v ps"
  by (simp_all add: sortable_def cols_in_def)

lemma view_upd_rows [simp]:
  "places (v\<lparr>lpKeyTable := t\<rparr>) ps = places v ps" "places (v\<lparr>m_notified := ns\<rparr>) ps = places v ps"
  "wants (v\<lparr>lpKeyTable := t\<rparr>) e = wants v e" "wants (v\<lparr>m_notified := ns\<rparr>) e = wants v e"
  "view_rows (v\<lparr>lpKeyTable := t\<rparr>) rows = view_rows v rows" "view_rows (v\<lparr>m_notified := ns\<rparr>) rows = view_rows v rows"
  by (simp_all add: places_def wants_def view_rows_def view_row_def cong: option.case_cong)

lemma view_shape:
  assumes "\<forall>(i, e) \<in> set rows. \<not> te_fDeleted e \<longrightarrow> places v (te_lpsPropVal e)" "set xs = set (view_rows v rows)"
  shows "shape_rows v xs"
  using assms sortable_cols(3)
  by (fastforce simp: shape_rows_def row_shape_def view_rows_def wants_def places_def)

lemma View_UpdateRow_put:
  assumes s: "shows_rows (view_flags v) (lpKeyTable v) xs" "shape_rows v xs"
    and e: "entry_at m i = Some e" "\<not> te_fDeleted e" "places v (te_lpsPropVal e)" "readable (te_lpsPropVal e)"
    and ty: "ty = TABLE_ROW_ADD \<or> ty = TABLE_ROW_MODIFY"
  shows "\<exists>t ns xs'. View_UpdateRow m v ty i = Some (hrSuccess, v\<lparr>lpKeyTable := t, m_notified := ns\<rparr>) \<and>
    shows_rows (view_flags v) t xs' \<and>
    set xs' = {r \<in> set xs. row_key r \<noteq> row_item i} \<union> (if wants v e then {view_row v i e} else {})"
proof -
  have note_ok: "\<exists>ns. notified m (v\<lparr>lpKeyTable := t\<rparr>) ev (Some (row_item i)) prev = Some (v\<lparr>lpKeyTable := t, m_notified := ns\<rparr>)"
    for t ev prev using notified_runs[of ev "Some (row_item i)" m "v\<lparr>lpKeyTable := t\<rparr>" prev] e by auto
  show ?thesis
  proof (cases "lpsSortOrderSet v = [] \<and> lpsRestriction v = None")
    case True
    have c: "cols_in v (te_lpsPropVal e) = []" "wants v e" "sortable v (te_lpsPropVal e)"
      using True e by (simp_all add: cols_in_def wants_def accepts_row_def sortable_def)
    from view_put[OF s c(3) ty, of "row_item i"] obtain res xs' where
      r: "UpdateRow (lpKeyTable v) ty (row_item i) [] False = Some res" "ur_er res = erSuccess"
      "shows_rows (view_flags v) (ur_table res) xs'"
      "set xs' = insert (view_row v i e) {r \<in> set xs. row_key r \<noteq> row_item i}" using c by (auto simp: view_row_def)
    from note_ok obtain ns where "notified m (v\<lparr>lpKeyTable := ur_table res\<rparr>) (event_code (ur_action res)) (Some (row_item i))
        (Some (case ur_prev res of None \<Rightarrow> zero_key | Some k \<Rightarrow> k)) = Some (v\<lparr>lpKeyTable := ur_table res, m_notified := ns\<rparr>)"
      by blast
    then have "View_UpdateRow m v ty i = Some (hrSuccess, v\<lparr>lpKeyTable := ur_table res, m_notified := ns\<rparr>)"
      using True r(1,2) by (simp add: View_UpdateRow_def)
    then show ?thesis using r(3,4) c(2) by auto
  next
    case False
    from ModifyRowKey_step[OF s e(1-3)] obtain prev act t xs' where
      r: "ModifyRowKey m v (row_item i) = Some ((hrSuccess, prev, act), v\<lparr>lpKeyTable := t\<rparr>)"
      "shows_rows (view_flags v) t xs'"
      "set xs' = {r \<in> set xs. row_key r \<noteq> row_item i} \<union> (if wants v e then {view_row v i e} else {})" by blast
    from note_ok obtain ns where "notified m (v\<lparr>lpKeyTable := t\<rparr>) (event_code act) (Some (row_item i))
        (Some (case prev of None \<Rightarrow> zero_key | Some k \<Rightarrow> k)) = Some (v\<lparr>lpKeyTable := t, m_notified := ns\<rparr>)" by blast
    then have "View_UpdateRow m v ty i = Some (hrSuccess, v\<lparr>lpKeyTable := t, m_notified := ns\<rparr>)"
      using False r(1) ty by (auto simp: View_UpdateRow_def)
    then show ?thesis using r(2,3) by blast
  qed
qed

lemma View_UpdateRow_delete:
  assumes "shows_rows (view_flags v) (lpKeyTable v) xs"
  shows "if row_item i \<in> row_key ` set xs
    then \<exists>t ns xs'. View_UpdateRow m v TABLE_ROW_DELETE i = Some (hrSuccess, v\<lparr>lpKeyTable := t, m_notified := ns\<rparr>) \<and>
      shows_rows (view_flags v) t xs' \<and> set xs' = {r \<in> set xs. row_key r \<noteq> row_item i}
    else View_UpdateRow m v TABLE_ROW_DELETE i = Some (MAPI_E_NOT_FOUND, v)"
proof -
  from view_delete[OF assms, of "row_item i"] obtain res xs' where
    r: "UpdateRow (lpKeyTable v) TABLE_ROW_DELETE (row_item i) [] False = Some res"
    "shows_rows (view_flags v) (ur_table res) xs'" "set xs' = {r \<in> set xs. row_key r \<noteq> row_item i}"
    "ur_action res \<noteq> Some TABLE_ROW_ADD" "ur_action res \<noteq> Some TABLE_ROW_MODIFY"
    "if row_item i \<in> row_key ` set xs then ur_er res = erSuccess else ur_er res = ZARAFA_E_NOT_FOUND \<and> ur_table res = lpKeyTable v"
    by blast
  show ?thesis
  proof (cases "row_item i \<in> row_key ` set xs")
    case True
    have "event_code (ur_action res) \<noteq> TABLE_ROW_ADDED \<and> event_code (ur_action res) \<noteq> TABLE_ROW_MODIFIED"
      using r(4,5) by (cases "ur_action res" rule: event_code.cases)
        (simp_all add: TABLE_ROW_ADDED_def TABLE_ROW_MODIFIED_def TABLE_ROW_DELETED_def)
    then obtain ns where "notified m (v\<lparr>lpKeyTable := ur_table res\<rparr>) (event_code (ur_action res)) (Some (row_item i))
        (Some (case ur_prev res of None \<Rightarrow> zero_key | Some k \<Rightarrow> k)) = Some (v\<lparr>lpKeyTable := ur_table res, m_notified := ns\<rparr>)"
      using notified_runs[of "event_code (ur_action res)" "Some (row_item i)" m "v\<lparr>lpKeyTable := ur_table res\<rparr>"] by blast
    then have "View_UpdateRow m v TABLE_ROW_DELETE i = Some (hrSuccess, v\<lparr>lpKeyTable := ur_table res, m_notified := ns\<rparr>)"
      using True r(1,6) by (simp add: View_UpdateRow_def)
    then show ?thesis using True r(2,3) by auto
  next
    case False
    then show ?thesis using r(1,6) by (simp add: View_UpdateRow_def)
  qed
qed

subsection \<open>Changing one row of a table\<close>

lemma in_stepI:
  assumes "shows_rows (view_flags v) t xs" "set xs = set (view_rows v rows)"
    "\<forall>(i, e) \<in> set rows. \<not> te_fDeleted e \<longrightarrow> places v (te_lpsPropVal e)"
  shows "in_step rows (v\<lparr>lpKeyTable := t, m_notified := ns\<rparr>)"
  using assms by (auto simp: in_step_def)

lemma places_put:
  assumes "rising_ids rows" "\<forall>(i, e) \<in> set rows. \<not> te_fDeleted e \<longrightarrow> places v (te_lpsPropVal e)"
    "\<not> te_fDeleted e \<longrightarrow> places v (te_lpsPropVal e)"
  shows "\<forall>(j, f) \<in> set (put_entry i e rows). \<not> te_fDeleted f \<longrightarrow> places v (te_lpsPropVal f)"
  using assms by (auto simp: put_entry_set)

lemma entry_put: "rising_ids rows \<Longrightarrow> map_of (put_entry i e rows) j = (if j = i then Some e else map_of rows j)"
  by (induction i e rows rule: put_entry.induct) (auto simp: rising_ids_def dest: map_of_SomeD)

lemma update_views_put:
  assumes rows: "rising_ids rows" "mapRows m = put_entry i e rows"
    and e: "\<not> te_fDeleted e" "readable (te_lpsPropVal e)"
    and vs: "\<forall>v \<in> set vs. in_step rows v \<and> places v (te_lpsPropVal e)"
    and ty: "ty = TABLE_ROW_ADD \<or> ty = TABLE_ROW_MODIFY"
  shows "\<exists>vs'. update_views m ty i vs = Some (hrSuccess, vs') \<and> length vs' = length vs \<and>
    (\<forall>v \<in> set vs'. in_step (mapRows m) v)"
  using vs
proof (induction vs)
  case (Cons v vs)
  from Cons obtain vs' where vs': "update_views m ty i vs = Some (hrSuccess, vs')" "length vs' = length vs"
    "\<forall>v \<in> set vs'. in_step (mapRows m) v" by auto
  from Cons.prems have "in_step rows v" "places v (te_lpsPropVal e)" by auto
  then obtain xs where xs: "shows_rows (view_flags v) (lpKeyTable v) xs" "set xs = set (view_rows v rows)"
    and pl: "\<forall>(i, e) \<in> set rows. \<not> te_fDeleted e \<longrightarrow> places v (te_lpsPropVal e)" by (auto simp: in_step_def)
  have "entry_at m i = Some e" using rows by (simp add: entry_at_def entry_put)
  from View_UpdateRow_put[OF xs(1) view_shape[OF pl xs(2)] this e(1) \<open>places v _\<close> e(2) ty] obtain t ns xs' where
    u: "View_UpdateRow m v ty i = Some (hrSuccess, v\<lparr>lpKeyTable := t, m_notified := ns\<rparr>)"
    "shows_rows (view_flags v) t xs'"
    "set xs' = {r \<in> set xs. row_key r \<noteq> row_item i} \<union> (if wants v e then {view_row v i e} else {})" by blast
  have "set xs' = set (view_rows v (mapRows m))" unfolding u(3) xs(2) rows(2) view_rows_put[OF rows(1)] ..
  moreover have "\<forall>(j, f) \<in> set (mapRows m). \<not> te_fDeleted f \<longrightarrow> places v (te_lpsPropVal f)"
    unfolding rows(2) using places_put[OF rows(1) pl] \<open>places v _\<close> by blast
  ultimately have "in_step (mapRows m) (v\<lparr>lpKeyTable := t, m_notified := ns\<rparr>)" using in_stepI[OF u(2)] by blast
  then show ?case using u(1) vs' by auto
qed simp

lemma update_views_delete:
  assumes rows: "rising_ids rows" "mapRows m = put_entry i (e\<lparr>te_fDeleted := True, te_fDirty := False, te_fNew := False\<rparr>) rows"
    and e: "(i, e) \<in> set rows"
    and vs: "\<forall>v \<in> set vs. in_step rows v \<and> wants v e"
  shows "\<exists>vs'. update_views m TABLE_ROW_DELETE i vs = Some (hrSuccess, vs') \<and> length vs' = length vs \<and>
    (\<forall>v \<in> set vs'. in_step (mapRows m) v)"
  using vs
proof (induction vs)
  case (Cons v vs)
  from Cons obtain vs' where vs': "update_views m TABLE_ROW_DELETE i vs = Some (hrSuccess, vs')" "length vs' = length vs"
    "\<forall>v \<in> set vs'. in_step (mapRows m) v" by auto
  from Cons.prems have "in_step rows v" "wants v e" by auto
  then obtain xs where xs: "shows_rows (view_flags v) (lpKeyTable v) xs" "set xs = set (view_rows v rows)"
    and pl: "\<forall>(i, e) \<in> set rows. \<not> te_fDeleted e \<longrightarrow> places v (te_lpsPropVal e)" by (auto simp: in_step_def)
  have "view_row v i e \<in> set xs" using xs(2) e \<open>wants v e\<close> by (force simp: view_rows_def)
  then have "row_item i \<in> row_key ` set xs" using view_row_key(1) by (metis imageI)
  with View_UpdateRow_delete[OF xs(1), of i m] obtain t ns xs' where
    u: "View_UpdateRow m v TABLE_ROW_DELETE i = Some (hrSuccess, v\<lparr>lpKeyTable := t, m_notified := ns\<rparr>)"
    "shows_rows (view_flags v) t xs'" "set xs' = {r \<in> set xs. row_key r \<noteq> row_item i}" by auto
  have "set xs' = set (view_rows v (mapRows m))"
    unfolding u(3) xs(2) rows(2) view_rows_put[OF rows(1)] by (simp add: wants_def)
  moreover have "\<forall>(j, f) \<in> set (mapRows m). \<not> te_fDeleted f \<longrightarrow> places v (te_lpsPropVal f)"
    unfolding rows(2) by (rule places_put[OF rows(1) pl]) simp
  ultimately have "in_step (mapRows m) (v\<lparr>lpKeyTable := t, m_notified := ns\<rparr>)" using in_stepI[OF u(2)] by blast
  then show ?case using u(1) vs' by auto
qed simp

end
