(* ===== verification/Restriction_Props.thy ===== *)
theory Restriction_Props
  imports Restriction_Facts
begin

text \<open>
  The properties of restrictions: tests give the boolean meaning, copies test the same, and the
  tests that do not do what their kind promises.
\<close>

subsection \<open>Tests\<close>

text \<open>
  C15: a restriction whose types agree, whose differences fit an \<open>int\<close>, and that nests at most 16 levels
  deep is tested without undefined behaviour, and the test succeeds exactly when the restriction holds of
  the row, read as a formula of comparisons, substrings, bits, sizes and presence.
\<close>

theorem restriction_is_boolean:
  assumes "clear e ps r" "nesting r \<le> 16"
  shows "\<exists>hr. TestRestriction e ps 0 r = Some hr \<and> (hr = hrSuccess \<longleftrightarrow> means e ps r)"
  using TestRestriction_means[OF assms(1), of 0] assms(2) by (auto simp: answers_def)

text \<open>Copies keep the type of every value and every value that a test can read.\<close>

lemma copied_value: "HrCopyProperty p = Some (Inr q) \<Longrightarrow> sp_id q = sp_id p \<and>
    (sp_val q = sp_val p \<or> (\<exists>x. sp_val p = PvObject x \<and> sp_val q = PvObject 0))"
  by (auto simp: HrCopyProperty_def split: pval.splits option.splits if_splits)

lemma copied_tag: "HrCopyProperty p = Some (Inr q) \<Longrightarrow> ptype (sp_val q) = ptype (sp_val p) \<and> ulPropTag q = ulPropTag p"
  using copied_value[of p q] by (auto simp: ulPropTag_def)

lemma copied_compared: "HrCopyProperty p = Some (Inr q) \<Longrightarrow> compared e x q = compared e x p"
proof -
  assume c: "HrCopyProperty p = Some (Inr q)"
  have "cmp_values e b v (PvObject x) = None" for b v x by (cases v) (simp_all add: cmp_values_def)
  then show "compared e x q = compared e x p"
    using copied_value[OF c] copied_tag[OF c] by (elim conjE disjE exE) (simp_all add: compared_def CompareProp_def)
qed

lemma copied_content: "HrCopyProperty p = Some (Inr q) \<Longrightarrow> content_match e f v (sp_val q) = content_match e f v (sp_val p)"
proof -
  assume c: "HrCopyProperty p = Some (Inr q)"
  have "content_match e f v (PvObject x) = None" for x by (cases v) (simp_all add: content_match_def)
  then show "content_match e f v (sp_val q) = content_match e f v (sp_val p)"
    using copied_value[OF c] by (elim conjE disjE exE) simp_all
qed

lemma same_and: "list_all2 (\<lambda>r r'. \<forall>l. TestRestriction e ps l r' = TestRestriction e ps l r) rs rs' \<Longrightarrow>
    test_and e ps l rs' = test_and e ps l rs"
  by (induction rs rs' rule: list_all2_induct) (simp_all cong: if_cong)

lemma same_or: "list_all2 (\<lambda>r r'. \<forall>l. TestRestriction e ps l r' = TestRestriction e ps l r) rs rs' \<Longrightarrow>
    test_or e ps l hr rs' = test_or e ps l hr rs"
  by (induction rs rs' arbitrary: hr rule: list_all2_induct) (simp_all cong: if_cong)

lemma copy_with_Inr: "copy_with f x = Some (Inr y) \<longleftrightarrow> (\<exists>z. x = Some (Inr z) \<and> y = f z)"
  by (cases x rule: option.exhaust) (auto simp: copy_with_def split: sum.splits)

lemma copies_test:
  "HrCopySRestriction r = Some (Inr r') \<Longrightarrow> \<forall>l. TestRestriction e ps l r' = TestRestriction e ps l r"
  "copy_restrictions rs = Some (Inr rs') \<Longrightarrow>
    list_all2 (\<lambda>r r'. \<forall>l. TestRestriction e ps l r' = TestRestriction e ps l r) rs rs'"
proof (induction r and rs arbitrary: r' and rs' rule: HrCopySRestriction_copy_restrictions.induct)
  case (1 rs)
  then obtain rs2 where c: "copy_restrictions rs = Some (Inr rs2)" "r' = RAnd rs2" by (auto simp: copy_with_Inr)
  have "rs2 = [] \<longleftrightarrow> rs = []" using 1(1)[OF c(1)] by (auto dest: list_all2_lengthD)
  then show ?case using same_and[OF 1(1)[OF c(1)]] c(2)
    by (simp add: TestRestriction.simps(1)[of _ _ _ "RAnd _"])
next
  case (2 rs)
  then obtain rs2 where c: "copy_restrictions rs = Some (Inr rs2)" "r' = ROr rs2" by (auto simp: copy_with_Inr)
  then show ?case using same_or[OF 2(1)[OF c(1)]]
    by (simp add: TestRestriction.simps(1)[of _ _ _ "ROr _"])
next
  case (3 q)
  then show ?case by (auto simp: copy_with_Inr TestRestriction.simps(1)[of _ _ _ "RNot _"])
next
  case (4 fuzzy tag p)
  then show ?case by (auto simp: copy_with_Inr TestRestriction.simps(1)[of _ _ _ "RContent _ _ _"] copied_content)
next
  case (5 relop tag p)
  then show ?case
    by (auto simp: copy_with_Inr TestRestriction.simps(1)[of _ _ _ "RProperty _ _ _"] copied_compared copied_tag)
next
  case (10 tag q)
  then show ?case by (auto simp: copy_with_Inr TestRestriction.simps(1)[of _ _ _ "RSub _ _"])
next
  case (11 cs q)
  then obtain cs2 where c: "copy_props cs = Some (Inr cs2)" by (auto split: bind_splits sum.splits)
  show ?case
  proof (cases "q = RNull")
    case True
    then show ?thesis using 11(2) c by (auto simp: TestRestriction.simps(1)[of _ _ _ "RComment _ _"])
  next
    case False
    then obtain q' where q: "HrCopySRestriction q = Some (Inr q')" "r' = RComment cs2 q'"
      using 11(2) c by (auto simp: copy_with_Inr)
    then show ?thesis using 11(1)[OF c refl False q(1)] by (simp add: TestRestriction.simps(1)[of _ _ _ "RComment _ _"])
  qed
next
  case (15 r rs)
  then show ?case by (auto simp: copy_with_Inr split: bind_splits sum.splits)
qed auto

text \<open>
  A copy of a restriction, with its values, tests like the original on every row and at every level, also
  where the test fails or is undefined.
\<close>

theorem copy_tests_same:
  assumes "HrCopySRestriction r = Some (Inr r')"
  shows "TestRestriction e ps l r' = TestRestriction e ps l r"
  using copies_test(1)[OF assms] by blast

subsection \<open>Tests that go wrong\<close>

lemma single_prop:
  "HrCopyProperty p = Some (Inr p) \<Longrightarrow> ptype (sp_val p) \<noteq> PT_ERROR \<Longrightarrow> ulPropTag p = tag \<Longrightarrow> row_prop e [p] tag = Some (Some p)"
proof -
  assume p: "HrCopyProperty p = Some (Inr p)" "ptype (sp_val p) \<noteq> PT_ERROR" "ulPropTag p = tag"
  have "PpropFindProp [p] (CHANGE_PROP_TYPE tag PT_UNSPECIFIED) = Some p"
    using p(3) by (auto simp: PpropFindProp_def CHANGE_PROP_TYPE_def)
  moreover have t: "PROP_TYPE tag = ptype (sp_val p)" using p(3) by auto
  moreover have "\<not> (ptype (sp_val p) = PT_STRING8 \<and> ptype (sp_val p) = PT_UNICODE)"
    "\<not> (ptype (sp_val p) = PT_UNICODE \<and> ptype (sp_val p) = PT_STRING8)" by (auto simp: pt_defs)
  ultimately show "row_prop e [p] tag = Some (Some p)"
    unfolding row_prop_def t using p(1,2) by (simp only: option.case if_False simp_thms option.map sum.case)
qed

lemma diff32_wraps:
  assumes "uint a + 2 ^ 31 < uint (b :: u32)"
  shows "diff32 a b = uint a - uint b + 2 ^ 32"
proof -
  have "diff32 a b = to_int32 (uint a - uint b)" unfolding diff32_def sint_to_int32[symmetric] by simp
  also have "\<dots> = to_int32 (uint a - uint b + 2 ^ 32)"
  proof -
    have "uint a - uint b + 2 ^ 32 + 2 ^ 31 = (uint a - uint b + 2 ^ 31) + 2 ^ 32" by simp
    then show ?thesis unfolding to_int32_def by (metis mod_add_self2)
  qed
  also have "\<dots> = uint a - uint b + 2 ^ 32"
  proof (rule to_int32_small)
    have "uint b < 4294967296" using uint_lt2p[of b] by simp
    then have "0 \<le> 6442450944 + (uint a - uint b)" using uint_ge_0[of a] by linarith
    then show "- (2 ^ 31) \<le> uint a - uint b + 2 ^ 32" by simp
    show "uint a - uint b + 2 ^ 32 < 2 ^ 31" using assms by simp
  qed
  finally show ?thesis .
qed

text \<open>
  Of two times in the same seven minutes of the high word, more than 215 seconds apart, the earlier one
  compares as the later: a row with it is not before the later one.
\<close>

theorem times_compare_wrong:
  assumes "uint a + 2 ^ 31 < uint (b :: u32)"
  shows "CompareProp e \<lparr>sp_id = i, sp_val = PvSysTime a hi\<rparr> \<lparr>sp_id = j, sp_val = PvSysTime b hi\<rparr> =
      Inr (uint a - uint b + 2 ^ 32) \<and>
    TestRestriction e [\<lparr>sp_id = i, sp_val = PvSysTime a hi\<rparr>] 0
      (RProperty RELOP_LT (PROP_TAG 0x40 i) \<lparr>sp_id = j, sp_val = PvSysTime b hi\<rparr>) = Some MAPI_E_NOT_FOUND"
proof -
  let ?p = "\<lparr>sp_id = i, sp_val = PvSysTime a hi\<rparr>" and ?q = "\<lparr>sp_id = j, sp_val = PvSysTime b hi\<rparr>"
  have c: "CompareProp e ?p ?q = Inr (uint a - uint b + 2 ^ 32)"
    using diff32_wraps[OF assms] by (simp add: CompareProp_def cmp_values_def cmp_cur_def)
  have "row_prop e [?p] (PROP_TAG 0x40 i) = Some (Some ?p)"
    by (rule single_prop) (simp_all add: HrCopyProperty_def pt_defs ulPropTag_def)
  then have "with_prop e [?p] (PROP_TAG 0x40 i) f = f ?p" for f by (simp add: with_prop_def HrGetOneProp_def)
  moreover have "0 < uint a - uint b + 2 ^ 32"
  proof -
    have "uint b < 2 ^ 32" using uint_lt2p[of b] by simp
    then show ?thesis using uint_ge_0[of a] by linarith
  qed
  ultimately show ?thesis using c
    by (simp add: TestRestriction.simps(1)[of _ _ _ "RProperty _ _ _"] RESTRICT_MAX_RECURSE_LEVEL_def compared_def
        relop_result_def TestRelop_def test_result_def)
qed

text \<open>
  A full match of binary values never succeeds, not even for equal ones, and a prefix match with a search value
  that is shorter than the data compares bytes behind the end of the search value.
\<close>

theorem binary_tests:
  assumes "s \<noteq> []" "length s < length d"
  shows "TestRestriction e [\<lparr>sp_id = i, sp_val = PvBinary d\<rparr>] 0
      (RContent FL_FULLSTRING (PROP_TAG PT_BINARY i) \<lparr>sp_id = j, sp_val = PvBinary d\<rparr>) = Some MAPI_E_NOT_FOUND \<and>
    TestRestriction e [\<lparr>sp_id = i, sp_val = PvBinary d\<rparr>] 0
      (RContent FL_PREFIX (PROP_TAG PT_BINARY i) \<lparr>sp_id = j, sp_val = PvBinary s\<rparr>) = None"
proof -
  let ?p = "\<lparr>sp_id = i, sp_val = PvBinary d\<rparr>"
  have "row_prop e [?p] (PROP_TAG PT_BINARY i) = Some (Some ?p)"
    by (rule single_prop) (simp_all add: HrCopyProperty_def pt_defs ulPropTag_def)
  then have w: "with_prop e [?p] (PROP_TAG PT_BINARY i) f = f ?p" for f by (simp add: with_prop_def HrGetOneProp_def)
  show ?thesis using assms
    by (auto simp: TestRestriction.simps(1)[of _ _ _ "RContent _ _ _"] RESTRICT_MAX_RECURSE_LEVEL_def w content_match_def
        binary_match_def fl_defs Let_def)
qed

subsection \<open>Examples\<close>

definition restr_demo_env :: prop_env where
  "restr_demo_env = \<lparr>pe_lowerA = (\<lambda>c. if 65 \<le> c \<and> c \<le> 90 then c + 32 else c), pe_lowerW = (\<lambda>c. if 65 \<le> c \<and> c \<le> 90 then c + 32 else c),
     pe_to_wide = map ucast, pe_to_narrow = map ucast, pe_xfrm = id, pe_fdiff = (\<lambda>a b. 0), pe_junk = 0\<rparr>"

text \<open>A subject and a size, and a search for a prefix without case in messages that are not large.\<close>

definition demo_message :: "sprop list" where
  "demo_message = [\<lparr>sp_id = 0x37, sp_val = PvUnicode (Some [72, 105, 33])\<rparr>, \<lparr>sp_id = 0x0E08, sp_val = PvLong 700\<rparr>]"

definition demo_restriction :: restriction where
  "demo_restriction = RAnd [RContent (FL_PREFIX OR FL_IGNORECASE) (PROP_TAG PT_UNICODE 0x37) \<lparr>sp_id = 0x37, sp_val = PvUnicode (Some [104, 73])\<rparr>,
     RNot (RProperty RELOP_GT (PROP_TAG PT_LONG 0x0E08) \<lparr>sp_id = 0x0E08, sp_val = PvLong 1000\<rparr>)]"

lemma demo_rows_read:
  "row_prop restr_demo_env demo_message (PROP_TAG PT_UNICODE 0x37) = Some (Some \<lparr>sp_id = 0x37, sp_val = PvUnicode (Some [72, 105, 33])\<rparr>)"
  "row_prop restr_demo_env demo_message (PROP_TAG PT_LONG 0x0E08) = Some (Some \<lparr>sp_id = 0x0E08, sp_val = PvLong 700\<rparr>)"
  by (simp_all add: row_prop_def demo_message_def PpropFindProp_def CHANGE_PROP_TYPE_def HrCopyProperty_def pt_defs tag_eq)

lemma not_anr: "sp_id p \<noteq> 0x360C \<Longrightarrow> ulPropTag p \<noteq> PR_ANR"
proof -
  have "PROP_ID PR_ANR = 0x360C" by (simp add: PROP_ID_def PR_ANR_def)
  then show "sp_id p \<noteq> 0x360C \<Longrightarrow> ulPropTag p \<noteq> PR_ANR" by (metis ulPropTag_parts(2))
qed

lemma demo_lower: "pe_lowerW restr_demo_env c = (if 65 \<le> c \<and> c \<le> 90 then c + 32 else c)"
  by (simp add: restr_demo_env_def)

theorem restriction_is_boolean_witness:
  "TestRestriction restr_demo_env demo_message 0 demo_restriction = Some hrSuccess"
proof -
  have "clear restr_demo_env demo_message demo_restriction" "means restr_demo_env demo_message demo_restriction"
    by (simp_all add: demo_restriction_def demo_rows_read[unfolded pt_defs] row_value_def is_text_def comparable_def int_near_def relop_defs
        not_anr prop_key_def relates_def text_of_def text_matches_def fl_defs demo_lower Let_def pt_defs)
  moreover have "nesting demo_restriction \<le> 16" by (simp add: demo_restriction_def)
  ultimately show ?thesis using restriction_is_boolean by blast
qed

theorem copy_tests_same_witness:
  "\<exists>r'. HrCopySRestriction demo_restriction = Some (Inr r') \<and>
    TestRestriction restr_demo_env demo_message 3 r' = TestRestriction restr_demo_env demo_message 3 demo_restriction"
proof -
  have "HrCopySRestriction demo_restriction = Some (Inr demo_restriction)"
    by (simp add: demo_restriction_def HrCopyProperty_def copy_with_def)
  then show ?thesis using copy_tests_same by blast
qed

theorem times_compare_wrong_witness:
  "TestRestriction restr_demo_env [\<lparr>sp_id = 0x39, sp_val = PvSysTime 5 0x1D00000\<rparr>] 0
    (RProperty RELOP_LT (PROP_TAG 0x40 0x39) \<lparr>sp_id = 0x39, sp_val = PvSysTime 0x90000000 0x1D00000\<rparr>) = Some MAPI_E_NOT_FOUND"
  using times_compare_wrong[of 5 "0x90000000" restr_demo_env "0x39" "0x1D00000" "0x39"] by simp

theorem binary_tests_witness:
  "TestRestriction restr_demo_env [\<lparr>sp_id = 0xFFF, sp_val = PvBinary [1, 2]\<rparr>] 0
    (RContent FL_PREFIX (PROP_TAG PT_BINARY 0xFFF) \<lparr>sp_id = 0xFFF, sp_val = PvBinary [1]\<rparr>) = None"
  using binary_tests[of "[1]" "[1, 2]" restr_demo_env "0xFFF" "0xFFF"] by simp

end
