(* ===== verification/Mem_Table_Props.thy ===== *)
theory Mem_Table_Props
  imports Mem_Table_Facts Restriction_Props "HOL-Library.Multiset"
begin

text \<open>
  The properties of tables and views: what adding, changing, deleting, sorting and restricting leave
  behind in every view.
\<close>

subsection \<open>Sorting\<close>

lemma query_rows_view:
  "m_locale v = m_locale w \<Longrightarrow> lpsPropTags v = lpsPropTags w \<Longrightarrow> query_rows m v ks = query_rows m w ks"
  by (induction ks) (simp_all split: option.split)

lemma shape_view_row: "sortable v (te_lpsPropVal e) \<Longrightarrow> row_shape (view_flags v) (view_row v i e)"
  using sortable_cols(3) by (simp add: row_shape_def)

lemma add_rows_run:
  assumes "shows_rows (view_flags v) (lpKeyTable v) xs" "shape_rows v xs"
    "\<forall>(i, e) \<in> set rows. entry_at m i = Some e \<and> (\<not> te_fDeleted e \<longrightarrow> places v (te_lpsPropVal e))"
    "distinct (map fst rows)" "\<forall>r \<in> set xs. ulObjId (row_key r) \<notin> fst ` set rows"
  shows "\<exists>t xs'. add_rows m v rows = Some (v\<lparr>lpKeyTable := t\<rparr>) \<and> shows_rows (view_flags v) t xs' \<and>
    set xs' = set xs \<union> set (view_rows v rows)"
  using assms
proof (induction rows arbitrary: v xs)
  case Nil
  then show ?case by (intro exI[of _ "lpKeyTable v"] exI[of _ xs]) (simp add: view_rows_def)
next
  case (Cons x rows)
  obtain i e where x: "x = (i, e)" by (cases x)
  have e: "entry_at m i = Some e" "\<not> te_fDeleted e \<longrightarrow> places v (te_lpsPropVal e)"
    using Cons.prems(3) x by auto
  have rest: "\<forall>(i, e) \<in> set rows. entry_at m i = Some e \<and> (\<not> te_fDeleted e \<longrightarrow> places v (te_lpsPropVal e))"
    "distinct (map fst rows)" "i \<notin> fst ` set rows" using Cons.prems(3,4) x by auto
  show ?case
  proof (cases "te_fDeleted e")
    case True
    then have "view_rows v (x # rows) = view_rows v rows" "add_rows m v (x # rows) = add_rows m v rows"
      using x by (simp_all add: view_rows_def wants_def)
    then show ?thesis using Cons.IH[OF Cons.prems(1,2) rest(1,2)] Cons.prems(5) by simp
  next
    case False
    then have p: "places v (te_lpsPropVal e)" using e(2) by simp
    from ModifyRowKey_step[OF Cons.prems(1,2) e(1) False p] obtain prev act t xs1 where
      m1: "ModifyRowKey m v (row_item i) = Some ((hrSuccess, prev, act), v\<lparr>lpKeyTable := t\<rparr>)"
        "shows_rows (view_flags v) t xs1"
        "set xs1 = {r \<in> set xs. row_key r \<noteq> row_item i} \<union> (if wants v e then {view_row v i e} else {})" by blast
    have "{r \<in> set xs. row_key r \<noteq> row_item i} = set xs"
      using Cons.prems(5) x by (metis (mono_tags, lifting) Collect_cong Collect_mem_eq fst_conv image_eqI list.set_intros(1) row_item_eq(2))
    then have s1: "set xs1 = set xs \<union> (if wants v e then {view_row v i e} else {})" using m1(3) by simp
    have "wants v e \<Longrightarrow> sortable v (te_lpsPropVal e)" using p by (simp add: places_def wants_def)
    then have sh: "shape_rows v xs1" using Cons.prems(2) s1 shape_view_row[of v e i]
      by (auto simp: shape_rows_def split: if_splits)
    have keys: "\<forall>r \<in> set xs1. ulObjId (row_key r) \<notin> fst ` set rows"
      using s1 Cons.prems(5) rest(3) by (auto split: if_splits)
    let ?v = "v\<lparr>lpKeyTable := t\<rparr>"
    have "\<exists>t' xs'. add_rows m ?v rows = Some (?v\<lparr>lpKeyTable := t'\<rparr>) \<and> shows_rows (view_flags ?v) t' xs' \<and>
        set xs' = set xs1 \<union> set (view_rows ?v rows)"
      using m1(2) sh rest(1,2) keys by (intro Cons.IH) (simp_all add: shape_rows_def)
    moreover have "set (view_rows v (x # rows)) = (if wants v e then {view_row v i e} else {}) \<union> set (view_rows v rows)"
      using x by (simp add: view_rows_def)
    moreover have "add_rows m v (x # rows) = add_rows m ?v rows" using x False m1(1) by simp
    ultimately show ?thesis using s1 by (simp add: Un_assoc)
  qed
qed

lemma shows_none: "shows_rows fl t [] \<Longrightarrow> shows_rows fl' t []"
  by (auto simp: shows_rows_def)

lemma rising_distinct: "rising_ids rows \<Longrightarrow> distinct (map fst rows)"
  by (induction rows) (auto simp: rising_ids_def)

lemma view_rows_distinct:
  assumes "rising_ids rows"
  shows "distinct (view_rows v rows)"
proof -
  let ?f = "filter (\<lambda>(i, e). wants v e) rows"
  have "distinct (map fst ?f)" using rising_distinct[OF assms] by (rule distinct_map_filter)
  then have "distinct (map row_item (map fst ?f))" by (subst distinct_map) (simp del: map_map add: inj_on_def)
  moreover have "map row_key (view_rows v rows) = map row_item (map fst ?f)" by (auto simp: view_rows_def)
  ultimately have "distinct (map row_key (view_rows v rows))" by simp
  then show ?thesis by (simp only: distinct_map)
qed

lemma same_rows:
  assumes "shows_rows fl t xs" "rising_ids rows" "set xs = set (view_rows v rows)"
  shows "mset xs = mset (view_rows v rows)"
  using shows_distinct[OF assms(1)] view_rows_distinct[OF assms(2), of v] assms(3)
  by (simp only: distinct_map set_eq_iff_mset_eq_distinct)

text \<open>Refilling a view, whatever its key table showed before.\<close>

lemma UpdateSortOrRestrict_run:
  assumes "shows_rows fl (lpKeyTable v) ys" "rising_ids (mapRows m)"
    "\<forall>(i, e) \<in> set (mapRows m). \<not> te_fDeleted e \<longrightarrow> places v (te_lpsPropVal e)"
    "length (mapRows m) < 2 ^ 31"
  shows "\<exists>t xs. UpdateSortOrRestrict m v = Some (v\<lparr>lpKeyTable := t\<rparr>) \<and> shows_rows (view_flags v) t xs \<and>
    mset xs = mset (view_rows v (mapRows m)) \<and>
    (\<forall>n noadv. \<exists>t'. QueryRows t n False noadv False = Some (map row_key (take n xs), t'))"
proof -
  from Clear_run[OF assms(1)] obtain t0 where t0: "Clear (lpKeyTable v) = Some t0" "shows_rows fl t0 []" by blast
  have sh: "shows_rows (view_flags (v\<lparr>lpKeyTable := t0\<rparr>)) (lpKeyTable (v\<lparr>lpKeyTable := t0\<rparr>)) []"
    using shows_none[OF t0(2)] by simp
  note d = rising_distinct[OF assms(2)]
  have en: "\<forall>(i, e) \<in> set (mapRows m). entry_at m i = Some e \<and>
      (\<not> te_fDeleted e \<longrightarrow> places (v\<lparr>lpKeyTable := t0\<rparr>) (te_lpsPropVal e))"
    using assms(3) map_of_rising[OF assms(2)] by (auto simp: entry_at_def)
  obtain t1 xs where t1: "add_rows m (v\<lparr>lpKeyTable := t0\<rparr>) (mapRows m) = Some (v\<lparr>lpKeyTable := t1\<rparr>)"
      "shows_rows (view_flags v) t1 xs" "set xs = set (view_rows v (mapRows m))"
    using add_rows_run[OF sh _ en d] by (auto simp: shape_rows_def)
  note ms = same_rows[OF t1(2) assms(2) t1(3)]
  have vis: "filter (shown False) xs = xs"
    using t1(3) by (auto simp: filter_id_conv view_rows_def view_row_def)
  have "length xs = length (view_rows v (mapRows m))" using ms by (metis size_mset)
  also have "\<dots> \<le> length (mapRows m)" by (simp add: view_rows_def)
  finally have len: "int (length (filter (shown False) xs)) < 2 ^ 31" using assms(4) vis by simp
  from SeekRow_GetRowCount[OF t1(2) refl len, of 0] obtain t2 where
    t2: "SeekRow t1 EC_SEEK_SET 0 = Some (erSuccess, Some 0, t2)" "shows_rows (view_flags v) t2 xs" by auto
  then have sk: "seek_to t1 EC_SEEK_SET 0 = Some t2" by (simp add: seek_to_def)
  have "\<exists>t'. QueryRows t2 n False noadv False = Some (map row_key (take n xs), t')" for n noadv
    using SeekRow_QueryRows[OF t1(2) len, of n noadv] sk vis by auto
  then show ?thesis using t0(1) t1(1) sk t2(2) ms
    by (intro exI[of _ t2] exI[of _ xs]) (simp add: UpdateSortOrRestrict_def)
qed

text \<open>
  C13: sorting a view leaves it in step with the table: it shows the rows that are not deleted and
  that pass its restriction, each once, in the order of its columns, and reads them from the first on.
\<close>

theorem sort_shows_rows:
  assumes "in_step (mapRows m) v" "rising_ids (mapRows m)" "length (mapRows m) < 2 ^ 31"
    "\<forall>(i, e) \<in> set (mapRows m). \<not> te_fDeleted e \<longrightarrow> places (v\<lparr>lpsSortOrderSet := sorts\<rparr>) (te_lpsPropVal e)"
  shows "\<exists>v' t ns xs. SortTable m v sorts = Some (hrSuccess, v') \<and> in_step (mapRows m) v' \<and>
    v' = v\<lparr>lpsSortOrderSet := sorts, lpKeyTable := t, m_notified := ns\<rparr> \<and>
    mset xs = mset (view_rows v' (mapRows m)) \<and> rows.in_order (view_flags v') (map row_cols xs) \<and>
    (\<forall>n fl. \<exists>v''. View_QueryRows m v' n fl =
       map_option (\<lambda>rows. (rows, v'')) (QueryRowData m v' (map row_key (take (unat n) xs))))"
proof -
  let ?v = "v\<lparr>lpsSortOrderSet := sorts\<rparr>"
  from assms(1) obtain ys where "shows_rows (view_flags v) (lpKeyTable ?v) ys" by (auto simp: in_step_def)
  from UpdateSortOrRestrict_run[OF this assms(2,4,3)] obtain t xs where
    t: "UpdateSortOrRestrict m ?v = Some (?v\<lparr>lpKeyTable := t\<rparr>)" "shows_rows (view_flags ?v) t xs"
      "mset xs = mset (view_rows ?v (mapRows m))"
      "\<And>n noadv. \<exists>t'. QueryRows t n False noadv False = Some (map row_key (take n xs), t')" by blast
  obtain ns where ns: "notified m (?v\<lparr>lpKeyTable := t\<rparr>) TABLE_SORT_DONE None None = Some (?v\<lparr>lpKeyTable := t, m_notified := ns\<rparr>)"
    using notified_runs[of TABLE_SORT_DONE None m "?v\<lparr>lpKeyTable := t\<rparr>" None]
    by (auto simp: TABLE_SORT_DONE_def TABLE_ROW_ADDED_def TABLE_ROW_MODIFIED_def)
  let ?v' = "?v\<lparr>lpKeyTable := t, m_notified := ns\<rparr>"
  have st: "SortTable m v sorts = Some (hrSuccess, ?v')" using t(1) ns by (simp add: SortTable_def)
  have "set xs = set (view_rows ?v (mapRows m))" using t(3) by (metis set_mset_mset)
  then have "in_step (mapRows m) ?v'" using in_stepI[OF t(2) _ assms(4)] by simp
  moreover have "rows.in_order (view_flags ?v') (map row_cols xs)" using t(2) by (simp add: shows_rows_def)
  moreover have "\<exists>v''. View_QueryRows m ?v' n fl =
      map_option (\<lambda>rows. (rows, v'')) (QueryRowData m ?v' (map row_key (take (unat n) xs)))" for n fl
  proof -
    obtain t' where q: "QueryRows t (unat n) False (fl AND TBL_NOADVANCE \<noteq> 0) False = Some (map row_key (take (unat n) xs), t')"
      using t(4) by blast
    have "QueryRowData m (?v'\<lparr>lpKeyTable := t'\<rparr>) ks = QueryRowData m ?v' ks" for ks
      unfolding QueryRowData_def by (rule query_rows_view) simp_all
    then show ?thesis using q
      by (intro exI[of _ "?v'\<lparr>lpKeyTable := t'\<rparr>"]) (simp add: View_QueryRows_def map_conv_bind_option comp_def)
  qed
  ultimately show ?thesis using st t(3) by (intro exI[of _ ?v'] exI[of _ t] exI[of _ ns] exI[of _ xs]) simp
qed

subsection \<open>Changing rows\<close>

text \<open>
  C12: adding or changing a row keeps every view of the table in step: each shows exactly the rows that
  are not deleted and that its restriction lets pass, with their sort keys, in order. The row holds
  a copy of the properties, is marked as changed, and as new when it was not there.
\<close>

theorem put_row_keeps_views:
  assumes m: "rising_ids (mapRows m)" "\<forall>v \<in> set (lstViews m). in_step (mapRows m) v"
    and u: "PpropFindProp props (ulRowPropTag m) = Some u" "i = val_ul (sp_val u)"
    and ty: "ty = TABLE_ROW_ADD \<or> ty = TABLE_ROW_MODIFY"
    and ps: "HrCopyPropertyArray (entry_at m i \<noteq> None) props = Some ps" "\<forall>v \<in> set (lstViews m). places v ps"
    and q: "\<forall>p. lpsID = Some p \<longrightarrow> (\<exists>q. HrCopyProperty p = Some (Inr q))"
  shows "\<exists>m' e. HrModifyRow m ty lpsID props = Some (hrSuccess, m') \<and>
    rising_ids (mapRows m') \<and> (\<forall>v \<in> set (lstViews m'). in_step (mapRows m') v) \<and> length (lstViews m') = length (lstViews m) \<and>
    entry_at m' i = Some e \<and> te_lpsPropVal e = ps \<and> \<not> te_fDeleted e \<and> te_fDirty e \<and>
    te_fNew e = (case entry_at m i of None \<Rightarrow> True | Some f \<Rightarrow> te_fNew f) \<and>
    (\<forall>j. j \<noteq> i \<longrightarrow> entry_at m' j = entry_at m j)"
proof -
  obtain q' where q': "(case lpsID of None \<Rightarrow> Some (Inr None) | Some p \<Rightarrow> copy_with Some (HrCopyProperty p)) =
      Some (Inr q' :: hresult + sprop option)"
    using q by (cases lpsID) (auto simp: copy_with_def)
  define ty' where "ty' = (if entry_at m i = None then TABLE_ROW_ADD else TABLE_ROW_MODIFY)"
  define e where "e = (case entry_at m i of
      None \<Rightarrow> \<lparr>te_lpsPropVal = ps, te_fDeleted = False, te_fDirty = True, te_fNew = True, te_lpsID = q'\<rparr>
    | Some f \<Rightarrow> f\<lparr>te_fDeleted := False, te_fDirty := True, te_lpsPropVal := ps\<rparr>)"
  let ?m = "m\<lparr>mapRows := put_entry i e (mapRows m)\<rparr>"
  have e: "te_lpsPropVal e = ps" "\<not> te_fDeleted e" "te_fDirty e"
    "te_fNew e = (case entry_at m i of None \<Rightarrow> True | Some f \<Rightarrow> te_fNew f)"
    by (simp_all add: e_def split: option.split)
  have run: "HrModifyRow m ty lpsID props = do {
      (hr, vs) \<leftarrow> update_views ?m ty' i (lstViews ?m);
      Some (hr, ?m\<lparr>lstViews := vs\<rparr>) }"
    using u ty ps(1) q' by (cases "entry_at m i") (auto simp: HrModifyRow_def Let_def ty'_def e_def)
  have "readable (te_lpsPropVal e)" using copied_readable[OF ps(1)] e(1) by simp
  moreover have "\<forall>v \<in> set (lstViews ?m). in_step (mapRows m) v \<and> places v (te_lpsPropVal e)" using m(2) ps(2) e(1) by simp
  moreover have "ty' = TABLE_ROW_ADD \<or> ty' = TABLE_ROW_MODIFY" by (simp add: ty'_def)
  ultimately obtain vs' where vs': "update_views ?m ty' i (lstViews ?m) = Some (hrSuccess, vs')"
    "length vs' = length (lstViews m)" "\<forall>v \<in> set vs'. in_step (mapRows ?m) v"
    using update_views_put[OF m(1), of ?m i e "lstViews ?m" ty'] e(2) by auto
  show ?thesis
    using run vs' put_entry_rising[OF m(1), of i e] e entry_put[OF m(1), of i e]
    by (intro exI[of _ "?m\<lparr>lstViews := vs'\<rparr>"] exI[of _ e]) (simp add: entry_at_def)
qed

text \<open>
  C14: deleting a row that every view shows marks it as deleted, takes it out of every view, and leaves
  them in step.
\<close>

theorem delete_row_keeps_views:
  assumes m: "rising_ids (mapRows m)" "\<forall>v \<in> set (lstViews m). in_step (mapRows m) v"
    and u: "PpropFindProp props (ulRowPropTag m) = Some u" "entry_at m (val_ul (sp_val u)) = Some e"
    and w: "\<forall>v \<in> set (lstViews m). wants v e"
  shows "\<exists>m'. HrModifyRow m TABLE_ROW_DELETE lpsID props = Some (hrSuccess, m') \<and>
    rising_ids (mapRows m') \<and> (\<forall>v \<in> set (lstViews m'). in_step (mapRows m') v) \<and>
    entry_at m' (val_ul (sp_val u)) = Some (e\<lparr>te_fDeleted := True, te_fDirty := False, te_fNew := False\<rparr>)"
proof -
  let ?i = "val_ul (sp_val u)" and ?e = "e\<lparr>te_fDeleted := True, te_fDirty := False, te_fNew := False\<rparr>"
  let ?m = "m\<lparr>mapRows := put_entry ?i ?e (mapRows m)\<rparr>"
  have e: "(?i, e) \<in> set (mapRows m)" using u(2) map_of_rising[OF m(1)] by (simp add: entry_at_def)
  obtain vs' where vs': "update_views ?m TABLE_ROW_DELETE ?i (lstViews ?m) = Some (hrSuccess, vs')"
    "\<forall>v \<in> set vs'. in_step (mapRows ?m) v"
    using update_views_delete[OF m(1), of ?m ?i e "lstViews ?m"] e m(2) w by auto
  have "HrModifyRow m TABLE_ROW_DELETE lpsID props = do {
      (hr, vs) \<leftarrow> update_views ?m TABLE_ROW_DELETE ?i (lstViews ?m);
      Some (hr, ?m\<lparr>lstViews := vs\<rparr>) }"
    using u by (simp add: HrModifyRow_def Let_def)
  then show ?thesis
    using vs' put_entry_rising[OF m(1)] entry_put[OF m(1)] by (simp add: entry_at_def)
qed

text \<open>
  C38: when the first view does not show the row, its deletion stops there: the call fails although
  the row is marked as deleted, no view is changed, and another view goes on showing the row.
\<close>

theorem hidden_delete_stops:
  assumes m: "rising_ids (mapRows m)" "\<forall>v \<in> set (lstViews m). in_step (mapRows m) v"
    and u: "PpropFindProp props (ulRowPropTag m) = Some u" "entry_at m (val_ul (sp_val u)) = Some e"
    and vs: "lstViews m = v # vs" "\<not> wants v e" "w \<in> set vs" "wants w e"
  shows "\<exists>m'. HrModifyRow m TABLE_ROW_DELETE lpsID props = Some (MAPI_E_NOT_FOUND, m') \<and> lstViews m' = lstViews m \<and>
    entry_at m' (val_ul (sp_val u)) = Some (e\<lparr>te_fDeleted := True, te_fDirty := False, te_fNew := False\<rparr>) \<and>
    \<not> in_step (mapRows m') w"
proof -
  let ?i = "val_ul (sp_val u)" and ?e = "e\<lparr>te_fDeleted := True, te_fDirty := False, te_fNew := False\<rparr>"
  let ?m = "m\<lparr>mapRows := put_entry ?i ?e (mapRows m)\<rparr>"
  have e: "(?i, e) \<in> set (mapRows m)" using u(2) map_of_rising[OF m(1)] by (simp add: entry_at_def)
  from m(2) vs(1) obtain xs where xs: "shows_rows (view_flags v) (lpKeyTable v) xs" "set xs = set (view_rows v (mapRows m))"
    by (auto simp: in_step_def)
  have "row_item ?i \<notin> row_key ` set xs"
  proof
    assume "row_item ?i \<in> row_key ` set xs"
    then obtain f where "(?i, f) \<in> set (mapRows m)" "wants v f" unfolding xs(2) by (auto simp: view_rows_def view_row_def)
    moreover have "f = e" using map_of_rising[OF m(1)] e calculation(1) by (metis option.inject)
    ultimately show False using vs(2) by simp
  qed
  with View_UpdateRow_delete[OF xs(1), of ?i ?m] have "View_UpdateRow ?m v TABLE_ROW_DELETE ?i = Some (MAPI_E_NOT_FOUND, v)" by simp
  then have run: "HrModifyRow m TABLE_ROW_DELETE lpsID props = Some (MAPI_E_NOT_FOUND, ?m)"
    using u vs(1) by (simp add: HrModifyRow_def Let_def)
  have "\<not> in_step (mapRows ?m) w"
  proof
    assume "in_step (mapRows ?m) w"
    then obtain ys where ys: "shows_rows (view_flags w) (lpKeyTable w) ys" "set ys = set (view_rows w (mapRows ?m))" by (auto simp: in_step_def)
    from m(2) vs(1,3) obtain zs where zs: "shows_rows (view_flags w) (lpKeyTable w) zs" "set zs = set (view_rows w (mapRows m))"
      by (auto simp: in_step_def)
    obtain T T' where T: "kt_ok (lpKeyTable w) T" "ys = rows_of (lpKeyTable w) T" "kt_ok (lpKeyTable w) T'" "zs = rows_of (lpKeyTable w) T'"
      using ys(1) zs(1) by (auto simp: shows_rows_def)
    have k: "find_row (row_item ?i) ys = find_row (row_item ?i) zs" using find_row_map[OF T(1)] find_row_map[OF T(3)] T(2,4) by metis
    have "view_row w ?i e \<in> set zs" using zs(2) e vs(4) by (force simp: view_rows_def)
    then have "find_row (row_item ?i) zs \<noteq> None" using find_row_none view_row_key(1) by metis
    then obtain y where "find_row (row_item ?i) ys = Some y" using k by auto
    then have "y \<in> set ys" "row_key y = row_item ?i" using find_row_in by auto
    then show False unfolding ys(2) by (auto simp: view_rows_put[OF m(1)] wants_def)
  qed
  then show ?thesis using run entry_put[OF m(1), of ?i ?e ?i] by (simp add: entry_at_def)
qed

subsection \<open>A row without the sort property\<close>

text \<open>
  With a descending column, a row that lacks the property and a row that has it are each before the
  other: the place of a row then depends on the order in which the rows were added.
\<close>

theorem missing_key_no_order:
  assumes "PpropFindProp ps tag = Some p" "GetBinarySortKey e p = Some (Inr k)" "k \<noteq> []" "PpropFindProp qs tag = None"
  shows "\<exists>as bs. sort_cols e ps [(tag, TABLE_SORT_DESCEND)] = Some as \<and> sort_cols e qs [(tag, TABLE_SORT_DESCEND)] = Some bs \<and>
    rowcompare as bs \<and> rowcompare bs as"
  using assms by (simp add: empty_col_def col_cmp_def has_flag_def flag_defs)

subsection \<open>Examples\<close>

text \<open>
  Messages with a row id, a subject and sometimes a size; views sorted by falling size that show the messages with
  a size, and those without.
\<close>

definition demo_props :: "u32 \<Rightarrow> u32 option \<Rightarrow> sprop list" where
  "demo_props i n = \<lparr>sp_id = 0x3000, sp_val = PvLong i\<rparr> #
     (case n of None \<Rightarrow> [] | Some n \<Rightarrow> [\<lparr>sp_id = 0x0E08, sp_val = PvLong n\<rparr>])"

definition table_demo_entry :: "u32 \<Rightarrow> u32 option \<Rightarrow> table_entry" where
  "table_demo_entry i n = \<lparr>te_lpsPropVal = demo_props i n, te_fDeleted = False, te_fDirty = False, te_fNew = False, te_lpsID = None\<rparr>"

definition demo_view :: "(u32 \<times> u32) list \<Rightarrow> restriction option \<Rightarrow> keytable \<Rightarrow> mem_view" where
  "demo_view sorts r t = \<lparr>lpKeyTable = t, lpsSortOrderSet = sorts, lpsPropTags = [0x30000003],
     lpsRestriction = r, m_mapAdvise = [], m_ulConnection = 1, m_ulFlags = 0, m_locale = restr_demo_env, m_notified = []\<rparr>"

definition table_demo :: "(u32 \<times> table_entry) list \<Rightarrow> mem_view list \<Rightarrow> mem_table" where
  "table_demo rows vs = \<lparr>mapRows = rows, lstViews = vs, lpsColumns = [0x30000003], ulRowPropTag = 0x30000003\<rparr>"

definition by_size :: "(u32 \<times> u32) list" where
  "by_size = [(0x0E080003, TABLE_SORT_DESCEND)]"

definition has_size :: restriction where
  "has_size = RExist 0x0E080003"

lemma demo_view_upd [simp]: "(demo_view sorts r t)\<lparr>lpKeyTable := t'\<rparr> = demo_view sorts r t'"
  "lpKeyTable (demo_view sorts r t) = t" "(demo_view sorts r t)\<lparr>lpsSortOrderSet := ss\<rparr> = demo_view ss r t"
  by (simp_all add: demo_view_def)

lemma demo_find:
  "PpropFindProp (demo_props i n) 0x30000003 = Some \<lparr>sp_id = 0x3000, sp_val = PvLong i\<rparr>"
  "PpropFindProp (demo_props i n) 0x0E080003 = map_option (\<lambda>n. \<lparr>sp_id = 0x0E08, sp_val = PvLong n\<rparr>) n"
  by (simp_all add: PpropFindProp_def demo_props_def tag_eq PROP_TYPE_def PROP_ID_def pt_defs ulPropTag_def PROP_TAG_def split: option.split)

lemma table_demo_key: "GetBinarySortKey e \<lparr>sp_id = i, sp_val = PvLong n\<rparr> = Some (Inr (be32 n))"
  by (simp add: GetBinarySortKey_def)

lemma demo_size: "row_prop e (demo_props i n) 0x0E080003 = Some (map_option (\<lambda>n. \<lparr>sp_id = 0x0E08, sp_val = PvLong n\<rparr>) n)"
proof -
  have t: "PROP_TYPE 0x0E080003 = PT_LONG" "PROP_ID 0x0E080003 = 0x0E08" by (simp_all add: PROP_TYPE_def PROP_ID_def pt_defs)
  have f: "PpropFindProp (demo_props i n) (CHANGE_PROP_TYPE 0x0E080003 PT_UNSPECIFIED) =
      map_option (\<lambda>n. \<lparr>sp_id = 0x0E08, sp_val = PvLong n\<rparr>) n"
    by (simp add: PpropFindProp_def CHANGE_PROP_TYPE_def demo_props_def t tag_eq split: option.split)
  show ?thesis unfolding row_prop_def f by (cases n) (simp_all add: t HrCopyProperty_def, simp_all add: pt_defs)
qed

lemma demo_accepts:
  "accepts_row (demo_view ss (Some has_size) t) (demo_props i n) = Some (n \<noteq> None)"
  "accepts_row (demo_view ss (Some (RNot has_size)) t) (demo_props i n) = Some (n = None)"
  by (cases n; simp add: accepts_row_def demo_view_def has_size_def TestRestriction.simps(1)[of _ _ _ "RExist _"]
      TestRestriction.simps(1)[of _ _ _ "RNot _"] RESTRICT_MAX_RECURSE_LEVEL_def with_prop_def HrGetOneProp_def demo_size
      PROP_TYPE_def pt_defs test_result_def)+

lemma demo_places: "places (demo_view by_size (Some has_size) t) (demo_props i n)"
  "places (demo_view [] (Some (RNot has_size)) t) (demo_props i n)" "places (demo_view [] (Some has_size) t) (demo_props i n)"
  by (simp_all add: places_def demo_accepts) (auto simp: sortable_def demo_view_def by_size_def has_key_def demo_find table_demo_key)

lemma demo_wants: "wants (demo_view ss (Some has_size) t) (table_demo_entry i n) \<longleftrightarrow> n \<noteq> None"
  "wants (demo_view ss (Some (RNot has_size)) t) (table_demo_entry i n) \<longleftrightarrow> n = None"
  by (auto simp: wants_def table_demo_entry_def demo_accepts)

text \<open>Every table that the views can place has views in step with it.\<close>

lemma view_exists:
  assumes "rising_ids rows" "\<forall>(i, e) \<in> set rows. \<not> te_fDeleted e \<longrightarrow> places v (te_lpsPropVal e)" "length rows < 2 ^ 31"
  shows "\<exists>t. in_step rows (v\<lparr>lpKeyTable := t\<rparr>)"
proof -
  have "\<exists>t xs. UpdateSortOrRestrict (table_demo rows []) (v\<lparr>lpKeyTable := ECKeyTable\<rparr>) = Some (v\<lparr>lpKeyTable := t\<rparr>) \<and>
      shows_rows (view_flags v) t xs \<and> mset xs = mset (view_rows v rows)"
    using UpdateSortOrRestrict_run[OF _ _ _ _, of "[]" "v\<lparr>lpKeyTable := ECKeyTable\<rparr>" "[]" "table_demo rows []"] assms new_table_shows[of "[]"]
    by (auto simp: table_demo_def)
  then obtain t xs where "shows_rows (view_flags v) t xs" "set xs = set (view_rows v rows)" by (metis set_mset_mset)
  then show ?thesis using assms(2) by (intro exI[of _ t]) (auto simp: in_step_def)
qed

definition demo_rows2 :: "(u32 \<times> table_entry) list" where
  "demo_rows2 = [(1, table_demo_entry 1 (Some 5)), (2, table_demo_entry 2 None), (7, table_demo_entry 7 (Some 9))]"

lemma demo_rising: "rising_ids demo_rows2"
  by (simp add: rising_ids_def demo_rows2_def)

lemma demo_views: "\<exists>t1 t2. in_step demo_rows2 (demo_view by_size (Some has_size) t1) \<and>
    in_step demo_rows2 (demo_view [] (Some (RNot has_size)) t2)"
  using view_exists[OF demo_rising, of "demo_view by_size (Some has_size) ECKeyTable"]
    view_exists[OF demo_rising, of "demo_view [] (Some (RNot has_size)) ECKeyTable"]
  by (auto simp: demo_rows2_def table_demo_entry_def demo_places)

lemma demo_copy: "HrCopyPropertyArray b (demo_props i n) = Some (demo_props i n)"
  by (cases n) (simp_all add: demo_props_def HrCopyProperty_def pt_defs)

lemma demo_entries:
  "entry_at (table_demo demo_rows2 vs) 1 = Some (table_demo_entry 1 (Some 5))"
  "entry_at (table_demo demo_rows2 vs) 2 = Some (table_demo_entry 2 None)"
  by (simp_all add: entry_at_def table_demo_def demo_rows2_def)

lemma demo_table_simps [simp]: "mapRows (table_demo rows vs) = rows" "lstViews (table_demo rows vs) = vs"
  "ulRowPropTag (table_demo rows vs) = 0x30000003"
  by (simp_all add: table_demo_def)

text \<open>The message without a size gets one.\<close>

theorem put_row_keeps_views_witness:
  "\<exists>t1 t2 m'. HrModifyRow (table_demo demo_rows2 [demo_view by_size (Some has_size) t1, demo_view [] (Some (RNot has_size)) t2])
      TABLE_ROW_ADD None (demo_props 2 (Some 7)) = Some (hrSuccess, m') \<and>
    length (lstViews m') = 2 \<and> (\<forall>v \<in> set (lstViews m'). in_step (mapRows m') v)"
proof -
  obtain t1 t2 where t: "in_step demo_rows2 (demo_view by_size (Some has_size) t1)"
    "in_step demo_rows2 (demo_view [] (Some (RNot has_size)) t2)" using demo_views by blast
  let ?m = "table_demo demo_rows2 [demo_view by_size (Some has_size) t1, demo_view [] (Some (RNot has_size)) t2]"
  have "\<exists>m' e. HrModifyRow ?m TABLE_ROW_ADD None (demo_props 2 (Some 7)) = Some (hrSuccess, m') \<and>
      rising_ids (mapRows m') \<and> (\<forall>v \<in> set (lstViews m'). in_step (mapRows m') v) \<and> length (lstViews m') = length (lstViews ?m) \<and>
      entry_at m' 2 = Some e \<and> te_lpsPropVal e = demo_props 2 (Some 7) \<and> \<not> te_fDeleted e \<and> te_fDirty e \<and>
      te_fNew e = (case entry_at ?m 2 of None \<Rightarrow> True | Some f \<Rightarrow> te_fNew f) \<and> (\<forall>j. j \<noteq> 2 \<longrightarrow> entry_at m' j = entry_at ?m j)"
    by (rule put_row_keeps_views[where u = "\<lparr>sp_id = 0x3000, sp_val = PvLong 2\<rparr>"])
      (simp_all add: t demo_rising demo_find demo_copy demo_places)
  then obtain m' where "HrModifyRow ?m TABLE_ROW_ADD None (demo_props 2 (Some 7)) = Some (hrSuccess, m')"
    "\<forall>v \<in> set (lstViews m'). in_step (mapRows m') v" "length (lstViews m') = length (lstViews ?m)" by blast
  then show ?thesis by (intro exI[of _ t1] exI[of _ t2] exI[of _ m']) simp
qed

theorem delete_row_keeps_views_witness:
  "\<exists>t m'. in_step demo_rows2 (demo_view by_size (Some has_size) t) \<and>
    HrModifyRow (table_demo demo_rows2 [demo_view by_size (Some has_size) t]) TABLE_ROW_DELETE None (demo_props 1 None) =
      Some (hrSuccess, m') \<and> (\<forall>v \<in> set (lstViews m'). in_step (mapRows m') v)"
proof -
  obtain t where t: "in_step demo_rows2 (demo_view by_size (Some has_size) t)" using demo_views by blast
  let ?m = "table_demo demo_rows2 [demo_view by_size (Some has_size) t]"
  have "\<exists>m'. HrModifyRow ?m TABLE_ROW_DELETE None (demo_props 1 None) = Some (hrSuccess, m') \<and>
      rising_ids (mapRows m') \<and> (\<forall>v \<in> set (lstViews m'). in_step (mapRows m') v) \<and>
      entry_at m' (val_ul (sp_val \<lparr>sp_id = 0x3000, sp_val = PvLong 1\<rparr>)) =
        Some (table_demo_entry 1 (Some 5)\<lparr>te_fDeleted := True, te_fDirty := False, te_fNew := False\<rparr>)"
    by (rule delete_row_keeps_views) (simp_all add: t demo_rising demo_find demo_entries demo_wants)
  then show ?thesis using t by blast
qed

theorem hidden_delete_stops_witness:
  "\<exists>t1 t2 m'. HrModifyRow (table_demo demo_rows2 [demo_view [] (Some (RNot has_size)) t2, demo_view by_size (Some has_size) t1])
      TABLE_ROW_DELETE None (demo_props 1 None) = Some (MAPI_E_NOT_FOUND, m') \<and>
    \<not> in_step (mapRows m') (demo_view by_size (Some has_size) t1)"
proof -
  obtain t1 t2 where t: "in_step demo_rows2 (demo_view by_size (Some has_size) t1)"
    "in_step demo_rows2 (demo_view [] (Some (RNot has_size)) t2)" using demo_views by blast
  let ?m = "table_demo demo_rows2 [demo_view [] (Some (RNot has_size)) t2, demo_view by_size (Some has_size) t1]"
  have "\<exists>m'. HrModifyRow ?m TABLE_ROW_DELETE None (demo_props 1 None) = Some (MAPI_E_NOT_FOUND, m') \<and> lstViews m' = lstViews ?m \<and>
      entry_at m' (val_ul (sp_val \<lparr>sp_id = 0x3000, sp_val = PvLong 1\<rparr>)) =
        Some (table_demo_entry 1 (Some 5)\<lparr>te_fDeleted := True, te_fDirty := False, te_fNew := False\<rparr>) \<and>
      \<not> in_step (mapRows m') (demo_view by_size (Some has_size) t1)"
    by (rule hidden_delete_stops[where v = "demo_view [] (Some (RNot has_size)) t2"
          and vs = "[demo_view by_size (Some has_size) t1]"])
      (simp_all add: t demo_rising demo_find demo_entries demo_wants)
  then show ?thesis by blast
qed

lemma mset_two: "mset xs = {#x, y#} \<Longrightarrow> xs = [x, y] \<or> xs = [y, x]"
proof -
  assume a: "mset xs = {#x, y#}"
  then have "length xs = 2" by (metis size_mset size_add_mset size_empty numeral_2_eq_2)
  then obtain c d where "xs = [c, d]" by (auto simp: numeral_2_eq_2 length_Suc_conv)
  moreover have "set xs = {x, y}" using a by (metis set_mset_mset set_mset_add_mset_insert set_mset_empty)
  ultimately show "xs = [x, y] \<or> xs = [y, x]" by (auto simp: doubleton_eq_iff)
qed

text \<open>The view of the messages with a size, sorted: the rows 7 and 1.\<close>

theorem sort_shows_rows_witness:
  "\<exists>t v' v''. SortTable (table_demo demo_rows2 []) (demo_view [] (Some has_size) t) by_size = Some (hrSuccess, v') \<and>
    View_QueryRows (table_demo demo_rows2 []) v' 10 0 =
      Some (Inr [[\<lparr>sp_id = 0x3000, sp_val = PvLong 7\<rparr>], [\<lparr>sp_id = 0x3000, sp_val = PvLong 1\<rparr>]], v'')"
proof -
  let ?m = "table_demo demo_rows2 []"
  obtain t where t: "in_step demo_rows2 (demo_view [] (Some has_size) t)"
    using view_exists[OF demo_rising, of "demo_view [] (Some has_size) ECKeyTable"] by (auto simp: demo_rows2_def table_demo_entry_def demo_places)
  let ?v = "demo_view [] (Some has_size) t"
  have p: "\<forall>(i, e) \<in> set demo_rows2. \<not> te_fDeleted e \<longrightarrow> places (demo_view by_size (Some has_size) t) (te_lpsPropVal e)"
    by (simp add: demo_rows2_def table_demo_entry_def demo_places)
  have l: "length demo_rows2 < 2 ^ 31" by (simp add: demo_rows2_def)
  from sort_shows_rows[of ?m ?v by_size, unfolded demo_table_simps demo_view_upd, OF t demo_rising l p] obtain v' t' ns xs where
    s: "SortTable ?m ?v by_size = Some (hrSuccess, v')" "v' = (demo_view by_size (Some has_size) t')\<lparr>m_notified := ns\<rparr>"
      "mset xs = mset (view_rows v' demo_rows2)" "rows.in_order (view_flags v') (map row_cols xs)"
      "\<And>n fl. \<exists>v''. View_QueryRows ?m v' n fl = map_option (\<lambda>rows. (rows, v'')) (QueryRowData ?m v' (map row_key (take (unat n) xs)))"
    unfolding demo_view_upd by blast
  let ?x = "view_row v' 1 (table_demo_entry 1 (Some 5))" and ?y = "view_row v' 7 (table_demo_entry 7 (Some 9))"
  have "view_rows v' demo_rows2 = [?x, ?y]"
    unfolding s(2) by (simp add: view_rows_def demo_rows2_def demo_wants view_row_def)
  then have "mset xs = {#?x, ?y#}" using s(3) by simp
  then have "xs = [?x, ?y] \<or> xs = [?y, ?x]" by (rule mset_two)
  moreover have "rowcompare (row_cols ?y) (row_cols ?x)"
    unfolding s(2) by (simp add: cols_in_def demo_view_def by_size_def table_demo_entry_def demo_find table_demo_key be32_def col_cmp_def has_flag_def flag_defs)
  ultimately have "map row_key xs = [row_item 7, row_item 1]" using s(4) by auto
  moreover have "QueryRowData ?m v' [row_item 7, row_item 1] =
      Some (Inr [[\<lparr>sp_id = 0x3000, sp_val = PvLong 7\<rparr>], [\<lparr>sp_id = 0x3000, sp_val = PvLong 1\<rparr>]])"
    unfolding s(2) by (simp add: QueryRowData_def demo_view_def entry_at_def demo_rows2_def row_cell_def table_demo_def copy_with_def
        PROP_ID_def PROP_TYPE_def pt_defs)
  moreover obtain v'' where "View_QueryRows ?m v' 10 0 =
      map_option (\<lambda>rows. (rows, v'')) (QueryRowData ?m v' (map row_key (take (unat (10 :: u32)) xs)))" using s(5) by blast
  ultimately have "View_QueryRows ?m v' 10 0 =
      Some (Inr [[\<lparr>sp_id = 0x3000, sp_val = PvLong 7\<rparr>], [\<lparr>sp_id = 0x3000, sp_val = PvLong 1\<rparr>]], v'')"
    by (simp flip: take_map)
  then show ?thesis using s(1) by blast
qed

theorem missing_key_no_order_witness:
  "\<exists>as bs. sort_cols restr_demo_env (demo_props 1 (Some 5)) by_size = Some as \<and> sort_cols restr_demo_env (demo_props 2 None) by_size = Some bs \<and>
    rowcompare as bs \<and> rowcompare bs as"
  unfolding by_size_def
  by (rule missing_key_no_order[where p = "\<lparr>sp_id = 0x0E08, sp_val = PvLong 5\<rparr>" and k = "be32 5"])
    (simp_all add: demo_find table_demo_key be32_def)

end
