(* ===== verification/Text_Codes.thy ===== *)
theory Text_Codes
  imports Zcp_Prelude
begin

text \<open>
  Encodings of bytes as text: \<^verbatim>\<open>common/base64.cpp\<close> and the hexadecimal, URL, shell and line end
  functions of \<^verbatim>\<open>common/stringutil.cpp\<close>. A \<open>char\<close> is a byte, signed where the code compares it;
  \<open>isalnum\<close> is that of the C locale. \<open>base64_decode\<close> counts in an \<open>int\<close>, so its result is an option; lengths are
  below 2^31 in the rest.
\<close>

subsection \<open>Base 64\<close>

definition base64_chars :: "u8 list" where
  "base64_chars = map of_nat ([65..<91] @ [97..<123] @ [48..<58] @ [43, 47])"

text \<open>\<open>std::string::find\<close> of a character; \<open>npos\<close> becomes 255 in an \<open>unsigned char\<close>.\<close>

fun find_char :: "'a \<Rightarrow> 'a list \<Rightarrow> nat option" where
  "find_char c [] = None"
| "find_char c (x # xs) = (if x = c then Some 0 else map_option Suc (find_char c xs))"

definition base64_find :: "u8 \<Rightarrow> u8" where
  "base64_find c = (case find_char c base64_chars of None \<Rightarrow> 255 | Some n \<Rightarrow> of_nat n)"

definition isalnum :: "u8 \<Rightarrow> bool" where
  "isalnum c \<longleftrightarrow> 48 \<le> c \<and> c \<le> 57 \<or> 65 \<le> c \<and> c \<le> 90 \<or> 97 \<le> c \<and> c \<le> 122"

definition is_base64 :: "u8 \<Rightarrow> bool" where
  "is_base64 c \<longleftrightarrow> isalnum c \<or> c = 43 \<or> c = 47"

text \<open>Three bytes as four numbers below 64, and back.\<close>

definition split_bytes :: "u8 \<Rightarrow> u8 \<Rightarrow> u8 \<Rightarrow> u8 list" where
  "split_bytes a b c =
     [drop_bit 2 (a AND 0xfc),
      push_bit 4 (a AND 0x03) + drop_bit 4 (b AND 0xf0),
      push_bit 2 (b AND 0x0f) + drop_bit 6 (c AND 0xc0),
      c AND 0x3f]"

fun join_bytes :: "u8 list \<Rightarrow> u8 list" where
  "join_bytes [p, q, r, s] =
     [push_bit 2 p + drop_bit 4 (q AND 0x30),
      push_bit 4 (q AND 0xf) + drop_bit 2 (r AND 0x3c),
      push_bit 6 (r AND 0x3) + s]"
| "join_bytes _ = []"

definition base64_char :: "u8 \<Rightarrow> u8" where
  "base64_char n = base64_chars ! unat n"

fun base64_encode :: "u8 list \<Rightarrow> u8 list" where
  "base64_encode (a # b # c # bs) = map base64_char (split_bytes a b c) @ base64_encode bs"
| "base64_encode [a, b] = map base64_char (take 3 (split_bytes a b 0)) @ [61]"
| "base64_encode [a] = map base64_char (take 2 (split_bytes a 0 0)) @ [61, 61]"
| "base64_encode [] = []"

text \<open>The loop with up to three characters collected, and what is left of them at its end.\<close>

definition decode_rest :: "u8 list \<Rightarrow> u8 list" where
  "decode_rest acc =
     (if acc = [] then []
      else take (length acc - 1) (join_bytes (map base64_find (acc @ replicate (4 - length acc) 0))))"

text \<open>
  \<open>n\<close> is \<open>in_len\<close> and \<open>k\<close> is \<open>in_\<close>, both \<open>int\<close>; where one of them overflows there is no value. The character behind the
  last one is a null character.
\<close>

fun decode_loop :: "int \<Rightarrow> int \<Rightarrow> u8 list \<Rightarrow> u8 list \<Rightarrow> u8 list option" where
  "decode_loop n k acc [] = (if n = - (2 ^ 31) then None else Some (decode_rest acc))"
| "decode_loop n k acc (c # s) =
     (if n = 0 then Some (decode_rest acc)
      else if n = - (2 ^ 31) then None
      else if c \<noteq> 61 \<and> is_base64 c then
        (if k = 2 ^ 31 - 1 then None
         else if length acc = 3 then
           map_option ((@) (join_bytes (map base64_find (acc @ [c])))) (decode_loop (n - 1) (k + 1) [] s)
         else decode_loop (n - 1) (k + 1) (acc @ [c]) s)
      else Some (decode_rest acc))"

definition base64_decode :: "u8 list \<Rightarrow> u8 list option" where
  "base64_decode s = decode_loop (sint (of_nat (length s) :: 32 word)) 0 [] s"

subsection \<open>Hexadecimal\<close>

text \<open>Characters of a string of digits; \<open>char\<close> is signed.\<close>

definition x2b :: "u8 \<Rightarrow> u8" where
  "x2b c = (if 48 \<le> sint c \<and> sint c \<le> 57 then c - 48 else if sint c \<ge> 97 then c - 97 + 10 else c - 65 + 10)"

fun hex_pairs :: "u8 list \<Rightarrow> u8 list" where
  "hex_pairs (a # b # s) = (push_bit 4 (x2b a) OR x2b b) # hex_pairs s"
| "hex_pairs _ = []"

definition hex2bin :: "u8 list \<Rightarrow> u8 list" where
  "hex2bin s = (if length s mod 2 \<noteq> 0 then [] else hex_pairs s)"

definition hex_digits :: "u8 list" where
  "hex_digits = map of_nat ([48..<58] @ [65..<71])"

definition hex_byte :: "u8 \<Rightarrow> u8 list" where
  "hex_byte c = [hex_digits ! unat (drop_bit 4 c), hex_digits ! unat (c AND 0x0F)]"

definition bin2hex :: "u8 list \<Rightarrow> u8 list" where
  "bin2hex bs = concat (map hex_byte bs)"

text \<open>\<open>bin2hexw\<close> and \<open>hex2bin\<close> of a wide string, whose characters lose their high bytes.\<close>

definition bin2hexw :: "u8 list \<Rightarrow> u32 list" where
  "bin2hexw bs = map ucast (bin2hex bs)"

definition hex2binw :: "u32 list \<Rightarrow> u8 list" where
  "hex2binw s = hex2bin (map ucast s)"

subsection \<open>URLs\<close>

text \<open>The delimiters that are encoded; with a signed \<open>char\<close> the test for 127 always holds.\<close>

definition url_reserved :: "u8 list" where
  "url_reserved = [58, 47, 63, 35, 91, 93, 64, 33, 36, 38, 39, 40, 41, 42, 43, 44, 59, 61]"

definition url_byte :: "u8 \<Rightarrow> u8 list" where
  "url_byte c =
     (if sint c \<le> 127 then (if c \<in> set url_reserved then 37 # hex_byte c else [c])
      else 37 # hex_byte c)"

definition urlEncode :: "u8 list \<Rightarrow> u8 list" where
  "urlEncode s = concat (map url_byte s)"

fun urlDecode :: "u8 list \<Rightarrow> u8 list" where
  "urlDecode [] = []"
| "urlDecode (c # s) =
     (case s of
        a # b # t \<Rightarrow> if c = 37 then (push_bit 4 (x2b a) OR x2b b) # urlDecode t else c # urlDecode s
      | _ \<Rightarrow> c # urlDecode s)"

subsection \<open>Shell words\<close>

fun shell_escape :: "u8 list \<Rightarrow> u8 list" where
  "shell_escape [] = []"
| "shell_escape (c # s) = (if c = 39 then [39, 92, 39, 39] @ shell_escape s else c # shell_escape s)"

fun StringEscape :: "u8 list \<Rightarrow> u8 \<Rightarrow> u8 list \<Rightarrow> u8 list" where
  "StringEscape tokens escape [] = []"
| "StringEscape tokens escape (c # s) =
     replicate (length (filter (\<lambda>t. t = c) tokens)) escape @ c # StringEscape tokens escape s"

definition forcealnum :: "u8 list option \<Rightarrow> u8 list \<Rightarrow> u8 list" where
  "forcealnum additional s =
     map (\<lambda>c. if isalnum c then c
       else case additional of None \<Rightarrow> 95 | Some cs \<Rightarrow> if c \<in> set (cs @ [0]) then c else 95) s"

subsection \<open>Lines\<close>

text \<open>\<open>BufferLFtoCRLF\<close>: the output, behind which a 0 is written.\<close>

fun BufferLFtoCRLF :: "u8 list \<Rightarrow> u8 list" where
  "BufferLFtoCRLF [] = []"
| "BufferLFtoCRLF (c # s) =
     (if c = 13 then 13 # 10 # (case s of [] \<Rightarrow> [] | d # t \<Rightarrow> if d = 10 then BufferLFtoCRLF t else BufferLFtoCRLF s)
      else if c = 10 then 13 # 10 # BufferLFtoCRLF s
      else c # BufferLFtoCRLF s)"

fun StringCRLFtoLF :: "u32 list \<Rightarrow> u32 list" where
  "StringCRLFtoLF [] = []"
| "StringCRLFtoLF (c # s) =
     (if c = 13 \<and> (case s of d # _ \<Rightarrow> d = 10 | [] \<Rightarrow> False) then StringCRLFtoLF s else c # StringCRLFtoLF s)"

text \<open>With the character before, \<^const>\<open>None\<close> at the beginning.\<close>

fun lf_loop :: "u8 option \<Rightarrow> u8 list \<Rightarrow> u8 list" where
  "lf_loop prev [] = []"
| "lf_loop prev (c # s) =
     (if c = 10 \<and> prev \<noteq> None \<and> prev \<noteq> Some 13 then 13 # 10 # lf_loop (Some c) s else c # lf_loop (Some c) s)"

definition StringLFtoCRLF :: "u8 list \<Rightarrow> u8 list" where
  "StringLFtoCRLF s = lf_loop None s"

definition StringTabtoSpaces :: "u32 list \<Rightarrow> u32 list" where
  "StringTabtoSpaces s = concat (map (\<lambda>c. if c = 9 then [32, 32, 32, 32] else [c]) s)"

subsection \<open>Lists of words\<close>

text \<open>\<open>tokenize\<close> of a string without zero characters.\<close>

function tokenize :: "'a \<Rightarrow> bool \<Rightarrow> 'a list \<Rightarrow> 'a list list" where
  "tokenize sep bFilterEmpty s =
     (if s = [] then []
      else if sep \<notin> set s then [s]
      else (let t = takeWhile (\<lambda>c. c \<noteq> sep) s; rest = tokenize sep bFilterEmpty (drop (Suc (length t)) s)
            in if \<not> bFilterEmpty \<or> t \<noteq> [] then t # rest else rest))"
  by pat_completeness auto
termination by (relation "measure (\<lambda>(sep, b, s). length s)") auto

declare tokenize.simps [simp del]

text \<open>
  \<open>concatenate\<close> ends by erasing one character, the one at which the last delimiter begins; behind the
  end of the string that is undefined.
\<close>

definition concatenate :: "'a list list \<Rightarrow> 'a list \<Rightarrow> 'a list option" where
  "concatenate elements delim =
     (let s = concat (map (\<lambda>t. t @ delim) elements); n = length s - length delim
      in if elements = [] then Some [] else if delim = [] then None else Some (take n s @ drop (Suc n) s))"

definition trim :: "u8 list \<Rightarrow> u8 list \<Rightarrow> u8 list" where
  "trim s chars =
     (if s = [] then s
      else (let s = dropWhile (\<lambda>c. c \<in> set chars) s
            in if \<forall>c \<in> set s. c \<in> set chars then s else rev (dropWhile (\<lambda>c. c \<in> set chars) (rev s))))"

definition string_strip_nuls :: "u8 list \<Rightarrow> u8 list" where
  "string_strip_nuls s = filter (\<lambda>c. c \<noteq> 0) s"

subsection \<open>Server paths\<close>

text \<open>Where a string begins in another one.\<close>

fun find_str :: "'a list \<Rightarrow> 'a list \<Rightarrow> nat option" where
  "find_str p [] = (if p = [] then Some 0 else None)"
| "find_str p (c # s) = (if take (length p) (c # s) = p then Some 0 else map_option Suc (find_str p s))"

definition scheme_end :: "u8 list" where
  "scheme_end = [58, 47, 47]"

definition GetServerTypeFromPath :: "u8 list \<Rightarrow> u8 list" where
  "GetServerTypeFromPath path = (case find_str scheme_end path of None \<Rightarrow> [] | Some n \<Rightarrow> take n path)"

definition GetServerNameFromPath :: "u8 list \<Rightarrow> u8 list" where
  "GetServerNameFromPath path =
     (let path = (case find_str scheme_end path of None \<Rightarrow> path | Some n \<Rightarrow> drop (n + 3) path)
      in takeWhile (\<lambda>c. c \<noteq> 58) path)"

text \<open>The last position of a character.\<close>

definition rfind :: "'a \<Rightarrow> 'a list \<Rightarrow> nat option" where
  "rfind c s = map_option (\<lambda>n. length s - 1 - n) (find_char c (rev s))"

definition GetServerPortFromPath :: "u8 list \<Rightarrow> u8 list" where
  "GetServerPortFromPath path =
     (if take 4 path \<noteq> [104, 116, 116, 112] then []
      else (case rfind 58 path of None \<Rightarrow> []
         | Some n \<Rightarrow> (let path = drop (n + 1) path
             in case rfind 47 path of None \<Rightarrow> path | Some k \<Rightarrow> take k path)))"

text \<open>\<open>tolower\<close> of ASCII, for \<open>strnicmp\<close>; the type, port and extra part may be null, the name is not.\<close>

definition lower :: "u8 \<Rightarrow> u8" where
  "lower c = (if 65 \<le> c \<and> c \<le> 90 then c + 32 else c)"

definition given_part :: "u8 list option \<Rightarrow> u8 list" where
  "given_part p = (case p of None \<Rightarrow> [] | Some s \<Rightarrow> s)"

text \<open>A null type is read: \<^const>\<open>None\<close>.\<close>

definition ServerNamePortToURL ::
  "u8 list option \<Rightarrow> u8 list \<Rightarrow> u8 list option \<Rightarrow> u8 list option \<Rightarrow> u8 list option" where
  "ServerNamePortToURL type name port extra =
     (let url = (if given_part type \<noteq> [] then given_part type @ scheme_end else []) @ name @
            (if given_part port \<noteq> [] then 58 # given_part port else [])
      in case type of None \<Rightarrow> None
         | Some t \<Rightarrow> Some (url @ (if map lower (take 4 t) = [104, 116, 116, 112] \<and> given_part extra \<noteq> []
                                then 47 # given_part extra else [])))"

end
