(* ===== verification/Text_Codes_Facts.thy ===== *)
theory Text_Codes_Facts
  imports Text_Codes
begin

text \<open>
  Encodings and their decodings: round trips of base 64, hexadecimal and URL texts, shell words that are read back
  as they were, and lines with the ends that were asked for.
\<close>

subsection \<open>Bytes\<close>

lemma byte_eqI:
  fixes a b :: u8
  assumes "\<And>n. n \<in> {0, 1, 2, 3, 4, 5, 6, 7} \<Longrightarrow> bit a n = bit b n"
  shows "a = b"
proof (rule bit_word_eqI)
  fix n
  assume "n < LENGTH(8)"
  then have "n \<in> {0, 1, 2, 3, 4, 5, 6, 7}" by auto
  then show "bit a n = bit b n" by (rule assms)
qed

lemma byte_plus:
  fixes a b :: u8
  assumes "\<And>n. n \<in> {0, 1, 2, 3, 4, 5, 6, 7} \<Longrightarrow> \<not> (bit a n \<and> bit b n)"
  shows "a + b = a OR b"
proof (rule disjunctive_add)
  fix n
  show "\<not> bit a n \<or> \<not> bit b n"
    using assms[of n] bit_imp_le_length[of a n] by (cases "n \<in> {0, 1, 2, 3, 4, 5, 6, 7}") auto
qed

lemma split_plus:
  fixes a b :: u8
  shows "push_bit 4 (a AND 0x03) + drop_bit 4 (b AND 0xf0) = push_bit 4 (a AND 0x03) OR drop_bit 4 (b AND 0xf0)"
    "push_bit 2 (a AND 0x0f) + drop_bit 6 (b AND 0xc0) = push_bit 2 (a AND 0x0f) OR drop_bit 6 (b AND 0xc0)"
  by (rule byte_plus; auto simp: bit_simps bit_numeral_rec)+

lemma split_join: "join_bytes (split_bytes a b c) = [a, b, c]"
proof -
  let ?q = "push_bit 4 (a AND 0x03) OR drop_bit 4 (b AND 0xf0)" and ?r = "push_bit 2 (b AND 0x0f) OR drop_bit 6 (c AND 0xc0)"
  have "push_bit 2 (drop_bit 2 (a AND 0xfc)) + drop_bit 4 (?q AND 0x30) = push_bit 2 (drop_bit 2 (a AND 0xfc)) OR drop_bit 4 (?q AND 0x30)"
    "push_bit 4 (?q AND 0xf) + drop_bit 2 (?r AND 0x3c) = push_bit 4 (?q AND 0xf) OR drop_bit 2 (?r AND 0x3c)"
    "push_bit 6 (?r AND 0x3) + (c AND 0x3f) = push_bit 6 (?r AND 0x3) OR (c AND 0x3f)"
    by (rule byte_plus; auto simp: bit_simps bit_numeral_rec)+
  moreover have "push_bit 2 (drop_bit 2 (a AND 0xfc)) OR drop_bit 4 (?q AND 0x30) = a"
    "push_bit 4 (?q AND 0xf) OR drop_bit 2 (?r AND 0x3c) = b" "push_bit 6 (?r AND 0x3) OR (c AND 0x3f) = c"
    by (rule byte_eqI; auto simp: bit_simps bit_numeral_rec; simp add: numeral_2_eq_2 numeral_3_eq_3)+
  ultimately show ?thesis unfolding split_bytes_def split_plus join_bytes.simps by (simp only:)
qed

lemma find_char_nth: "distinct xs \<Longrightarrow> n < length xs \<Longrightarrow> find_char (xs ! n) xs = Some n"
  by (induction xs arbitrary: n) (auto simp: nth_Cons split: nat.splits)

lemma base64_chars_ok: "length base64_chars = 64" "distinct base64_chars" "list_all is_base64 base64_chars" "61 \<notin> set base64_chars"
  by (simp_all add: base64_chars_def is_base64_def isalnum_def upt_conv_Cons)

subsection \<open>Base 64\<close>

lemma base64_char_facts:
  assumes "n < 64"
  shows "base64_find (base64_char n) = n" "is_base64 (base64_char n)" "base64_char n \<noteq> 61"
proof -
  have u: "unat n < length base64_chars" using assms by (simp add: base64_chars_ok(1) word_less_nat_alt)
  then show "base64_find (base64_char n) = n"
    using find_char_nth[OF base64_chars_ok(2) u] by (simp add: base64_find_def base64_char_def)
  have m: "base64_char n \<in> set base64_chars" using u by (simp add: base64_char_def)
  then show "is_base64 (base64_char n)" using base64_chars_ok(3) by (simp add: list_all_iff)
  show "base64_char n \<noteq> 61" using m base64_chars_ok(4) by metis
qed

lemma below_64: "n AND 0x3f = n \<Longrightarrow> (n :: u8) < 64"
proof -
  assume "n AND 0x3f = n"
  then have "n \<le> 0x3f" by (metis word_and_le1)
  then show "n < 64" by (simp add: word_le_nat_alt word_less_nat_alt)
qed

lemma split_below: "list_all (\<lambda>n. n < 64) (split_bytes a b c)"
proof -
  have "drop_bit 2 (a AND 0xfc) AND 0x3f = drop_bit 2 (a AND 0xfc)"
    "(push_bit 4 (a AND 0x03) OR drop_bit 4 (b AND 0xf0)) AND 0x3f = push_bit 4 (a AND 0x03) OR drop_bit 4 (b AND 0xf0)"
    "(push_bit 2 (b AND 0x0f) OR drop_bit 6 (c AND 0xc0)) AND 0x3f = push_bit 2 (b AND 0x0f) OR drop_bit 6 (c AND 0xc0)"
    "(c AND 0x3f) AND 0x3f = c AND 0x3f"
    by (rule byte_eqI; auto simp: bit_simps bit_numeral_rec; simp add: numeral_2_eq_2 numeral_3_eq_3)+
  note this[THEN below_64]
  then show ?thesis unfolding split_bytes_def split_plus by (simp only: list.pred_inject simp_thms)
qed

text \<open>The loop where the counters do not overflow.\<close>

fun decode_chars :: "u8 list \<Rightarrow> u8 list \<Rightarrow> u8 list" where
  "decode_chars acc [] = decode_rest acc"
| "decode_chars acc (c # s) =
     (if c \<noteq> 61 \<and> is_base64 c then
        (if length acc = 3 then join_bytes (map base64_find (acc @ [c])) @ decode_chars [] s
         else decode_chars (acc @ [c]) s)
      else decode_rest acc)"

lemma decode_loop_chars:
  "int (length s) \<le> n \<Longrightarrow> k + int (length s) < 2 ^ 31 \<Longrightarrow> decode_loop n k acc s = Some (decode_chars acc s)"
  by (induction n k acc s rule: decode_loop.induct) auto

lemma base64_decode_chars: "length s < 2 ^ 31 \<Longrightarrow> base64_decode s = Some (decode_chars [] s)"
proof -
  assume l: "length s < 2 ^ 31"
  then have "sint (of_nat (length s) :: 32 word) = int (length s)"
    by (simp add: sint_uint unsigned_of_nat take_bit_nat_eq_self signed_take_bit_int_eq_self)
  then show ?thesis using l by (simp add: base64_decode_def decode_loop_chars)
qed

lemma decode_quad:
  assumes "list_all (\<lambda>n. n < 64) [p, q, r, s]"
  shows "decode_chars [] (map base64_char [p, q, r, s] @ t) = join_bytes [p, q, r, s] @ decode_chars [] t"
  using assms by (simp add: base64_char_facts)

lemma decode_three:
  assumes "list_all (\<lambda>n. n < 64) [p, q, r, s]"
  shows "decode_chars [] (map base64_char [p, q, r] @ [61]) = take 2 (join_bytes [p, q, r, s])"
  using assms by (simp add: base64_char_facts decode_rest_def)

lemma decode_two:
  assumes "list_all (\<lambda>n. n < 64) [p, q, r, s]"
  shows "decode_chars [] (map base64_char [p, q] @ [61, 61]) = take 1 (join_bytes [p, q, r, s])"
  using assms by (simp add: base64_char_facts decode_rest_def numeral_2_eq_2)

lemma split_four: "\<exists>p q r s. split_bytes a b c = [p, q, r, s]"
  by (simp add: split_bytes_def)

text \<open>
  C33: decoding gives back what was encoded, with one, two or no bytes behind the last full group, as long as the
  text has a length that fits an \<open>int\<close>.
\<close>

theorem base64_round_trip:
  assumes "length (base64_encode bs) < 2 ^ 31"
  shows "base64_decode (base64_encode bs) = Some bs"
proof -
  have "decode_chars [] (base64_encode bs) = bs"
  proof (induction bs rule: base64_encode.induct)
    case (1 a b c bs)
    obtain p q r s where p: "split_bytes a b c = [p, q, r, s]" using split_four by blast
    then have "list_all (\<lambda>n. n < 64) [p, q, r, s]" using split_below[of a b c] by simp
    from decode_quad[OF this] show ?case using 1 p split_join[of a b c] by simp
  next
    case (2 a b)
    obtain p q r s where p: "split_bytes a b 0 = [p, q, r, s]" using split_four by blast
    then have "list_all (\<lambda>n. n < 64) [p, q, r, s]" using split_below[of a b 0] by simp
    from decode_three[OF this] show ?case using p split_join[of a b 0] by simp
  next
    case (3 a)
    obtain p q r s where p: "split_bytes a 0 0 = [p, q, r, s]" using split_four by blast
    then have "list_all (\<lambda>n. n < 64) [p, q, r, s]" using split_below[of a 0 0] by simp
    from decode_two[OF this] show ?case using p split_join[of a 0 0] by simp
  qed (simp add: decode_rest_def)
  then show ?thesis using base64_decode_chars[OF assms] by simp
qed

theorem base64_round_trip_witness: "base64_decode (base64_encode [77, 97, 110, 255]) = Some [77, 97, 110, 255]"
  by (rule base64_round_trip) (simp add: split_bytes_def)

subsection \<open>Hexadecimal\<close>

lemma hex_digit_back:
  assumes "n < 16"
  shows "x2b (hex_digits ! unat n) = n"
proof -
  have "list_all (\<lambda>k. x2b (hex_digits ! k) = of_nat k) [0..<16]"
    by (simp add: hex_digits_def x2b_def upt_conv_Cons)
  moreover have "unat n \<in> set [0..<16]" using assms by (simp add: word_less_nat_alt)
  ultimately show ?thesis by (auto simp: list_all_iff simp del: set_upt)
qed

lemma low_nibble: "(c :: u8) AND 0x0F < 16" "drop_bit 4 c < 16"
proof -
  have "c AND 0x0F \<le> 0x0F" by (rule word_and_le1)
  then show "c AND 0x0F < 16" by (simp add: word_le_nat_alt word_less_nat_alt)
  have "drop_bit 4 c AND 0x0F = drop_bit 4 c"
    by (rule byte_eqI) (auto simp: bit_simps bit_numeral_rec dest: bit_imp_le_length)
  then have "drop_bit 4 c \<le> 0x0F" by (metis word_and_le1)
  then show "drop_bit 4 c < 16" by (simp add: word_le_nat_alt word_less_nat_alt)
qed

lemma hex_pair_back: "push_bit 4 (x2b (hex_digits ! unat (drop_bit 4 c))) OR x2b (hex_digits ! unat (c AND 0x0F)) = c"
proof -
  have "push_bit 4 (drop_bit 4 c) OR (c AND 0x0F) = c"
    by (rule byte_eqI; auto simp: bit_simps bit_numeral_rec; simp add: numeral_2_eq_2 numeral_3_eq_3)
  then show ?thesis by (simp add: hex_digit_back low_nibble)
qed

lemma bin2hex_length: "length (bin2hex bs) = 2 * length bs"
  by (induction bs) (simp_all add: bin2hex_def hex_byte_def)

lemma hex_pairs_back: "hex_pairs (bin2hex bs) = bs"
  by (induction bs) (simp_all add: bin2hex_def hex_byte_def hex_pair_back)

text \<open>
  \<open>hex2bin\<close> gives back the bytes of which \<open>bin2hex\<close> wrote the digits, as bytes and as wide characters.
\<close>

theorem hex_round_trip: "hex2bin (bin2hex bs) = bs \<and> hex2binw (bin2hexw bs) = bs"
proof -
  have "map ucast (map ucast (bin2hex bs) :: u32 list) = bin2hex bs"
    by (simp add: comp_def ucast_up_ucast_id is_up)
  then show ?thesis using bin2hex_length[of bs] hex_pairs_back[of bs] by (simp add: hex2bin_def hex2binw_def bin2hexw_def)
qed

subsection \<open>URLs\<close>

lemma urlDecode_plain: "c \<noteq> 37 \<Longrightarrow> urlDecode (c # s) = c # urlDecode s"
  by (simp split: list.split)

lemma urlDecode_byte: "c \<noteq> 37 \<Longrightarrow> urlDecode (url_byte c @ t) = c # urlDecode t"
  by (simp add: url_byte_def urlDecode_plain hex_byte_def hex_pair_back del: urlDecode.simps(2))
    (simp add: hex_pair_back)

lemma urlDecode_encode: "37 \<notin> set s \<Longrightarrow> urlDecode (urlEncode s @ t) = s @ urlDecode t"
proof (induction s)
  case (Cons c s)
  then have "urlDecode (url_byte c @ (urlEncode s @ t)) = c # (s @ urlDecode t)"
    using urlDecode_byte[of c "urlEncode s @ t"] by simp
  then show ?case by (simp add: urlEncode_def)
qed (simp add: urlEncode_def)

text \<open>
  Decoding gives back an encoded text that has no percent sign; a percent sign is not encoded, so an
  escape in the text becomes another character, and bytes above 127 are not encoded either.
\<close>

theorem url_round_trip:
  assumes "37 \<notin> set s" "127 < c"
  shows "urlDecode (urlEncode s) = s \<and> urlDecode (urlEncode (s @ [37, 52, 49])) = s @ [65] \<and> urlEncode [c] = [c]"
proof -
  have "urlEncode (s @ [37, 52, 49]) = urlEncode s @ [37, 52, 49]"
    by (simp add: urlEncode_def url_byte_def url_reserved_def)
  moreover have "urlDecode [37, 52, 49] = [65]" by (simp add: x2b_def)
  moreover have "sint c \<le> 127" using sint_less[of c] by simp
  moreover have "c \<notin> set url_reserved" using assms(2) by (auto simp: url_reserved_def)
  ultimately show ?thesis
    using urlDecode_encode[OF assms(1), of "[]"] urlDecode_encode[OF assms(1), of "[37, 52, 49]"]
    by (simp add: urlEncode_def url_byte_def del: urlDecode.simps(2))
qed

subsection \<open>Shell words\<close>

text \<open>
  How a shell reads one word: quoted text as it is up to the next quote, the character behind a backslash as it
  is, and everything else as it is, up to a blank; \<^const>\<open>None\<close> where a quote or backslash is left open. Characters
  that a shell treats specially outside quotes do not occur in what is read.
\<close>

fun sh_read :: "bool \<Rightarrow> u8 list \<Rightarrow> (u8 list \<times> u8 list) option" where
  "sh_read True [] = None"
| "sh_read True (c # s) = (if c = 39 then sh_read False s else map_option (map_prod ((#) c) id) (sh_read True s))"
| "sh_read False [] = Some ([], [])"
| "sh_read False (c # s) =
     (if c = 39 then sh_read True s
      else if c = 92 then (case s of [] \<Rightarrow> None | d # t \<Rightarrow> map_option (map_prod ((#) d) id) (sh_read False t))
      else if c = 32 then Some ([], c # s)
      else map_option (map_prod ((#) c) id) (sh_read False s))"

lemma sh_read_escaped: "sh_read True (shell_escape s @ 39 # t) = map_option (map_prod ((@) s) id) (sh_read False t)"
  by (induction s) (simp_all add: option.map_comp comp_def map_prod_def split_beta option.map_ident)

text \<open>
  C34: a shell reads the escaped text between single quotes as one word, with the text as it was; what
  follows is not part of it.
\<close>

theorem shell_reads_back: "sh_read False (39 # shell_escape s @ [39]) = Some (s, []) \<and>
    sh_read False (39 # shell_escape s @ 39 # 32 # t) = Some (s, 32 # t)"
  by (simp add: sh_read_escaped)

subsection \<open>Lines\<close>

text \<open>Every carriage return stands before a line feed, and every line feed behind one.\<close>

fun crlf_text :: "u8 list \<Rightarrow> bool" where
  "crlf_text [] \<longleftrightarrow> True"
| "crlf_text (c # s) \<longleftrightarrow>
     (if c = 13 then (case s of [] \<Rightarrow> False | d # t \<Rightarrow> d = 10 \<and> crlf_text t) else c \<noteq> 10 \<and> crlf_text s)"

text \<open>A text with each of its three kinds of line ends as one line feed.\<close>

fun text_lines :: "u8 list \<Rightarrow> u8 list" where
  "text_lines [] = []"
| "text_lines (c # s) =
     (if c = 13 then 10 # (case s of [] \<Rightarrow> [] | d # t \<Rightarrow> if d = 10 then text_lines t else text_lines s)
      else c # text_lines s)"

lemma crlf_lines: "crlf_text (BufferLFtoCRLF s) \<and> text_lines (BufferLFtoCRLF s) = text_lines s \<and>
    length (BufferLFtoCRLF s) \<le> 2 * length s"
proof (induction s rule: BufferLFtoCRLF.induct)
  case (2 c s)
  show ?case
  proof (cases "c = 13")
    case True
    show ?thesis
    proof (cases s)
      case (Cons d t)
      then show ?thesis using True 2(1)[OF True Cons] 2(2)[OF True Cons] by (cases "d = 10") simp_all
    qed (use True in simp)
  next
    case False
    then show ?thesis using 2(3,4) by (cases "c = 10") simp_all
  qed
qed simp

lemma crlf_fixed: "crlf_text s \<Longrightarrow> BufferLFtoCRLF s = s"
proof (induction s rule: crlf_text.induct)
  case (2 c s)
  show ?case
  proof (cases "c = 13")
    case True
    with 2(3) obtain t where "s = 10 # t" "crlf_text t" by (auto split: list.splits)
    then show ?thesis using 2(1)[OF True] True by simp
  next
    case False
    then show ?thesis using 2(2,3) by simp
  qed
qed simp

text \<open>
  \<open>BufferLFtoCRLF\<close> gives a text with the same lines whose line ends are all carriage return and line
  feed, in at most twice the space, and leaves a text alone that is so already.
\<close>

theorem lines_normalised: "crlf_text (BufferLFtoCRLF s) \<and> text_lines (BufferLFtoCRLF s) = text_lines s \<and>
    length (BufferLFtoCRLF s) \<le> 2 * length s \<and> BufferLFtoCRLF (BufferLFtoCRLF s) = BufferLFtoCRLF s"
  using crlf_lines[of s] crlf_fixed by simp

text \<open>A line feed at the very beginning stays alone when a string is converted.\<close>

lemma first_line_feed: "StringLFtoCRLF (10 # s) = 10 # lf_loop (Some 10) s"
  by (simp add: StringLFtoCRLF_def)

subsection \<open>Lists of words\<close>

lemma tokenize_word: "sep \<notin> set t \<Longrightarrow> t \<noteq> [] \<Longrightarrow> tokenize sep b (t @ sep # s) = t # tokenize sep b s"
proof -
  assume t: "sep \<notin> set t" "t \<noteq> []"
  then have "takeWhile (\<lambda>c. c \<noteq> sep) (t @ sep # s) = t" by (subst takeWhile_append2) auto
  then show "tokenize sep b (t @ sep # s) = t # tokenize sep b s" using t by (subst tokenize.simps) (simp add: Let_def)
qed

lemma tokenize_last: "sep \<notin> set t \<Longrightarrow> t \<noteq> [] \<Longrightarrow> tokenize sep b t = [t]"
  by (subst tokenize.simps) simp

lemma concat_last: "ts \<noteq> [] \<Longrightarrow> concat (map (\<lambda>t. t @ [sep]) ts) = concat (map (\<lambda>t. t @ [sep]) (butlast ts)) @ last ts @ [sep]"
  by (induction ts) auto

lemma tokenize_concat:
  "\<forall>t \<in> set ts. t \<noteq> [] \<and> sep \<notin> set t \<Longrightarrow> t \<noteq> [] \<Longrightarrow> sep \<notin> set t \<Longrightarrow>
    tokenize sep b (concat (map (\<lambda>t. t @ [sep]) ts) @ t) = ts @ [t]"
  by (induction ts) (simp_all add: tokenize_last tokenize_word)

text \<open>
  Words without separators are read back from their concatenation with a separator of one character; a
  longer separator leaves all but its first character at the end.
\<close>

theorem words_read_back:
  assumes "ts \<noteq> []" "\<forall>t \<in> set ts. t \<noteq> [] \<and> sep \<notin> set t"
  shows "\<exists>s. concatenate ts [sep] = Some s \<and> tokenize sep b s = ts \<and>
    (\<forall>d ds. concatenate ts (d # ds) = Some (concat (map (\<lambda>t. t @ d # ds) (butlast ts)) @ last ts @ ds))"
proof -
  have c: "concatenate ts (d # ds) = Some (concat (map (\<lambda>t. t @ d # ds) (butlast ts)) @ last ts @ ds)" for d ds
  proof -
    have "concat (map (\<lambda>t. t @ d # ds) ts) = concat (map (\<lambda>t. t @ d # ds) (butlast ts)) @ last ts @ d # ds"
      using assms(1) by (induction ts) auto
    then show ?thesis using assms(1) by (simp add: concatenate_def Let_def)
  qed
  have "tokenize sep b (concat (map (\<lambda>t. t @ [sep]) (butlast ts)) @ last ts) = butlast ts @ [last ts]"
    using assms by (intro tokenize_concat) (auto dest: in_set_butlastD)
  then show ?thesis using c assms(1) by simp
qed

subsection \<open>Examples\<close>

theorem url_round_trip_witness: "urlDecode (urlEncode [97, 47]) = [97, 47] \<and> urlDecode (urlEncode [97, 47, 37, 52, 49]) = [97, 47, 65]"
  using url_round_trip[of "[97, 47]" 200] by simp

theorem words_read_back_witness: "\<exists>s. concatenate [[97], [98, 99]] [59] = Some s \<and> tokenize 59 True s = [[97 :: u8], [98, 99]]"
  using words_read_back[of "[[97], [98, 99]]" "59 :: u8" True] by auto

end
