(* ===== verification/Lock_Manager.thy ===== *)
theory Lock_Manager
  imports Zcp_Prelude
begin

text \<open>
  \<open>ECLockManager\<close> of \<^verbatim>\<open>provider/libserver/ECLockManager.cpp\<close>, which holds the session that has locked an
  object, and the locks of a session in \<^verbatim>\<open>provider/libserver/ECSession.cpp\<close>. Each operation runs under the
  mutex of the manager or of the session, so operations of several sessions are steps in some order.
\<close>

subsection \<open>The manager\<close>

type_synonym lock_map = "u32 \<rightharpoonup> u64"

text \<open>
  An \<open>ECObjectLockImpl\<close>; \<open>m_ptrLockManager\<close> is a weak pointer to the one manager, which outlives the sessions. An
  \<open>ECObjectLock\<close> is a pointer to one, null before it is assigned and after a successful \<open>Unlock\<close>.
\<close>

record object_lock =
  m_ptrLockManager :: bool
  m_ulObjId :: u32
  m_sessionId :: u64

definition LockObject :: "lock_map \<Rightarrow> u32 \<Rightarrow> u64 \<Rightarrow> (ecresult \<times> object_lock option) \<times> lock_map" where
  "LockObject m ulObjId sessionId =
     (let lock = Some \<lparr>m_ptrLockManager = True, m_ulObjId = ulObjId, m_sessionId = sessionId\<rparr> in
      case m ulObjId of
        None \<Rightarrow> ((erSuccess, lock), m(ulObjId \<mapsto> sessionId))
      | Some s \<Rightarrow> ((if s \<noteq> sessionId then ZARAFA_E_NO_ACCESS else erSuccess, lock), m))"

definition UnlockObject :: "lock_map \<Rightarrow> u32 \<Rightarrow> u64 \<Rightarrow> ecresult \<times> lock_map" where
  "UnlockObject m ulObjId sessionId =
     (case m ulObjId of
        None \<Rightarrow> (ZARAFA_E_NOT_FOUND, m)
      | Some s \<Rightarrow> if s \<noteq> sessionId then (ZARAFA_E_NO_ACCESS, m) else (erSuccess, m(ulObjId := None)))"

definition IsLocked :: "lock_map \<Rightarrow> u32 \<Rightarrow> bool \<times> u64 option" where
  "IsLocked m ulObjId = (m ulObjId \<noteq> None, m ulObjId)"

text \<open>\<open>ECObjectLockImpl::Unlock\<close>, which is also its destructor.\<close>

definition Impl_Unlock :: "lock_map \<Rightarrow> object_lock \<Rightarrow> (ecresult \<times> object_lock) \<times> lock_map" where
  "Impl_Unlock m l =
     (if m_ptrLockManager l then
        (case UnlockObject m (m_ulObjId l) (m_sessionId l) of
           (er, m) \<Rightarrow> ((er, if er = erSuccess then l\<lparr>m_ptrLockManager := False\<rparr> else l), m))
      else ((erSuccess, l), m))"

text \<open>Dropping the last pointer to an implementation.\<close>

definition drop_lock :: "lock_map \<Rightarrow> object_lock option \<Rightarrow> lock_map" where
  "drop_lock m p = (case p of None \<Rightarrow> m | Some l \<Rightarrow> snd (Impl_Unlock m l))"

text \<open>\<open>ECObjectLock::Unlock\<close>; a null pointer is \<^const>\<open>None\<close>.\<close>

definition Lock_Unlock :: "lock_map \<Rightarrow> object_lock option \<Rightarrow> ((ecresult \<times> object_lock option) \<times> lock_map) option" where
  "Lock_Unlock m p =
     (case p of None \<Rightarrow> None
      | Some l \<Rightarrow> (case Impl_Unlock m l of ((er, l), m) \<Rightarrow>
          Some (if er = erSuccess then ((er, None), drop_lock m (Some l)) else ((er, Some l), m))))"

subsection \<open>The locks of a session\<close>

text \<open>\<open>m_mapLocks\<close>, with the newest entry first; a key occurs once.\<close>

type_synonym session_locks = "(u32 \<times> object_lock option) list"

definition Session_LockObject :: "u64 \<Rightarrow> lock_map \<Rightarrow> session_locks \<Rightarrow> u32 \<Rightarrow> ecresult \<times> lock_map \<times> session_locks" where
  "Session_LockObject sid m locks ulObjId =
     (case map_of locks ulObjId of
        Some l \<Rightarrow> (erSuccess, m, locks)
      | None \<Rightarrow> (case LockObject m ulObjId sid of ((er, l), m) \<Rightarrow> (er, m, (ulObjId, l) # locks)))"

definition set_lock :: "u32 \<Rightarrow> object_lock option \<Rightarrow> session_locks \<Rightarrow> session_locks" where
  "set_lock i l = map (\<lambda>(j, k). if j = i then (j, l) else (j, k))"

definition Session_UnlockObject :: "lock_map \<Rightarrow> session_locks \<Rightarrow> u32 \<Rightarrow> (ecresult \<times> lock_map \<times> session_locks) option" where
  "Session_UnlockObject m locks ulObjId =
     (case map_of locks ulObjId of
        None \<Rightarrow> Some (erSuccess, m, locks)
      | Some l \<Rightarrow> (case Lock_Unlock m l of None \<Rightarrow> None
          | Some ((er, l), m) \<Rightarrow>
              Some (er, m, if er = erSuccess then filter (\<lambda>(j, k). j \<noteq> ulObjId) locks else set_lock ulObjId l locks)))"

text \<open>The end of a session destroys its locks.\<close>

definition drop_locks :: "lock_map \<Rightarrow> session_locks \<Rightarrow> lock_map" where
  "drop_locks m locks = fold (\<lambda>(i, l) m. drop_lock m l) locks m"

subsection \<open>Sessions in any order\<close>

record lock_state =
  ls_manager :: lock_map
  ls_sessions :: "u64 \<rightharpoonup> session_locks"

datatype lock_op = OpOpen u64 | OpLock u64 u32 | OpUnlock u64 u32 | OpEnd u64

text \<open>An operation of a session that does not exist does nothing; a session id is used once.\<close>

definition lock_exec :: "lock_state \<Rightarrow> lock_op \<Rightarrow> (ecresult \<times> lock_state) option" where
  "lock_exec st op =
     (case op of
        OpOpen s \<Rightarrow>
          (case ls_sessions st s of Some _ \<Rightarrow> Some (erSuccess, st)
           | None \<Rightarrow> Some (erSuccess, st\<lparr>ls_sessions := (ls_sessions st)(s \<mapsto> [])\<rparr>))
      | OpLock s i \<Rightarrow>
          (case ls_sessions st s of None \<Rightarrow> Some (erSuccess, st)
           | Some locks \<Rightarrow> (case Session_LockObject s (ls_manager st) locks i of (er, m, locks) \<Rightarrow>
               Some (er, \<lparr>ls_manager = m, ls_sessions = (ls_sessions st)(s \<mapsto> locks)\<rparr>)))
      | OpUnlock s i \<Rightarrow>
          (case ls_sessions st s of None \<Rightarrow> Some (erSuccess, st)
           | Some locks \<Rightarrow> (case Session_UnlockObject (ls_manager st) locks i of None \<Rightarrow> None
               | Some (er, m, locks) \<Rightarrow> Some (er, \<lparr>ls_manager = m, ls_sessions = (ls_sessions st)(s \<mapsto> locks)\<rparr>)))
      | OpEnd s \<Rightarrow>
          (case ls_sessions st s of None \<Rightarrow> Some (erSuccess, st)
           | Some locks \<Rightarrow> Some (erSuccess, \<lparr>ls_manager = drop_locks (ls_manager st) locks, ls_sessions = (ls_sessions st)(s := None)\<rparr>)))"

inductive lock_reach :: "lock_state \<Rightarrow> bool" where
  start: "lock_reach \<lparr>ls_manager = Map.empty, ls_sessions = Map.empty\<rparr>"
| step: "lock_reach st \<Longrightarrow> lock_exec st op = Some (er, st') \<Longrightarrow> lock_reach st'"

subsection \<open>Every lock belongs to a session\<close>

text \<open>
  Every locked object is among the locks of its session, each of which has an implementation for its own object
  and session that still knows the manager.
\<close>

definition own_locks :: "u64 \<Rightarrow> session_locks \<Rightarrow> bool" where
  "own_locks s locks \<longleftrightarrow> distinct (map fst locks) \<and>
     (\<forall>(i, l) \<in> set locks. l = Some \<lparr>m_ptrLockManager = True, m_ulObjId = i, m_sessionId = s\<rparr>)"

definition locks_ok :: "lock_state \<Rightarrow> bool" where
  "locks_ok st \<longleftrightarrow>
     (\<forall>i s. ls_manager st i = Some s \<longrightarrow> (\<exists>locks. ls_sessions st s = Some locks \<and> i \<in> fst ` set locks)) \<and>
     (\<forall>s locks. ls_sessions st s = Some locks \<longrightarrow> own_locks s locks)"

lemma locks_okD:
  assumes "locks_ok st"
  shows "ls_manager st i = Some s \<Longrightarrow> \<exists>locks. ls_sessions st s = Some locks \<and> i \<in> fst ` set locks"
    "ls_sessions st s = Some locks \<Longrightarrow> own_locks s locks"
  using assms by (auto simp: locks_ok_def)

lemma same_state: "ls_sessions st s = Some locks \<Longrightarrow>
    \<lparr>ls_manager = ls_manager st, ls_sessions = (ls_sessions st)(s \<mapsto> locks)\<rparr> = st"
  by (cases st) (simp add: map_upd_triv)

lemma drop_lock_live:
  "drop_lock m (Some \<lparr>m_ptrLockManager = True, m_ulObjId = i, m_sessionId = s\<rparr>) = (if m i = Some s then m(i := None) else m)"
  by (auto simp: drop_lock_def Impl_Unlock_def UnlockObject_def split: option.splits)

lemma drop_locks_are:
  "\<forall>(i, l) \<in> set locks. l = Some \<lparr>m_ptrLockManager = True, m_ulObjId = i, m_sessionId = s\<rparr> \<Longrightarrow>
    drop_locks m locks = (\<lambda>i. if m i = Some s \<and> i \<in> fst ` set locks then None else m i)"
proof (induction locks arbitrary: m)
  case (Cons x locks)
  obtain i l where x: "x = (i, l)" by (cases x)
  with Cons.prems have l: "l = Some \<lparr>m_ptrLockManager = True, m_ulObjId = i, m_sessionId = s\<rparr>" by simp
  have "drop_locks m (x # locks) = drop_locks (if m i = Some s then m(i := None) else m) locks"
    by (simp add: drop_locks_def x l drop_lock_live)
  moreover have rest: "\<forall>(i, l) \<in> set locks. l = Some \<lparr>m_ptrLockManager = True, m_ulObjId = i, m_sessionId = s\<rparr>" using Cons.prems by simp
  ultimately show ?case using x Cons.IH[OF rest] by (auto simp: fun_eq_iff)
qed (simp add: drop_locks_def)

lemma Lock_Unlock_live:
  "Lock_Unlock m (Some \<lparr>m_ptrLockManager = True, m_ulObjId = i, m_sessionId = s\<rparr>) =
    Some (if m i = Some s then ((erSuccess, None), m(i := None))
      else ((case m i of None \<Rightarrow> ZARAFA_E_NOT_FOUND | Some _ \<Rightarrow> ZARAFA_E_NO_ACCESS,
             Some \<lparr>m_ptrLockManager = True, m_ulObjId = i, m_sessionId = s\<rparr>), m))"
  by (auto simp: Lock_Unlock_def Impl_Unlock_def UnlockObject_def drop_lock_def split: option.splits)

lemma set_lock_same:
  assumes "map_of locks i = Some l" "distinct (map fst locks)"
  shows "set_lock i l locks = locks"
  unfolding set_lock_def using assms by (intro map_idI) (auto dest: map_of_SomeD eq_key_imp_eq_value)

lemma session_lock:
  assumes "locks_ok st" "ls_sessions st s = Some locks" "map_of locks i = Some l"
  shows "l = Some \<lparr>m_ptrLockManager = True, m_ulObjId = i, m_sessionId = s\<rparr>"
  using locks_okD(2)[OF assms(1,2)] map_of_SomeD[OF assms(3)] by (auto simp: own_locks_def)

lemma exec_lock:
  assumes "ls_sessions st s = Some locks"
  shows "lock_exec st (OpLock s i) = Some
    (if map_of locks i \<noteq> None then (erSuccess, st)
     else (if ls_manager st i = None \<or> ls_manager st i = Some s then erSuccess else ZARAFA_E_NO_ACCESS,
       \<lparr>ls_manager = (if ls_manager st i = None then (ls_manager st)(i \<mapsto> s) else ls_manager st),
        ls_sessions = (ls_sessions st)(s \<mapsto> (i, Some \<lparr>m_ptrLockManager = True, m_ulObjId = i, m_sessionId = s\<rparr>) # locks)\<rparr>))"
  using assms same_state[OF assms] by (auto simp: lock_exec_def Session_LockObject_def LockObject_def split: option.splits)

lemma exec_unlock:
  assumes "locks_ok st" "ls_sessions st s = Some locks"
  shows "lock_exec st (OpUnlock s i) = Some
    (if map_of locks i = None then (erSuccess, st)
     else if ls_manager st i = Some s then
       (erSuccess, \<lparr>ls_manager = (ls_manager st)(i := None), ls_sessions = (ls_sessions st)(s \<mapsto> filter (\<lambda>(j, k). j \<noteq> i) locks)\<rparr>)
     else (case ls_manager st i of None \<Rightarrow> ZARAFA_E_NOT_FOUND | Some _ \<Rightarrow> ZARAFA_E_NO_ACCESS, st))"
proof (cases "map_of locks i")
  case None
  then show ?thesis using assms(2) same_state[OF assms(2)] by (simp add: lock_exec_def Session_UnlockObject_def)
next
  case (Some l)
  note l = session_lock[OF assms Some]
  have "distinct (map fst locks)" using locks_okD(2)[OF assms] by (simp add: own_locks_def)
  then show ?thesis using Some assms(2) set_lock_same[OF Some] same_state[OF assms(2)]
    by (cases "ls_manager st i") (simp_all add: lock_exec_def Session_UnlockObject_def l Lock_Unlock_live)
qed

lemma exec_end:
  assumes "locks_ok st" "ls_sessions st s = Some locks"
  shows "lock_exec st (OpEnd s) = Some (erSuccess,
    \<lparr>ls_manager = (\<lambda>i. if ls_manager st i = Some s then None else ls_manager st i), ls_sessions = (ls_sessions st)(s := None)\<rparr>)"
proof -
  have "\<forall>(i, l) \<in> set locks. l = Some \<lparr>m_ptrLockManager = True, m_ulObjId = i, m_sessionId = s\<rparr>"
    using locks_okD(2)[OF assms] by (simp add: own_locks_def)
  note d = drop_locks_are[OF this, of "ls_manager st"]
  have "ls_manager st i = Some s \<Longrightarrow> i \<in> fst ` set locks" for i using locks_okD(1)[OF assms(1), of i s] assms(2) by simp
  then have "drop_locks (ls_manager st) locks = (\<lambda>i. if ls_manager st i = Some s then None else ls_manager st i)"
    unfolding d by (intro ext) (simp cong: conj_cong)
  then show ?thesis using assms(2) by (simp add: lock_exec_def)
qed

lemma locks_ok_lock:
  assumes ok: "locks_ok st" and s: "ls_sessions st s = Some locks" and new: "map_of locks i = None"
  shows "locks_ok \<lparr>ls_manager = (if ls_manager st i = None then (ls_manager st)(i \<mapsto> s) else ls_manager st),
    ls_sessions = (ls_sessions st)(s \<mapsto> (i, Some \<lparr>m_ptrLockManager = True, m_ulObjId = i, m_sessionId = s\<rparr>) # locks)\<rparr>"
proof -
  have "own_locks s ((i, Some \<lparr>m_ptrLockManager = True, m_ulObjId = i, m_sessionId = s\<rparr>) # locks)"
    using locks_okD(2)[OF ok s] new by (simp add: own_locks_def map_of_eq_None_iff)
  moreover have "\<exists>l. ((ls_sessions st)(s \<mapsto> (i, x) # locks)) s' = Some l \<and> j \<in> fst ` set l"
    if "ls_manager st j = Some s'" for j s' x
    using locks_okD(1)[OF ok that] s by (cases "s' = s") auto
  ultimately show ?thesis using locks_okD(2)[OF ok] by (auto simp: locks_ok_def split: if_splits)
qed

lemma locks_ok_unlock:
  assumes ok: "locks_ok st" and s: "ls_sessions st s = Some locks" and m: "ls_manager st i = Some s"
  shows "locks_ok \<lparr>ls_manager = (ls_manager st)(i := None), ls_sessions = (ls_sessions st)(s \<mapsto> filter (\<lambda>(j, k). j \<noteq> i) locks)\<rparr>"
proof -
  have "own_locks s (filter (\<lambda>(j, k). j \<noteq> i) locks)"
    using locks_okD(2)[OF ok s] by (auto simp: own_locks_def distinct_map_filter)
  moreover have "\<exists>l. ((ls_sessions st)(s \<mapsto> filter (\<lambda>(j, k). j \<noteq> i) locks)) s' = Some l \<and> j \<in> fst ` set l"
    if "ls_manager st j = Some s'" "j \<noteq> i" for j s'
    using locks_okD(1)[OF ok that(1)] s that(2) by (cases "s' = s") force+
  ultimately show ?thesis using locks_okD(2)[OF ok] by (auto simp: locks_ok_def split: if_splits)
qed

lemma locks_ok_end:
  assumes ok: "locks_ok st" and s: "ls_sessions st s = Some locks"
  shows "locks_ok \<lparr>ls_manager = (\<lambda>i. if ls_manager st i = Some s then None else ls_manager st i), ls_sessions = (ls_sessions st)(s := None)\<rparr>"
  using locks_okD[OF ok] by (auto simp: locks_ok_def)

lemma locks_ok_step:
  assumes "locks_ok st" "lock_exec st op = Some (er, st')"
  shows "locks_ok st'"
proof (cases op)
  case (OpOpen s)
  show ?thesis
  proof (cases "ls_sessions st s")
    case None
    then have st': "st' = st\<lparr>ls_sessions := (ls_sessions st)(s \<mapsto> [])\<rparr>" using assms(2) OpOpen by (simp add: lock_exec_def)
    have "s' \<noteq> s" if "ls_manager st i = Some s'" for i s' using locks_okD(1)[OF assms(1) that] None by auto
    then show ?thesis unfolding st' using locks_okD[OF assms(1)] by (auto simp: locks_ok_def own_locks_def)
  qed (use assms OpOpen in \<open>simp add: lock_exec_def\<close>)
next
  case (OpLock s i)
  then show ?thesis using assms(2) locks_ok_lock[OF assms(1)] exec_lock[of st s _ i] assms(1)
    by (cases "ls_sessions st s") (auto simp: lock_exec_def[of st "OpLock s i"] split: if_splits)
next
  case (OpUnlock s i)
  then show ?thesis using assms(2) locks_ok_unlock[OF assms(1)] exec_unlock[OF assms(1), of s _ i] assms(1)
    by (cases "ls_sessions st s") (auto simp: lock_exec_def[of st "OpUnlock s i"] split: if_splits)
next
  case (OpEnd s)
  then show ?thesis using assms(2) locks_ok_end[OF assms(1)] exec_end[OF assms(1), of s] assms(1)
    by (cases "ls_sessions st s") (auto simp: lock_exec_def[of st "OpEnd s"])
qed

lemma reach_ok: "lock_reach st \<Longrightarrow> locks_ok st"
proof (induction rule: lock_reach.induct)
  case (step st op er st')
  then show ?case by (rule_tac locks_ok_step)
qed (simp add: locks_ok_def)

subsection \<open>Properties\<close>

text \<open>
  C28: in every state that sessions can reach, the session that holds the lock of an object exists and can give it
  back, and whatever any session does, the lock stays its own until it unlocks the object or ends.
\<close>

theorem lock_stays:
  assumes "lock_reach st" "ls_manager st i = Some s"
  shows "(\<exists>st'. lock_exec st (OpUnlock s i) = Some (erSuccess, st') \<and> ls_manager st' = (ls_manager st)(i := None)) \<and>
    (\<forall>op. \<exists>er st'. lock_exec st op = Some (er, st') \<and>
       (ls_manager st' i = Some s \<or> op = OpUnlock s i \<or> op = OpEnd s))"
proof -
  note ok = reach_ok[OF assms(1)]
  obtain locks where l: "ls_sessions st s = Some locks" "i \<in> fst ` set locks" using locks_okD(1)[OF ok assms(2)] by blast
  then obtain l where "map_of locks i = Some l" by (metis map_of_eq_None_iff option.exhaust)
  moreover have "\<exists>er st'. lock_exec st op = Some (er, st') \<and> (ls_manager st' i = Some s \<or> op = OpUnlock s i \<or> op = OpEnd s)" for op
  proof (cases op)
    case (OpOpen t)
    then show ?thesis using assms(2) by (cases "ls_sessions st t") (simp_all add: lock_exec_def)
  next
    case (OpLock t j)
    then show ?thesis using assms(2) exec_lock[of st t _ j]
      by (cases "ls_sessions st t") (auto simp: lock_exec_def[of st "OpLock t j"])
  next
    case (OpUnlock t j)
    then show ?thesis using assms(2) exec_unlock[OF ok, of t _ j]
      by (cases "ls_sessions st t") (auto simp: lock_exec_def[of st "OpUnlock t j"])
  next
    case (OpEnd t)
    then show ?thesis using assms(2) exec_end[OF ok, of t]
      by (cases "ls_sessions st t") (auto simp: lock_exec_def[of st "OpEnd t"])
  qed
  ultimately show ?thesis using exec_unlock[OF ok l(1), of i] assms(2) by simp
qed

text \<open>
  The first time that a session asks for the lock of an object the answer is true: it succeeds exactly when no
  other session holds the lock, and then the session holds it.
\<close>

theorem first_lock_exact:
  assumes "ls_sessions st s = Some locks" "i \<notin> fst ` set locks"
  shows "\<exists>er st'. lock_exec st (OpLock s i) = Some (er, st') \<and>
    (er = erSuccess \<longleftrightarrow> ls_manager st' i = Some s) \<and> (er = erSuccess \<longleftrightarrow> ls_manager st i \<in> {None, Some s}) \<and>
    (\<forall>j. j \<noteq> i \<longrightarrow> ls_manager st' j = ls_manager st j)"
  using exec_lock[OF assms(1), of i] assms(2) by (auto simp: map_of_eq_None_iff)

text \<open>
  C39: a session whose first attempt failed is told at the second that it has the lock, while another session
  holds it and goes on holding it.
\<close>

theorem retry_claims_lock:
  assumes "lock_reach st" "ls_sessions st s = Some locks" "i \<notin> fst ` set locks" "ls_manager st i = Some t" "t \<noteq> s"
  shows "\<exists>st1 st2. lock_exec st (OpLock s i) = Some (ZARAFA_E_NO_ACCESS, st1) \<and>
    lock_exec st1 (OpLock s i) = Some (erSuccess, st2) \<and> IsLocked (ls_manager st2) i = (True, Some t)"
proof -
  let ?l = "(i, Some \<lparr>m_ptrLockManager = True, m_ulObjId = i, m_sessionId = s\<rparr>) # locks"
  let ?st = "\<lparr>ls_manager = ls_manager st, ls_sessions = (ls_sessions st)(s \<mapsto> ?l)\<rparr>"
  have "lock_exec st (OpLock s i) = Some (ZARAFA_E_NO_ACCESS, ?st)"
    using exec_lock[OF assms(2), of i] assms(3-5) by (simp add: map_of_eq_None_iff)
  moreover have "lock_exec ?st (OpLock s i) = Some (erSuccess, ?st)"
    using exec_lock[of ?st s ?l i] by simp
  ultimately show ?thesis using assms(4) by (simp add: IsLocked_def)
qed

text \<open>
  C29: the end of a session frees the objects that it had locked, all of them and no others.
\<close>

theorem session_end_releases:
  assumes "lock_reach st" "ls_sessions st s \<noteq> None"
  shows "\<exists>st'. lock_exec st (OpEnd s) = Some (erSuccess, st') \<and>
    (\<forall>i. ls_manager st' i = (if ls_manager st i = Some s then None else ls_manager st i))"
  using exec_end[OF reach_ok[OF assms(1)], of s] assms(2) by auto

subsection \<open>Examples\<close>

text \<open>Two sessions, of which the first has locked an object.\<close>

definition demo_locks :: lock_state where
  "demo_locks = \<lparr>ls_manager = [5 \<mapsto> 1],
     ls_sessions = [1 \<mapsto> [(5, Some \<lparr>m_ptrLockManager = True, m_ulObjId = 5, m_sessionId = 1\<rparr>)], 2 \<mapsto> []]\<rparr>"

lemma demo_locks_reach: "lock_reach demo_locks"
proof -
  let ?s0 = "\<lparr>ls_manager = Map.empty, ls_sessions = Map.empty\<rparr>"
  let ?s1 = "\<lparr>ls_manager = Map.empty, ls_sessions = [1 \<mapsto> []]\<rparr>"
  let ?s2 = "\<lparr>ls_manager = Map.empty, ls_sessions = [1 \<mapsto> [], 2 \<mapsto> []]\<rparr>"
  have "lock_exec ?s0 (OpOpen 1) = Some (erSuccess, ?s1)" "lock_exec ?s1 (OpOpen 2) = Some (erSuccess, ?s2)"
    by (simp_all add: lock_exec_def)
  moreover have "lock_exec ?s2 (OpLock 1 5) = Some (erSuccess, demo_locks)"
    by (simp add: lock_exec_def Session_LockObject_def LockObject_def demo_locks_def fun_upd_twist)
  ultimately show ?thesis using lock_reach.intros by metis
qed

theorem lock_stays_witness: "\<exists>st'. lock_exec demo_locks (OpUnlock 1 5) = Some (erSuccess, st') \<and> ls_manager st' 5 = None"
  using lock_stays[OF demo_locks_reach, of 5 1] by (auto simp: demo_locks_def)

theorem first_lock_exact_witness: "\<exists>st'. lock_exec demo_locks (OpLock 2 6) = Some (erSuccess, st') \<and> ls_manager st' 6 = Some 2"
  using first_lock_exact[of demo_locks 2 "[]" 6] by (auto simp: demo_locks_def)

theorem retry_claims_lock_witness:
  "\<exists>st1 st2. lock_exec demo_locks (OpLock 2 5) = Some (ZARAFA_E_NO_ACCESS, st1) \<and>
    lock_exec st1 (OpLock 2 5) = Some (erSuccess, st2) \<and> IsLocked (ls_manager st2) 5 = (True, Some 1)"
  by (rule retry_claims_lock[OF demo_locks_reach, where locks = "[]"]) (simp_all add: demo_locks_def)

theorem session_end_releases_witness: "\<exists>st'. lock_exec demo_locks (OpEnd 1) = Some (erSuccess, st') \<and> ls_manager st' 5 = None"
  using session_end_releases[OF demo_locks_reach, of 1] by (auto simp: demo_locks_def)

end
