(* ===== verification/Fifo_Buffer.thy ===== *)
theory Fifo_Buffer
  imports Zcp_Prelude
begin

text \<open>
  \<open>ECFifoBuffer\<close> of \<^verbatim>\<open>common/ECFifoBuffer.cpp\<close>: a bounded buffer between one thread that writes and one that
  reads. A call first tests, without the mutex, whether its end is closed, which is one step. Then a thread holds
  the mutex from where it gets it, or from the end of a wait, to the next wait or the return, so what it does in
  between is one step. A wait ends when its condition is signalled, when time is up, or for no reason. Memory does
  not run out and buffers are not null.
\<close>

subsection \<open>The buffer\<close>

record fifo =
  m_storage :: "u8 list"
  m_ulMaxSize :: nat
  m_bReaderClosed :: bool
  m_bWriterClosed :: bool

definition ECFifoBuffer :: "nat \<Rightarrow> fifo" where
  "ECFifoBuffer ulMaxSize =
     \<lparr>m_storage = [], m_ulMaxSize = ulMaxSize, m_bReaderClosed = False, m_bWriterClosed = False\<rparr>"

definition IsEmpty :: "fifo \<Rightarrow> bool" where
  "IsEmpty f \<longleftrightarrow> m_storage f = []"

definition IsFull :: "fifo \<Rightarrow> bool" where
  "IsFull f \<longleftrightarrow> length (m_storage f) = m_ulMaxSize f"

text \<open>\<open>m_ulMaxSize - m_storage.size()\<close> as a \<open>size_t\<close>.\<close>

definition free_room :: "fifo \<Rightarrow> nat" where
  "free_room f = (if length (m_storage f) \<le> m_ulMaxSize f then m_ulMaxSize f - length (m_storage f)
     else 2 ^ 64 - (length (m_storage f) - m_ulMaxSize f) mod 2 ^ 64)"

text \<open>A call returns with its code and \<open>*lpcbWritten\<close> where it is set, or waits with the rest of its data.\<close>

datatype write_end = WDone ecresult "nat option" | WBlocked "u8 list" nat

text \<open>The loop, with the bytes that are left, those written before, and those that it puts in.\<close>

function write_loop :: "fifo \<Rightarrow> u8 list \<Rightarrow> nat \<Rightarrow> write_end \<times> u8 list \<times> fifo" where
  "write_loop f rest cbWritten =
     (if rest = [] then (WDone erSuccess (Some cbWritten), [], f)
      else if IsFull f then
        (if m_bReaderClosed f then (WDone ZARAFA_E_NETWORK_ERROR None, [], f) else (WBlocked rest cbWritten, [], f))
      else
        (let cbNow = min (length rest) (free_room f) in
         case write_loop (f\<lparr>m_storage := m_storage f @ take cbNow rest\<rparr>) (drop cbNow rest) (cbWritten + cbNow) of
           (r, put, f) \<Rightarrow> (r, take cbNow rest @ put, f)))"
  by pat_completeness auto
termination
proof (relation "measure (\<lambda>(f, rest, n). length rest)")
  fix f :: fifo and rest :: "u8 list" and cbWritten cbNow :: nat
  assume "rest \<noteq> []" "\<not> IsFull f" "cbNow = min (length rest) (free_room f)"
  moreover have "(length (m_storage f) - m_ulMaxSize f) mod 2 ^ 64 < (2 :: nat) ^ 64" by simp
  ultimately show "((f\<lparr>m_storage := m_storage f @ take cbNow rest\<rparr>, drop cbNow rest, cbWritten + cbNow), (f, rest, cbWritten))
      \<in> measure (\<lambda>(f, rest, n). length rest)"
    by (auto simp: free_room_def IsFull_def)
qed simp

declare write_loop.simps [simp del]

text \<open>What \<open>Write\<close> does before it takes the mutex; \<^const>\<open>None\<close> when it goes on to take it.\<close>

definition Fifo_Write :: "fifo \<Rightarrow> u8 list \<Rightarrow> write_end option" where
  "Fifo_Write f data =
     (if m_bWriterClosed f then Some (WDone ZARAFA_E_NETWORK_ERROR None)
      else if data = [] then Some (WDone erSuccess (Some 0))
      else None)"

datatype read_end = RDone ecresult "u8 list" | RBlocked nat "u8 list"

function read_loop :: "fifo \<Rightarrow> nat \<Rightarrow> u8 list \<Rightarrow> read_end \<times> u8 list \<times> fifo" where
  "read_loop f left got =
     (if left = 0 then (RDone erSuccess got, [], f)
      else if IsEmpty f then
        (if m_bWriterClosed f then (RDone erSuccess got, [], f) else (RBlocked left got, [], f))
      else
        (let cbNow = min left (length (m_storage f)); now = take cbNow (m_storage f) in
         case read_loop (f\<lparr>m_storage := drop cbNow (m_storage f)\<rparr>) (left - cbNow) (got @ now) of
           (r, taken, f) \<Rightarrow> (r, now @ taken, f)))"
  by pat_completeness auto
termination
  by (relation "measure (\<lambda>(f, left, got). left)") (auto simp: IsEmpty_def)

declare read_loop.simps [simp del]

definition Fifo_Read :: "fifo \<Rightarrow> nat \<Rightarrow> read_end option" where
  "Fifo_Read f cbBuf =
     (if m_bReaderClosed f then Some (RDone ZARAFA_E_NETWORK_ERROR [])
      else if cbBuf = 0 then Some (RDone erSuccess [])
      else None)"

definition Fifo_Close :: "bool \<Rightarrow> bool \<Rightarrow> fifo \<Rightarrow> fifo" where
  "Fifo_Close cfRead cfWrite f =
     f\<lparr>m_bReaderClosed := m_bReaderClosed f \<or> cfRead, m_bWriterClosed := m_bWriterClosed f \<or> cfWrite\<rparr>"

text \<open>\<^const>\<open>None\<close> is a wait.\<close>

definition Flush :: "fifo \<Rightarrow> ecresult option" where
  "Flush f =
     (if \<not> m_bWriterClosed f then Some ZARAFA_E_NETWORK_ERROR
      else if \<not> (m_bWriterClosed f \<or> IsEmpty f) then None
      else Some erSuccess)"

subsection \<open>Two threads\<close>

text \<open>
  Of each thread: the call that has passed its test and does not have the mutex yet, what a thread that waits has left
  to do, and whether its condition was signalled since.
\<close>

record fifo_state =
  fs_fifo :: fifo
  fs_wentry :: "u8 list option"
  fs_writer :: "(u8 list \<times> nat) option"
  fs_wsignal :: bool
  fs_rentry :: "nat option"
  fs_reader :: "(nat \<times> u8 list) option"
  fs_rsignal :: bool

datatype fifo_op = OpWrite "u8 list" | OpWriterEnters | OpWriterWakes | OpWriterTimesOut
  | OpRead nat | OpReaderEnters | OpReaderWakes | OpReaderTimesOut | OpClose bool bool

datatype fifo_answer = AEntered | AWrite write_end | ARead read_end | AClosed

definition after_write :: "fifo_state \<Rightarrow> write_end \<times> u8 list \<times> fifo \<Rightarrow> fifo_answer \<times> fifo_state" where
  "after_write st w =
     (case w of (r, put, f) \<Rightarrow>
        (AWrite r, st\<lparr>fs_fifo := f, fs_wentry := None, fs_writer := (case r of WBlocked rest n \<Rightarrow> Some (rest, n) | _ \<Rightarrow> None),
           fs_wsignal := False, fs_rsignal := fs_rsignal st \<or> put \<noteq> []\<rparr>))"

definition after_read :: "fifo_state \<Rightarrow> read_end \<times> u8 list \<times> fifo \<Rightarrow> fifo_answer \<times> fifo_state" where
  "after_read st w =
     (case w of (r, taken, f) \<Rightarrow>
        (ARead r, st\<lparr>fs_fifo := f, fs_rentry := None, fs_reader := (case r of RBlocked left got \<Rightarrow> Some (left, got) | _ \<Rightarrow> None),
           fs_rsignal := False, fs_wsignal := fs_wsignal st \<or> taken \<noteq> []\<rparr>))"

text \<open>A step of one of the threads, or a call of \<open>Close\<close>; \<^const>\<open>None\<close> when the thread is elsewhere.\<close>

definition fifo_exec :: "fifo_state \<Rightarrow> fifo_op \<Rightarrow> (fifo_answer \<times> fifo_state) option" where
  "fifo_exec st op =
     (case op of
        OpWrite data \<Rightarrow>
          (if fs_wentry st = None \<and> fs_writer st = None then
             Some (case Fifo_Write (fs_fifo st) data of
                None \<Rightarrow> (AEntered, st\<lparr>fs_wentry := Some data\<rparr>)
              | Some r \<Rightarrow> (AWrite r, st))
           else None)
      | OpWriterEnters \<Rightarrow> map_option (\<lambda>data. after_write st (write_loop (fs_fifo st) data 0)) (fs_wentry st)
      | OpWriterWakes \<Rightarrow> map_option (\<lambda>(rest, n). after_write st (write_loop (fs_fifo st) rest n)) (fs_writer st)
      | OpWriterTimesOut \<Rightarrow>
          map_option (\<lambda>(rest, n). after_write st (WDone ZARAFA_E_TIMEOUT (Some n), [], fs_fifo st)) (fs_writer st)
      | OpRead n \<Rightarrow>
          (if fs_rentry st = None \<and> fs_reader st = None then
             Some (case Fifo_Read (fs_fifo st) n of
                None \<Rightarrow> (AEntered, st\<lparr>fs_rentry := Some n\<rparr>)
              | Some r \<Rightarrow> (ARead r, st))
           else None)
      | OpReaderEnters \<Rightarrow> map_option (\<lambda>n. after_read st (read_loop (fs_fifo st) n [])) (fs_rentry st)
      | OpReaderWakes \<Rightarrow> map_option (\<lambda>(left, got). after_read st (read_loop (fs_fifo st) left got)) (fs_reader st)
      | OpReaderTimesOut \<Rightarrow>
          map_option (\<lambda>(left, got). after_read st (RDone ZARAFA_E_TIMEOUT got, [], fs_fifo st)) (fs_reader st)
      | OpClose cfRead cfWrite \<Rightarrow>
          Some (AClosed, st\<lparr>fs_fifo := Fifo_Close cfRead cfWrite (fs_fifo st), fs_wsignal := fs_wsignal st \<or> cfRead,
            fs_rsignal := fs_rsignal st \<or> cfWrite\<rparr>))"

definition fifo_start :: "nat \<Rightarrow> fifo_state" where
  "fifo_start n = \<lparr>fs_fifo = ECFifoBuffer n, fs_wentry = None, fs_writer = None, fs_wsignal = False, fs_rentry = None,
     fs_reader = None, fs_rsignal = False\<rparr>"

inductive fifo_reach :: "nat \<Rightarrow> fifo_state \<Rightarrow> bool" for n where
  start: "fifo_reach n (fifo_start n)"
| step: "fifo_reach n st \<Longrightarrow> fifo_exec st op = Some (a, st') \<Longrightarrow> fifo_reach n st'"

text \<open>A run with its calls and answers, the newest first.\<close>

inductive fifo_trace :: "nat \<Rightarrow> (fifo_op \<times> fifo_answer) list \<Rightarrow> fifo_state \<Rightarrow> bool" for n where
  start: "fifo_trace n [] (fifo_start n)"
| step: "fifo_trace n tr st \<Longrightarrow> fifo_exec st op = Some (a, st') \<Longrightarrow> fifo_trace n ((op, a) # tr) st'"

subsection \<open>What one step does\<close>

lemma write_loop_does:
  assumes "write_loop f rest n = (r, put, f')" "length (m_storage f) \<le> m_ulMaxSize f"
  shows "f' = f\<lparr>m_storage := m_storage f @ put\<rparr> \<and> length (m_storage f') \<le> m_ulMaxSize f \<and>
    (case r of
       WDone er k \<Rightarrow> (if er = erSuccess then put = rest \<and> k = Some (n + length rest)
          else er = ZARAFA_E_NETWORK_ERROR \<and> m_bReaderClosed f \<and> k = None \<and> IsFull f' \<and> (\<exists>left. rest = put @ left \<and> left \<noteq> []))
     | WBlocked left k \<Rightarrow> rest = put @ left \<and> left \<noteq> [] \<and> k = n + length put \<and> IsFull f' \<and> \<not> m_bReaderClosed f)"
  using assms
proof (induction f rest n arbitrary: r put f' rule: write_loop.induct)
  case (1 f rest n)
  show ?case
  proof (cases "rest = [] \<or> IsFull f")
    case True
    then show ?thesis using 1(2,3) by (subst (asm) write_loop.simps) (auto split: if_splits)
  next
    case False
    define k where "k = min (length rest) (free_room f)"
    let ?f = "f\<lparr>m_storage := m_storage f @ take k rest\<rparr>"
    obtain p where p: "write_loop ?f (drop k rest) (n + k) = (r, p, f')" "put = take k rest @ p"
      using 1(2) False by (subst (asm) write_loop.simps) (auto simp: Let_def k_def split: prod.splits)
    have kle: "k \<le> length rest" by (simp add: k_def)
    have free_room: "length (m_storage ?f) \<le> m_ulMaxSize ?f" using 1(3) by (auto simp: k_def free_room_def)
    have ih: "f' = ?f\<lparr>m_storage := m_storage ?f @ p\<rparr> \<and> length (m_storage f') \<le> m_ulMaxSize ?f \<and>
      (case r of
         WDone er j \<Rightarrow> (if er = erSuccess then p = drop k rest \<and> j = Some (n + k + length (drop k rest))
            else er = ZARAFA_E_NETWORK_ERROR \<and> m_bReaderClosed ?f \<and> j = None \<and> IsFull f' \<and> (\<exists>left. drop k rest = p @ left \<and> left \<noteq> []))
       | WBlocked left j \<Rightarrow> drop k rest = p @ left \<and> left \<noteq> [] \<and> j = n + k + length p \<and> IsFull f' \<and> \<not> m_bReaderClosed ?f)"
      using False p(1) free_room by (intro 1(1)) (auto simp: k_def)
    have app: "drop k rest = p @ left \<Longrightarrow> rest = put @ left" for left using p(2) by (metis append.assoc append_take_drop_id)
    have len: "length put = k + length p" using p(2) kle by simp
    show ?thesis
    proof (cases r)
      case (WDone er j)
      then show ?thesis using ih p(2) app kle by (auto split: if_splits)
    next
      case (WBlocked left j)
      then show ?thesis using ih p(2) app len by auto
    qed
  qed
qed

definition same_but_storage :: "fifo \<Rightarrow> fifo \<Rightarrow> bool" where
  "same_but_storage f g \<longleftrightarrow> m_ulMaxSize f = m_ulMaxSize g \<and> m_bReaderClosed f = m_bReaderClosed g \<and>
     m_bWriterClosed f = m_bWriterClosed g"

lemma read_loop_does:
  assumes "read_loop f left got = (r, taken, f')"
  shows "m_storage f = taken @ m_storage f' \<and> same_but_storage f' f \<and>
    (case r of
       RDone er all \<Rightarrow> er = erSuccess \<and> all = got @ taken \<and> length taken \<le> left \<and>
         (length taken < left \<longrightarrow> m_bWriterClosed f \<and> IsEmpty f')
     | RBlocked k all \<Rightarrow> all = got @ taken \<and> 0 < k \<and> left = length taken + k \<and> IsEmpty f' \<and> \<not> m_bWriterClosed f)"
  using assms
proof (induction f left got arbitrary: r taken f' rule: read_loop.induct)
  case (1 f left got)
  show ?case
  proof (cases "left = 0 \<or> IsEmpty f")
    case True
    then show ?thesis using 1(2) by (subst (asm) read_loop.simps) (auto simp: same_but_storage_def split: if_splits)
  next
    case False
    define k where "k = min left (length (m_storage f))"
    let ?f = "f\<lparr>m_storage := drop k (m_storage f)\<rparr>" and ?now = "take k (m_storage f)"
    obtain p where p: "read_loop ?f (left - k) (got @ ?now) = (r, p, f')" "taken = ?now @ p"
      using 1(2) False by (subst (asm) read_loop.simps) (auto simp: Let_def k_def split: prod.splits)
    have ih: "m_storage ?f = p @ m_storage f' \<and> same_but_storage f' ?f \<and>
      (case r of
         RDone er all \<Rightarrow> er = erSuccess \<and> all = (got @ ?now) @ p \<and> length p \<le> left - k \<and>
           (length p < left - k \<longrightarrow> m_bWriterClosed ?f \<and> IsEmpty f')
       | RBlocked j all \<Rightarrow> all = (got @ ?now) @ p \<and> 0 < j \<and> left - k = length p + j \<and> IsEmpty f' \<and> \<not> m_bWriterClosed ?f)"
      using False p(1) by (intro 1(1)) (auto simp: k_def)
    have len: "length taken = k + length p" "k \<le> left" using p(2) by (simp_all add: k_def)
    have st: "m_storage f = taken @ m_storage f'" 
    proof -
      have "drop k (m_storage f) = p @ m_storage f'" using ih by simp
      then show ?thesis using p(2) append_take_drop_id[of k "m_storage f"] by simp
    qed
    have a: "(got @ ?now) @ p = got @ taken" using p(2) by simp
    have f': "same_but_storage f' f" using ih by (simp add: same_but_storage_def)
    show ?thesis
    proof (cases r)
      case (RDone er all)
      then show ?thesis using ih[unfolded a] len st f' by auto
    next
      case (RBlocked j all)
      then show ?thesis using ih[unfolded a] len st f' by auto
    qed
  qed
qed

subsection \<open>States that can be reached\<close>

definition fifo_ok :: "nat \<Rightarrow> fifo_state \<Rightarrow> bool" where
  "fifo_ok n st \<longleftrightarrow> m_ulMaxSize (fs_fifo st) = n \<and> length (m_storage (fs_fifo st)) \<le> n \<and>
     (\<forall>rest k. fs_writer st = Some (rest, k) \<longrightarrow> fs_wsignal st \<or> IsFull (fs_fifo st) \<and> \<not> m_bReaderClosed (fs_fifo st)) \<and>
     (\<forall>k got. fs_reader st = Some (k, got) \<longrightarrow> fs_rsignal st \<or> IsEmpty (fs_fifo st) \<and> \<not> m_bWriterClosed (fs_fifo st))"

lemma ok_after_write:
  assumes ok: "fifo_ok n st" and w: "f' = (fs_fifo st)\<lparr>m_storage := m_storage (fs_fifo st) @ put\<rparr>" "length (m_storage f') \<le> n"
    "\<And>left k. r = WBlocked left k \<Longrightarrow> IsFull f' \<and> \<not> m_bReaderClosed (fs_fifo st)"
  shows "fifo_ok n (snd (after_write st (r, put, f')))"
  using assms by (auto simp: fifo_ok_def after_write_def IsFull_def IsEmpty_def split: write_end.splits)

lemma ok_after_read:
  assumes ok: "fifo_ok n st" and w: "m_storage (fs_fifo st) = taken @ m_storage f'" "same_but_storage f' (fs_fifo st)"
    "\<And>left k. r = RBlocked left k \<Longrightarrow> IsEmpty f' \<and> \<not> m_bWriterClosed (fs_fifo st)"
  shows "fifo_ok n (snd (after_read st (r, taken, f')))"
proof -
  have f': "m_ulMaxSize f' = m_ulMaxSize (fs_fifo st)" "m_bReaderClosed f' = m_bReaderClosed (fs_fifo st)"
    "m_bWriterClosed f' = m_bWriterClosed (fs_fifo st)" using w(2) by (simp_all add: same_but_storage_def)
  show ?thesis using ok w(1,3) f' by (auto simp: fifo_ok_def after_read_def IsFull_def IsEmpty_def split: read_end.splits)
qed

lemma fifo_ok_step:
  assumes ok: "fifo_ok n st" and e: "fifo_exec st op = Some (a, st')"
  shows "fifo_ok n st'"
proof -
  let ?f = "fs_fifo st"
  have len: "length (m_storage ?f) \<le> m_ulMaxSize ?f" "m_ulMaxSize ?f = n" using ok by (auto simp: fifo_ok_def)
  have wl: "fifo_ok n (snd (after_write st (write_loop ?f rest k)))" for rest k
  proof -
    obtain r put f' where w: "write_loop ?f rest k = (r, put, f')" by (cases "write_loop ?f rest k")
    from write_loop_does[OF w len(1)] show ?thesis unfolding w len(2)
      by (intro ok_after_write[OF ok]) (auto split: write_end.splits)
  qed
  have rl: "fifo_ok n (snd (after_read st (read_loop ?f k got)))" for k got
  proof -
    obtain r taken f' where w: "read_loop ?f k got = (r, taken, f')" by (cases "read_loop ?f k got")
    from read_loop_does[OF w] show ?thesis unfolding w
      by (intro ok_after_read[OF ok]) (auto split: read_end.splits)
  qed
  have wd: "fifo_ok n (snd (after_write st (WDone er k, [], ?f)))" for er k
    using len by (intro ok_after_write[OF ok]) auto
  have rd: "fifo_ok n (snd (after_read st (RDone er all, [], ?f)))" for er all
    by (intro ok_after_read[OF ok]) (auto simp: same_but_storage_def)
  have same: "fifo_ok n (st\<lparr>fs_wentry := x\<rparr>)" "fifo_ok n (st\<lparr>fs_rentry := y\<rparr>)" for x y using ok by (simp_all add: fifo_ok_def)
  show ?thesis
  proof (cases op)
    case (OpWrite data)
    then show ?thesis using e ok same by (auto simp: fifo_exec_def split: if_splits option.splits)
  next
    case OpWriterEnters
    then show ?thesis using e wl by (auto simp: fifo_exec_def) (metis snd_conv)
  next
    case OpWriterWakes
    then show ?thesis using e wl by (auto simp: fifo_exec_def) (metis snd_conv)
  next
    case OpWriterTimesOut
    then show ?thesis using e wd by (auto simp: fifo_exec_def) (metis snd_conv)
  next
    case (OpRead k)
    then show ?thesis using e ok same by (auto simp: fifo_exec_def split: if_splits option.splits)
  next
    case OpReaderEnters
    then show ?thesis using e rl by (auto simp: fifo_exec_def) (metis snd_conv)
  next
    case OpReaderWakes
    then show ?thesis using e rl by (auto simp: fifo_exec_def) (metis snd_conv)
  next
    case OpReaderTimesOut
    then show ?thesis using e rd by (auto simp: fifo_exec_def) (metis snd_conv)
  next
    case (OpClose cr cw)
    then show ?thesis using e ok by (auto simp: fifo_exec_def fifo_ok_def Fifo_Close_def IsFull_def IsEmpty_def)
  qed
qed

lemma fifo_reach_ok: "fifo_reach n st \<Longrightarrow> fifo_ok n st"
proof (induction rule: fifo_reach.induct)
  case start
  then show ?case by (simp add: fifo_ok_def fifo_start_def ECFifoBuffer_def)
next
  case (step st op a st')
  then show ?case by (rule_tac fifo_ok_step)
qed

lemma fifo_trace_reach: "fifo_trace n tr st \<Longrightarrow> fifo_reach n st"
  by (induction rule: fifo_trace.induct) (auto intro: fifo_reach.intros)

subsection \<open>What callers see\<close>

text \<open>
  The calls of \<open>Write\<close> in a run, the newest first, each with the data it was given and its last answer: an answer of a
  later step belongs to the call that is under way.
\<close>

definition answered :: "'b \<Rightarrow> ('a \<times> 'b) list \<Rightarrow> ('a \<times> 'b) list" where
  "answered r calls = (case calls of [] \<Rightarrow> [] | (d, _) # cs \<Rightarrow> (d, r) # cs)"

fun writes :: "(fifo_op \<times> fifo_answer) list \<Rightarrow> (u8 list \<times> write_end) list" where
  "writes [] = []"
| "writes ((OpWrite data, AWrite r) # tr) = (data, r) # writes tr"
| "writes ((OpWrite data, AEntered) # tr) = (data, WBlocked data 0) # writes tr"
| "writes ((_, AWrite r) # tr) = answered r (writes tr)"
| "writes (_ # tr) = writes tr"

text \<open>The calls of \<open>Read\<close>, each with the size it was given and the bytes it has stored for its caller.\<close>

fun stored :: "read_end \<Rightarrow> u8 list" where
  "stored (RDone er got) = got"
| "stored (RBlocked left got) = got"

fun reads :: "(fifo_op \<times> fifo_answer) list \<Rightarrow> (nat \<times> u8 list) list" where
  "reads [] = []"
| "reads ((OpRead m, ARead r) # tr) = (m, stored r) # reads tr"
| "reads ((OpRead m, AEntered) # tr) = (m, []) # reads tr"
| "reads ((_, ARead r) # tr) = answered (stored r) (reads tr)"
| "reads (_ # tr) = reads tr"

text \<open>
  What a call that was given \<open>data\<close> says on how many bytes went in: all of them when it succeeds, the number it
  reports when time is up or it waits, and nothing after another failure.
\<close>

fun went_in :: "u8 list \<times> write_end \<Rightarrow> nat \<Rightarrow> bool" where
  "went_in (data, WDone er n) k \<longleftrightarrow> k \<le> length data \<and> (er = erSuccess \<longrightarrow> k = length data) \<and> (n = None \<or> n = Some k)"
| "went_in (data, WBlocked rest n) k \<longleftrightarrow> k \<le> length data \<and> n = k \<and> rest = drop k data"

definition put_in :: "(u8 list \<times> write_end) list \<Rightarrow> nat list \<Rightarrow> u8 list" where
  "put_in ws ks = concat (rev (map2 (\<lambda>(data, r) k. take k data) ws ks))"

definition taken_out :: "(nat \<times> u8 list) list \<Rightarrow> u8 list" where
  "taken_out rs = concat (rev (map snd rs))"

lemma put_in_Cons [simp]: "put_in ((data, r) # ws) (k # ks) = put_in ws ks @ take k data"
  by (simp add: put_in_def)

lemma taken_out_Cons [simp]: "taken_out ((m, bs) # rs) = taken_out rs @ bs"
  by (simp add: taken_out_def)

definition fifo_seen :: "(fifo_op \<times> fifo_answer) list \<Rightarrow> fifo_state \<Rightarrow> bool" where
  "fifo_seen tr st \<longleftrightarrow>
     (\<exists>ks. list_all2 went_in (writes tr) ks \<and> put_in (writes tr) ks = taken_out (reads tr) @ m_storage (fs_fifo st)) \<and>
     (\<forall>data. fs_wentry st = Some data \<longrightarrow> (\<exists>ws. writes tr = (data, WBlocked data 0) # ws)) \<and>
     (\<forall>rest k. fs_writer st = Some (rest, k) \<longrightarrow> (\<exists>data ws. writes tr = (data, WBlocked rest k) # ws)) \<and>
     (\<forall>m. fs_rentry st = Some m \<longrightarrow> (\<exists>rs. reads tr = (m, []) # rs)) \<and>
     (\<forall>left got. fs_reader st = Some (left, got) \<longrightarrow> (\<exists>m rs. reads tr = (m, got) # rs))"

text \<open>A step of a call of \<open>Write\<close> that is under way.\<close>

lemma seen_after_write:
  assumes seen: "fifo_seen tr st" and head: "writes tr = (data, WBlocked rest k) # ws"
    and tr': "writes tr' = answered r (writes tr)" "reads tr' = reads tr"
    and f': "m_storage f' = m_storage (fs_fifo st) @ put"
    and r: "case r of
       WDone er j \<Rightarrow> (er = erSuccess \<longrightarrow> put = rest) \<and> (j = None \<or> j = Some (k + length put)) \<and> (\<exists>left. rest = put @ left)
     | WBlocked left j \<Rightarrow> rest = put @ left \<and> j = k + length put"
  shows "fifo_seen tr' (snd (after_write st (r, put, f')))"
proof -
  obtain j ks where ks: "went_in (data, WBlocked rest k) j" "list_all2 went_in ws ks"
    "put_in ws ks @ take j data = taken_out (reads tr) @ m_storage (fs_fifo st)"
    using seen head by (auto simp: fifo_seen_def list_all2_Cons1)
  have j: "j = k" "k \<le> length data" "rest = drop k data" using ks(1) by auto
  obtain left where left: "rest = put @ left" using r by (cases r) auto
  have "drop k data = put @ left" using j(3) left by simp
  then have more: "take (k + length put) data = take k data @ put" by (simp add: take_add)
  have "length put \<le> length rest" using left by simp
  then have le: "k + length put \<le> length data" using j by simp
  have "went_in (data, r) (k + length put)"
  proof (cases r)
    case (WDone er n)
    then show ?thesis using r le j by auto
  next
    case (WBlocked left' n)
    then have "rest = put @ left'" "n = k + length put" using r by simp_all
    moreover have "drop (k + length put) data = drop (length put) rest" using j by (simp add: add.commute)
    ultimately show ?thesis using WBlocked le by simp
  qed
  moreover have "put_in ws ks @ take (k + length put) data = taken_out (reads tr) @ m_storage f'"
    using ks(3) f' more j(1) by simp
  ultimately have "\<exists>ks. list_all2 went_in ((data, r) # ws) ks \<and> put_in ((data, r) # ws) ks = taken_out (reads tr) @ m_storage f'"
    using ks(2) by (intro exI[of _ "(k + length put) # ks"]) simp
  then show ?thesis using seen
    by (auto simp: fifo_seen_def after_write_def tr' head answered_def split: write_end.splits)
qed

lemma seen_after_read:
  assumes seen: "fifo_seen tr st" and head: "reads tr = (m, got) # rs"
    and tr': "writes tr' = writes tr" "reads tr' = answered (stored r) (reads tr)"
    and f': "m_storage (fs_fifo st) = taken @ m_storage f'" and r: "stored r = got @ taken"
  shows "fifo_seen tr' (snd (after_read st (r, taken, f')))"
proof -
  have "taken_out ((m, got @ taken) # rs) @ m_storage f' = taken_out ((m, got) # rs) @ m_storage (fs_fifo st)" using f' by simp
  then show ?thesis using seen r
    by (auto simp: fifo_seen_def after_read_def tr' head answered_def split: read_end.splits)
qed

lemma fifo_seen_step:
  assumes ok: "fifo_ok n st" and seen: "fifo_seen tr st" and e: "fifo_exec st op = Some (a, st')"
  shows "fifo_seen ((op, a) # tr) st'"
proof -
  let ?f = "fs_fifo st"
  have len: "length (m_storage ?f) \<le> m_ulMaxSize ?f" using ok by (auto simp: fifo_ok_def)
  have wl: "fifo_seen tr' (snd (after_write st w))"
    if "writes tr = (data, WBlocked rest k) # ws" "w = write_loop ?f rest k"
      "writes tr' = answered (fst w) (writes tr)" "reads tr' = reads tr" for data rest k ws w tr'
  proof -
    obtain r put f' where w: "write_loop ?f rest k = (r, put, f')" by (cases "write_loop ?f rest k")
    show ?thesis unfolding that(2) w
      by (rule seen_after_write[OF seen that(1)])
        (use that write_loop_does[OF w len] in \<open>auto simp: w split: write_end.splits if_splits\<close>)
  qed
  have rl: "fifo_seen tr' (snd (after_read st w))"
    if "reads tr = (m, got) # rs" "w = read_loop ?f k got"
      "writes tr' = writes tr" "reads tr' = answered (stored (fst w)) (reads tr)" for m got rs w k tr'
  proof -
    obtain r taken f' where w: "read_loop ?f k got = (r, taken, f')" by (cases "read_loop ?f k got")
    show ?thesis unfolding that(2) w
      by (rule seen_after_read[OF seen that(1)])
        (use that read_loop_does[OF w] in \<open>auto simp: w split: read_end.splits\<close>)
  qed
  obtain ks where ks: "list_all2 went_in (writes tr) ks" "put_in (writes tr) ks = taken_out (reads tr) @ m_storage ?f"
    using seen by (auto simp: fifo_seen_def)
  show ?thesis
  proof (cases op)
    case (OpWrite data)
    show ?thesis
    proof (cases "Fifo_Write ?f data")
      case None
      have "\<exists>ks. list_all2 went_in ((data, WBlocked data 0) # writes tr) ks \<and>
          put_in ((data, WBlocked data 0) # writes tr) ks = taken_out (reads tr) @ m_storage ?f"
        using ks by (intro exI[of _ "0 # ks"]) simp
      then show ?thesis using e OpWrite None seen by (auto simp: fifo_exec_def fifo_seen_def split: if_splits)
    next
      case (Some r)
      then have "went_in (data, r) 0" "take 0 data = []" by (auto simp: Fifo_Write_def split: if_splits)
      then have "\<exists>ks. list_all2 went_in ((data, r) # writes tr) ks \<and>
          put_in ((data, r) # writes tr) ks = taken_out (reads tr) @ m_storage ?f"
        using ks by (intro exI[of _ "0 # ks"]) simp
      then show ?thesis using e OpWrite Some seen by (auto simp: fifo_exec_def fifo_seen_def split: if_splits)
    qed
  next
    case OpWriterEnters
    then obtain data where d: "fs_wentry st = Some data" "after_write st (write_loop ?f data 0) = (a, st')"
      using e by (auto simp: fifo_exec_def)
    then obtain ws where "writes tr = (data, WBlocked data 0) # ws" using seen by (auto simp: fifo_seen_def)
    from wl[OF this refl, of "(op, a) # tr"] d(2) OpWriterEnters show ?thesis
      by (auto simp: after_write_def split: prod.splits)
  next
    case OpWriterWakes
    then obtain rest k where d: "fs_writer st = Some (rest, k)" "after_write st (write_loop ?f rest k) = (a, st')"
      using e by (auto simp: fifo_exec_def)
    then obtain data ws where "writes tr = (data, WBlocked rest k) # ws" using seen by (auto simp: fifo_seen_def)
    from wl[OF this refl, of "(op, a) # tr"] d(2) OpWriterWakes show ?thesis
      by (auto simp: after_write_def split: prod.splits)
  next
    case OpWriterTimesOut
    then obtain rest k where d: "fs_writer st = Some (rest, k)"
        "after_write st (WDone ZARAFA_E_TIMEOUT (Some k), [], ?f) = (a, st')"
      using e by (auto simp: fifo_exec_def)
    then obtain data ws where h: "writes tr = (data, WBlocked rest k) # ws" using seen by (auto simp: fifo_seen_def)
    have "fifo_seen ((op, a) # tr) (snd (after_write st (WDone ZARAFA_E_TIMEOUT (Some k), [], ?f)))"
      by (rule seen_after_write[OF seen h]) (use d(2) OpWriterTimesOut in \<open>auto simp: after_write_def\<close>)
    then show ?thesis using d(2) by simp
  next
    case (OpRead m)
    show ?thesis
    proof (cases "Fifo_Read ?f m")
      case None
      then show ?thesis using e OpRead seen by (auto simp: fifo_exec_def fifo_seen_def split: if_splits)
    next
      case (Some r)
      then have "stored r = []" by (auto simp: Fifo_Read_def split: if_splits)
      then show ?thesis using e OpRead Some seen by (auto simp: fifo_exec_def fifo_seen_def split: if_splits)
    qed
  next
    case OpReaderEnters
    then obtain m where d: "fs_rentry st = Some m" "after_read st (read_loop ?f m []) = (a, st')"
      using e by (auto simp: fifo_exec_def)
    then obtain rs where "reads tr = (m, []) # rs" using seen by (auto simp: fifo_seen_def)
    from rl[OF this, of "read_loop ?f m []" m "(op, a) # tr"] d(2) OpReaderEnters show ?thesis
      by (auto simp: after_read_def split: prod.splits)
  next
    case OpReaderWakes
    then obtain left got where d: "fs_reader st = Some (left, got)" "after_read st (read_loop ?f left got) = (a, st')"
      using e by (auto simp: fifo_exec_def)
    then obtain m rs where "reads tr = (m, got) # rs" using seen by (auto simp: fifo_seen_def)
    from rl[OF this, of "read_loop ?f left got" left "(op, a) # tr"] d(2) OpReaderWakes show ?thesis
      by (auto simp: after_read_def split: prod.splits)
  next
    case OpReaderTimesOut
    then obtain left got where d: "fs_reader st = Some (left, got)"
        "after_read st (RDone ZARAFA_E_TIMEOUT got, [], ?f) = (a, st')"
      using e by (auto simp: fifo_exec_def)
    then obtain m rs where h: "reads tr = (m, got) # rs" using seen by (auto simp: fifo_seen_def)
    have "fifo_seen ((op, a) # tr) (snd (after_read st (RDone ZARAFA_E_TIMEOUT got, [], ?f)))"
      by (rule seen_after_read[OF seen h]) (use d(2) OpReaderTimesOut in \<open>auto simp: after_read_def\<close>)
    then show ?thesis using d(2) by simp
  next
    case (OpClose cr cw)
    then show ?thesis using e seen by (auto simp: fifo_exec_def fifo_seen_def Fifo_Close_def)
  qed
qed

lemma fifo_trace_seen: "fifo_trace n tr st \<Longrightarrow> fifo_seen tr st"
proof (induction rule: fifo_trace.induct)
  case start
  then show ?case by (simp add: fifo_seen_def fifo_start_def ECFifoBuffer_def put_in_def taken_out_def)
next
  case (step tr st op a st')
  then show ?case using fifo_seen_step fifo_reach_ok fifo_trace_reach by blast
qed

subsection \<open>Properties\<close>

text \<open>
  C26: whatever the two threads do, the bytes that the calls of \<open>Read\<close> have stored for their callers, in order, and then
  those in the buffer are the bytes that the calls of \<open>Write\<close> were given, as far as each says that they went in: all
  of them when it succeeds, the reported number when time is up or it waits. The buffer never holds more than its size.
\<close>

theorem fifo_in_order:
  assumes "fifo_trace n tr st"
  shows "\<exists>ks. list_all2 went_in (writes tr) ks \<and> put_in (writes tr) ks = taken_out (reads tr) @ m_storage (fs_fifo st) \<and>
    length (m_storage (fs_fifo st)) \<le> n"
  using fifo_trace_seen[OF assms] fifo_reach_ok[OF fifo_trace_reach[OF assms]] by (auto simp: fifo_seen_def fifo_ok_def)

text \<open>
  C27: no wakeup is lost: a thread that waits and was not signalled has to wait, and when both threads wait, one of them was
  signalled, so the buffer of a positive size never stands still.
\<close>

theorem fifo_no_lost_wakeup:
  assumes "fifo_reach n st" "0 < n"
  shows "(fs_writer st \<noteq> None \<longrightarrow> fs_wsignal st \<or> IsFull (fs_fifo st) \<and> \<not> m_bReaderClosed (fs_fifo st)) \<and>
    (fs_reader st \<noteq> None \<longrightarrow> fs_rsignal st \<or> IsEmpty (fs_fifo st) \<and> \<not> m_bWriterClosed (fs_fifo st)) \<and>
    (fs_writer st \<noteq> None \<and> fs_reader st \<noteq> None \<longrightarrow> fs_wsignal st \<or> fs_rsignal st)"
  using fifo_reach_ok[OF assms(1)] assms(2) by (auto simp: fifo_ok_def IsFull_def IsEmpty_def)

text \<open>
  A read that succeeds with less than it asked for has met the end: the writer has closed and nothing is left; one that
  waits has stored what it got and has not met the end.
\<close>

theorem short_read_is_end:
  assumes "fs_rentry st = Some m"
  shows "\<exists>r st'. fifo_exec st OpReaderEnters = Some (ARead r, st') \<and>
    (case r of RDone er got \<Rightarrow> er = erSuccess \<and> length got \<le> m \<and>
       (length got < m \<longrightarrow> m_bWriterClosed (fs_fifo st') \<and> IsEmpty (fs_fifo st'))
     | RBlocked left got \<Rightarrow> m = length got + left \<and> 0 < left \<and> \<not> m_bWriterClosed (fs_fifo st'))"
proof -
  obtain r taken f' where w: "read_loop (fs_fifo st) m [] = (r, taken, f')" by (cases "read_loop (fs_fifo st) m []")
  note d = read_loop_does[OF w]
  then have "m_bWriterClosed f' = m_bWriterClosed (fs_fifo st)" by (simp add: same_but_storage_def)
  with d show ?thesis using assms w by (cases r) (auto simp: fifo_exec_def after_read_def)
qed

text \<open>
  \<open>Flush\<close> never waits: before the writer has closed it fails, and afterwards it succeeds at once, however much is in the
  buffer; and data that fits is written with success although the reader has closed and nobody will read it.
\<close>

theorem flush_never_waits:
  assumes "length (m_storage f) + length data \<le> m_ulMaxSize f" "\<not> m_bWriterClosed f" "data \<noteq> []"
  shows "Flush g = Some (if m_bWriterClosed g then erSuccess else ZARAFA_E_NETWORK_ERROR) \<and>
    Fifo_Write (Fifo_Close True False f) data = None \<and>
    fst (write_loop (Fifo_Close True False f) data 0) = WDone erSuccess (Some (length data))"
proof -
  let ?f = "Fifo_Close True False f"
  obtain r put f' where w: "write_loop ?f data 0 = (r, put, f')" by (cases "write_loop ?f data 0")
  have len: "length (m_storage ?f) \<le> m_ulMaxSize ?f" using assms(1) by (simp add: Fifo_Close_def)
  from write_loop_does[OF w len] assms(1) have "r = WDone erSuccess (Some (length data))"
    by (cases r) (auto simp: IsFull_def Fifo_Close_def simp flip: length_greater_0_conv split: if_splits)
  then show ?thesis using w assms(2,3) by (simp add: Flush_def Fifo_Write_def Fifo_Close_def)
qed

subsection \<open>Examples\<close>

text \<open>A buffer of two bytes: the writer waits with the third, and is signalled when the reader takes one.\<close>

definition demo_fifo :: fifo_state where
  "demo_fifo = (fifo_start 2)\<lparr>fs_fifo := (ECFifoBuffer 2)\<lparr>m_storage := [8]\<rparr>, fs_writer := Some ([9], 2), fs_wsignal := True\<rparr>"

definition demo_trace :: "(fifo_op \<times> fifo_answer) list" where
  "demo_trace = [(OpReaderEnters, ARead (RDone erSuccess [7])), (OpRead 1, AEntered),
     (OpWriterEnters, AWrite (WBlocked [9] 2)), (OpWrite [7, 8, 9], AEntered)]"

lemma read_loop_0: "read_loop f 0 got = (RDone erSuccess got, [], f)"
  by (simp add: read_loop.simps)

lemma demo_fifo_trace: "fifo_trace 2 demo_trace demo_fifo"
proof -
  let ?full = "(ECFifoBuffer 2)\<lparr>m_storage := [7, 8]\<rparr>"
  let ?s1 = "(fifo_start 2)\<lparr>fs_wentry := Some [7, 8, 9]\<rparr>"
  let ?s2 = "(fifo_start 2)\<lparr>fs_fifo := ?full, fs_writer := Some ([9], 2), fs_rsignal := True\<rparr>"
  let ?s3 = "?s2\<lparr>fs_rentry := Some 1\<rparr>"
  have 1: "fifo_exec (fifo_start 2) (OpWrite [7, 8, 9]) = Some (AEntered, ?s1)"
    by (simp add: fifo_exec_def fifo_start_def Fifo_Write_def ECFifoBuffer_def)
  have "write_loop (ECFifoBuffer 2) [7, 8, 9] 0 = (WBlocked [9] 2, [7, 8], ?full)"
    by (simp add: ECFifoBuffer_def write_loop.simps[of _ "[7, 8, 9]"] write_loop.simps[of _ "[9]"] IsFull_def free_room_def Let_def)
  then have 2: "fifo_exec ?s1 OpWriterEnters = Some (AWrite (WBlocked [9] 2), ?s2)"
    by (simp add: fifo_exec_def fifo_start_def after_write_def)
  have 3: "fifo_exec ?s2 (OpRead 1) = Some (AEntered, ?s3)"
    by (simp add: fifo_exec_def fifo_start_def Fifo_Read_def ECFifoBuffer_def)
  have "read_loop ?full 1 [] = (RDone erSuccess [7], [7], (ECFifoBuffer 2)\<lparr>m_storage := [8]\<rparr>)"
    by (subst read_loop.simps) (simp add: IsEmpty_def Let_def read_loop_0)
  then have 4: "fifo_exec ?s3 OpReaderEnters = Some (ARead (RDone erSuccess [7]), demo_fifo)"
    by (simp add: fifo_exec_def fifo_start_def after_read_def demo_fifo_def)
  show ?thesis unfolding demo_trace_def
    by (rule fifo_trace.step[OF fifo_trace.step[OF fifo_trace.step[OF fifo_trace.step[OF fifo_trace.start 1] 2] 3] 4])
qed

theorem fifo_in_order_witness:
  "\<exists>ks. list_all2 went_in [([7, 8, 9], WBlocked [9] 2)] ks \<and> put_in [([7, 8, 9], WBlocked [9] 2)] ks = taken_out [(1, [7])] @ [8]"
  using fifo_in_order[OF demo_fifo_trace] by (auto simp: demo_trace_def demo_fifo_def answered_def)

theorem fifo_no_lost_wakeup_witness: "fs_writer demo_fifo \<noteq> None \<and> (fs_wsignal demo_fifo \<or> IsFull (fs_fifo demo_fifo))"
  using fifo_no_lost_wakeup[OF fifo_trace_reach[OF demo_fifo_trace]] by (simp add: demo_fifo_def)

theorem short_read_is_end_witness:
  "\<exists>r st'. fifo_exec ((fifo_start 4)\<lparr>fs_rentry := Some 1\<rparr>) OpReaderEnters = Some (ARead r, st')"
  using short_read_is_end[of "(fifo_start 4)\<lparr>fs_rentry := Some 1\<rparr>" 1] by auto

theorem flush_never_waits_witness:
  "Flush \<lparr>m_storage = [1], m_ulMaxSize = 4, m_bReaderClosed = False, m_bWriterClosed = True\<rparr> = Some erSuccess \<and>
    fst (write_loop (Fifo_Close True False (ECFifoBuffer 4)) [1, 2] 0) = WDone erSuccess (Some 2)"
  using flush_never_waits[of "ECFifoBuffer 4" "[1, 2]" "\<lparr>m_storage = [1], m_ulMaxSize = 4, m_bReaderClosed = False, m_bWriterClosed = True\<rparr>"]
  by (simp add: ECFifoBuffer_def)

end
