(* ===== verification/Mem_Stream.thy ===== *)
theory Mem_Stream
  imports Zcp_Prelude
begin

text \<open>
  \<open>ECMemBlock\<close> and \<open>ECMemStream\<close> of \<^verbatim>\<open>common/ECMemStream.cpp\<close>: a block of bytes that grows, with a copy to
  which it can go back, and streams with a position over it. The operations of a stream take and give back the
  block, which several streams may share. Memory does not run out; an access outside the allocated memory is
  \<^const>\<open>None\<close>.
\<close>

subsection \<open>Blocks\<close>

definition STGM_WRITE :: u32 where "STGM_WRITE = 0x00000001"
definition STGM_SHARE_EXCLUSIVE :: u32 where "STGM_SHARE_EXCLUSIVE = 0x00000010"
definition STGM_TRANSACTED :: u32 where "STGM_TRANSACTED = 0x00010000"
definition EC_MEMBLOCK_SIZE :: u32 where "EC_MEMBLOCK_SIZE = 8192"

lemmas stgm_defs = STGM_WRITE_def STGM_SHARE_EXCLUSIVE_def STGM_TRANSACTED_def

text \<open>What \<open>lpCurrent\<close> and \<open>lpOriginal\<close> point to; \<open>cbOriginal\<close> is the length of the latter.\<close>

record mem_block =
  lpCurrent :: "u8 list"
  cbCurrent :: u32
  cbTotal :: u32
  lpOriginal :: "u8 list"
  mb_ulFlags :: u32

definition ECMemBlock :: "u8 list \<Rightarrow> u32 \<Rightarrow> mem_block" where
  "ECMemBlock buffer ulFlags =
     \<lparr>lpCurrent = buffer, cbCurrent = of_nat (length buffer), cbTotal = of_nat (length buffer),
      lpOriginal = (if ulFlags AND STGM_TRANSACTED \<noteq> 0 then buffer else []), mb_ulFlags = ulFlags\<rparr>"

definition ReadAt :: "mem_block \<Rightarrow> u32 \<Rightarrow> u32 \<Rightarrow> u8 list option" where
  "ReadAt b ulPos ulLen =
     (let ulToRead = cbCurrent b - ulPos; ulToRead = (if ulLen < ulToRead then ulLen else ulToRead)
      in if ulToRead \<noteq> 0 \<and> unat ulPos + unat ulToRead > length (lpCurrent b) then None
         else Some (take (unat ulToRead) (drop (unat ulPos) (lpCurrent b))))"

text \<open>The new memory is cleared; the length of the data fits a \<open>ULONG\<close>.\<close>

definition grow :: "mem_block \<Rightarrow> u32 \<Rightarrow> mem_block option" where
  "grow b dsize =
     (if cbTotal b < dsize then
        (let newsize = cbTotal b + (dsize div EC_MEMBLOCK_SIZE + 1) * EC_MEMBLOCK_SIZE
         in if newsize < cbTotal b then None
            else Some (b\<lparr>lpCurrent := lpCurrent b @ replicate (unat newsize - unat (cbTotal b)) 0, cbTotal := newsize\<rparr>))
      else Some b)"

definition WriteAt :: "mem_block \<Rightarrow> u32 \<Rightarrow> u8 list \<Rightarrow> mem_block option" where
  "WriteAt b ulPos buffer =
     (let dsize = ulPos + of_nat (length buffer) in
      case grow b dsize of None \<Rightarrow> None
      | Some b \<Rightarrow>
          (let b = (if dsize > cbCurrent b then b\<lparr>cbCurrent := dsize\<rparr> else b) in
           if buffer \<noteq> [] \<and> unat ulPos + length buffer > length (lpCurrent b) then None
           else Some (b\<lparr>lpCurrent := take (unat ulPos) (lpCurrent b) @ buffer @ drop (unat ulPos + length buffer) (lpCurrent b)\<rparr>)))"

definition Block_Commit :: "mem_block \<Rightarrow> mem_block" where
  "Block_Commit b =
     (if mb_ulFlags b AND STGM_TRANSACTED \<noteq> 0 then b\<lparr>lpOriginal := take (unat (cbCurrent b)) (lpCurrent b)\<rparr> else b)"

definition Block_Revert :: "mem_block \<Rightarrow> mem_block" where
  "Block_Revert b =
     (if mb_ulFlags b AND STGM_TRANSACTED \<noteq> 0
      then b\<lparr>lpCurrent := lpOriginal b, cbCurrent := of_nat (length (lpOriginal b)), cbTotal := of_nat (length (lpOriginal b))\<rparr>
      else b)"

definition Block_SetSize :: "mem_block \<Rightarrow> u32 \<Rightarrow> mem_block" where
  "Block_SetSize b ulSize =
     b\<lparr>lpCurrent := take (unat (if ulSize < cbCurrent b then ulSize else cbCurrent b)) (lpCurrent b) @
         (if ulSize > cbCurrent b then replicate (unat ulSize - unat (cbCurrent b)) 0 else []),
       cbCurrent := ulSize, cbTotal := ulSize\<rparr>"

definition GetSize :: "mem_block \<Rightarrow> u32" where
  "GetSize b = cbCurrent b"

subsection \<open>Streams\<close>

text \<open>\<open>ms_commits\<close> lists what the commit function was given.\<close>

record mem_stream =
  liPos :: u64
  fDirty :: bool
  ms_ulFlags :: u32
  ms_commits :: "u8 list list"

definition ECMemStream :: "u32 \<Rightarrow> mem_stream" where
  "ECMemStream ulFlags = \<lparr>liPos = 0, fDirty = False, ms_ulFlags = ulFlags, ms_commits = []\<rparr>"

definition Clone :: "mem_stream \<Rightarrow> mem_stream" where
  "Clone s = ECMemStream (ms_ulFlags s)"

text \<open>
  \<open>cf\<close> is the commit function, if there is one: it reads the clone that it is given and answers with a code.
\<close>

definition Stream_Commit ::
  "(u8 list \<Rightarrow> hresult) option \<Rightarrow> mem_block \<Rightarrow> mem_stream \<Rightarrow> hresult \<times> mem_block \<times> mem_stream" where
  "Stream_Commit cf b s =
     (let b = Block_Commit b; data = take (unat (cbCurrent b)) (lpCurrent b) in
      case cf of
        None \<Rightarrow> (hrSuccess, b, s\<lparr>fDirty := False\<rparr>)
      | Some f \<Rightarrow> (f data, b, s\<lparr>fDirty := False, ms_commits := ms_commits s @ [data]\<rparr>))"

definition Stream_Read :: "mem_block \<Rightarrow> mem_stream \<Rightarrow> u32 \<Rightarrow> (u8 list \<times> mem_stream) option" where
  "Stream_Read b s cb =
     map_option (\<lambda>data. (data, s\<lparr>liPos := liPos s + of_nat (length data)\<rparr>)) (ReadAt b (ucast (liPos s)) cb)"

definition Stream_Write ::
  "(u8 list \<Rightarrow> hresult) option \<Rightarrow> mem_block \<Rightarrow> mem_stream \<Rightarrow> u8 list \<Rightarrow> (hresult \<times> mem_block \<times> mem_stream) option" where
  "Stream_Write cf b s data =
     (if ms_ulFlags s AND STGM_WRITE = 0 then Some (MAPI_E_NO_ACCESS, b, s)
      else
        (case WriteAt b (ucast (liPos s)) data of None \<Rightarrow> None
         | Some b \<Rightarrow>
             (let s = s\<lparr>liPos := liPos s + of_nat (length data), fDirty := True\<rparr> in
              if ms_ulFlags s AND STGM_TRANSACTED = 0 \<and> ms_ulFlags s AND STGM_SHARE_EXCLUSIVE = 0
              then (case Stream_Commit cf b s of (_, b, s) \<Rightarrow> Some (hrSuccess, b, s))
              else Some (hrSuccess, b, s))))"

text \<open>The position is unsigned: its test for less than 0 never holds.\<close>

definition Stream_Seek :: "mem_block \<Rightarrow> mem_stream \<Rightarrow> i64 \<Rightarrow> u32 \<Rightarrow> u64 \<times> mem_stream" where
  "Stream_Seek b s dlibmove dwOrigin =
     (let ulSize = ucast (GetSize b);
          p = (if dwOrigin = 0 then dlibmove else if dwOrigin = 1 then liPos s + dlibmove
               else if dwOrigin = 2 then ulSize + dlibmove else liPos s);
          p = (if p > ulSize then ulSize else p)
      in (p, s\<lparr>liPos := p\<rparr>))"

definition Stream_SetSize :: "mem_block \<Rightarrow> mem_stream \<Rightarrow> u64 \<Rightarrow> hresult \<times> mem_block \<times> mem_stream" where
  "Stream_SetSize b s libNewSize =
     (if ms_ulFlags s AND STGM_WRITE = 0 then (MAPI_E_NO_ACCESS, b, s)
      else (hrSuccess, Block_SetSize b (ucast libNewSize), s\<lparr>fDirty := True\<rparr>))"

definition Stream_Revert :: "mem_block \<Rightarrow> mem_stream \<Rightarrow> mem_block \<times> mem_stream" where
  "Stream_Revert b s = (Block_Revert b, s\<lparr>liPos := 0\<rparr>)"

definition Stream_Stat :: "mem_block \<Rightarrow> mem_stream \<Rightarrow> u64 \<times> u32" where
  "Stream_Stat b s = (ucast (GetSize b), ms_ulFlags s)"

text \<open>When the last reference is released, what was not committed is.\<close>

definition Stream_Release ::
  "(u8 list \<Rightarrow> hresult) option \<Rightarrow> mem_block \<Rightarrow> mem_stream \<Rightarrow> mem_block \<times> mem_stream" where
  "Stream_Release cf b s =
     (if ms_ulFlags s AND STGM_SHARE_EXCLUSIVE \<noteq> 0 \<and> fDirty s then snd (Stream_Commit cf b s) else (b, s))"

text \<open>
  The loop of \<open>CopyTo\<close>: \<open>wr\<close> is \<open>Write\<close> of the other stream, which sets \<open>ulWritten\<close> or leaves it as it was.
\<close>

partial_function (option) copy_loop ::
  "('d \<Rightarrow> u8 list \<Rightarrow> u32 option \<times> 'd) \<Rightarrow> mem_block \<Rightarrow> u32 \<Rightarrow> u32 \<Rightarrow> u64 \<Rightarrow> 'd \<Rightarrow> (u32 \<times> 'd) option" where
  "copy_loop wr b ulOffset ulWritten cb d =
     (if cb \<noteq> 0 \<and> GetSize b > ulOffset then
        (let n = min (GetSize b - ulOffset) (ucast cb);
             (w, d) = wr d (take (unat n) (drop (unat ulOffset) (lpCurrent b)));
             ulWritten = (case w of None \<Rightarrow> ulWritten | Some k \<Rightarrow> k)
         in copy_loop wr b (ulOffset + ulWritten) ulWritten (cb - ucast ulWritten) d)
      else Some (ulOffset, d))"

definition Stream_CopyTo ::
  "('d \<Rightarrow> u8 list \<Rightarrow> u32 option \<times> 'd) \<Rightarrow> mem_block \<Rightarrow> mem_stream \<Rightarrow> u64 \<Rightarrow> 'd \<Rightarrow> (u32 \<times> mem_stream \<times> 'd) option" where
  "Stream_CopyTo wr b s cb d =
     map_option (\<lambda>(off, d). (off - ucast (liPos s), s\<lparr>liPos := ucast off\<rparr>, d)) (copy_loop wr b (ucast (liPos s)) 0 cb d)"

end
