(* ===== verification/Mem_Stream_Facts.thy ===== *)
theory Mem_Stream_Facts
  imports Mem_Stream
begin

text \<open>
  Streams as files: what reading, writing and seeking do to a list of bytes and a position, going back to what
  was committed, and the calls that read outside the memory, do not return, or seek to the wrong end.
\<close>

subsection \<open>Blocks as lists of bytes\<close>

definition contents :: "mem_block \<Rightarrow> u8 list" where
  "contents b = take (unat (cbCurrent b)) (lpCurrent b)"

text \<open>The memory is as long as it should be, and cleared behind the contents.\<close>

definition block_ok :: "mem_block \<Rightarrow> bool" where
  "block_ok b \<longleftrightarrow> length (lpCurrent b) = unat (cbTotal b) \<and> cbCurrent b \<le> cbTotal b \<and>
     lpCurrent b = contents b @ replicate (unat (cbTotal b) - unat (cbCurrent b)) 0 \<and> length (lpOriginal b) < 2 ^ 32"

text \<open>Writing into a list, which is filled up with zeros to the place.\<close>

definition overwrite :: "nat \<Rightarrow> u8 list \<Rightarrow> u8 list \<Rightarrow> u8 list" where
  "overwrite pos data xs = take pos xs @ replicate (pos - length xs) 0 @ data @ drop (pos + length data) xs"

lemma block_okD:
  assumes "block_ok b"
  shows "length (lpCurrent b) = unat (cbTotal b)" "unat (cbCurrent b) \<le> unat (cbTotal b)"
    "lpCurrent b = contents b @ replicate (unat (cbTotal b) - unat (cbCurrent b)) 0" "length (lpOriginal b) < 2 ^ 32"
  using assms unfolding block_ok_def word_le_nat_alt by blast+

lemma unat_lt2p: "unat (w :: u32) < 2 ^ 32"
  using unsigned_less[of w, where ?'a = nat] by simp

lemma unat_up64: "unat (ucast (w :: u32) :: u64) = unat w"
  using unat_lt2p[of w] by (simp add: unsigned_ucast_eq take_bit_nat_eq_self)

lemma contents_length: "block_ok b \<Longrightarrow> length (contents b) = unat (cbCurrent b)"
  by (simp add: block_ok_def contents_def word_le_nat_alt)

lemma new_block:
  assumes "length buffer < 2 ^ 32"
  shows "block_ok (ECMemBlock buffer fl)" "contents (ECMemBlock buffer fl) = buffer"
  using assms by (simp_all add: block_ok_def contents_def ECMemBlock_def unsigned_of_nat take_bit_nat_eq_self)

lemma write_list:
  fixes xs :: "u8 list"
  assumes "l = xs @ replicate k 0" "P + length data \<le> length l"
  shows "take (max (length xs) (P + length data)) (take P l @ data @ drop (P + length data) l) = overwrite P data xs"
    "\<exists>j. take P l @ data @ drop (P + length data) l = overwrite P data xs @ replicate j 0"
proof -
  let ?D = "P + length data"
  have "P - length xs \<le> k" using assms by simp
  then have tp: "take P l = take P xs @ replicate (P - length xs) 0" using assms(1) by (simp add: min_absorb1)
  have len: "length (take P l @ data) = ?D" using assms(2) by simp
  have dr: "drop ?D l = drop ?D xs @ replicate (k - (?D - length xs)) 0" using assms(1) by simp
  have "take (max (length xs) ?D) ((take P l @ data) @ drop ?D l) = (take P l @ data) @ take (max (length xs) ?D - ?D) (drop ?D l)"
    unfolding take_append len by simp
  moreover have "take (max (length xs) ?D - ?D) (drop ?D l) = drop ?D xs" unfolding dr by (auto simp: max_def)
  ultimately show "take (max (length xs) ?D) (take P l @ data @ drop ?D l) = overwrite P data xs"
    unfolding overwrite_def tp by simp
  show "\<exists>j. take P l @ data @ drop ?D l = overwrite P data xs @ replicate j 0"
    unfolding overwrite_def tp dr by auto
qed

lemma grow_runs:
  assumes ok: "block_ok b" and room: "unat dsize + unat (cbTotal b) + 8192 < 2 ^ 32"
  shows "\<exists>k. grow b dsize = Some (b\<lparr>lpCurrent := lpCurrent b @ replicate k 0, cbTotal := cbTotal b + of_nat k\<rparr>) \<and>
    unat (cbTotal b + of_nat k) = unat (cbTotal b) + k \<and> unat dsize \<le> unat (cbTotal b) + k"
proof (cases "cbTotal b < dsize")
  case False
  then show ?thesis by (intro exI[of _ 0]) (simp add: grow_def word_less_nat_alt)
next
  case True
  let ?k = "(unat dsize div 8192 + 1) * 8192"
  have k: "?k \<le> unat dsize + 8192" "unat dsize \<le> ?k" by auto
  have n: "dsize div EC_MEMBLOCK_SIZE + 1 = of_nat (unat dsize div 8192 + 1)"
  proof -
    have "dsize div EC_MEMBLOCK_SIZE = of_nat (unat (dsize div EC_MEMBLOCK_SIZE))" by simp
    also have "unat (dsize div EC_MEMBLOCK_SIZE) = unat dsize div 8192" by (simp only: unat_div) (simp add: EC_MEMBLOCK_SIZE_def)
    finally show ?thesis by simp
  qed
  have "(dsize div EC_MEMBLOCK_SIZE + 1) * EC_MEMBLOCK_SIZE = of_nat ?k"
    unfolding n by (simp add: EC_MEMBLOCK_SIZE_def)
  moreover have u: "unat (cbTotal b + of_nat ?k) = unat (cbTotal b) + ?k"
    using k(1) room by (simp add: unat_word_ariths unsigned_of_nat take_bit_nat_eq_self)
  ultimately show ?thesis using True k(2)
    by (intro exI[of _ ?k]) (simp add: grow_def Let_def word_less_nat_alt)
qed

lemma WriteAt_overwrites:
  assumes ok: "block_ok b" and room: "unat pos + length data + unat (cbTotal b) + 8192 < 2 ^ 32"
  shows "\<exists>b'. WriteAt b pos data = Some b' \<and> block_ok b' \<and> contents b' = overwrite (unat pos) data (contents b) \<and>
    lpOriginal b' = lpOriginal b \<and> mb_ulFlags b' = mb_ulFlags b"
proof -
  let ?dsize = "pos + of_nat (length data) :: u32" and ?D = "unat pos + length data"
  have D: "unat ?dsize = ?D" using room by (simp add: unat_word_ariths unsigned_of_nat take_bit_nat_eq_self)
  have "unat ?dsize + unat (cbTotal b) + 8192 < 2 ^ 32" using room D by simp
  from grow_runs[OF ok this] obtain k where k:
    "grow b ?dsize = Some (b\<lparr>lpCurrent := lpCurrent b @ replicate k 0, cbTotal := cbTotal b + of_nat k\<rparr>)"
    "unat (cbTotal b + of_nat k) = unat (cbTotal b) + k" "?D \<le> unat (cbTotal b) + k" unfolding D by blast
  let ?l = "lpCurrent b @ replicate k 0"
  have l: "?l = contents b @ replicate (unat (cbTotal b) - unat (cbCurrent b) + k) 0" "length ?l = unat (cbTotal b) + k"
    using block_okD(1,3)[OF ok] by (metis append_assoc replicate_add, simp)
  note w = write_list[OF l(1), of "unat pos" data]
  have D2: "?D \<le> length ?l" using k(3) l(2) by simp
  let ?cur = "if ?dsize > cbCurrent b then ?dsize else cbCurrent b"
  let ?l' = "take (unat pos) ?l @ data @ drop ?D ?l"
  let ?b = "b\<lparr>lpCurrent := ?l', cbTotal := cbTotal b + of_nat k, cbCurrent := ?cur\<rparr>"
  have c: "unat ?cur = max (length (contents b)) ?D" using D contents_length[OF ok] by (auto simp: word_less_nat_alt max_def)
  have run: "WriteAt b pos data = Some ?b" using k(1) D2 by (simp add: WriteAt_def Let_def)
  have co: "contents ?b = overwrite (unat pos) data (contents b)" using w(1)[OF D2] c by (simp add: contents_def)
  have lo: "length (overwrite (unat pos) data (contents b)) = unat ?cur"
    using contents_length[OF ok] c by (auto simp: overwrite_def max_def)
  obtain j where j: "?l' = overwrite (unat pos) data (contents b) @ replicate j 0" using w(2)[OF D2] by blast
  have ll: "length ?l' = unat (cbTotal b) + k" using D2 l(2) by simp
  then have "j = unat (cbTotal b) + k - unat ?cur" unfolding j using lo by simp
  moreover have "unat ?cur \<le> unat (cbTotal b) + k" using ll lo unfolding j by simp
  ultimately have jc: "j = unat (cbTotal ?b) - unat (cbCurrent ?b)" "cbCurrent ?b \<le> cbTotal ?b"
    using k(2) by (simp_all add: word_le_nat_alt)
  have "length (lpCurrent ?b) = unat (cbTotal ?b)" using ll k(2) by simp
  moreover have "lpCurrent ?b = contents ?b @ replicate (unat (cbTotal ?b) - unat (cbCurrent ?b)) 0"
    unfolding co jc(1)[symmetric] using j by simp
  moreover have "length (lpOriginal ?b) < 2 ^ 32" using block_okD(4)[OF ok] by simp
  ultimately have "block_ok ?b" using jc(2) unfolding block_ok_def by blast
  then show ?thesis using run co by (intro exI[of _ ?b]) simp
qed

lemma commit_keeps: "block_ok b \<Longrightarrow> block_ok (Block_Commit b)" "contents (Block_Commit b) = contents b"
  "cbCurrent (Block_Commit b) = cbCurrent b" "cbTotal (Block_Commit b) = cbTotal b" "lpCurrent (Block_Commit b) = lpCurrent b"
proof -
  show c: "contents (Block_Commit b) = contents b" by (simp add: contents_def Block_Commit_def)
  show cur: "cbCurrent (Block_Commit b) = cbCurrent b" "cbTotal (Block_Commit b) = cbTotal b" "lpCurrent (Block_Commit b) = lpCurrent b"
    by (simp_all add: Block_Commit_def)
  assume ok: "block_ok b"
  have "length (contents b) < 2 ^ 32" using contents_length[OF ok] unat_lt2p[of "cbCurrent b"] by simp
  moreover have "lpOriginal (Block_Commit b) \<in> {contents b, lpOriginal b}" by (simp add: Block_Commit_def contents_def)
  ultimately have "length (lpOriginal (Block_Commit b)) < 2 ^ 32" using block_okD(4)[OF ok] by auto
  then show "block_ok (Block_Commit b)" using ok unfolding block_ok_def c cur by blast
qed

lemma ReadAt_reads:
  assumes ok: "block_ok b" and p: "pos \<le> cbCurrent b"
  shows "ReadAt b pos cb = Some (take (unat cb) (drop (unat pos) (contents b)))"
proof -
  have le: "unat pos \<le> unat (cbCurrent b)" "unat (cbCurrent b) \<le> length (lpCurrent b)"
    using block_okD(1,2)[OF ok] p by (simp_all add: word_le_nat_alt)
  have d: "unat (cbCurrent b - pos) = unat (cbCurrent b) - unat pos" using p by (rule unat_sub)
  let ?n = "if cb < cbCurrent b - pos then cb else cbCurrent b - pos"
  have n: "unat ?n = min (unat cb) (unat (cbCurrent b) - unat pos)" using d by (auto simp: word_less_nat_alt)
  have "drop (unat pos) (contents b) = take (unat (cbCurrent b) - unat pos) (drop (unat pos) (lpCurrent b))"
    by (simp add: contents_def drop_take)
  then have "take (unat ?n) (drop (unat pos) (lpCurrent b)) = take (unat cb) (drop (unat pos) (contents b))"
    unfolding n by (simp add: min.commute)
  moreover have "unat pos + unat ?n \<le> length (lpCurrent b)" using n le by simp
  ultimately show ?thesis by (simp add: ReadAt_def Let_def)
qed

subsection \<open>Streams as files\<close>

definition stream_ok :: "mem_block \<Rightarrow> mem_stream \<Rightarrow> bool" where
  "stream_ok b s \<longleftrightarrow> block_ok b \<and> unat (liPos s) \<le> length (contents b)"

lemma stream_pos:
  assumes "stream_ok b s"
  shows "unat (ucast (liPos s) :: u32) = unat (liPos s)" "(ucast (liPos s) :: u32) \<le> cbCurrent b"
proof -
  have "unat (liPos s) \<le> unat (cbCurrent b)" using assms contents_length[of b] by (auto simp: stream_ok_def)
  moreover from this have "unat (liPos s) < 2 ^ 32" using unat_lt2p[of "cbCurrent b"] by simp
  ultimately show "unat (ucast (liPos s) :: u32) = unat (liPos s)"
    by (simp add: unsigned_ucast_eq take_bit_nat_eq_self)
  then show "(ucast (liPos s) :: u32) \<le> cbCurrent b" using \<open>unat (liPos s) \<le> unat (cbCurrent b)\<close> by (simp add: word_le_nat_alt)
qed

lemma Read_reads:
  assumes "stream_ok b s"
  shows "\<exists>s'. Stream_Read b s cb = Some (take (unat cb) (drop (unat (liPos s)) (contents b)), s')"
  using ReadAt_reads[OF _ stream_pos(2)[OF assms], of cb] assms stream_pos(1)[OF assms]
  by (simp add: Stream_Read_def stream_ok_def)

lemma Seek_set:
  assumes "block_ok b" "q \<le> length (contents b)"
  shows "Stream_Seek b s (of_nat q) 0 = (of_nat q, s\<lparr>liPos := of_nat q\<rparr>)" "unat (of_nat q :: u64) = q"
proof -
  have q: "q \<le> unat (cbCurrent b)" using assms contents_length[of b] by simp
  then have "q < 2 ^ 32" using unat_lt2p[of "cbCurrent b"] by simp
  then show u: "unat (of_nat q :: u64) = q" by (simp add: unsigned_of_nat take_bit_nat_eq_self)
  have "\<not> (of_nat q :: u64) > ucast (cbCurrent b)" using q u by (simp add: word_less_nat_alt unat_up64)
  then show "Stream_Seek b s (of_nat q) 0 = (of_nat q, s\<lparr>liPos := of_nat q\<rparr>)"
    by (simp add: Stream_Seek_def GetSize_def Let_def)
qed

text \<open>
  C25: over a block that stays below 4 GB a stream is a file: writing replaces the bytes at its position, extends the
  contents as needed and moves the position behind them, and after seeking to any place within the contents, as many
  bytes as there are up to the number that is asked for are read from there.
\<close>

theorem stream_is_file:
  assumes "stream_ok b s" "ms_ulFlags s AND STGM_WRITE \<noteq> 0"
    "unat (liPos s) + length data + unat (cbTotal b) + 8192 < 2 ^ 32"
  shows "\<exists>b' s'. Stream_Write cf b s data = Some (hrSuccess, b', s') \<and> stream_ok b' s' \<and>
    contents b' = overwrite (unat (liPos s)) data (contents b) \<and> unat (liPos s') = unat (liPos s) + length data \<and>
    (\<forall>q \<le> length (contents b'). \<forall>cb. \<exists>s''.
       Stream_Read b' (snd (Stream_Seek b' s' (of_nat q) 0)) cb = Some (take (unat cb) (drop q (contents b')), s''))"
proof -
  let ?p = "ucast (liPos s) :: u32"
  have ok: "block_ok b" using assms(1) by (simp add: stream_ok_def)
  note p = stream_pos(1)[OF assms(1)]
  from WriteAt_overwrites[OF ok, of ?p data] assms(3) p obtain b1 where
    b1: "WriteAt b ?p data = Some b1" "block_ok b1" "contents b1 = overwrite (unat (liPos s)) data (contents b)" by auto
  let ?s = "s\<lparr>liPos := liPos s + of_nat (length data), fDirty := True\<rparr>"
  obtain b2 s2 where run: "Stream_Write cf b s data = Some (hrSuccess, b2, s2)" "block_ok b2" "contents b2 = contents b1" "liPos s2 = liPos ?s"
    using b1 assms(2) commit_keeps[of b1]
    by (cases cf; cases "ms_ulFlags s AND STGM_TRANSACTED = 0 \<and> ms_ulFlags s AND STGM_SHARE_EXCLUSIVE = 0")
      (simp_all add: Stream_Write_def Stream_Commit_def Let_def)
  have pos: "unat (liPos s2) = unat (liPos s) + length data"
    using run(4) assms(3) by (simp add: unat_word_ariths unsigned_of_nat take_bit_nat_eq_self)
  have "unat (liPos s) + length data \<le> length (contents b2)" using run(3) b1(3) by (simp add: overwrite_def)
  then have ok2: "stream_ok b2 s2" using run(2) pos by (simp add: stream_ok_def)
  have "\<exists>s''. Stream_Read b2 (snd (Stream_Seek b2 s2 (of_nat q) 0)) cb = Some (take (unat cb) (drop q (contents b2)), s'')"
    if "q \<le> length (contents b2)" for q cb
    using Read_reads[of b2 "s2\<lparr>liPos := of_nat q\<rparr>" cb] Seek_set[OF run(2) that] run(2) that by (simp add: stream_ok_def)
  then show ?thesis using run ok2 b1(3) pos by (intro exI[of _ b2] exI[of _ s2]) simp
qed

subsection \<open>Positions outside the stream\<close>

text \<open>
  When a stream is made shorter than its position, the next read of anything reads outside the memory of the block.
\<close>

theorem shrink_reads_outside:
  assumes "stream_ok b s" "ms_ulFlags s AND STGM_WRITE \<noteq> 0" "libNewSize < liPos s" "cb \<noteq> 0"
  shows "\<exists>b' s'. Stream_SetSize b s libNewSize = (hrSuccess, b', s') \<and> liPos s' = liPos s \<and> Stream_Read b' s' cb = None"
proof -
  let ?p = "ucast (liPos s) :: u32" and ?n = "ucast libNewSize :: u32"
  note p = stream_pos[OF assms(1)]
  have "unat libNewSize < 2 ^ 32" using assms(3) p(1) unat_lt2p[of ?p] by (simp add: word_less_nat_alt)
  then have n: "unat ?n = unat libNewSize" by (simp add: unsigned_ucast_eq take_bit_nat_eq_self)
  then have lt: "?n < ?p" using assms(3) p(1) by (simp add: word_less_nat_alt)
  let ?b = "Block_SetSize b ?n"
  have ok: "block_ok b" using assms(1) by (simp add: stream_ok_def)
  have len: "length (lpCurrent ?b) = unat ?n"
    using ok lt p(2) by (auto simp: Block_SetSize_def block_ok_def word_less_nat_alt word_le_nat_alt)
  have "?n - ?p \<noteq> 0" using lt by auto
  then have "ReadAt ?b ?p cb = None"
    using lt len assms(4) by (simp add: ReadAt_def Let_def Block_SetSize_def word_less_nat_alt)
  then show ?thesis using assms(2) by (simp add: Stream_SetSize_def Stream_Read_def)
qed

text \<open>
  Seeking to a place before the beginning goes to the end.
\<close>

theorem seek_before_start:
  assumes "bit dlibmove 63"
  shows "fst (Stream_Seek b s dlibmove 0) = ucast (GetSize b)"
proof -
  have "bit (unat dlibmove) 63" using assms by (simp add: bit_unsigned_iff)
  then have "(2 :: nat) ^ 63 \<le> unat dlibmove"
    by (cases "unat dlibmove < 2 ^ 63") (simp_all add: bit_iff_odd)
  moreover have "unat (ucast (GetSize b) :: u64) < 2 ^ 32" using unat_lt2p[of "GetSize b"] by (simp add: unat_up64)
  ultimately have "dlibmove > ucast (GetSize b)" by (simp add: word_less_nat_alt)
  then show ?thesis by (simp add: Stream_Seek_def Let_def)
qed

theorem seek_before_start_witness:
  "fst (Stream_Seek (ECMemBlock [1, 2, 3] STGM_WRITE) (ECMemStream STGM_WRITE) (- 1) 0) =
     ucast (GetSize (ECMemBlock [1, 2, 3] STGM_WRITE))"
  by (rule seek_before_start) simp

subsection \<open>Copying to another stream\<close>

text \<open>A stream that takes all that it is given.\<close>

definition accepting :: "u8 list \<Rightarrow> u8 list \<Rightarrow> u32 option \<times> u8 list" where
  "accepting d data = (Some (of_nat (length data)), d @ data)"

lemma copy_stop: "cb = 0 \<or> \<not> GetSize b > off \<Longrightarrow> copy_loop wr b off w cb d = Some (off, d)"
  by (subst copy_loop.simps) auto

lemma unat_back: "of_nat (unat (w :: u32)) = w"
  by simp

lemma copy_step:
  assumes "block_ok b" "cb \<noteq> 0" "GetSize b > off" "n = min (GetSize b - off) (ucast cb)"
  shows "copy_loop accepting b off w cb d =
    copy_loop accepting b (off + n) n (cb - ucast n) (d @ take (unat n) (drop (unat off) (contents b)))"
proof -
  have off: "unat off < unat (cbCurrent b)" using assms(3) by (simp add: GetSize_def word_less_nat_alt)
  have "unat (cbCurrent b - off) = unat (cbCurrent b) - unat off"
    using off by (intro unat_sub) (simp add: word_le_nat_alt)
  then have n: "unat n \<le> unat (cbCurrent b) - unat off"
    unfolding assms(4) GetSize_def by (metis min.cobounded1 word_le_nat_alt)
  have data: "take (unat n) (drop (unat off) (lpCurrent b)) = take (unat n) (drop (unat off) (contents b))"
    using n by (simp add: contents_def drop_take min_absorb1)
  have len: "length (take (unat n) (drop (unat off) (contents b))) = unat n"
    using n contents_length[OF assms(1)] by (simp add: min_absorb2)
  show ?thesis using assms(2,3)
    by (subst copy_loop.simps) (simp only: accepting_def Let_def assms(4)[symmetric] data len prod.case option.case if_True simp_thms unat_back)
qed

lemma copy_stuck:
  assumes "GetSize b > off" "cb \<noteq> 0" "ucast cb = (0 :: u32)"
  shows "copy_loop accepting b off w cb d = None"
proof -
  let ?P = "\<lambda>wr b off (w :: u32) cb d (y :: u32 \<times> u8 list). \<not> (wr = accepting \<and> GetSize b > off \<and> cb \<noteq> 0 \<and> ucast cb = (0 :: u32))"
  have "?P accepting b off w cb d y" if "copy_loop accepting b off w cb d = Some y" for y
  proof (rule copy_loop.raw_induct[where P = ?P, OF _ that], rule notI)
    fix loop wr b off w cb d y
    let ?n = "min (GetSize b - off) (ucast cb) :: u32"
    assume IH: "\<And>wr b off w cb d y. loop wr b off w cb d = Some y \<Longrightarrow> ?P wr b off w cb d y"
      and run: "(if cb \<noteq> 0 \<and> GetSize b > off then
        (let n = ?n; (w', d) = wr d (take (unat n) (drop (unat off) (lpCurrent b)));
             w = (case w' of None \<Rightarrow> w | Some k \<Rightarrow> k)
         in loop wr b (off + w) w (cb - ucast w) d)
        else Some (off, d)) = Some y"
      and p: "wr = accepting \<and> GetSize b > off \<and> cb \<noteq> 0 \<and> ucast cb = (0 :: u32)"
    have n: "?n = 0" using p by simp
    from p run have "loop wr b off 0 cb d = Some y" by (simp add: accepting_def n Let_def)
    from IH[OF this] p show False by blast
  qed
  with assms show ?thesis by (cases "copy_loop accepting b off w cb d") auto
qed

lemma low_word: "unat (ucast (cb :: u64) :: u32) = unat cb mod 2 ^ 32"
  by (simp add: unsigned_ucast_eq take_bit_eq_mod)

lemma low_word_rest:
  defines "low \<equiv> \<lambda>cb :: u64. ucast cb :: u32"
  shows "low (cb - ucast (low cb)) = 0" "cb - ucast (low cb) = 0 \<longleftrightarrow> unat cb < 2 ^ 32"
proof -
  have le: "ucast (low cb) \<le> cb" by (simp add: word_le_nat_alt unat_up64 low_def low_word)
  have u: "unat (cb - ucast (low cb)) = unat cb - unat cb mod 2 ^ 32"
    using unat_sub[OF le] by (simp add: unat_up64 low_def low_word)
  have "(unat cb - unat cb mod 2 ^ 32) mod 2 ^ 32 = 0"
    by (simp only: minus_mod_eq_div_mult mod_mult_self2_is_0)
  then have "unat (low (cb - ucast (low cb))) = 0" unfolding low_def low_word using u by (simp add: low_def)
  then show "low (cb - ucast (low cb)) = 0" by (simp only: unsigned_eq_0_iff)
  have "cb - ucast (low cb) = 0 \<longleftrightarrow> unat (cb - ucast (low cb)) = 0" by (simp only: unsigned_eq_0_iff)
  also have "\<dots> \<longleftrightarrow> unat cb < 2 ^ 32" unfolding u minus_mod_eq_div_mult by (simp add: div_eq_0_iff)
  finally show "cb - ucast (low cb) = 0 \<longleftrightarrow> unat cb < 2 ^ 32" .
qed

lemma copy_loop_runs:
  fixes off :: u32 and cb :: u64
  assumes ok: "block_ok b" and off: "off \<le> cbCurrent b"
  defines "rest \<equiv> drop (unat off) (contents b)"
  shows "copy_loop accepting b off w cb d =
    (if 2 ^ 32 \<le> unat cb \<and> unat cb mod 2 ^ 32 < length rest then None
     else Some (off + of_nat (length (take (unat cb) rest)), d @ take (unat cb) rest))"
proof -
  let ?low = "ucast cb :: u32" and ?room = "cbCurrent b - off"
  have rest: "length rest = unat ?room"
    using contents_length[OF ok] unat_sub[OF off] by (simp add: rest_def)
  have stop: "?thesis" if "cb = 0 \<or> \<not> off < cbCurrent b"
    using that copy_stop[of cb off b accepting w d] off rest by (auto simp: GetSize_def)
  show ?thesis
  proof (cases "cb = 0 \<or> \<not> off < cbCurrent b")
    case True
    then show ?thesis by (rule stop)
  next
    case False
    then have run: "cb \<noteq> 0" "GetSize b > off" by (simp_all add: GetSize_def)
    note step = copy_step[OF ok run refl, of w d, folded rest_def, unfolded GetSize_def]
    show ?thesis
    proof (cases "?low < ?room")
      case True
      then have n: "min ?room ?low = ?low" by simp
      have lt: "unat cb mod 2 ^ 32 < length rest" using True by (simp add: rest word_less_nat_alt low_word)
      have "unat off + unat ?low < unat (cbCurrent b)"
        using True rest contents_length[OF ok] by (simp add: rest_def word_less_nat_alt)
      then have "unat (off + ?low) < unat (cbCurrent b)"
        using unat_lt2p[of "cbCurrent b"] by (simp add: unat_word_ariths)
      then have more: "GetSize b > off + ?low" by (simp add: GetSize_def word_less_nat_alt)
      show ?thesis
      proof (cases "unat cb < 2 ^ 32")
        case True
        then have z: "cb - ucast ?low = 0" using low_word_rest(2)[of cb] by blast
        have "unat cb = unat ?low" using True by (simp add: low_word)
        moreover have "unat cb \<le> length rest" using lt True by simp
        ultimately show ?thesis using True unfolding step n z
          by (simp add: copy_stop min_absorb2)
      next
        case False
        then have "cb - ucast ?low \<noteq> 0" using low_word_rest(2)[of cb] by blast
        then show ?thesis using False lt copy_stuck[OF more _ low_word_rest(1)] unfolding step n by simp
      qed
    next
      case False
      then have n: "min ?room ?low = ?room" using False by (simp add: min_absorb1 linorder_not_less)
      have ge: "length rest \<le> unat cb mod 2 ^ 32" using False by (simp add: rest word_less_nat_alt low_word)
      then have "length rest \<le> unat cb" using mod_less_eq_dividend order_trans by blast
      moreover have "off + ?room = cbCurrent b" by simp
      ultimately show ?thesis using ge unfolding step n by (simp add: copy_stop GetSize_def rest)
    qed
  qed
qed

text \<open>
  C35: copying a number of bytes to a stream that takes all it is given appends what is left of the source, up to
  that number, and moves the position behind it; but when 4 GB or more are asked for and the lower 32 bits of the
  number are less than what is left of the source, the copying goes on forever.
\<close>

theorem copy_returns_iff:
  assumes "stream_ok b s"
  shows "Stream_CopyTo accepting b s cb d =
    (let rest = drop (unat (liPos s)) (contents b); data = take (unat cb) rest in
     if 2 ^ 32 \<le> unat cb \<and> unat cb mod 2 ^ 32 < length rest then None
     else Some (of_nat (length data), s\<lparr>liPos := ucast (ucast (liPos s) + of_nat (length data) :: u32)\<rparr>, d @ data))"
  using copy_loop_runs[OF _ stream_pos(2)[OF assms], of 0 cb d] assms
  unfolding Stream_CopyTo_def stream_pos(1)[OF assms] by (simp add: stream_ok_def Let_def)

lemma new_stream: "length buffer < 2 ^ 32 \<Longrightarrow> stream_ok (ECMemBlock buffer fl) (ECMemStream fl')"
  by (simp add: stream_ok_def new_block ECMemStream_def)

theorem copy_returns_iff_witness:
  "Stream_CopyTo accepting (ECMemBlock [1, 2, 3] 0) (ECMemStream 0) (2 ^ 32) [] = None \<and>
   Stream_CopyTo accepting (ECMemBlock [1, 2, 3] 0) (ECMemStream 0) 2 [] = Some (2, ECMemStream 0\<lparr>liPos := 2\<rparr>, [1, 2])"
  using copy_returns_iff[OF new_stream, of "[1, 2, 3]" 0 0 "2 ^ 32" "[]"]
    copy_returns_iff[OF new_stream, of "[1, 2, 3]" 0 0 2 "[]"]
  by (simp add: new_block ECMemStream_def)

theorem stream_is_file_witness:
  "\<exists>b' s'. Stream_Write None (ECMemBlock [1, 2, 3] STGM_WRITE) (ECMemStream STGM_WRITE) [7] = Some (hrSuccess, b', s') \<and>
     contents b' = [7, 2, 3] \<and> unat (liPos s') = 1"
  using stream_is_file[of "ECMemBlock [1, 2, 3] STGM_WRITE" "ECMemStream STGM_WRITE" "[7]" None]
    new_stream[of "[1, 2, 3]" STGM_WRITE STGM_WRITE]
  by (simp add: new_block) (auto simp: ECMemStream_def ECMemBlock_def STGM_WRITE_def overwrite_def)

theorem shrink_reads_outside_witness:
  "let s = ECMemStream STGM_WRITE\<lparr>liPos := 2\<rparr>; (hr, b, s) = Stream_SetSize (ECMemBlock [1, 2, 3] STGM_WRITE) s 1
   in Stream_Read b s 1 = None"
  using shrink_reads_outside[of "ECMemBlock [1, 2, 3] STGM_WRITE" "ECMemStream STGM_WRITE\<lparr>liPos := 2\<rparr>" 1 1]
  by (auto simp: stream_ok_def new_block STGM_WRITE_def ECMemStream_def)

subsection \<open>Going back\<close>

datatype block_op = SetSizeOp u32 | WriteOp u32 "u8 list" | CommitOp | RevertOp

fun block_exec :: "block_op \<Rightarrow> mem_block \<Rightarrow> mem_block option" where
  "block_exec (SetSizeOp n) b = Some (Block_SetSize b n)"
| "block_exec (WriteOp pos data) b = WriteAt b pos data"
| "block_exec CommitOp b = Some (Block_Commit b)"
| "block_exec RevertOp b = Some (Block_Revert b)"

fun block_run :: "block_op list \<Rightarrow> mem_block \<Rightarrow> mem_block option" where
  "block_run [] b = Some b"
| "block_run (x # xs) b = (case block_exec x b of None \<Rightarrow> None | Some b \<Rightarrow> block_run xs b)"

lemma WriteAt_original:
  "WriteAt b pos data = Some b' \<Longrightarrow> lpOriginal b' = lpOriginal b \<and> mb_ulFlags b' = mb_ulFlags b"
  by (auto simp: WriteAt_def grow_def Let_def split: if_splits option.splits)

lemma block_exec_original:
  "block_exec x b = Some b' \<Longrightarrow> x \<noteq> CommitOp \<Longrightarrow> lpOriginal b' = lpOriginal b \<and> mb_ulFlags b' = mb_ulFlags b"
  by (cases x) (auto simp: Block_SetSize_def Block_Revert_def dest: WriteAt_original)

lemma block_run_original:
  "block_run xs b = Some b' \<Longrightarrow> CommitOp \<notin> set xs \<Longrightarrow> lpOriginal b' = lpOriginal b \<and> mb_ulFlags b' = mb_ulFlags b"
  by (induction xs arbitrary: b) (fastforce dest: block_exec_original split: option.splits)+

lemma Revert_goes_back:
  assumes "lpOriginal b = d" "mb_ulFlags b AND STGM_TRANSACTED \<noteq> 0" "length d < 2 ^ 32"
  shows "contents (Block_Revert b) = d \<and> block_ok (Block_Revert b)"
  using assms by (simp add: Block_Revert_def block_ok_def contents_def unsigned_of_nat take_bit_nat_eq_self)

text \<open>
  In a transacted block, going back after any writes and changes of size gives the contents that were committed
  last, in a block in which reading and writing work as before.
\<close>

theorem revert_restores:
  assumes "block_ok b" "mb_ulFlags b AND STGM_TRANSACTED \<noteq> 0"
    "block_run xs (Block_Commit b) = Some b'" "CommitOp \<notin> set xs"
  shows "contents (Block_Revert b') = contents b \<and> block_ok (Block_Revert b')"
proof -
  have "lpOriginal b' = contents b" "mb_ulFlags b' AND STGM_TRANSACTED \<noteq> 0"
    using block_run_original[OF assms(3,4)] assms(2) by (simp_all add: Block_Commit_def contents_def)
  moreover have "length (contents b) < 2 ^ 32" using contents_length[OF assms(1)] unat_lt2p[of "cbCurrent b"] by simp
  ultimately show ?thesis using Revert_goes_back by blast
qed

theorem revert_restores_witness:
  "\<exists>b'. block_run [WriteOp 1 [9, 9], SetSizeOp 1] (Block_Commit (ECMemBlock [1, 2, 3] STGM_TRANSACTED)) = Some b' \<and>
     contents b' = [1] \<and> contents (Block_Revert b') = [1, 2, 3]"
proof -
  let ?b = "ECMemBlock [1, 2, 3] STGM_TRANSACTED"
  obtain b' where b': "block_run [WriteOp 1 [9, 9], SetSizeOp 1] (Block_Commit ?b) = Some b'" "contents b' = [1]"
    by (simp add: WriteAt_def grow_def Block_SetSize_def Block_Commit_def ECMemBlock_def STGM_TRANSACTED_def contents_def)
  then show ?thesis
    using revert_restores[of ?b, OF new_block(1) _ b'(1)] new_block(2)[of "[1, 2, 3]" STGM_TRANSACTED]
    by (simp add: ECMemBlock_def STGM_TRANSACTED_def)
qed

end
