(* ===== verification/Rtf.thy ===== *)
theory Rtf
  imports Memory
begin

text \<open>
  Compressed RTF, \<^verbatim>\<open>mapi4linux/src/rtf.cpp\<close>: the checksum, the decompression of what a stream holds, with its
  accesses outside the buffers as \<^const>\<open>None\<close>, the search for earlier occurrences, and the compression. The
  machine is little-endian, and memory does not run out.
\<close>

subsection \<open>The checksum\<close>

definition crctable :: "u32 list" where
  "crctable = [
    0x00000000, 0x77073096, 0xee0e612c, 0x990951ba, 0x076dc419, 0x706af48f, 0xe963a535, 0x9e6495a3,
    0x0edb8832, 0x79dcb8a4, 0xe0d5e91e, 0x97d2d988, 0x09b64c2b, 0x7eb17cbd, 0xe7b82d07, 0x90bf1d91,
    0x1db71064, 0x6ab020f2, 0xf3b97148, 0x84be41de, 0x1adad47d, 0x6ddde4eb, 0xf4d4b551, 0x83d385c7,
    0x136c9856, 0x646ba8c0, 0xfd62f97a, 0x8a65c9ec, 0x14015c4f, 0x63066cd9, 0xfa0f3d63, 0x8d080df5,
    0x3b6e20c8, 0x4c69105e, 0xd56041e4, 0xa2677172, 0x3c03e4d1, 0x4b04d447, 0xd20d85fd, 0xa50ab56b,
    0x35b5a8fa, 0x42b2986c, 0xdbbbc9d6, 0xacbcf940, 0x32d86ce3, 0x45df5c75, 0xdcd60dcf, 0xabd13d59,
    0x26d930ac, 0x51de003a, 0xc8d75180, 0xbfd06116, 0x21b4f4b5, 0x56b3c423, 0xcfba9599, 0xb8bda50f,
    0x2802b89e, 0x5f058808, 0xc60cd9b2, 0xb10be924, 0x2f6f7c87, 0x58684c11, 0xc1611dab, 0xb6662d3d,
    0x76dc4190, 0x01db7106, 0x98d220bc, 0xefd5102a, 0x71b18589, 0x06b6b51f, 0x9fbfe4a5, 0xe8b8d433,
    0x7807c9a2, 0x0f00f934, 0x9609a88e, 0xe10e9818, 0x7f6a0dbb, 0x086d3d2d, 0x91646c97, 0xe6635c01,
    0x6b6b51f4, 0x1c6c6162, 0x856530d8, 0xf262004e, 0x6c0695ed, 0x1b01a57b, 0x8208f4c1, 0xf50fc457,
    0x65b0d9c6, 0x12b7e950, 0x8bbeb8ea, 0xfcb9887c, 0x62dd1ddf, 0x15da2d49, 0x8cd37cf3, 0xfbd44c65,
    0x4db26158, 0x3ab551ce, 0xa3bc0074, 0xd4bb30e2, 0x4adfa541, 0x3dd895d7, 0xa4d1c46d, 0xd3d6f4fb,
    0x4369e96a, 0x346ed9fc, 0xad678846, 0xda60b8d0, 0x44042d73, 0x33031de5, 0xaa0a4c5f, 0xdd0d7cc9,
    0x5005713c, 0x270241aa, 0xbe0b1010, 0xc90c2086, 0x5768b525, 0x206f85b3, 0xb966d409, 0xce61e49f,
    0x5edef90e, 0x29d9c998, 0xb0d09822, 0xc7d7a8b4, 0x59b33d17, 0x2eb40d81, 0xb7bd5c3b, 0xc0ba6cad,
    0xedb88320, 0x9abfb3b6, 0x03b6e20c, 0x74b1d29a, 0xead54739, 0x9dd277af, 0x04db2615, 0x73dc1683,
    0xe3630b12, 0x94643b84, 0x0d6d6a3e, 0x7a6a5aa8, 0xe40ecf0b, 0x9309ff9d, 0x0a00ae27, 0x7d079eb1,
    0xf00f9344, 0x8708a3d2, 0x1e01f268, 0x6906c2fe, 0xf762575d, 0x806567cb, 0x196c3671, 0x6e6b06e7,
    0xfed41b76, 0x89d32be0, 0x10da7a5a, 0x67dd4acc, 0xf9b9df6f, 0x8ebeeff9, 0x17b7be43, 0x60b08ed5,
    0xd6d6a3e8, 0xa1d1937e, 0x38d8c2c4, 0x4fdff252, 0xd1bb67f1, 0xa6bc5767, 0x3fb506dd, 0x48b2364b,
    0xd80d2bda, 0xaf0a1b4c, 0x36034af6, 0x41047a60, 0xdf60efc3, 0xa867df55, 0x316e8eef, 0x4669be79,
    0xcb61b38c, 0xbc66831a, 0x256fd2a0, 0x5268e236, 0xcc0c7795, 0xbb0b4703, 0x220216b9, 0x5505262f,
    0xc5ba3bbe, 0xb2bd0b28, 0x2bb45a92, 0x5cb36a04, 0xc2d7ffa7, 0xb5d0cf31, 0x2cd99e8b, 0x5bdeae1d,
    0x9b64c2b0, 0xec63f226, 0x756aa39c, 0x026d930a, 0x9c0906a9, 0xeb0e363f, 0x72076785, 0x05005713,
    0x95bf4a82, 0xe2b87a14, 0x7bb12bae, 0x0cb61b38, 0x92d28e9b, 0xe5d5be0d, 0x7cdcefb7, 0x0bdbdf21,
    0x86d3d2d4, 0xf1d4e242, 0x68ddb3f8, 0x1fda836e, 0x81be16cd, 0xf6b9265b, 0x6fb077e1, 0x18b74777,
    0x88085ae6, 0xff0f6a70, 0x66063bca, 0x11010b5c, 0x8f659eff, 0xf862ae69, 0x616bffd3, 0x166ccf45,
    0xa00ae278, 0xd70dd2ee, 0x4e048354, 0x3903b3c2, 0xa7672661, 0xd06016f7, 0x4969474d, 0x3e6e77db,
    0xaed16a4a, 0xd9d65adc, 0x40df0b66, 0x37d83bf0, 0xa9bcae53, 0xdebb9ec5, 0x47b2cf7f, 0x30b5ffe9,
    0xbdbdf21c, 0xcabac28a, 0x53b39330, 0x24b4a3a6, 0xbad03605, 0xcdd70693, 0x54de5729, 0x23d967bf,
    0xb3667a2e, 0xc4614ab8, 0x5d681b02, 0x2a6f2b94, 0xb40bbe37, 0xc30c8ea1, 0x5a05df1b, 0x2d02ef8d]"

definition crc_step :: "u8 \<Rightarrow> u32 \<Rightarrow> u32" where
  "crc_step c crc = drop_bit 8 crc XOR crctable ! unat ((crc XOR scast c) AND 0xff)"

definition crc32 :: "u8 list \<Rightarrow> u32" where
  "crc32 data = fold crc_step data 0"

subsection \<open>The header\<close>

text \<open>The text that is in front of every document in the buffer, and that its references may point to.\<close>

definition lpPrebuf :: "u8 list" where
  "lpPrebuf = [
    123, 92, 114, 116, 102, 49, 92, 97, 110, 115, 105, 92, 109, 97, 99, 92, 100, 101, 102, 102, 48, 92, 100,
    101, 102, 116, 97, 98, 55, 50, 48, 123, 92, 102, 111, 110, 116, 116, 98, 108, 59, 125, 123, 92, 102, 48,
    92, 102, 110, 105, 108, 32, 92, 102, 114, 111, 109, 97, 110, 32, 92, 102, 115, 119, 105, 115, 115, 32, 92,
    102, 109, 111, 100, 101, 114, 110, 32, 92, 102, 115, 99, 114, 105, 112, 116, 32, 92, 102, 100, 101, 99, 111,
    114, 32, 77, 83, 32, 83, 97, 110, 115, 32, 83, 101, 114, 105, 102, 83, 121, 109, 98, 111, 108, 65, 114,
    105, 97, 108, 84, 105, 109, 101, 115, 32, 78, 101, 119, 32, 82, 111, 109, 97, 110, 67, 111, 117, 114, 105,
    101, 114, 123, 92, 99, 111, 108, 111, 114, 116, 98, 108, 92, 114, 101, 100, 48, 92, 103, 114, 101, 101, 110,
    48, 92, 98, 108, 117, 101, 48, 10, 13, 92, 112, 97, 114, 32, 92, 112, 97, 114, 100, 92, 112, 108, 97,
    105, 110, 92, 102, 48, 92, 102, 115, 50, 48, 92, 98, 92, 105, 92, 117, 92, 116, 97, 98, 92, 116, 120]"

definition put_word :: "u32 \<Rightarrow> u8 list" where
  "put_word x = [ucast x, ucast (drop_bit 8 x), ucast (drop_bit 16 x), ucast (drop_bit 24 x)]"

definition get_word :: "u8 list \<Rightarrow> nat \<Rightarrow> u32" where
  "get_word bs i =
     ucast (bs ! i) OR push_bit 8 (ucast (bs ! (i + 1))) OR push_bit 16 (ucast (bs ! (i + 2))) OR push_bit 24 (ucast (bs ! (i + 3)))"

record rtf_header =
  ulCompressedSize :: u32
  ulUncompressedSize :: u32
  ulMagic :: u32
  ulChecksum :: u32

definition put_rtf_header :: "rtf_header \<Rightarrow> u8 list" where
  "put_rtf_header h = put_word (ulCompressedSize h) @ put_word (ulUncompressedSize h) @ put_word (ulMagic h) @ put_word (ulChecksum h)"

definition get_rtf_header :: "u8 list \<Rightarrow> rtf_header" where
  "get_rtf_header bs = \<lparr>ulCompressedSize = get_word bs 0, ulUncompressedSize = get_word bs 4, ulMagic = get_word bs 8, ulChecksum = get_word bs 12\<rparr>"

definition RTF_UNCOMPRESSED :: u32 where "RTF_UNCOMPRESSED = 0x414c454d"
definition RTF_COMPRESSED :: u32 where "RTF_COMPRESSED = 0x75465a4c"

definition rtf_get_uncompressed_length :: "u8 list \<Rightarrow> u32" where
  "rtf_get_uncompressed_length lpData = (if length lpData < 16 then 0 else ulUncompressedSize (get_rtf_header lpData))"

subsection \<open>Decompression\<close>

text \<open>
  The copying of a reference, from \<open>ulOffset\<close> to \<open>w\<close> in the buffer. The end of the buffer is less than \<open>2 ^ 32\<close>,
  so \<open>ulOffset\<close> does not wrap here.
\<close>

fun copy_ref :: "nat \<Rightarrow> nat \<Rightarrow> nat \<Rightarrow> nat \<Rightarrow> u8 list \<Rightarrow> (nat \<times> u8 list) option" where
  "copy_ref 0 bound ulOffset w buf = Some (w, buf)"
| "copy_ref (Suc ulSize) bound ulOffset w buf =
     (if w < bound \<and> ulOffset < bound
      then do {
        c \<leftarrow> mem_load buf ulOffset;
        buf \<leftarrow> mem_store buf w c;
        copy_ref ulSize bound (Suc ulOffset) (Suc w) buf
      }
      else Some (w, buf))"

text \<open>Where a reference points to, in the page of the writer or the one before.\<close>

definition ref_offset :: "u8 \<Rightarrow> u8 \<Rightarrow> nat \<Rightarrow> u32" where
  "ref_offset c1 c2 w =
     (let ulOffset = of_nat (w div 4096 * 4096) + (push_bit 4 (ucast c1) OR ucast (drop_bit 4 c2))
      in if ulOffset > of_nat w then ulOffset - 4096 else ulOffset)"

text \<open>
  The loop, with the place \<open>w\<close> of \<open>lpWrite\<close> in the buffer and \<open>pos\<close> of \<open>lpSrc\<close> in the source. \<open>ulFlagNr\<close> is only
  looked at modulo 8. The next flags are those of a new byte or the ones of the byte before, shifted.
\<close>

definition next_flags :: "u8 list \<Rightarrow> nat \<Rightarrow> u32 \<Rightarrow> nat \<Rightarrow> (u32 \<times> nat) option" where
  "next_flags src pos ulFlags ulFlagNr =
     (if ulFlagNr mod 8 = 0 then do { c \<leftarrow> mem_load src pos; Some (scast c, Suc pos) }
      else Some (drop_bit 1 ulFlags, pos))"

lemma next_flags_pos: "next_flags src pos fl nr = Some (fl', pos') \<Longrightarrow> pos \<le> pos'"
  by (auto simp: next_flags_def bind_eq_Some_conv split: if_splits)

function decompress_loop :: "u8 list \<Rightarrow> nat \<Rightarrow> nat \<Rightarrow> nat \<Rightarrow> u32 \<Rightarrow> nat \<Rightarrow> u8 list \<Rightarrow> u8 list option" where
  "decompress_loop src bound w pos ulFlags ulFlagNr buf =
     (if w < bound then
        (case next_flags src pos ulFlags ulFlagNr of
           None \<Rightarrow> None
         | Some (ulFlags, pos) \<Rightarrow>
             if pos \<ge> length src then Some buf
             else if ulFlags AND 1 \<noteq> 0 then
               if pos + 2 \<ge> length src then Some buf
               else do {
                 c1 \<leftarrow> mem_load src pos;
                 c2 \<leftarrow> mem_load src (Suc pos);
                 (w, buf) \<leftarrow> copy_ref (unat (c2 AND 0xf) + 2) bound (unat (ref_offset c1 c2 w)) w buf;
                 decompress_loop src bound w (pos + 2) ulFlags (Suc ulFlagNr) buf
               }
             else do {
               c \<leftarrow> mem_load src pos;
               buf \<leftarrow> mem_store buf w c;
               if Suc pos \<ge> length src then Some buf
               else decompress_loop src bound (Suc w) (Suc pos) ulFlags (Suc ulFlagNr) buf
             })
      else Some buf)"
  by pat_completeness auto
termination
  by (relation "measure (\<lambda>(src, bound, w, pos, ulFlags, ulFlagNr, buf). length src - pos)")
    (auto dest!: next_flags_pos)

declare decompress_loop.simps [simp del]

text \<open>
  \<open>junk\<close> is what new memory holds, and \<open>lpDest\<close> the memory that the caller has allocated. The size of the buffer is
  an \<open>unsigned int\<close>; when it wraps, the copy of the text in front writes outside.
\<close>

definition rtf_decompress :: "(nat \<Rightarrow> u8) \<Rightarrow> u8 list \<Rightarrow> u8 list \<Rightarrow> (u32 \<times> u8 list) option" where
  "rtf_decompress junk lpDest lpSrc =
     (if length lpSrc < 16 then Some (1, lpDest)
      else do {
        header \<leftarrow> mem_read lpSrc 0 16;
        let h = get_rtf_header header;
        let n = unat (ulUncompressedSize h);
        if ulMagic h = RTF_UNCOMPRESSED then do {
          text \<leftarrow> mem_read lpSrc 16 (length lpSrc - 16);
          lpDest \<leftarrow> mem_write lpDest 0 text;
          Some (0, lpDest)
        }
        else if ulMagic h = RTF_COMPRESSED then do {
          let size = ulUncompressedSize h + of_nat (length lpPrebuf);
          buf \<leftarrow> mem_write (map junk [0..<unat size]) 0 lpPrebuf;
          buf \<leftarrow> decompress_loop lpSrc (n + length lpPrebuf) (length lpPrebuf) 16 0 0 buf;
          text \<leftarrow> mem_read buf (length lpPrebuf) n;
          lpDest \<leftarrow> mem_write lpDest 0 text;
          Some (0, lpDest)
        }
        else Some (1, lpDest)
      })"

subsection \<open>The search for a match\<close>

text \<open>From a place in the buffer to the end of the next match, or of the buffer; \<open>ulCount\<close> bytes match.\<close>

function match_from :: "u8 list \<Rightarrow> u8 list \<Rightarrow> nat \<Rightarrow> nat \<Rightarrow> nat \<times> nat" where
  "match_from buf pat cur ulCount =
     (if ulCount \<ge> length pat \<or> cur \<ge> length buf \<or>
         (pat ! ulCount \<noteq> buf ! cur \<or> pat ! ulCount = 10 \<or> pat ! ulCount = 13) \<and> ulCount > 0 then (cur, ulCount)
      else if pat ! ulCount = buf ! cur \<and> pat ! ulCount \<noteq> 10 \<and> pat ! ulCount \<noteq> 13
      then match_from buf pat (Suc cur) (Suc ulCount)
      else match_from buf pat (Suc cur) ulCount)"
  by pat_completeness auto
termination by (relation "measure (\<lambda>(buf, pat, cur, ulCount). length buf - cur)") auto

declare match_from.simps [simp del]

text \<open>A step ends, takes a byte that matches, or passes over one while nothing has matched.\<close>

lemma match_from_step:
  "match_from buf pat cur n = (cur, n) \<and> (cur < length buf \<longrightarrow> n < length pat \<longrightarrow> 0 < n) \<or>
   n < length pat \<and> cur < length buf \<and> pat ! n = buf ! cur \<and> match_from buf pat cur n = match_from buf pat (Suc cur) (Suc n) \<or>
   n = 0 \<and> cur < length buf \<and> match_from buf pat cur n = match_from buf pat (Suc cur) 0"
proof -
  let ?stop = "n \<ge> length pat \<or> cur \<ge> length buf \<or> (pat ! n \<noteq> buf ! cur \<or> pat ! n = 10 \<or> pat ! n = 13) \<and> n > 0"
  let ?eq = "pat ! n = buf ! cur \<and> pat ! n \<noteq> 10 \<and> pat ! n \<noteq> 13"
  note unf = match_from.simps[of buf pat cur n]
  consider ?stop | "\<not> ?stop" ?eq | "\<not> ?stop" "\<not> ?eq" by blast
  then show ?thesis
  proof cases
    case 1
    then have "match_from buf pat cur n = (cur, n)" unfolding unf by (rule if_P)
    then show ?thesis using 1 by auto
  next
    case 2
    then have "match_from buf pat cur n = match_from buf pat (Suc cur) (Suc n)" unfolding unf if_not_P[OF 2(1)] by (intro if_P)
    then show ?thesis using 2 by force
  next
    case 3
    then have "match_from buf pat cur n = match_from buf pat (Suc cur) n" unfolding unf if_not_P[OF 3(1)] by (intro if_not_P)
    moreover have "n = 0"
    proof (rule ccontr)
      assume "n \<noteq> 0"
      then have "0 < n" by simp
      with 3 show False by blast
    qed
    ultimately show ?thesis using 3(1) by auto
  qed
qed

lemma match_from_moves: "cur \<le> fst (match_from buf pat cur n)"
proof (induction "length buf - cur" arbitrary: cur n rule: less_induct)
  case less
  have IH: "Suc cur \<le> fst (match_from buf pat (Suc cur) k)" if "cur < length buf" for k
    using less[of "Suc cur" k] that by simp
  show ?case using match_from_step[of buf pat cur n] IH[of "Suc n"] IH[of 0] by fastforce
qed

lemma match_from_advances: "pat \<noteq> [] \<Longrightarrow> cur < length buf \<Longrightarrow> cur < fst (match_from buf pat cur 0)"
  using match_from_step[of buf pat cur 0] match_from_moves[of "Suc cur" buf pat] by (auto simp: Suc_le_eq)

function strmatch_loop :: "u8 list \<Rightarrow> u8 list \<Rightarrow> nat \<Rightarrow> nat option \<times> nat \<Rightarrow> nat option \<times> nat" where
  "strmatch_loop buf pat cur (lpszMatch, cbMatch) =
     (if cbMatch < length pat \<and> cur + cbMatch < length buf then
        (let (cur, ulCount) = match_from buf pat cur 0
         in strmatch_loop buf pat cur (if ulCount > cbMatch then (Some (cur - ulCount), ulCount) else (lpszMatch, cbMatch)))
      else (lpszMatch, cbMatch))"
  by pat_completeness auto
termination
proof (relation "measure (\<lambda>(buf, pat, cur, best). length buf - cur)", goal_cases)
  case (2 buf pat cur lpszMatch cbMatch x cur' ulCount)
  then have "pat \<noteq> []" "cur < length buf" "fst (match_from buf pat cur 0) = cur'" by (auto, metis fst_conv)
  then show ?case using match_from_advances[of pat cur buf] by simp
qed simp

declare strmatch_loop.simps [simp del]

definition strmatch :: "u8 list \<Rightarrow> u8 list \<Rightarrow> nat option \<times> nat" where
  "strmatch lpszBuffer lpszPattern = strmatch_loop lpszBuffer lpszPattern 0 (None, 0)"

subsection \<open>Compression\<close>

text \<open>The match for what follows the cursor, as a place in \<open>lpTmp\<close>, in the last 4095 bytes before it.\<close>

definition best_match :: "u8 list \<Rightarrow> nat \<Rightarrow> nat option \<times> nat" where
  "best_match lpSrc ulCursor =
     (let lpTmp = lpPrebuf @ lpSrc; p = ulCursor + length lpPrebuf;
          start = (if p \<ge> 4096 then p - 4095 else 0);
          (m, cbMatch) = strmatch (take (p - start) (drop start lpTmp)) (take (min 17 (length lpSrc - ulCursor)) (drop ulCursor lpSrc))
      in (map_option ((+) start) m, cbMatch))"

definition put_ref :: "u32 \<Rightarrow> u32 \<Rightarrow> u8 list" where
  "put_ref offset cbMatch = [ucast (drop_bit 4 offset), ucast ((push_bit 4 offset AND 0xf0) OR (cbMatch - 2 AND 0x0f))]"

definition set_flag :: "nat \<Rightarrow> nat \<Rightarrow> u8 list \<Rightarrow> u8 list" where
  "set_flag ulFlagCursor ulFlagNr out = out[ulFlagCursor := out ! ulFlagCursor OR push_bit (8 - ulFlagNr) 1]"

text \<open>
  The loop; \<open>out\<close> is what is written behind the header, whose allocation grows as needed. The reference at the end has
  length 2.
\<close>

function compress_loop :: "u8 list \<Rightarrow> nat \<Rightarrow> nat \<Rightarrow> nat \<Rightarrow> u8 list \<Rightarrow> u8 list" where
  "compress_loop lpSrc ulCursor ulFlagCursor ulFlagNr out =
     (if ulCursor \<le> length lpSrc then
        (let (ulFlagCursor, ulFlagNr, out) =
           (if ulFlagNr = 0 then (length out, 8, out @ [0]) else (ulFlagCursor, ulFlagNr, out)) in
         if ulCursor = length lpSrc
         then set_flag ulFlagCursor ulFlagNr (out @ put_ref (of_nat (length lpPrebuf + length lpSrc) AND 0x0fff) 2)
         else
           (case best_match lpSrc ulCursor of
              (Some lpMatch, cbMatch) \<Rightarrow>
                if cbMatch \<ge> 3 then
                  (let offset = (of_nat lpMatch - of_nat ((ulCursor + length lpPrebuf) div 4096 * 4096)) AND 0x0fff
                   in compress_loop lpSrc (ulCursor + cbMatch) ulFlagCursor (ulFlagNr - 1)
                        (set_flag ulFlagCursor ulFlagNr (out @ put_ref offset (of_nat cbMatch))))
                else compress_loop lpSrc (Suc ulCursor) ulFlagCursor (ulFlagNr - 1) (out @ [lpSrc ! ulCursor])
            | (None, cbMatch) \<Rightarrow> compress_loop lpSrc (Suc ulCursor) ulFlagCursor (ulFlagNr - 1) (out @ [lpSrc ! ulCursor])))
      else out)"
  by pat_completeness auto
termination
  by (relation "measure (\<lambda>(lpSrc, ulCursor, ulFlagCursor, ulFlagNr, out). Suc (length lpSrc) - ulCursor)") auto

declare compress_loop.simps [simp del]

text \<open>Documents of 2 GB and more, for which sizes wrap at some point, are left out.\<close>

definition rtf_compress :: "u8 list \<Rightarrow> u8 list option" where
  "rtf_compress lpSrc =
     (if length lpSrc \<ge> 2 ^ 31 then None
      else
        (let out = compress_loop lpSrc 0 0 0 [] in
         Some (put_rtf_header
           \<lparr>ulCompressedSize = of_nat (16 + length out) - 4, ulUncompressedSize = of_nat (length lpSrc),
            ulMagic = RTF_COMPRESSED, ulChecksum = crc32 out\<rparr> @ out)))"

end
