(* ===== verification/Rtf_Facts.thy ===== *)
theory Rtf_Facts
  imports Rtf
begin

text \<open>
  The checksum as a division of polynomials, the accesses of the decompression, the matches that the search finds, and
  that decompression gives back what was compressed.
\<close>

subsection \<open>The checksum\<close>

text \<open>One bit of the division by the polynomial of CRC-32, with the bits of a byte in reverse.\<close>

definition crc_bit :: "u32 \<Rightarrow> u32" where
  "crc_bit x = drop_bit 1 x XOR (if bit x 0 then 0xedb88320 else 0)"

definition crc_byte :: "u32 \<Rightarrow> u32" where
  "crc_byte x = crc_bit (crc_bit (crc_bit (crc_bit (crc_bit (crc_bit (crc_bit (crc_bit x)))))))"

lemma crc_bit_xor: "crc_bit (x XOR y) = crc_bit x XOR crc_bit y"
  by (rule bit_word_eqI) (auto simp: crc_bit_def bit_simps)

lemma crc_byte_xor: "crc_byte (x XOR y) = crc_byte x XOR crc_byte y"
  by (simp add: crc_byte_def crc_bit_xor)

lemma crc_bit_even: "\<not> bit x 0 \<Longrightarrow> crc_bit x = drop_bit 1 x"
  by (simp add: crc_bit_def)

lemma crc_byte_high:
  assumes "\<forall>k < 8. \<not> bit x k"
  shows "crc_byte x = drop_bit 8 x"
  using assms by (simp add: crc_byte_def crc_bit_even bit_simps eval_nat_numeral)

lemma mask_byte: "(0xff :: u32) = mask 8"
  by (simp add: mask_eq_exp_minus_1)

text \<open>The table by doubling: the division is linear.\<close>

definition double_table :: "u32 \<Rightarrow> u32 list \<Rightarrow> u32 list" where
  "double_table x t = t @ map ((XOR) x) t"

fun crc_table :: "nat \<Rightarrow> u32 list" where
  "crc_table 0 = [0]"
| "crc_table (Suc k) = double_table (crc_byte (push_bit k 1)) (crc_table k)"

lemma crc_table_entries: "k \<le> 32 \<Longrightarrow> crc_table k = map (\<lambda>i. crc_byte (of_nat i)) [0..<2 ^ k]"
proof (induction k)
  case 0
  then show ?case by (simp add: crc_byte_def crc_bit_def)
next
  case (Suc k)
  have "of_nat (2 ^ k + i) = (push_bit k 1 XOR of_nat i :: u32)" if "i < 2 ^ k" for i
  proof -
    have "take_bit k i = i" using that by (simp add: take_bit_nat_eq_self)
    then have "bit i n \<Longrightarrow> n < k" for n using bit_take_bit_iff[of k i n] by simp
    then have "(push_bit k 1 :: u32) AND of_nat i = 0"
      by (intro bit_word_eqI) (auto simp: bit_simps bit_1_iff)
    from disjunctive_add_eq_xor[OF this] show ?thesis by (simp add: push_bit_eq_mult)
  qed
  then have upper: "map (\<lambda>i. crc_byte (of_nat (2 ^ k + i))) [0..<2 ^ k] = map ((XOR) (crc_byte (push_bit k 1))) (crc_table k)"
    using Suc by (simp add: crc_byte_xor)
  have "[0..<2 ^ Suc k] = [0..<2 ^ k] @ map ((+) (2 ^ k)) [0..<2 ^ k]"
    by (rule nth_equalityI) (auto simp: nth_append)
  then show ?case using Suc upper by (simp add: double_table_def comp_def)
qed

lemma crctable_is: "crc_table 8 = crctable"
  by code_simp

lemma crctable_entries: "crctable = map (\<lambda>i. crc_byte (of_nat i)) [0..<256]"
  using crc_table_entries[of 8] crctable_is by simp

lemma crctable_byte:
  assumes "x AND 0xff = x"
  shows "crctable ! unat x = crc_byte x"
proof -
  have "x = take_bit 8 x" using assms by (simp add: mask_byte take_bit_eq_mask)
  then have "unat x = take_bit 8 (unat x)" by (metis unsigned_take_bit_eq)
  then have "unat x < 256" using take_bit_nat_less_exp[of 8 "unat x"] by simp
  then have "crctable ! unat x = crc_byte (of_nat (unat x))" unfolding crctable_entries by simp
  then show ?thesis by simp
qed

lemma crc_step_byte: "crc_step c crc = crc_byte (crc XOR ucast c)"
proof -
  let ?x = "crc XOR ucast c"
  have low: "(crc XOR scast c) AND 0xff = ?x AND 0xff"
  proof (rule bit_word_eqI)
    fix n
    show "bit ((crc XOR scast c) AND 0xff) n = bit (?x AND 0xff) n"
      by (cases "n = 7") (auto simp: mask_byte bit_simps min_def)
  qed
  have "?x = (?x AND NOT 0xff) XOR (?x AND 0xff)" by (rule bit_word_eqI) (auto simp: bit_simps)
  then have "crc_byte ?x = crc_byte (?x AND NOT 0xff) XOR crc_byte (?x AND 0xff)" by (metis crc_byte_xor)
  also have "crc_byte (?x AND NOT 0xff) = drop_bit 8 (?x AND NOT 0xff)"
    by (rule crc_byte_high) (auto simp: mask_byte bit_simps)
  also have "\<dots> = drop_bit 8 crc"
    by (rule bit_word_eqI) (auto simp: mask_byte bit_simps dest: bit_imp_le_length)
  also have "crc_byte (?x AND 0xff) = crctable ! unat (?x AND 0xff)"
    by (rule crctable_byte[symmetric]) (simp add: and.assoc)
  finally show ?thesis by (simp add: crc_step_def low)
qed

text \<open>
  C32: the checksum with the table is the remainder of the division by the polynomial of CRC-32, bit by bit.
\<close>

theorem crc32_is_division: "crc32 data = fold (\<lambda>c crc. crc_byte (crc XOR ucast c)) data 0"
proof -
  have "crc_step = (\<lambda>c crc. crc_byte (crc XOR ucast c))" by (simp add: fun_eq_iff crc_step_byte)
  then show ?thesis by (simp add: crc32_def)
qed

subsection \<open>What the decompression touches\<close>

lemma prebuf_length [simp]: "length lpPrebuf = 207"
  by (simp add: lpPrebuf_def)

text \<open>In a buffer of the right size a copy runs, wherever it starts.\<close>

lemma copy_ref_runs:
  "length buf = bound \<Longrightarrow> \<exists>w' buf'. copy_ref n bound off w buf = Some (w', buf') \<and> length buf' = bound"
  by (induction n arbitrary: off w buf) auto

text \<open>The five ways of a round, with the flags and the place behind them named.\<close>

lemma decompress_step:
  fixes buf buf' :: "u8 list"
  assumes w: "w < bound" and fl: "next_flags src pos fl nr = Some (fl', pos')" and buf: "length buf = bound"
  defines "loop \<equiv> decompress_loop src bound w pos fl nr buf"
  shows "pos' \<ge> length src \<Longrightarrow> loop = Some buf"
    "pos' < length src \<Longrightarrow> fl' AND 1 \<noteq> 0 \<Longrightarrow> pos' + 2 \<ge> length src \<Longrightarrow> loop = Some buf"
    "pos' + 2 < length src \<Longrightarrow> fl' AND 1 \<noteq> 0 \<Longrightarrow>
      copy_ref (unat (src ! Suc pos' AND 0xf) + 2) bound (unat (ref_offset (src ! pos') (src ! Suc pos') w)) w buf = Some (w', buf') \<Longrightarrow>
      loop = decompress_loop src bound w' (pos' + 2) fl' (Suc nr) buf'"
    "pos' < length src \<Longrightarrow> fl' AND 1 = 0 \<Longrightarrow> Suc pos' \<ge> length src \<Longrightarrow> loop = Some (buf[w := src ! pos'])"
    "Suc pos' < length src \<Longrightarrow> fl' AND 1 = 0 \<Longrightarrow>
      loop = decompress_loop src bound (Suc w) (Suc pos') fl' (Suc nr) (buf[w := src ! pos'])"
proof -
  have unf: "loop = (if pos' \<ge> length src then Some buf
     else if fl' AND 1 \<noteq> 0 then
       if pos' + 2 \<ge> length src then Some buf
       else (case copy_ref (unat (src ! Suc pos' AND 0xf) + 2) bound (unat (ref_offset (src ! pos') (src ! Suc pos') w)) w buf of
           None \<Rightarrow> None | Some (w, buf) \<Rightarrow> decompress_loop src bound w (pos' + 2) fl' (Suc nr) buf)
     else if Suc pos' \<ge> length src then Some (buf[w := src ! pos'])
     else decompress_loop src bound (Suc w) (Suc pos') fl' (Suc nr) (buf[w := src ! pos']))"
    unfolding loop_def decompress_loop.simps[of src bound w pos fl nr buf] if_P[OF w] fl
    using w buf by (auto split: option.split)
  show "pos' \<ge> length src \<Longrightarrow> loop = Some buf"
    "pos' < length src \<Longrightarrow> fl' AND 1 \<noteq> 0 \<Longrightarrow> pos' + 2 \<ge> length src \<Longrightarrow> loop = Some buf"
    "pos' < length src \<Longrightarrow> fl' AND 1 = 0 \<Longrightarrow> Suc pos' \<ge> length src \<Longrightarrow> loop = Some (buf[w := src ! pos'])"
    "Suc pos' < length src \<Longrightarrow> fl' AND 1 = 0 \<Longrightarrow>
      loop = decompress_loop src bound (Suc w) (Suc pos') fl' (Suc nr) (buf[w := src ! pos'])"
    unfolding unf by simp_all
  assume "pos' + 2 < length src" "fl' AND 1 \<noteq> 0"
    and c: "copy_ref (unat (src ! Suc pos' AND 0xf) + 2) bound (unat (ref_offset (src ! pos') (src ! Suc pos') w)) w buf = Some (w', buf')"
  then show "loop = decompress_loop src bound w' (pos' + 2) fl' (Suc nr) buf'" unfolding unf c by simp
qed

lemma decompress_loop_runs:
  "pos < length src \<or> bound \<le> w \<Longrightarrow> length buf = bound \<Longrightarrow>
   \<exists>buf'. decompress_loop src bound w pos fl nr buf = Some buf' \<and> length buf' = bound"
proof (induction "length src - pos" arbitrary: w pos fl nr buf rule: less_induct)
  case less
  show ?case
  proof (cases "w < bound")
    case False
    then show ?thesis using less(3) by (simp add: decompress_loop.simps)
  next
    case True
    then have "pos < length src" using less(2) by simp
    then have "\<exists>fl' p. next_flags src pos fl nr = Some (fl', p)" by (simp add: next_flags_def)
    then obtain fl' p where nf: "next_flags src pos fl nr = Some (fl', p)" by blast
    note step = decompress_step[OF True nf less(3)]
    obtain w' buf' where r: "copy_ref (unat (src ! Suc p AND 0xf) + 2) bound (unat (ref_offset (src ! p) (src ! Suc p) w)) w buf = Some (w', buf')"
      and len: "length buf' = bound" using copy_ref_runs[OF less(3)] by blast
    have p: "pos \<le> p" by (rule next_flags_pos[OF nf])
    consider "p \<ge> length src" | "p < length src" "fl' AND 1 \<noteq> 0" "p + 2 \<ge> length src"
      | "fl' AND 1 \<noteq> 0" "p + 2 < length src"
      | "p < length src" "fl' AND 1 = 0" "Suc p \<ge> length src" | "fl' AND 1 = 0" "Suc p < length src" by linarith
    then show ?thesis
    proof cases
      case 3
      show ?thesis using less(1)[of "p + 2" w' buf' fl' "Suc nr"] p 3 len unfolding step(3)[OF 3(2,1) r] by simp
    next
      case 5
      show ?thesis using less(1)[of "Suc p" "Suc w" "buf[w := src ! p]" fl' "Suc nr"] p 5 less(3) unfolding step(5)[OF 5(2,1)] by simp
    qed (use step less(3) in simp_all)
  qed
qed

lemma header_of_start: "16 \<le> length bs \<Longrightarrow> get_rtf_header (take 16 bs) = get_rtf_header bs"
  by (simp add: get_rtf_header_def get_word_def)

text \<open>
  C31: decompressing never reads or writes outside its buffers but in four cases: a document that says it is not compressed
  and is longer than the memory for the result, a compressed one that claims 207 bytes less than 4 GB or more, one
  that ends behind its header and claims contents, and memory for the result that is smaller than the claim. It always ends.
\<close>

theorem decompress_undefined_iff:
  fixes src :: "u8 list"
  defines "h \<equiv> get_rtf_header src"
  shows "rtf_decompress junk dest src = None \<longleftrightarrow> 16 \<le> length src \<and>
    (ulMagic h = RTF_UNCOMPRESSED \<and> length src - 16 > length dest \<or>
     ulMagic h = RTF_COMPRESSED \<and>
       (2 ^ 32 - 207 \<le> unat (ulUncompressedSize h) \<or> length src = 16 \<and> ulUncompressedSize h \<noteq> 0 \<or>
        unat (ulUncompressedSize h) > length dest))"
proof (cases "16 \<le> length src \<and> ulMagic h = RTF_COMPRESSED")
  case False
  then show ?thesis
    by (auto simp: rtf_decompress_def h_def Let_def header_of_start mem_read_def mem_write_def)
next
  case True
  let ?n = "unat (ulUncompressedSize h)"
  let ?loop = "decompress_loop src (?n + 207) 207 16 0 0"
  have magic: "RTF_COMPRESSED \<noteq> RTF_UNCOMPRESSED" by (simp add: RTF_COMPRESSED_def RTF_UNCOMPRESSED_def)
  let ?size = "unat (ulUncompressedSize h + 207)"
  have size: "?size = (if 2 ^ 32 - 207 \<le> ?n then ?n + 207 - 2 ^ 32 else ?n + 207)"
    using unsigned_less[of "ulUncompressedSize h", where ?'a = nat] by (auto simp: unat_word_ariths mod_if)
  have loop: "(case ?loop buf of None \<Rightarrow> length src = 16 \<and> ulUncompressedSize h \<noteq> 0
      | Some buf' \<Rightarrow> length buf' = ?n + 207 \<and> \<not> (length src = 16 \<and> ulUncompressedSize h \<noteq> 0))" if "length buf = ?n + 207" for buf
  proof (cases "16 < length src \<or> ?n = 0")
    case True
    then show ?thesis using decompress_loop_runs[of 16 src "?n + 207" 207 buf 0 0] that by (auto simp: unsigned_eq_0_iff)
  next
    case False
    then show ?thesis using True by (subst decompress_loop.simps) (auto simp: unsigned_eq_0_iff next_flags_def)
  qed
  show ?thesis
  proof (cases "2 ^ 32 - 207 \<le> ?n")
    case wrap: True
    then have "?size < 207" using size unsigned_less[of "ulUncompressedSize h", where ?'a = nat] by simp
    then show ?thesis using True magic wrap
      by (simp add: rtf_decompress_def Let_def header_of_start mem_write_def flip: h_def)
  next
    case False
    then have "?size = ?n + 207" using size by simp
    with loop[of "lpPrebuf @ drop 207 (map junk [0..<?size])"] show ?thesis using True magic False
      by (auto simp: rtf_decompress_def Let_def header_of_start mem_write_def mem_read_def simp flip: h_def split: option.splits)
  qed
qed

subsection \<open>Matches\<close>

lemma match_from_matches:
  assumes "n \<le> length pat" "n \<le> cur" "cur \<le> length buf" "take n (drop (cur - n) buf) = take n pat"
    "match_from buf pat cur n = (cur', n')"
  shows "n' \<le> length pat \<and> n' \<le> cur' \<and> cur' \<le> length buf \<and> take n' (drop (cur' - n') buf) = take n' pat"
  using assms
proof (induction "length buf - cur" arbitrary: cur n rule: less_induct)
  case less
  note step = match_from_step[of buf pat cur n]
  consider "match_from buf pat cur n = (cur, n)"
    | "n < length pat" "cur < length buf" "pat ! n = buf ! cur" "match_from buf pat cur n = match_from buf pat (Suc cur) (Suc n)"
    | "n = 0" "cur < length buf" "match_from buf pat cur n = match_from buf pat (Suc cur) 0" using step by blast
  then show ?case
  proof cases
    case 1
    then show ?thesis using less(2-6) by simp
  next
    case 2
    have "take (Suc n) (drop (Suc cur - Suc n) buf) = take (Suc n) pat"
      using less(3,5) 2(1-3) by (simp add: take_Suc_conv_app_nth)
    then show ?thesis using less(1)[of "Suc cur" "Suc n"] less(3,6) 2 by simp
  next
    case 3
    then show ?thesis using less(1)[of "Suc cur" 0] less(6) by simp
  qed
qed

definition is_match :: "u8 list \<Rightarrow> u8 list \<Rightarrow> nat option \<times> nat \<Rightarrow> bool" where
  "is_match buf pat best \<longleftrightarrow> snd best \<le> length pat \<and>
     (\<forall>i. fst best = Some i \<longrightarrow> i + snd best \<le> length buf \<and> take (snd best) (drop i buf) = take (snd best) pat)"

lemma strmatch_loop_matches:
  "cur \<le> length buf \<Longrightarrow> is_match buf pat best \<Longrightarrow> is_match buf pat (strmatch_loop buf pat cur best)"
proof (induction "length buf - cur" arbitrary: cur best rule: less_induct)
  case less
  obtain m n where best: "best = (m, n)" by (cases best)
  show ?case
  proof (cases "n < length pat \<and> cur + n < length buf")
    case False
    then have "strmatch_loop buf pat cur best = best" unfolding best strmatch_loop.simps[of buf pat cur m n] by (rule if_not_P)
    then show ?thesis using less(3) by simp
  next
    case True
    obtain cur' n' where r: "match_from buf pat cur 0 = (cur', n')" by (metis surj_pair)
    have adv: "cur < cur'" using match_from_advances[of pat cur buf] True r by fastforce
    from match_from_matches[OF _ _ less(2) _ r] have
      m: "n' \<le> length pat" "n' \<le> cur'" "cur' \<le> length buf" "take n' (drop (cur' - n') buf) = take n' pat" by simp_all
    let ?best = "if n' > n then (Some (cur' - n'), n') else (m, n)"
    have "is_match buf pat ?best" using less(3) m by (simp add: best is_match_def)
    then have "is_match buf pat (strmatch_loop buf pat cur' ?best)" using less(1)[of cur' ?best] adv True m(3) by simp
    moreover have "strmatch_loop buf pat cur best = strmatch_loop buf pat cur' ?best"
      unfolding best strmatch_loop.simps[of buf pat cur m n] if_P[OF True] r by simp
    ultimately show ?thesis by simp
  qed
qed

lemma take_drop_window: "i + n \<le> length (take k (drop s l)) \<Longrightarrow> take n (drop i (take k (drop s l))) = take n (drop (s + i) l)"
  by (rule nth_equalityI) (auto simp: add.assoc)

text \<open>The match is an earlier place in the document, not more than 4095 bytes back, with the same bytes.\<close>

lemma best_match_finds:
  assumes "best_match src cur = (Some a, n)" "cur \<le> length src"
  shows "n \<le> 17" "cur + n \<le> length src" "a + n \<le> cur + 207" "cur + 207 \<le> a + 4095"
    "take n (drop a (lpPrebuf @ src)) = take n (drop cur src)"
proof -
  let ?p = "cur + 207" and ?start = "if cur + 207 \<ge> 4096 then cur + 207 - 4095 else 0"
  let ?buf = "take (?p - ?start) (drop ?start (lpPrebuf @ src))" and ?pat = "take (min 17 (length src - cur)) (drop cur src)"
  have start: "?start \<le> ?p" "?p \<le> ?start + 4095" by auto
  have buf: "length ?buf \<le> ?p - ?start" by (simp only: length_take min.cobounded2)
  obtain m k where r: "strmatch ?buf ?pat = (m, k)" by (metis surj_pair)
  have "is_match ?buf ?pat (m, k)"
    unfolding r[symmetric] strmatch_def by (rule strmatch_loop_matches) (simp_all add: is_match_def)
  moreover from assms(1) r obtain i where i: "m = Some i" "a = ?start + i" "k = n"
    by (cases m) (simp_all add: best_match_def Let_def)
  ultimately have "is_match ?buf ?pat (Some i, n)" by (simp only:)
  then have n: "n \<le> length ?pat" and b: "i + n \<le> length ?buf" "take n (drop i ?buf) = take n ?pat"
    unfolding is_match_def fst_conv snd_conv by blast+
  show "n \<le> 17" using n by simp
  have "n \<le> length src - cur" using n by simp
  then show "cur + n \<le> length src" using assms(2) by linarith
  show "a + n \<le> cur + 207" using b(1) buf i(2) start(1) by linarith
  show "cur + 207 \<le> a + 4095" using i(2) start(2) by linarith
  have "take n (drop a (lpPrebuf @ src)) = take n (drop i ?buf)"
    unfolding i(2) by (rule take_drop_window[OF b(1), symmetric])
  also note b(2)
  also have "take n ?pat = take n (drop cur src)" using n by (simp add: min_absorb1)
  finally show "take n (drop a (lpPrebuf @ src)) = take n (drop cur src)" .
qed

subsection \<open>References\<close>

lemma nibble_masks: "(0xf :: u8) = mask 4" "(0xf :: u32) = mask 4" "(0xf0 :: u32) = push_bit 4 (mask 4)" "(0xfff :: u32) = mask 12"
  by (simp_all add: mask_eq_exp_minus_1 push_bit_eq_mult)

lemma put_ref_read:
  assumes "x AND 0xfff = x" "put_ref x n = [c1, c2]"
  shows "push_bit 4 (ucast c1) OR ucast (drop_bit 4 c2) = x" "c2 AND 0xf = ucast (n - 2 AND 0xf)"
proof -
  have c: "c1 = ucast (drop_bit 4 x)" "c2 = ucast ((push_bit 4 x AND 0xf0) OR (n - 2 AND 0x0f))"
    using assms(2) by (simp_all add: put_ref_def)
  have x: "bit x k \<Longrightarrow> k < 12" for k
    using assms(1) bit_and_iff[of x "0xfff" k] by (simp add: nibble_masks bit_mask_iff)
  show "push_bit 4 (ucast c1) OR ucast (drop_bit 4 c2) = x"
  proof (rule bit_word_eqI)
    fix k
    have "bit (push_bit 4 (ucast c1) OR ucast (drop_bit 4 c2) :: u32) k = (4 \<le> k \<and> k < 12 \<and> bit x k \<or> k < 4 \<and> bit x k)"
      unfolding c by (auto simp: nibble_masks bit_simps)
    also have "\<dots> = bit x k" using x[of k] by auto
    finally show "bit (push_bit 4 (ucast c1) OR ucast (drop_bit 4 c2) :: u32) k = bit x k" .
  qed
  show "c2 AND 0xf = ucast (n - 2 AND 0xf)"
    unfolding c by (rule bit_word_eqI) (auto simp: nibble_masks bit_simps)
qed

lemma ref_offset_back:
  fixes a w :: nat
  defines "x \<equiv> (of_nat a - of_nat (w div 4096 * 4096) :: u32) AND 0xfff"
  assumes "put_ref x n = [c1, c2]" "a \<le> w" "w \<le> a + 4095" "w < 2 ^ 31 + 207"
  shows "ref_offset c1 c2 w = of_nat a"
proof -
  let ?page = "w div 4096 * 4096"
  have page: "?page \<le> w" "w < ?page + 4096" by simp_all
  have x: "x = of_int ((int a - int ?page) mod 4096)"
  proof -
    have "x = take_bit 12 (of_int (int a - int ?page))" by (simp only: x_def nibble_masks take_bit_eq_mask of_int_diff of_int_of_nat_eq)
    also have "\<dots> = of_int (take_bit 12 (int a - int ?page))" by (rule take_bit_of_int)
    finally show ?thesis by (simp add: take_bit_eq_mod)
  qed
  have off: "push_bit 4 (ucast c1) OR ucast (drop_bit 4 c2) = x"
    by (rule put_ref_read(1)[OF _ assms(2)]) (simp add: x_def and.assoc)
  let ?o = "of_nat ?page + x"
  have r: "ref_offset c1 c2 w = (if ?o > of_nat w then ?o - 4096 else ?o)" by (simp add: ref_offset_def off Let_def)
  have small: "unat (of_nat k :: u32) = k" if "k < 2 ^ 32" for k
    using that by (simp add: unsigned_of_nat take_bit_nat_eq_self)
  show ?thesis
  proof (cases "a \<ge> ?page")
    case True
    then have "(int a - int ?page) mod 4096 = int a - int ?page" using page assms(3) by (intro mod_pos_pos_trivial) linarith+
    then have "?o = of_nat a" unfolding x by simp
    then show ?thesis using r assms(3,5) by (simp add: word_less_nat_alt small)
  next
    case False
    then have "int a - int ?page + 4096 = (int a - int ?page + 4096) mod 4096"
      using page assms(3,4) by (intro mod_pos_pos_trivial[symmetric]) linarith+
    then have "(int a - int ?page) mod 4096 = int a - int ?page + 4096" by simp
    then have o: "?o = of_nat (a + 4096)" unfolding x by simp
    have "unat (of_nat (a + 4096) :: u32) = a + 4096" "unat (of_nat w :: u32) = w"
      using assms(3-5) by (intro small; simp)+
    then have "(of_nat (a + 4096) :: u32) > of_nat w"
      unfolding word_less_nat_alt using page assms(4) False by linarith
    with o show ?thesis unfolding r by simp
  qed
qed

lemma copy_ref_copies:
  assumes "off + n \<le> w" "w + n \<le> bound" "length buf = bound"
  shows "\<exists>buf'. copy_ref n bound off w buf = Some (w + n, buf') \<and> length buf' = bound \<and>
    take (w + n) buf' = take w buf @ take n (drop off buf)"
  using assms
proof (induction n arbitrary: off w buf)
  case 0
  then show ?case by simp
next
  case (Suc n)
  let ?buf = "buf[w := buf ! off]"
  have t: "take (Suc w) ?buf = take w buf @ [buf ! off]" using Suc.prems by (simp add: take_Suc_conv_app_nth)
  have d: "take n (drop (Suc off) ?buf) = take n (drop (Suc off) buf)"
    using Suc.prems by (intro nth_equalityI) (simp_all add: nth_list_update)
  have e: "take (Suc n) (drop off buf) = buf ! off # take n (drop (Suc off) buf)"
    using Suc.prems by (simp add: Cons_nth_drop_Suc[symmetric])
  show ?case using Suc.IH[of "Suc off" "Suc w" ?buf] Suc.prems by (simp add: t d e)
qed

subsection \<open>The compressed data\<close>

text \<open>The flag byte that is being filled has no bits yet for the items to come.\<close>

definition flag_ok :: "nat \<Rightarrow> nat \<Rightarrow> u8 list \<Rightarrow> bool" where
  "flag_ok fc fn out \<longleftrightarrow> fn \<le> 8 \<and> (0 < fn \<longrightarrow> fc < length out \<and> (\<forall>k \<ge> 8 - fn. \<not> bit (out ! fc) k))"

text \<open>What comes later only appends, and sets bits of the flag byte for later items.\<close>

definition extends :: "nat \<Rightarrow> nat \<Rightarrow> u8 list \<Rightarrow> u8 list \<Rightarrow> bool" where
  "extends fc fn out F \<longleftrightarrow> length out \<le> length F \<and> (\<forall>i < length out. fn = 0 \<or> i \<noteq> fc \<longrightarrow> F ! i = out ! i) \<and>
     (0 < fn \<longrightarrow> (\<forall>k < 8 - fn. bit (F ! fc) k = bit (out ! fc) k))"

text \<open>An item of one or two bytes, with its flag.\<close>

definition add_item :: "bool \<Rightarrow> nat \<Rightarrow> nat \<Rightarrow> u8 list \<Rightarrow> u8 list \<Rightarrow> u8 list" where
  "add_item b fc fn xs out = (if b then set_flag fc fn (out @ xs) else out @ xs)"

lemma add_item_nth:
  assumes "flag_ok fc fn out" "0 < fn"
  shows "length (add_item b fc fn xs out) = length out + length xs"
    "i \<noteq> fc \<Longrightarrow> add_item b fc fn xs out ! i = (out @ xs) ! i"
    "bit (add_item b fc fn xs out ! fc) k = (bit (out ! fc) k \<or> b \<and> k = 8 - fn)"
proof -
  have fc: "fc < length out" "0 < fn" "fn \<le> 8" using assms by (simp_all add: flag_ok_def)
  show "length (add_item b fc fn xs out) = length out + length xs" by (simp add: add_item_def set_flag_def)
  show "i \<noteq> fc \<Longrightarrow> add_item b fc fn xs out ! i = (out @ xs) ! i" by (simp add: add_item_def set_flag_def)
  show "bit (add_item b fc fn xs out ! fc) k = (bit (out ! fc) k \<or> b \<and> k = 8 - fn)"
    using fc by (auto simp: add_item_def set_flag_def nth_append bit_simps bit_1_iff)
qed

lemma add_item_ok:
  assumes "flag_ok fc fn out" "0 < fn"
  shows "flag_ok fc (fn - 1) (add_item b fc fn xs out)"
  using assms add_item_nth[OF assms] by (auto simp: flag_ok_def)

lemma add_item_extends:
  assumes ok: "flag_ok fc fn out" "0 < fn" and F: "extends fc (fn - 1) (add_item b fc fn xs out) F"
  shows "extends fc fn out F" "bit (F ! fc) (8 - fn) = b" "j < length xs \<Longrightarrow> F ! (length out + j) = xs ! j"
proof -
  note nth = add_item_nth[OF ok]
  have fc: "fc < length out" "fn \<le> 8" "\<forall>k \<ge> 8 - fn. \<not> bit (out ! fc) k" using ok by (simp_all add: flag_ok_def)
  have bits: "bit (F ! fc) k = (bit (out ! fc) k \<or> b \<and> k = 8 - fn)" if "k \<le> 8 - fn" for k
  proof (cases "fn - 1 = 0")
    case True
    then have "F ! fc = add_item b fc fn xs out ! fc" using F fc(1) nth(1) by (simp add: extends_def)
    then show ?thesis by (simp add: nth(3))
  next
    case False
    then have "k < 8 - (fn - 1)" using that ok(2) fc(2) by simp
    then show ?thesis using F False by (simp add: extends_def nth(3))
  qed
  then show "bit (F ! fc) (8 - fn) = b" using fc(3) by simp
  have other: "F ! i = (out @ xs) ! i" if "i < length out + length xs" "i \<noteq> fc" for i
    using F that nth(1,2) by (simp add: extends_def)
  then show "j < length xs \<Longrightarrow> F ! (length out + j) = xs ! j" using fc(1) by simp
  show "extends fc fn out F"
    unfolding extends_def
  proof (intro conjI allI impI)
    show "length out \<le> length F" using F nth(1) by (simp add: extends_def)
    show "F ! i = out ! i" if "i < length out" "fn = 0 \<or> i \<noteq> fc" for i
      using other[of i] that ok(2) by (simp add: nth_append)
    show "bit (F ! fc) k = bit (out ! fc) k" if "k < 8 - fn" for k
      using bits[of k] that by simp
  qed
qed

text \<open>A new flag byte where one is needed.\<close>

definition new_flags :: "nat \<Rightarrow> nat \<Rightarrow> u8 list \<Rightarrow> nat \<times> nat \<times> u8 list" where
  "new_flags fc fn out = (if fn = 0 then (length out, 8, out @ [0]) else (fc, fn, out))"

lemma new_flags_ok:
  assumes "flag_ok fc fn out" "new_flags fc fn out = (fc', fn', out')"
  shows "flag_ok fc' fn' out'" "0 < fn'" "extends fc' fn' out' F \<Longrightarrow> extends fc fn out F"
    "length out' = length out + (if fn = 0 then 1 else 0)" "fn = 0 \<Longrightarrow> fc' = length out \<and> fn' = 8" "fn \<noteq> 0 \<Longrightarrow> fc' = fc \<and> fn' = fn"
  using assms by (auto simp: new_flags_def flag_ok_def extends_def nth_append split: if_splits)

text \<open>A round of the loop: the end, a reference, or a literal.\<close>

lemma compress_step:
  assumes "cur \<le> length src" "new_flags fc fn out = (fc', fn', out')"
  defines "loop \<equiv> compress_loop src cur fc fn out"
  shows "cur = length src \<Longrightarrow> loop = add_item True fc' fn' (put_ref (of_nat (207 + length src) AND 0x0fff) 2) out'"
    "cur < length src \<Longrightarrow>
      (\<exists>a n. best_match src cur = (Some a, n) \<and> n \<ge> 3 \<and> loop = compress_loop src (cur + n) fc' (fn' - 1)
         (add_item True fc' fn' (put_ref ((of_nat a - of_nat ((cur + 207) div 4096 * 4096)) AND 0x0fff) (of_nat n)) out')) \<or>
      loop = compress_loop src (Suc cur) fc' (fn' - 1) (add_item False fc' fn' [src ! cur] out')"
proof -
  have unf: "loop = (if cur = length src then add_item True fc' fn' (put_ref (of_nat (207 + length src) AND 0x0fff) 2) out'
    else (case best_match src cur of
       (Some a, n) \<Rightarrow> if n \<ge> 3 then compress_loop src (cur + n) fc' (fn' - 1)
           (add_item True fc' fn' (put_ref ((of_nat a - of_nat ((cur + 207) div 4096 * 4096)) AND 0x0fff) (of_nat n)) out')
         else compress_loop src (Suc cur) fc' (fn' - 1) (add_item False fc' fn' [src ! cur] out')
     | (None, n) \<Rightarrow> compress_loop src (Suc cur) fc' (fn' - 1) (add_item False fc' fn' [src ! cur] out')))"
    unfolding loop_def compress_loop.simps[of src cur fc fn out] if_P[OF assms(1)] assms(2)[unfolded new_flags_def]
      add_item_def if_True if_False Let_def prod.case prebuf_length ..
  show "cur = length src \<Longrightarrow> loop = add_item True fc' fn' (put_ref (of_nat (207 + length src) AND 0x0fff) 2) out'"
    unfolding unf by simp
  assume "cur < length src"
  then show "(\<exists>a n. best_match src cur = (Some a, n) \<and> n \<ge> 3 \<and> loop = compress_loop src (cur + n) fc' (fn' - 1)
       (add_item True fc' fn' (put_ref ((of_nat a - of_nat ((cur + 207) div 4096 * 4096)) AND 0x0fff) (of_nat n)) out')) \<or>
     loop = compress_loop src (Suc cur) fc' (fn' - 1) (add_item False fc' fn' [src ! cur] out')"
    unfolding unf by (cases "best_match src cur"; cases "fst (best_match src cur)") auto
qed

text \<open>What a round gives, as the item that it adds for the next \<open>n\<close> bytes.\<close>

definition item_ok :: "u8 list \<Rightarrow> nat \<Rightarrow> bool \<Rightarrow> nat \<Rightarrow> u8 list \<Rightarrow> bool" where
  "item_ok src cur b n xs \<longleftrightarrow> cur + n \<le> length src \<and>
     (if b then 3 \<le> n \<and> (\<exists>a. best_match src cur = (Some a, n) \<and>
        xs = put_ref ((of_nat a - of_nat ((cur + 207) div 4096 * 4096)) AND 0x0fff) (of_nat n))
      else n = 1 \<and> xs = [src ! cur])"

lemma item_ok_length: "item_ok src cur b n xs \<Longrightarrow> 1 \<le> n \<and> length xs = (if b then 2 else 1) \<and> length xs \<le> n \<and> cur + n \<le> length src"
  by (auto simp: item_ok_def put_ref_def split: if_splits)

lemma compress_round:
  assumes "cur < length src" "new_flags fc fn out = (fc', fn', out')"
  obtains b n xs where "item_ok src cur b n xs"
    "compress_loop src cur fc fn out = compress_loop src (cur + n) fc' (fn' - 1) (add_item b fc' fn' xs out')"
proof -
  let ?out = "\<lambda>b n xs. compress_loop src (cur + n) fc' (fn' - 1) (add_item b fc' fn' xs out')"
  consider a n where "best_match src cur = (Some a, n)" "n \<ge> 3" "compress_loop src cur fc fn out =
      ?out True n (put_ref ((of_nat a - of_nat ((cur + 207) div 4096 * 4096)) AND 0x0fff) (of_nat n))"
    | "compress_loop src cur fc fn out = ?out False 1 [src ! cur]"
    using compress_step(2)[OF less_imp_le[OF assms(1)] assms(2) assms(1)] by fastforce
  then show ?thesis
  proof cases
    case 1
    have "cur + n \<le> length src" using best_match_finds(2)[OF 1(1)] assms(1) by simp
    with 1 that[of True n] show ?thesis by (simp add: item_ok_def)
  next
    case 2
    with assms(1) that[of False 1 "[src ! cur]"] show ?thesis by (simp add: item_ok_def)
  qed
qed

lemma compress_extends:
  assumes "cur \<le> length src" "flag_ok fc fn out"
  shows "extends fc fn out (compress_loop src cur fc fn out) \<and>
    length out + 2 + (if fn = 0 then 1 else 0) \<le> length (compress_loop src cur fc fn out) \<and>
    length (compress_loop src cur fc fn out) \<le> length out + (length src - cur) + 2 + (length src - cur + 8 - fn) div 8"
  using assms
proof (induction "length src - cur" arbitrary: cur fc fn out rule: less_induct)
  case less
  obtain fc' fn' out' where nf: "new_flags fc fn out = (fc', fn', out')" by (metis prod_cases3)
  note nf_ok = new_flags_ok[OF less(3) nf]
  have fn: "fn \<le> 8" "fn' \<le> 8" using less(3) nf_ok(1) by (simp_all add: flag_ok_def)
  show ?case
  proof (cases "cur = length src")
    case True
    let ?xs = "put_ref (of_nat (207 + length src) AND 0x0fff) 2"
    have F: "compress_loop src cur fc fn out = add_item True fc' fn' ?xs out'" by (rule compress_step(1)[OF less(2) nf True])
    have len: "length (add_item True fc' fn' ?xs out') = length out' + 2" using add_item_nth(1)[OF nf_ok(1,2)] by (simp add: put_ref_def)
    have "extends fc' (fn' - 1) (add_item True fc' fn' ?xs out') (add_item True fc' fn' ?xs out')" by (simp add: extends_def)
    then have "extends fc fn out (add_item True fc' fn' ?xs out')" by (intro nf_ok(3) add_item_extends(1)[OF nf_ok(1,2)])
    moreover have "(if fn = 0 then 1 else 0) \<le> (8 - fn) div 8" by simp
    ultimately show ?thesis unfolding F using True len nf_ok(4) by simp
  next
    case False
    then have "cur < length src" using less(2) by simp
    then obtain b n xs where i: "item_ok src cur b n xs"
      and F: "compress_loop src cur fc fn out = compress_loop src (cur + n) fc' (fn' - 1) (add_item b fc' fn' xs out')"
      by (rule compress_round[OF _ nf])
    note n = item_ok_length[OF i]
    have len: "length (add_item b fc' fn' xs out') = length out' + length xs" by (rule add_item_nth(1)[OF nf_ok(1,2)])
    have smaller: "length src - (cur + n) < length src - cur" "cur + n \<le> length src" using n \<open>cur < length src\<close> by linarith+
    have IH: "extends fc' (fn' - 1) (add_item b fc' fn' xs out') (compress_loop src cur fc fn out)"
      "length out' + length xs + 2 \<le> length (compress_loop src cur fc fn out)"
      "length (compress_loop src cur fc fn out) \<le>
        length out' + length xs + (length src - (cur + n)) + 2 + (length src - (cur + n) + 8 - (fn' - 1)) div 8"
      using less(1)[OF smaller add_item_ok[OF nf_ok(1,2), of b xs]] unfolding F len by simp_all
    have "extends fc fn out (compress_loop src cur fc fn out)"
      using add_item_extends(1)[OF nf_ok(1,2) IH(1)] nf_ok(3) by blast
    moreover have "(length src - (cur + n) + 8 - (fn' - 1)) div 8 + (if fn = 0 then 1 else 0) \<le> (length src - cur + 8 - fn) div 8"
    proof (cases "fn = 0")
      case True
      then have "fn' = 8" using nf_ok(5) by simp
      have "(length src - (cur + n) + 8 - 7) div 8 \<le> (length src - cur) div 8" using n by (intro div_le_mono) linarith
      then show ?thesis using True \<open>fn' = 8\<close> by simp
    next
      case False
      then have "fn' = fn" using nf_ok(6) by simp
      have "(length src - (cur + n) + 8 - (fn - 1)) div 8 \<le> (length src - cur + 8 - fn) div 8" using n fn False by (intro div_le_mono) linarith
      then show ?thesis using False \<open>fn' = fn\<close> by simp
    qed
    moreover have "1 \<le> length xs" "length xs \<le> n" "cur + n \<le> length src" using n by (simp_all split: if_splits)
    ultimately show ?thesis using IH(2,3) nf_ok(4) by (intro conjI; linarith)
  qed
qed

subsection \<open>Decompressing what was compressed\<close>

lemma best_match_copied:
  assumes m: "best_match src cur = (Some a, n)" and cur: "cur \<le> length src" "length src < 2 ^ 31" and n: "3 \<le> n"
    and ref: "put_ref ((of_nat a - of_nat ((cur + 207) div 4096 * 4096)) AND 0x0fff) (of_nat n) = [c1, c2]"
    and buf: "take (207 + cur) buf = lpPrebuf @ take cur src" "length buf = 207 + length src"
  shows "\<exists>buf'. copy_ref (unat (c2 AND 0xf) + 2) (207 + length src) (unat (ref_offset c1 c2 (207 + cur))) (207 + cur) buf = Some (207 + (cur + n), buf') \<and>
    length buf' = 207 + length src \<and> take (207 + (cur + n)) buf' = lpPrebuf @ take (cur + n) src"
proof -
  note f = best_match_finds[OF m cur(1)]
  have small: "unat (of_nat k :: u32) = k" if "k < 2 ^ 32" for k
    using that by (simp add: unsigned_of_nat take_bit_nat_eq_self)
  have off: "unat (ref_offset c1 c2 (207 + cur)) = a"
  proof -
    have "ref_offset c1 c2 (cur + 207) = of_nat a"
      by (rule ref_offset_back[OF ref]) (use f(3,4) cur in linarith)+
    moreover have "a < 2 ^ 32" using f(3) cur by simp
    ultimately show ?thesis using small by (simp add: add.commute)
  qed
  have "c2 AND 0xf = ucast (of_nat n - 2 AND 0xf :: u32)"
    by (rule put_ref_read(2)[OF _ ref]) (simp add: and.assoc)
  moreover have "n \<in> set [3..<18]" using n f(1) unfolding set_upt atLeastLessThan_iff by linarith
  then have "unat (ucast (of_nat n - 2 AND 0xf :: u32) :: u8) = n - 2" by (auto simp: upt_rec)
  ultimately have size: "unat (c2 AND 0xf) + 2 = n" using n by simp
  obtain buf' where r: "copy_ref n (207 + length src) a (207 + cur) buf = Some (207 + cur + n, buf')" "length buf' = 207 + length src"
      "take (207 + cur + n) buf' = take (207 + cur) buf @ take n (drop a buf)"
    using copy_ref_copies[of a n "207 + cur" "207 + length src" buf] f(2,3) buf(2) by (auto simp: add.commute)
  have "take n (drop a buf) = take n (drop a (take (207 + cur) buf))"
    using f(3) by (simp add: drop_take min_absorb1)
  also have "take (207 + cur) buf = take (207 + cur) (lpPrebuf @ src)" by (simp add: buf(1))
  also have "take n (drop a (take (207 + cur) (lpPrebuf @ src))) = take n (drop a (lpPrebuf @ src))"
    using f(3) by (simp only: drop_take take_take) (simp add: min_absorb1)
  also have "\<dots> = take n (drop cur src)" by (rule f(5))
  finally have "take (207 + cur + n) buf' = lpPrebuf @ take (cur + n) src" using r(3) buf(1) by (simp add: take_add)
  then show ?thesis using r(1,2) unfolding off size by (auto simp: add.assoc)
qed

lemma scast_byte_bit: "k < 8 \<Longrightarrow> bit (scast (c :: u8) :: u32) k = bit c k"
  by (cases "k = 7") (auto simp: bit_simps min_def)

lemma first_bit: "(x :: u32) AND 1 \<noteq> 0 \<longleftrightarrow> bit x 0"
  by (simp add: and_one_eq mod_2_eq_odd bit_0)

text \<open>
  The flags before a round: those of the items to come, below the ones of the byte that is being filled. They are in
  \<open>fl\<close>, one place higher, unless a new byte is next.
\<close>

definition flags_at :: "nat \<Rightarrow> nat \<Rightarrow> nat \<Rightarrow> u32 \<Rightarrow> u8 list \<Rightarrow> bool" where
  "flags_at fc fn nr fl F \<longleftrightarrow> nr mod 8 = (8 - fn) mod 8 \<and> fn \<le> 7 \<and> (\<forall>k < fn. bit fl (Suc k) = bit (F ! fc) (8 - fn + k))"

lemma flags_at_step:
  assumes f: "flags_at fc fn nr fl F" and nf: "new_flags fc fn out = (fc', fn', out')"
    and len: "length h16 = 16" "length out < length F"
  defines "fl' \<equiv> (if nr mod 8 = 0 then scast ((h16 @ F) ! (16 + length out)) else drop_bit 1 fl)"
  shows "flags_at fc' (fn' - 1) (Suc nr) fl' F" "bit fl' 0 = bit (F ! fc') (8 - fn')"
    "next_flags (h16 @ F) (16 + length out) fl nr = Some (fl', 16 + length out')"
proof -
  have "(8 - fn) mod 8 = (if fn = 0 then 0 else 8 - fn)" by simp
  moreover have "nr mod 8 = (8 - fn) mod 8" "fn \<le> 7" using f by (simp_all add: flags_at_def)
  ultimately have nr: "nr mod 8 = 0 \<longleftrightarrow> fn = 0" by (cases "fn = 0") simp_all
  have all: "bit fl' k = bit (F ! fc') (8 - fn' + k)" if "k < fn'" for k
    using f nf len that nr unfolding fl'_def
    by (auto simp: flags_at_def new_flags_def nth_append scast_byte_bit bit_drop_bit_eq split: if_splits)
  have fn': "0 < fn'" "fn' \<le> 8" "fn = 0 \<longrightarrow> fn' = 8" "fn \<noteq> 0 \<longrightarrow> fn' = fn" using nf f by (auto simp: new_flags_def flags_at_def split: if_splits)
  show "bit fl' 0 = bit (F ! fc') (8 - fn')" using all[of 0] fn' by simp
  have "Suc nr mod 8 = (8 - (fn' - 1)) mod 8"
  proof -
    have "Suc nr mod 8 = Suc ((8 - fn) mod 8) mod 8" using f by (metis flags_at_def mod_Suc_eq)
    also have "\<dots> = (8 - (fn' - 1)) mod 8"
    proof (cases "fn = 0")
      case False
      then have "Suc (8 - fn) = 8 - (fn' - 1)" using f fn' unfolding flags_at_def by linarith
      then show ?thesis by (simp only: mod_Suc_eq)
    qed (use fn'(3) in simp)
    finally show ?thesis .
  qed
  moreover have "bit fl' (Suc k) = bit (F ! fc') (8 - (fn' - 1) + k)" if "k < fn' - 1" for k
  proof -
    have "8 - fn' + Suc k = 8 - (fn' - 1) + k" using fn' that by linarith
    moreover have "Suc k < fn'" using that by linarith
    ultimately show ?thesis using all[of "Suc k"] by (simp only:)
  qed
  ultimately show "flags_at fc' (fn' - 1) (Suc nr) fl' F" using fn'(2) by (simp add: flags_at_def)
  show "next_flags (h16 @ F) (16 + length out) fl nr = Some (fl', 16 + length out')"
    using nf nr len by (auto simp: new_flags_def next_flags_def fl'_def split: if_splits)
qed

lemma decompress_compressed:
  assumes h16: "length h16 = 16" and small: "length src < 2 ^ 31"
  shows "cur \<le> length src \<Longrightarrow> flag_ok fc fn out \<Longrightarrow> compress_loop src cur fc fn out = F \<Longrightarrow> flags_at fc fn nr fl F \<Longrightarrow>
    take (207 + cur) buf = lpPrebuf @ take cur src \<Longrightarrow> length buf = 207 + length src \<Longrightarrow>
    decompress_loop (h16 @ F) (207 + length src) (207 + cur) (16 + length out) fl nr buf = Some (lpPrebuf @ src)"
proof (induction "length src - cur" arbitrary: cur fc fn out nr fl buf rule: less_induct)
  case less
  show ?case
  proof (cases "cur = length src")
    case True
    then show ?thesis using less(6,7) by (simp add: decompress_loop.simps)
  next
    case False
    then have cur: "cur < length src" using less(2) by simp
    obtain fc' fn' out' where nf: "new_flags fc fn out = (fc', fn', out')" by (metis prod_cases3)
    note ok = new_flags_ok[OF less(3) nf]
    obtain b n xs where i: "item_ok src cur b n xs"
      and F: "F = compress_loop src (cur + n) fc' (fn' - 1) (add_item b fc' fn' xs out')"
      using compress_round[OF cur nf] unfolding less(4) by blast
    note n = item_ok_length[OF i]
    have len: "length (add_item b fc' fn' xs out') = length out' + length xs" by (rule add_item_nth(1)[OF ok(1,2)])
    have next_ok: "cur + n \<le> length src" "flag_ok fc' (fn' - 1) (add_item b fc' fn' xs out')"
      using n add_item_ok[OF ok(1,2)] by simp_all
    have ext: "extends fc' (fn' - 1) (add_item b fc' fn' xs out') F" "length out' + length xs + 2 \<le> length F"
      using compress_extends[OF next_ok] by (simp_all add: F len)
    note item = add_item_extends[OF ok(1,2) ext(1)]
    have "length out < length F" using ext(2) ok(4) by linarith
    note fs = flags_at_step[OF less(5) nf h16 this]
    define fl' where "fl' = (if nr mod 8 = 0 then scast ((h16 @ F) ! (16 + length out)) else drop_bit 1 fl)"
    have b: "fl' AND 1 \<noteq> 0 \<longleftrightarrow> b" using fs(2) item(2) by (simp add: first_bit fl'_def)
    have at: "(h16 @ F) ! (16 + length out' + j) = xs ! j" if "j < length xs" for j
      using item(3)[OF that] h16 by (simp add: nth_append)
    have "207 + cur < 207 + length src" using cur by simp
    note step = decompress_step[OF this fs(3)[folded fl'_def] less(7)]
    have smaller: "length src - (cur + n) < length src - cur" using n cur by linarith
    have IH: "decompress_loop (h16 @ F) (207 + length src) (207 + (cur + n)) (16 + length out' + length xs) fl' (Suc nr) buf' = Some (lpPrebuf @ src)"
      if "take (207 + (cur + n)) buf' = lpPrebuf @ take (cur + n) src" "length buf' = 207 + length src" for buf'
      using less(1)[OF smaller next_ok F[symmetric] fs(1)[folded fl'_def] that] by (simp add: len add.assoc)
    show ?thesis
    proof (cases b)
      case True
      then obtain a where n3: "3 \<le> n" and a: "best_match src cur = (Some a, n)"
        and xs: "xs = put_ref ((of_nat a - of_nat ((cur + 207) div 4096 * 4096)) AND 0x0fff) (of_nat n)" using i by (auto simp: item_ok_def)
      obtain c1 c2 where c: "xs = [c1, c2]" by (simp add: xs put_ref_def)
      have c12: "(h16 @ F) ! (16 + length out') = c1" "(h16 @ F) ! Suc (16 + length out') = c2" using at[of 0] at[of 1] by (simp_all add: c)
      from best_match_copied[OF a less(2) small n3 _ less(6,7), of c1 c2] obtain buf'
        where r: "copy_ref (unat (c2 AND 0xf) + 2) (207 + length src) (unat (ref_offset c1 c2 (207 + cur))) (207 + cur) buf = Some (207 + (cur + n), buf')"
          "length buf' = 207 + length src" "take (207 + (cur + n)) buf' = lpPrebuf @ take (cur + n) src"
        using xs c by auto
      show ?thesis
        using step(3)[unfolded c12, OF _ _ r(1)] IH[OF r(3,2)] True b cur ext(2) h16 c by simp
    next
      case False
      then have n1: "n = 1" "xs = [src ! cur]" using i by (simp_all add: item_ok_def)
      let ?buf = "buf[207 + cur := src ! cur]"
      have "take (207 + (cur + n)) ?buf = take (207 + cur) ?buf @ [src ! cur]"
        using less(7) cur take_Suc_conv_app_nth[of "207 + cur" ?buf] by (simp add: n1)
      then have "take (207 + (cur + n)) ?buf = lpPrebuf @ take (cur + n) src"
        using less(6) cur by (simp add: n1 take_Suc_conv_app_nth)
      from IH[OF this] show ?thesis using step(5) at[of 0] False b cur ext(2) h16 n1 less(7) by simp
    qed
  qed
qed

lemma get_put_word: "get_word (xs @ put_word x @ ys) (length xs) = x"
proof (rule bit_word_eqI)
  fix k
  assume "k < LENGTH(32)"
  then consider "k < 8" | "8 \<le> k" "k < 16" | "16 \<le> k" "k < 24" | "24 \<le> k" "k < 32" by fastforce
  then show "bit (get_word (xs @ put_word x @ ys) (length xs)) k = bit x k"
    by cases (auto simp: get_word_def put_word_def nth_append bit_simps)
qed

lemma put_word_length [simp]: "length (put_word x) = 4"
  by (simp add: put_word_def)

lemma put_rtf_header_length [simp]: "length (put_rtf_header h) = 16"
  by (simp add: put_rtf_header_def)

lemma get_put_rtf_header: "get_rtf_header (put_rtf_header h @ ys) = h"
  using get_put_word[of "[]" "ulCompressedSize h"] get_put_word[of "put_word (ulCompressedSize h)" "ulUncompressedSize h"]
    get_put_word[of "put_word (ulCompressedSize h) @ put_word (ulUncompressedSize h)" "ulMagic h"]
    get_put_word[of "put_word (ulCompressedSize h) @ put_word (ulUncompressedSize h) @ put_word (ulMagic h)" "ulChecksum h"]
  by (simp add: get_rtf_header_def put_rtf_header_def)

text \<open>
  C30: compression of a document below 2 GB gives a stream that is at most an eighth and 19 bytes longer, whose header has
  its length less 4, the length of the document and the checksum of what follows, and whose decompression, into any memory
  that is large enough, gives the document, whatever new memory holds.
\<close>

theorem rtf_round_trip:
  assumes "length src < 2 ^ 31"
  shows "\<exists>out. rtf_compress src = Some out \<and> length out \<le> length src + length src div 8 + 19 \<and>
    unat (ulCompressedSize (get_rtf_header out)) + 4 = length out \<and> ulChecksum (get_rtf_header out) = crc32 (drop 16 out) \<and>
    unat (rtf_get_uncompressed_length out) = length src \<and>
    (\<forall>junk dest. length src \<le> length dest \<longrightarrow> rtf_decompress junk dest out = Some (0, src @ drop (length src) dest))"
proof -
  let ?F = "compress_loop src 0 0 0 []"
  let ?h = "\<lparr>ulCompressedSize = of_nat (16 + length ?F) - 4, ulUncompressedSize = of_nat (length src),
      ulMagic = RTF_COMPRESSED, ulChecksum = crc32 ?F\<rparr>"
  let ?out = "put_rtf_header ?h @ ?F"
  have ok: "flag_ok 0 0 []" "flags_at 0 0 0 0 ?F" by (simp_all add: flag_ok_def flags_at_def)
  have out: "rtf_compress src = Some ?out" using assms by (simp add: rtf_compress_def Let_def)
  have len: "length ?F \<le> length src + 2 + (length src + 8) div 8" using compress_extends[OF _ ok(1), of 0 src] by simp
  then have size: "length ?out \<le> length src + length src div 8 + 19" by simp
  have small: "unat (of_nat k :: u32) = k" if "k < 2 ^ 32" for k
    using that by (simp add: unsigned_of_nat take_bit_nat_eq_self)
  have n: "unat (of_nat (length src) :: u32) = length src" using assms by (intro small) simp
  have "of_nat (16 + length ?F) - 4 = (of_nat (12 + length ?F) :: u32)" by simp
  moreover have "length src < 2147483648" using assms by simp
  then have "12 + length ?F < 4294967296" using len by linarith
  then have "unat (of_nat (12 + length ?F) :: u32) = 12 + length ?F" by (intro small) simp
  ultimately have csize: "unat (ulCompressedSize (get_rtf_header ?out)) + 4 = length ?out" unfolding get_put_rtf_header by simp
  have magic: "RTF_COMPRESSED \<noteq> RTF_UNCOMPRESSED" by (simp add: RTF_COMPRESSED_def RTF_UNCOMPRESSED_def)
  have "unat (of_nat (length src + 207) :: u32) = length src + 207" using assms by (intro small) simp
  then have bufsize: "unat (of_nat (length src) + 207 :: u32) = length src + 207" by simp
  have loop: "decompress_loop ?out (length src + 207) 207 16 0 0 (lpPrebuf @ buf) = Some (lpPrebuf @ src)" if "length buf = length src" for buf
    using decompress_compressed[OF put_rtf_header_length assms _ ok(1) refl ok(2), of "lpPrebuf @ buf"] that
    by (simp add: add.commute)
  have "rtf_decompress junk dest ?out = Some (0, src @ drop (length src) dest)" if "length src \<le> length dest" for junk dest
    using that magic bufsize loop[of "drop 207 (map junk [0..<length src + 207])"]
    by (simp add: rtf_decompress_def get_put_rtf_header get_put_rtf_header[of _ "[]", simplified] n Let_def mem_write_def mem_read_def)
  then show ?thesis using out size csize by (simp add: get_put_rtf_header rtf_get_uncompressed_length_def n)
qed

theorem rtf_round_trip_witness:
  "\<exists>out. rtf_compress [65, 66, 65, 66, 65, 66, 65, 66] = Some out \<and> length out \<le> 28 \<and>
    rtf_decompress (\<lambda>_. 0) [1, 2, 3, 4, 5, 6, 7, 8, 9] out = Some (0, [65, 66, 65, 66, 65, 66, 65, 66, 9])"
proof -
  let ?src = "[65, 66, 65, 66, 65, 66, 65, 66] :: u8 list"
  have "length ?src < 2 ^ 31" by simp
  from rtf_round_trip[OF this] obtain out where c: "rtf_compress ?src = Some out" "length out \<le> length ?src + length ?src div 8 + 19"
    and r: "\<forall>junk dest. length ?src \<le> length dest \<longrightarrow> rtf_decompress junk dest out = Some (0, ?src @ drop (length ?src) dest)" by blast
  have "rtf_decompress (\<lambda>_. 0) [1, 2, 3, 4, 5, 6, 7, 8, 9] out = Some (0, ?src @ [9])"
    using r[rule_format, of "[1, 2, 3, 4, 5, 6, 7, 8, 9]" "\<lambda>_. 0"] by simp
  with c show ?thesis by (intro exI[of _ out]) simp
qed

end
