(* ===== verification/Spec2Isabelle.thy ===== *)
theory Spec2Isabelle
  imports Key_Limits Security_Grounds Recurrence_Props Free_Busy_Props Mem_Table_Props
  Text_Codes_Facts Lock_Manager Fifo_Buffer Mem_Stream_Facts Rtf_Facts
begin

text \<open>
  A verification development of the core of the Zarafa groupware server, its sorted tables, its
  object caches and access decisions, and its calendar: recurring appointments, time zones and
  free/busy data, the tables in memory that clients sort and restrict, and the buffers, streams, locks and
  text codes that all of it uses.

  \<^bold>\<open>The program.\<close> The server (\<^verbatim>\<open>provider/libserver\<close>) keeps folders, messages and access lists in
  an SQL database behind caches (\<^verbatim>\<open>ECCacheManager\<close>, over the template \<^verbatim>\<open>ECCache\<close>), decides for each
  request what a session may do (\<^verbatim>\<open>ECSecurity\<close>, which asks the cache manager for parents, owners and
  access lists), and shows contents as tables whose rows are kept sorted in a counted AVL tree
  (\<^verbatim>\<open>common/ECKeyTable.cpp\<close>). Clients and the free/busy service read and write recurrence blobs
  (\<^verbatim>\<open>m4lcommon/RecurrenceState.cpp\<close>), expand them (\<^verbatim>\<open>libfreebusy/recurrence.cpp\<close>), and merge and
  publish the result as blocks of minutes (\<^verbatim>\<open>libfreebusy/PublishFreeBusy.cpp\<close> and its neighbours). On the
  side of the clients, rows of properties are kept in tables in memory (\<^verbatim>\<open>m4lcommon/ECMemTable.cpp\<close>) whose
  views filter them with restrictions (\<^verbatim>\<open>m4lcommon/CommonUtil.cpp\<close>) and sort them with the same key table.

  \<^bold>\<open>The theories.\<close>
    \<^item> \<open>Zcp_Prelude\<close>: machine integers, result codes, generic lemmas, and the locale \<open>implements\<close>,
      a simulation between steps that may fail and a specification, with its induction over runs.
    \<^item> \<open>Memory\<close>: loads, stores and copies in an area of memory, undefined outside it; the reader of recurrence
      blobs and the decompression of message texts make their accesses with them.
    \<^item> \<open>Key_Order\<close>: the flags of sort columns and \<open>rowcompare\<close> of \<^verbatim>\<open>common/ECKeyTable.cpp\<close> with
      \<open>compareSortKeys\<close> of \<^verbatim>\<open>common/ustringutil.cpp\<close>; the locale \<open>row_order\<close> of a strict weak order,
      interpreted on \<open>rowcompare\<close>.
    \<^item> \<open>Key_Table\<close>: \<open>ECKeyTable\<close> and \<open>ECTableRow\<close> on an explicit store of row objects, one definition
      for each operation: the insertion, the unlinking, the rotations, the counts, the cursor, the
      map from object ids to rows, bookmarks, hidden rows. \<open>Key_Tree\<close>, \<open>Key_Rep\<close>, \<open>Key_Balance\<close>,
      \<open>Key_Insert\<close>, \<open>Key_Walk\<close>, \<open>Key_Frame\<close>, \<open>Key_Delete\<close> and \<open>Key_Unlink\<close> build up what the store
      represents: a zipper over trees of addresses, rebalancing as a function on trees, and for each
      pointer operation that it ends, reads no freed row, and refines that function. \<open>Key_Facts\<close>
      states the contract, functions on lists of rows, and proves that a table built by any calls of
      \<open>UpdateRow\<close> meets it; \<open>Key_Hide\<close> adds groups, \<open>Key_Limits\<close> \<open>Clear\<close>, depth and unsafe seeks.
    \<^item> \<open>Cache\<close>: \<open>ECCache\<close> of \<^verbatim>\<open>common/ECCache.h\<close>, with the locale \<open>keyed_cache\<close> of what a reader of a
      cache may rely on, interpreted on the model. \<open>Cache_Manager\<close>: the reads of objects, stores and
      access lists in \<^verbatim>\<open>provider/libserver/ECCacheManager.cpp\<close>, and their invalidation.
    \<^item> \<open>Security\<close>, \<open>Security_Facts\<close> and \<open>Security_Grounds\<close>: \<^verbatim>\<open>provider/libserver/ECSecurity.cpp\<close>, from the set-up of a
      session's user to \<open>CheckPermission\<close>, \<open>SetRights\<close> and the quota; the climb along parents as a
      search, membership in groups as an inductive relation, the rows that a change of rights asks for and the round
      through the cache manager after it; in \<open>Security_Grounds\<close> the grounds of an allowance as rules over what the
      server knows, without the code.
    \<^item> \<open>Calendar\<close> and \<open>Time_Facts\<close>: \<open>FILETIME\<close>, \<open>time_t\<close> and minutes since 1601 of
      \<^verbatim>\<open>common/platform.cpp\<close>, time zones of \<^verbatim>\<open>common/TimeUtil.cpp\<close>, static date functions of
      \<^verbatim>\<open>libfreebusy/recurrence.cpp\<close>.
    \<^item> \<open>Recurrence_State\<close> and \<open>Recurrence_Facts\<close>: \<open>ParseBlob\<close> and \<open>GetBlob\<close>.
    \<^item> \<open>Recurrence\<close>, \<open>Recurrence_Items\<close>, \<open>Recurrence_Expand\<close> and \<open>Recurrence_Props\<close>: the class
      \<open>recurrence\<close>; its pattern and exceptions, the loops of \<open>HrGetItems\<close>, these loops as folds over
      lists of days, and the properties of what is listed.
    \<^item> \<open>Free_Busy\<close>, \<open>Free_Busy_Facts\<close> and \<open>Free_Busy_Props\<close>: \<^verbatim>\<open>ECFBBlockList.cpp\<close>,
      \<^verbatim>\<open>ECEnumFBBlock.cpp\<close>, \<^verbatim>\<open>ECFreeBusyData.cpp\<close>, merging, and monthly event properties.
    \<^item> \<open>Mapi_Props\<close>, \<open>Restriction\<close>, \<open>Restriction_Facts\<close> and \<open>Restriction_Props\<close>: property values, their
      copies and comparison (\<^verbatim>\<open>m4lcommon/Util.cpp\<close>, \<^verbatim>\<open>common/ustringutil.cpp\<close>), \<open>TestRestriction\<close> of
      \<^verbatim>\<open>m4lcommon/CommonUtil.cpp\<close> on a row, and a reading of restrictions as formulas that it implements.
    \<^item> \<open>Mem_Table\<close>, \<open>Mem_Table_Facts\<close> and \<open>Mem_Table_Props\<close>: \<open>ECMemTable\<close> and \<open>ECMemTableView\<close> of
      \<^verbatim>\<open>m4lcommon/ECMemTable.cpp\<close>, clients of the key table and of restrictions; what a view shows as a
      function of the table, and that changes and sorting keep every view in step with it.
    \<^item> \<open>Text_Codes\<close> and \<open>Text_Codes_Facts\<close>: \<^verbatim>\<open>common/base64.cpp\<close> and the codes, escapes and line ends of
      \<^verbatim>\<open>common/stringutil.cpp\<close>.
    \<^item> \<open>Fifo_Buffer\<close>: \<^verbatim>\<open>common/ECFifoBuffer.cpp\<close> with a writer and a reader in any order of steps; what
      the calls were given and have returned is read off the trace of a run.
      \<open>Mem_Stream\<close> and \<open>Mem_Stream_Facts\<close>: \<^verbatim>\<open>common/ECMemStream.cpp\<close>, blocks and streams over them.
    \<^item> \<open>Rtf\<close> and \<open>Rtf_Facts\<close>: \<^verbatim>\<open>mapi4linux/src/rtf.cpp\<close>, the compressed form of message texts.
    \<^item> \<open>Lock_Manager\<close>: \<^verbatim>\<open>provider/libserver/ECLockManager.cpp\<close> and the locks of a session in
      \<^verbatim>\<open>provider/libserver/ECSession.cpp\<close>, with sessions in any order.

  \<^bold>\<open>State and operations.\<close> A class is a record with the names of its members, a method a function
  from the record and its arguments to a result and the record after it. A pointer structure that
  is shared or cyclic (the key table) is a store from addresses to rows. Errors are the codes that
  the code returns, in a sum where the result is undefined on error. Undefined behaviour (a null
  or dangling pointer, an index out of range, a remainder by zero, a negative shift) and a loop that
  does not end are \<open>None\<close>, so a theorem that says \<open>= Some _\<close> also says that neither happens.
  Code outside the repository is a parameter: the answers of the database and of the user
  management, character set conversion, where a container puts a new key, the clock.

  \<^bold>\<open>Loops.\<close> Loops over the store follow links and are \<open>partial_function (option)\<close>, as are the loops
  over times in \<open>HrGetItems\<close> and the search for the groups of a user; that they end is proved from the
  representation of a tree, from a step that is not zero, and from a finite set of groups. The
  climbs of \<open>GetObjectPermission\<close> and of the check for deleted parents count to the code's limit of
  64. The search for a free slot counts rounds, one for each block and one more, which is enough because
  every round takes the next block (its result is proved exact). The loop of \<open>CopyTo\<close> is \<open>partial_function (option)\<close>, and where it does not end
  is stated exactly. No other definition counts rounds.

  \<^bold>\<open>What the lemmas show.\<close> For the key table: a refinement of functions on lists (rows stay sorted,
  an update replaces, a deletion removes, counts and seeks agree with positions), AVL balance and so
  logarithmic depth after any run of updates, memory safety of seeking and clearing, undoing of hidden groups. For the caches:
  accounting, hits return what was added last, and a coherent manager is transparent and stays so
  under \<open>Update\<close>. For access: exact permissions, exact groups, the grounds of every allowance. For the
  calendar: the occurrences listed are exactly those that the pattern names and that are neither
  deleted nor modified, parsing undoes writing and stays inside its data, merged blocks keep the status of every minute, the
  published months are read back. For tables in memory: every view shows exactly the rows that its
  restriction lets pass, sorted, and a restriction means what its formula says. For the rest: a stream is a
  file, a buffer gives out what was put in and no wakeup is lost, a lock stays with its session, decoding
  undoes encoding, and damaged compressed texts make the code leave its buffers exactly where it is said.

  Where the code does something other than what it says, a theorem states what it does: seeking
  after the row under the cursor is deleted, reading backwards from the end, a task blob that ends
  early, appointments back to back, a block that ends behind the last published month, patterns
  whose step wraps to zero, a week mask without a day, deleting a row that the first view hides, a second
  attempt at a lock, differences that wrap, streams made shorter than their position.

  \<^bold>\<open>Not modelled.\<close> Reference counts, locks and logging; statistics that are only displayed; the
  caches of cells, users, servers and indexed properties in \<^verbatim>\<open>ECCacheManager\<close>, which repeat the
  pattern of the modelled ones over SOAP structures; rule actions and restrictions on the recipients or
  attachments of an open message; SQL, SOAP and MAPI calls (the request handlers of
  \<^verbatim>\<open>provider/libserver\<close>, the client in \<^verbatim>\<open>provider/client\<close>, the gateways, converters between iCal or
  MIME and MAPI, and the administration tools), whose behaviour lies in libraries and services
  outside the repository; vendored code and language bindings.
\<close>

end
